(* ===== verification/Prelude.thy ===== *)
theory Prelude
  imports Main "HOL-Library.Word" "HOL-Library.Signed_Division" "HOL-Library.Monad_Syntax"
begin

unbundle bit_operations_syntax

text \<open>
  Shared vocabulary of the development: the C integer types, the pointer types, the status
  codes of the MMAL interface (\<^verbatim>\<open>mmal_types.h\<close>), and the generic lemmas on linked
  structures and on wrapped integers that the component theories use.

  Unsigned C integers are machine words (\<open>u32\<close>, \<open>u64\<close>).  Signed C integers are HOL
  integers, and every C operation whose result can leave the type is wrapped by \<open>s32\<close> or
  \<open>s64\<close>, the two's complement reduction to 32 or 64 bits.  A pointer that may be null is an
  \<open>addr option\<close>; a store maps addresses to the structs that live there.
\<close>

section \<open>Machine integers\<close>

type_synonym u8 = "8 word"
type_synonym u16 = "16 word"
type_synonym u32 = "32 word"
type_synonym u64 = "64 word"

definition s32 :: "int \<Rightarrow> int" where
  "s32 k = signed_take_bit 31 k"

definition s64 :: "int \<Rightarrow> int" where
  "s64 k = signed_take_bit 63 k"

abbreviation INT32_MIN :: int where "INT32_MIN \<equiv> - 2147483648"
abbreviation INT32_MAX :: int where "INT32_MAX \<equiv> 2147483647"

definition is_s32 :: "int \<Rightarrow> bool" where
  "is_s32 k \<longleftrightarrow> INT32_MIN \<le> k \<and> k \<le> INT32_MAX"

definition is_s64 :: "int \<Rightarrow> bool" where
  "is_s64 k \<longleftrightarrow> - (2 ^ 63) \<le> k \<and> k < 2 ^ 63"

named_theorems c_arith "facts on wrapped C integers"

lemma s32_id [c_arith]: "is_s32 k \<Longrightarrow> s32 k = k"
  unfolding s32_def is_s32_def by (simp add: signed_take_bit_int_eq_self)

lemma s64_id [c_arith]: "is_s64 k \<Longrightarrow> s64 k = k"
  unfolding s64_def is_s64_def by (simp add: signed_take_bit_int_eq_self)

lemma is_s32_s32 [simp]: "is_s32 (s32 k)"
  using signed_take_bit_int_greater_eq_minus_exp [of 31 k] signed_take_bit_int_less_exp [of 31 k]
  unfolding s32_def is_s32_def by simp

lemma is_s64_s64 [simp]: "is_s64 (s64 k)"
  using signed_take_bit_int_greater_eq_minus_exp [of 63 k] signed_take_bit_int_less_exp [of 63 k]
  unfolding s64_def is_s64_def by simp

lemma s32_s32 [simp]: "s32 (s32 k) = s32 k"
  by (simp add: s32_id)

lemma s64_s64 [simp]: "s64 (s64 k) = s64 k"
  by (simp add: s64_id)

lemma s32_fix_iff: "s32 k = k \<longleftrightarrow> is_s32 k"
  by (metis is_s32_s32 s32_id)

lemma s64_fix_iff: "s64 k = k \<longleftrightarrow> is_s64 k"
  by (metis is_s64_s64 s64_id)

lemma is_s64_of_s32: "is_s32 k \<Longrightarrow> is_s64 k"
  by (simp add: is_s32_def is_s64_def)

lemma is_s64_mult_s32: "is_s32 a \<Longrightarrow> is_s32 b \<Longrightarrow> is_s64 (a * b)"
proof -
  assume "is_s32 a" "is_s32 b"
  then have "\<bar>a\<bar> \<le> 2147483648" "\<bar>b\<bar> \<le> 2147483648"
    by (auto simp: is_s32_def)
  then have "\<bar>a * b\<bar> \<le> 2147483648 * 2147483648"
    unfolding abs_mult by (intro mult_mono) auto
  then show ?thesis by (auto simp: is_s64_def)
qed

text \<open>The C division truncates towards zero; on exact quotients it is the usual one.\<close>

lemma sdiv_exact: "b \<noteq> 0 \<Longrightarrow> b dvd a \<Longrightarrow> a sdiv b = a div b" for a b :: int
  by (simp add: signed_divide_int_eq_divide_int)

lemma sdiv_mult_exact: "b dvd a \<Longrightarrow> b \<noteq> 0 \<Longrightarrow> (a sdiv b) * b = a" for a b :: int
  by (simp add: sdiv_exact)

lemma unat_u32_less: "unat (x :: u32) < 2 ^ 32"
  using unsigned_less [of x, where 'a = nat] by simp

section \<open>Pointers, status codes\<close>

type_synonym addr = nat

datatype mmal_status =
    MMAL_SUCCESS | MMAL_ENOMEM | MMAL_ENOSPC | MMAL_EINVAL | MMAL_ENOSYS | MMAL_ENOENT
  | MMAL_ENXIO | MMAL_EIO | MMAL_ESPIPE | MMAL_ECORRUPT | MMAL_ENOTREADY | MMAL_ECONFIG
  | MMAL_EISCONN | MMAL_ENOTCONN | MMAL_EAGAIN | MMAL_EFAULT | MMAL_STATUS_MAX

text \<open>\<open>MMAL_TIME_UNKNOWN\<close> is \<open>INT64_C(1) << 63\<close>, the least 64-bit integer.\<close>

definition MMAL_TIME_UNKNOWN :: int where
  "MMAL_TIME_UNKNOWN = - (2 ^ 63)"

definition MMAL_FOURCC :: "char \<Rightarrow> char \<Rightarrow> char \<Rightarrow> char \<Rightarrow> u32" where
  "MMAL_FOURCC a b c d =
     word_of_nat (of_char a) OR push_bit 8 (word_of_nat (of_char b)) OR
     push_bit 16 (word_of_nat (of_char c)) OR push_bit 24 (word_of_nat (of_char d))"

section \<open>Linked segments in a store\<close>

text \<open>
  \<open>lseg nx p xs q\<close>: following \<open>nx\<close> from \<open>p\<close> visits exactly the cells \<open>xs\<close> and ends at
  \<open>q\<close>.  With \<open>q = None\<close> this is a null-terminated list.
\<close>

primrec lseg :: "(addr \<Rightarrow> addr option) \<Rightarrow> addr option \<Rightarrow> addr list \<Rightarrow> addr option \<Rightarrow> bool" where
  "lseg nx p [] q \<longleftrightarrow> p = q"
| "lseg nx p (x # xs) q \<longleftrightarrow> p = Some x \<and> lseg nx (nx x) xs q"

named_theorems lseg_simps "rewriting of linked segments"

lemma lseg_append [lseg_simps]:
  "lseg nx p (xs @ ys) q \<longleftrightarrow> (\<exists>r. lseg nx p xs r \<and> lseg nx r ys q)"
  by (induction xs arbitrary: p) auto

lemma lseg_cong:
  "(\<And>x. x \<in> set xs \<Longrightarrow> nx x = nx' x) \<Longrightarrow> lseg nx p xs q = lseg nx' p xs q"
  by (induction xs arbitrary: p) auto

lemma lseg_upd [lseg_simps]: "a \<notin> set xs \<Longrightarrow> lseg (nx(a := v)) p xs q = lseg nx p xs q"
  by (rule lseg_cong) auto

lemma lseg_None_iff: "lseg nx None xs q \<longleftrightarrow> xs = [] \<and> q = None"
  by (cases xs) auto

lemma lseg_nonempty_head: "lseg nx p xs q \<Longrightarrow> xs \<noteq> [] \<Longrightarrow> p = Some (hd xs)"
  by (cases xs) auto

lemma lseg_unique: "lseg nx p xs None \<Longrightarrow> lseg nx p ys None \<Longrightarrow> xs = ys"
proof (induction xs arbitrary: p ys)
  case Nil
  then show ?case by (simp add: lseg_None_iff)
next
  case (Cons x xs)
  then show ?case by (cases ys) auto
qed

lemma lseg_last_next:
  assumes "lseg nx p xs q" and "xs \<noteq> []"
  shows "nx (last xs) = q"
  using assms by (induction xs arbitrary: p) auto

lemma sorted_last_le: "sorted xs \<Longrightarrow> x \<in> set xs \<Longrightarrow> x \<le> last xs"
  by (induction xs) auto

end
