(* ===== verification/Vcos.thy ===== *)
theory Vcos
  imports Prelude
begin

text \<open>
  The operating system layer, VCOS: memory (\<^verbatim>\<open>vcos/generic/vcos_mem_from_malloc.c\<close>) and the
  POSIX wrappers of mutexes and semaphores (\<^verbatim>\<open>vcos/pthreads/vcos_platform.h\<close>).

  What the operating system answers is not determined by the program.  \<open>os_store\<close> holds those
  answers as lists that the calls consume in order: \<open>mallocs\<close> (a null or non-null pointer for
  each allocation), \<open>creates\<close> (success or failure of each creation of a mutex, semaphore, timer or thread) and
  \<open>clock_readings\<close> (readings of the microsecond clock).  A theorem quantifies over the lists, so it covers every
  behaviour of the system.  An exhausted list answers with failure.  \<open>live\<close> and \<open>sync\<close> record
  the blocks and the synchronisation objects that exist, so that leaks and double frees show.
\<close>

section \<open>Blocks of memory\<close>

text \<open>\<open>VCOS_ALIGN_UP\<close>, on 32-bit pointers.\<close>

definition VCOS_ALIGN_UP :: "u32 \<Rightarrow> u32 \<Rightarrow> u32" where
  "VCOS_ALIGN_UP p n = (p + n - 1) AND NOT (n - 1)"

definition GUARDWORDHEAP :: u32 where
  "GUARDWORDHEAP = 0xa55a5aa5"

record malloc_header =
  guardword :: u32
  hdr_size :: u32
  hdr_ptr :: u32

definition sizeof_MALLOC_HEADER_T :: u32 where
  "sizeof_MALLOC_HEADER_T = 16"

definition MIN_ALIGN :: u32 where
  "MIN_ALIGN = sizeof_MALLOC_HEADER_T"

text \<open>
  The result is the pointer handed to the caller with the header written just below it; \<open>malloc\<close>
  is the C library's allocator.
\<close>

definition vcos_generic_mem_required :: "u32 \<Rightarrow> u32 \<Rightarrow> u32" where
  "vcos_generic_mem_required sz align =
     sz + (if align = 0 then 1 else align) + sizeof_MALLOC_HEADER_T"

definition vcos_generic_mem_alloc_aligned ::
  "(u32 \<Rightarrow> u32 option) \<Rightarrow> u32 \<Rightarrow> u32 \<Rightarrow> (u32 \<times> malloc_header) option" where
  "vcos_generic_mem_alloc_aligned malloc sz align =
     (let local_align = (if align = 0 then 1 else align) in
      case malloc (vcos_generic_mem_required sz align) of
        None \<Rightarrow> None
      | Some ptr \<Rightarrow>
          Some (VCOS_ALIGN_UP (ptr + sizeof_MALLOC_HEADER_T) local_align,
                \<lparr>guardword = GUARDWORDHEAP, hdr_size = sz, hdr_ptr = ptr\<rparr>))"

definition vcos_generic_mem_alloc :: "(u32 \<Rightarrow> u32 option) \<Rightarrow> u32 \<Rightarrow> (u32 \<times> malloc_header) option" where
  "vcos_generic_mem_alloc malloc sz = vcos_generic_mem_alloc_aligned malloc sz MIN_ALIGN"

text \<open>The product \<open>count*sz\<close> is computed in 32 bits.\<close>

definition vcos_generic_mem_calloc :: "(u32 \<Rightarrow> u32 option) \<Rightarrow> u32 \<Rightarrow> u32 \<Rightarrow> (u32 \<times> malloc_header) option" where
  "vcos_generic_mem_calloc malloc count sz = vcos_generic_mem_alloc_aligned malloc (count * sz) MIN_ALIGN"

text \<open>The pointer handed to the C library's \<open>free\<close>, from the header below the block; none for null.\<close>

definition vcos_generic_mem_free :: "(u32 \<Rightarrow> malloc_header) \<Rightarrow> u32 \<Rightarrow> u32 option" where
  "vcos_generic_mem_free header_at ptr =
     (if ptr = 0 then None else Some (hdr_ptr (header_at (ptr - sizeof_MALLOC_HEADER_T))))"

lemma and_not_mask_eq: "x AND NOT (2 ^ k - 1) = x - take_bit k x" for x :: "'a::len word"
proof -
  have "x = (x AND NOT (mask k)) + (x AND mask k)"
    by (subst disjunctive_add) (auto simp: bit_simps bit_eq_iff)
  then show ?thesis by (simp add: take_bit_eq_mask mask_eq_decr_exp algebra_simps)
qed

lemma unat_align_down:
  "unat (x AND NOT (2 ^ k - 1)) = unat x - unat x mod 2 ^ k" for x :: "'a::len word"
proof -
  have le: "unat (take_bit k x) \<le> unat x"
    by (simp add: unsigned_take_bit_eq take_bit_nat_less_eq_self)
  then have "take_bit k x \<le> x" by (simp add: word_le_nat_alt)
  then have "unat (x - take_bit k x) = unat x - unat (take_bit k x)" by (rule unat_sub)
  moreover have "unat (take_bit k x) = unat x mod 2 ^ k"
    by (subst unsigned_take_bit_eq, rule take_bit_eq_mod)
  ultimately show ?thesis by (simp only: and_not_mask_eq)
qed

text \<open>
  When the sizes do not wrap, the pointer returned by the aligned allocator is aligned, and
  its header and its \<open>size\<close> bytes lie inside the block obtained from \<open>malloc\<close>.
\<close>

theorem vcos_generic_mem_alloc_aligned_fits:
  assumes alloc: "vcos_generic_mem_alloc_aligned malloc sz (2 ^ k) = Some (ret, h)"
    and k: "k < 32"
    and small: "unat sz + 2 ^ k + 16 < 2 ^ 32"
    and block: "\<And>n p. malloc n = Some p \<Longrightarrow> unat p + unat n < 2 ^ 32"
  shows "unat (hdr_ptr h) + 16 \<le> unat ret \<and>
         unat ret + unat sz \<le> unat (hdr_ptr h) + unat (vcos_generic_mem_required sz (2 ^ k)) \<and>
         2 ^ k dvd unat ret"
proof -
  have u2: "unat (2 ^ k :: u32) = 2 ^ k" 
  proof -
    have "(2::nat) ^ k < 2 ^ 32" using k by (intro power_strict_increasing) auto
    then show ?thesis using unat_of_nat [of "2 ^ k", where 'a = 32] by simp
  qed
  then have nz: "(2 ^ k :: u32) \<noteq> 0" by (metis power_not_zero unat_0 zero_neq_numeral)
  obtain p where p: "malloc (vcos_generic_mem_required sz (2 ^ k)) = Some p"
    and h: "hdr_ptr h = p" and ret: "ret = VCOS_ALIGN_UP (p + 16) (2 ^ k)"
    using alloc nz unfolding vcos_generic_mem_alloc_aligned_def
    by (auto simp: Let_def sizeof_MALLOC_HEADER_T_def split: option.splits)
  have req: "unat (vcos_generic_mem_required sz (2 ^ k)) = unat sz + 2 ^ k + 16"
    using small nz u2
    by (simp add: vcos_generic_mem_required_def sizeof_MALLOC_HEADER_T_def unat_word_ariths)
  have fit: "unat p + (unat sz + 2 ^ k + 16) < 2 ^ 32" using block [OF p] req by simp
  have "p + 16 + 2 ^ k - 1 = p + 15 + 2 ^ k" by simp
  moreover have "unat (p + 15 + 2 ^ k) = unat p + 15 + 2 ^ k"
    using fit u2 by (simp add: unat_word_ariths)
  ultimately have r: "unat ret = (unat p + 15 + 2 ^ k) - (unat p + 15 + 2 ^ k) mod 2 ^ k"
    unfolding ret VCOS_ALIGN_UP_def by (simp only: unat_align_down)
  define e m where "e = (2::nat) ^ k" and "m = (unat p + 15 + 2 ^ k) mod 2 ^ k"
  have "m < e" by (simp add: e_def m_def)
  moreover have "unat ret = (unat p + 15 + e) - m" using r by (simp add: e_def m_def)
  moreover have "unat (vcos_generic_mem_required sz (2 ^ k)) = unat sz + e + 16"
    using req by (simp add: e_def)
  ultimately have "unat (hdr_ptr h) + 16 \<le> unat ret \<and>
    unat ret + unat sz \<le> unat (hdr_ptr h) + unat (vcos_generic_mem_required sz (2 ^ k))"
    unfolding h by linarith
  moreover have "2 ^ k dvd unat ret" unfolding r by (rule dvd_minus_mod)
  ultimately show ?thesis by blast
qed

theorem vcos_generic_mem_alloc_aligned_fits_witness:
  "unat (VCOS_ALIGN_UP (1001 + 16) (2 ^ 4)) + 100 \<le> 1001 + (132::nat)"
proof -
  let ?m = "\<lambda>n::u32. if n = 132 then Some (1001::u32) else None"
  have "vcos_generic_mem_alloc_aligned ?m 100 (2 ^ 4) =
      Some (VCOS_ALIGN_UP (1001 + 16) (2 ^ 4), \<lparr>guardword = GUARDWORDHEAP, hdr_size = 100, hdr_ptr = 1001\<rparr>)"
    by (simp add: vcos_generic_mem_alloc_aligned_def vcos_generic_mem_required_def sizeof_MALLOC_HEADER_T_def)
  moreover have "\<And>n p. ?m n = Some p \<Longrightarrow> unat p + unat n < 2 ^ 32" by (simp split: if_splits)
  ultimately show ?thesis
    using vcos_generic_mem_alloc_aligned_fits [of ?m 100 4]
    by (simp add: vcos_generic_mem_required_def sizeof_MALLOC_HEADER_T_def)
qed

section \<open>The store of the operating system objects\<close>

datatype sync_object = Mutex addr | Semaphore addr | Timer addr | Thread addr

record os_store =
  mallocs :: "addr option list"
  creates :: "bool list"
  clock_readings :: "u64 list"
  live :: "(addr \<times> u32) list"
  sync :: "sync_object list"

definition vcos_malloc :: "u32 \<Rightarrow> 'a os_store_scheme \<Rightarrow> addr option \<times> 'a os_store_scheme" where
  "vcos_malloc sz s =
     (case mallocs s of
        [] \<Rightarrow> (None, s)
      | None # ms \<Rightarrow> (None, s\<lparr>mallocs := ms\<rparr>)
      | Some a # ms \<Rightarrow> (Some a, s\<lparr>mallocs := ms, live := (a, sz) # live s\<rparr>))"

text \<open>\<open>vcos_calloc\<close> computes \<open>num * size\<close> in 32 bits; what it zeroes is set by the callers.\<close>

definition vcos_calloc :: "u32 \<Rightarrow> u32 \<Rightarrow> 'a os_store_scheme \<Rightarrow> addr option \<times> 'a os_store_scheme" where
  "vcos_calloc count sz s = vcos_malloc (count * sz) s"

definition vcos_free :: "addr option \<Rightarrow> 'a os_store_scheme \<Rightarrow> 'a os_store_scheme" where
  "vcos_free p s =
     (case p of None \<Rightarrow> s | Some a \<Rightarrow> s\<lparr>live := filter (\<lambda>(b, _). b \<noteq> a) (live s)\<rparr>)"

definition vcos_create :: "sync_object \<Rightarrow> 'a os_store_scheme \<Rightarrow> bool \<times> 'a os_store_scheme" where
  "vcos_create obj s =
     (case creates s of
        [] \<Rightarrow> (False, s)
      | False # bs \<Rightarrow> (False, s\<lparr>creates := bs\<rparr>)
      | True # bs \<Rightarrow> (True, s\<lparr>creates := bs, sync := obj # sync s\<rparr>))"

definition vcos_delete :: "sync_object \<Rightarrow> 'a os_store_scheme \<Rightarrow> 'a os_store_scheme" where
  "vcos_delete obj s = s\<lparr>sync := remove1 obj (sync s)\<rparr>"

definition vcos_getmicrosecs64 :: "'a os_store_scheme \<Rightarrow> u64 \<times> 'a os_store_scheme" where
  "vcos_getmicrosecs64 s =
     (case clock_readings s of
        [] \<Rightarrow> (0, s)
      | [t] \<Rightarrow> (t, s)
      | t # ts \<Rightarrow> (t, s\<lparr>clock_readings := ts\<rparr>))"

definition vcos_getmicrosecs :: "'a os_store_scheme \<Rightarrow> u32 \<times> 'a os_store_scheme" where
  "vcos_getmicrosecs s = (let (t, s) = vcos_getmicrosecs64 s in (ucast t, s))"

lemma vcos_getmicrosecs_eq:
  "vcos_getmicrosecs s =
     (case clock_readings s of
        [] \<Rightarrow> (0, s)
      | [t] \<Rightarrow> (ucast t, s)
      | t # ts \<Rightarrow> (ucast t, s\<lparr>clock_readings := ts\<rparr>))"
  by (simp add: vcos_getmicrosecs_def vcos_getmicrosecs64_def split: list.split)

text \<open>
  What is documented of \<open>malloc\<close>: a block handed out is not one that exists, nor handed out twice.
\<close>

definition granted :: "'a os_store_scheme \<Rightarrow> addr list" where
  "granted s = List.map_filter id (mallocs s)"

definition fresh_allocs :: "'a os_store_scheme \<Rightarrow> bool" where
  "fresh_allocs s \<longleftrightarrow> distinct (granted s) \<and> set (granted s) \<inter> fst ` set (live s) = {}"

lemma granted_simps [simp]:
  "mallocs s = [] \<Longrightarrow> granted s = []"
  "mallocs s = None # ms \<Longrightarrow> granted s = List.map_filter id ms"
  "mallocs s = Some a # ms \<Longrightarrow> granted s = a # List.map_filter id ms"
  by (simp_all add: granted_def List.map_filter_simps)

lemma vcos_malloc_Some:
  assumes "vcos_malloc sz s = (Some a, s')" "fresh_allocs s"
  shows "s' = s\<lparr>mallocs := tl (mallocs s), live := (a, sz) # live s\<rparr>" and "a \<notin> fst ` set (live s)"
    and "fresh_allocs s'"
  using assms by (auto simp: vcos_malloc_def fresh_allocs_def granted_def List.map_filter_simps
      split: list.splits option.splits) (force simp: disjoint_iff)

lemma vcos_malloc_None:
  assumes "vcos_malloc sz s = (None, s')"
  shows "s' = s\<lparr>mallocs := tl (mallocs s)\<rparr>"
  using assms by (auto simp: vcos_malloc_def split: list.splits option.splits)

lemma vcos_malloc_fresh:
  assumes "vcos_malloc sz s = (r, s')" "fresh_allocs s"
  shows "fresh_allocs s'"
proof (cases r)
  case None
  have "set (granted s') \<subseteq> set (granted s) \<and> (distinct (granted s) \<longrightarrow> distinct (granted s'))"
    using assms(1) None
    by (auto simp: vcos_malloc_def granted_def List.map_filter_simps split: list.splits option.splits)
  moreover have "live s' = live s" using vcos_malloc_None assms(1) None by fastforce
  ultimately show ?thesis using assms(2) unfolding fresh_allocs_def by auto
next
  case (Some a)
  then show ?thesis using vcos_malloc_Some(3) assms by blast
qed

lemma vcos_create_cases:
  assumes "vcos_create obj s = (ok, s')"
  shows "s' = s\<lparr>creates := tl (creates s), sync := (if ok then obj # sync s else sync s)\<rparr>"
  using assms by (auto simp: vcos_create_def split: list.splits bool.splits)

lemma vcos_free_fresh:
  "a \<notin> fst ` set xs \<Longrightarrow> filter (\<lambda>(b, _). b \<noteq> a) xs = xs"
  by (induction xs) auto

text \<open>The status codes of VCOS.\<close>

datatype vcos_status =
    VCOS_SUCCESS | VCOS_EAGAIN | VCOS_ENOENT | VCOS_ENOSPC | VCOS_EINVAL | VCOS_EACCESS
  | VCOS_ENOMEM | VCOS_ENOSYS | VCOS_EEXIST | VCOS_ENXIO | VCOS_EINTR

section \<open>Semaphores\<close>

text \<open>A semaphore is its count.  A wait on zero blocks: \<open>None\<close>.\<close>

definition vcos_semaphore_wait :: "nat \<Rightarrow> nat option" where
  "vcos_semaphore_wait sem = (if sem = 0 then None else Some (sem - 1))"

definition vcos_semaphore_post :: "nat \<Rightarrow> nat" where
  "vcos_semaphore_post sem = Suc sem"

text \<open>The deadline that \<open>vcos_semaphore_wait_timeout\<close> passes to \<open>sem_timedwait\<close>.\<close>

definition vcos_semaphore_deadline :: "int \<times> int \<Rightarrow> u32 \<Rightarrow> int \<times> int" where
  "vcos_semaphore_deadline ts timeout =
     (let tv_sec = s32 (fst ts + uint (timeout div 1000));
          tv_nsec = s32 (snd ts + uint ((timeout mod 1000) * 1000 * 1000))
      in if tv_nsec > 1000000000 then (s32 (tv_sec + 1), tv_nsec - 1000000000)
         else (tv_sec, tv_nsec))"

definition valid_timespec :: "int \<times> int \<Rightarrow> bool" where
  "valid_timespec ts \<longleftrightarrow> 0 \<le> snd ts \<and> snd ts < 1000000000"

lemma unat_mult_million: "unat x < 1000 \<Longrightarrow> unat (1000000 * x :: u32) = unat x * 1000000"
  by (simp add: unat_word_ariths)

lemma uint_mod_ms: "uint (1000000 * (timeout mod 1000) :: u32) = (uint timeout mod 1000) * 1000000"
proof -
  have u: "unat (timeout mod 1000) = unat timeout mod 1000" by (simp add: unat_mod_distrib)
  then have "unat (1000000 * (timeout mod 1000) :: u32) = (unat timeout mod 1000) * 1000000"
    by (simp add: unat_mult_million)
  then show ?thesis by (simp only: uint_nat of_nat_mult of_nat_mod of_nat_numeral)
qed

text \<open>
  From a valid current time the deadline keeps the exact sum of the current time and the timeout, but
  its nanoseconds may reach 1000000000 (the test is \<open>>\<close>, not \<open>>=\<close>); they are in
  range exactly when the nanosecond sum is not 1000000000.
\<close>

theorem vcos_semaphore_deadline_normal:
  assumes ts: "valid_timespec ts" and range: "0 \<le> fst ts" "fst ts + 4294968 < INT32_MAX"
  shows "let d = vcos_semaphore_deadline ts timeout in
     fst d * 1000000000 + snd d = fst ts * 1000000000 + snd ts + uint timeout * 1000000 \<and>
     (valid_timespec d \<longleftrightarrow> snd ts + (uint timeout mod 1000) * 1000000 \<noteq> 1000000000)"
proof -
  define q r where "q = uint timeout div 1000" and "r = uint timeout mod 1000"
  have t: "uint timeout = 1000 * q + r" by (simp add: q_def r_def)
  have "uint timeout < 4294967296" using uint_lt2p [of timeout] by simp
  moreover have "0 \<le> uint timeout" "0 \<le> r" "r < 1000" by (simp_all add: r_def)
  ultimately have qr: "0 \<le> q" "q \<le> 4294967" "0 \<le> r" "r < 1000" using t by linarith+
  have ns: "0 \<le> snd ts" "snd ts < 1000000000" using ts by (auto simp: valid_timespec_def)
  have "s32 (fst ts + q) = fst ts + q" "s32 (fst ts + q + 1) = fst ts + q + 1"
    "s32 (snd ts + r * 1000000) = snd ts + r * 1000000"
    using range qr ns by (auto intro!: s32_id simp: is_s32_def)
  moreover have "uint (timeout div 1000) = q" by (simp add: q_def uint_div)
  ultimately have d: "vcos_semaphore_deadline ts timeout =
      (if snd ts + r * 1000000 > 1000000000 then (fst ts + q + 1, snd ts + r * 1000000 - 1000000000)
       else (fst ts + q, snd ts + r * 1000000))"
    by (simp add: vcos_semaphore_deadline_def uint_mod_ms r_def Let_def)
  show ?thesis unfolding d Let_def t using qr ns by (auto simp: valid_timespec_def)
qed

theorem vcos_semaphore_deadline_normal_witness:
  "\<not> valid_timespec (vcos_semaphore_deadline (5, 999000000) 1)"
  using vcos_semaphore_deadline_normal [of "(5, 999000000)" 1] by (simp add: valid_timespec_def Let_def)

end
