(* ===== verification/BufferHeader.thy ===== *)
theory BufferHeader
  imports Vcos
begin

text \<open>
  Buffer headers, \<^verbatim>\<open>mmal/core/mmal_buffer.c\<close> with the structs of \<^verbatim>\<open>mmal/mmal_buffer.h\<close> and
  \<^verbatim>\<open>mmal/core/mmal_buffer_private.h\<close>: reference counting, replication by reference, reset, layout.

  The public struct, its type specific area and its private area are one memory block of
  \<open>mmal_buffer_header_size\<close> bytes; the model keeps them in one record.  A function pointer
  stored in a header is a name (\<open>nat\<close> for a client's function); what the client's functions do is
  the argument \<open>release_env\<close>.
\<close>

section \<open>Data\<close>

record mmal_buffer_type_specific =
  planes :: u32
  plane_offset :: "u32 list"
  plane_pitch :: "u32 list"
  video_flags :: u32

datatype release_fn = Mmal_pool_buffer_header_release | Client_release nat

datatype payload_allocator = Mmal_pool_allocator_default | Mmal_port_payload | Client_allocator nat

record mmal_buffer_header =
  bh_next :: "addr option"
  bh_cmd :: u32
  bh_data :: "addr option"
  bh_alloc_size :: u32
  bh_length :: u32
  bh_offset :: u32
  bh_flags :: u32
  bh_pts :: int
  bh_dts :: int
  bh_type :: mmal_buffer_type_specific
  bh_user_data :: "addr option"
  \<comment> \<open>the private area\<close>
  pf_pre_release :: "nat option"
  pre_release_userdata :: "addr option"
  pf_release :: "release_fn option"
  owner :: "addr option"
  refcount :: int
  reference :: "addr option"
  pf_payload_free :: "payload_allocator option"
  payload :: "addr option"
  payload_context :: "addr option"
  payload_size :: u32
  component_data :: "addr option"
  payload_handle :: "addr option"
  driver_area :: "u8 list"

text \<open>The store of the buffer headers extends that of the operating system objects.\<close>

record bh_store = os_store +
  bufs :: "addr \<Rightarrow> mmal_buffer_header"

definition upd_buf ::
  "addr \<Rightarrow> (mmal_buffer_header \<Rightarrow> mmal_buffer_header) \<Rightarrow> 'a bh_store_scheme \<Rightarrow> 'a bh_store_scheme" where
  "upd_buf h f s = s\<lparr>bufs := (bufs s)(h := f (bufs s h))\<rparr>"

lemma bufs_upd_buf [simp]: "bufs (upd_buf h f s) = (bufs s)(h := f (bufs s h))"
  by (simp add: upd_buf_def)

lemma upd_buf_upd_buf [simp]: "upd_buf h f (upd_buf h g s) = upd_buf h (f \<circ> g) s"
  by (simp add: upd_buf_def)

lemma upd_buf_id: "f (bufs s h) = bufs s h \<Longrightarrow> upd_buf h f s = s"
  by (simp add: upd_buf_def)

section \<open>Layout\<close>

definition ROUND_UP :: "u32 \<Rightarrow> u32 \<Rightarrow> u32" where
  "ROUND_UP s align = (s AND NOT (align - 1)) + align"

definition DEFAULT_COMMAND_SIZE :: u32 where "DEFAULT_COMMAND_SIZE = 256"
definition ALIGN :: u32 where "ALIGN = 8"

text \<open>The sizes of the structs on the 32-bit ARM target.\<close>

definition sizeof_ptr :: u32 where "sizeof_ptr = 4"
definition sizeof_MMAL_BUFFER_HEADER_T :: u32 where "sizeof_MMAL_BUFFER_HEADER_T = 56"
definition sizeof_MMAL_BUFFER_HEADER_TYPE_SPECIFIC_T :: u32 where
  "sizeof_MMAL_BUFFER_HEADER_TYPE_SPECIFIC_T = 40"
definition sizeof_MMAL_BUFFER_HEADER_PRIVATE_T :: u32 where
  "sizeof_MMAL_BUFFER_HEADER_PRIVATE_T = 80"

definition mmal_buffer_header_size :: u32 where
  "mmal_buffer_header_size =
     ROUND_UP sizeof_MMAL_BUFFER_HEADER_T ALIGN
     + ROUND_UP sizeof_MMAL_BUFFER_HEADER_TYPE_SPECIFIC_T ALIGN
     + ROUND_UP DEFAULT_COMMAND_SIZE ALIGN
     + ROUND_UP sizeof_MMAL_BUFFER_HEADER_PRIVATE_T ALIGN"

definition zero_buffer_header :: mmal_buffer_header where
  "zero_buffer_header =
     \<lparr>bh_next = None, bh_cmd = 0, bh_data = None, bh_alloc_size = 0, bh_length = 0, bh_offset = 0,
      bh_flags = 0, bh_pts = 0, bh_dts = 0,
      bh_type = \<lparr>planes = 0, plane_offset = replicate 4 0, plane_pitch = replicate 4 0, video_flags = 0\<rparr>,
      bh_user_data = None, pf_pre_release = None, pre_release_userdata = None, pf_release = None,
      owner = None, refcount = 0, reference = None, pf_payload_free = None, payload = None,
      payload_context = None, payload_size = 0, component_data = None, payload_handle = None,
      driver_area = replicate 32 0\<rparr>"

text \<open>
  \<open>memset\<close>, then the pointers to the type specific and the private area, placed one after the other
  behind the struct.  The result is null when the memory offered is too short.
\<close>

definition mmal_buffer_header_initialise ::
  "addr \<Rightarrow> u32 \<Rightarrow> 'a bh_store_scheme \<Rightarrow> addr option \<times> 'a bh_store_scheme" where
  "mmal_buffer_header_initialise mem len s =
     (if len < mmal_buffer_header_size then (None, s)
      else (Some mem, upd_buf mem (\<lambda>_. zero_buffer_header) s))"

definition type_area :: "addr \<Rightarrow> addr" where
  "type_area header = header + unat sizeof_MMAL_BUFFER_HEADER_T"

definition priv_area :: "addr \<Rightarrow> addr" where
  "priv_area header = type_area header + unat sizeof_MMAL_BUFFER_HEADER_TYPE_SPECIFIC_T"

section \<open>Operations\<close>

definition mmal_buffer_header_acquire :: "addr \<Rightarrow> 'a bh_store_scheme \<Rightarrow> 'a bh_store_scheme" where
  "mmal_buffer_header_acquire header s =
     upd_buf header (\<lambda>b. b\<lparr>refcount := s32 (refcount b + 1)\<rparr>) s"

definition reset_header :: "mmal_buffer_header \<Rightarrow> mmal_buffer_header" where
  "reset_header b = b\<lparr>bh_length := 0, bh_offset := 0, bh_flags := 0,
     bh_pts := MMAL_TIME_UNKNOWN, bh_dts := MMAL_TIME_UNKNOWN\<rparr>"

definition mmal_buffer_header_reset :: "addr \<Rightarrow> 'a bh_store_scheme \<Rightarrow> 'a bh_store_scheme" where
  "mmal_buffer_header_reset header s = upd_buf header reset_header s"

record 's release_env =
  call_pre_release :: "nat \<Rightarrow> addr \<Rightarrow> addr option \<Rightarrow> 's \<Rightarrow> (bool \<times> 's) option"
  call_release :: "release_fn \<Rightarrow> addr \<Rightarrow> 's \<Rightarrow> 's option"

text \<open>
  Release and its second half, \<open>mmal_buffer_header_release_continue\<close>, call each other along the
  chain of references.  \<open>None\<close> is a call that does not come back: an endless chain, a call
  through a null \<open>pf_release\<close>, or a client's function that does not return.
\<close>

partial_function (option) mmal_buffer_header_release ::
  "('a bh_store_scheme) release_env \<Rightarrow> addr \<Rightarrow> 'a bh_store_scheme \<Rightarrow> 'a bh_store_scheme option" where
  "mmal_buffer_header_release env header s =
     (let s = upd_buf header (\<lambda>b. b\<lparr>refcount := s32 (refcount b - 1)\<rparr>) s in
      if refcount (bufs s header) \<noteq> 0 then Some s
      else
        Option.bind
          (case pf_pre_release (bufs s header) of
             None \<Rightarrow> Some (False, s)
           | Some f \<Rightarrow> call_pre_release env f header (pre_release_userdata (bufs s header)) s)
          (\<lambda>(delay, s).
             if delay then Some s
             else
               let s = mmal_buffer_header_reset header s in
               Option.bind
                 (case reference (bufs s header) of
                    None \<Rightarrow> Some s
                  | Some ref \<Rightarrow> mmal_buffer_header_release env ref s)
                 (\<lambda>s. let s = upd_buf header (\<lambda>b. b\<lparr>reference := None\<rparr>) s in
                    Option.bind (pf_release (bufs s header)) (\<lambda>f. call_release env f header s))))"

definition mmal_buffer_header_release_continue ::
  "('a bh_store_scheme) release_env \<Rightarrow> addr \<Rightarrow> 'a bh_store_scheme \<Rightarrow> 'a bh_store_scheme option" where
  "mmal_buffer_header_release_continue env header s =
     (let s = mmal_buffer_header_reset header s in
      Option.bind
        (case reference (bufs s header) of
           None \<Rightarrow> Some s
         | Some ref \<Rightarrow> mmal_buffer_header_release env ref s)
        (\<lambda>s. let s = upd_buf header (\<lambda>b. b\<lparr>reference := None\<rparr>) s in
           Option.bind (pf_release (bufs s header)) (\<lambda>f. call_release env f header s)))"

definition copy_replicated :: "mmal_buffer_header \<Rightarrow> mmal_buffer_header \<Rightarrow> mmal_buffer_header" where
  "copy_replicated src d =
     d\<lparr>bh_cmd := bh_cmd src, bh_alloc_size := bh_alloc_size src, bh_data := bh_data src,
       bh_offset := bh_offset src, bh_length := bh_length src, bh_flags := bh_flags src,
       bh_pts := bh_pts src, bh_dts := bh_dts src, bh_type := bh_type src\<rparr>"

definition mmal_buffer_header_replicate ::
  "addr option \<Rightarrow> addr option \<Rightarrow> 'a bh_store_scheme \<Rightarrow> mmal_status \<times> 'a bh_store_scheme" where
  "mmal_buffer_header_replicate dest src s =
     (case (dest, src) of
        (Some d, Some r) \<Rightarrow>
          if reference (bufs s d) \<noteq> None then (MMAL_EINVAL, s)
          else
            let s = mmal_buffer_header_acquire r s;
                s = upd_buf d (\<lambda>b. b\<lparr>reference := Some r\<rparr>) s;
                s = upd_buf d (copy_replicated (bufs s r)) s
            in (MMAL_SUCCESS, s)
      | _ \<Rightarrow> (MMAL_EINVAL, s))"

definition mmal_buffer_header_driver_data :: "addr \<Rightarrow> 'a bh_store_scheme \<Rightarrow> u8 list" where
  "mmal_buffer_header_driver_data header s = driver_area (bufs s header)"

definition mmal_buffer_header_reference :: "addr \<Rightarrow> 'a bh_store_scheme \<Rightarrow> addr option" where
  "mmal_buffer_header_reference header s = reference (bufs s header)"

text \<open>Outside the VideoCore the two memory locking calls do nothing.\<close>

definition mmal_buffer_header_mem_lock :: "addr \<Rightarrow> 'a bh_store_scheme \<Rightarrow> mmal_status \<times> 'a bh_store_scheme" where
  "mmal_buffer_header_mem_lock header s = (MMAL_SUCCESS, s)"

definition mmal_buffer_header_mem_unlock :: "addr \<Rightarrow> 'a bh_store_scheme \<Rightarrow> 'a bh_store_scheme" where
  "mmal_buffer_header_mem_unlock header s = s"

definition mmal_buffer_header_pre_release_cb_set ::
  "addr \<Rightarrow> nat option \<Rightarrow> addr option \<Rightarrow> 'a bh_store_scheme \<Rightarrow> 'a bh_store_scheme" where
  "mmal_buffer_header_pre_release_cb_set header cb userdata s =
     upd_buf header (\<lambda>b. b\<lparr>pf_pre_release := cb, pre_release_userdata := userdata\<rparr>) s"

text \<open>\<open>mmal_buffer_header_copy_header\<close> of \<^verbatim>\<open>mmal/util/mmal_util.c\<close>.\<close>

definition mmal_buffer_header_copy_header :: "addr \<Rightarrow> addr \<Rightarrow> 'a bh_store_scheme \<Rightarrow> 'a bh_store_scheme" where
  "mmal_buffer_header_copy_header dest src s =
     (let b = bufs s src in
      upd_buf dest (\<lambda>d. d\<lparr>bh_cmd := bh_cmd b, bh_offset := bh_offset b, bh_length := bh_length b,
        bh_flags := bh_flags b, bh_pts := bh_pts b, bh_dts := bh_dts b, bh_type := bh_type b\<rparr>) s)"

section \<open>Unfolding\<close>

lemma release_decrement:
  assumes "s32 (refcount (bufs s h) - 1) \<noteq> 0"
  shows "mmal_buffer_header_release env h s =
           Some (upd_buf h (\<lambda>b. b\<lparr>refcount := s32 (refcount b - 1)\<rparr>) s)"
  using assms by (subst mmal_buffer_header_release.simps) (simp add: Let_def)

lemma release_last:
  assumes "refcount (bufs s h) = 1"
  shows "mmal_buffer_header_release env h s =
     (let s = upd_buf h (\<lambda>b. b\<lparr>refcount := 0\<rparr>) s in
      Option.bind
        (case pf_pre_release (bufs s h) of
           None \<Rightarrow> Some (False, s)
         | Some f \<Rightarrow> call_pre_release env f h (pre_release_userdata (bufs s h)) s)
        (\<lambda>(delay, s). if delay then Some s else mmal_buffer_header_release_continue env h s))"
proof -
  have "upd_buf h (\<lambda>b. b\<lparr>refcount := s32 (refcount b - 1)\<rparr>) s = upd_buf h (\<lambda>b. b\<lparr>refcount := 0\<rparr>) s"
    using assms by (simp add: upd_buf_def s32_def)
  then show ?thesis
    by (subst mmal_buffer_header_release.simps)
      (simp add: mmal_buffer_header_release_continue_def Let_def case_prod_unfold cong: if_cong)
qed

lemma s32_pred_eq_0_iff: "is_s32 r \<Longrightarrow> s32 (r - 1) = 0 \<longleftrightarrow> r = 1"
proof -
  assume r: "is_s32 r"
  show ?thesis
  proof (cases "r = INT32_MIN")
    case True
    then show ?thesis by (simp add: s32_def)
  next
    case False
    with r have "is_s32 (r - 1)" by (auto simp: is_s32_def)
    then show ?thesis by (auto simp: s32_id)
  qed
qed

section \<open>Reference counting\<close>

text \<open>
  Acquiring a header that is in use and releasing it again gives back the same state: the
  release only undoes the acquisition, no callback runs and nothing is recycled.
\<close>

theorem acquire_release_roundtrip:
  assumes "0 < refcount (bufs s h)" and "refcount (bufs s h) < INT32_MAX"
  shows "mmal_buffer_header_release env h (mmal_buffer_header_acquire h s) = Some s"
proof -
  let ?s = "mmal_buffer_header_acquire h s"
  have r: "refcount (bufs ?s h) = refcount (bufs s h) + 1"
    using assms by (simp add: mmal_buffer_header_acquire_def s32_id is_s32_def)
  have id: "s32 (refcount (bufs s h)) = refcount (bufs s h)"
    using assms by (simp add: s32_id is_s32_def)
  have "mmal_buffer_header_release env h ?s =
      Some (upd_buf h (\<lambda>b. b\<lparr>refcount := s32 (refcount b - 1)\<rparr>) ?s)"
    using assms r id by (intro release_decrement) simp
  moreover have "upd_buf h (\<lambda>b. b\<lparr>refcount := s32 (refcount b - 1)\<rparr>) ?s = s"
    using assms id unfolding mmal_buffer_header_acquire_def
    by (simp, intro upd_buf_id) (simp add: s32_id is_s32_def)
  ultimately show ?thesis by simp
qed

theorem acquire_release_roundtrip_witness:
  "\<exists>s :: bh_store. refcount (bufs s 8) = 1 \<and>
     mmal_buffer_header_release \<lparr>call_pre_release = \<lambda>_ _ _ s. Some (False, s), call_release = \<lambda>_ _ s. Some s\<rparr> 8
       (mmal_buffer_header_acquire 8 s) = Some s"
proof -
  let ?s = "\<lparr>mallocs = [], creates = [], clock_readings = [], live = [], sync = [],
    bufs = (\<lambda>_. zero_buffer_header\<lparr>refcount := 1\<rparr>)\<rparr> :: bh_store"
  show ?thesis using acquire_release_roundtrip [of ?s 8] by (intro exI [of _ ?s]) simp
qed

text \<open>
  A header whose references and counts are well formed: counts are 32-bit integers, and every
  header has a release function.
\<close>

definition bufs_ok :: "(addr \<Rightarrow> mmal_buffer_header) \<Rightarrow> bool" where
  "bufs_ok m \<longleftrightarrow> (\<forall>h. is_s32 (refcount (m h)) \<and> pf_release (m h) \<noteq> None)"

definition last_refs :: "(addr \<Rightarrow> mmal_buffer_header) \<Rightarrow> addr set" where
  "last_refs m = {h. refcount (m h) = 1 \<and> reference (m h) \<noteq> None}"

text \<open>
  What the client's functions may do to the headers for a release to come back: they come back, the pre-release
  callback leaves counts and references alone, and neither it nor the release function takes a
  release function away or leaves a count outside its type.
\<close>

definition env_ok :: "('a bh_store_scheme) release_env \<Rightarrow> bool" where
  "env_ok env \<longleftrightarrow>
     (\<forall>f h u s. \<exists>delay s'. call_pre_release env f h u s = Some (delay, s') \<and>
        (\<forall>x. refcount (bufs s' x) = refcount (bufs s x) \<and> reference (bufs s' x) = reference (bufs s x)
           \<and> pf_release (bufs s' x) = pf_release (bufs s x))) \<and>
     (\<forall>f h s. bufs_ok (bufs s) \<longrightarrow> (\<exists>s'. call_release env f h s = Some s' \<and> bufs_ok (bufs s')))"

lemma bufs_ok_upd [simp]:
  "bufs_ok m \<Longrightarrow> is_s32 (refcount b) \<Longrightarrow> pf_release b \<noteq> None \<Longrightarrow> bufs_ok (m(h := b))"
  by (simp add: bufs_ok_def)

lemma last_refs_less:
  assumes "h \<in> last_refs m" "finite (last_refs m)"
    and "\<And>x. refcount (m' x) = (if x = h then 0 else refcount (m x)) \<and> reference (m' x) = reference (m x)"
  shows "card (last_refs m') < card (last_refs m)" and "finite (last_refs m')"
proof -
  have sub: "last_refs m' \<subseteq> last_refs m - {h}"
    using assms(3) by (auto simp: last_refs_def split: if_splits)
  show "finite (last_refs m')" using sub assms(2) by (blast intro: finite_subset)
  have "last_refs m - {h} \<subset> last_refs m" using assms(1) by auto
  with sub have "last_refs m' \<subset> last_refs m" by auto
  then show "card (last_refs m') < card (last_refs m)" using assms(2) by (rule psubset_card_mono [rotated])
qed

lemma pre_release_frame:
  assumes "env_ok env" "call_pre_release env f h u s = Some (delay, s')"
  shows "refcount (bufs s' x) = refcount (bufs s x)" "reference (bufs s' x) = reference (bufs s x)"
    "pf_release (bufs s' x) = pf_release (bufs s x)"
  using assms unfolding env_ok_def by (metis option.inject prod.inject)+

lemma release_terminates_aux:
  assumes env: "env_ok env"
  shows "bufs_ok (bufs s) \<Longrightarrow> finite (last_refs (bufs s)) \<Longrightarrow>
         \<exists>s'. mmal_buffer_header_release env h s = Some s' \<and> bufs_ok (bufs s')"
proof (induction "card (last_refs (bufs s))" arbitrary: h s rule: less_induct)
  case less
  have r: "is_s32 (refcount (bufs s h))" using less.prems(1) by (simp add: bufs_ok_def)
  show ?case
  proof (cases "refcount (bufs s h) = 1")
    case False
    with r have "s32 (refcount (bufs s h) - 1) \<noteq> 0" by (simp add: s32_pred_eq_0_iff)
    from release_decrement [OF this] show ?thesis
      using less.prems(1) by (simp add: bufs_ok_def)
  next
    case True
    let ?s1 = "upd_buf h (\<lambda>b. b\<lparr>refcount := 0\<rparr>) s"
    obtain delay s2 where pre: "(case pf_pre_release (bufs ?s1 h) of None \<Rightarrow> Some (False, ?s1)
         | Some f \<Rightarrow> call_pre_release env f h (pre_release_userdata (bufs ?s1 h)) ?s1) = Some (delay, s2)"
    proof (cases "pf_pre_release (bufs ?s1 h)")
      case (Some f)
      then show ?thesis using env that unfolding env_ok_def by (metis option.simps(5))
    qed (use that [of False] in simp)
    have fr: "refcount (bufs s2 x) = refcount (bufs ?s1 x) \<and> reference (bufs s2 x) = reference (bufs ?s1 x)
        \<and> pf_release (bufs s2 x) = pf_release (bufs ?s1 x)" for x
      using pre pre_release_frame [OF env] by (auto split: option.splits)
    have ok2: "bufs_ok (bufs s2)"
      using fr less.prems(1) by (auto simp: bufs_ok_def is_s32_def)
    have rel: "mmal_buffer_header_release env h s =
        (if delay then Some s2 else mmal_buffer_header_release_continue env h s2)"
      using release_last [OF True, of env] pre by (simp add: Let_def)
    let ?s3 = "mmal_buffer_header_reset h s2"
    have ok3: "bufs_ok (bufs ?s3)"
      using ok2 by (simp add: mmal_buffer_header_reset_def reset_header_def bufs_ok_def)
    have fr3: "refcount (bufs ?s3 x) = (if x = h then 0 else refcount (bufs s x)) \<and>
        reference (bufs ?s3 x) = reference (bufs s x)" for x
      using fr [of x]
      by (cases "x = h") (simp_all add: mmal_buffer_header_reset_def reset_header_def)
    have "\<exists>s4. (case reference (bufs ?s3 h) of None \<Rightarrow> Some ?s3
        | Some ref \<Rightarrow> mmal_buffer_header_release env ref ?s3) = Some s4 \<and> bufs_ok (bufs s4)"
    proof (cases "reference (bufs ?s3 h)")
      case None
      with ok3 show ?thesis by simp
    next
      case (Some ref)
      then have "h \<in> last_refs (bufs s)" using True fr3 by (simp add: last_refs_def)
      note last_refs_less [OF this less.prems(2) fr3]
      from less.hyps [OF this(1) ok3 this(2)] Some show ?thesis by simp
    qed
    then obtain s4 where s4: "(case reference (bufs ?s3 h) of None \<Rightarrow> Some ?s3
        | Some ref \<Rightarrow> mmal_buffer_header_release env ref ?s3) = Some s4" "bufs_ok (bufs s4)"
      by blast
    have ok5: "bufs_ok (bufs (upd_buf h (\<lambda>b. b\<lparr>reference := None\<rparr>) s4))"
      using s4(2) by (simp add: bufs_ok_def)
    obtain f where "pf_release (bufs s4 h) = Some f"
      using s4(2) by (auto simp: bufs_ok_def)
    then have "pf_release (bufs (upd_buf h (\<lambda>b. b\<lparr>reference := None\<rparr>) s4) h) = Some f" by simp
    then have "mmal_buffer_header_release_continue env h s2 =
        call_release env f h (upd_buf h (\<lambda>b. b\<lparr>reference := None\<rparr>) s4)"
      using s4(1) by (simp add: mmal_buffer_header_release_continue_def Let_def)
    moreover obtain s6 where "call_release env f h (upd_buf h (\<lambda>b. b\<lparr>reference := None\<rparr>) s4) = Some s6"
      "bufs_ok (bufs s6)"
      using env ok5 unfolding env_ok_def by blast
    ultimately show ?thesis using rel ok2 by (cases delay) auto
  qed
qed

text \<open>
  C12: a release always comes back, whatever the chain of references between the headers (even a
  cyclic one): a header whose last reference goes is never the last reference again.  The
  hypotheses are that finitely many headers hold references, that counts are 32-bit integers and
  release functions set, and that the client's callbacks keep that true.
\<close>

theorem mmal_buffer_header_release_terminates:
  assumes "env_ok env" and "bufs_ok (bufs s)" and "finite {h. reference (bufs s h) \<noteq> None}"
  shows "\<exists>s'. mmal_buffer_header_release env h s = Some s' \<and> bufs_ok (bufs s')"
proof -
  have "last_refs (bufs s) \<subseteq> {h. reference (bufs s h) \<noteq> None}" by (auto simp: last_refs_def)
  with assms(3) have "finite (last_refs (bufs s))" by (blast intro: finite_subset)
  with assms(1,2) show ?thesis by (intro release_terminates_aux)
qed

definition quiet_env :: "('a bh_store_scheme) release_env" where
  "quiet_env = \<lparr>call_pre_release = (\<lambda>f h u s. Some (False, s)), call_release = (\<lambda>f h s. Some s)\<rparr>"

lemma env_ok_quiet [simp]: "env_ok quiet_env"
  by (auto simp: env_ok_def quiet_env_def)

text \<open>Two headers that reference each other, each with a count of one.\<close>

definition cyclic_store :: bh_store where
  "cyclic_store = \<lparr>mallocs = [], creates = [], clock_readings = [], live = [], sync = [],
     bufs = (\<lambda>h. zero_buffer_header\<lparr>refcount := 1, pf_release := Some (Client_release 0),
       reference := (if h = 0 then Some 1 else if h = 1 then Some 0 else None)\<rparr>)\<rparr>"

theorem mmal_buffer_header_release_terminates_witness:
  "\<exists>s'. mmal_buffer_header_release quiet_env 0 cyclic_store = Some s'"
proof -
  have "bufs_ok (bufs cyclic_store)" by (simp add: bufs_ok_def cyclic_store_def is_s32_def)
  moreover have "{h. reference (bufs cyclic_store h) \<noteq> None} = {0, 1}"
    by (auto simp: cyclic_store_def)
  ultimately show ?thesis
    using mmal_buffer_header_release_terminates [of quiet_env cyclic_store 0] by auto
qed

section \<open>Replication\<close>

lemma replicate_rejects:
  "dest = None \<or> src = None \<or> reference (bufs s (the dest)) \<noteq> None \<Longrightarrow>
     mmal_buffer_header_replicate dest src s = (MMAL_EINVAL, s)"
  by (auto simp: mmal_buffer_header_replicate_def split: option.splits)

lemma copy_replicated_frame:
  "(copy_replicated b d)\<lparr>reference := x\<rparr> = copy_replicated b (d\<lparr>reference := x\<rparr>)"
  "copy_replicated (b\<lparr>refcount := n\<rparr>) d = copy_replicated b d"
  by (cases d) (simp_all add: copy_replicated_def)

lemma replicate_effect:
  assumes "d \<noteq> r" "reference (bufs s d) = None"
  shows "mmal_buffer_header_replicate (Some d) (Some r) s =
     (MMAL_SUCCESS,
      s\<lparr>bufs := (bufs s)
         (r := (bufs s r)\<lparr>refcount := s32 (refcount (bufs s r) + 1)\<rparr>,
          d := (copy_replicated (bufs s r) (bufs s d))\<lparr>reference := Some r\<rparr>)\<rparr>)"
  using assms
  by (simp add: mmal_buffer_header_replicate_def mmal_buffer_header_acquire_def Let_def upd_buf_def
      copy_replicated_frame)

text \<open>
  C13: replicating a header takes one reference on the source and releasing the replica gives
  exactly that reference back: the source is as before, the replica is reset and refers to
  nothing, and its release function is called once.
\<close>

theorem replicate_release_roundtrip:
  assumes "d \<noteq> r" "reference (bufs s d) = None" "refcount (bufs s d) = 1"
    and "pf_pre_release (bufs s d) = None" "pf_release (bufs s d) = Some f"
    and "0 < refcount (bufs s r)" "refcount (bufs s r) < INT32_MAX"
  shows "\<exists>s1. mmal_buffer_header_replicate (Some d) (Some r) s = (MMAL_SUCCESS, s1) \<and>
     reference (bufs s1 d) = Some r \<and> bh_data (bufs s1 d) = bh_data (bufs s r) \<and>
     mmal_buffer_header_release env d s1 =
       call_release env f d
         (upd_buf d (\<lambda>b. (reset_header (copy_replicated (bufs s r) b))\<lparr>refcount := 0\<rparr>) s)"
proof -
  let ?src = "(bufs s r)\<lparr>refcount := refcount (bufs s r) + 1\<rparr>"
  let ?dst = "(copy_replicated (bufs s r) (bufs s d))\<lparr>reference := Some r\<rparr>"
  let ?s1 = "s\<lparr>bufs := (bufs s)(r := ?src, d := ?dst)\<rparr>"
  have inc: "s32 (refcount (bufs s r) + 1) = refcount (bufs s r) + 1"
    "s32 (refcount (bufs s r)) = refcount (bufs s r)"
    using assms by (simp_all add: s32_id is_s32_def)
  have rep: "mmal_buffer_header_replicate (Some d) (Some r) s = (MMAL_SUCCESS, ?s1)"
    using replicate_effect [OF assms(1,2)] inc by simp
  let ?s2 = "mmal_buffer_header_reset d (upd_buf d (\<lambda>b. b\<lparr>refcount := 0\<rparr>) ?s1)"
  have "refcount (bufs ?s1 d) = 1" using assms by (simp add: copy_replicated_def)
  then have "mmal_buffer_header_release env d ?s1 =
      mmal_buffer_header_release_continue env d (upd_buf d (\<lambda>b. b\<lparr>refcount := 0\<rparr>) ?s1)"
    using assms by (simp add: release_last Let_def copy_replicated_def)
  moreover have "mmal_buffer_header_release env r ?s2 =
      Some (upd_buf r (\<lambda>b. b\<lparr>refcount := s32 (refcount b - 1)\<rparr>) ?s2)"
    using assms inc
    by (intro release_decrement) (simp add: mmal_buffer_header_reset_def)
  ultimately have rel: "mmal_buffer_header_release env d ?s1 =
      call_release env f d
        (upd_buf d (\<lambda>b. b\<lparr>reference := None\<rparr>) (upd_buf r (\<lambda>b. b\<lparr>refcount := s32 (refcount b - 1)\<rparr>) ?s2))"
    using assms
    by (simp add: mmal_buffer_header_release_continue_def mmal_buffer_header_reset_def Let_def
        reset_header_def copy_replicated_def)
  have "upd_buf d (\<lambda>b. b\<lparr>reference := None\<rparr>) (upd_buf r (\<lambda>b. b\<lparr>refcount := s32 (refcount b - 1)\<rparr>) ?s2)
      = upd_buf d (\<lambda>b. (reset_header (copy_replicated (bufs s r) b))\<lparr>refcount := 0\<rparr>) s"
    using assms inc
    by (auto simp: upd_buf_def mmal_buffer_header_reset_def reset_header_def copy_replicated_def
        fun_eq_iff)
  with rep rel show ?thesis by (auto simp: copy_replicated_def)
qed

definition replica_store :: bh_store where
  "replica_store = \<lparr>mallocs = [], creates = [], clock_readings = [], live = [], sync = [],
     bufs = (\<lambda>h. zero_buffer_header\<lparr>refcount := 1, pf_release := Some (Client_release 0), bh_data := Some h\<rparr>)\<rparr>"

theorem replicate_release_roundtrip_witness:
  "\<exists>s1. mmal_buffer_header_replicate (Some 1) (Some 2) replica_store = (MMAL_SUCCESS, s1) \<and>
     reference (bufs s1 1) = Some 2 \<and> bh_data (bufs s1 1) = Some 2"
  using replicate_release_roundtrip [of 1 2 replica_store "Client_release 0" quiet_env]
  by (auto simp: replica_store_def zero_buffer_header_def)

text \<open>
  The areas of a header do not overlap and end inside its block, which has 464 bytes: 8 bytes of
  padding follow every part, and 256 bytes are left for commands.
\<close>

lemma mmal_buffer_header_size_eq: "mmal_buffer_header_size = 464"
  by (simp add: mmal_buffer_header_size_def ROUND_UP_def ALIGN_def DEFAULT_COMMAND_SIZE_def
      sizeof_MMAL_BUFFER_HEADER_T_def sizeof_MMAL_BUFFER_HEADER_TYPE_SPECIFIC_T_def
      sizeof_MMAL_BUFFER_HEADER_PRIVATE_T_def)

lemma header_areas_fit:
  "header + unat sizeof_MMAL_BUFFER_HEADER_T \<le> type_area header"
  "type_area header + unat sizeof_MMAL_BUFFER_HEADER_TYPE_SPECIFIC_T \<le> priv_area header"
  "priv_area header + unat sizeof_MMAL_BUFFER_HEADER_PRIVATE_T + 256 \<le> header + unat mmal_buffer_header_size"
  by (simp_all add: type_area_def priv_area_def mmal_buffer_header_size_eq sizeof_MMAL_BUFFER_HEADER_T_def
      sizeof_MMAL_BUFFER_HEADER_TYPE_SPECIFIC_T_def sizeof_MMAL_BUFFER_HEADER_PRIVATE_T_def)

end
