(* ===== verification/BufferQueue.thy ===== *)
theory BufferQueue
  imports BufferHeader
begin

text \<open>
  Queues of buffer headers, \<^verbatim>\<open>mmal/core/mmal_queue.c\<close>.  A queue is intrusive: it links the
  headers through their \<open>next\<close> fields and keeps a pointer to the link where the next header will
  be hooked, which is either the \<open>first\<close> field of the queue or the \<open>next\<close> field of a header.

  The operations are shown to implement a list of headers (\<open>queue_rep\<close>, locale \<open>fifo\<close>).  They
  run under the lock of the queue, so each is one step; the waits on the semaphore, which happen
  outside the lock, are modelled thread by thread in \<open>QueueThreads\<close>.
\<close>

section \<open>Data\<close>

datatype last_link = At_first | At_next addr

record mmal_queue =
  q_length :: u32
  q_first :: "addr option"
  q_last :: last_link
  q_semaphore :: nat

record q_store = bh_store +
  queues :: "addr \<Rightarrow> mmal_queue"

definition upd_queue :: "addr \<Rightarrow> (mmal_queue \<Rightarrow> mmal_queue) \<Rightarrow> 'a q_store_scheme \<Rightarrow> 'a q_store_scheme" where
  "upd_queue q f s = s\<lparr>queues := (queues s)(q := f (queues s q))\<rparr>"

definition set_next :: "addr \<Rightarrow> addr option \<Rightarrow> 'a bh_store_scheme \<Rightarrow> 'a bh_store_scheme" where
  "set_next h n s = upd_buf h (\<lambda>b. b\<lparr>bh_next := n\<rparr>) s"

section \<open>Operations\<close>

definition sizeof_MMAL_QUEUE_T :: u32 where "sizeof_MMAL_QUEUE_T = 52"

definition mmal_queue_create :: "'a q_store_scheme \<Rightarrow> addr option \<times> 'a q_store_scheme" where
  "mmal_queue_create s =
     (case vcos_malloc sizeof_MMAL_QUEUE_T s of
        (None, s) \<Rightarrow> (None, s)
      | (Some q, s) \<Rightarrow>
          (case vcos_create (Mutex q) s of
             (False, s) \<Rightarrow> (None, vcos_free (Some q) s)
           | (True, s) \<Rightarrow>
               (case vcos_create (Semaphore q) s of
                  (False, s) \<Rightarrow> (None, vcos_free (Some q) (vcos_delete (Mutex q) s))
                | (True, s) \<Rightarrow>
                    (Some q, upd_queue q (\<lambda>_. \<lparr>q_length = 0, q_first = None, q_last = At_first,
                                               q_semaphore = 0\<rparr>) s))))"

text \<open>\<open>*queue->last = v\<close>\<close>

definition store_last :: "addr \<Rightarrow> addr option \<Rightarrow> 'a q_store_scheme \<Rightarrow> 'a q_store_scheme" where
  "store_last q v s =
     (case q_last (queues s q) of
        At_first \<Rightarrow> upd_queue q (\<lambda>qu. qu\<lparr>q_first := v\<rparr>) s
      | At_next h \<Rightarrow> set_next h v s)"

definition mmal_queue_put :: "addr option \<Rightarrow> addr option \<Rightarrow> 'a q_store_scheme \<Rightarrow> 'a q_store_scheme" where
  "mmal_queue_put queue buffer s =
     (case (queue, buffer) of
        (Some q, Some b) \<Rightarrow>
          let s = upd_queue q (\<lambda>qu. qu\<lparr>q_length := q_length qu + 1\<rparr>) s;
              s = store_last q (Some b) s;
              s = set_next b None s;
              s = upd_queue q (\<lambda>qu. qu\<lparr>q_last := At_next b\<rparr>) s
          in upd_queue q (\<lambda>qu. qu\<lparr>q_semaphore := vcos_semaphore_post (q_semaphore qu)\<rparr>) s
      | _ \<Rightarrow> s)"

definition mmal_queue_put_back :: "addr option \<Rightarrow> addr option \<Rightarrow> 'a q_store_scheme \<Rightarrow> 'a q_store_scheme" where
  "mmal_queue_put_back queue buffer s =
     (case (queue, buffer) of
        (Some q, Some b) \<Rightarrow>
          let s = upd_queue q (\<lambda>qu. qu\<lparr>q_length := q_length qu + 1\<rparr>) s;
              s = set_next b (q_first (queues s q)) s;
              s = upd_queue q (\<lambda>qu. qu\<lparr>q_first := Some b\<rparr>) s;
              s = upd_queue q (\<lambda>qu. if q_last qu = At_first then qu\<lparr>q_last := At_next b\<rparr> else qu) s
          in upd_queue q (\<lambda>qu. qu\<lparr>q_semaphore := vcos_semaphore_post (q_semaphore qu)\<rparr>) s
      | _ \<Rightarrow> s)"

text \<open>\<open>None\<close>: the wait on the semaphore blocks.\<close>

definition mmal_queue_get ::
  "addr option \<Rightarrow> 'a q_store_scheme \<Rightarrow> (addr option \<times> 'a q_store_scheme) option" where
  "mmal_queue_get queue s =
     (case queue of
        None \<Rightarrow> Some (None, s)
      | Some q \<Rightarrow>
          (case q_first (queues s q) of
             None \<Rightarrow> Some (None, s)
           | Some b \<Rightarrow> do {
               sem \<leftarrow> vcos_semaphore_wait (q_semaphore (queues s q));
               let s = upd_queue q (\<lambda>qu. qu\<lparr>q_semaphore := sem\<rparr>) s;
               let s = upd_queue q (\<lambda>qu. qu\<lparr>q_first := bh_next (bufs s b)\<rparr>) s;
               let s = upd_queue q (\<lambda>qu. if q_first qu = None then qu\<lparr>q_last := At_first\<rparr> else qu) s;
               let s = upd_queue q (\<lambda>qu. qu\<lparr>q_length := q_length qu - 1\<rparr>) s;
               Some (Some b, s)
             }))"

definition mmal_queue_wait ::
  "addr option \<Rightarrow> 'a q_store_scheme \<Rightarrow> (addr option \<times> 'a q_store_scheme) option" where
  "mmal_queue_wait queue s =
     (case queue of
        None \<Rightarrow> Some (None, s)
      | Some q \<Rightarrow> do {
          sem \<leftarrow> vcos_semaphore_wait (q_semaphore (queues s q));
          let s = upd_queue q (\<lambda>qu. qu\<lparr>q_semaphore := vcos_semaphore_post sem\<rparr>) s;
          mmal_queue_get queue s
        })"

text \<open>With nobody else running, a wait on an empty semaphore times out.\<close>

definition mmal_queue_timedwait ::
  "addr option \<Rightarrow> 'a q_store_scheme \<Rightarrow> (addr option \<times> 'a q_store_scheme) option" where
  "mmal_queue_timedwait queue s =
     (case queue of
        None \<Rightarrow> Some (None, s)
      | Some q \<Rightarrow>
          (case vcos_semaphore_wait (q_semaphore (queues s q)) of
             None \<Rightarrow> Some (None, s)
           | Some sem \<Rightarrow>
               (let s = upd_queue q (\<lambda>qu. qu\<lparr>q_semaphore := vcos_semaphore_post sem\<rparr>) s
                in mmal_queue_get queue s)))"

definition mmal_queue_length :: "addr option \<Rightarrow> 'a q_store_scheme \<Rightarrow> u32" where
  "mmal_queue_length queue s = (case queue of None \<Rightarrow> 0 | Some q \<Rightarrow> q_length (queues s q))"

definition mmal_queue_destroy :: "addr option \<Rightarrow> 'a q_store_scheme \<Rightarrow> 'a q_store_scheme" where
  "mmal_queue_destroy queue s =
     (case queue of
        None \<Rightarrow> s
      | Some q \<Rightarrow> vcos_free (Some q) (vcos_delete (Semaphore q) (vcos_delete (Mutex q) s)))"

section \<open>The list a queue stands for\<close>

abbreviation nexts :: "'a bh_store_scheme \<Rightarrow> addr \<Rightarrow> addr option" where
  "nexts s \<equiv> \<lambda>h. bh_next (bufs s h)"

definition queue_rep :: "addr \<Rightarrow> 'a q_store_scheme \<Rightarrow> addr list \<Rightarrow> bool" where
  "queue_rep q s xs \<longleftrightarrow>
     lseg (nexts s) (q_first (queues s q)) xs None \<and> distinct xs \<and>
     q_last (queues s q) = (if xs = [] then At_first else At_next (last xs)) \<and>
     q_length (queues s q) = word_of_nat (length xs) \<and>
     q_semaphore (queues s q) = length xs"

lemma bufs_upd_queue [simp]: "bufs (upd_queue q f s) = bufs s"
  by (simp add: upd_queue_def)

lemma queues_upd_queue [simp]: "queues (upd_queue q f s) = (queues s)(q := f (queues s q))"
  by (simp add: upd_queue_def)

lemma queues_set_next [simp]: "queues (set_next h n s) = queues s"
  by (simp add: set_next_def upd_buf_def)

lemma bufs_set_next [simp]: "bufs (set_next h n s) = (bufs s)(h := (bufs s h)\<lparr>bh_next := n\<rparr>)"
  by (simp add: set_next_def)

lemma nexts_set_next: "nexts (set_next h n s) = (nexts s)(h := n)"
  by auto

lemma lseg_snoc_upd:
  assumes "lseg nx p xs None" "distinct xs" "b \<notin> set xs" "xs \<noteq> []"
  shows "lseg (nx(last xs := Some b, b := None)) p (xs @ [b]) None"
proof -
  obtain ys y where xs: "xs = ys @ [y]" using assms(4) by (cases xs rule: rev_cases) auto
  with assms show ?thesis by (auto simp: lseg_simps)
qed

lemma queue_rep_put:
  assumes rep: "queue_rep q s xs" and b: "b \<notin> set xs"
  shows "queue_rep q (mmal_queue_put (Some q) (Some b) s) (xs @ [b])"
proof (cases "xs = []")
  case True
  with rep show ?thesis
    by (auto simp: queue_rep_def mmal_queue_put_def store_last_def vcos_semaphore_post_def Let_def)
next
  case False
  then have "q_last (queues s q) = At_next (last xs)" using rep by (simp add: queue_rep_def)
  moreover have "lseg ((nexts s)(last xs := Some b, b := None)) (q_first (queues s q)) (xs @ [b]) None"
    using rep b False by (intro lseg_snoc_upd) (simp_all add: queue_rep_def)
  moreover have "nexts (set_next b None (set_next (last xs) (Some b) s)) =
      (nexts s)(last xs := Some b, b := None)"
    by (simp only: nexts_set_next)
  ultimately show ?thesis using rep b
    by (simp add: queue_rep_def mmal_queue_put_def store_last_def vcos_semaphore_post_def Let_def
        fun_upd_def if_distrib [of bh_next] cong: if_cong)
qed

lemma queue_rep_put_back:
  assumes rep: "queue_rep q s xs" and b: "b \<notin> set xs"
  shows "queue_rep q (mmal_queue_put_back (Some q) (Some b) s) (b # xs)"
proof -
  have "lseg ((nexts s)(b := q_first (queues s q))) (Some b) (b # xs) None"
    using rep b by (simp add: queue_rep_def lseg_simps)
  then show ?thesis using rep b
    by (simp add: queue_rep_def mmal_queue_put_back_def vcos_semaphore_post_def Let_def
        fun_upd_def if_distrib [of bh_next] cong: if_cong)
qed

lemma queue_rep_get_Nil: "queue_rep q s [] \<Longrightarrow> mmal_queue_get (Some q) s = Some (None, s)"
  by (simp add: queue_rep_def mmal_queue_get_def)

lemma queue_rep_get_Cons:
  assumes rep: "queue_rep q s (x # xs)"
  shows "\<exists>s'. mmal_queue_get (Some q) s = Some (Some x, s') \<and> queue_rep q s' xs \<and> bufs s' = bufs s"
proof -
  have "q_first (queues s q) = Some x" "q_semaphore (queues s q) = Suc (length xs)"
    "lseg (nexts s) (bh_next (bufs s x)) xs None"
    using rep by (simp_all add: queue_rep_def)
  moreover have "bh_next (bufs s x) = None \<longleftrightarrow> xs = []"
    using calculation(3) by (cases xs) auto
  ultimately show ?thesis using rep
    by (auto simp: queue_rep_def mmal_queue_get_def vcos_semaphore_wait_def Let_def split: if_splits)
qed

lemma queue_rep_get:
  assumes "queue_rep q s xs"
  shows "\<exists>s'. mmal_queue_get (Some q) s = Some (case xs of [] \<Rightarrow> None | x # _ \<Rightarrow> Some x, s') \<and>
           queue_rep q s' (tl xs)"
  using assms queue_rep_get_Nil [of q s] queue_rep_get_Cons [of q s] by (cases xs) fastforce+

text \<open>The representation is unique: a queue in a state stands for one list.\<close>

lemma queue_rep_unique: "queue_rep q s xs \<Longrightarrow> queue_rep q s ys \<Longrightarrow> xs = ys"
  by (auto simp: queue_rep_def intro: lseg_unique)

lemma mmal_queue_length_rep:
  "queue_rep q s xs \<Longrightarrow> length xs < 2 ^ 32 \<Longrightarrow> unat (mmal_queue_length (Some q) s) = length xs"
  by (simp add: queue_rep_def mmal_queue_length_def unat_of_nat)

section \<open>The interface of a queue of buffers\<close>

text \<open>
  A client of a queue relies on what the locale states and on nothing else: the queue holds a
  list, additions go to its ends when the header is not in it, and a get takes the first header
  and never blocks.
\<close>

datatype queue_op = Put addr | Put_back addr | Get

fun list_step :: "queue_op \<Rightarrow> addr list \<Rightarrow> addr option \<times> addr list" where
  "list_step (Put b) xs = (None, xs @ [b])"
| "list_step (Put_back b) xs = (None, b # xs)"
| "list_step Get [] = (None, [])"
| "list_step Get (x # xs) = (Some x, xs)"

fun op_allowed :: "queue_op \<Rightarrow> addr list \<Rightarrow> bool" where
  "op_allowed (Put b) xs = (b \<notin> set xs)"
| "op_allowed (Put_back b) xs = (b \<notin> set xs)"
| "op_allowed Get xs = True"

fun list_run :: "queue_op list \<Rightarrow> addr list \<Rightarrow> addr option list \<times> addr list" where
  "list_run [] xs = ([], xs)"
| "list_run (p # ps) xs =
     (let (r, xs) = list_step p xs; (rs, xs) = list_run ps xs in (r # rs, xs))"

fun ops_allowed :: "queue_op list \<Rightarrow> addr list \<Rightarrow> bool" where
  "ops_allowed [] xs = True"
| "ops_allowed (p # ps) xs = (op_allowed p xs \<and> ops_allowed ps (snd (list_step p xs)))"

fun impl_step ::
  "(addr \<Rightarrow> 's \<Rightarrow> 's) \<Rightarrow> (addr \<Rightarrow> 's \<Rightarrow> 's) \<Rightarrow> ('s \<Rightarrow> (addr option \<times> 's) option) \<Rightarrow>
   queue_op \<Rightarrow> 's \<Rightarrow> (addr option \<times> 's) option" where
  "impl_step put put_back get (Put b) s = Some (None, put b s)"
| "impl_step put put_back get (Put_back b) s = Some (None, put_back b s)"
| "impl_step put put_back get Get s = get s"

fun impl_run ::
  "(addr \<Rightarrow> 's \<Rightarrow> 's) \<Rightarrow> (addr \<Rightarrow> 's \<Rightarrow> 's) \<Rightarrow> ('s \<Rightarrow> (addr option \<times> 's) option) \<Rightarrow>
   queue_op list \<Rightarrow> 's \<Rightarrow> (addr option list \<times> 's) option" where
  "impl_run put put_back get [] s = Some ([], s)"
| "impl_run put put_back get (p # ps) s =
     do { (r, s) \<leftarrow> impl_step put put_back get p s;
          (rs, s) \<leftarrow> impl_run put put_back get ps s;
          Some (r # rs, s) }"

locale fifo =
  fixes rep :: "'s \<Rightarrow> addr list \<Rightarrow> bool"
    and put :: "addr \<Rightarrow> 's \<Rightarrow> 's"
    and put_back :: "addr \<Rightarrow> 's \<Rightarrow> 's"
    and get :: "'s \<Rightarrow> (addr option \<times> 's) option"
  assumes rep_put: "rep s xs \<Longrightarrow> b \<notin> set xs \<Longrightarrow> rep (put b s) (xs @ [b])"
    and rep_put_back: "rep s xs \<Longrightarrow> b \<notin> set xs \<Longrightarrow> rep (put_back b s) (b # xs)"
    and rep_get: "rep s xs \<Longrightarrow>
      \<exists>s'. get s = Some (case xs of [] \<Rightarrow> None | x # _ \<Rightarrow> Some x, s') \<and> rep s' (tl xs)"
begin

lemma step_refines:
  assumes "rep s xs" "op_allowed p xs"
  shows "\<exists>s'. impl_step put put_back get p s = Some (fst (list_step p xs), s') \<and> rep s' (snd (list_step p xs))"
proof (cases p)
  case Get
  then show ?thesis using rep_get [OF assms(1)] by (cases xs) auto
qed (use assms rep_put rep_put_back in auto)

lemma run_refines:
  "rep s xs \<Longrightarrow> ops_allowed ps xs \<Longrightarrow>
   \<exists>s'. impl_run put put_back get ps s = Some (fst (list_run ps xs), s') \<and> rep s' (snd (list_run ps xs))"
proof (induction ps arbitrary: s xs)
  case Nil
  then show ?case by simp
next
  case (Cons p ps)
  obtain r ys where st: "list_step p xs = (r, ys)" by fastforce
  with Cons.prems obtain s1 where "impl_step put put_back get p s = Some (r, s1)" "rep s1 ys"
    using step_refines [of s xs p] by auto
  moreover from Cons.IH [OF this(2)] Cons.prems st
  obtain s2 where "impl_run put put_back get ps s1 = Some (fst (list_run ps ys), s2)"
    "rep s2 (snd (list_run ps ys))" by auto
  ultimately show ?case using st by (auto simp: case_prod_beta Let_def)
qed

text \<open>A header put into the queue comes out behind everything that was in it.\<close>

lemma put_then_drain:
  assumes "rep s xs" "b \<notin> set xs"
  shows "\<exists>s'. impl_run put put_back get (Put b # replicate (Suc (length xs)) Get) s =
           Some (None # map Some (xs @ [b]), s') \<and> rep s' []"
proof -
  have drain: "list_run (replicate (length ys) Get) ys = (map Some ys, [])" for ys
    by (induction ys) auto
  have allowed: "ops_allowed (replicate n Get) ys" for n ys
    by (induction n arbitrary: ys) auto
  have "list_run (Put b # replicate (Suc (length xs)) Get) xs = (None # map Some (xs @ [b]), [])"
    using drain [of "xs @ [b]"] by simp
  with run_refines [OF assms(1), of "Put b # replicate (Suc (length xs)) Get"] assms(2) allowed
  show ?thesis by (simp del: replicate_Suc)
qed

end

interpretation mmal_queue: fifo "\<lambda>s. queue_rep q s" "\<lambda>b. mmal_queue_put (Some q) (Some b)"
  "\<lambda>b. mmal_queue_put_back (Some q) (Some b)" "mmal_queue_get (Some q)" for q
  by unfold_locales (simp_all add: queue_rep_put queue_rep_put_back queue_rep_get)

section \<open>Properties\<close>

definition empty_q_store :: q_store where
  "empty_q_store = \<lparr>mallocs = [], creates = [], clock_readings = [], live = [], sync = [],
     bufs = (\<lambda>_. zero_buffer_header),
     queues = (\<lambda>_. \<lparr>q_length = 0, q_first = None, q_last = At_first, q_semaphore = 0\<rparr>)\<rparr>"

lemma empty_queue_rep: "queue_rep q empty_q_store []"
  by (simp add: queue_rep_def empty_q_store_def)

text \<open>
  C10: any sequence of puts, put-backs and gets that never adds a header already in the queue
  returns what the same operations return on a list, never blocks, and leaves the queue in the state
  that stands for the resulting list.
\<close>

theorem mmal_queue_refines_list:
  assumes "queue_rep q s xs" and "ops_allowed ps xs"
  shows "\<exists>s'. impl_run (\<lambda>b. mmal_queue_put (Some q) (Some b)) (\<lambda>b. mmal_queue_put_back (Some q) (Some b))
           (mmal_queue_get (Some q)) ps s = Some (fst (list_run ps xs), s') \<and>
         queue_rep q s' (snd (list_run ps xs))"
  using assms by (rule mmal_queue.run_refines)

theorem mmal_queue_refines_list_witness:
  "\<exists>s'. impl_run (\<lambda>b. mmal_queue_put (Some 9) (Some b)) (\<lambda>b. mmal_queue_put_back (Some 9) (Some b))
     (mmal_queue_get (Some 9)) [Put 1, Put 2, Put_back 3, Get, Get, Get, Get] empty_q_store
     = Some ([None, None, None, Some 3, Some 1, Some 2, None], s') \<and> queue_rep 9 s' []"
  using mmal_queue_refines_list [OF empty_queue_rep,
      of "[Put 1, Put 2, Put_back 3, Get, Get, Get, Get]" 9] by simp

text \<open>Operations on one queue leave the others alone when they share no header.\<close>

lemma queue_rep_frame:
  assumes "queue_rep q' s ys" "queues s' q' = queues s q'"
    and "\<And>h. h \<in> set ys \<Longrightarrow> bh_next (bufs s' h) = bh_next (bufs s h)"
  shows "queue_rep q' s' ys"
proof -
  have "lseg (nexts s') (q_first (queues s q')) ys None = lseg (nexts s) (q_first (queues s q')) ys None"
    by (rule lseg_cong) (rule assms(3))
  with assms show ?thesis by (simp add: queue_rep_def)
qed

lemma put_frame:
  assumes "queue_rep q s xs" "h \<notin> insert b (set xs)"
  shows "bufs (mmal_queue_put (Some q) (Some b) s) h = bufs s h"
  using assms by (auto simp: queue_rep_def mmal_queue_put_def store_last_def Let_def split: last_link.splits)

lemma put_only_links:
  "\<exists>n. bufs (mmal_queue_put (Some q) (Some b) s) h = (bufs s h)\<lparr>bh_next := n\<rparr>"
proof -
  have "bufs s h = (bufs s h)\<lparr>bh_next := bh_next (bufs s h)\<rparr>" by simp
  then show ?thesis
    by (cases "q_last (queues s q)")
      (auto simp: mmal_queue_put_def store_last_def Let_def intro: exI [of _ "bh_next (bufs s h)"])
qed

lemma put_other_queue: "q' \<noteq> q \<Longrightarrow> queues (mmal_queue_put (Some q) (Some b) s) q' = queues s q'"
  by (auto simp: mmal_queue_put_def store_last_def Let_def split: last_link.splits)

lemma queue_rep_put_other:
  assumes "queue_rep q s xs" "queue_rep q' s ys" "q' \<noteq> q" "set ys \<inter> insert b (set xs) = {}"
  shows "queue_rep q' (mmal_queue_put (Some q) (Some b) s) ys"
proof (rule queue_rep_frame [OF assms(2)])
  show "queues (mmal_queue_put (Some q) (Some b) s) q' = queues s q'"
    using assms(3) by (rule put_other_queue)
  fix h assume "h \<in> set ys"
  with assms(4) have "h \<notin> insert b (set xs)" by blast
  with assms(1) show "bh_next (bufs (mmal_queue_put (Some q) (Some b) s) h) = bh_next (bufs s h)"
    by (simp add: put_frame)
qed

definition empty_queue :: mmal_queue where
  "empty_queue = \<lparr>q_length = 0, q_first = None, q_last = At_first, q_semaphore = 0\<rparr>"

lemma mmal_queue_create_Some:
  assumes create: "mmal_queue_create s = (Some q, s')" and fresh: "fresh_allocs s"
  shows "s' = s\<lparr>mallocs := tl (mallocs s), live := (q, sizeof_MMAL_QUEUE_T) # live s,
            creates := tl (tl (creates s)), sync := [Semaphore q, Mutex q] @ sync s,
            queues := (queues s)(q := empty_queue)\<rparr>"
    and "q \<notin> fst ` set (live s)" and "fresh_allocs s'" and "q \<in> set (granted s)"
proof -
  obtain p s1 where m: "vcos_malloc sizeof_MMAL_QUEUE_T s = (p, s1)" by fastforce
  with create have p: "p = Some q"
    by (auto simp: mmal_queue_create_def split: option.splits prod.splits bool.splits)
  note s1 = vcos_malloc_Some [OF m [unfolded p] fresh]
  obtain ok1 s2 where c1: "vcos_create (Mutex q) s1 = (ok1, s2)" by fastforce
  note s2 = vcos_create_cases [OF c1]
  obtain ok2 s3 where c2: "vcos_create (Semaphore q) s2 = (ok2, s3)" by fastforce
  note s3 = vcos_create_cases [OF c2]
  show s': "s' = s\<lparr>mallocs := tl (mallocs s), live := (q, sizeof_MMAL_QUEUE_T) # live s,
            creates := tl (tl (creates s)), sync := [Semaphore q, Mutex q] @ sync s,
            queues := (queues s)(q := empty_queue)\<rparr>"
    using create m p c1 c2 s1 s2 s3
    by (cases ok1; cases ok2)
      (simp_all add: mmal_queue_create_def upd_queue_def empty_queue_def)
  show "q \<notin> fst ` set (live s)" by (rule s1)
  show "fresh_allocs s'" using s1 s' by (simp add: fresh_allocs_def granted_def)
  show "q \<in> set (granted s)" using m p by (auto simp: vcos_malloc_def split: list.splits option.splits)
qed

lemma mmal_queue_create_None:
  assumes create: "mmal_queue_create s = (None, s')" and fresh: "fresh_allocs s"
  shows "live s' = live s \<and> sync s' = sync s"
proof -
  obtain p s1 where m: "vcos_malloc sizeof_MMAL_QUEUE_T s = (p, s1)" by fastforce
  show ?thesis
  proof (cases p)
    case None
    with m create show ?thesis
      using vcos_malloc_None [of sizeof_MMAL_QUEUE_T s s1] by (simp add: mmal_queue_create_def)
  next
    case (Some q)
    note s1 = vcos_malloc_Some [OF m [unfolded Some] fresh]
    obtain ok1 s2 where c1: "vcos_create (Mutex q) s1 = (ok1, s2)" by fastforce
    note s2 = vcos_create_cases [OF c1]
    obtain ok2 s3 where c2: "vcos_create (Semaphore q) s2 = (ok2, s3)" by fastforce
    note s3 = vcos_create_cases [OF c2]
    show ?thesis
      using create m Some c1 c2 s1 s2 s3
      by (cases ok1; cases ok2)
        (auto simp: mmal_queue_create_def vcos_free_def vcos_delete_def vcos_free_fresh)
  qed
qed

lemma queue_rep_empty_queue: "queues s q = empty_queue \<Longrightarrow> queue_rep q s []"
  by (simp add: queue_rep_def empty_queue_def)

text \<open>
  Creating a queue either yields an empty queue that owns one block, one mutex and one
  semaphore, which destroying it gives back, or fails and leaves nothing behind.
\<close>

theorem mmal_queue_create_balanced:
  assumes "fresh_allocs s"
  shows "case mmal_queue_create s of
           (None, s') \<Rightarrow> live s' = live s \<and> sync s' = sync s
         | (Some q, s') \<Rightarrow> queue_rep q s' [] \<and> live s' = (q, sizeof_MMAL_QUEUE_T) # live s \<and>
             sync s' = [Semaphore q, Mutex q] @ sync s \<and>
             live (mmal_queue_destroy (Some q) s') = live s \<and>
             sync (mmal_queue_destroy (Some q) s') = sync s"
proof (cases "mmal_queue_create s")
  case (Pair r s')
  show ?thesis
  proof (cases r)
    case None
    with Pair assms show ?thesis using mmal_queue_create_None [of s s'] by simp
  next
    case (Some q)
    with Pair have c: "mmal_queue_create s = (Some q, s')" by simp
    note f = mmal_queue_create_Some [OF c assms]
    have "queues s' q = empty_queue" "live s' = (q, sizeof_MMAL_QUEUE_T) # live s"
      "sync s' = [Semaphore q, Mutex q] @ sync s"
      by (simp_all add: f(1))
    then show ?thesis
      using c f(2) queue_rep_empty_queue [of s' q]
      by (simp add: mmal_queue_destroy_def vcos_free_def vcos_delete_def vcos_free_fresh)
  qed
qed

theorem mmal_queue_create_balanced_witness:
  "let s = empty_q_store\<lparr>mallocs := [Some 64], creates := [True, False]\<rparr>;
       (r, s') = mmal_queue_create s
   in r = None \<and> live s' = [] \<and> sync s' = []"
proof -
  let ?s = "empty_q_store\<lparr>mallocs := [Some 64], creates := [True, False]\<rparr>"
  have "fresh_allocs ?s"
    by (simp add: fresh_allocs_def granted_def empty_q_store_def List.map_filter_simps)
  from mmal_queue_create_balanced [OF this]
  show ?thesis
    by (simp add: mmal_queue_create_def vcos_malloc_def vcos_create_def empty_q_store_def Let_def)
qed

end
