(* ===== verification/QueueThreads.thy ===== *)
theory QueueThreads
  imports BufferQueue
begin

text \<open>
  Several threads on one queue of \<^verbatim>\<open>mmal/core/mmal_queue.c\<close>.  \<open>mmal_queue_put\<close> and the empty case of
  \<open>mmal_queue_get\<close> run under the lock without blocking, so each is one step.  A get on a non-empty
  queue keeps the lock while it waits on the semaphore, and \<open>mmal_queue_wait\<close> takes and gives back a
  token without the lock: these are separate steps, which interleave freely.
\<close>

datatype queue_pc = Q_idle | Q_waited | Q_posted | Q_locked | Q_returned "addr option"

record queue_sys =
  cells :: "addr list"
  sem :: nat
  lock :: "nat option"
  pcs :: "nat \<Rightarrow> queue_pc"

definition queue_sys_init :: "addr list \<Rightarrow> queue_sys" where
  "queue_sys_init xs = \<lparr>cells = xs, sem = length xs, lock = None, pcs = (\<lambda>_. Q_idle)\<rparr>"

definition set_pc :: "nat \<Rightarrow> queue_pc \<Rightarrow> queue_sys \<Rightarrow> queue_sys" where
  "set_pc t pc s = s\<lparr>pcs := (pcs s)(t := pc)\<rparr>"

inductive queue_thread_step :: "queue_sys \<Rightarrow> queue_sys \<Rightarrow> bool" where
  put: "pcs s t = Q_idle \<Longrightarrow> lock s = None \<Longrightarrow>
     queue_thread_step s (s\<lparr>cells := cells s @ [b], sem := Suc (sem s)\<rparr>)"
| put_back: "pcs s t = Q_idle \<Longrightarrow> lock s = None \<Longrightarrow>
     queue_thread_step s (s\<lparr>cells := b # cells s, sem := Suc (sem s)\<rparr>)"
| wait_token: "pcs s t = Q_idle \<Longrightarrow> 0 < sem s \<Longrightarrow>
     queue_thread_step s (set_pc t Q_waited (s\<lparr>sem := sem s - 1\<rparr>))"
| wait_post: "pcs s t = Q_waited \<Longrightarrow>
     queue_thread_step s (set_pc t Q_posted (s\<lparr>sem := Suc (sem s)\<rparr>))"
| get_empty: "pcs s t = Q_idle \<or> pcs s t = Q_posted \<Longrightarrow> lock s = None \<Longrightarrow> cells s = [] \<Longrightarrow>
     queue_thread_step s (set_pc t (Q_returned None) s)"
| get_enter: "pcs s t = Q_idle \<or> pcs s t = Q_posted \<Longrightarrow> lock s = None \<Longrightarrow> cells s \<noteq> [] \<Longrightarrow>
     queue_thread_step s (set_pc t Q_locked (s\<lparr>lock := Some t\<rparr>))"
| get_take: "pcs s t = Q_locked \<Longrightarrow> 0 < sem s \<Longrightarrow>
     queue_thread_step s (set_pc t (Q_returned (Some (hd (cells s))))
       (s\<lparr>sem := sem s - 1, cells := tl (cells s), lock := None\<rparr>))"
| return: "pcs s t = Q_returned r \<Longrightarrow> queue_thread_step s (set_pc t Q_idle s)"

inductive queue_reachable :: "addr list \<Rightarrow> queue_sys \<Rightarrow> bool" for xs where
  start: "queue_reachable xs (queue_sys_init xs)"
| step: "queue_reachable xs s \<Longrightarrow> queue_thread_step s s' \<Longrightarrow> queue_reachable xs s'"

section \<open>Invariant\<close>

text \<open>A token is missing from the semaphore exactly while a thread is between its wait and its post.\<close>

definition waiting :: "queue_sys \<Rightarrow> nat set" where
  "waiting s = {t. pcs s t = Q_waited}"

definition queue_sys_inv :: "queue_sys \<Rightarrow> bool" where
  "queue_sys_inv s \<longleftrightarrow>
     finite (waiting s) \<and> sem s + card (waiting s) = length (cells s) \<and>
     (\<forall>t. lock s = Some t \<longleftrightarrow> pcs s t = Q_locked) \<and>
     (lock s \<noteq> None \<longrightarrow> cells s \<noteq> [])"

lemma waiting_set_pc:
  "waiting (set_pc t pc s) = (if pc = Q_waited then insert t (waiting s) else waiting s - {t})"
  by (auto simp: waiting_def set_pc_def)

lemma set_pc_sel [simp]:
  "cells (set_pc t pc s) = cells s" "sem (set_pc t pc s) = sem s" "lock (set_pc t pc s) = lock s"
  "pcs (set_pc t pc s) = (pcs s)(t := pc)"
  by (simp_all add: set_pc_def)

lemma waiting_upd [simp]:
  "waiting (s\<lparr>cells := a\<rparr>) = waiting s" "waiting (s\<lparr>sem := b\<rparr>) = waiting s"
  "waiting (s\<lparr>lock := c\<rparr>) = waiting s"
  by (simp_all add: waiting_def)

lemma not_waiting: "pcs s t \<noteq> Q_waited \<Longrightarrow> waiting s - {t} = waiting s"
  by (auto simp: waiting_def)

lemma queue_sys_inv_init: "queue_sys_inv (queue_sys_init xs)"
  by (simp add: queue_sys_inv_def queue_sys_init_def waiting_def)

lemma queue_sys_inv_grow:
  assumes "queue_sys_inv s" "lock s = None" "length ys = Suc (length (cells s))"
  shows "queue_sys_inv (s\<lparr>cells := ys, sem := Suc (sem s)\<rparr>)"
  using assms by (auto simp: queue_sys_inv_def)

text \<open>A change of a thread's place that involves neither the lock nor a token.\<close>

lemma queue_sys_inv_move:
  assumes "queue_sys_inv s" "pcs s t \<noteq> Q_waited" "pcs s t \<noteq> Q_locked" "pc \<noteq> Q_waited" "pc \<noteq> Q_locked"
  shows "queue_sys_inv (set_pc t pc s)"
  using assms by (auto simp: queue_sys_inv_def waiting_set_pc not_waiting)

lemma queue_thread_step_inv: "queue_thread_step s s' \<Longrightarrow> queue_sys_inv s \<Longrightarrow> queue_sys_inv s'"
proof (induction rule: queue_thread_step.induct)
  case (put s t b)
  then show ?case by (intro queue_sys_inv_grow) simp_all
next
  case (put_back s t b)
  then show ?case by (intro queue_sys_inv_grow) simp_all
next
  case (wait_token s t)
  then have t: "t \<notin> waiting s" "lock s \<noteq> Some t" by (auto simp: waiting_def queue_sys_inv_def)
  have "Suc (sem s - Suc 0) = sem s" using wait_token by simp
  with t wait_token show ?case by (auto simp: queue_sys_inv_def waiting_set_pc)
next
  case (wait_post s t)
  then have t: "t \<in> waiting s" "lock s \<noteq> Some t" by (auto simp: waiting_def queue_sys_inv_def)
  have inv: "finite (waiting s)" "sem s + card (waiting s) = length (cells s)"
    "\<And>u. lock s = Some u \<longleftrightarrow> pcs s u = Q_locked" "lock s \<noteq> None \<longrightarrow> cells s \<noteq> []"
    using wait_post by (auto simp: queue_sys_inv_def)
  have "card (waiting s) = Suc (card (waiting s - {t}))"
    using card.remove [OF inv(1) t(1)] .
  then have "Suc (sem s) + card (waiting s - {t}) = length (cells s)" using inv(2) by linarith
  with t inv(1,4) show ?case
    unfolding queue_sys_inv_def by (auto simp: waiting_set_pc inv(3) simp del: card_Diff_insert)
next
  case (get_empty s t)
  then show ?case by (intro queue_sys_inv_move) auto
next
  case (get_enter s t)
  then have "pcs s t \<noteq> Q_waited" by auto
  with get_enter show ?case by (simp add: queue_sys_inv_def waiting_set_pc not_waiting)
next
  case (get_take s t)
  then have own: "\<forall>u. lock s = Some u \<longleftrightarrow> pcs s u = Q_locked" "lock s \<noteq> None \<longrightarrow> cells s \<noteq> []"
    unfolding queue_sys_inv_def by blast+
  then have "lock s = Some t" using get_take by blast
  with own have l: "\<forall>u. pcs s u = Q_locked \<longleftrightarrow> u = t" and ne: "cells s \<noteq> []" by auto
  obtain c cs where "cells s = c # cs" using ne by (cases "cells s") auto
  moreover have "waiting s - {t} = waiting s" using get_take by (intro not_waiting) simp
  ultimately show ?case using l get_take by (auto simp: queue_sys_inv_def waiting_set_pc)
next
  case (return s t r)
  then show ?case by (intro queue_sys_inv_move) auto
qed

lemma queue_reachable_inv: "queue_reachable xs s \<Longrightarrow> queue_sys_inv s"
  by (induction rule: queue_reachable.induct) (auto intro: queue_sys_inv_init queue_thread_step_inv)

text \<open>The worst case is reached: a thread holds the lock of a queue whose only token is taken.\<close>

lemma queue_blocked_reachable: "\<exists>s. queue_reachable [b] s \<and> pcs s 0 = Q_locked \<and> sem s = 0"
proof -
  let ?s1 = "queue_sys_init [b]"
  define s2 where "s2 = set_pc 1 Q_waited (?s1\<lparr>sem := sem ?s1 - 1\<rparr>)"
  define s3 where "s3 = set_pc 0 Q_locked (s2\<lparr>lock := Some 0\<rparr>)"
  have "queue_thread_step ?s1 s2"
    unfolding s2_def by (rule wait_token) (simp_all add: queue_sys_init_def)
  moreover have "queue_thread_step s2 s3"
    unfolding s3_def by (rule get_enter) (simp_all add: s2_def queue_sys_init_def)
  ultimately have "queue_reachable [b] s3" by (metis queue_reachable.start queue_reachable.step)
  then show ?thesis by (intro exI [of _ s3]) (simp add: s3_def s2_def queue_sys_init_def)
qed

section \<open>Properties\<close>

text \<open>
  C11: whatever the interleaving, a thread that holds the lock of the queue and waits on the semaphore is never
  stuck: either its wait succeeds, or a thread between the two halves of a wait
  has taken the token and gives it back without needing the lock.
\<close>

theorem queue_get_never_deadlocks:
  assumes "queue_reachable xs s" and "pcs s t = Q_locked"
  shows "(0 < sem s \<and> (\<exists>s'. queue_thread_step s s' \<and> pcs s' t = Q_returned (Some (hd (cells s))))) \<or>
         (\<exists>u s'. pcs s u = Q_waited \<and> queue_thread_step s s' \<and> pcs s' u = Q_posted \<and> 0 < sem s')"
proof (cases "0 < sem s")
  case True
  with get_take [OF assms(2)] show ?thesis by fastforce
next
  case False
  have inv: "queue_sys_inv s" using assms(1) by (rule queue_reachable_inv)
  then have "lock s = Some t" "sem s + card (waiting s) = length (cells s)" "cells s \<noteq> []"
    using assms(2) by (auto simp: queue_sys_inv_def)
  with False have "card (waiting s) \<noteq> 0" by simp
  then obtain u where "pcs s u = Q_waited" by (force simp: waiting_def)
  from wait_post [OF this] this show ?thesis by fastforce
qed

theorem queue_get_never_deadlocks_witness:
  "\<exists>s u s'. pcs s 0 = Q_locked \<and> sem s = 0 \<and> pcs s u = Q_waited \<and> queue_thread_step s s' \<and> 0 < sem s'"
proof -
  obtain s where r: "queue_reachable [5] s" and l: "pcs s 0 = Q_locked" and n: "sem s = 0"
    using queue_blocked_reachable by blast
  from queue_get_never_deadlocks [OF r l] n show ?thesis using l by auto
qed

text \<open>
  C37: the semaphore never counts more tokens than there are headers, so a token that is taken under
  the lock always stands for a header: no interleaving loses or invents one.
\<close>

theorem queue_tokens_bounded:
  assumes "queue_reachable xs s"
  shows "sem s \<le> length (cells s) \<and> length (cells s) = sem s + card (waiting s)"
  using queue_reachable_inv [OF assms] by (simp add: queue_sys_inv_def)

theorem queue_tokens_bounded_witness:
  "sem (queue_sys_init [3, 4]) = 2 \<and> card (waiting (queue_sys_init [3, 4])) = 0"
  using queue_tokens_bounded [OF queue_reachable.start [of "[3, 4]"]]
  by (simp add: queue_sys_init_def)

text \<open>
  \<open>mmal_queue_wait\<close> may return null although it is documented to block until a header is
  available: thread 0 sees the token of the only header, thread 1 takes the header before
  thread 0 does.
\<close>

theorem queue_wait_may_return_null:
  "\<exists>s1 s2. queue_reachable [b] s1 \<and> pcs s1 0 = Q_posted \<and>
     queue_reachable [b] s2 \<and> pcs s2 0 = Q_returned None \<and> pcs s2 1 = Q_returned (Some b)"
proof -
  define st where "st = (\<lambda>c n l p q. \<lparr>cells = c, sem = n, lock = l,
      pcs = (\<lambda>_. Q_idle)(0 := p, Suc 0 := q)\<rparr>)"
  have upd: "(\<lambda>_. Q_idle)(0 := p, Suc 0 := q, 0 := r) = (\<lambda>_. Q_idle)(0 := r, Suc 0 := q)" for p q r
    by auto
  have 0: "queue_sys_init [b] = st [b] 1 None Q_idle Q_idle"
    by (auto simp: st_def queue_sys_init_def)
  have 1: "queue_thread_step (st [b] 1 None Q_idle Q_idle) (st [b] 0 None Q_waited Q_idle)"
    using wait_token [of "st [b] 1 None Q_idle Q_idle" 0] by (simp add: st_def set_pc_def upd)
  have 2: "queue_thread_step (st [b] 0 None Q_waited Q_idle) (st [b] 1 None Q_posted Q_idle)"
    using wait_post [of "st [b] 0 None Q_waited Q_idle" 0] by (simp add: st_def set_pc_def upd)
  have 3: "queue_thread_step (st [b] 1 None Q_posted Q_idle) (st [b] 1 (Some 1) Q_posted Q_locked)"
    using get_enter [of "st [b] 1 None Q_posted Q_idle" 1] by (simp add: st_def set_pc_def upd)
  have 4: "queue_thread_step (st [b] 1 (Some 1) Q_posted Q_locked)
      (st [] 0 None Q_posted (Q_returned (Some b)))"
    using get_take [of "st [b] 1 (Some 1) Q_posted Q_locked" 1] by (simp add: st_def set_pc_def upd)
  have 5: "queue_thread_step (st [] 0 None Q_posted (Q_returned (Some b)))
      (st [] 0 None (Q_returned None) (Q_returned (Some b)))"
    using get_empty [of "st [] 0 None Q_posted (Q_returned (Some b))" 0]
    by (simp add: st_def set_pc_def upd)
  have r2: "queue_reachable [b] (st [b] 1 None Q_posted Q_idle)"
    using queue_reachable.start [of "[b]", unfolded 0] 1 2 by (metis queue_reachable.step)
  then have "queue_reachable [b] (st [] 0 None (Q_returned None) (Q_returned (Some b)))"
    using 3 4 5 by (metis queue_reachable.step)
  with r2 show ?thesis
    by (intro exI [of _ "st [b] 1 None Q_posted Q_idle"]
        exI [of _ "st [] 0 None (Q_returned None) (Q_returned (Some b))"]) (simp add: st_def)
qed

end
