(* ===== verification/Rational.thy ===== *)
theory Rational
  imports Prelude
begin

text \<open>
  Rational numbers, \<^verbatim>\<open>mmal/util/mmal_util_rational.c\<close>: the binary gcd that avoids division,
  the four operations, reduction, equality and the conversions to and from Q16 fixed point.
  The loops of the gcd have no bound the compiler could see, so they are partial functions:
  \<open>None\<close> is a loop that never ends.  The lemmas show that they end with the greatest common
  divisor on every pair that does not hold \<open>INT32_MIN\<close>, and that one pair makes them spin.
\<close>

record mmal_rational =
  num :: int
  den :: int

definition Q16_ONE :: int where
  "Q16_ONE = push_bit 16 1"

definition ABS :: "int \<Rightarrow> int" where
  "ABS v = (if v < 0 then s32 (- v) else v)"

section \<open>The binary gcd\<close>

text \<open>\<open>for (shift = 0; !((a | b) & 0x01); shift++) a >>= 1, b >>= 1;\<close>\<close>

partial_function (option) gcd_common_shift :: "int \<Rightarrow> int \<Rightarrow> nat \<Rightarrow> (int \<times> int \<times> nat) option" where
  "gcd_common_shift a b shift =
     (if even (a OR b) then gcd_common_shift (a div 2) (b div 2) (Suc shift)
      else Some (a, b, shift))"

text \<open>\<open>while (!(a & 0x01)) a >>= 1;\<close>\<close>

partial_function (option) gcd_strip :: "int \<Rightarrow> int option" where
  "gcd_strip a = (if even a then gcd_strip (a div 2) else Some a)"

text \<open>\<open>while (a > 0) { ... }\<close>\<close>

partial_function (option) gcd_loop :: "int \<Rightarrow> int \<Rightarrow> int option" where
  "gcd_loop a b =
     (if a > 0 then
        Option.bind (gcd_strip a) (\<lambda>a. Option.bind (gcd_strip b) (\<lambda>b.
          if a \<ge> b then gcd_loop (s32 (a - b) div 2) b
          else gcd_loop a (s32 (b - a) div 2)))
      else Some b)"

definition c_gcd :: "int \<Rightarrow> int \<Rightarrow> int option" where
  "c_gcd a b =
     (if a = 0 \<or> b = 0 then Some 1
      else do {
        (a, b, shift) \<leftarrow> gcd_common_shift (ABS a) (ABS b) 0;
        b \<leftarrow> gcd_loop a b;
        Some (s32 (push_bit shift b))
      })"

section \<open>The operations\<close>

definition mmal_rational_add :: "mmal_rational \<Rightarrow> mmal_rational \<Rightarrow> mmal_rational option" where
  "mmal_rational_add a b = do {
     g \<leftarrow> c_gcd (den a) (den b);
     let a_den = den a sdiv g;
     let a_num = s32 (s32 (num a * (den b sdiv g)) + s32 (num b * a_den));
     g \<leftarrow> c_gcd a_num g;
     let a_num = a_num sdiv g;
     let a_den = s32 (a_den * (den b sdiv g));
     Some \<lparr>num = a_num, den = a_den\<rparr>
   }"

definition mmal_rational_subtract :: "mmal_rational \<Rightarrow> mmal_rational \<Rightarrow> mmal_rational option" where
  "mmal_rational_subtract a b = mmal_rational_add a (b\<lparr>num := s32 (- num b)\<rparr>)"

definition mmal_rational_multiply :: "mmal_rational \<Rightarrow> mmal_rational \<Rightarrow> mmal_rational option" where
  "mmal_rational_multiply a b = do {
     gcd1 \<leftarrow> c_gcd (num a) (den b);
     gcd2 \<leftarrow> c_gcd (num b) (den a);
     Some \<lparr>num = s32 ((num a sdiv gcd1) * (num b sdiv gcd2)),
           den = s32 ((den a sdiv gcd2) * (den b sdiv gcd1))\<rparr>
   }"

definition mmal_rational_divide :: "mmal_rational \<Rightarrow> mmal_rational \<Rightarrow> mmal_rational option" where
  "mmal_rational_divide a b =
     (if num b = 0 then Some a
      else if num a = 0 then Some a
      else do {
        gcd1 \<leftarrow> c_gcd (num a) (num b);
        gcd2 \<leftarrow> c_gcd (den b) (den a);
        Some \<lparr>num = s32 ((num a sdiv gcd1) * (den b sdiv gcd2)),
              den = s32 ((den a sdiv gcd2) * (num b sdiv gcd1))\<rparr>
      })"

definition mmal_rational_to_fixed_16_16 :: "mmal_rational \<Rightarrow> int" where
  "mmal_rational_to_fixed_16_16 r =
     (let result = s64 (push_bit 16 (num r));
          result = (if den r \<noteq> 0 then s64 (result sdiv den r) else result)
      in if result > INT32_MAX then INT32_MAX
         else if result < INT32_MIN then INT32_MIN
         else result)"

definition mmal_rational_simplify :: "mmal_rational \<Rightarrow> mmal_rational option" where
  "mmal_rational_simplify r = do {
     g \<leftarrow> c_gcd (num r) (den r);
     Some \<lparr>num = num r sdiv g, den = den r sdiv g\<rparr>
   }"

definition mmal_rational_from_fixed_16_16 :: "int \<Rightarrow> mmal_rational option" where
  "mmal_rational_from_fixed_16_16 fixed = mmal_rational_simplify \<lparr>num = fixed, den = Q16_ONE\<rparr>"

definition mmal_rational_equal :: "mmal_rational \<Rightarrow> mmal_rational \<Rightarrow> bool" where
  "mmal_rational_equal a b =
     (if num a \<noteq> num b \<and> s64 (num a * num b) = 0 then False
      else s64 (num a * den b) = s64 (num b * den a))"

section \<open>The gcd ends and is the greatest common divisor\<close>

lemma gcd_common_shift_correct:
  assumes "0 < a" and "0 < b"
  shows "\<exists>a' b' k. gcd_common_shift a b n = Some (a', b', n + k) \<and> a = 2 ^ k * a' \<and> b = 2 ^ k * b'
           \<and> 0 < a' \<and> 0 < b' \<and> (odd a' \<or> odd b')"
  using assms
proof (induction "nat a" arbitrary: a b n rule: less_induct)
  case less
  show ?case
  proof (cases "even a \<and> even b")
    case True
    then obtain c d where cd: "a = 2 * c" "b = 2 * d" by (auto elim!: evenE)
    with less.prems have "0 < c" "0 < d" "nat c < nat a" by auto
    from less.hyps [OF \<open>nat c < nat a\<close> \<open>0 < c\<close> \<open>0 < d\<close>, of "Suc n"]
    obtain a' b' k where "gcd_common_shift c d (Suc n) = Some (a', b', Suc n + k)"
      and r: "c = 2 ^ k * a'" "d = 2 ^ k * b'" "0 < a'" "0 < b'" "odd a' \<or> odd b'"
      by blast
    then have "gcd_common_shift a b n = Some (a', b', n + Suc k)"
      using cd by (subst gcd_common_shift.simps) (simp add: even_or_iff)
    with r cd show ?thesis by (intro exI [of _ a'] exI [of _ b'] exI [of _ "Suc k"]) auto
  next
    case False
    then have "gcd_common_shift a b n = Some (a, b, n + 0)"
      by (subst gcd_common_shift.simps) (auto simp: even_or_iff)
    with False less.prems show ?thesis
      by (intro exI [of _ a] exI [of _ b] exI [of _ 0]) auto
  qed
qed

lemma gcd_strip_correct:
  assumes "0 < b"
  shows "\<exists>c k. gcd_strip b = Some c \<and> b = 2 ^ k * c \<and> 0 < c \<and> odd c"
  using assms
proof (induction "nat b" arbitrary: b rule: less_induct)
  case less
  show ?case
  proof (cases "even b")
    case True
    then obtain d where d: "b = 2 * d" by (auto elim!: evenE)
    with less.prems have "0 < d" "nat d < nat b" by auto
    from less.hyps [OF this(2,1)]
    obtain c k where "gcd_strip d = Some c" "d = 2 ^ k * c" "0 < c" "odd c" by blast
    moreover have "gcd_strip b = gcd_strip d"
      using d by (subst gcd_strip.simps) simp
    ultimately show ?thesis using d
      by (intro exI [of _ c] exI [of _ "Suc k"]) simp
  next
    case False
    with less.prems show ?thesis
      by (intro exI [of _ b] exI [of _ 0]) (simp add: gcd_strip.simps)
  qed
qed

lemma gcd_drop_pow2: "odd (b::int) \<Longrightarrow> gcd (2 ^ k * a) b = gcd a b"
  by (simp add: gcd_mult_left_left_cancel coprime_commute)

lemma gcd_halve_diff:
  fixes a b :: int
  assumes "odd a" and "odd b"
  shows "gcd ((a - b) div 2) b = gcd a b"
proof -
  have "a - b = 2 ^ 1 * ((a - b) div 2)" using assms by simp
  then have "gcd ((a - b) div 2) b = gcd (a - b) b"
    using gcd_drop_pow2 [OF assms(2), of 1 "(a - b) div 2"] by simp
  then show ?thesis by (simp add: gcd_diff1)
qed

lemma gcd_loop_correct:
  assumes "0 \<le> a" "0 < b" "odd a \<or> odd b" "a \<le> INT32_MAX" "b \<le> INT32_MAX"
  shows "gcd_loop a b = Some (gcd a b)"
  using assms
proof (induction "nat (a + b)" arbitrary: a b rule: less_induct)
  case less
  show ?case
  proof (cases "a = 0")
    case True
    with less.prems show ?thesis by (simp add: gcd_loop.simps)
  next
    case False
    with less.prems have "0 < a" by simp
    obtain a' k where a': "gcd_strip a = Some a'" "a = 2 ^ k * a'" "0 < a'" "odd a'"
      using gcd_strip_correct [OF \<open>0 < a\<close>] by blast
    obtain b' l where b': "gcd_strip b = Some b'" "b = 2 ^ l * b'" "0 < b'" "odd b'"
      using gcd_strip_correct [OF \<open>0 < b\<close>] by blast
    have one_le: "(1::int) \<le> 2 ^ k" "(1::int) \<le> 2 ^ l" by simp_all
    have le: "a' \<le> a" "b' \<le> b"
      using mult_right_mono [OF one_le(1), of a'] mult_right_mono [OF one_le(2), of b'] a' b' by simp_all
    have g: "gcd a b = gcd a' b'"
    proof (cases "odd b")
      case True
      then have "l = 0" using b'(2) by (cases l) auto
      then show ?thesis using a'(2) b'(2) gcd_drop_pow2 [OF b'(4)] by simp
    next
      case False
      with less.prems have "odd a" by simp
      then have "k = 0" using a'(2) by (cases k) auto
      then show ?thesis using a'(2) b'(2) gcd_drop_pow2 [OF a'(4), of l b'] by (simp add: gcd.commute)
    qed
    have s: "is_s32 (a' - b')" "is_s32 (b' - a')"
      using le a'(3) b'(3) less.prems(4,5) unfolding is_s32_def by linarith+
    show ?thesis
    proof (cases "a' \<ge> b'")
      case True
      have "gcd_loop a b = gcd_loop ((a' - b') div 2) b'"
        using \<open>0 < a\<close> True a' b' s by (subst gcd_loop.simps) (simp add: s32_id)
      also have "\<dots> = Some (gcd ((a' - b') div 2) b')"
      proof (rule less.hyps)
        have d: "0 \<le> (a' - b') div 2" "2 * ((a' - b') div 2) = a' - b'"
          using True a'(4) b'(4) by simp_all
        show "nat ((a' - b') div 2 + b') < nat (a + b)" "0 \<le> (a' - b') div 2"
          "(a' - b') div 2 \<le> INT32_MAX" "b' \<le> INT32_MAX"
          using d le a'(3) b'(3) less.prems(4,5) by linarith+
      qed (use b' in auto)
      finally show ?thesis using g gcd_halve_diff [OF a'(4) b'(4)] by simp
    next
      case False
      have "gcd_loop a b = gcd_loop a' ((b' - a') div 2)"
        using \<open>0 < a\<close> False a' b' s by (subst gcd_loop.simps) (simp add: s32_id)
      also have "\<dots> = Some (gcd a' ((b' - a') div 2))"
      proof (rule less.hyps)
        have d: "2 * ((b' - a') div 2) = b' - a'"
          using a'(4) b'(4) by simp
        show "nat (a' + (b' - a') div 2) < nat (a + b)" "0 < (b' - a') div 2"
          "(b' - a') div 2 \<le> INT32_MAX" "a' \<le> INT32_MAX" "0 \<le> a'"
          using d False le a'(3) b'(3) less.prems(4,5) by linarith+
      qed (use a' in auto)
      finally show ?thesis using g gcd_halve_diff [OF b'(4) a'(4)] by (simp add: gcd.commute)
    qed
  qed
qed

lemma ABS_pos: "is_s32 v \<Longrightarrow> v \<noteq> INT32_MIN \<Longrightarrow> ABS v = \<bar>v\<bar>"
  unfolding ABS_def by (auto simp: is_s32_def intro: s32_id)

lemma c_gcd_total:
  assumes "is_s32 a" "is_s32 b" "a \<noteq> INT32_MIN" "b \<noteq> INT32_MIN"
  shows "c_gcd a b = Some (if a = 0 \<or> b = 0 then 1 else gcd a b)"
proof (cases "a = 0 \<or> b = 0")
  case True
  then show ?thesis by (auto simp: c_gcd_def)
next
  case False
  then have pos: "0 < \<bar>a\<bar>" "0 < \<bar>b\<bar>" by auto
  obtain a' b' k where sh: "gcd_common_shift \<bar>a\<bar> \<bar>b\<bar> 0 = Some (a', b', 0 + k)"
    and ab: "\<bar>a\<bar> = 2 ^ k * a'" "\<bar>b\<bar> = 2 ^ k * b'" "0 < a'" "0 < b'" "odd a' \<or> odd b'"
    using gcd_common_shift_correct [OF pos] by blast
  have "(1::int) \<le> 2 ^ k" by simp
  then have le: "a' \<le> \<bar>a\<bar>" "b' \<le> \<bar>b\<bar>"
    using mult_right_mono [of 1 "2 ^ k" a'] mult_right_mono [of 1 "2 ^ k" b'] ab by simp_all
  moreover have bnd: "\<bar>a\<bar> \<le> INT32_MAX" "\<bar>b\<bar> \<le> INT32_MAX"
    using assms by (auto simp: is_s32_def)
  ultimately have "a' \<le> INT32_MAX" "b' \<le> INT32_MAX" by linarith+
  then have loop: "gcd_loop a' b' = Some (gcd a' b')"
    using ab by (intro gcd_loop_correct) auto
  have g: "push_bit k (gcd a' b') = gcd a b"
  proof -
    have "push_bit k (gcd a' b') = gcd (2 ^ k * a') (2 ^ k * b')"
      using gcd_mult_distrib_int [of "2 ^ k" a' b'] by (simp add: push_bit_eq_mult mult.commute)
    also have "\<dots> = gcd \<bar>a\<bar> \<bar>b\<bar>" using ab by simp
    finally show ?thesis by simp
  qed
  have "gcd a b \<le> \<bar>a\<bar>" using pos(1) by (intro zdvd_imp_le) simp_all
  moreover have "0 \<le> gcd a b" by simp
  ultimately have "is_s32 (gcd a b)" using bnd unfolding is_s32_def by linarith
  then show ?thesis
    using False sh loop g ABS_pos [OF assms(1,3)] ABS_pos [OF assms(2,4)]
    by (simp add: c_gcd_def s32_id)
qed

text \<open>
  C35: the binary gcd terminates on every pair of 32-bit integers other than \<open>INT32_MIN\<close>, and
  returns their greatest common divisor (1 by convention when one of them is zero).
\<close>

theorem c_gcd_correct:
  assumes "is_s32 a" "is_s32 b" "a \<noteq> INT32_MIN" "b \<noteq> INT32_MIN"
  shows "c_gcd a b = Some (if a = 0 \<or> b = 0 then 1 else gcd a b)"
  using assms by (rule c_gcd_total)

theorem c_gcd_correct_witness: "c_gcd (-12) 18 = Some 6"
proof -
  have "gcd (-12) (18::int) = 6" by code_simp
  then show ?thesis using c_gcd_correct [of "-12" 18] by (simp add: is_s32_def)
qed

lemma gcd_loop_stuck: "gcd_loop 1 (-1) = None"
proof (rule ccontr)
  assume "gcd_loop 1 (-1) \<noteq> None"
  then obtain r where ret: "gcd_loop 1 (-1) = Some r" by auto
  have "\<not> ((1::int) = 1 \<and> (-1::int) = -1)"
  proof (rule gcd_loop.raw_induct [where P = "\<lambda>a b r. \<not> (a = 1 \<and> b = -1)", OF _ ret])
    fix f a b r
    assume IH: "\<And>a b r. f a b = Some r \<Longrightarrow> \<not> (a = 1 \<and> b = -1)"
      and eq: "(if a > 0 then Option.bind (gcd_strip a) (\<lambda>a. Option.bind (gcd_strip b) (\<lambda>b.
          if a \<ge> b then f (s32 (a - b) div 2) b else f a (s32 (b - a) div 2))) else Some b) = Some r"
    show "\<not> (a = 1 \<and> b = -1)"
    proof
      assume ab: "a = 1 \<and> b = -1"
      have "gcd_strip 1 = Some 1" "gcd_strip (-1) = Some (-1)"
        by (simp_all add: gcd_strip.simps)
      with eq ab have "f 1 (-1) = Some r"
        by (simp add: s32_id is_s32_def)
      then show False using IH by blast
    qed
  qed
  then show False by simp
qed

lemma gcd_strip_minus_pow2: "gcd_strip (- (2 ^ k)) = Some (-1)"
proof (induction k)
  case 0
  show ?case by (simp add: gcd_strip.simps)
next
  case (Suc k)
  have "- (2 ^ Suc k) = 2 * (- (2 ^ k) :: int)" by simp
  then have "(- (2 ^ Suc k) :: int) div 2 = - (2 ^ k)"
    by (simp only: nonzero_mult_div_cancel_left [of 2] zero_neq_numeral not_False_eq_True)
  then have "gcd_strip (- (2 ^ Suc k)) = gcd_strip (- (2 ^ k))"
    by (subst gcd_strip.simps) (simp only:, simp)
  with Suc show ?case by simp
qed

text \<open>
  The gcd does not terminate on \<open>(1, INT32_MIN)\<close>: negating \<open>INT32_MIN\<close> leaves it negative, the
  halving of \<open>b\<close> ends at \<open>-1\<close>, and then \<open>a = (1 - (-1)) >> 1 = 1\<close> for ever.
\<close>

theorem c_gcd_int_min_diverges: "c_gcd 1 INT32_MIN = None"
proof -
  have abs: "ABS 1 = 1" "ABS INT32_MIN = INT32_MIN"
    by (simp_all add: ABS_def s32_def)
  have sh: "gcd_common_shift 1 INT32_MIN 0 = Some (1, INT32_MIN, 0)"
    by (simp add: gcd_common_shift.simps even_or_iff)
  have strip: "gcd_strip 1 = Some 1" "gcd_strip INT32_MIN = Some (-1)"
    using gcd_strip_minus_pow2 [of 31] by (simp_all add: gcd_strip.simps [of 1])
  have "gcd_loop 1 INT32_MIN = gcd_loop 1 (-1)"
    by (subst gcd_loop.simps) (simp add: strip s32_id is_s32_def)
  then show ?thesis
    using abs sh gcd_loop_stuck by (simp add: c_gcd_def)
qed

section \<open>The operations compute the rational operations\<close>

lemma abs_sdiv_le: "\<bar>a sdiv g\<bar> \<le> \<bar>a\<bar>" for a g :: int
proof -
  have le: "\<bar>a\<bar> div \<bar>g\<bar> \<le> \<bar>a\<bar>"
    by (cases "g = 0") (auto intro: zdiv_mono2 [of "\<bar>a\<bar>" 1, simplified])
  have "0 \<le> \<bar>a\<bar> div \<bar>g\<bar>" by (cases "g = 0") (simp_all add: pos_imp_zdiv_nonneg_iff)
  then have "\<bar>a sdiv g\<bar> = (if a = 0 \<or> g = 0 then 0 else \<bar>a\<bar> div \<bar>g\<bar>)"
    by (simp add: signed_divide_int_def abs_mult)
  with le show ?thesis by simp
qed

definition is_s16 :: "int \<Rightarrow> bool" where
  "is_s16 k \<longleftrightarrow> \<bar>k\<bar> \<le> 32767"

lemma is_s16_sdiv: "is_s16 a \<Longrightarrow> is_s16 (a sdiv g)"
  using abs_sdiv_le [of a g] by (simp add: is_s16_def)

lemma is_s16_mult: "is_s16 a \<Longrightarrow> is_s16 b \<Longrightarrow> \<bar>a * b\<bar> \<le> 1073676289"
proof -
  assume "is_s16 a" "is_s16 b"
  then have "\<bar>a\<bar> * \<bar>b\<bar> \<le> 32767 * 32767" unfolding is_s16_def by (intro mult_mono) auto
  then show ?thesis by (simp add: abs_mult)
qed

lemma is_s16_mult_s32: "is_s16 a \<Longrightarrow> is_s16 b \<Longrightarrow> s32 (a * b) = a * b"
  using is_s16_mult [of a b] by (intro s32_id) (auto simp: is_s32_def)

lemma c_gcd_s16:
  assumes "is_s16 a" "is_s16 b"
  shows "c_gcd a b = Some (if a = 0 \<or> b = 0 then 1 else gcd a b)"
  using assms by (intro c_gcd_total) (auto simp: is_s16_def is_s32_def)

lemma c_gcd_dvd32:
  assumes "is_s32 a" "is_s32 b" "a \<noteq> INT32_MIN" "b \<noteq> INT32_MIN"
  obtains g where "c_gcd a b = Some g" "g \<noteq> 0" "g dvd a" "g dvd b"
  using c_gcd_total [OF assms] by (cases "a = 0 \<or> b = 0") auto

lemma c_gcd_dvd:
  assumes "is_s16 a" "is_s16 b"
  obtains g where "c_gcd a b = Some g" "g \<noteq> 0" "g dvd a" "g dvd b"
  using c_gcd_s16 [OF assms] by (cases "a = 0 \<or> b = 0") auto

definition rational_s16 :: "mmal_rational \<Rightarrow> bool" where
  "rational_s16 r \<longleftrightarrow> is_s16 (num r) \<and> is_s16 (den r) \<and> den r \<noteq> 0"

lemma rational_add_core:
  fixes na nb da db g t g2 :: int
  assumes g: "g \<noteq> 0" "g dvd da" "g dvd db" and t: "t = na * (db div g) + nb * (da div g)"
    and g2: "g2 \<noteq> 0" "g2 dvd t" "g2 dvd g"
  shows "(t div g2) * (da * db) = (na * db + nb * da) * ((da div g) * (db div g2))"
proof -
  obtain A B where AB: "da = g * A" "db = g * B" using g by (auto elim!: dvdE)
  obtain t' d' where td: "t = g2 * t'" "g = g2 * d'" using g2 by (auto elim!: dvdE)
  have "t = na * B + nb * A" using t g AB by simp
  then have "na * db + nb * da = g * t" using AB by (simp add: algebra_simps)
  moreover have "da div g = A" "t div g2 = t'" "db div g2 = d' * B"
    using AB td g g2 by (simp_all add: mult.assoc)
  ultimately show ?thesis using AB td by (simp add: mult.commute mult.left_commute)
qed

text \<open>
  On 16-bit numerators and denominators nothing overflows, and the sum returned by the code
  is the exact rational sum (stated by cross-multiplication) with a non-zero denominator.
\<close>

theorem mmal_rational_add_exact:
  assumes "rational_s16 a" "rational_s16 b"
  shows "\<exists>r. mmal_rational_add a b = Some r \<and> den r \<noteq> 0 \<and>
           num r * (den a * den b) = (num a * den b + num b * den a) * den r"
proof -
  let ?g = "gcd (den a) (den b)"
  have s16: "is_s16 (num a)" "is_s16 (num b)" "is_s16 (den a)" "is_s16 (den b)"
    and nz: "den a \<noteq> 0" "den b \<noteq> 0"
    using assms by (auto simp: rational_s16_def)
  have g: "?g \<noteq> 0" "?g dvd den a" "?g dvd den b" using nz by auto
  define A B where "A = den a sdiv ?g" and "B = den b sdiv ?g"
  define t where "t = num a * B + num b * A"
  have AB16: "is_s16 A" "is_s16 B" using s16 by (simp_all add: A_def B_def is_s16_sdiv)
  have t_bound: "\<bar>t\<bar> \<le> 2147352578"
    using is_s16_mult [OF s16(1) AB16(2)] is_s16_mult [OF s16(2) AB16(1)] unfolding t_def by linarith
  then have t32: "is_s32 t" "t \<noteq> INT32_MIN" by (auto simp: is_s32_def)
  have "?g \<le> \<bar>den a\<bar>" using nz by (intro zdvd_imp_le) auto
  moreover have "0 \<le> ?g" by simp
  ultimately have "is_s32 ?g" "?g \<noteq> INT32_MIN"
    using s16(3) unfolding is_s16_def is_s32_def by linarith+
  then obtain g2 where g2: "c_gcd t ?g = Some g2" "g2 \<noteq> 0" "g2 dvd t" "g2 dvd ?g"
    using c_gcd_dvd32 [OF t32(1) _ t32(2)] by metis
  let ?r = "\<lparr>num = t sdiv g2, den = A * (den b sdiv g2)\<rparr>"
  have res: "mmal_rational_add a b = Some ?r"
    using nz g2 t32 s16 AB16 c_gcd_s16 [OF s16(3,4)]
    by (simp add: mmal_rational_add_def Let_def is_s16_mult_s32 is_s16_sdiv s32_id
        flip: A_def B_def t_def)
  have ex: "A = den a div ?g" "B = den b div ?g" "t sdiv g2 = t div g2" "den b sdiv g2 = den b div g2"
    using g g2 dvd_trans [OF g2(4) g(3)] unfolding A_def B_def by (simp_all add: sdiv_exact)
  have "den b div g2 \<noteq> 0" "A \<noteq> 0"
    using nz g g2 dvd_trans [OF g2(4) g(3)] ex(1) by (auto simp: dvd_div_eq_0_iff)
  moreover have "(t div g2) * (den a * den b) = (num a * den b + num b * den a) * (A * (den b div g2))"
    unfolding ex(1) by (rule rational_add_core) (use g g2 ex t_def in auto)
  ultimately show ?thesis using res ex by simp
qed

theorem mmal_rational_add_exact_witness:
  "\<exists>r. mmal_rational_add \<lparr>num = 1, den = 6\<rparr> \<lparr>num = -3, den = 10\<rparr> = Some r \<and> num r * 60 = -8 * den r"
  using mmal_rational_add_exact [of "\<lparr>num = 1, den = 6\<rparr>" "\<lparr>num = -3, den = 10\<rparr>"]
  by (auto simp: rational_s16_def is_s16_def)

lemma rational_multiply_core:
  fixes na nb da db g1 g2 :: int
  assumes "g1 \<noteq> 0" "g2 \<noteq> 0" "g1 dvd na" "g1 dvd db" "g2 dvd nb" "g2 dvd da"
  shows "((na div g1) * (nb div g2)) * (da * db) = (na * nb) * ((da div g2) * (db div g1))"
  using assms by (auto elim!: dvdE)

lemma mmal_rational_multiply_exact:
  assumes "rational_s16 a" "rational_s16 b"
  shows "\<exists>r. mmal_rational_multiply a b = Some r \<and> den r \<noteq> 0 \<and>
           num r * (den a * den b) = (num a * num b) * den r"
proof -
  have s16: "is_s16 (num a)" "is_s16 (num b)" "is_s16 (den a)" "is_s16 (den b)"
    and nz: "den a \<noteq> 0" "den b \<noteq> 0"
    using assms by (auto simp: rational_s16_def)
  obtain g1 where g1: "c_gcd (num a) (den b) = Some g1" "g1 \<noteq> 0" "g1 dvd num a" "g1 dvd den b"
    using c_gcd_dvd [OF s16(1,4)] by metis
  obtain g2 where g2: "c_gcd (num b) (den a) = Some g2" "g2 \<noteq> 0" "g2 dvd num b" "g2 dvd den a"
    using c_gcd_dvd [OF s16(2,3)] by metis
  let ?r = "\<lparr>num = (num a sdiv g1) * (num b sdiv g2), den = (den a sdiv g2) * (den b sdiv g1)\<rparr>"
  have "mmal_rational_multiply a b = Some ?r"
    using g1 g2 s16 by (simp add: mmal_rational_multiply_def is_s16_mult_s32 is_s16_sdiv)
  moreover have "den a sdiv g2 \<noteq> 0" "den b sdiv g1 \<noteq> 0"
    using nz g1 g2 by (auto simp: sdiv_exact dvd_div_eq_0_iff)
  ultimately show ?thesis
    using rational_multiply_core [OF g1(2) g2(2) g1(3,4) g2(3,4)] g1 g2 by (simp add: sdiv_exact)
qed

lemma mmal_rational_divide_exact:
  assumes "rational_s16 a" "rational_s16 b" "num b \<noteq> 0"
  shows "\<exists>r. mmal_rational_divide a b = Some r \<and> den r \<noteq> 0 \<and>
           num r * (den a * num b) = (num a * den b) * den r"
proof (cases "num a = 0")
  case True
  with assms show ?thesis by (auto simp: mmal_rational_divide_def rational_s16_def)
next
  case False
  have s16: "is_s16 (num a)" "is_s16 (num b)" "is_s16 (den a)" "is_s16 (den b)"
    and nz: "den a \<noteq> 0" "den b \<noteq> 0"
    using assms by (auto simp: rational_s16_def)
  obtain g1 where g1: "c_gcd (num a) (num b) = Some g1" "g1 \<noteq> 0" "g1 dvd num a" "g1 dvd num b"
    using c_gcd_dvd [OF s16(1,2)] by metis
  obtain g2 where g2: "c_gcd (den b) (den a) = Some g2" "g2 \<noteq> 0" "g2 dvd den b" "g2 dvd den a"
    using c_gcd_dvd [OF s16(4,3)] by metis
  let ?r = "\<lparr>num = (num a sdiv g1) * (den b sdiv g2), den = (den a sdiv g2) * (num b sdiv g1)\<rparr>"
  have "mmal_rational_divide a b = Some ?r"
    using False assms g1 g2 s16 by (simp add: mmal_rational_divide_def is_s16_mult_s32 is_s16_sdiv)
  moreover have "den a sdiv g2 \<noteq> 0" "num b sdiv g1 \<noteq> 0"
    using nz assms g1 g2 by (auto simp: sdiv_exact dvd_div_eq_0_iff)
  ultimately show ?thesis
    using rational_multiply_core [OF g1(2) g2(2) g1(3,4) g2(3,4)] g1 g2 by (simp add: sdiv_exact)
qed

section \<open>Fixed point and equality\<close>

lemma c_gcd_int_min_q16: "c_gcd INT32_MIN Q16_ONE = Some 65536"
proof -
  have abs: "ABS INT32_MIN = INT32_MIN" "ABS Q16_ONE = 65536"
    by (simp_all add: ABS_def s32_def Q16_ONE_def push_bit_eq_mult)
  have sh: "gcd_common_shift INT32_MIN 65536 0 = Some (- 32768, 1, 16)"
    by (simp add: gcd_common_shift.simps even_or_iff eval_nat_numeral)
  have "gcd_loop (- 32768) 1 = Some 1" by (simp add: gcd_loop.simps)
  with abs sh show ?thesis
    by (simp add: c_gcd_def Q16_ONE_def push_bit_eq_mult s32_id is_s32_def)
qed

lemma c_gcd_q16:
  assumes "is_s32 f"
  obtains g where "c_gcd f Q16_ONE = Some g" "0 < g" "g dvd f" "g dvd 65536"
proof (cases "f = INT32_MIN")
  case True
  then show ?thesis using c_gcd_int_min_q16 by (intro that [of 65536]) simp_all
next
  case False
  have q: "Q16_ONE = 65536" by (simp add: Q16_ONE_def push_bit_eq_mult)
  have "c_gcd f 65536 = Some (if f = 0 then 1 else gcd f 65536)"
    using c_gcd_total [OF assms _ False, of 65536] by (simp add: is_s32_def)
  then show ?thesis using q by (intro that [of "if f = 0 then 1 else gcd f 65536"]) auto
qed

text \<open>
  The conversion from Q16 fixed point to a reduced rational and back is the identity on
  every 32-bit value, \<open>INT32_MIN\<close> included.
\<close>

theorem mmal_rational_fixed_roundtrip:
  assumes "is_s32 f"
  shows "map_option mmal_rational_to_fixed_16_16 (mmal_rational_from_fixed_16_16 f) = Some f"
proof -
  obtain g where g: "c_gcd f Q16_ONE = Some g" "0 < g" "g dvd f" "g dvd 65536"
    using c_gcd_q16 [OF assms] .
  obtain n d where nd: "f = g * n" "65536 = g * d" using g by (auto elim!: dvdE)
  have q: "Q16_ONE = 65536" by (simp add: Q16_ONE_def push_bit_eq_mult)
  have "d \<noteq> 0" using nd by auto
  have "f sdiv g = n" using g nd(1) by (simp add: sdiv_exact)
  moreover have "Q16_ONE sdiv g = d"
    unfolding q nd(2) using g(2) by (simp add: sdiv_exact)
  ultimately have div: "f sdiv g = n" "Q16_ONE sdiv g = d" .
  then have from_eq: "mmal_rational_from_fixed_16_16 f = Some \<lparr>num = n, den = d\<rparr>"
    using g(1) by (simp add: mmal_rational_from_fixed_16_16_def mmal_rational_simplify_def)
  have "\<bar>n\<bar> \<le> \<bar>f\<bar>" using div(1) abs_sdiv_le by metis
  then have "is_s64 (n * 65536)" using assms by (auto simp: is_s32_def is_s64_def)
  moreover have "n * 65536 = f * d" using nd by simp
  then have "(n * 65536) sdiv d = f" using \<open>d \<noteq> 0\<close> by (simp add: sdiv_exact)
  moreover have "s64 f = f" using assms by (simp add: s64_id is_s64_of_s32)
  moreover have "push_bit 16 n = n * 65536" by (simp add: push_bit_eq_mult)
  ultimately show ?thesis using from_eq assms \<open>d \<noteq> 0\<close>
    by (simp add: mmal_rational_to_fixed_16_16_def Let_def s64_id is_s32_def)
qed

theorem mmal_rational_fixed_roundtrip_witness:
  "map_option mmal_rational_to_fixed_16_16 (mmal_rational_from_fixed_16_16 98304) = Some 98304"
  using mmal_rational_fixed_roundtrip [of 98304] by (simp add: is_s32_def)

definition rational_s32 :: "mmal_rational \<Rightarrow> bool" where
  "rational_s32 r \<longleftrightarrow> is_s32 (num r) \<and> is_s32 (den r)"

text \<open>With 32-bit fields the 64-bit products of \<open>mmal_rational_equal\<close> cannot overflow.\<close>

lemma mmal_rational_equal_iff:
  assumes "rational_s32 a" "rational_s32 b" "den a \<noteq> 0" "den b \<noteq> 0"
  shows "mmal_rational_equal a b \<longleftrightarrow> num a * den b = num b * den a"
proof -
  have "s64 (num a * num b) = num a * num b" "s64 (num a * den b) = num a * den b"
    "s64 (num b * den a) = num b * den a"
    using assms by (auto simp: rational_s32_def intro!: s64_id is_s64_mult_s32)
  with assms show ?thesis by (auto simp: mmal_rational_equal_def)
qed

lemma mmal_rational_to_fixed_range: "is_s32 (mmal_rational_to_fixed_16_16 r)"
  by (simp add: mmal_rational_to_fixed_16_16_def Let_def is_s32_def)

end
