(* ===== verification/MmalList.thy ===== *)
theory MmalList
  imports Vcos
begin

text \<open>
  Doubly linked intrusive lists, \<^verbatim>\<open>mmal/util/mmal_list.c\<close>, shown to implement lists of elements:
  the next pointers from the first element and the previous pointers from the last one run through
  the same elements in opposite directions (\<open>list_rep\<close>).  The locale \<open>deque\<close> states what
  a client relies on.  Every operation runs under the lock of its list.
\<close>

section \<open>Data\<close>

record mmal_list_element =
  e_next :: "addr option"
  e_prev :: "addr option"

record mmal_list =
  l_length :: u32
  l_first :: "addr option"
  l_last :: "addr option"

record list_store = os_store +
  elements :: "addr \<Rightarrow> mmal_list_element"
  lists :: "addr \<Rightarrow> mmal_list"

definition upd_elem :: "addr \<Rightarrow> (mmal_list_element \<Rightarrow> mmal_list_element) \<Rightarrow> 'a list_store_scheme \<Rightarrow> 'a list_store_scheme" where
  "upd_elem e f s = s\<lparr>elements := (elements s)(e := f (elements s e))\<rparr>"

definition upd_list :: "addr \<Rightarrow> (mmal_list \<Rightarrow> mmal_list) \<Rightarrow> 'a list_store_scheme \<Rightarrow> 'a list_store_scheme" where
  "upd_list l f s = s\<lparr>lists := (lists s)(l := f (lists s l))\<rparr>"

section \<open>Operations\<close>

definition sizeof_MMAL_LIST_PRIVATE_T :: u32 where "sizeof_MMAL_LIST_PRIVATE_T = 36"

definition mmal_list_create :: "'a list_store_scheme \<Rightarrow> addr option \<times> 'a list_store_scheme" where
  "mmal_list_create s =
     (case vcos_malloc sizeof_MMAL_LIST_PRIVATE_T s of
        (None, s) \<Rightarrow> (None, vcos_free None s)
      | (Some l, s) \<Rightarrow>
          (case vcos_create (Mutex l) s of
             (False, s) \<Rightarrow> (None, vcos_free (Some l) s)
           | (True, s) \<Rightarrow>
               (Some l, upd_list l (\<lambda>_. \<lparr>l_length = 0, l_first = None, l_last = None\<rparr>) s)))"

definition mmal_list_destroy :: "addr \<Rightarrow> 'a list_store_scheme \<Rightarrow> 'a list_store_scheme" where
  "mmal_list_destroy l s = vcos_free (Some l) (vcos_delete (Mutex l) s)"

definition mmal_list_pop_back :: "addr \<Rightarrow> 'a list_store_scheme \<Rightarrow> addr option \<times> 'a list_store_scheme" where
  "mmal_list_pop_back l s =
     (case l_last (lists s l) of
        None \<Rightarrow> (None, s)
      | Some e \<Rightarrow>
          let s = upd_list l (\<lambda>li. li\<lparr>l_length := l_length li - 1\<rparr>) s;
              s = upd_list l (\<lambda>li. li\<lparr>l_last := e_prev (elements s e)\<rparr>) s;
              s = (case l_last (lists s l) of
                     Some n \<Rightarrow> upd_elem n (\<lambda>x. x\<lparr>e_next := None\<rparr>) s
                   | None \<Rightarrow> upd_list l (\<lambda>li. li\<lparr>l_first := None\<rparr>) s);
              s = upd_elem e (\<lambda>x. x\<lparr>e_prev := None, e_next := None\<rparr>) s
          in (Some e, s))"

definition mmal_list_pop_front :: "addr \<Rightarrow> 'a list_store_scheme \<Rightarrow> addr option \<times> 'a list_store_scheme" where
  "mmal_list_pop_front l s =
     (case l_first (lists s l) of
        None \<Rightarrow> (None, s)
      | Some e \<Rightarrow>
          let s = upd_list l (\<lambda>li. li\<lparr>l_length := l_length li - 1\<rparr>) s;
              s = upd_list l (\<lambda>li. li\<lparr>l_first := e_next (elements s e)\<rparr>) s;
              s = (case l_first (lists s l) of
                     Some n \<Rightarrow> upd_elem n (\<lambda>x. x\<lparr>e_prev := None\<rparr>) s
                   | None \<Rightarrow> upd_list l (\<lambda>li. li\<lparr>l_last := None\<rparr>) s);
              s = upd_elem e (\<lambda>x. x\<lparr>e_prev := None, e_next := None\<rparr>) s
          in (Some e, s))"

definition mmal_list_push_front :: "addr \<Rightarrow> addr \<Rightarrow> 'a list_store_scheme \<Rightarrow> 'a list_store_scheme" where
  "mmal_list_push_front l e s =
     (let s = upd_list l (\<lambda>li. li\<lparr>l_length := l_length li + 1\<rparr>) s;
          s = upd_elem e (\<lambda>x. x\<lparr>e_prev := None, e_next := l_first (lists s l)\<rparr>) s;
          s = (case l_first (lists s l) of
                 Some n \<Rightarrow> upd_elem n (\<lambda>x. x\<lparr>e_prev := Some e\<rparr>) s
               | None \<Rightarrow> upd_list l (\<lambda>li. li\<lparr>l_last := Some e\<rparr>) s)
      in upd_list l (\<lambda>li. li\<lparr>l_first := Some e\<rparr>) s)"

definition mmal_list_push_back :: "addr \<Rightarrow> addr \<Rightarrow> 'a list_store_scheme \<Rightarrow> 'a list_store_scheme" where
  "mmal_list_push_back l e s =
     (let s = upd_list l (\<lambda>li. li\<lparr>l_length := l_length li + 1\<rparr>) s;
          s = upd_elem e (\<lambda>x. x\<lparr>e_next := None, e_prev := l_last (lists s l)\<rparr>) s;
          s = (case l_last (lists s l) of
                 Some n \<Rightarrow> upd_elem n (\<lambda>x. x\<lparr>e_next := Some e\<rparr>) s
               | None \<Rightarrow> upd_list l (\<lambda>li. li\<lparr>l_first := Some e\<rparr>) s)
      in upd_list l (\<lambda>li. li\<lparr>l_last := Some e\<rparr>) s)"

text \<open>
  The search of \<open>mmal_list_insert\<close>: the first element from \<open>cur\<close> on that the new one compares
  before, \<open>Some None\<close> when there is none.  On a cyclic list the search does not end (\<open>None\<close>).
\<close>

partial_function (option) find_slot ::
  "(addr \<Rightarrow> addr \<Rightarrow> bool) \<Rightarrow> addr \<Rightarrow> addr option \<Rightarrow> 'a list_store_scheme \<Rightarrow> addr option option" where
  "find_slot compare e cur s =
     (case cur of
        None \<Rightarrow> Some None
      | Some c \<Rightarrow> if compare e c then Some (Some c) else find_slot compare e (e_next (elements s c)) s)"

text \<open>The slot is found: \<open>e\<close> is linked before \<open>cur\<close>.\<close>

definition link_before :: "addr \<Rightarrow> addr \<Rightarrow> addr \<Rightarrow> 'a list_store_scheme \<Rightarrow> 'a list_store_scheme" where
  "link_before l e cur s =
     (let s = upd_list l (\<lambda>li. li\<lparr>l_length := l_length li + 1\<rparr>) s;
          s = (if l_first (lists s l) = Some cur then upd_list l (\<lambda>li. li\<lparr>l_first := Some e\<rparr>) s
               else case e_prev (elements s cur) of
                      None \<Rightarrow> s
                    | Some p \<Rightarrow> upd_elem p (\<lambda>x. x\<lparr>e_next := Some e\<rparr>) s);
          s = upd_elem e (\<lambda>x. x\<lparr>e_prev := e_prev (elements s cur)\<rparr>) s;
          s = upd_elem e (\<lambda>x. x\<lparr>e_next := Some cur\<rparr>) s
      in upd_elem cur (\<lambda>x. x\<lparr>e_prev := Some e\<rparr>) s)"

definition mmal_list_insert ::
  "addr \<Rightarrow> addr \<Rightarrow> (addr \<Rightarrow> addr \<Rightarrow> bool) \<Rightarrow> 'a list_store_scheme \<Rightarrow> 'a list_store_scheme option" where
  "mmal_list_insert l e compare s =
     (if l_first (lists s l) = None then Some (mmal_list_push_front l e s)
      else do {
        slot \<leftarrow> find_slot compare e (l_first (lists s l)) s;
        case slot of
          None \<Rightarrow> Some (mmal_list_push_back l e s)
        | Some cur \<Rightarrow> Some (link_before l e cur s)
      })"

section \<open>The list represented\<close>

abbreviation e_nexts :: "'a list_store_scheme \<Rightarrow> addr \<Rightarrow> addr option" where
  "e_nexts s \<equiv> \<lambda>e. e_next (elements s e)"

abbreviation e_prevs :: "'a list_store_scheme \<Rightarrow> addr \<Rightarrow> addr option" where
  "e_prevs s \<equiv> \<lambda>e. e_prev (elements s e)"

definition list_rep :: "addr \<Rightarrow> 'a list_store_scheme \<Rightarrow> addr list \<Rightarrow> bool" where
  "list_rep l s xs \<longleftrightarrow>
     lseg (e_nexts s) (l_first (lists s l)) xs None \<and>
     lseg (e_prevs s) (l_last (lists s l)) (rev xs) None \<and>
     distinct xs \<and> l_length (lists s l) = word_of_nat (length xs)"

lemma elements_upd [simp]:
  "elements (upd_elem e f s) = (elements s)(e := f (elements s e))" "elements (upd_list l g s) = elements s"
  "lists (upd_list l g s) = (lists s)(l := g (lists s l))" "lists (upd_elem e f s) = lists s"
  by (simp_all add: upd_elem_def upd_list_def)

lemma lseg_splice:
  assumes "lseg nx p (as @ bs) q" "distinct (as @ bs)" "as \<noteq> []" "x \<notin> set (as @ bs)"
  shows "lseg (nx(x := nx (last as), last as := Some x)) p (as @ x # bs) q"
proof -
  obtain ys y where as: "as = ys @ [y]" using assms(3) by (cases as rule: rev_cases) auto
  have "lseg nx p ys (Some y)" "lseg nx (nx y) bs q" using assms(1) as by (auto simp: lseg_simps)
  moreover have "x \<noteq> y" "y \<notin> set ys" "y \<notin> set bs" "x \<notin> set ys" "x \<notin> set bs" using assms as by auto
  ultimately show ?thesis by (simp add: as lseg_simps)
qed

lemma lseg_butlast:
  assumes "lseg nx p (ys @ [x]) None" "distinct (ys @ [x])" "ys \<noteq> []"
  shows "lseg (nx(last ys := None)) p ys None" and "nx x = None" and "nx (last ys) = Some x"
proof -
  obtain zs z where ys: "ys = zs @ [z]" using assms(3) by (cases ys rule: rev_cases) auto
  show "lseg (nx(last ys := None)) p ys None" "nx x = None" "nx (last ys) = Some x"
    using assms(1,2) by (auto simp: ys lseg_simps)
qed

lemma lseg_ends:
  "lseg nx p xs None \<Longrightarrow> xs \<noteq> [] \<Longrightarrow> p = Some (hd xs)"
  "lseg nx p [] None \<Longrightarrow> p = None"
  by (auto dest: lseg_nonempty_head)

lemma if_sel [simp]:
  "e_next (if b then x else y) = (if b then e_next x else e_next y)"
  "e_prev (if b then x else y) = (if b then e_prev x else e_prev y)"
  by simp_all

lemma list_rep_lists: "list_rep l s xs \<Longrightarrow> xs \<noteq> [] \<Longrightarrow>
    l_first (lists s l) = Some (hd xs) \<and> l_last (lists s l) = Some (last xs)"
  by (auto simp: list_rep_def hd_rev dest: lseg_nonempty_head)

lemma list_rep_Nil: "list_rep l s [] \<longleftrightarrow>
    l_first (lists s l) = None \<and> l_last (lists s l) = None \<and> l_length (lists s l) = 0"
  by (auto simp: list_rep_def)

lemma list_rep_push_front:
  assumes rep: "list_rep l s xs" and e: "e \<notin> set xs"
  shows "list_rep l (mmal_list_push_front l e s) (e # xs)"
proof (cases "xs = []")
  case True
  with rep show ?thesis by (auto simp: list_rep_def mmal_list_push_front_def Let_def)
next
  case False
  let ?h = "hd xs"
  have first: "l_first (lists s l) = Some ?h" and last: "l_last (lists s l) = Some (last xs)"
    using list_rep_lists [OF rep False] by auto
  have h: "?h \<in> set xs" "e \<noteq> ?h" "last (rev xs) = ?h" using False e by (auto simp: last_rev)
  have n: "lseg ((e_nexts s)(e := Some ?h)) (Some e) (e # xs) None"
    using rep e first by (simp add: list_rep_def lseg_simps)
  have pv: "e_prev (elements s ?h) = None"
    using lseg_last_next [of "e_prevs s" _ "rev xs" None] rep False h(3) by (auto simp: list_rep_def)
  have "lseg ((e_prevs s)(e := e_prevs s (last (rev xs)), last (rev xs) := Some e)) (Some (last xs)) (rev xs @ [e]) None"
    using rep e False last by (intro lseg_splice) (auto simp: list_rep_def)
  then have p: "lseg ((e_prevs s)(e := None, ?h := Some e)) (Some (last xs)) (rev (e # xs)) None"
    using pv h(3) by simp
  have "e_nexts (mmal_list_push_front l e s) = (e_nexts s)(e := Some ?h)"
    "e_prevs (mmal_list_push_front l e s) = (e_prevs s)(e := None, ?h := Some e)"
    "lists (mmal_list_push_front l e s) l = \<lparr>l_length = l_length (lists s l) + 1, l_first = Some e, l_last = Some (last xs)\<rparr>"
    using first last h by (auto simp: mmal_list_push_front_def Let_def fun_eq_iff)
  with n p rep e show ?thesis by (simp add: list_rep_def)
qed

lemma list_rep_push_back:
  assumes rep: "list_rep l s xs" and e: "e \<notin> set xs"
  shows "list_rep l (mmal_list_push_back l e s) (xs @ [e])"
proof (cases "xs = []")
  case True
  with rep show ?thesis by (auto simp: list_rep_def mmal_list_push_back_def Let_def)
next
  case False
  let ?h = "last xs"
  have first: "l_first (lists s l) = Some (hd xs)" and last: "l_last (lists s l) = Some ?h"
    using list_rep_lists [OF rep False] by auto
  have h: "?h \<in> set xs" "e \<noteq> ?h" using False e by auto
  have p: "lseg ((e_prevs s)(e := Some ?h)) (Some e) (rev (xs @ [e])) None"
    using rep e last by (simp add: list_rep_def lseg_simps)
  have nx: "e_next (elements s ?h) = None"
    using lseg_last_next [of "e_nexts s" _ xs None] rep False by (auto simp: list_rep_def)
  have "lseg ((e_nexts s)(e := e_nexts s ?h, ?h := Some e)) (Some (hd xs)) (xs @ [e]) None"
    using rep e False first by (intro lseg_splice) (auto simp: list_rep_def)
  then have n: "lseg ((e_nexts s)(e := None, ?h := Some e)) (Some (hd xs)) (xs @ [e]) None"
    using nx by simp
  have "e_prevs (mmal_list_push_back l e s) = (e_prevs s)(e := Some ?h)"
    "e_nexts (mmal_list_push_back l e s) = (e_nexts s)(e := None, ?h := Some e)"
    "lists (mmal_list_push_back l e s) l = \<lparr>l_length = l_length (lists s l) + 1, l_first = Some (hd xs), l_last = Some e\<rparr>"
    using first last h by (auto simp: mmal_list_push_back_def Let_def fun_eq_iff)
  with n p rep e show ?thesis by (simp add: list_rep_def)
qed

lemma list_rep_pop_front_Nil: "list_rep l s [] \<Longrightarrow> mmal_list_pop_front l s = (None, s)"
  by (simp add: list_rep_Nil mmal_list_pop_front_def)

lemma list_rep_pop_back_Nil: "list_rep l s [] \<Longrightarrow> mmal_list_pop_back l s = (None, s)"
  by (simp add: list_rep_Nil mmal_list_pop_back_def)

lemma list_rep_pop_front_Cons:
  assumes rep: "list_rep l s (x # xs)"
  shows "\<exists>s'. mmal_list_pop_front l s = (Some x, s') \<and> list_rep l s' xs"
proof (cases "xs = []")
  case True
  with rep show ?thesis by (auto simp: list_rep_def mmal_list_pop_front_def Let_def)
next
  case False
  let ?h = "hd xs"
  have first: "l_first (lists s l) = Some x" and last: "l_last (lists s l) = Some (last xs)"
    using list_rep_lists [OF rep] False by auto
  have nx: "e_next (elements s x) = Some ?h"
    using rep False by (auto simp: list_rep_def dest: lseg_nonempty_head)
  have h: "?h \<in> set xs" "x \<noteq> ?h" "last (rev xs) = ?h" "x \<notin> set xs" using False rep
    by (auto simp: last_rev list_rep_def)
  have n: "lseg (e_nexts s) (Some ?h) xs None" using rep nx by (simp add: list_rep_def)
  have "lseg (e_prevs s) (Some (last xs)) (rev xs @ [x]) None" "distinct (rev xs @ [x])"
    using rep last by (auto simp: list_rep_def)
  then have "lseg ((e_prevs s)(last (rev xs) := None)) (Some (last xs)) (rev xs) None"
    using False by (intro lseg_butlast) auto
  then have p: "lseg ((e_prevs s)(?h := None)) (Some (last xs)) (rev xs) None" by (simp only: h(3))
  obtain s' where s': "mmal_list_pop_front l s = (Some x, s')" by (simp add: mmal_list_pop_front_def first Let_def)
  then have "e_nexts s' = (e_nexts s)(x := None)" "e_prevs s' = (e_prevs s)(?h := None, x := None)"
    "lists s' l = \<lparr>l_length = l_length (lists s l) - 1, l_first = Some ?h, l_last = Some (last xs)\<rparr>"
    using first last nx h by (auto simp: mmal_list_pop_front_def Let_def fun_eq_iff)
  with n p rep h s' show ?thesis by (simp add: list_rep_def lseg_simps)
qed

lemma list_rep_pop_back_snoc:
  assumes rep: "list_rep l s (xs @ [x])"
  shows "\<exists>s'. mmal_list_pop_back l s = (Some x, s') \<and> list_rep l s' xs"
proof (cases "xs = []")
  case True
  with rep show ?thesis by (auto simp: list_rep_def mmal_list_pop_back_def Let_def)
next
  case False
  let ?h = "last xs"
  have first: "l_first (lists s l) = Some (hd xs)" and last: "l_last (lists s l) = Some x"
    using list_rep_lists [OF rep] False by auto
  have "lseg (e_prevs s) (Some x) (x # rev xs) None" using rep last by (simp add: list_rep_def)
  then have l: "lseg (e_prevs s) (e_prev (elements s x)) (rev xs) None" by simp
  then have pv: "e_prev (elements s x) = Some ?h" using False by (auto simp: hd_rev dest: lseg_nonempty_head)
  with l have p: "lseg (e_prevs s) (Some ?h) (rev xs) None" by simp
  have h: "?h \<in> set xs" "x \<noteq> ?h" "x \<notin> set xs" using False rep by (auto simp: list_rep_def)
  have "lseg (e_nexts s) (Some (hd xs)) (xs @ [x]) None" "distinct (xs @ [x])"
    using rep first by (auto simp: list_rep_def)
  then have n: "lseg ((e_nexts s)(?h := None)) (Some (hd xs)) xs None"
    using False by (intro lseg_butlast) auto
  obtain s' where s': "mmal_list_pop_back l s = (Some x, s')" by (simp add: mmal_list_pop_back_def last Let_def)
  then have "e_prevs s' = (e_prevs s)(x := None)" "e_nexts s' = (e_nexts s)(?h := None, x := None)"
    "lists s' l = \<lparr>l_length = l_length (lists s l) - 1, l_first = Some (hd xs), l_last = Some ?h\<rparr>"
    using first last pv h by (auto simp: mmal_list_pop_back_def Let_def fun_eq_iff)
  with n p rep h s' show ?thesis by (simp add: list_rep_def lseg_simps)
qed

text \<open>Insertion before the first element that the new one compares before.\<close>

fun insert_before :: "(addr \<Rightarrow> addr \<Rightarrow> bool) \<Rightarrow> addr \<Rightarrow> addr list \<Rightarrow> addr list" where
  "insert_before compare e [] = [e]"
| "insert_before compare e (x # xs) = (if compare e x then e # x # xs else x # insert_before compare e xs)"

lemma set_insert_before [simp]: "set (insert_before compare e xs) = insert e (set xs)"
  by (induction xs) auto

lemma length_insert_before [simp]: "length (insert_before compare e xs) = Suc (length xs)"
  by (induction xs) auto

lemma distinct_insert_before: "distinct xs \<Longrightarrow> e \<notin> set xs \<Longrightarrow> distinct (insert_before compare e xs)"
  by (induction xs) auto

lemma insert_before_split:
  "insert_before compare e xs = takeWhile (\<lambda>x. \<not> compare e x) xs @ e # dropWhile (\<lambda>x. \<not> compare e x) xs"
  by (induction xs) auto

lemma find_slot_lseg:
  "lseg (e_nexts s) p xs None \<Longrightarrow>
   find_slot compare e p s =
     Some (case dropWhile (\<lambda>x. \<not> compare e x) xs of [] \<Rightarrow> None | c # _ \<Rightarrow> Some c)"
proof (induction xs arbitrary: p)
  case Nil
  then show ?case by (simp add: find_slot.simps)
next
  case (Cons x xs)
  then show ?case by (subst find_slot.simps) simp
qed

lemma list_rep_insert:
  assumes rep: "list_rep l s xs" and e: "e \<notin> set xs"
  shows "\<exists>s'. mmal_list_insert l e compare s = Some s' \<and> list_rep l s' (insert_before compare e xs)"
proof (cases "xs = []")
  case True
  with rep list_rep_push_front [OF rep e] show ?thesis by (simp add: mmal_list_insert_def list_rep_Nil)
next
  case False
  define as where "as = takeWhile (\<lambda>x. \<not> compare e x) xs"
  define bs where "bs = dropWhile (\<lambda>x. \<not> compare e x) xs"
  have xs: "xs = as @ bs" and ins: "insert_before compare e xs = as @ e # bs"
    by (simp_all add: as_def bs_def insert_before_split)
  have first: "l_first (lists s l) = Some (hd xs)" and last: "l_last (lists s l) = Some (last xs)"
    using list_rep_lists [OF rep False] by auto
  have slot: "find_slot compare e (l_first (lists s l)) s = Some (case bs of [] \<Rightarrow> None | c # _ \<Rightarrow> Some c)"
    using rep unfolding bs_def by (intro find_slot_lseg) (simp add: list_rep_def)
  show ?thesis
  proof (cases bs)
    case Nil
    have "list_rep l (mmal_list_push_back l e s) (as @ [e])"
      using list_rep_push_back [OF rep e] xs Nil by simp
    with Nil slot first ins show ?thesis by (simp add: mmal_list_insert_def)
  next
    case (Cons c cs)
    have dist: "distinct (as @ bs)" "e \<notin> set (as @ bs)" using rep e xs by (auto simp: list_rep_def)
    have c: "c \<noteq> e" "c \<notin> set as" using dist Cons by auto
    have pv: "e_prev (elements s c) = (if as = [] then None else Some (last as))"
    proof -
      have "lseg (e_prevs s) (l_last (lists s l)) (rev cs @ c # rev as) None"
        using rep xs Cons by (simp add: list_rep_def)
      then have "lseg (e_prevs s) (e_prev (elements s c)) (rev as) None" by (auto simp: lseg_simps)
      then show ?thesis by (cases "as = []") (auto simp: hd_rev dest: lseg_nonempty_head)
    qed
    obtain s' where s': "mmal_list_insert l e compare s = Some s'"
      using first slot Cons by (simp add: mmal_list_insert_def Let_def)
    have first_c: "hd xs = c \<longleftrightarrow> as = []" using xs Cons c by (cases as) auto
    have nexts: "e_nexts s' = (if as = [] then (e_nexts s)(e := Some c)
        else (e_nexts s)(e := Some c, last as := Some e))"
      and prevs: "e_prevs s' = (e_prevs s)(e := e_prev (elements s c), c := Some e)"
      and li: "lists s' l = \<lparr>l_length = l_length (lists s l) + 1,
          l_first = (if as = [] then Some e else Some (hd xs)), l_last = Some (last xs)\<rparr>"
    proof -
      have "last as \<noteq> e \<and> last as \<noteq> c" if "as \<noteq> []" using that dist(2) c(2) by auto
      then show "e_nexts s' = (if as = [] then (e_nexts s)(e := Some c)
        else (e_nexts s)(e := Some c, last as := Some e))"
        "e_prevs s' = (e_prevs s)(e := e_prev (elements s c), c := Some e)"
        "lists s' l = \<lparr>l_length = l_length (lists s l) + 1,
          l_first = (if as = [] then Some e else Some (hd xs)), l_last = Some (last xs)\<rparr>"
        using s' first last slot Cons first_c pv c
        by (auto simp: mmal_list_insert_def link_before_def Let_def fun_eq_iff split: if_splits)
    qed
    have n: "lseg (e_nexts s') (l_first (lists s' l)) (as @ e # bs) None"
    proof (cases "as = []")
      case True
      have "lseg (e_nexts s) (Some c) bs None" using rep first xs Cons True by (simp add: list_rep_def)
      moreover have "lseg ((e_nexts s)(e := Some c)) (Some c) bs None = lseg (e_nexts s) (Some c) bs None"
        using dist(2) by (intro lseg_upd) auto
      ultimately show ?thesis using True unfolding nexts li by simp
    next
      case as: False
      have "lseg (e_nexts s) (Some (hd xs)) (as @ bs) None" using rep first xs by (simp add: list_rep_def)
      moreover have "e_nexts s (last as) = Some c"
      proof -
        have "lseg (e_nexts s) (e_nexts s (last as)) bs None"
        proof -
          obtain r where "lseg (e_nexts s) (Some (hd xs)) as r" "lseg (e_nexts s) r bs None"
            using calculation by (auto simp: lseg_append)
          with as lseg_last_next show ?thesis by metis
        qed
        then show ?thesis using Cons by simp
      qed
      ultimately show ?thesis
        using as dist lseg_splice [of "e_nexts s" "Some (hd xs)" as bs None e] unfolding nexts li by simp
    qed
    have "lseg (e_prevs s) (Some (last xs)) (rev bs @ rev as) None" using rep last xs by (simp add: list_rep_def)
    moreover have "last (rev bs) = c" using Cons by simp
    ultimately have "lseg (e_prevs s') (Some (last xs)) (rev bs @ e # rev as) None"
      using dist Cons lseg_splice [of "e_prevs s" "Some (last xs)" "rev bs" "rev as" None e]
      unfolding prevs by (simp add: Int_commute)
    then have p: "lseg (e_prevs s') (l_last (lists s' l)) (rev (as @ e # bs)) None" unfolding li by simp
    have "list_rep l s' (as @ e # bs)"
      using n p dist rep xs unfolding list_rep_def by (auto simp: li)
    with s' ins show ?thesis by auto
  qed
qed

section \<open>What an operation leaves alone\<close>

named_theorems list_frame "what the operations on one list leave alone"

lemma link_before_lists: "k \<noteq> l \<Longrightarrow> lists (link_before l e cur s) k = lists s k"
  by (simp add: link_before_def Let_def split: option.split)

lemma link_before_elements:
  assumes "x \<noteq> e" "x \<noteq> cur" "\<And>n. e_prev (elements s cur) = Some n \<Longrightarrow> x \<noteq> n"
  shows "elements (link_before l e cur s) x = elements s x"
  using assms by (auto simp: link_before_def Let_def split: option.split)

lemma lists_other [list_frame]:
  "k \<noteq> l \<Longrightarrow> lists (mmal_list_push_front l e s) k = lists s k"
  "k \<noteq> l \<Longrightarrow> lists (mmal_list_push_back l e s) k = lists s k"
  "k \<noteq> l \<Longrightarrow> lists (snd (mmal_list_pop_front l s)) k = lists s k"
  "k \<noteq> l \<Longrightarrow> mmal_list_insert l e c s = Some s' \<Longrightarrow> lists s' k = lists s k"
  by (auto simp: mmal_list_push_front_def mmal_list_push_back_def mmal_list_pop_front_def mmal_list_insert_def
      link_before_lists Let_def bind_eq_Some_conv split: option.splits if_splits)

lemma hd_of_first: "list_rep l s xs \<Longrightarrow> l_first (lists s l) = Some n \<Longrightarrow> n \<in> set xs"
  by (cases xs) (auto simp: list_rep_def)

lemma last_of_last: "list_rep l s xs \<Longrightarrow> l_last (lists s l) = Some n \<Longrightarrow> n \<in> set xs"
  by (cases xs rule: rev_cases) (auto simp: list_rep_def)

lemma push_front_elements [list_frame]:
  "list_rep l s xs \<Longrightarrow> x \<notin> insert e (set xs) \<Longrightarrow> elements (mmal_list_push_front l e s) x = elements s x"
  using hd_of_first [of l s xs] by (auto simp: mmal_list_push_front_def Let_def split: option.splits)

lemma push_back_elements [list_frame]:
  "list_rep l s xs \<Longrightarrow> x \<notin> insert e (set xs) \<Longrightarrow> elements (mmal_list_push_back l e s) x = elements s x"
  using last_of_last [of l s xs] by (auto simp: mmal_list_push_back_def Let_def split: option.splits)

lemma pop_front_elements [list_frame]:
  assumes "list_rep l s xs" "x \<notin> set xs"
  shows "elements (snd (mmal_list_pop_front l s)) x = elements s x"
proof (cases xs)
  case Nil
  with assms show ?thesis by (simp add: list_rep_pop_front_Nil)
next
  case (Cons y ys)
  then have "l_first (lists s l) = Some y" using list_rep_lists [OF assms(1)] by simp
  moreover have "e_next (elements s y) = Some n \<Longrightarrow> n \<in> set ys" for n
    using assms(1) Cons by (cases ys) (auto simp: list_rep_def)
  ultimately show ?thesis using assms(2) Cons
    by (auto simp: mmal_list_pop_front_def Let_def split: option.splits)
qed

lemma find_slot_in: "lseg (e_nexts s) p xs None \<Longrightarrow> find_slot compare e p s = Some (Some c) \<Longrightarrow> c \<in> set xs"
  by (auto simp: find_slot_lseg split: list.splits) (metis list.set_intros(1) set_dropWhileD)

lemma insert_elements [list_frame]:
  assumes "list_rep l s xs" "x \<notin> insert e (set xs)" "mmal_list_insert l e compare s = Some s'"
  shows "elements s' x = elements s x"
proof (cases "l_first (lists s l) = None")
  case True
  with assms show ?thesis by (auto simp: mmal_list_insert_def push_front_elements)
next
  case False
  obtain slot where slot: "find_slot compare e (l_first (lists s l)) s = Some slot"
    using assms(3) False by (auto simp: mmal_list_insert_def bind_eq_Some_conv)
  show ?thesis
  proof (cases slot)
    case None
    with False assms slot show ?thesis by (auto simp: mmal_list_insert_def push_back_elements)
  next
    case (Some c)
    then have c: "c \<in> set xs" using assms(1) slot by (intro find_slot_in) (auto simp: list_rep_def)
    have p: "e_prev (elements s c) = Some n \<Longrightarrow> n \<in> set xs" for n
    proof -
      assume n: "e_prev (elements s c) = Some n"
      obtain as bs where "rev xs = as @ c # bs" using c by (metis in_set_conv_decomp set_rev)
      moreover from this have "lseg (e_prevs s) (Some n) bs None"
        using assms(1) n by (auto simp: list_rep_def lseg_append)
      ultimately show "n \<in> set xs" by (cases bs) (auto simp flip: set_rev [of xs])
    qed
    have "s' = link_before l e c s" using False assms(3) slot Some by (auto simp: mmal_list_insert_def)
    moreover have "x \<noteq> e" "x \<noteq> c" "\<And>n. e_prev (elements s c) = Some n \<Longrightarrow> x \<noteq> n"
      using assms(2) c p by auto
    ultimately show ?thesis by (simp add: link_before_elements)
  qed
qed

lemma list_rep_frame:
  assumes "list_rep k s ys" "lists s' k = lists s k" "\<And>x. x \<in> set ys \<Longrightarrow> elements s' x = elements s x"
  shows "list_rep k s' ys"
proof -
  have "lseg (e_nexts s') (l_first (lists s k)) ys None = lseg (e_nexts s) (l_first (lists s k)) ys None"
    "lseg (e_prevs s') (l_last (lists s k)) (rev ys) None = lseg (e_prevs s) (l_last (lists s k)) (rev ys) None"
    using assms(3) by (auto intro!: lseg_cong)
  with assms show ?thesis by (simp add: list_rep_def)
qed

text \<open>
  Two lists that share a set of elements, such as the free and the pending slots of a clock.
\<close>

definition two_lists :: "addr \<Rightarrow> addr \<Rightarrow> 'a list_store_scheme \<Rightarrow> addr list \<Rightarrow> addr list \<Rightarrow> bool" where
  "two_lists k l s xs ys \<longleftrightarrow> k \<noteq> l \<and> list_rep k s xs \<and> list_rep l s ys \<and> set xs \<inter> set ys = {}"

lemma two_lists_sym: "two_lists k l s xs ys \<longleftrightarrow> two_lists l k s ys xs"
  by (auto simp: two_lists_def)

lemma two_lists_distinct: "two_lists k l s xs ys \<Longrightarrow> distinct xs \<and> distinct ys \<and> set xs \<inter> set ys = {}"
  by (auto simp: two_lists_def list_rep_def)

lemma two_lists_pop:
  assumes "two_lists k l s (x # xs) ys"
  shows "\<exists>s'. mmal_list_pop_front k s = (Some x, s') \<and> two_lists k l s' xs ys \<and> x \<notin> set xs \<union> set ys"
proof -
  obtain s' where s': "mmal_list_pop_front k s = (Some x, s')" "list_rep k s' xs"
    using list_rep_pop_front_Cons [of k s x xs] assms by (auto simp: two_lists_def)
  have "list_rep l s' ys"
  proof (rule list_rep_frame [of l s])
    show "lists s' l = lists s l" using s' assms lists_other(3) [of l k s] by (auto simp: two_lists_def)
    fix y assume "y \<in> set ys"
    then show "elements s' y = elements s y"
      using s' assms pop_front_elements [of k s "x # xs" y] by (auto simp: two_lists_def)
  qed (use assms in \<open>auto simp: two_lists_def\<close>)
  with s' assms show ?thesis by (auto simp: two_lists_def list_rep_def)
qed

lemma two_lists_pop_Nil: "two_lists k l s [] ys \<Longrightarrow> mmal_list_pop_front k s = (None, s)"
  by (simp add: two_lists_def list_rep_pop_front_Nil)

lemma two_lists_push_back:
  assumes "two_lists k l s xs ys" "x \<notin> set xs \<union> set ys"
  shows "two_lists k l (mmal_list_push_back k x s) (xs @ [x]) ys"
proof -
  have "list_rep l (mmal_list_push_back k x s) ys"
  proof (rule list_rep_frame [of l s])
    show "list_rep l s ys" using assms(1) by (simp add: two_lists_def)
    show "lists (mmal_list_push_back k x s) l = lists s l"
      using assms(1) by (intro lists_other) (simp add: two_lists_def)
    fix y assume "y \<in> set ys"
    with assms have "y \<notin> insert x (set xs)" "list_rep k s xs" by (auto simp: two_lists_def)
    then show "elements (mmal_list_push_back k x s) y = elements s y" by (intro push_back_elements)
  qed
  with assms show ?thesis by (auto simp: two_lists_def list_rep_push_back)
qed

lemma two_lists_push_front:
  assumes "two_lists k l s xs ys" "x \<notin> set xs \<union> set ys"
  shows "two_lists k l (mmal_list_push_front k x s) (x # xs) ys"
proof -
  have "list_rep l (mmal_list_push_front k x s) ys"
  proof (rule list_rep_frame [of l s])
    show "list_rep l s ys" using assms(1) by (simp add: two_lists_def)
    show "lists (mmal_list_push_front k x s) l = lists s l"
      using assms(1) by (intro lists_other) (simp add: two_lists_def)
    fix y assume "y \<in> set ys"
    with assms have "y \<notin> insert x (set xs)" "list_rep k s xs" by (auto simp: two_lists_def)
    then show "elements (mmal_list_push_front k x s) y = elements s y" by (intro push_front_elements)
  qed
  with assms show ?thesis by (auto simp: two_lists_def list_rep_push_front)
qed

lemma two_lists_insert:
  assumes "two_lists k l s xs ys" "x \<notin> set xs \<union> set ys"
  shows "\<exists>s'. mmal_list_insert k x c s = Some s' \<and> two_lists k l s' (insert_before c x xs) ys"
proof -
  obtain s' where s': "mmal_list_insert k x c s = Some s'" "list_rep k s' (insert_before c x xs)"
    using list_rep_insert [of k s xs x c] assms by (auto simp: two_lists_def)
  have "list_rep l s' ys"
  proof (rule list_rep_frame [of l s])
    show "lists s' l = lists s l" using s' assms lists_other(4) [of l k x c s s'] by (auto simp: two_lists_def)
    fix y assume "y \<in> set ys"
    then show "elements s' y = elements s y"
      using assms by (intro insert_elements [OF _ _ s'(1), of xs]) (auto simp: two_lists_def)
  qed (use assms in \<open>auto simp: two_lists_def\<close>)
  with s' assms show ?thesis by (auto simp: two_lists_def)
qed

lemma two_lists_cong:
  "lists s' = lists s \<Longrightarrow> elements s' = elements s \<Longrightarrow> two_lists k l s' xs ys = two_lists k l s xs ys"
  by (simp add: two_lists_def list_rep_def)

section \<open>The interface of a list\<close>

datatype list_op = Push_front addr | Push_back addr | Insert addr | Pop_front | Pop_back

fun seq_step :: "(addr \<Rightarrow> addr \<Rightarrow> bool) \<Rightarrow> list_op \<Rightarrow> addr list \<Rightarrow> addr option \<times> addr list" where
  "seq_step c (Push_front e) xs = (None, e # xs)"
| "seq_step c (Push_back e) xs = (None, xs @ [e])"
| "seq_step c (Insert e) xs = (None, insert_before c e xs)"
| "seq_step c Pop_front xs = (case xs of [] \<Rightarrow> (None, []) | x # xs \<Rightarrow> (Some x, xs))"
| "seq_step c Pop_back xs = (if xs = [] then (None, []) else (Some (last xs), butlast xs))"

fun seq_allowed :: "list_op \<Rightarrow> addr list \<Rightarrow> bool" where
  "seq_allowed (Push_front e) xs = (e \<notin> set xs)"
| "seq_allowed (Push_back e) xs = (e \<notin> set xs)"
| "seq_allowed (Insert e) xs = (e \<notin> set xs)"
| "seq_allowed _ xs = True"

fun seq_run :: "(addr \<Rightarrow> addr \<Rightarrow> bool) \<Rightarrow> list_op list \<Rightarrow> addr list \<Rightarrow> addr option list \<times> addr list" where
  "seq_run c [] xs = ([], xs)"
| "seq_run c (p # ps) xs = (let (r, xs) = seq_step c p xs; (rs, xs) = seq_run c ps xs in (r # rs, xs))"

fun seqs_allowed :: "(addr \<Rightarrow> addr \<Rightarrow> bool) \<Rightarrow> list_op list \<Rightarrow> addr list \<Rightarrow> bool" where
  "seqs_allowed c [] xs = True"
| "seqs_allowed c (p # ps) xs = (seq_allowed p xs \<and> seqs_allowed c ps (snd (seq_step c p xs)))"

fun mmal_list_step ::
  "addr \<Rightarrow> (addr \<Rightarrow> addr \<Rightarrow> bool) \<Rightarrow> list_op \<Rightarrow> 'a list_store_scheme \<Rightarrow> (addr option \<times> 'a list_store_scheme) option" where
  "mmal_list_step l c (Push_front e) s = Some (None, mmal_list_push_front l e s)"
| "mmal_list_step l c (Push_back e) s = Some (None, mmal_list_push_back l e s)"
| "mmal_list_step l c (Insert e) s = map_option (Pair None) (mmal_list_insert l e c s)"
| "mmal_list_step l c Pop_front s = Some (mmal_list_pop_front l s)"
| "mmal_list_step l c Pop_back s = Some (mmal_list_pop_back l s)"

fun run_steps :: "(list_op \<Rightarrow> 's \<Rightarrow> (addr option \<times> 's) option) \<Rightarrow> list_op list \<Rightarrow> 's \<Rightarrow> (addr option list \<times> 's) option" where
  "run_steps step [] s = Some ([], s)"
| "run_steps step (p # ps) s =
     do { (r, s) \<leftarrow> step p s; (rs, s) \<leftarrow> run_steps step ps s; Some (r # rs, s) }"

locale deque =
  fixes rep :: "'s \<Rightarrow> addr list \<Rightarrow> bool"
    and step :: "list_op \<Rightarrow> 's \<Rightarrow> (addr option \<times> 's) option"
    and c :: "addr \<Rightarrow> addr \<Rightarrow> bool"
  assumes step_rep: "rep s xs \<Longrightarrow> seq_allowed p xs \<Longrightarrow>
      \<exists>s'. step p s = Some (fst (seq_step c p xs), s') \<and> rep s' (snd (seq_step c p xs))"
    and rep_distinct: "rep s xs \<Longrightarrow> distinct xs"
begin

lemma run_refines:
  "rep s xs \<Longrightarrow> seqs_allowed c ps xs \<Longrightarrow>
   \<exists>s'. run_steps step ps s = Some (fst (seq_run c ps xs), s') \<and> rep s' (snd (seq_run c ps xs))"
proof (induction ps arbitrary: s xs)
  case Nil
  then show ?case by simp
next
  case (Cons p ps)
  obtain r ys where st: "seq_step c p xs = (r, ys)" by fastforce
  with Cons.prems obtain s1 where "step p s = Some (r, s1)" "rep s1 ys"
    using step_rep [of s xs p] by auto
  moreover from Cons.IH [OF this(2)] Cons.prems st
  obtain s2 where "run_steps step ps s1 = Some (fst (seq_run c ps ys), s2)"
    "rep s2 (snd (seq_run c ps ys))" by auto
  ultimately show ?case using st by (auto simp: case_prod_beta Let_def)
qed

text \<open>Insertion keeps a list sorted when the comparison is the strict part of a linear preorder.\<close>

lemma insert_sorted:
  assumes key: "\<And>x y. c x y \<longleftrightarrow> (k x :: int) < k y" and rep: "rep s xs" "e \<notin> set xs" "sorted (map k xs)"
  shows "\<exists>s' ys. step (Insert e) s = Some (None, s') \<and> rep s' ys \<and> sorted (map k ys) \<and> set ys = insert e (set xs)"
proof -
  have "sorted (map k (insert_before c e xs))"
    using rep(3) by (induction xs) (auto simp: key)
  moreover obtain s' where "step (Insert e) s = Some (None, s')" "rep s' (insert_before c e xs)"
    using step_rep [OF rep(1), of "Insert e"] rep(2) by auto
  ultimately show ?thesis by (intro exI [of _ s'] exI [of _ "insert_before c e xs"]) simp
qed

end

lemma mmal_list_step_rep:
  assumes "list_rep l s xs" "seq_allowed p xs"
  shows "\<exists>s'. mmal_list_step l c p s = Some (fst (seq_step c p xs), s') \<and> list_rep l s' (snd (seq_step c p xs))"
proof (cases p)
  case (Insert e)
  with assms list_rep_insert [of l s xs e c] show ?thesis by auto
next
  case Pop_front
  with assms list_rep_pop_front_Nil [of l s] list_rep_pop_front_Cons [of l s] show ?thesis
    by (cases xs) fastforce+
next
  case Pop_back
  with assms list_rep_pop_back_Nil [of l s] list_rep_pop_back_snoc [of l s] show ?thesis
    by (cases xs rule: rev_cases) fastforce+
qed (use assms list_rep_push_front list_rep_push_back in auto)

interpretation mmal_list: deque "\<lambda>s. list_rep l s" "mmal_list_step l c" c for l c
  by unfold_locales (simp_all add: mmal_list_step_rep, simp add: list_rep_def)

section \<open>Properties\<close>

text \<open>
  C14: any sequence of pushes, insertions and pops that adds no element already in the list
  returns what it returns on the abstract list, terminates, and leaves the pointers in both directions
  consistent with the resulting list.
\<close>

theorem mmal_list_refines_list:
  assumes "list_rep l s xs" and "seqs_allowed c ps xs"
  shows "\<exists>s'. run_steps (mmal_list_step l c) ps s = Some (fst (seq_run c ps xs), s') \<and>
     list_rep l s' (snd (seq_run c ps xs))"
  using assms by (rule mmal_list.run_refines)

definition empty_list_store :: list_store where
  "empty_list_store = \<lparr>mallocs = [], creates = [], clock_readings = [], live = [], sync = [],
     elements = (\<lambda>_. \<lparr>e_next = None, e_prev = None\<rparr>),
     lists = (\<lambda>_. \<lparr>l_length = 0, l_first = None, l_last = None\<rparr>)\<rparr>"

lemma empty_list_rep: "list_rep l empty_list_store []"
  by (simp add: list_rep_def empty_list_store_def)

theorem mmal_list_refines_list_witness:
  "\<exists>s'. run_steps (mmal_list_step 50 (<)) [Insert 4, Insert 2, Push_back 9, Insert 5, Pop_back, Pop_front, Push_front 7] empty_list_store
     = Some ([None, None, None, None, Some 9, Some 2, None], s') \<and> list_rep 50 s' [7, 4, 5]"
  using mmal_list_refines_list [OF empty_list_rep,
      of "(<)" "[Insert 4, Insert 2, Push_back 9, Insert 5, Pop_back, Pop_front, Push_front 7]" 50] by simp

text \<open>
  Insertion is stable: the new element goes behind all elements it does not compare before,
  so behind those with an equal key.
\<close>

lemma insert_before_stable:
  assumes key: "\<And>x y. c x y \<longleftrightarrow> (k x :: int) < k y" and sorted: "sorted (map k xs)"
  shows "filter (\<lambda>x. k x = k e) (insert_before c e xs) = filter (\<lambda>x. k x = k e) xs @ [e]"
  using sorted
proof (induction xs)
  case (Cons x xs)
  show ?case
  proof (cases "k e < k x")
    case True
    with Cons.prems have "filter (\<lambda>x. k x = k e) xs = []" by (auto simp: filter_empty_conv)
    with True show ?thesis by (simp add: key)
  next
    case False
    with Cons show ?thesis by (simp add: key)
  qed
qed simp

end
