(* ===== verification/Clock.thy ===== *)
theory Clock
  imports Rational MmalList
begin

text \<open>
  The clock module, \<^verbatim>\<open>mmal/core/mmal_clock.c\<close>: a media time that follows the wall time at a
  scale, and 32 request slots that are queued by media time and served by a worker thread.

  The clock of the model is the one built outside the VideoCore (a timer with millisecond
  accuracy).  The free and the pending requests are two lists of \<^verbatim>\<open>mmal_list.c\<close> that share the
  slots of the clock.  Requests that are served are appended to \<open>fired\<close>; the client's callbacks run
  under the lock of the clock, so they cannot change it.  All public operations take that lock and
  are single steps.  The value \<open>None\<close> is a call that does not return.
\<close>

section \<open>Data\<close>

definition MIN_TIMER_DELAY :: int where "MIN_TIMER_DELAY = 10000"
definition CLOCK_REQUEST_SLOTS :: nat where "CLOCK_REQUEST_SLOTS = 32"
definition CLOCK_TARGET_OFFSET :: int where "CLOCK_TARGET_OFFSET = 20"
definition CLOCK_WAIT_TIME :: int where "CLOCK_WAIT_TIME = 200000"
definition CLOCK_UPDATE_THRESHOLD_LOWER :: int where "CLOCK_UPDATE_THRESHOLD_LOWER = 8000"
definition CLOCK_UPDATE_THRESHOLD_UPPER :: int where "CLOCK_UPDATE_THRESHOLD_UPPER = 50000"
definition CLOCK_DISCONT_THRESHOLD :: int where "CLOCK_DISCONT_THRESHOLD = 1000000"
definition CLOCK_DISCONT_DURATION :: int where "CLOCK_DISCONT_DURATION = 1000000"

definition ABS_VALUE :: "int \<Rightarrow> int" where "ABS_VALUE v = (if v < 0 then s64 (- v) else v)"

record mmal_clock_request =
  req_priv :: "nat option"
  req_cb :: "nat option"
  req_cb_data :: "addr option"
  req_media_time :: int
  req_media_time_adj :: int

record mmal_clock =
  is_active :: bool
  scheduling :: bool
  stop_thread :: bool
  event :: nat
  timer :: "u32 option"   \<comment> \<open>milliseconds until it expires, when it is set\<close>
  scale :: int
  scale_inv :: int
  scale_rational :: mmal_rational
  average_ref_diff :: int
  media_time :: int
  media_time_frac :: u32
  wall_time :: int
  rtc_at_update :: u32
  media_time_at_timer :: int
  discont_expiry :: int
  discont_start :: int
  discont_end :: int
  discont_threshold :: int
  discont_duration :: int
  request_threshold :: int
  request_threshold_enable :: bool
  update_threshold_lower :: int
  update_threshold_upper :: int
  list_free :: "addr option"
  list_pending :: "addr option"

text \<open>A callback that was invoked: the function, the media time it was told, its data, its \<open>priv\<close>.\<close>

type_synonym invocation = "nat option \<times> int \<times> addr option \<times> nat option"

record clock_store = list_store +
  clocks :: "addr \<Rightarrow> mmal_clock"
  requests :: "addr \<Rightarrow> mmal_clock_request"
  fired :: "invocation list"

definition upd_clock :: "addr \<Rightarrow> (mmal_clock \<Rightarrow> mmal_clock) \<Rightarrow> 'a clock_store_scheme \<Rightarrow> 'a clock_store_scheme" where
  "upd_clock p f s = s\<lparr>clocks := (clocks s)(p := f (clocks s p))\<rparr>"

text \<open>Slot \<open>i\<close> of the pool of the clock at \<open>p\<close>; of these addresses only that they differ is used.\<close>

definition request_slot :: "addr \<Rightarrow> nat \<Rightarrow> addr" where
  "request_slot p i = p + i"

section \<open>Timer and worker thread\<close>

definition mmal_clock_wake_thread :: "addr \<Rightarrow> 'a clock_store_scheme \<Rightarrow> 'a clock_store_scheme" where
  "mmal_clock_wake_thread p s =
     (if scheduling (clocks s p) then upd_clock p (\<lambda>c. c\<lparr>event := vcos_semaphore_post (event c)\<rparr>) s else s)"

definition mmal_clock_timer_cb :: "addr \<Rightarrow> 'a clock_store_scheme \<Rightarrow> 'a clock_store_scheme" where
  "mmal_clock_timer_cb p s = mmal_clock_wake_thread p s"

definition mmal_clock_timer_create :: "addr \<Rightarrow> 'a clock_store_scheme \<Rightarrow> bool \<times> 'a clock_store_scheme" where
  "mmal_clock_timer_create p s = vcos_create (Timer p) s"

definition mmal_clock_timer_destroy :: "addr \<Rightarrow> 'a clock_store_scheme \<Rightarrow> 'a clock_store_scheme" where
  "mmal_clock_timer_destroy p s = vcos_delete (Timer p) s"

definition mmal_clock_timer_set :: "addr \<Rightarrow> int \<Rightarrow> 'a clock_store_scheme \<Rightarrow> 'a clock_store_scheme" where
  "mmal_clock_timer_set p delay_us s = upd_clock p (\<lambda>c. c\<lparr>timer := Some (word_of_int (delay_us sdiv 1000))\<rparr>) s"

definition mmal_clock_timer_cancel :: "addr \<Rightarrow> 'a clock_store_scheme \<Rightarrow> 'a clock_store_scheme" where
  "mmal_clock_timer_cancel p s = upd_clock p (\<lambda>c. c\<lparr>timer := None\<rparr>) s"

section \<open>Time keeping\<close>

definition advance_clock :: "u32 \<Rightarrow> mmal_clock \<Rightarrow> mmal_clock" where
  "advance_clock time_now c =
     (let time_diff = (if rtc_at_update c < time_now then time_now - rtc_at_update c else 0);
          media_diff = s64 (s64 (uint time_diff * s32 (push_bit 8 (scale c))) + uint (media_time_frac c))
      in c\<lparr>wall_time := s64 (wall_time c + uint time_diff),
           media_time := s64 (media_time c + drop_bit 24 media_diff),
           media_time_frac := word_of_int (media_diff AND (2 ^ 24 - 1)),
           rtc_at_update := time_now\<rparr>)"

definition mmal_clock_update_local_time_locked :: "addr \<Rightarrow> 'a clock_store_scheme \<Rightarrow> 'a clock_store_scheme" where
  "mmal_clock_update_local_time_locked p s =
     (let (time_now, s) = vcos_getmicrosecs s in upd_clock p (advance_clock time_now) s)"

definition mmal_clock_media_time_get_locked :: "addr \<Rightarrow> 'a clock_store_scheme \<Rightarrow> int \<times> 'a clock_store_scheme" where
  "mmal_clock_media_time_get_locked p s =
     (let s = mmal_clock_update_local_time_locked p s in (media_time (clocks s p), s))"

section \<open>Requests\<close>

definition mmal_clock_request_compare_pos :: "(addr \<Rightarrow> mmal_clock_request) \<Rightarrow> addr \<Rightarrow> addr \<Rightarrow> bool" where
  "mmal_clock_request_compare_pos rq lhs rhs \<longleftrightarrow> req_media_time_adj (rq lhs) < req_media_time_adj (rq rhs)"

definition mmal_clock_request_compare_neg :: "(addr \<Rightarrow> mmal_clock_request) \<Rightarrow> addr \<Rightarrow> addr \<Rightarrow> bool" where
  "mmal_clock_request_compare_neg rq lhs rhs \<longleftrightarrow> req_media_time_adj (rq lhs) > req_media_time_adj (rq rhs)"

definition mmal_clock_request_insert ::
  "addr \<Rightarrow> addr \<Rightarrow> 'a clock_store_scheme \<Rightarrow> (bool \<times> 'a clock_store_scheme) option" where
  "mmal_clock_request_insert p request s =
     (if stop_thread (clocks s p) then Some (False, s)
      else do {
        list \<leftarrow> list_pending (clocks s p);
        if l_length (lists s list) = 0 then Some (True, mmal_list_push_front list request s)
        else do {
          pending \<leftarrow> l_last (lists s list);
          let sc = scale (clocks s p);
              adj = req_media_time_adj (requests s request);
              last_adj = req_media_time_adj (requests s pending)
          in if (sc \<ge> 0 \<and> adj \<ge> last_adj) \<or> (sc < 0 \<and> adj \<le> last_adj)
             then Some (True, mmal_list_push_back list request s)
             else map_option (Pair True)
                    (mmal_list_insert list request
                       (if sc \<ge> 0 then mmal_clock_request_compare_pos (requests s)
                        else mmal_clock_request_compare_neg (requests s)) s)
        }
      })"

definition invoke_cb :: "addr \<Rightarrow> int \<Rightarrow> 'a clock_store_scheme \<Rightarrow> 'a clock_store_scheme" where
  "invoke_cb request now s =
     (let r = requests s request in
      s\<lparr>fired := fired s @ [(req_cb r, now, req_cb_data r, req_priv r)]\<rparr>)"

partial_function (option) flush_loop ::
  "addr \<Rightarrow> addr \<Rightarrow> int \<Rightarrow> 'a clock_store_scheme \<Rightarrow> 'a clock_store_scheme option" where
  "flush_loop pending free now s =
     (case mmal_list_pop_front pending s of
        (None, s) \<Rightarrow> Some s
      | (Some request, s) \<Rightarrow>
          flush_loop pending free now (mmal_list_push_back free request (invoke_cb request now s)))"

definition mmal_clock_request_flush_locked ::
  "addr \<Rightarrow> int \<Rightarrow> 'a clock_store_scheme \<Rightarrow> 'a clock_store_scheme option" where
  "mmal_clock_request_flush_locked p now s = do {
     pending \<leftarrow> list_pending (clocks s p);
     free \<leftarrow> list_free (clocks s p);
     s \<leftarrow> flush_loop pending free now s;
     Some (upd_clock p (\<lambda>c. c\<lparr>media_time_at_timer := 0\<rparr>) s)
   }"

text \<open>The test that a request is to be served now, and the delay until it is otherwise.\<close>

definition request_due :: "mmal_clock \<Rightarrow> int \<Rightarrow> int \<Rightarrow> bool" where
  "request_due c now adj \<longleftrightarrow>
     (discont_expiry c \<noteq> 0 \<and> discont_start c \<le> adj \<and> adj < discont_end c) \<or>
     (0 < scale c \<and> adj \<le> s64 (now + MIN_TIMER_DELAY)) \<or>
     (scale c < 0 \<and> s64 (now - MIN_TIMER_DELAY) \<le> adj)"

definition request_delay :: "mmal_clock \<Rightarrow> int \<Rightarrow> int \<Rightarrow> int" where
  "request_delay c now adj =
     (let media_time_delay = ABS_VALUE (s64 (now - adj));
          wall_time_delay = ABS_VALUE (drop_bit 16 (s64 (scale_inv c * media_time_delay)))
      in if scale c = 0 then CLOCK_WAIT_TIME else wall_time_delay)"

partial_function (option) serve_loop ::
  "addr \<Rightarrow> addr \<Rightarrow> addr \<Rightarrow> addr option \<Rightarrow> 'a clock_store_scheme \<Rightarrow> 'a clock_store_scheme option" where
  "serve_loop p pending free nxt s =
     (case nxt of
        None \<Rightarrow> Some s
      | Some request \<Rightarrow>
          let (now, s) = mmal_clock_media_time_get_locked p s;
              s = (if discont_expiry (clocks s p) \<noteq> 0 \<and> discont_expiry (clocks s p) < wall_time (clocks s p)
                   then upd_clock p (\<lambda>c. c\<lparr>discont_expiry := 0\<rparr>) s else s);
              adj = req_media_time_adj (requests s request)
          in if request_due (clocks s p) now adj then
               let s = mmal_list_push_back free request (invoke_cb request now s);
                   (nxt, s) = mmal_list_pop_front pending s
               in serve_loop p pending free nxt s
             else
               let delay = request_delay (clocks s p) now adj;
                   s = mmal_list_push_front pending request s;
                   s = upd_clock p (\<lambda>c. c\<lparr>media_time_at_timer := now\<rparr>) s
               in Some (mmal_clock_timer_set p delay s))"

definition detect_discontinuity :: "addr \<Rightarrow> 'a clock_store_scheme \<Rightarrow> 'a clock_store_scheme option" where
  "detect_discontinuity p s =
     (if media_time_at_timer (clocks s p) = 0 then Some s
      else
        let (now, s) = mmal_clock_media_time_get_locked p s; c = clocks s p in
        if 0 < scale c \<and> s64 (now + discont_threshold c) < media_time_at_timer c then
          mmal_clock_request_flush_locked p now
            (upd_clock p (\<lambda>c. c\<lparr>discont_start := media_time_at_timer c,
               discont_end := s64 (media_time_at_timer c + discont_duration c),
               discont_expiry := s64 (wall_time c + discont_duration c)\<rparr>) s)
        else Some s)"

definition mmal_clock_process_requests :: "addr \<Rightarrow> 'a clock_store_scheme \<Rightarrow> 'a clock_store_scheme option" where
  "mmal_clock_process_requests p s = do {
     free \<leftarrow> list_free (clocks s p);
     pending \<leftarrow> list_pending (clocks s p);
     if l_length (lists s pending) = 0 \<or> \<not> is_active (clocks s p) then Some s
     else do {
       s \<leftarrow> detect_discontinuity p s;
       let (nxt, s) = mmal_list_pop_front pending s in serve_loop p pending free nxt s
     }
   }"

text \<open>One round of the worker thread; the flag says that the thread ends.\<close>

definition mmal_clock_worker_round :: "addr \<Rightarrow> 'a clock_store_scheme \<Rightarrow> (bool \<times> 'a clock_store_scheme) option" where
  "mmal_clock_worker_round p s = do {
     ev \<leftarrow> vcos_semaphore_wait (event (clocks s p));
     let s = mmal_clock_timer_cancel p (upd_clock p (\<lambda>c. c\<lparr>event := ev\<rparr>) s);
     if stop_thread (clocks s p) then Some (True, s)
     else map_option (Pair False) (mmal_clock_process_requests p s)
   }"

text \<open>Joining the thread lets it run its last round.\<close>

definition mmal_clock_stop_thread :: "addr \<Rightarrow> 'a clock_store_scheme \<Rightarrow> 'a clock_store_scheme option" where
  "mmal_clock_stop_thread p s = do {
     let s = mmal_clock_wake_thread p (upd_clock p (\<lambda>c. c\<lparr>stop_thread := True\<rparr>) s);
     (_, s) \<leftarrow> mmal_clock_worker_round p s;
     Some (vcos_delete (Thread p) s)
   }"

section \<open>Scheduling resources\<close>

definition delete_lists :: "addr \<Rightarrow> 'a clock_store_scheme \<Rightarrow> 'a clock_store_scheme" where
  "delete_lists p s =
     (let s = (case list_free (clocks s p) of None \<Rightarrow> s | Some l \<Rightarrow> mmal_list_destroy l s)
      in case list_pending (clocks s p) of None \<Rightarrow> s | Some l \<Rightarrow> mmal_list_destroy l s)"

definition mmal_clock_create_scheduling :: "addr \<Rightarrow> 'a clock_store_scheme \<Rightarrow> mmal_status \<times> 'a clock_store_scheme" where
  "mmal_clock_create_scheduling p s =
     (let (timer_ok, s) = mmal_clock_timer_create p s in
      if \<not> timer_ok then (MMAL_ENOSPC, delete_lists p s)
      else
        let (event_ok, s) = vcos_create (Semaphore p) s in
        if \<not> event_ok then (MMAL_ENOSPC, delete_lists p (mmal_clock_timer_destroy p s))
        else
          let s = upd_clock p (\<lambda>c. c\<lparr>event := 0\<rparr>) s;
              (lf, s) = mmal_list_create s;
              s = upd_clock p (\<lambda>c. c\<lparr>list_free := lf\<rparr>) s;
              (lp, s) = mmal_list_create s;
              s = upd_clock p (\<lambda>c. c\<lparr>list_pending := lp\<rparr>) s;
              error = (\<lambda>s. (MMAL_ENOSPC, delete_lists p (mmal_clock_timer_destroy p (vcos_delete (Semaphore p) s))))
          in case (lf, lp) of
               (Some f, Some _) \<Rightarrow>
                 let s = fold (\<lambda>i. mmal_list_push_back f (request_slot p i)) [0..<CLOCK_REQUEST_SLOTS] s;
                     (thread_ok, s) = vcos_create (Thread p) s
                 in if \<not> thread_ok then error s
                    else (MMAL_SUCCESS, upd_clock p (\<lambda>c. c\<lparr>scheduling := True\<rparr>) s)
             | _ \<Rightarrow> error s)"

definition mmal_clock_request_flush :: "addr \<Rightarrow> 'a clock_store_scheme \<Rightarrow> (mmal_status \<times> 'a clock_store_scheme) option" where
  "mmal_clock_request_flush p s =
     map_option (Pair MMAL_SUCCESS)
       (if scheduling (clocks s p) then mmal_clock_request_flush_locked p MMAL_TIME_UNKNOWN s else Some s)"

definition mmal_clock_destroy_scheduling :: "addr \<Rightarrow> 'a clock_store_scheme \<Rightarrow> 'a clock_store_scheme option" where
  "mmal_clock_destroy_scheduling p s = do {
     s \<leftarrow> mmal_clock_stop_thread p s;
     (_, s) \<leftarrow> mmal_clock_request_flush p s;
     f \<leftarrow> list_free (clocks s p);
     q \<leftarrow> list_pending (clocks s p);
     Some (mmal_clock_timer_destroy p (vcos_delete (Semaphore p) (mmal_list_destroy q (mmal_list_destroy f s))))
   }"

section \<open>Public operations\<close>

definition mmal_clock_start :: "addr \<Rightarrow> 'a clock_store_scheme \<Rightarrow> 'a clock_store_scheme" where
  "mmal_clock_start p s = mmal_clock_wake_thread p (upd_clock p (\<lambda>c. c\<lparr>is_active := True\<rparr>) s)"

definition mmal_clock_stop :: "addr \<Rightarrow> 'a clock_store_scheme \<Rightarrow> 'a clock_store_scheme" where
  "mmal_clock_stop p s = mmal_clock_wake_thread p (upd_clock p (\<lambda>c. c\<lparr>is_active := False\<rparr>) s)"

definition mmal_clock_is_paused :: "addr \<Rightarrow> 'a clock_store_scheme \<Rightarrow> bool" where
  "mmal_clock_is_paused p s \<longleftrightarrow> scale (clocks s p) = 0"

definition mmal_clock_scale_set :: "addr \<Rightarrow> mmal_rational \<Rightarrow> 'a clock_store_scheme \<Rightarrow> mmal_status \<times> 'a clock_store_scheme" where
  "mmal_clock_scale_set p sc s =
     (let s = mmal_clock_update_local_time_locked p s;
          fixed = mmal_rational_to_fixed_16_16 sc;
          s = upd_clock p (\<lambda>c. c\<lparr>scale_rational := sc, scale := fixed,
                scale_inv := (if fixed \<noteq> 0 then s32 (2 ^ 32 sdiv fixed) else Q16_ONE)\<rparr>) s
      in (MMAL_SUCCESS, mmal_clock_wake_thread p s))"

definition zero_clock :: mmal_clock where
  "zero_clock = \<lparr>is_active = False, scheduling = False, stop_thread = False, event = 0, timer = None,
     scale = 0, scale_inv = 0, scale_rational = \<lparr>num = 0, den = 0\<rparr>, average_ref_diff = 0, media_time = 0,
     media_time_frac = 0, wall_time = 0, rtc_at_update = 0, media_time_at_timer = 0, discont_expiry = 0,
     discont_start = 0, discont_end = 0, discont_threshold = 0, discont_duration = 0, request_threshold = 0,
     request_threshold_enable = False, update_threshold_lower = 0, update_threshold_upper = 0,
     list_free = None, list_pending = None\<rparr>"

text \<open>The size of the private struct of a clock is the argument \<open>sizeof_clock\<close>.\<close>

definition mmal_clock_create ::
  "u32 \<Rightarrow> bool \<Rightarrow> 'a clock_store_scheme \<Rightarrow> mmal_status \<times> addr option \<times> 'a clock_store_scheme" where
  "mmal_clock_create sizeof_clock clock_given s =
     (if \<not> clock_given then (MMAL_EINVAL, None, s)
      else case vcos_calloc 1 sizeof_clock s of
        (None, s) \<Rightarrow> (MMAL_ENOMEM, None, s)
      | (Some p, s) \<Rightarrow>
          (case vcos_create (Mutex p) s of
             (False, s) \<Rightarrow> (MMAL_ENOSPC, None, vcos_free (Some p) s)
           | (True, s) \<Rightarrow>
               let s = upd_clock p (\<lambda>_. zero_clock\<lparr>update_threshold_lower := CLOCK_UPDATE_THRESHOLD_LOWER,
                     update_threshold_upper := CLOCK_UPDATE_THRESHOLD_UPPER,
                     discont_threshold := CLOCK_DISCONT_THRESHOLD, discont_duration := CLOCK_DISCONT_DURATION,
                     request_threshold := 0, request_threshold_enable := False\<rparr>) s
               in (MMAL_SUCCESS, Some p, snd (mmal_clock_scale_set p \<lparr>num = 1, den = 1\<rparr> s))))"

definition mmal_clock_destroy :: "addr \<Rightarrow> 'a clock_store_scheme \<Rightarrow> (mmal_status \<times> 'a clock_store_scheme) option" where
  "mmal_clock_destroy p s = do {
     s \<leftarrow> (if scheduling (clocks s p) then mmal_clock_destroy_scheduling p s else Some s);
     Some (MMAL_SUCCESS, vcos_free (Some p) (vcos_delete (Mutex p) s))
   }"

definition mmal_clock_request_add ::
  "addr \<Rightarrow> int \<Rightarrow> nat option \<Rightarrow> addr option \<Rightarrow> nat option \<Rightarrow> 'a clock_store_scheme \<Rightarrow>
   (mmal_status \<times> 'a clock_store_scheme) option" where
  "mmal_clock_request_add p mtime cb cb_data priv_fn s =
     (let (now, s) = mmal_clock_media_time_get_locked p s in
      if request_threshold_enable (clocks s p) \<and> s64 (now + request_threshold (clocks s p)) < mtime
      then Some (MMAL_ECORRUPT, s)
      else
        let (status, s) = (if scheduling (clocks s p) then (MMAL_SUCCESS, s) else mmal_clock_create_scheduling p s) in
        if status \<noteq> MMAL_SUCCESS then Some (MMAL_ENOSPC, s)
        else do {
          free \<leftarrow> list_free (clocks s p);
          (case mmal_list_pop_front free s of
             (None, s) \<Rightarrow> Some (MMAL_ENOSPC, s)
           | (Some request, s) \<Rightarrow> do {
               let adj = s64 (mtime - drop_bit 16 (s32 (scale (clocks s p) * CLOCK_TARGET_OFFSET)));
               let s = s\<lparr>requests := (requests s)(request := \<lparr>req_priv = priv_fn, req_cb = cb, req_cb_data = cb_data,
                          req_media_time = mtime, req_media_time_adj = adj\<rparr>)\<rparr>;
               (inserted, s) \<leftarrow> mmal_clock_request_insert p request s;
               Some (MMAL_SUCCESS,
                 if inserted \<and> is_active (clocks s p) then mmal_clock_wake_thread p s else s)
             })
        })"

definition mmal_clock_media_time_set :: "addr \<Rightarrow> int \<Rightarrow> 'a clock_store_scheme \<Rightarrow> mmal_status \<times> 'a clock_store_scheme" where
  "mmal_clock_media_time_set p mtime s =
     (if \<not> is_active (clocks s p) then
        let (time_now, s) = vcos_getmicrosecs s in
        (MMAL_SUCCESS, upd_clock p (\<lambda>c. c\<lparr>wall_time := uint time_now, media_time := mtime, media_time_frac := 0,
                         rtc_at_update := time_now\<rparr>) s)
      else if mmal_clock_is_paused p s then (MMAL_SUCCESS, s)
      else
        let s = mmal_clock_update_local_time_locked p s;
            c = clocks s p;
            time_diff = s64 (media_time c - mtime)
        in if time_diff > update_threshold_upper c \<or> time_diff < s64 (- update_threshold_upper c) then
             (MMAL_SUCCESS, mmal_clock_wake_thread p
                (upd_clock p (\<lambda>c. c\<lparr>media_time := mtime, average_ref_diff := 0\<rparr>) s))
           else
             let avg = drop_bit 6 (s64 (s64 (s64 (push_bit 6 (average_ref_diff c)) - average_ref_diff c) + time_diff));
                 s = upd_clock p (\<lambda>c. c\<lparr>average_ref_diff := avg\<rparr>) s
             in if avg > update_threshold_lower c \<or> avg < s64 (- update_threshold_lower c) then
                  (MMAL_SUCCESS, mmal_clock_wake_thread p
                     (upd_clock p (\<lambda>c. c\<lparr>media_time := s64 (media_time c - avg), average_ref_diff := 0\<rparr>) s))
                else (MMAL_SUCCESS, s))"

definition mmal_clock_active_set :: "addr \<Rightarrow> bool \<Rightarrow> 'a clock_store_scheme \<Rightarrow> mmal_status \<times> 'a clock_store_scheme" where
  "mmal_clock_active_set p active s =
     (MMAL_SUCCESS, if active then mmal_clock_start p s else mmal_clock_stop p s)"

definition mmal_clock_scale_get :: "addr \<Rightarrow> 'a clock_store_scheme \<Rightarrow> mmal_rational" where
  "mmal_clock_scale_get p s = scale_rational (clocks s p)"

definition mmal_clock_media_time_get :: "addr \<Rightarrow> 'a clock_store_scheme \<Rightarrow> int \<times> 'a clock_store_scheme" where
  "mmal_clock_media_time_get p s = mmal_clock_media_time_get_locked p s"

definition mmal_clock_is_active :: "addr \<Rightarrow> 'a clock_store_scheme \<Rightarrow> bool" where
  "mmal_clock_is_active p s = is_active (clocks s p)"

definition mmal_clock_update_threshold_get :: "addr \<Rightarrow> 'a clock_store_scheme \<Rightarrow> int \<times> int" where
  "mmal_clock_update_threshold_get p s =
     (update_threshold_lower (clocks s p), update_threshold_upper (clocks s p))"

definition mmal_clock_update_threshold_set :: "addr \<Rightarrow> int \<times> int \<Rightarrow> 'a clock_store_scheme \<Rightarrow> mmal_status \<times> 'a clock_store_scheme" where
  "mmal_clock_update_threshold_set p th s =
     (MMAL_SUCCESS, upd_clock p (\<lambda>c. c\<lparr>update_threshold_lower := fst th, update_threshold_upper := snd th\<rparr>) s)"

definition mmal_clock_discont_threshold_get :: "addr \<Rightarrow> 'a clock_store_scheme \<Rightarrow> int \<times> int" where
  "mmal_clock_discont_threshold_get p s = (discont_threshold (clocks s p), discont_duration (clocks s p))"

definition mmal_clock_discont_threshold_set :: "addr \<Rightarrow> int \<times> int \<Rightarrow> 'a clock_store_scheme \<Rightarrow> mmal_status \<times> 'a clock_store_scheme" where
  "mmal_clock_discont_threshold_set p d s =
     (MMAL_SUCCESS, upd_clock p (\<lambda>c. c\<lparr>discont_threshold := fst d, discont_duration := snd d\<rparr>) s)"

definition mmal_clock_request_threshold_get :: "addr \<Rightarrow> 'a clock_store_scheme \<Rightarrow> int \<times> bool" where
  "mmal_clock_request_threshold_get p s = (request_threshold (clocks s p), request_threshold_enable (clocks s p))"

definition mmal_clock_request_threshold_set :: "addr \<Rightarrow> int \<times> bool \<Rightarrow> 'a clock_store_scheme \<Rightarrow> mmal_status \<times> 'a clock_store_scheme" where
  "mmal_clock_request_threshold_set p r s =
     (MMAL_SUCCESS, upd_clock p (\<lambda>c. c\<lparr>request_threshold := fst r, request_threshold_enable := snd r\<rparr>) s)"

section \<open>Time keeping is exact\<close>

text \<open>The media time with its fraction, in units of 2 to the power -24 microseconds.\<close>

definition media_position :: "mmal_clock \<Rightarrow> int" where
  "media_position c = media_time c * 2 ^ 24 + uint (media_time_frac c)"

lemma uint_diff: "b \<le> a \<Longrightarrow> uint (a - b) = uint a - uint b" for a b :: u32
  by (simp add: uint_minus_simple_alt word_le_def)

lemma q24_bounds:
  fixes x m f :: int
  assumes "0 \<le> f" "f < 2 ^ 24"
  shows "\<bar>x\<bar> \<le> (2 ^ 31 - 1) * 2 ^ 31 \<Longrightarrow> is_s64 x \<and> is_s64 (x + f)"
    and "\<bar>m\<bar> \<le> 2 ^ 61 \<Longrightarrow> \<bar>m * 2 ^ 24 + f\<bar> \<le> 2 ^ 61 * 2 ^ 24 + 2 ^ 24"
  using assms by (auto simp: is_s64_def abs_le_iff)

lemma q24_start:
  fixes p r :: int
  assumes "\<bar>p\<bar> \<le> 2 ^ 61 * 2 ^ 24 + 2 ^ 24" "0 \<le> r"
  shows "\<bar>p\<bar> \<le> 2 ^ 86 - (2 ^ 31 - r) * 2 ^ 31"
  using assms by simp

lemma q24_carry:
  fixes a q r b :: int
  assumes "\<bar>a * 2 ^ 24 + (q * 2 ^ 24 + r)\<bar> \<le> b" "0 \<le> r" "r < 2 ^ 24"
  shows "\<bar>(a + q) * 2 ^ 24\<bar> \<le> b + 2 ^ 24"
  using assms unfolding distrib_right by (auto simp: abs_le_iff)

lemma advance_clock_exact:
  assumes t: "rtc_at_update c \<le> t" "uint t < 2 ^ 31" and frac: "uint (media_time_frac c) < 2 ^ 24"
    and sc: "is_s32 (scale c * 256)" and pos: "\<bar>media_position c\<bar> \<le> 2 ^ 86 - (2 ^ 31 - uint (rtc_at_update c)) * 2 ^ 31"
  shows "media_position (advance_clock t c) =
           media_position c + (uint t - uint (rtc_at_update c)) * (scale c * 256)"
    and "uint (media_time_frac (advance_clock t c)) < 2 ^ 24"
proof -
  define d where "d = uint t - uint (rtc_at_update c)"
  define w where "w = scale c * 256"
  define m where "m = d * w + uint (media_time_frac c)"
  have "uint (rtc_at_update c) \<le> uint t" using t(1) by (simp add: word_le_def)
  moreover have "0 \<le> uint (rtc_at_update c)" by simp
  ultimately have d: "0 \<le> d" "d < 2 ^ 31" "0 \<le> uint (rtc_at_update c)" using t(2) unfolding d_def by linarith+
  have w: "\<bar>w\<bar> \<le> 2 ^ 31" using sc by (auto simp: is_s32_def w_def)
  have dw: "\<bar>d * w\<bar> \<le> d * 2 ^ 31" using d w unfolding abs_mult by (intro mult_mono) auto
  moreover have "d * 2 ^ 31 \<le> (2 ^ 31 - 1) * 2 ^ 31" using d by (intro mult_right_mono) auto
  ultimately have dw62: "\<bar>d * w\<bar> \<le> (2 ^ 31 - 1) * 2 ^ 31" by linarith
  have fr: "0 \<le> uint (media_time_frac c)" by simp
  have ud: "uint (if rtc_at_update c < t then t - rtc_at_update c else 0) = d"
    using t(1) by (auto simp: d_def uint_diff not_less)
  have scale: "s32 (push_bit 8 (scale c)) = w" using sc by (simp add: push_bit_eq_mult w_def s32_id)
  have s: "s64 (s64 (d * w) + uint (media_time_frac c)) = m"
  proof -
    have "is_s64 (d * w)" "is_s64 (d * w + uint (media_time_frac c))"
      using q24_bounds(1) [OF fr frac dw62] by simp_all
    then show ?thesis by (simp add: s64_id m_def)
  qed
  have split: "m div 2 ^ 24 * 2 ^ 24 + m mod 2 ^ 24 = m" by simp
  have "media_position c = media_time c * 2 ^ 24 + uint (media_time_frac c)" by (simp add: media_position_def)
  moreover have "d \<le> 2 ^ 31 - uint (rtc_at_update c)" using t(2) by (simp add: d_def)
  then have "d * 2 ^ 31 \<le> (2 ^ 31 - uint (rtc_at_update c)) * 2 ^ 31" by (intro mult_right_mono) auto
  ultimately have "\<bar>media_time c * 2 ^ 24 + m\<bar> \<le> 2 ^ 86"
    using pos dw unfolding m_def by linarith
  then have "\<bar>media_time c * 2 ^ 24 + (m div 2 ^ 24 * 2 ^ 24 + m mod 2 ^ 24)\<bar> \<le> 2 ^ 86"
    by (simp only: split)
  then have "\<bar>(media_time c + m div 2 ^ 24) * 2 ^ 24\<bar> \<le> 2 ^ 86 + 2 ^ 24"
    by (rule q24_carry) simp_all
  then have "is_s64 (media_time c + m div 2 ^ 24)" unfolding is_s64_def by (simp add: abs_if split: if_splits)
  then have mt: "s64 (media_time c + drop_bit 24 m) = media_time c + m div 2 ^ 24"
    by (simp add: drop_bit_eq_div s64_id)
  have "m AND (2 ^ 24 - 1) = m mod 2 ^ 24"
    by (simp only: take_bit_eq_mod [symmetric] take_bit_eq_mask mask_eq_exp_minus_1)
  moreover have "0 \<le> m mod 2 ^ 24" "m mod 2 ^ 24 < 2 ^ 24" by simp_all
  ultimately have fr': "uint (word_of_int (m AND (2 ^ 24 - 1)) :: u32) = m mod 2 ^ 24"
    by (simp add: uint_word_of_int_eq take_bit_eq_mod)
  have adv: "media_time (advance_clock t c) = media_time c + m div 2 ^ 24"
    "uint (media_time_frac (advance_clock t c)) = m mod 2 ^ 24"
    using mt fr' by (simp_all add: advance_clock_def Let_def ud scale s)
  show "media_position (advance_clock t c) = media_position c + (uint t - uint (rtc_at_update c)) * (scale c * 256)"
    unfolding media_position_def adv distrib_right using split unfolding m_def d_def w_def by linarith
  show "uint (media_time_frac (advance_clock t c)) < 2 ^ 24" unfolding adv by simp
qed

lemma advance_clock_sel [simp]:
  "rtc_at_update (advance_clock t c) = t" "scale (advance_clock t c) = scale c"
  "list_free (advance_clock t c) = list_free c" "list_pending (advance_clock t c) = list_pending c"
  "scheduling (advance_clock t c) = scheduling c" "stop_thread (advance_clock t c) = stop_thread c"
  "is_active (advance_clock t c) = is_active c" "discont_expiry (advance_clock t c) = discont_expiry c"
  "request_threshold_enable (advance_clock t c) = request_threshold_enable c"
  "event (advance_clock t c) = event c" "timer (advance_clock t c) = timer c"
  by (simp_all add: advance_clock_def Let_def)

lemma advance_clocks_exact:
  assumes "sorted (rtc_at_update c # ts)" "\<forall>t\<in>set ts. uint t < 2 ^ 31" "uint (media_time_frac c) < 2 ^ 24"
    and "is_s32 (scale c * 256)" "\<bar>media_position c\<bar> \<le> 2 ^ 86 - (2 ^ 31 - uint (rtc_at_update c)) * 2 ^ 31"
  shows "media_position (fold advance_clock ts c) =
     media_position c + (uint (last (rtc_at_update c # ts)) - uint (rtc_at_update c)) * (scale c * 256) \<and>
     uint (media_time_frac (fold advance_clock ts c)) < 2 ^ 24"
  using assms
proof (induction ts arbitrary: c)
  case Nil
  then show ?case by simp
next
  case (Cons t ts)
  let ?c = "advance_clock t c"
  have t: "rtc_at_update c \<le> t" "uint t < 2 ^ 31" using Cons.prems by auto
  note ex = advance_clock_exact [OF t Cons.prems(3,4,5)]
  define r d w where "r = uint (rtc_at_update c)" and "d = uint t - r" and "w = scale c * 256"
  have "r \<le> uint t" using t(1) by (simp add: word_le_def r_def)
  then have d: "0 \<le> d" by (simp add: d_def)
  have w: "\<bar>w\<bar> \<le> 2 ^ 31" using Cons.prems(4) by (auto simp: is_s32_def w_def)
  have dw: "\<bar>d * w\<bar> \<le> d * 2 ^ 31" using d w unfolding abs_mult by (intro mult_mono) auto
  have "media_position ?c = media_position c + d * w" using ex(1) by (simp add: d_def r_def w_def)
  moreover have "(2 ^ 31 - uint t) * 2 ^ 31 = (2 ^ 31 - r) * 2 ^ 31 - d * 2 ^ 31" by (simp add: d_def algebra_simps)
  ultimately have pos: "\<bar>media_position ?c\<bar> \<le> 2 ^ 86 - (2 ^ 31 - uint t) * 2 ^ 31"
    using dw Cons.prems(5) unfolding r_def [symmetric] by linarith
  have "media_position (fold advance_clock ts ?c) =
      media_position ?c + (uint (last (t # ts)) - uint t) * (scale c * 256) \<and>
     uint (media_time_frac (fold advance_clock ts ?c)) < 2 ^ 24"
    using Cons.IH [of ?c] Cons.prems pos ex(2) by simp
  with ex(1) show ?case by (simp add: algebra_simps)
qed

text \<open>
  C36: however often the local time is updated, nothing is lost by rounding: the media time with its fraction
  advances by exactly the elapsed time multiplied by the scale, as long as the
  microsecond clock does not wrap and the speed is below 128.
\<close>

theorem mmal_clock_no_drift:
  assumes "sorted (rtc_at_update c # ts)" and "\<forall>t\<in>set ts. uint t < 2 ^ 31"
    and "uint (media_time_frac c) < 2 ^ 24" and "is_s32 (scale c * 256)" and "\<bar>media_time c\<bar> \<le> 2 ^ 61"
  shows "media_position (fold advance_clock ts c) =
     media_position c + (uint (last (rtc_at_update c # ts)) - uint (rtc_at_update c)) * (scale c * 256)"
proof -
  have fr: "0 \<le> uint (media_time_frac c)" by simp
  have "\<bar>media_position c\<bar> \<le> 2 ^ 61 * 2 ^ 24 + 2 ^ 24"
    unfolding media_position_def using fr assms(3,5) by (rule q24_bounds(2))
  moreover have "0 \<le> uint (rtc_at_update c)" by simp
  ultimately have "\<bar>media_position c\<bar> \<le> 2 ^ 86 - (2 ^ 31 - uint (rtc_at_update c)) * 2 ^ 31"
    by (rule q24_start)
  with advance_clocks_exact assms show ?thesis by blast
qed

text \<open>A third of a microsecond in each of three updates: at speed 1/3 nothing is dropped.\<close>

theorem mmal_clock_no_drift_witness:
  "media_position (fold advance_clock [1, 2, 3] (zero_clock\<lparr>scale := 21846\<rparr>)) = 3 * (21846 * 256)"
  using mmal_clock_no_drift [of "zero_clock\<lparr>scale := 21846\<rparr>" "[1, 2, 3]"]
  by (simp add: zero_clock_def is_s32_def media_position_def)

section \<open>The request queue\<close>

lemma upd_clock_sel [simp]:
  "clocks (upd_clock p f s) = (clocks s)(p := f (clocks s p))" "requests (upd_clock p f s) = requests s"
  "fired (upd_clock p f s) = fired s" "lists (upd_clock p f s) = lists s" "elements (upd_clock p f s) = elements s"
  by (simp_all add: upd_clock_def)

lemma list_op_clock_sel [simp]:
  "clocks (mmal_list_push_back l e s) = clocks s" "requests (mmal_list_push_back l e s) = requests s"
  "fired (mmal_list_push_back l e s) = fired s"
  "clocks (mmal_list_push_front l e s) = clocks s" "requests (mmal_list_push_front l e s) = requests s"
  "fired (mmal_list_push_front l e s) = fired s"
  "clocks (snd (mmal_list_pop_front l s)) = clocks s" "requests (snd (mmal_list_pop_front l s)) = requests s"
  "fired (snd (mmal_list_pop_front l s)) = fired s"
  by (simp_all add: mmal_list_push_back_def mmal_list_push_front_def mmal_list_pop_front_def Let_def
      upd_list_def upd_elem_def split: option.split)

lemma pop_clock_sel:
  "mmal_list_pop_front l s = (r, s') \<Longrightarrow> clocks s' = clocks s \<and> requests s' = requests s \<and> fired s' = fired s"
  using list_op_clock_sel(7-9) [of l s] by simp

lemma link_before_clock_sel [simp]:
  "clocks (link_before l e c s) = clocks s" "requests (link_before l e c s) = requests s"
  "fired (link_before l e c s) = fired s"
  by (simp_all add: link_before_def Let_def upd_list_def upd_elem_def split: option.split)

lemma insert_clock_sel:
  "mmal_list_insert l e c s = Some s' \<Longrightarrow> clocks s' = clocks s \<and> requests s' = requests s \<and> fired s' = fired s"
  by (auto simp: mmal_list_insert_def bind_eq_Some_conv split: if_splits option.splits)

lemma invoke_cb_sel [simp]:
  "clocks (invoke_cb r now s) = clocks s" "requests (invoke_cb r now s) = requests s"
  "lists (invoke_cb r now s) = lists s" "elements (invoke_cb r now s) = elements s"
  by (simp_all add: invoke_cb_def Let_def)

lemma getmicrosecs_sel [simp]:
  "clocks (snd (vcos_getmicrosecs s)) = clocks s" "requests (snd (vcos_getmicrosecs s)) = requests s"
  "fired (snd (vcos_getmicrosecs s)) = fired s" "lists (snd (vcos_getmicrosecs t)) = lists t"
  "elements (snd (vcos_getmicrosecs t)) = elements t"
  by (simp_all add: vcos_getmicrosecs_eq split: list.split)

lemma local_time_sel [simp]:
  "clocks (mmal_clock_update_local_time_locked p s) =
     (clocks s)(p := advance_clock (fst (vcos_getmicrosecs s)) (clocks s p))"
  "requests (mmal_clock_update_local_time_locked p s) = requests s"
  "fired (mmal_clock_update_local_time_locked p s) = fired s"
  "lists (mmal_clock_update_local_time_locked p s) = lists s"
  "elements (mmal_clock_update_local_time_locked p s) = elements s"
  by (simp_all add: mmal_clock_update_local_time_locked_def case_prod_beta Let_def)

lemma wake_sel [simp]:
  "requests (mmal_clock_wake_thread p s) = requests s" "fired (mmal_clock_wake_thread p s) = fired s"
  "lists (mmal_clock_wake_thread p s) = lists s" "elements (mmal_clock_wake_thread p s) = elements s"
  "clocks (mmal_clock_wake_thread p s) = (clocks s)(p := (clocks s p)\<lparr>event := (if scheduling (clocks s p)
     then Suc (event (clocks s p)) else event (clocks s p))\<rparr>)"
  by (auto simp: mmal_clock_wake_thread_def vcos_semaphore_post_def)

text \<open>The order in which requests are due: by media time forwards, against it backwards.\<close>

definition request_key :: "mmal_clock \<Rightarrow> (addr \<Rightarrow> mmal_clock_request) \<Rightarrow> addr \<Rightarrow> int" where
  "request_key c rq x = (if 0 \<le> scale c then req_media_time_adj (rq x) else - req_media_time_adj (rq x))"

lemma request_key_advance [simp]: "request_key (advance_clock t c) = request_key c"
  by (simp add: request_key_def fun_eq_iff)

text \<open>
  The invariant of a clock that schedules: the slots are split between the free and the pending
  list, and the pending list is in the order in which requests are due.
\<close>

definition clock_rep :: "addr \<Rightarrow> 'a clock_store_scheme \<Rightarrow> addr list \<Rightarrow> addr list \<Rightarrow> bool" where
  "clock_rep p s fs ps \<longleftrightarrow>
     (\<exists>lf lp. list_free (clocks s p) = Some lf \<and> list_pending (clocks s p) = Some lp \<and> two_lists lf lp s fs ps) \<and>
     length fs + length ps \<le> CLOCK_REQUEST_SLOTS \<and>
     sorted (map (request_key (clocks s p) (requests s)) ps)"

definition invocation_of :: "(addr \<Rightarrow> mmal_clock_request) \<Rightarrow> int \<Rightarrow> addr \<Rightarrow> invocation" where
  "invocation_of rq now x = (req_cb (rq x), now, req_cb_data (rq x), req_priv (rq x))"

lemma fired_invoke [simp]: "fired (invoke_cb x now s) = fired s @ [invocation_of (requests s) now x]"
  by (simp add: invoke_cb_def invocation_of_def Let_def)

lemma flush_loop_all:
  "two_lists lf lp s fs ps \<Longrightarrow>
   \<exists>s'. flush_loop lp lf now s = Some s' \<and> two_lists lf lp s' (fs @ ps) [] \<and>
     fired s' = fired s @ map (invocation_of (requests s) now) ps \<and> clocks s' = clocks s \<and> requests s' = requests s"
proof (induction ps arbitrary: fs s)
  case Nil
  then have "mmal_list_pop_front lp s = (None, s)" using two_lists_pop_Nil two_lists_sym by metis
  with Nil show ?case by (subst flush_loop.simps) simp
next
  case (Cons x ps)
  then obtain s1 where s1: "mmal_list_pop_front lp s = (Some x, s1)" "two_lists lf lp s1 fs ps" "x \<notin> set fs \<union> set ps"
    using two_lists_pop [of lp lf s x ps fs] by (auto simp: two_lists_sym [of lf lp])
  then have c1: "clocks s1 = clocks s" "requests s1 = requests s" "fired s1 = fired s"
    using list_op_clock_sel(7-9) [of lp s] by simp_all
  let ?s2 = "mmal_list_push_back lf x (invoke_cb x now s1)"
  have "two_lists lf lp (invoke_cb x now s1) fs ps" using s1(2) by (simp cong: two_lists_cong)
  then have "two_lists lf lp ?s2 (fs @ [x]) ps" using s1(3) by (intro two_lists_push_back) auto
  from Cons.IH [OF this] c1 s1(1) show ?case by (subst flush_loop.simps) (simp add: case_prod_beta)
qed

lemma clock_rep_cong:
  assumes "lists s' = lists s" "elements s' = elements s" "requests s' = requests s"
    and "list_free (clocks s' p) = list_free (clocks s p)" "list_pending (clocks s' p) = list_pending (clocks s p)"
    and "scale (clocks s' p) = scale (clocks s p)"
  shows "clock_rep p s' fs ps = clock_rep p s fs ps"
proof -
  have "two_lists k l s' xs ys = two_lists k l s xs ys" for k l xs ys
    using assms by (intro two_lists_cong)
  moreover have "request_key (clocks s' p) (requests s') = request_key (clocks s p) (requests s)"
    using assms by (simp add: request_key_def fun_eq_iff)
  ultimately show ?thesis using assms by (simp add: clock_rep_def)
qed

text \<open>
  Flushing a clock calls every pending request exactly once, in order, and makes its slot free
  again; it always returns.
\<close>

theorem mmal_clock_request_flush_serves_all:
  assumes "clock_rep p s fs ps" and "scheduling (clocks s p)"
  shows "\<exists>s'. mmal_clock_request_flush p s = Some (MMAL_SUCCESS, s') \<and> clock_rep p s' (fs @ ps) [] \<and>
     fired s' = fired s @ map (invocation_of (requests s) MMAL_TIME_UNKNOWN) ps"
proof -
  obtain lf lp where l: "list_free (clocks s p) = Some lf" "list_pending (clocks s p) = Some lp"
    and two: "two_lists lf lp s fs ps" and len: "length fs + length ps \<le> CLOCK_REQUEST_SLOTS"
    using assms(1) by (auto simp: clock_rep_def)
  obtain s1 where s1: "flush_loop lp lf MMAL_TIME_UNKNOWN s = Some s1" "two_lists lf lp s1 (fs @ ps) []"
    "fired s1 = fired s @ map (invocation_of (requests s) MMAL_TIME_UNKNOWN) ps" "clocks s1 = clocks s"
    using flush_loop_all [OF two] by blast
  let ?s' = "upd_clock p (\<lambda>c. c\<lparr>media_time_at_timer := 0\<rparr>) s1"
  have "clock_rep p ?s' (fs @ ps) []"
    using s1 l len two_lists_cong [of ?s' s1] by (auto simp: clock_rep_def)
  with s1 l assms(2) show ?thesis
    by (simp add: mmal_clock_request_flush_def mmal_clock_request_flush_locked_def)
qed

text \<open>A running clock with one pending request, in slot 7, and one free slot, 8.\<close>

definition demo_clock :: clock_store where
  "demo_clock = mmal_list_push_back 3000 7 (mmal_list_push_back 2000 8
     \<lparr>mallocs = [], creates = [], clock_readings = [20000], live = [], sync = [],
      elements = (\<lambda>_. \<lparr>e_next = None, e_prev = None\<rparr>), lists = (\<lambda>_. \<lparr>l_length = 0, l_first = None, l_last = None\<rparr>),
      clocks = (\<lambda>_. zero_clock\<lparr>scheduling := True, is_active := True, scale := 65536,
        list_free := Some 2000, list_pending := Some 3000\<rparr>),
      requests = (\<lambda>_. \<lparr>req_priv = None, req_cb = Some 9, req_cb_data = None, req_media_time = 5020,
        req_media_time_adj = 5000\<rparr>), fired = []\<rparr>)"

lemma demo_clock_sel [simp]:
  "clocks demo_clock = (\<lambda>_. zero_clock\<lparr>scheduling := True, is_active := True, scale := 65536,
        list_free := Some 2000, list_pending := Some 3000\<rparr>)"
  "requests demo_clock x = \<lparr>req_priv = None, req_cb = Some 9, req_cb_data = None, req_media_time = 5020,
        req_media_time_adj = 5000\<rparr>" "fired demo_clock = []"
  by (simp_all add: demo_clock_def)

lemma demo_clock_rep: "clock_rep 1 demo_clock [8] [7]"
proof -
  let ?e = "\<lparr>mallocs = [], creates = [], clock_readings = [20000], live = [], sync = [],
      elements = (\<lambda>_. \<lparr>e_next = None, e_prev = None\<rparr>), lists = (\<lambda>_. \<lparr>l_length = 0, l_first = None, l_last = None\<rparr>),
      clocks = (\<lambda>_. zero_clock\<lparr>scheduling := True, is_active := True, scale := 65536,
        list_free := Some 2000, list_pending := Some 3000\<rparr>),
      requests = (\<lambda>_. \<lparr>req_priv = None, req_cb = Some 9, req_cb_data = None, req_media_time = 5020,
        req_media_time_adj = 5000\<rparr>), fired = []\<rparr> :: clock_store"
  have "two_lists 2000 3000 ?e [] []" by (simp add: two_lists_def list_rep_Nil)
  then have "two_lists 2000 3000 (mmal_list_push_back 2000 8 ?e) ([] @ [8]) []" by (intro two_lists_push_back) auto
  then have "two_lists 3000 2000 (mmal_list_push_back 2000 8 ?e) [] [8]" by (subst two_lists_sym) simp
  then have "two_lists 3000 2000 demo_clock ([] @ [7]) [8]"
    unfolding demo_clock_def by (intro two_lists_push_back) auto
  then show ?thesis by (auto simp: clock_rep_def two_lists_sym CLOCK_REQUEST_SLOTS_def zero_clock_def)
qed

theorem mmal_clock_request_flush_serves_all_witness:
  "\<exists>s'. mmal_clock_request_flush 1 demo_clock = Some (MMAL_SUCCESS, s') \<and> clock_rep 1 s' [8, 7] [] \<and>
     fired s' = [(Some 9, MMAL_TIME_UNKNOWN, None, None)]"
  using mmal_clock_request_flush_serves_all [OF demo_clock_rep]
  by (auto simp: invocation_of_def)

lemma insert_before_map_sorted:
  "(\<And>x y. c x y \<longleftrightarrow> (k x :: int) < k y) \<Longrightarrow> sorted (map k xs) \<Longrightarrow> sorted (map k (insert_before c e xs))"
  by (induction xs) auto

lemma compare_key:
  "(if 0 \<le> scale c then mmal_clock_request_compare_pos rq else mmal_clock_request_compare_neg rq) x y \<longleftrightarrow>
     request_key c rq x < request_key c rq y"
  by (simp add: mmal_clock_request_compare_pos_def mmal_clock_request_compare_neg_def request_key_def)

lemma clock_rep_length_pending:
  "clock_rep p s fs ps \<Longrightarrow> list_pending (clocks s p) = Some lp \<Longrightarrow> l_length (lists s lp) = 0 \<longleftrightarrow> ps = []"
proof -
  assume a: "clock_rep p s fs ps" "list_pending (clocks s p) = Some lp"
  then have "l_length (lists s lp) = word_of_nat (length ps)" "length ps \<le> 32"
    by (auto simp: clock_rep_def two_lists_def list_rep_def CLOCK_REQUEST_SLOTS_def)
  then have "unat (l_length (lists s lp)) = length ps" by (simp add: unat_of_nat)
  then show ?thesis by (metis length_0_conv unat_0 unat_eq_zero)
qed

text \<open>Whether pushed to an end or inserted, a request lands behind all that are due no later.\<close>

lemma request_insert_rep:
  assumes rep: "clock_rep p s fs ps" and x: "x \<notin> set fs \<union> set ps" and stop: "\<not> stop_thread (clocks s p)"
    and len: "length fs + length ps < CLOCK_REQUEST_SLOTS"
  shows "\<exists>s'. mmal_clock_request_insert p x s = Some (True, s') \<and> clock_rep p s' fs
       (insert_before (\<lambda>a b. request_key (clocks s p) (requests s) a < request_key (clocks s p) (requests s) b) x ps) \<and>
     clocks s' = clocks s \<and> requests s' = requests s \<and> fired s' = fired s"
proof -
  let ?k = "request_key (clocks s p) (requests s)"
  let ?c = "\<lambda>a b. ?k a < ?k b"
  obtain lf lp where l: "list_free (clocks s p) = Some lf" "list_pending (clocks s p) = Some lp"
    and two: "two_lists lp lf s ps fs" and srt: "sorted (map ?k ps)"
    using rep by (auto simp: clock_rep_def two_lists_sym)
  have x': "x \<notin> set ps \<union> set fs" using x by auto
  have srt': "sorted (map ?k (insert_before ?c x ps))" using srt by (intro insert_before_map_sorted) auto
  have fin: "clock_rep p s' fs (insert_before ?c x ps)"
    if "two_lists lp lf s' (insert_before ?c x ps) fs" "clocks s' = clocks s" "requests s' = requests s" for s'
    using that l srt' len by (auto simp: clock_rep_def two_lists_sym)
  show ?thesis
  proof (cases "ps = []")
    case True
    have "two_lists lp lf (mmal_list_push_front lp x s) (insert_before ?c x ps) fs"
      using two_lists_push_front [OF two x'] True by simp
    then have "clock_rep p (mmal_list_push_front lp x s) fs (insert_before ?c x ps)" by (intro fin) simp_all
    with True l clock_rep_length_pending [OF rep l(2)] stop show ?thesis
      by (simp add: mmal_clock_request_insert_def)
  next
    case False
    have last: "l_last (lists s lp) = Some (last ps)"
      using list_rep_lists [of lp s ps] two False by (auto simp: two_lists_def)
    show ?thesis
    proof (cases "?k (last ps) \<le> ?k x")
      case True
      have "\<forall>y\<in>set ps. \<not> ?c x y"
      proof
        fix y assume "y \<in> set ps"
        then have "?k y \<le> ?k (last ps)" using sorted_last_le [of "map ?k ps" "?k y"] srt False
          by (auto simp: last_map)
        with True show "\<not> ?c x y" by simp
      qed
      then have "insert_before ?c x ps = ps @ [x]" by (induction ps) auto
      then have "two_lists lp lf (mmal_list_push_back lp x s) (insert_before ?c x ps) fs"
        using two_lists_push_back [OF two x'] by simp
      moreover have "mmal_clock_request_insert p x s = Some (True, mmal_list_push_back lp x s)"
        using True False l last clock_rep_length_pending [OF rep l(2)] stop
        by (auto simp: mmal_clock_request_insert_def Let_def request_key_def split: if_splits)
      ultimately show ?thesis by (auto intro: fin)
    next
      case less: False
      let ?cmp = "if 0 \<le> scale (clocks s p) then mmal_clock_request_compare_pos (requests s)
          else mmal_clock_request_compare_neg (requests s)"
      obtain s' where s': "mmal_list_insert lp x ?cmp s = Some s'" "two_lists lp lf s' (insert_before ?cmp x ps) fs"
        using two_lists_insert [OF two x'] by blast
      have "?cmp = ?c" by (intro ext) (simp only: compare_key)
      moreover have "mmal_clock_request_insert p x s = map_option (Pair True) (mmal_list_insert lp x ?cmp s)"
        using less False l last clock_rep_length_pending [OF rep l(2)] stop
        by (auto simp: mmal_clock_request_insert_def Let_def request_key_def split: if_splits)
      ultimately show ?thesis using s' fin insert_clock_sel [OF s'(1)] by auto
    qed
  qed
qed

lemma clock_rep_pop_free:
  assumes "clock_rep p s (x # fs) ps" "list_free (clocks s p) = Some lf"
  shows "\<exists>s'. mmal_list_pop_front lf s = (Some x, s') \<and> clock_rep p s' fs ps \<and> x \<notin> set fs \<union> set ps \<and>
     clocks s' = clocks s \<and> requests s' = requests s \<and> fired s' = fired s"
proof -
  obtain lp where lp: "list_pending (clocks s p) = Some lp" "two_lists lf lp s (x # fs) ps"
    using assms by (auto simp: clock_rep_def)
  obtain s' where s': "mmal_list_pop_front lf s = (Some x, s')" "two_lists lf lp s' fs ps" "x \<notin> set fs \<union> set ps"
    using two_lists_pop [OF lp(2)] by blast
  then have "clocks s' = clocks s" "requests s' = requests s" "fired s' = fired s"
    using list_op_clock_sel(7-9) [of lf s] by simp_all
  with s' lp assms show ?thesis by (auto simp: clock_rep_def)
qed

text \<open>A new request in a slot that is in no list does not change the order of the others.\<close>

lemma clock_rep_set_request:
  assumes "clock_rep p s fs ps" "x \<notin> set ps"
  shows "clock_rep p (s\<lparr>requests := (requests s)(x := r)\<rparr>) fs ps"
proof -
  have "map (request_key c ((requests s)(x := r))) ps = map (request_key c (requests s)) ps" for c
    using assms(2) by (auto simp: request_key_def)
  moreover have "two_lists k l (s\<lparr>requests := (requests s)(x := r)\<rparr>) xs ys = two_lists k l s xs ys" for k l xs ys
    by (rule two_lists_cong) simp_all
  ultimately show ?thesis using assms(1) by (simp add: clock_rep_def del: map_eq_conv)
qed

lemma insert_before_around:
  assumes "\<And>x y. c x y \<longleftrightarrow> (k x :: int) < k y" "sorted (map k xs)"
  shows "\<exists>as bs. xs = as @ bs \<and> insert_before c e xs = as @ e # bs \<and> (\<forall>a\<in>set as. k a \<le> k e) \<and> (\<forall>b\<in>set bs. k e < k b)"
proof (intro exI conjI)
  show "xs = takeWhile (\<lambda>x. \<not> c e x) xs @ dropWhile (\<lambda>x. \<not> c e x) xs" by simp
  show "insert_before c e xs = takeWhile (\<lambda>x. \<not> c e x) xs @ e # dropWhile (\<lambda>x. \<not> c e x) xs"
    by (rule insert_before_split)
  show "\<forall>a\<in>set (takeWhile (\<lambda>x. \<not> c e x) xs). k a \<le> k e"
    using assms(1) by (auto simp: not_less dest: set_takeWhileD)
  show "\<forall>b\<in>set (dropWhile (\<lambda>x. \<not> c e x) xs). k e < k b"
    using assms(2)
  proof (induction xs)
    case (Cons x xs)
    show ?case
    proof (cases "k e < k x")
      case True
      then have "\<forall>b\<in>set (x # xs). k e < k b" using Cons.prems by fastforce
      with True show ?thesis by (simp add: assms(1))
    next
      case False
      then have "dropWhile (\<lambda>x. \<not> c e x) (x # xs) = dropWhile (\<lambda>x. \<not> c e x) xs" by (simp add: assms(1))
      moreover have "sorted (map k xs)" using Cons.prems by simp
      ultimately show ?thesis using Cons.IH by metis
    qed
  qed simp
qed

definition adjusted_time :: "mmal_clock \<Rightarrow> int \<Rightarrow> int" where
  "adjusted_time c mtime = s64 (mtime - drop_bit 16 (s32 (scale c * CLOCK_TARGET_OFFSET)))"

text \<open>
  C9: on a clock that schedules and has no request threshold, a request is refused with \<open>ENOSPC\<close> exactly
  when all slots are pending; otherwise it takes the first free slot and is queued behind every
  pending request that is due no later and before every one that is due later, so the queue stays
  in order and requests for the same time keep theirs.
\<close>

theorem mmal_clock_request_add_queues:
  assumes rep: "clock_rep p s fs ps" and sched: "scheduling (clocks s p)" and stop: "\<not> stop_thread (clocks s p)"
    and th: "\<not> request_threshold_enable (clocks s p)"
  shows "\<exists>st s'. mmal_clock_request_add p mtime cb cb_data priv_fn s = Some (st, s') \<and>
     (if fs = [] then st = MMAL_ENOSPC \<and> clock_rep p s' [] ps
      else \<exists>as bs. st = MMAL_SUCCESS \<and> ps = as @ bs \<and> clock_rep p s' (tl fs) (as @ hd fs # bs) \<and>
        requests s' (hd fs) = \<lparr>req_priv = priv_fn, req_cb = cb, req_cb_data = cb_data,
           req_media_time = mtime, req_media_time_adj = adjusted_time (clocks s p) mtime\<rparr> \<and>
        (let k = request_key (clocks s' p) (requests s') in
           (\<forall>a\<in>set as. k a \<le> k (hd fs)) \<and> (\<forall>b\<in>set bs. k (hd fs) < k b)) \<and>
        event (clocks s' p) = event (clocks s p) + (if is_active (clocks s p) then 1 else 0))"
proof -
  let ?s1 = "mmal_clock_update_local_time_locked p s"
  obtain lf where lf: "list_free (clocks s p) = Some lf" using rep by (auto simp: clock_rep_def)
  have c1: "clocks ?s1 p = advance_clock (fst (vcos_getmicrosecs s)) (clocks s p)" by simp
  have rep1: "clock_rep p ?s1 fs ps" using rep by (subst clock_rep_cong [of _ s]) simp_all
  show ?thesis
  proof (cases fs)
    case Nil
    then have "mmal_list_pop_front lf ?s1 = (None, ?s1)"
      using rep1 lf two_lists_pop_Nil [of lf] by (auto simp: clock_rep_def)
    with Nil rep1 lf sched th show ?thesis
      by (simp add: mmal_clock_request_add_def mmal_clock_media_time_get_locked_def Let_def)
  next
    case (Cons x fs')
    obtain s2 where s2: "mmal_list_pop_front lf ?s1 = (Some x, s2)" "clock_rep p s2 fs' ps" "x \<notin> set fs' \<union> set ps"
      "clocks s2 = clocks ?s1" "requests s2 = requests s" "fired s2 = fired s"
      using clock_rep_pop_free [OF rep1 [unfolded Cons]] lf by auto
    let ?r = "\<lparr>req_priv = priv_fn, req_cb = cb, req_cb_data = cb_data, req_media_time = mtime,
        req_media_time_adj = adjusted_time (clocks s p) mtime\<rparr>"
    let ?s3 = "s2\<lparr>requests := (requests s2)(x := ?r)\<rparr>"
    have rep3: "clock_rep p ?s3 fs' ps" using s2 by (intro clock_rep_set_request) auto
    have len: "length fs' + length ps < CLOCK_REQUEST_SLOTS"
      using rep1 Cons by (auto simp: clock_rep_def)
    let ?k = "request_key (clocks ?s3 p) (requests ?s3)"
    obtain s4 where s4: "mmal_clock_request_insert p x ?s3 = Some (True, s4)"
      "clock_rep p s4 fs' (insert_before (\<lambda>a b. ?k a < ?k b) x ps)"
      "clocks s4 = clocks ?s3" "requests s4 = requests ?s3"
      using request_insert_rep [OF rep3 _ _ len, of x] s2 stop by auto
    have srt: "sorted (map ?k ps)" using rep3 by (simp add: clock_rep_def)
    obtain as bs where ab: "ps = as @ bs" "insert_before (\<lambda>a b. ?k a < ?k b) x ps = as @ x # bs"
      "\<forall>a\<in>set as. ?k a \<le> ?k x" "\<forall>b\<in>set bs. ?k x < ?k b"
      using insert_before_around [of "\<lambda>a b. ?k a < ?k b" ?k ps x, OF refl srt] by blast
    define s' where "s' = (if is_active (clocks s p) then mmal_clock_wake_thread p s4 else s4)"
    have adj: "s64 (mtime - drop_bit 16 (s32 (scale (clocks s2 p) * CLOCK_TARGET_OFFSET))) = adjusted_time (clocks s p) mtime"
      using s2(4) by (simp add: adjusted_time_def)
    have "mmal_clock_request_add p mtime cb cb_data priv_fn s = Some (MMAL_SUCCESS, s')"
      using lf sched th s2(1,4) s4(1,3) adj
      by (simp add: mmal_clock_request_add_def mmal_clock_media_time_get_locked_def Let_def s'_def)
    moreover have "clock_rep p s' fs' (as @ x # bs)"
      using s4(2) ab(2) by (simp add: s'_def) (subst clock_rep_cong [of _ s4]; simp)
    moreover have "requests s' = requests ?s3" "scale (clocks s' p) = scale (clocks ?s3 p)"
      using s4(3,4) by (simp_all add: s'_def)
    moreover from this have "request_key (clocks s' p) (requests s') = ?k"
      by (simp add: request_key_def fun_eq_iff)
    moreover have "event (clocks s' p) = event (clocks s p) + (if is_active (clocks s p) then 1 else 0)"
      using s4(3) s2(4) sched by (simp add: s'_def)
    ultimately have "clock_rep p s' fs' (as @ x # bs)" "requests s' x = ?r"
      "let k = request_key (clocks s' p) (requests s') in (\<forall>a\<in>set as. k a \<le> k x) \<and> (\<forall>b\<in>set bs. k x < k b)"
      "event (clocks s' p) = event (clocks s p) + (if is_active (clocks s p) then 1 else 0)"
      "mmal_clock_request_add p mtime cb cb_data priv_fn s = Some (MMAL_SUCCESS, s')"
      using ab(3,4) by (simp_all add: Let_def)
    with ab(1) Cons show ?thesis
      by (intro exI [of _ MMAL_SUCCESS] exI [of _ s']) (simp, blast)
  qed
qed

theorem mmal_clock_request_add_queues_witness:
  "\<exists>s'. mmal_clock_request_add 1 4000 (Some 3) None None demo_clock = Some (MMAL_SUCCESS, s') \<and>
     (clock_rep 1 s' [] [8, 7] \<or> clock_rep 1 s' [] [7, 8]) \<and> event (clocks s' 1) = 1"
  using mmal_clock_request_add_queues [OF demo_clock_rep, of 4000 "Some 3" None None]
  by (auto simp: zero_clock_def Cons_eq_append_conv)

section \<open>Serving requests\<close>

lemma request_due_mono:
  assumes "request_key c rq x \<le> request_key c rq y" "\<not> request_due c now (req_media_time_adj (rq x))"
    and "discont_expiry c = 0"
  shows "\<not> request_due c now (req_media_time_adj (rq y))"
  using assms by (auto simp: request_due_def request_key_def split: if_splits)

text \<open>Outside a discontinuity, one step of the loop serves the request or arms the timer.\<close>

lemma serve_loop_due:
  fixes p s defines "s1 \<equiv> mmal_clock_update_local_time_locked p s"
  assumes "discont_expiry (clocks s p) = 0"
    and "request_due (clocks s1 p) (media_time (clocks s1 p)) (req_media_time_adj (requests s x))"
  shows "serve_loop p lp lf (Some x) s =
     (let (nxt, s) = mmal_list_pop_front lp (mmal_list_push_back lf x (invoke_cb x (media_time (clocks s1 p)) s1))
      in serve_loop p lp lf nxt s)"
  using assms(2,3) unfolding s1_def
  by (subst serve_loop.simps) (simp add: mmal_clock_media_time_get_locked_def Let_def)

lemma serve_loop_wait:
  fixes p s defines "s1 \<equiv> mmal_clock_update_local_time_locked p s"
  assumes "discont_expiry (clocks s p) = 0"
    and "\<not> request_due (clocks s1 p) (media_time (clocks s1 p)) (req_media_time_adj (requests s x))"
  shows "serve_loop p lp lf (Some x) s =
     (let now = media_time (clocks s1 p);
          delay = request_delay (clocks s1 p) now (req_media_time_adj (requests s x))
      in Some (mmal_clock_timer_set p delay
                 (upd_clock p (\<lambda>c. c\<lparr>media_time_at_timer := now\<rparr>) (mmal_list_push_front lp x s1))))"
  using assms(2,3) unfolding s1_def
  by (subst serve_loop.simps) (simp add: mmal_clock_media_time_get_locked_def Let_def)

text \<open>What serving does to the requests \<open>xs\<close>: a prefix is served, and nothing left is due.\<close>

definition served :: "addr \<Rightarrow> addr list \<Rightarrow> addr list \<Rightarrow> 'a clock_store_scheme \<Rightarrow> 'a clock_store_scheme \<Rightarrow> bool" where
  "served p fs xs s s' \<longleftrightarrow>
     (\<exists>n ts. n \<le> length xs \<and> length ts = n \<and> clock_rep p s' (fs @ take n xs) (drop n xs) \<and>
        fired s' = fired s @ map2 (invocation_of (requests s)) ts (take n xs) \<and> requests s' = requests s \<and>
        (\<forall>y\<in>set (drop n xs). \<not> request_due (clocks s' p) (media_time (clocks s' p)) (req_media_time_adj (requests s y))) \<and>
        (n < length xs \<longrightarrow> timer (clocks s' p) \<noteq> None))"

lemma serve_loop_wait_served:
  fixes p s defines "s1 \<equiv> mmal_clock_update_local_time_locked p s"
  assumes two: "two_lists lf lp s fs ps" and x: "x \<notin> set fs \<union> set ps" and ex: "discont_expiry (clocks s p) = 0"
    and srt: "sorted (map (request_key (clocks s p) (requests s)) (x # ps))"
    and len: "length (fs @ x # ps) \<le> CLOCK_REQUEST_SLOTS"
    and l: "list_free (clocks s p) = Some lf" "list_pending (clocks s p) = Some lp"
    and nd: "\<not> request_due (clocks s1 p) (media_time (clocks s1 p)) (req_media_time_adj (requests s x))"
  shows "\<exists>s'. serve_loop p lp lf (Some x) s = Some s' \<and> served p fs (x # ps) s s'"
proof -
  let ?now = "media_time (clocks s1 p)"
  let ?s2 = "mmal_list_push_front lp x s1"
  obtain delay s' where s': "serve_loop p lp lf (Some x) s = Some s'"
    "s' = mmal_clock_timer_set p delay (upd_clock p (\<lambda>c. c\<lparr>media_time_at_timer := ?now\<rparr>) ?s2)"
    using serve_loop_wait [OF ex nd [unfolded s1_def]] unfolding s1_def by (simp add: Let_def)
  have "two_lists lp lf s1 ps fs" using two by (subst two_lists_cong [of _ s]) (simp_all add: s1_def two_lists_sym)
  then have "two_lists lp lf ?s2 (x # ps) fs" using x by (intro two_lists_push_front) auto
  then have two': "two_lists lf lp s' fs (x # ps)"
    by (subst two_lists_cong [of _ ?s2]) (simp_all add: s'(2) mmal_clock_timer_set_def two_lists_sym)
  have c': "scale (clocks s' p) = scale (clocks s p)" "media_time (clocks s' p) = ?now" "requests s' = requests s"
    "fired s' = fired s" "discont_expiry (clocks s' p) = 0" "list_free (clocks s' p) = Some lf"
    "list_pending (clocks s' p) = Some lp" "timer (clocks s' p) \<noteq> None"
    using ex l by (simp_all add: s'(2) s1_def mmal_clock_timer_set_def)
  then have key: "request_key (clocks s' p) (requests s') = request_key (clocks s p) (requests s)"
    by (simp add: request_key_def fun_eq_iff)
  have due: "request_due (clocks s' p) t a = request_due (clocks s1 p) t a" for t a
    using c' ex by (simp add: request_due_def s1_def)
  have "\<not> request_due (clocks s' p) ?now (req_media_time_adj (requests s y))" if "y \<in> set (x # ps)" for y
  proof (rule request_due_mono [of _ "requests s" x])
    show "request_key (clocks s' p) (requests s) x \<le> request_key (clocks s' p) (requests s) y"
      using srt that key c'(3) by auto
  qed (use nd due c' in auto)
  moreover have "clock_rep p s' fs (x # ps)" unfolding clock_rep_def key using two' srt len c' by auto
  ultimately show ?thesis using s'(1) c' unfolding served_def
    by (intro exI [of _ s'] conjI exI [of _ 0] exI [of _ "[]"]) auto
qed

lemma serve_loop_served:
  assumes "two_lists lf lp s fs ps" "x \<notin> set fs \<union> set ps" "discont_expiry (clocks s p) = 0"
    and "sorted (map (request_key (clocks s p) (requests s)) (x # ps))"
    and "length (fs @ x # ps) \<le> CLOCK_REQUEST_SLOTS"
    and "list_free (clocks s p) = Some lf" "list_pending (clocks s p) = Some lp"
  shows "\<exists>s'. serve_loop p lp lf (Some x) s = Some s' \<and> served p fs (x # ps) s s'"
  using assms
proof (induction ps arbitrary: s fs x)
  case Nil
  let ?s1 = "mmal_clock_update_local_time_locked p s"
  let ?now = "media_time (clocks ?s1 p)"
  show ?case
  proof (cases "request_due (clocks ?s1 p) ?now (req_media_time_adj (requests s x))")
    case True
    let ?s2 = "invoke_cb x ?now ?s1"
    let ?s3 = "mmal_list_push_back lf x ?s2"
    have "two_lists lf lp ?s2 fs []" using Nil.prems(1) by (subst two_lists_cong [of _ s]) simp_all
    then have two: "two_lists lf lp ?s3 (fs @ [x]) []" using Nil.prems(2) by (intro two_lists_push_back) auto
    then have "mmal_list_pop_front lp ?s3 = (None, ?s3)" using two_lists_pop_Nil two_lists_sym by metis
    then have "serve_loop p lp lf (Some x) s = Some ?s3"
      using serve_loop_due [OF Nil.prems(3) True] by (simp add: serve_loop.simps)
    moreover have "clock_rep p ?s3 (fs @ [x]) []" using two Nil.prems by (auto simp: clock_rep_def)
    ultimately show ?thesis unfolding served_def
      by (intro exI [of _ ?s3] conjI exI [of _ 1] exI [of _ "[?now]"]) auto
  next
    case False
    with Nil.prems show ?thesis by (intro serve_loop_wait_served)
  qed
next
  case (Cons y ps)
  let ?s1 = "mmal_clock_update_local_time_locked p s"
  let ?now = "media_time (clocks ?s1 p)"
  show ?case
  proof (cases "request_due (clocks ?s1 p) ?now (req_media_time_adj (requests s x))")
    case True
    let ?s2 = "invoke_cb x ?now ?s1"
    let ?s3 = "mmal_list_push_back lf x ?s2"
    have "two_lists lf lp ?s2 fs (y # ps)" using Cons.prems(1) by (subst two_lists_cong [of _ s]) simp_all
    then have "two_lists lf lp ?s3 (fs @ [x]) (y # ps)" using Cons.prems(2) by (intro two_lists_push_back) auto
    then obtain s4 where s4: "mmal_list_pop_front lp ?s3 = (Some y, s4)" "two_lists lf lp s4 (fs @ [x]) ps"
      "y \<notin> set (fs @ [x]) \<union> set ps"
      using two_lists_pop [of lp lf ?s3 y ps "fs @ [x]"] by (auto simp: two_lists_sym [of lf lp])
    have f4: "clocks s4 = clocks ?s1" "requests s4 = requests s" "fired s4 = fired s @ [invocation_of (requests s) ?now x]"
      using pop_clock_sel [OF s4(1)] by simp_all
    have step: "serve_loop p lp lf (Some x) s = serve_loop p lp lf (Some y) s4"
      using serve_loop_due [OF Cons.prems(3) True] s4(1) by simp
    have key: "request_key (clocks s4 p) (requests s4) = request_key (clocks s p) (requests s)"
      using f4 by (simp add: request_key_def fun_eq_iff)
    obtain s' where s': "serve_loop p lp lf (Some y) s4 = Some s'" "served p (fs @ [x]) (y # ps) s4 s'"
      using Cons.IH [OF s4(2,3)] Cons.prems f4 by (auto simp: key)
    then obtain n ts where "n \<le> length (y # ps)" "length ts = n"
      "clock_rep p s' ((fs @ [x]) @ take n (y # ps)) (drop n (y # ps))"
      "fired s' = fired s4 @ map2 (invocation_of (requests s4)) ts (take n (y # ps))" "requests s' = requests s4"
      "\<forall>z\<in>set (drop n (y # ps)). \<not> request_due (clocks s' p) (media_time (clocks s' p)) (req_media_time_adj (requests s4 z))"
      "n < length (y # ps) \<longrightarrow> timer (clocks s' p) \<noteq> None"
      unfolding served_def by blast
    then have "served p fs (x # y # ps) s s'" unfolding served_def
      using f4 by (intro exI [of _ "Suc n"] exI [of _ "?now # ts"]) auto
    with s'(1) step show ?thesis by auto
  next
    case False
    with Cons.prems show ?thesis by (intro serve_loop_wait_served)
  qed
qed

lemma detect_discontinuity_cases:
  assumes two: "two_lists lf lp s fs ps" and l: "list_free (clocks s p) = Some lf" "list_pending (clocks s p) = Some lp"
    and ex: "discont_expiry (clocks s p) = 0"
  shows "\<exists>s1. detect_discontinuity p s = Some s1 \<and> list_free (clocks s1 p) = Some lf \<and>
      list_pending (clocks s1 p) = Some lp \<and>
     (two_lists lf lp s1 (fs @ ps) [] \<and> (\<exists>now. fired s1 = fired s @ map (invocation_of (requests s) now) ps) \<or>
      two_lists lf lp s1 fs ps \<and> request_key (clocks s1 p) (requests s1) = request_key (clocks s p) (requests s) \<and>
      discont_expiry (clocks s1 p) = 0 \<and> requests s1 = requests s \<and> fired s1 = fired s)"
proof (cases "media_time_at_timer (clocks s p) = 0")
  case True
  with assms show ?thesis by (auto simp: detect_discontinuity_def)
next
  case False
  let ?s1 = "mmal_clock_update_local_time_locked p s"
  let ?c = "clocks ?s1 p"
  have two1: "two_lists lf lp ?s1 fs ps" using two by (subst two_lists_cong [of _ s]) simp_all
  show ?thesis
  proof (cases "0 < scale ?c \<and> s64 (media_time ?c + discont_threshold ?c) < media_time_at_timer ?c")
    case True
    let ?s2 = "upd_clock p (\<lambda>c. c\<lparr>discont_start := media_time_at_timer c,
       discont_end := s64 (media_time_at_timer c + discont_duration c),
       discont_expiry := s64 (wall_time c + discont_duration c)\<rparr>) ?s1"
    have "two_lists lf lp ?s2 fs ps" using two1 by (subst two_lists_cong [of _ ?s1]) simp_all
    then obtain s3 where s3: "flush_loop lp lf (media_time ?c) ?s2 = Some s3" "two_lists lf lp s3 (fs @ ps) []"
      "fired s3 = fired ?s2 @ map (invocation_of (requests ?s2) (media_time ?c)) ps" "clocks s3 = clocks ?s2"
      using flush_loop_all by blast
    let ?s4 = "upd_clock p (\<lambda>c. c\<lparr>media_time_at_timer := 0\<rparr>) s3"
    have "detect_discontinuity p s = Some ?s4"
      using False True s3(1) l
      by (simp add: detect_discontinuity_def mmal_clock_media_time_get_locked_def Let_def
          mmal_clock_request_flush_locked_def)
    moreover have "two_lists lf lp ?s4 (fs @ ps) []" using s3(2) by (subst two_lists_cong [of _ s3]) simp_all
    ultimately show ?thesis using s3(3,4) l by auto
  next
    case noflush: False
    have "detect_discontinuity p s = Some ?s1"
      using False noflush by (auto simp: detect_discontinuity_def mmal_clock_media_time_get_locked_def Let_def)
    with two1 l ex show ?thesis by auto
  qed
qed

text \<open>
  C8: on a clock that runs and is not within a discontinuity that was noticed before (\<open>discont_expiry = 0\<close>), one round of serving calls a
  prefix of the pending requests, in the order in which they are due, and
  moves their slots to the free list; when it ends, no request that is left is due, and the
  timer is set if one is left.  It always returns.  (While a discontinuity lasts, the requests in its
  window of media times are due too, although their time has not come, and one of them can be left behind one that is not due.)
\<close>

theorem mmal_clock_process_requests_serves_due:
  assumes rep: "clock_rep p s fs ps" and ex: "discont_expiry (clocks s p) = 0" and act: "is_active (clocks s p)"
  shows "\<exists>s'. mmal_clock_process_requests p s = Some s' \<and> (ps = [] \<longrightarrow> s' = s) \<and>
    (\<exists>n ts. n \<le> length ps \<and> length ts = n \<and> clock_rep p s' (fs @ take n ps) (drop n ps) \<and>
       fired s' = fired s @ map2 (invocation_of (requests s)) ts (take n ps) \<and>
       (\<forall>y\<in>set (drop n ps). \<not> request_due (clocks s' p) (media_time (clocks s' p)) (req_media_time_adj (requests s y))) \<and>
       (n < length ps \<longrightarrow> timer (clocks s' p) \<noteq> None))"
proof -
  obtain lf lp where l: "list_free (clocks s p) = Some lf" "list_pending (clocks s p) = Some lp"
    and two: "two_lists lf lp s fs ps" and len: "length fs + length ps \<le> CLOCK_REQUEST_SLOTS"
    and srt: "sorted (map (request_key (clocks s p) (requests s)) ps)"
    using rep by (auto simp: clock_rep_def)
  have empty: "l_length (lists s lp) = 0 \<longleftrightarrow> ps = []" using clock_rep_length_pending [OF rep l(2)] .
  show ?thesis
  proof (cases ps)
    case Nil
    then have "mmal_clock_process_requests p s = Some s"
      using l empty by (simp add: mmal_clock_process_requests_def)
    with Nil rep show ?thesis by auto
  next
    case (Cons x xs)
    consider (flush) s1 where "detect_discontinuity p s = Some s1" "two_lists lf lp s1 (fs @ ps) []"
        "list_free (clocks s1 p) = Some lf" "list_pending (clocks s1 p) = Some lp"
        "\<exists>now. fired s1 = fired s @ map (invocation_of (requests s) now) ps"
      | (none) s1 where "detect_discontinuity p s = Some s1" "two_lists lf lp s1 fs ps"
        "request_key (clocks s1 p) (requests s1) = request_key (clocks s p) (requests s)"
        "list_free (clocks s1 p) = Some lf" "list_pending (clocks s1 p) = Some lp" "discont_expiry (clocks s1 p) = 0"
        "requests s1 = requests s" "fired s1 = fired s"
      using detect_discontinuity_cases [OF two l ex] by blast
    then show ?thesis
    proof cases
      case (flush s1)
      obtain now where f: "fired s1 = fired s @ map (invocation_of (requests s) now) ps" using flush(5) by blast
      have "mmal_list_pop_front lp s1 = (None, s1)" using flush(2) two_lists_pop_Nil two_lists_sym by metis
      then have "mmal_clock_process_requests p s = Some s1"
        using l empty Cons act flush(1) by (simp add: mmal_clock_process_requests_def serve_loop.simps)
      moreover have "clock_rep p s1 (fs @ ps) []" using flush len by (auto simp: clock_rep_def)
      moreover have "map (invocation_of (requests s) now) ps =
          map2 (invocation_of (requests s)) (replicate (length ps) now) ps"
        by (induction ps) auto
      ultimately show ?thesis using f Cons
        by (intro exI [of _ s1] conjI exI [of _ "length ps"] exI [of _ "replicate (length ps) now"]) auto
    next
      case (none s1)
      obtain s2 where s2: "mmal_list_pop_front lp s1 = (Some x, s2)" "two_lists lf lp s2 fs xs" "x \<notin> set fs \<union> set xs"
        using two_lists_pop [of lp lf s1 x xs fs] none(2) Cons by (auto simp: two_lists_sym [of lf lp])
      note f2 = pop_clock_sel [OF s2(1)]
      obtain s' where s': "serve_loop p lp lf (Some x) s2 = Some s'" "served p fs (x # xs) s2 s'"
        using serve_loop_served [OF s2(2,3), of p] none f2 srt len Cons by auto
      have "mmal_clock_process_requests p s = Some s'"
        using l empty Cons act none(1) s2(1) s'(1) by (simp add: mmal_clock_process_requests_def)
      with s'(2) show ?thesis unfolding served_def using f2 none(7,8) Cons by auto
    qed
  qed
qed

theorem mmal_clock_process_requests_serves_due_witness:
  "\<exists>s'. mmal_clock_process_requests 1 demo_clock = Some s' \<and> (length (fired s') = 1 \<or> timer (clocks s' 1) \<noteq> None)"
  using mmal_clock_process_requests_serves_due [OF demo_clock_rep]
  by (auto simp: zero_clock_def le_Suc_eq)

section \<open>Following a reference\<close>

text \<open>
  A difference above the upper threshold makes the media time equal to the reference; otherwise
  the media time changes by the moving average only, when that exceeds the lower threshold.
\<close>

lemma mmal_clock_media_time_set_cases:
  fixes p s mtime
  defines "c \<equiv> clocks (mmal_clock_update_local_time_locked p s) p"
  defines "diff \<equiv> s64 (media_time c - mtime)"
    and "avg \<equiv> drop_bit 6 (s64 (s64 (s64 (push_bit 6 (average_ref_diff c)) - average_ref_diff c) + s64 (media_time c - mtime)))"
  assumes act: "is_active (clocks s p)" "scale (clocks s p) \<noteq> 0"
    and th: "is_s64 (update_threshold_upper c)" "0 \<le> update_threshold_upper c"
      "is_s64 (update_threshold_lower c)" "0 \<le> update_threshold_lower c"
  shows "\<exists>s'. mmal_clock_media_time_set p mtime s = (MMAL_SUCCESS, s') \<and>
     (media_time (clocks s' p), average_ref_diff (clocks s' p)) =
       (if update_threshold_upper c < \<bar>diff\<bar> then (mtime, 0)
        else if update_threshold_lower c < \<bar>avg\<bar> then (s64 (media_time c - avg), 0)
        else (media_time c, avg))"
proof -
  have neg: "s64 (- update_threshold_upper c) = - update_threshold_upper c"
    "s64 (- update_threshold_lower c) = - update_threshold_lower c"
    using th by (auto intro!: s64_id simp: is_s64_def)
  show ?thesis
    using act neg unfolding diff_def avg_def c_def
    by (simp add: mmal_clock_media_time_set_def mmal_clock_is_paused_def Let_def abs_less_iff
        split: if_split) linarith?
qed

section \<open>Failing to create the scheduling resources\<close>

lemma push_back_os_sel [simp]:
  "live (mmal_list_push_back l e s) = live s" "mallocs (mmal_list_push_back l e s) = mallocs s"
  "creates (mmal_list_push_back l e s) = creates s" "sync (mmal_list_push_back l e s) = sync s"
  "clock_readings (mmal_list_push_back l e s) = clock_readings s"
  by (simp_all add: mmal_list_push_back_def Let_def upd_list_def upd_elem_def split: option.split)

lemma populate_sel [simp]:
  "live (fold (\<lambda>i. mmal_list_push_back l (f i)) is s) = live s"
  "mallocs (fold (\<lambda>i. mmal_list_push_back l (f i)) is s) = mallocs s"
  "creates (fold (\<lambda>i. mmal_list_push_back l (f i)) is s) = creates s"
  "sync (fold (\<lambda>i. mmal_list_push_back l (f i)) is s) = sync s"
  "clock_readings (fold (\<lambda>i. mmal_list_push_back l (f i)) is s) = clock_readings s"
  "clocks (fold (\<lambda>i. mmal_list_push_back l (f i)) is u) = clocks u"
  by (induction "is" arbitrary: s u) simp_all

text \<open>A clock at address 1000 on which the first creation of the thread and the second of the timer fail.\<close>

definition retry_store :: clock_store where
  "retry_store = \<lparr>mallocs = [Some 500, Some 600, Some 500],
     creates = [True, True, True, True, False, False], clock_readings = [0], live = [], sync = [],
     elements = (\<lambda>_. \<lparr>e_next = None, e_prev = None\<rparr>), lists = (\<lambda>_. \<lparr>l_length = 0, l_first = None, l_last = None\<rparr>),
     clocks = (\<lambda>_. zero_clock), requests = (\<lambda>_. \<lparr>req_priv = None, req_cb = None, req_cb_data = None,
       req_media_time = 0, req_media_time_adj = 0\<rparr>), fired = []\<rparr>"

text \<open>
  When the creation of the scheduling resources fails, the clock keeps pointers to the lists
  that it destroyed, and a second failure destroys them again.  The block at 500, which another
  part of the program was given in between, is freed by the second request.
\<close>

theorem mmal_clock_request_add_double_free:
  "\<exists>s1 s2 s3. mmal_clock_request_add 1000 0 None None None retry_store = Some (MMAL_ENOSPC, s1) \<and>
     live s1 = [] \<and> list_free (clocks s1 1000) = Some 500 \<and>
     vcos_malloc 64 s1 = (Some 500, s2) \<and> live s2 = [(500, 64)] \<and>
     mmal_clock_request_add 1000 0 None None None s2 = Some (MMAL_ENOSPC, s3) \<and> live s3 = []"
  by (simp add: mmal_clock_request_add_def mmal_clock_media_time_get_locked_def retry_store_def zero_clock_def
      mmal_clock_update_local_time_locked_def vcos_getmicrosecs_eq Let_def mmal_clock_create_scheduling_def
      mmal_clock_timer_create_def vcos_create_def mmal_list_create_def vcos_malloc_def delete_lists_def
      mmal_list_destroy_def vcos_free_def vcos_delete_def mmal_clock_timer_destroy_def upd_clock_def upd_list_def)

end
