(* ===== verification/Blockpool.thy ===== *)
theory Blockpool
  imports Vcos
begin

text \<open>
  The fixed size block allocator, \<^verbatim>\<open>vcos/generic/vcos_generic_blockpool.c\<close> and its header.

  A pool has up to eight subpools.  A subpool is an array of blocks, each preceded by a word that
  is either the link of the free list or a pointer to the subpool (a union in C; the datatype
  \<open>block_owner\<close> here, where the pointer to subpool \<open>i\<close> of the pool is \<open>Owned i\<close>).  \<open>owners\<close> holds these
  words by address.  An operation that takes a block reads the pool from it; in the model the pool is an
  argument.  \<open>None\<close> as result of an operation is a failed \<open>vcos_demand\<close>, which aborts the program; the checks
  written with \<open>vcos_assert\<close> are not compiled into a release build and not modelled.
\<close>

section \<open>Data\<close>

definition VCOS_BLOCKPOOL_SUBPOOL_BITS :: nat where "VCOS_BLOCKPOOL_SUBPOOL_BITS = 3"
definition VCOS_BLOCKPOOL_MAX_SUBPOOLS :: nat where "VCOS_BLOCKPOOL_MAX_SUBPOOLS = 8"
definition INDEX_OFFSET :: u32 where "INDEX_OFFSET = 1"
definition VCOS_BLOCKPOOL_ALIGN_DEFAULT :: u32 where "VCOS_BLOCKPOOL_ALIGN_DEFAULT = 4"
definition VCOS_BLOCKPOOL_INVALID_HANDLE :: u32 where "VCOS_BLOCKPOOL_INVALID_HANDLE = 0"
definition VCOS_BLOCKPOOL_SUBPOOL_FLAG_OWNS_MEM :: u32 where "VCOS_BLOCKPOOL_SUBPOOL_FLAG_OWNS_MEM = 1"
definition VCOS_BLOCKPOOL_SUBPOOL_FLAG_EXTENSION :: u32 where "VCOS_BLOCKPOOL_SUBPOOL_FLAG_EXTENSION = 2"

definition VCOS_BLOCKPOOL_HANDLE_GET_INDEX :: "u32 \<Rightarrow> u32" where
  "VCOS_BLOCKPOOL_HANDLE_GET_INDEX h = drop_bit VCOS_BLOCKPOOL_SUBPOOL_BITS h - INDEX_OFFSET"

definition VCOS_BLOCKPOOL_HANDLE_GET_SUBPOOL :: "u32 \<Rightarrow> u32" where
  "VCOS_BLOCKPOOL_HANDLE_GET_SUBPOOL h = h AND (push_bit VCOS_BLOCKPOOL_SUBPOOL_BITS 1 - 1)"

definition VCOS_BLOCKPOOL_HANDLE_CREATE :: "u32 \<Rightarrow> u32 \<Rightarrow> u32" where
  "VCOS_BLOCKPOOL_HANDLE_CREATE i s = push_bit VCOS_BLOCKPOOL_SUBPOOL_BITS (i + INDEX_OFFSET) OR s"

definition VCOS_BLOCKPOOL_IS_VALID_HANDLE_FORMAT :: "u32 \<Rightarrow> u32 \<Rightarrow> bool" where
  "VCOS_BLOCKPOOL_IS_VALID_HANDLE_FORMAT handle max_blocks \<longleftrightarrow>
     handle \<noteq> VCOS_BLOCKPOOL_INVALID_HANDLE \<and> VCOS_BLOCKPOOL_HANDLE_GET_INDEX handle < max_blocks"

definition sizeof_VCOS_BLOCKPOOL_HEADER_T :: u32 where "sizeof_VCOS_BLOCKPOOL_HEADER_T = 4"

definition VCOS_BLOCKPOOL_ROUND_UP :: "u32 \<Rightarrow> u32 \<Rightarrow> u32" where
  "VCOS_BLOCKPOOL_ROUND_UP x s = (x + (s - 1)) AND NOT (s - 1)"

definition block_stride :: "u32 \<Rightarrow> u32 \<Rightarrow> u32" where
  "block_stride block_size align =
     VCOS_BLOCKPOOL_ROUND_UP (block_size + (if 4096 \<le> align then 32 else 0) + sizeof_VCOS_BLOCKPOOL_HEADER_T) align"

definition VCOS_BLOCKPOOL_SIZE :: "u32 \<Rightarrow> u32 \<Rightarrow> u32 \<Rightarrow> u32" where
  "VCOS_BLOCKPOOL_SIZE num_blocks block_size align = block_stride block_size align * num_blocks + align"

datatype block_owner = Next "addr option" | Owned nat

record subpool =
  sp_magic :: bool
  sp_free_list :: "addr option"
  sp_mem :: "addr option"
  sp_start :: "addr option"
  sp_end :: addr
  sp_num_blocks :: u32
  sp_available_blocks :: u32
  sp_flags :: u32

record blockpool =
  bp_magic :: bool
  bp_align :: u32
  bp_block_data_size :: u32
  bp_block_size :: u32
  bp_num_subpools :: nat
  bp_num_extension_blocks :: u32
  bp_subpools :: "nat \<Rightarrow> subpool"
  bp_addr :: addr

record bp_store = os_store +
  owners :: "addr \<Rightarrow> block_owner"

definition zero_subpool :: subpool where
  "zero_subpool = \<lparr>sp_magic = False, sp_free_list = None, sp_mem = None, sp_start = None, sp_end = 0,
     sp_num_blocks = 0, sp_available_blocks = 0, sp_flags = 0\<rparr>"

definition upd_subpool :: "nat \<Rightarrow> (subpool \<Rightarrow> subpool) \<Rightarrow> blockpool \<Rightarrow> blockpool" where
  "upd_subpool i f p = p\<lparr>bp_subpools := (bp_subpools p)(i := f (bp_subpools p i))\<rparr>"

text \<open>\<open>ASSERT_SUBPOOL\<close>; null is address 0.  The owner of a subpool that was set up is its pool.\<close>

definition ptr_val :: "addr option \<Rightarrow> addr" where
  "ptr_val p = (case p of None \<Rightarrow> 0 | Some a \<Rightarrow> a)"

definition ASSERT_SUBPOOL :: "subpool \<Rightarrow> bool" where
  "ASSERT_SUBPOOL sp \<longleftrightarrow> sp_magic sp \<and> ptr_val (sp_mem sp) \<le> ptr_val (sp_start sp)"

definition set_owner :: "addr \<Rightarrow> block_owner \<Rightarrow> 'a bp_store_scheme \<Rightarrow> 'a bp_store_scheme" where
  "set_owner h v s = s\<lparr>owners := (owners s)(h := v)\<rparr>"

section \<open>Building a subpool\<close>

text \<open>The first header: the block behind it is aligned.  Addresses are 32-bit here.\<close>

definition first_header :: "addr \<Rightarrow> u32 \<Rightarrow> addr" where
  "first_header mem align =
     unat (VCOS_BLOCKPOOL_ROUND_UP (word_of_nat mem + sizeof_VCOS_BLOCKPOOL_HEADER_T) align)
     - unat sizeof_VCOS_BLOCKPOOL_HEADER_T"

text \<open>\<open>while (block < end)\<close>, run \<open>n\<close> times.\<close>

fun chain_blocks :: "nat \<Rightarrow> addr \<Rightarrow> nat \<Rightarrow> addr option \<Rightarrow> 'a bp_store_scheme \<Rightarrow> addr option \<times> 'a bp_store_scheme" where
  "chain_blocks 0 block stride free s = (free, s)"
| "chain_blocks (Suc n) block stride free s =
     chain_blocks n (block + stride) stride (Some block) (set_owner block (Next free) s)"

definition vcos_generic_blockpool_subpool_init ::
  "blockpool \<Rightarrow> nat \<Rightarrow> addr \<Rightarrow> u32 \<Rightarrow> 'a bp_store_scheme \<Rightarrow> blockpool \<times> 'a bp_store_scheme" where
  "vcos_generic_blockpool_subpool_init p i mem num_blocks s =
     (let start = first_header mem (bp_align p);
          len = unat (bp_block_size p * num_blocks);
          stride = unat (bp_block_size p);
          (free, s) = chain_blocks ((len + stride - 1) div stride) start stride None s
      in (upd_subpool i (\<lambda>sp. sp\<lparr>sp_magic := True, sp_mem := Some mem, sp_start := Some start,
            sp_end := start + len, sp_num_blocks := num_blocks, sp_available_blocks := num_blocks,
            sp_free_list := free\<rparr>) p, s))"

section \<open>Operations\<close>

definition vcos_generic_blockpool_init ::
  "blockpool \<Rightarrow> u32 \<Rightarrow> u32 \<Rightarrow> addr \<Rightarrow> u32 \<Rightarrow> u32 \<Rightarrow> 'a bp_store_scheme \<Rightarrow>
   vcos_status \<times> blockpool \<times> 'a bp_store_scheme" where
  "vcos_generic_blockpool_init p num_blocks block_size start pool_size align s =
     (let align = (if align = 0 then VCOS_BLOCKPOOL_ALIGN_DEFAULT else align) in
      if align AND 3 \<noteq> 0 then (VCOS_EINVAL, p, s)
      else if pool_size < VCOS_BLOCKPOOL_SIZE num_blocks block_size align then (VCOS_ENOMEM, p, s)
      else case vcos_create (Mutex (bp_addr p)) s of
        (False, s) \<Rightarrow> (VCOS_ENOSPC, p, s)
      | (True, s) \<Rightarrow>
          let p = p\<lparr>bp_block_data_size := block_size, bp_block_size := block_stride block_size align,
                    bp_magic := True, bp_num_subpools := 1, bp_num_extension_blocks := 0, bp_align := align,
                    bp_subpools := (\<lambda>_. zero_subpool)\<rparr>;
              (p, s) = vcos_generic_blockpool_subpool_init p 0 start num_blocks s
          in (VCOS_SUCCESS, p, s))"

text \<open>
  On failure the memory goes to \<open>free\<close>, not to \<open>vcos_free\<close>; the pointer it should be given is the one
  in the header of the block, so the block stays allocated.
\<close>

definition vcos_generic_blockpool_create_on_heap ::
  "blockpool \<Rightarrow> u32 \<Rightarrow> u32 \<Rightarrow> u32 \<Rightarrow> 'a bp_store_scheme \<Rightarrow> vcos_status \<times> blockpool \<times> 'a bp_store_scheme" where
  "vcos_generic_blockpool_create_on_heap p num_blocks block_size align s =
     (let sz = VCOS_BLOCKPOOL_SIZE num_blocks block_size align in
      case vcos_malloc sz s of
        (None, s) \<Rightarrow> (VCOS_ENOMEM, p, s)
      | (Some mem, s) \<Rightarrow>
          let (status, p, s) = vcos_generic_blockpool_init p num_blocks block_size mem sz align s in
          if status \<noteq> VCOS_SUCCESS then (status, p, s)
          else (status, upd_subpool 0 (\<lambda>sp. sp\<lparr>sp_flags := sp_flags sp OR VCOS_BLOCKPOOL_SUBPOOL_FLAG_OWNS_MEM\<rparr>) p, s))"

definition vcos_generic_blockpool_extend :: "blockpool \<Rightarrow> nat \<Rightarrow> u32 \<Rightarrow> vcos_status \<times> blockpool" where
  "vcos_generic_blockpool_extend p num_extensions num_blocks =
     (if 1 < bp_num_subpools p then (VCOS_EACCESS, p)
      else if num_extensions < 1 \<or> VCOS_BLOCKPOOL_MAX_SUBPOOLS - 1 < num_extensions then (VCOS_EINVAL, p)
      else if num_blocks < 1 then (VCOS_EINVAL, p)
      else
        let p = p\<lparr>bp_num_subpools := bp_num_subpools p + num_extensions, bp_num_extension_blocks := num_blocks\<rparr>
        in (VCOS_SUCCESS,
            fold (\<lambda>i. upd_subpool i (\<lambda>sp. sp\<lparr>sp_magic := True, sp_start := None, sp_mem := None\<rparr>))
              [1..<bp_num_subpools p] p))"

definition has_free :: "blockpool \<Rightarrow> nat \<Rightarrow> bool" where
  "has_free p i \<longleftrightarrow> sp_start (bp_subpools p i) \<noteq> None \<and> 0 < sp_available_blocks (bp_subpools p i)"

text \<open>The second loop of the allocation: a new subpool in the first place where memory is found.\<close>

fun grow_pool :: "nat list \<Rightarrow> blockpool \<Rightarrow> 'a bp_store_scheme \<Rightarrow> nat option \<times> blockpool \<times> 'a bp_store_scheme" where
  "grow_pool [] p s = (None, p, s)"
| "grow_pool (i # is) p s =
     (if sp_start (bp_subpools p i) = None then
        let sz = VCOS_BLOCKPOOL_SIZE (bp_num_extension_blocks p) (bp_block_data_size p) (bp_align p) in
        (case vcos_malloc sz s of
           (None, s) \<Rightarrow> grow_pool is p s
         | (Some mem, s) \<Rightarrow>
             let (p, s) = vcos_generic_blockpool_subpool_init p i mem (bp_num_extension_blocks p) s
             in (Some i, p, s))
      else grow_pool is p s)"

definition take_block ::
  "nat \<Rightarrow> blockpool \<Rightarrow> 'a bp_store_scheme \<Rightarrow> addr option \<times> blockpool \<times> 'a bp_store_scheme" where
  "take_block i p s =
     (case sp_free_list (bp_subpools p i) of
        None \<Rightarrow> (None, p, s)
      | Some nb \<Rightarrow>
          let nxt = (case owners s nb of Next n \<Rightarrow> n | Owned _ \<Rightarrow> None);
              s = set_owner nb (Owned i) s;
              p = upd_subpool i (\<lambda>sp. sp\<lparr>sp_free_list := nxt, sp_available_blocks := sp_available_blocks sp - 1\<rparr>) p
          in (Some (nb + unat sizeof_VCOS_BLOCKPOOL_HEADER_T), p, s))"

definition vcos_generic_blockpool_alloc ::
  "blockpool \<Rightarrow> 'a bp_store_scheme \<Rightarrow> (addr option \<times> blockpool \<times> 'a bp_store_scheme) option" where
  "vcos_generic_blockpool_alloc p s =
     (if \<not> bp_magic p then None
      else
        let (i, p, s) =
          (case find (has_free p) [0..<bp_num_subpools p] of
             Some i \<Rightarrow> (Some i, p, s)
           | None \<Rightarrow> grow_pool [1..<bp_num_subpools p] p s)
        in Some (case i of None \<Rightarrow> (None, p, s) | Some i \<Rightarrow> take_block i p s))"

text \<open>The contents of blocks are not modelled, so clearing one changes nothing.\<close>

definition vcos_generic_blockpool_calloc ::
  "blockpool \<Rightarrow> 'a bp_store_scheme \<Rightarrow> (addr option \<times> blockpool \<times> 'a bp_store_scheme) option" where
  "vcos_generic_blockpool_calloc p s = vcos_generic_blockpool_alloc p s"

definition vcos_generic_blockpool_free ::
  "addr option \<Rightarrow> blockpool \<Rightarrow> 'a bp_store_scheme \<Rightarrow> (blockpool \<times> 'a bp_store_scheme) option" where
  "vcos_generic_blockpool_free block p s =
     (case block of
        None \<Rightarrow> Some (p, s)
      | Some b \<Rightarrow>
          let hdr = b - unat sizeof_VCOS_BLOCKPOOL_HEADER_T in
          (case owners s hdr of
             Next _ \<Rightarrow> None
           | Owned i \<Rightarrow>
               if \<not> (ASSERT_SUBPOOL (bp_subpools p i) \<and> bp_magic p) then None
               else
                 let s = set_owner hdr (Next (sp_free_list (bp_subpools p i))) s;
                     p = upd_subpool i (\<lambda>sp. sp\<lparr>sp_free_list := Some hdr,
                           sp_available_blocks := sp_available_blocks sp + 1\<rparr>) p;
                     sp = bp_subpools p i
                 in if sp_flags sp AND VCOS_BLOCKPOOL_SUBPOOL_FLAG_EXTENSION \<noteq> 0 \<and>
                       sp_available_blocks sp = sp_num_blocks sp
                    then Some (upd_subpool i (\<lambda>sp. sp\<lparr>sp_mem := None, sp_start := None\<rparr>) p, vcos_free (sp_mem sp) s)
                    else Some (p, s)))"

definition vcos_generic_blockpool_available_count :: "blockpool \<Rightarrow> u32 option" where
  "vcos_generic_blockpool_available_count p =
     (if bp_magic p \<and> (\<forall>i<bp_num_subpools p. ASSERT_SUBPOOL (bp_subpools p i)) then
        Some (\<Sum>i\<leftarrow>[0..<bp_num_subpools p].
          if sp_start (bp_subpools p i) \<noteq> None then sp_available_blocks (bp_subpools p i)
          else bp_num_extension_blocks p)
      else None)"

definition vcos_generic_blockpool_used_count :: "blockpool \<Rightarrow> u32 option" where
  "vcos_generic_blockpool_used_count p =
     (if bp_magic p \<and> (\<forall>i<bp_num_subpools p. ASSERT_SUBPOOL (bp_subpools p i)) then
        Some (\<Sum>i\<leftarrow>[0..<bp_num_subpools p].
          if sp_start (bp_subpools p i) \<noteq> None
          then sp_num_blocks (bp_subpools p i) - sp_available_blocks (bp_subpools p i) else 0)
      else None)"

definition release_subpool :: "subpool \<Rightarrow> 'a bp_store_scheme \<Rightarrow> 'a bp_store_scheme" where
  "release_subpool sp s =
     (if sp_mem sp \<noteq> None \<and> sp_flags sp AND VCOS_BLOCKPOOL_SUBPOOL_FLAG_OWNS_MEM \<noteq> 0
      then vcos_free (sp_mem sp) s else s)"

definition vcos_generic_blockpool_delete :: "blockpool option \<Rightarrow> 'a bp_store_scheme \<Rightarrow> 'a bp_store_scheme option" where
  "vcos_generic_blockpool_delete pool s =
     (case pool of
        None \<Rightarrow> Some s
      | Some p \<Rightarrow>
          if bp_magic p \<and> (\<forall>i<bp_num_subpools p. ASSERT_SUBPOOL (bp_subpools p i)) then
            Some (vcos_delete (Mutex (bp_addr p))
              (fold (\<lambda>i. release_subpool (bp_subpools p i)) [0..<bp_num_subpools p] s))
          else None)"

definition vcos_generic_blockpool_elem_to_handle :: "blockpool \<Rightarrow> addr \<Rightarrow> 'a bp_store_scheme \<Rightarrow> u32 option" where
  "vcos_generic_blockpool_elem_to_handle p block s =
     (let hdr = block - unat sizeof_VCOS_BLOCKPOOL_HEADER_T in
      case owners s hdr of
        Next _ \<Rightarrow> None
      | Owned i \<Rightarrow>
          if ASSERT_SUBPOOL (bp_subpools p i) \<and> bp_magic p then
            let index = word_of_nat ((hdr - ptr_val (sp_start (bp_subpools p i))) div unat (bp_block_size p))
            in Some (VCOS_BLOCKPOOL_HANDLE_CREATE index (word_of_nat i))
          else None)"

text \<open>In the next two operations the outer \<open>None\<close> is the failed assertion, the inner one is null.\<close>

definition vcos_generic_blockpool_elem_from_handle ::
  "blockpool \<Rightarrow> u32 \<Rightarrow> 'a bp_store_scheme \<Rightarrow> addr option option" where
  "vcos_generic_blockpool_elem_from_handle p handle s =
     (if \<not> bp_magic p then None
      else
        let i = unat (VCOS_BLOCKPOOL_HANDLE_GET_SUBPOOL handle) in
        if i < bp_num_subpools p then
          let index = VCOS_BLOCKPOOL_HANDLE_GET_INDEX handle; sp = bp_subpools p i in
          if sp_magic sp \<and> sp_mem sp \<noteq> None \<and> index < sp_num_blocks sp then
            let hdr = ptr_val (sp_start sp) + unat (index * bp_block_size p) in
            Some (if owners s hdr = Owned i then Some (hdr + unat sizeof_VCOS_BLOCKPOOL_HEADER_T) else None)
          else Some None
        else Some None)"

fun find_subpool :: "blockpool \<Rightarrow> addr \<Rightarrow> nat list \<Rightarrow> nat option option" where
  "find_subpool p block [] = Some None"
| "find_subpool p block (i # is) =
     (let sp = bp_subpools p i in
      if \<not> ASSERT_SUBPOOL sp then None
      else if sp_mem sp \<noteq> None \<and> sp_start sp \<noteq> None \<and> ptr_val (sp_start sp) < block \<and>
              block < ptr_val (sp_start sp) + unat (sp_num_blocks sp * bp_block_size p)
      then Some (Some i) else find_subpool p block is)"

definition vcos_generic_blockpool_is_valid_elem :: "blockpool \<Rightarrow> addr \<Rightarrow> 'a bp_store_scheme \<Rightarrow> bool option" where
  "vcos_generic_blockpool_is_valid_elem p block s =
     (if \<not> bp_magic p then None
      else if block mod 4 \<noteq> 0 then Some False
      else case find_subpool p block [0..<bp_num_subpools p] of
        None \<Rightarrow> None
      | Some None \<Rightarrow> Some False
      | Some (Some i) \<Rightarrow> Some (owners s (block - unat sizeof_VCOS_BLOCKPOOL_HEADER_T) = Owned i))"

section \<open>Invariant\<close>

definition free_next :: "'a bp_store_scheme \<Rightarrow> addr \<Rightarrow> addr option" where
  "free_next s h = (case owners s h of Next n \<Rightarrow> n | Owned _ \<Rightarrow> None)"

definition blocks_of :: "blockpool \<Rightarrow> nat \<Rightarrow> addr set" where
  "blocks_of p i = (case sp_start (bp_subpools p i) of
     None \<Rightarrow> {}
   | Some st \<Rightarrow> (\<lambda>k. st + k * unat (bp_block_size p)) ` {..<unat (sp_num_blocks (bp_subpools p i))})"

text \<open>
  \<open>fs\<close> is the free list of subpool \<open>i\<close>: it links blocks of the subpool, its length is the count of
  available blocks, and the headers of all other blocks point back to the subpool.
\<close>

definition subpool_inv :: "blockpool \<Rightarrow> 'a bp_store_scheme \<Rightarrow> nat \<Rightarrow> addr list \<Rightarrow> bool" where
  "subpool_inv p s i fs \<longleftrightarrow>
     (let sp = bp_subpools p i in
      ASSERT_SUBPOOL sp \<and> sp_mem sp \<noteq> None \<and> sp_start sp \<noteq> None \<and>
      lseg (free_next s) (sp_free_list sp) fs None \<and> distinct fs \<and> set fs \<subseteq> blocks_of p i \<and>
      unat (sp_available_blocks sp) = length fs \<and> length fs \<le> unat (sp_num_blocks sp) \<and>
      (\<forall>b\<in>blocks_of p i. (\<exists>n. owners s b = Next n) \<longleftrightarrow> b \<in> set fs) \<and>
      (\<forall>b\<in>blocks_of p i - set fs. owners s b = Owned i) \<and>
      sp_flags sp AND VCOS_BLOCKPOOL_SUBPOOL_FLAG_EXTENSION = 0)"

definition pool_inv :: "blockpool \<Rightarrow> 'a bp_store_scheme \<Rightarrow> (nat \<Rightarrow> addr list) \<Rightarrow> bool" where
  "pool_inv p s F \<longleftrightarrow>
     bp_magic p \<and> bp_num_subpools p \<le> VCOS_BLOCKPOOL_MAX_SUBPOOLS \<and> 0 < bp_block_size p \<and>
     (\<forall>i<bp_num_subpools p. sp_start (bp_subpools p i) \<noteq> None \<longrightarrow> subpool_inv p s i (F i)) \<and>
     (\<forall>i<bp_num_subpools p. \<forall>j<bp_num_subpools p. i \<noteq> j \<longrightarrow> blocks_of p i \<inter> blocks_of p j = {})"

lemma subpools_upd [simp]:
  "bp_subpools (upd_subpool i f p) = (bp_subpools p)(i := f (bp_subpools p i))"
  "bp_block_size (upd_subpool i f p) = bp_block_size p" "bp_magic (upd_subpool i f p) = bp_magic p"
  "bp_num_subpools (upd_subpool i f p) = bp_num_subpools p"
  by (simp_all add: upd_subpool_def)

lemma owners_set [simp]: "owners (set_owner h v s) = (owners s)(h := v)"
  by (simp add: set_owner_def)

lemma upd_subpool_upd [simp]: "upd_subpool i f (upd_subpool i g p) = upd_subpool i (f \<circ> g) p"
  by (simp add: upd_subpool_def)

lemma upd_subpool_id: "f (bp_subpools p i) = bp_subpools p i \<Longrightarrow> upd_subpool i f p = p"
  by (simp add: upd_subpool_def)

lemma set_owner_set [simp]: "set_owner h v (set_owner h w s) = set_owner h v s"
  by (simp add: set_owner_def)

lemma set_owner_id: "owners s h = v \<Longrightarrow> set_owner h v s = s"
  by (simp add: set_owner_def fun_upd_idem)

lemma ASSERT_SUBPOOL_upd_free [simp]:
  "ASSERT_SUBPOOL (sp\<lparr>sp_free_list := a, sp_available_blocks := c\<rparr>) \<longleftrightarrow> ASSERT_SUBPOOL sp"
  by (simp add: ASSERT_SUBPOOL_def)

lemma finite_blocks_of: "finite (blocks_of p i)"
  by (simp add: blocks_of_def split: option.split)

lemma card_blocks_of: "card (blocks_of p i) \<le> unat (sp_num_blocks (bp_subpools p i))"
  by (auto simp: blocks_of_def split: option.split intro: order.trans [OF card_image_le])

text \<open>A change of the free list and the count of one subpool leaves the blocks where they are.\<close>

lemma blocks_of_upd_free [simp]:
  "blocks_of (upd_subpool i (\<lambda>sp. sp\<lparr>sp_free_list := a sp, sp_available_blocks := c sp\<rparr>) p) j = blocks_of p j"
  by (auto simp: blocks_of_def split: option.split)

lemma subpool_inv_other:
  assumes inv: "subpool_inv p s j fs" and ne: "j \<noteq> i" and h: "h \<notin> blocks_of p j"
  shows "subpool_inv (upd_subpool i (\<lambda>sp. sp\<lparr>sp_free_list := a sp, sp_available_blocks := c sp\<rparr>) p)
     (set_owner h v s) j fs"
proof -
  have "h \<notin> set fs" using inv h by (auto simp: subpool_inv_def Let_def)
  then have "lseg (free_next (set_owner h v s)) q fs None = lseg (free_next s) q fs None" for q
    by (intro lseg_cong) (auto simp: free_next_def)
  with inv ne h show ?thesis by (auto simp: subpool_inv_def Let_def)
qed

lemma take_block_inv:
  assumes inv: "pool_inv p s F" and i: "i < bp_num_subpools p" and free: "has_free p i"
  shows "\<exists>b fs p' s'. F i = b # fs \<and> take_block i p s = (Some (b + 4), p', s') \<and>
     b \<in> blocks_of p i \<and> owners s' = (owners s)(b := Owned i) \<and> pool_inv p' s' (F(i := fs)) \<and>
     bp_num_subpools p' = bp_num_subpools p \<and> (\<forall>j. blocks_of p' j = blocks_of p j)"
proof -
  let ?sp = "bp_subpools p i"
  have sp: "subpool_inv p s i (F i)" using inv i free by (simp add: pool_inv_def has_free_def)
  have "0 < unat (sp_available_blocks ?sp)" using free by (simp add: has_free_def word_less_nat_alt)
  then have "F i \<noteq> []" using sp by (auto simp: subpool_inv_def Let_def)
  then obtain b fs where F: "F i = b # fs" by (cases "F i") auto
  then have head: "sp_free_list ?sp = Some b" and b: "b \<in> blocks_of p i" "b \<notin> set fs"
    and seg: "lseg (free_next s) (free_next s b) fs None"
    using sp by (auto simp: subpool_inv_def Let_def)
  let ?p = "upd_subpool i (\<lambda>sp. sp\<lparr>sp_free_list := free_next s b, sp_available_blocks := sp_available_blocks sp - 1\<rparr>) p"
  let ?s = "set_owner b (Owned i) s"
  have take: "take_block i p s = (Some (b + 4), ?p, ?s)"
    by (simp add: take_block_def head free_next_def sizeof_VCOS_BLOCKPOOL_HEADER_T_def)
  have "lseg (free_next ?s) (free_next s b) fs None = lseg (free_next s) (free_next s b) fs None"
    using b by (intro lseg_cong) (auto simp: free_next_def)
  moreover have "unat (sp_available_blocks ?sp - 1) = length fs"
  proof -
    have "unat (sp_available_blocks ?sp) = Suc (length fs)" using sp F by (auto simp: subpool_inv_def Let_def)
    then have "1 \<le> sp_available_blocks ?sp" by (simp add: word_le_nat_alt)
    then have "unat (sp_available_blocks ?sp - 1) = unat (sp_available_blocks ?sp) - unat (1 :: u32)" by (rule unat_sub)
    with \<open>unat (sp_available_blocks ?sp) = Suc (length fs)\<close> show ?thesis by simp
  qed
  ultimately have "subpool_inv ?p ?s i fs"
    using sp F b seg unfolding subpool_inv_def Let_def by auto
  moreover have "subpool_inv ?p ?s j (F j)" if j: "j < bp_num_subpools p" "j \<noteq> i" "sp_start (bp_subpools p j) \<noteq> None" for j
  proof (rule subpool_inv_other)
    show "subpool_inv p s j (F j)" using inv j by (simp add: pool_inv_def)
    show "b \<notin> blocks_of p j" using inv i j b unfolding pool_inv_def by blast
  qed (use j in simp)
  ultimately have "pool_inv ?p ?s (F(i := fs))"
    using inv unfolding pool_inv_def by auto
  with take F b(1) show ?thesis by auto
qed

lemma free_block_inv:
  assumes inv: "pool_inv p s F" and i: "i < bp_num_subpools p" and b: "b \<in> blocks_of p i" "owners s b = Owned i"
  shows "\<exists>p' s'. vcos_generic_blockpool_free (Some (b + 4)) p s = Some (p', s') \<and>
     pool_inv p' s' (F(i := b # F i)) \<and> (\<forall>j. blocks_of p' j = blocks_of p j) \<and> live s' = live s"
proof -
  let ?sp = "bp_subpools p i"
  have start: "sp_start ?sp \<noteq> None" using b(1) by (auto simp: blocks_of_def split: option.splits)
  then have sp: "subpool_inv p s i (F i)" using inv i by (simp add: pool_inv_def)
  have nin: "b \<notin> set (F i)" using sp b by (auto simp: subpool_inv_def Let_def)
  let ?p = "upd_subpool i (\<lambda>sp. sp\<lparr>sp_free_list := Some b, sp_available_blocks := sp_available_blocks sp + 1\<rparr>) p"
  let ?s = "set_owner b (Next (sp_free_list ?sp)) s"
  have "ASSERT_SUBPOOL ?sp" "bp_magic p" "sp_flags ?sp AND VCOS_BLOCKPOOL_SUBPOOL_FLAG_EXTENSION = 0"
    using sp inv by (auto simp: subpool_inv_def pool_inv_def Let_def)
  then have free: "vcos_generic_blockpool_free (Some (b + 4)) p s = Some (?p, ?s)"
    by (simp add: vcos_generic_blockpool_free_def b(2) Let_def sizeof_VCOS_BLOCKPOOL_HEADER_T_def)
  have card: "length (b # F i) \<le> unat (sp_num_blocks ?sp)"
  proof -
    have "set (b # F i) \<subseteq> blocks_of p i" "distinct (b # F i)"
      using sp b nin by (auto simp: subpool_inv_def Let_def)
    then have "length (b # F i) \<le> card (blocks_of p i)"
      using card_mono [OF finite_blocks_of] distinct_card by metis
    also have "\<dots> \<le> unat (sp_num_blocks ?sp)" by (rule card_blocks_of)
    finally show ?thesis .
  qed
  have "unat (sp_available_blocks ?sp + 1) = length (b # F i)"
  proof -
    have av: "unat (sp_available_blocks ?sp) = length (F i)" using sp by (simp add: subpool_inv_def Let_def)
    then have "unat (sp_available_blocks ?sp) + 1 < 2 ^ 32" using card unat_u32_less [of "sp_num_blocks ?sp"] by simp
    then show ?thesis using av by (simp add: unat_word_ariths)
  qed
  moreover have "lseg (free_next ?s) (sp_free_list ?sp) (F i) None = lseg (free_next s) (sp_free_list ?sp) (F i) None"
    using nin by (intro lseg_cong) (auto simp: free_next_def)
  ultimately have "subpool_inv ?p ?s i (b # F i)"
    using sp b nin card unfolding subpool_inv_def Let_def by (auto simp: free_next_def)
  moreover have "subpool_inv ?p ?s j (F j)" if j: "j < bp_num_subpools p" "j \<noteq> i" "sp_start (bp_subpools p j) \<noteq> None" for j
  proof (rule subpool_inv_other)
    show "subpool_inv p s j (F j)" using inv j by (simp add: pool_inv_def)
    show "b \<notin> blocks_of p j" using inv i j b unfolding pool_inv_def by blast
  qed (use j in simp)
  ultimately have "pool_inv ?p ?s (F(i := b # F i))"
    using inv unfolding pool_inv_def by auto
  with free show ?thesis by (auto simp: set_owner_def)
qed

lemma pool_inv_cong: "(\<And>i. i < bp_num_subpools p \<Longrightarrow> F i = G i) \<Longrightarrow> pool_inv p s F = pool_inv p s G"
  by (simp add: pool_inv_def)

lemma pool_inv_owners:
  fixes s :: "'a bp_store_scheme" and t :: "'b bp_store_scheme"
  shows "owners t = owners s \<Longrightarrow> pool_inv p t F = pool_inv p s F"
proof -
  assume o: "owners t = owners s"
  have "free_next t = free_next s" by (simp add: free_next_def fun_eq_iff o)
  then show ?thesis by (simp add: pool_inv_def subpool_inv_def o)
qed

lemma take_block_frame: "take_block i p s = (r, p', t) \<Longrightarrow> t = s\<lparr>owners := owners t\<rparr> \<and> (sp_start (bp_subpools p' j) = sp_start (bp_subpools p j))"
  by (auto simp: take_block_def set_owner_def Let_def split: option.splits)

lemma free_block_frame:
  "vcos_generic_blockpool_free (Some b) p s = Some (p', t) \<Longrightarrow> live t = live s \<Longrightarrow>
   sp_flags (bp_subpools p i) AND VCOS_BLOCKPOOL_SUBPOOL_FLAG_EXTENSION = 0 \<Longrightarrow> owners s (b - 4) = Owned i \<Longrightarrow>
   t = s\<lparr>owners := (owners s)(b - 4 := Next (sp_free_list (bp_subpools p i)))\<rparr> \<and> sp_start (bp_subpools p' j) = sp_start (bp_subpools p j) \<and>
   bp_num_subpools p' = bp_num_subpools p"
  by (auto simp: vcos_generic_blockpool_free_def sizeof_VCOS_BLOCKPOOL_HEADER_T_def set_owner_def Let_def
      split: block_owner.splits if_splits)

text \<open>Taking from the first subpool, and giving back to it.\<close>

lemma calloc_first:
  fixes s :: "'a bp_store_scheme"
  assumes inv: "pool_inv p s F" and p: "0 < bp_num_subpools p" "sp_start (bp_subpools p 0) \<noteq> None" and F: "F 0 = b # fs"
  shows "\<exists>p'. vcos_generic_blockpool_calloc p s = Some (Some (b + 4), p', s\<lparr>owners := (owners s)(b := Owned 0)\<rparr>) \<and>
    pool_inv p' (s\<lparr>owners := (owners s)(b := Owned 0)\<rparr>) (F(0 := fs)) \<and> b \<in> blocks_of p 0 \<and> blocks_of p' 0 = blocks_of p 0 \<and>
    bp_num_subpools p' = bp_num_subpools p \<and> sp_start (bp_subpools p' 0) \<noteq> None \<and> owners s b \<noteq> Owned 0"
proof -
  have sub: "subpool_inv p s 0 (F 0)" using inv p by (simp add: pool_inv_def)
  then have free: "has_free p 0" using p F by (auto simp: has_free_def subpool_inv_def Let_def word_less_nat_alt)
  from take_block_inv [OF inv p(1) free] obtain p' t where t: "take_block 0 p s = (Some (b + 4), p', t)" "b \<in> blocks_of p 0"
    "owners t = (owners s)(b := Owned 0)" "pool_inv p' t (F(0 := fs))" "bp_num_subpools p' = bp_num_subpools p"
    "\<forall>j. blocks_of p' j = blocks_of p j" using F by auto
  from take_block_frame [OF t(1)] have "t = s\<lparr>owners := (owners s)(b := Owned 0)\<rparr>" "sp_start (bp_subpools p' 0) \<noteq> None"
    using t(3) p(2) by auto
  moreover have "[0..<bp_num_subpools p] = 0 # [1..<bp_num_subpools p]" using p(1) by (simp add: upt_conv_Cons)
  then have "find (has_free p) [0..<bp_num_subpools p] = Some 0" using free by simp
  moreover have "bp_magic p" using inv by (simp add: pool_inv_def)
  moreover have "owners s b \<noteq> Owned 0" using sub F t(2) unfolding subpool_inv_def Let_def by fastforce
  ultimately show ?thesis using t
    by (simp add: vcos_generic_blockpool_calloc_def vcos_generic_blockpool_alloc_def)
qed

lemma free_first:
  fixes s :: "'a bp_store_scheme"
  assumes inv: "pool_inv p s F" and p: "0 < bp_num_subpools p" "sp_start (bp_subpools p 0) \<noteq> None"
    and m: "4 \<le> m" "m - 4 \<in> blocks_of p 0" "owners s (m - 4) = Owned 0"
  shows "\<exists>p' x. vcos_generic_blockpool_free (Some m) p s = Some (p', s\<lparr>owners := (owners s)(m - 4 := Next x)\<rparr>) \<and>
    pool_inv p' (s\<lparr>owners := (owners s)(m - 4 := Next x)\<rparr>) (F(0 := (m - 4) # F 0)) \<and> blocks_of p' 0 = blocks_of p 0 \<and>
    bp_num_subpools p' = bp_num_subpools p \<and> sp_start (bp_subpools p' 0) \<noteq> None"
proof -
  have m4: "m - 4 + 4 = m" using m(1) by simp
  from free_block_inv [OF inv p(1) m(2,3)] m4 obtain p' t where t: "vcos_generic_blockpool_free (Some m) p s = Some (p', t)"
    "pool_inv p' t (F(0 := (m - 4) # F 0))" "\<forall>j. blocks_of p' j = blocks_of p j" "live t = live s" by auto
  have "sp_flags (bp_subpools p 0) AND VCOS_BLOCKPOOL_SUBPOOL_FLAG_EXTENSION = 0"
    using inv p by (auto simp: pool_inv_def subpool_inv_def Let_def)
  from free_block_frame [OF t(1,4) this m(3)] t p(2) show ?thesis by metis
qed

lemma chain_blocks_spec:
  assumes "0 < stride" "lseg (free_next s) free fs None" "\<forall>x\<in>set fs. x < st"
    and "chain_blocks n st stride free s = (fl, s')"
  shows "lseg (free_next s') fl (rev (map (\<lambda>k. st + k * stride) [0..<n]) @ fs) None \<and>
    (\<forall>k<n. \<exists>m. owners s' (st + k * stride) = Next m) \<and>
    (\<forall>x. x \<notin> (\<lambda>k. st + k * stride) ` {..<n} \<longrightarrow> owners s' x = owners s x)"
  using assms
proof (induction n arbitrary: st free s fs)
  case 0
  then show ?case by simp
next
  case (Suc n)
  let ?s = "set_owner st (Next free) s"
  have "st \<notin> set fs" using Suc.prems(3) by blast
  then have "lseg (free_next ?s) free fs None = lseg (free_next s) free fs None"
    by (intro lseg_cong) (auto simp: free_next_def)
  then have "lseg (free_next ?s) (Some st) (st # fs) None" using Suc.prems(2) by (simp add: free_next_def)
  moreover have "\<forall>x\<in>set (st # fs). x < st + stride" using Suc.prems(1,3) by auto
  moreover have "chain_blocks n (st + stride) stride (Some st) ?s = (fl, s')" using Suc.prems(4) by simp
  ultimately have IH: "lseg (free_next s') fl (rev (map (\<lambda>k. st + stride + k * stride) [0..<n]) @ st # fs) None"
    "\<forall>k<n. \<exists>m. owners s' (st + stride + k * stride) = Next m"
    "\<forall>x. x \<notin> (\<lambda>k. st + stride + k * stride) ` {..<n} \<longrightarrow> owners s' x = owners ?s x"
    using Suc.IH [OF Suc.prems(1), of ?s "Some st" "st # fs" "st + stride"] by blast+
  have "map (\<lambda>k. st + k * stride) [0..<Suc n] = st # map (\<lambda>k. st + stride + k * stride) [0..<n]"
    by (simp only: upt_conv_Cons [OF zero_less_Suc] list.map map_Suc_upt [symmetric] map_map comp_def)
      (simp add: add.assoc)
  then have 1: "lseg (free_next s') fl (rev (map (\<lambda>k. st + k * stride) [0..<Suc n]) @ fs) None"
    using IH(1) by (simp only: rev.simps append_assoc append_Cons append_Nil)
  have out: "st \<notin> (\<lambda>k. st + stride + k * stride) ` {..<n}" using Suc.prems(1) by auto
  then have "owners s' st = Next free" using IH(3) by simp
  then have 2: "\<exists>m. owners s' (st + k * stride) = Next m" if "k < Suc n" for k
    using IH(2) that by (cases k) (auto simp: add.assoc)
  have 3: "owners s' x = owners s x" if x: "x \<notin> (\<lambda>k. st + k * stride) ` {..<Suc n}" for x
  proof -
    have "x \<noteq> st" using x by force
    moreover have "x \<notin> (\<lambda>k. st + stride + k * stride) ` {..<n}"
    proof
      assume "x \<in> (\<lambda>k. st + stride + k * stride) ` {..<n}"
      then obtain k where "k < n" "x = st + Suc k * stride" by (auto simp: add.assoc)
      then show False using x by (meson Suc_less_eq imageI lessThan_iff)
    qed
    ultimately show ?thesis using IH(3) by simp
  qed
  from 1 2 3 show ?case by blast
qed

lemma chain_blocks_live: "chain_blocks n st stride free s = (fl, s') \<Longrightarrow> live s' = live s"
  by (induction n arbitrary: st free s) (force simp: set_owner_def)+

section \<open>Properties\<close>

text \<open>
  An allocation from a pool with a free block returns a block that was free and becomes
  allocated, changes no other block, and keeps the invariant; so no block is handed out twice.
\<close>

theorem vcos_generic_blockpool_alloc_takes_free:
  assumes inv: "pool_inv p s F" and i: "find (has_free p) [0..<bp_num_subpools p] = Some i"
  shows "\<exists>b p' s'. vcos_generic_blockpool_alloc p s = Some (Some (b + 4), p', s') \<and>
     b \<in> blocks_of p i \<and> b = hd (F i) \<and> owners s b \<noteq> Owned i \<and>
     owners s' = (owners s)(b := Owned i) \<and> pool_inv p' s' (F(i := tl (F i)))"
proof -
  have "i < bp_num_subpools p" "has_free p i" using i by (auto simp: find_Some_iff)
  from take_block_inv [OF inv this] obtain b fs p' s' where t: "F i = b # fs"
    "take_block i p s = (Some (b + 4), p', s')" "b \<in> blocks_of p i" "owners s' = (owners s)(b := Owned i)"
    "pool_inv p' s' (F(i := fs))" by blast
  have "subpool_inv p s i (F i)" using inv \<open>i < bp_num_subpools p\<close> \<open>has_free p i\<close> by (simp add: pool_inv_def has_free_def)
  then have "\<exists>n. owners s b = Next n" using t by (auto simp: subpool_inv_def Let_def)
  then have "owners s b \<noteq> Owned i" by auto
  moreover have "bp_magic p" using inv by (simp add: pool_inv_def)
  ultimately show ?thesis using t i by (simp add: vcos_generic_blockpool_alloc_def)
qed

lemma take_free_roundtrip:
  assumes inv: "pool_inv p s F" and i: "i < bp_num_subpools p" "has_free p i"
    and take: "take_block i p s = (Some b, p', s')"
  shows "vcos_generic_blockpool_free (Some b) p' s' = Some (p, s)"
proof -
  let ?sp = "bp_subpools p i"
  have sp: "subpool_inv p s i (F i)" using inv i by (simp add: pool_inv_def has_free_def)
  obtain h where head: "sp_free_list ?sp = Some h" using take by (cases "sp_free_list ?sp") (auto simp: take_block_def)
  then have "F i \<noteq> []" "hd (F i) = h" using sp by (cases "F i"; auto simp: subpool_inv_def Let_def)+
  then have "h \<in> blocks_of p i" "h \<in> set (F i)" using sp by (auto simp: subpool_inv_def Let_def)
  then obtain n where n: "owners s h = Next n" using sp by (auto simp: subpool_inv_def Let_def)
  let ?p = "upd_subpool i (\<lambda>sp. sp\<lparr>sp_free_list := n, sp_available_blocks := sp_available_blocks sp - 1\<rparr>) p"
  have eq: "b = h + 4" "p' = ?p" "s' = set_owner h (Owned i) s"
    using take head n by (auto simp: take_block_def sizeof_VCOS_BLOCKPOOL_HEADER_T_def)
  have "ASSERT_SUBPOOL ?sp" "bp_magic p" "sp_flags ?sp AND VCOS_BLOCKPOOL_SUBPOOL_FLAG_EXTENSION = 0"
    using sp inv by (auto simp: subpool_inv_def pool_inv_def Let_def)
  then have "vcos_generic_blockpool_free (Some b) p' s' =
      Some (upd_subpool i (\<lambda>sp. sp\<lparr>sp_free_list := Some h, sp_available_blocks := sp_available_blocks sp + 1\<rparr>) ?p,
            set_owner h (Next n) s)"
    unfolding eq by (simp add: vcos_generic_blockpool_free_def Let_def sizeof_VCOS_BLOCKPOOL_HEADER_T_def)
  moreover have "upd_subpool i (\<lambda>sp. sp\<lparr>sp_free_list := Some h, sp_available_blocks := sp_available_blocks sp + 1\<rparr>) ?p = p"
    using head by (simp, intro upd_subpool_id) simp
  moreover have "set_owner h (Next n) s = s" using n by (intro set_owner_id)
  ultimately show ?thesis by simp
qed

text \<open>
  Freeing the block that was just allocated from a pool with a free block gives back the very
  same pool: its free lists, its counts and all headers.
\<close>

theorem vcos_generic_blockpool_alloc_free_roundtrip:
  assumes "pool_inv p s F" and "find (has_free p) [0..<bp_num_subpools p] = Some i"
    and "vcos_generic_blockpool_alloc p s = Some (Some b, p', s')"
  shows "vcos_generic_blockpool_free (Some b) p' s' = Some (p, s)"
proof -
  have "i < bp_num_subpools p" "has_free p i" using assms(2) by (auto simp: find_Some_iff)
  moreover have "take_block i p s = (Some b, p', s')"
    using assms by (simp add: vcos_generic_blockpool_alloc_def pool_inv_def)
  ultimately show ?thesis using take_free_roundtrip assms(1) by blast
qed

section \<open>A new pool\<close>

lemma unat_round_up:
  assumes "unat x + 2 ^ k \<le> 2 ^ 32" "k < 32"
  shows "unat (VCOS_BLOCKPOOL_ROUND_UP x (2 ^ k)) = (unat x + (2 ^ k - 1)) div 2 ^ k * 2 ^ k"
proof -
  have "(2::nat) ^ k < 2 ^ 32" using assms(2) by (intro power_strict_increasing) auto
  then have u2: "unat (2 ^ k :: u32) = 2 ^ k" using unat_of_nat [of "2 ^ k", where 'a = 32] by simp
  have "(1 :: u32) \<le> 2 ^ k" using u2 by (simp add: word_le_nat_alt)
  then have "unat (2 ^ k - 1 :: u32) = 2 ^ k - 1" using u2 by (simp add: unat_sub)
  then have "unat (x + (2 ^ k - 1)) = unat x + (2 ^ k - 1)"
    using assms(1) by (subst unat_word_ariths) (simp add: mod_less)
  then have "unat (VCOS_BLOCKPOOL_ROUND_UP x (2 ^ k)) = (unat x + (2 ^ k - 1)) - (unat x + (2 ^ k - 1)) mod 2 ^ k"
    by (simp only: VCOS_BLOCKPOOL_ROUND_UP_def unat_align_down)
  then show ?thesis by (simp only: minus_mod_eq_div_mult)
qed

lemma dvd_round_up: "2 ^ k dvd unat (VCOS_BLOCKPOOL_ROUND_UP x (2 ^ k))"
  by (simp only: VCOS_BLOCKPOOL_ROUND_UP_def unat_align_down dvd_minus_mod)

lemma round_up_nat:
  fixes x e :: nat
  assumes "0 < e"
  defines "r \<equiv> (x + (e - 1)) div e * e"
  shows "x \<le> r" "r < x + e" "e dvd r"
proof -
  define m where "m = (x + (e - 1)) mod e"
  have "m < e" using assms(1) by (simp add: m_def)
  moreover have "r + m = x + (e - 1)" by (simp add: r_def m_def)
  ultimately show "x \<le> r" "r < x + e" using assms(1) by linarith+
  show "e dvd r" by (simp add: r_def)
qed

lemma subpool_init_inv:
  assumes init: "vcos_generic_blockpool_subpool_init p i mem n s = (p', s')"
    and stride: "0 < bp_block_size p" and fit: "unat n * unat (bp_block_size p) < 2 ^ 32"
    and mem: "mem \<le> first_header mem (bp_align p)"
    and flags: "sp_flags (bp_subpools p i) AND VCOS_BLOCKPOOL_SUBPOOL_FLAG_EXTENSION = 0"
  shows "subpool_inv p' s' i (rev (map (\<lambda>k. first_header mem (bp_align p) + k * unat (bp_block_size p)) [0..<unat n]))"
    and "blocks_of p' i = (\<lambda>k. first_header mem (bp_align p) + k * unat (bp_block_size p)) ` {..<unat n}"
    and "bp_magic p' = bp_magic p" "bp_num_subpools p' = bp_num_subpools p" "bp_block_size p' = bp_block_size p"
    and "\<And>j. j \<noteq> i \<Longrightarrow> bp_subpools p' j = bp_subpools p j"
proof -
  define st stride' where "st = first_header mem (bp_align p)" and "stride' = unat (bp_block_size p)"
  have s0: "0 < stride'" using stride by (simp add: stride'_def word_less_nat_alt)
  have len: "unat (bp_block_size p * n) = unat n * stride'"
    using fit by (simp add: unat_word_ariths stride'_def mult.commute)
  have iter: "(unat (bp_block_size p * n) + stride' - 1) div stride' = unat n"
  proof -
    have "unat (bp_block_size p * n) + stride' - 1 = unat n * stride' + (stride' - 1)" using s0 len by simp
    moreover have "(unat n * stride' + (stride' - 1)) div stride' = unat n"
      using s0 by (intro div_nat_eqI) (simp_all add: mult.commute)
    ultimately show ?thesis by simp
  qed
  obtain fl t where ch: "chain_blocks (unat n) st stride' None s = (fl, t)" by fastforce
  have res: "p' = upd_subpool i (\<lambda>sp. sp\<lparr>sp_magic := True, sp_mem := Some mem, sp_start := Some st,
      sp_end := st + unat (bp_block_size p * n), sp_num_blocks := n, sp_available_blocks := n, sp_free_list := fl\<rparr>) p" "s' = t"
    using init ch iter by (simp_all add: vcos_generic_blockpool_subpool_init_def Let_def st_def stride'_def)
  show bl: "blocks_of p' i = (\<lambda>k. first_header mem (bp_align p) + k * unat (bp_block_size p)) ` {..<unat n}"
    by (simp add: res blocks_of_def st_def)
  let ?fs = "rev (map (\<lambda>k. st + k * stride') [0..<unat n])"
  have spec: "lseg (free_next t) fl (?fs @ []) None" "\<forall>k<unat n. \<exists>m. owners t (st + k * stride') = Next m"
    using chain_blocks_spec [OF s0 _ _ ch, of "[]"] by simp_all
  have "inj_on (\<lambda>k. st + k * stride') {..<unat n}" using s0 by (auto simp: inj_on_def)
  then have "distinct ?fs" by (simp add: distinct_map lessThan_atLeast0)
  moreover have "set ?fs = blocks_of p' i" by (auto simp: bl st_def stride'_def)
  moreover from this have "\<forall>b\<in>blocks_of p' i. \<exists>m. owners t b = Next m"
    using spec(2) unfolding bl st_def [symmetric] stride'_def [symmetric] by blast
  ultimately show "subpool_inv p' s' i (rev (map (\<lambda>k. first_header mem (bp_align p) + k * unat (bp_block_size p)) [0..<unat n]))"
    using spec(1) flags mem unfolding subpool_inv_def Let_def st_def [symmetric] stride'_def [symmetric] res(2)
    by (auto simp: res(1) ASSERT_SUBPOOL_def ptr_val_def)
qed (use init in \<open>auto simp: vcos_generic_blockpool_subpool_init_def Let_def split: prod.splits\<close>)

text \<open>A stride takes the header and a block of the size that was asked for, when the rounding does not wrap.\<close>

lemma block_stride_room:
  assumes "unat bsize + 36 + 2 ^ k \<le> 2 ^ 32" "k < 32"
  shows "unat bsize + 4 \<le> unat (block_stride bsize (2 ^ k))"
proof -
  define pad where "pad = (if (4096 :: u32) \<le> 2 ^ k then 32 else 0 :: u32)"
  let ?x = "bsize + pad + sizeof_VCOS_BLOCKPOOL_HEADER_T"
  have "(1::nat) \<le> 2 ^ k" by simp
  then have "unat bsize + 36 < 2 ^ 32" using assms(1) by linarith
  then have x: "unat ?x = unat bsize + unat pad + 4"
    by (simp add: unat_word_ariths sizeof_VCOS_BLOCKPOOL_HEADER_T_def pad_def)
  then have "unat ?x + 2 ^ k \<le> 2 ^ 32" using assms(1) by (simp add: pad_def)
  from unat_round_up [OF this assms(2)]
  have "unat (block_stride bsize (2 ^ k)) = (unat ?x + (2 ^ k - 1)) div 2 ^ k * 2 ^ k" by (simp only: block_stride_def pad_def)
  then show ?thesis using round_up_nat(1) [of "2 ^ k" "unat ?x"] x by simp
qed

text \<open>
  C39: initialising a pool on enough memory with a power of two as alignment gives a pool in which
  all blocks are free and aligned.  Each has room for the size that was asked for behind its header, inside the memory
  that was given, and no two overlap.  The conditions say that no size wraps: that of a block with its header and
  padding when it is rounded up, that of the pool, and the end of the memory.
\<close>

theorem vcos_generic_blockpool_init_fits:
  assumes ok: "vcos_generic_blockpool_init p n bsize mem psize (2 ^ k) s = (VCOS_SUCCESS, p', s')"
    and k: "2 \<le> k" "k < 32" and mem: "mem + unat psize < 2 ^ 32"
    and fit: "unat bsize + 36 + 2 ^ k \<le> 2 ^ 32" "unat n * unat (block_stride bsize (2 ^ k)) + 2 ^ k < 2 ^ 32" and n: "0 < n"
  shows "\<exists>F. pool_inv p' s' F \<and> set (F 0) = blocks_of p' 0 \<and> distinct (F 0) \<and> length (F 0) = unat n \<and>
     (\<forall>b\<in>blocks_of p' 0. 2 ^ k dvd b + 4 \<and> mem \<le> b \<and> b + 4 + unat bsize \<le> mem + unat psize) \<and>
     (\<forall>b\<in>blocks_of p' 0. \<forall>c\<in>blocks_of p' 0. b < c \<longrightarrow> b + 4 + unat bsize \<le> c)"
proof -
  define stride where "stride = unat (block_stride bsize (2 ^ k))"
  have room: "unat bsize + 4 \<le> stride" unfolding stride_def by (rule block_stride_room [OF fit(1) k(2)])
  have "(2::nat) ^ k < 2 ^ 32" using k(2) by (intro power_strict_increasing) auto
  then have u2: "unat (2 ^ k :: u32) = 2 ^ k" using unat_of_nat [of "2 ^ k", where 'a = 32] by simp
  then have nz: "(2 ^ k :: u32) \<noteq> 0" by (metis power_not_zero unat_0 zero_neq_numeral)
  let ?p0 = "p\<lparr>bp_block_data_size := bsize, bp_block_size := block_stride bsize (2 ^ k), bp_magic := True,
      bp_num_subpools := 1, bp_num_extension_blocks := 0, bp_align := 2 ^ k, bp_subpools := (\<lambda>_. zero_subpool)\<rparr>"
  obtain s0 where init: "vcos_generic_blockpool_subpool_init ?p0 0 mem n s0 = (p', s')"
    and small: "\<not> psize < VCOS_BLOCKPOOL_SIZE n bsize (2 ^ k)"
    using ok nz by (auto simp: vcos_generic_blockpool_init_def Let_def split: if_splits prod.splits bool.splits)
  have sizes: "unat (VCOS_BLOCKPOOL_SIZE n bsize (2 ^ k)) = unat n * stride + 2 ^ k"
    using fit(2) u2 by (simp add: VCOS_BLOCKPOOL_SIZE_def unat_word_ariths stride_def mult.commute)
  then have psize: "unat n * stride + 2 ^ k \<le> unat psize" using small by (simp add: word_less_nat_alt not_less)
  have s_pos: "0 < stride" using room by linarith
  then have n2: "0 < block_stride bsize (2 ^ k)" by (simp add: stride_def word_less_nat_alt)
  have fit': "unat n * unat (bp_block_size ?p0) < 2 ^ 32" using fit(2) by simp
  let ?st = "first_header mem (2 ^ k)"
  have four: "4 \<le> (2::nat) ^ k" using power_increasing [OF k(1), of "2::nat"] by simp
  have "mem + 4 < 2 ^ 32" using psize four mem by linarith
  then have um: "unat (word_of_nat mem + sizeof_VCOS_BLOCKPOOL_HEADER_T :: u32) = mem + 4"
    by (simp add: sizeof_VCOS_BLOCKPOOL_HEADER_T_def unat_word_ariths unat_of_nat)
  have n1: "1 \<le> unat n" using n by (simp add: word_less_nat_alt)
  define e where "e = (2::nat) ^ k"
  have e4: "4 \<le> e" using four by (simp add: e_def)
  have e_dvd: "e dvd stride" by (simp add: e_def stride_def block_stride_def dvd_round_up)
  then have e_le: "e \<le> stride" using s_pos by (rule dvd_imp_le)
  have ps: "unat n * stride + e \<le> unat psize" using psize by (simp add: e_def)
  have n_st: "stride \<le> unat n * stride" using mult_le_mono1 [OF n1, of stride] by simp
  have "mem + 4 + e \<le> 2 ^ 32" using ps mem e4 e_le n_st by linarith
  then have "unat (VCOS_BLOCKPOOL_ROUND_UP (word_of_nat mem + sizeof_VCOS_BLOCKPOOL_HEADER_T) (2 ^ k)) =
      (mem + 4 + (e - 1)) div e * e"
    using unat_round_up [of "word_of_nat mem + sizeof_VCOS_BLOCKPOOL_HEADER_T" k] k(2) um by (simp add: e_def)
  then have st: "?st = (mem + 4 + (e - 1)) div e * e - 4"
    by (simp add: first_header_def sizeof_VCOS_BLOCKPOOL_HEADER_T_def)
  have "0 < e" using e4 by linarith
  note r = round_up_nat [OF this, of "mem + 4"]
  have st4: "?st + 4 = (mem + 4 + (e - 1)) div e * e" using r(1) unfolding st by linarith
  have lower: "mem \<le> ?st" using r(1) st4 by linarith
  note si = subpool_init_inv [OF init _ fit' _]
  have flags: "sp_flags (bp_subpools ?p0 0) AND VCOS_BLOCKPOOL_SUBPOOL_FLAG_EXTENSION = 0" by (simp add: zero_subpool_def)
  let ?F = "\<lambda>i::nat. rev (map (\<lambda>k. ?st + k * stride) [0..<unat n])"
  have bl: "blocks_of p' 0 = (\<lambda>k. ?st + k * stride) ` {..<unat n}"
    using si(2) n2 flags lower by (simp add: stride_def)
  have "pool_inv p' s' ?F"
    using si(1,3-5) n2 flags lower by (simp add: pool_inv_def VCOS_BLOCKPOOL_MAX_SUBPOOLS_def stride_def)
  moreover have "set (?F 0) = blocks_of p' 0" by (auto simp: bl)
  moreover have "inj_on (\<lambda>k. ?st + k * stride) {..<unat n}" using s_pos by (auto intro: inj_onI)
  then have "distinct (?F 0)" by (simp add: distinct_map atLeast0LessThan)
  moreover have "2 ^ k dvd b + 4 \<and> mem \<le> b \<and> b + 4 + unat bsize \<le> mem + unat psize" if b: "b \<in> blocks_of p' 0" for b
  proof -
    obtain j where j: "j < unat n" "b = ?st + j * stride" using b bl by auto
    have "b + 4 = (mem + 4 + (e - 1)) div e * e + j * stride" using j(2) st4 by linarith
    then have "e dvd b + 4" using e_dvd by simp
    moreover have "mem \<le> ?st" "?st < mem + e" using r(1,2) st4 by linarith+
    moreover have "Suc j * stride \<le> unat n * stride" using j(1) by (intro mult_le_mono1) simp
    ultimately show ?thesis using ps room unfolding j(2) e_def [symmetric] by simp
  qed
  moreover have "b + 4 + unat bsize \<le> c" if bc: "b \<in> blocks_of p' 0" "c \<in> blocks_of p' 0" "b < c" for b c
  proof -
    obtain i j where ij: "b = ?st + i * stride" "c = ?st + j * stride" using bc(1,2) bl by auto
    then have "i < j" using bc(3) by simp
    then have "Suc i * stride \<le> j * stride" by (intro mult_le_mono1) simp
    then show ?thesis using room unfolding ij by simp
  qed
  ultimately show ?thesis by (intro exI [of _ ?F]) simp
qed

section \<open>Handles\<close>

lemma handle_parts:
  assumes "unat i < 2 ^ 29 - 1" "unat sp < 8"
  shows "VCOS_BLOCKPOOL_HANDLE_GET_INDEX (VCOS_BLOCKPOOL_HANDLE_CREATE i sp) = i"
    and "VCOS_BLOCKPOOL_HANDLE_GET_SUBPOOL (VCOS_BLOCKPOOL_HANDLE_CREATE i sp) = sp"
    and "VCOS_BLOCKPOOL_HANDLE_CREATE i sp \<noteq> VCOS_BLOCKPOOL_INVALID_HANDLE"
proof -
  have i1: "unat (i + 1) = unat i + 1" using assms(1) by (simp add: unat_word_ariths)
  have sp3: "take_bit 3 sp = sp"
    using assms(2) by (simp add: word_unat_eq_iff unsigned_take_bit_eq take_bit_nat_eq_self)
  have hi: "take_bit 29 (i + 1) = i + 1"
    using assms(1) i1 by (simp add: word_unat_eq_iff unsigned_take_bit_eq take_bit_nat_eq_self)
  have "drop_bit 3 sp = 0"
    using assms(2) by (simp add: word_unat_eq_iff unat_drop_bit_eq drop_bit_eq_div unat_div_distrib)
  moreover have "drop_bit 3 (push_bit 3 (i + 1)) = take_bit 29 (i + 1)"
    by (rule bit_word_eqI) (auto simp: bit_simps)
  ultimately show "VCOS_BLOCKPOOL_HANDLE_GET_INDEX (VCOS_BLOCKPOOL_HANDLE_CREATE i sp) = i"
    by (simp add: VCOS_BLOCKPOOL_HANDLE_GET_INDEX_def VCOS_BLOCKPOOL_HANDLE_CREATE_def
        VCOS_BLOCKPOOL_SUBPOOL_BITS_def INDEX_OFFSET_def drop_bit_or hi)
  have "take_bit 3 (push_bit 3 (i + 1) OR sp) = sp"
    using sp3 by (simp add: take_bit_or take_bit_push_bit)
  then show "VCOS_BLOCKPOOL_HANDLE_GET_SUBPOOL (VCOS_BLOCKPOOL_HANDLE_CREATE i sp) = sp"
    by (simp add: VCOS_BLOCKPOOL_HANDLE_GET_SUBPOOL_def VCOS_BLOCKPOOL_HANDLE_CREATE_def
        VCOS_BLOCKPOOL_SUBPOOL_BITS_def INDEX_OFFSET_def take_bit_eq_mask mask_eq_exp_minus_1 push_bit_eq_mult)
  have "drop_bit 3 (VCOS_BLOCKPOOL_HANDLE_CREATE i sp) = i + 1"
    using \<open>drop_bit 3 sp = 0\<close> \<open>drop_bit 3 (push_bit 3 (i + 1)) = take_bit 29 (i + 1)\<close>
    by (simp add: VCOS_BLOCKPOOL_HANDLE_CREATE_def VCOS_BLOCKPOOL_SUBPOOL_BITS_def INDEX_OFFSET_def drop_bit_or hi)
  moreover have "i + 1 \<noteq> 0" using i1 by (metis add_is_0 one_neq_zero unat_0)
  ultimately show "VCOS_BLOCKPOOL_HANDLE_CREATE i sp \<noteq> VCOS_BLOCKPOOL_INVALID_HANDLE"
    by (auto simp: VCOS_BLOCKPOOL_INVALID_HANDLE_def)
qed

text \<open>
  The handle of an allocated block is never the invalid handle and leads back to the block, in a pool with fewer
  than \<open>2^29 - 1\<close> blocks in a subpool whose size does not wrap.
\<close>

theorem vcos_generic_blockpool_handle_roundtrip:
  assumes inv: "pool_inv p s F" and i: "i < bp_num_subpools p" and b: "b \<in> blocks_of p i" "owners s b = Owned i"
    and n: "unat (sp_num_blocks (bp_subpools p i)) < 2 ^ 29 - 1"
    and fit: "unat (sp_num_blocks (bp_subpools p i)) * unat (bp_block_size p) < 2 ^ 32"
  shows "\<exists>h. vcos_generic_blockpool_elem_to_handle p (b + 4) s = Some h \<and> h \<noteq> VCOS_BLOCKPOOL_INVALID_HANDLE \<and>
     vcos_generic_blockpool_elem_from_handle p h s = Some (Some (b + 4))"
proof -
  let ?sp = "bp_subpools p i"
  define stride where "stride = unat (bp_block_size p)"
  obtain st k where st: "sp_start ?sp = Some st" and k: "k < unat (sp_num_blocks ?sp)" "b = st + k * stride"
    using b(1) by (auto simp: blocks_of_def stride_def split: option.splits)
  have "subpool_inv p s i (F i)" using inv i st by (simp add: pool_inv_def)
  then have sp: "ASSERT_SUBPOOL ?sp" "sp_mem ?sp \<noteq> None" by (auto simp: subpool_inv_def Let_def)
  have magic: "bp_magic p" using inv by (simp add: pool_inv_def)
  have stride: "0 < stride" using inv by (simp add: pool_inv_def stride_def word_less_nat_alt)
  let ?k = "word_of_nat k :: u32" and ?i = "word_of_nat i :: u32"
  have uk: "unat ?k = k" using k(1) n by (simp add: unat_of_nat)
  have i8: "i < 8" using i inv by (simp add: pool_inv_def VCOS_BLOCKPOOL_MAX_SUBPOOLS_def)
  then have ui: "unat ?i = i" by (simp add: unat_of_nat)
  have parts: "VCOS_BLOCKPOOL_HANDLE_GET_INDEX (VCOS_BLOCKPOOL_HANDLE_CREATE ?k ?i) = ?k"
    "VCOS_BLOCKPOOL_HANDLE_GET_SUBPOOL (VCOS_BLOCKPOOL_HANDLE_CREATE ?k ?i) = ?i"
    "VCOS_BLOCKPOOL_HANDLE_CREATE ?k ?i \<noteq> VCOS_BLOCKPOOL_INVALID_HANDLE"
    using handle_parts [of ?k ?i] uk ui k(1) n i8 by simp_all
  have "(b - st) div stride = k" using k(2) stride by simp
  then have to: "vcos_generic_blockpool_elem_to_handle p (b + 4) s = Some (VCOS_BLOCKPOOL_HANDLE_CREATE ?k ?i)"
    using b(2) st sp magic
    by (simp add: vcos_generic_blockpool_elem_to_handle_def sizeof_VCOS_BLOCKPOOL_HEADER_T_def stride_def ptr_val_def)
  have "k * stride \<le> unat (sp_num_blocks ?sp) * stride" using k(1) by simp
  then have "k * stride < 2 ^ 32" using fit unfolding stride_def by linarith
  then have "unat (?k * bp_block_size p) = k * stride"
    using uk by (simp add: unat_word_ariths stride_def)
  moreover have "?k < sp_num_blocks ?sp" using uk k(1) by (simp add: word_less_nat_alt)
  ultimately have "vcos_generic_blockpool_elem_from_handle p (VCOS_BLOCKPOOL_HANDLE_CREATE ?k ?i) s = Some (Some (b + 4))"
    using sp st i ui parts(1,2) b(2) k(2) magic
    by (simp add: vcos_generic_blockpool_elem_from_handle_def Let_def sizeof_VCOS_BLOCKPOOL_HEADER_T_def
        ptr_val_def ASSERT_SUBPOOL_def)
  with to parts(3) show ?thesis by blast
qed

section \<open>A concrete pool\<close>

text \<open>Two blocks of eight bytes on thirty-two bytes at address 1000.\<close>

definition demo_store :: bp_store where
  "demo_store = \<lparr>mallocs = [], creates = [True], clock_readings = [], live = [], sync = [],
     owners = (\<lambda>_. Next None)\<rparr>"

definition demo_zero :: blockpool where
  "demo_zero = \<lparr>bp_magic = False, bp_align = 0, bp_block_data_size = 0, bp_block_size = 0, bp_num_subpools = 0,
     bp_num_extension_blocks = 0, bp_subpools = (\<lambda>_. zero_subpool), bp_addr = 0\<rparr>"

definition demo_pool :: blockpool where
  "demo_pool = fst (snd (vcos_generic_blockpool_init demo_zero 2 8 1000 32 4 demo_store))"

definition demo_built :: bp_store where
  "demo_built = snd (snd (vcos_generic_blockpool_init demo_zero 2 8 1000 32 4 demo_store))"

lemma demo_init: "vcos_generic_blockpool_init demo_zero 2 8 1000 32 4 demo_store = (VCOS_SUCCESS, demo_pool, demo_built)"
proof -
  have "fst (vcos_generic_blockpool_init demo_zero 2 8 1000 32 4 demo_store) = VCOS_SUCCESS" by code_simp
  then show ?thesis by (simp add: demo_pool_def demo_built_def prod_eq_iff)
qed

lemma demo_parts:
  "bp_num_subpools demo_pool = 1" "sp_start (bp_subpools demo_pool 0) = Some 1000"
  "sp_num_blocks (bp_subpools demo_pool 0) = 2" "bp_block_size demo_pool = 12"
  "owners demo_built 1000 = Next None" "owners demo_built 1012 = Next (Some 1000)"
  "sp_free_list (bp_subpools demo_pool 0) = Some 1012" "sp_available_blocks (bp_subpools demo_pool 0) = 2"
  "sp_magic (bp_subpools demo_pool 0)" "sp_mem (bp_subpools demo_pool 0) = Some 1000"
  "sp_flags (bp_subpools demo_pool 0) = 0" "bp_magic demo_pool"
  by code_simp+

lemma demo_blocks: "blocks_of demo_pool 0 = {1000, 1012}"
proof -
  have "{..<unat (2 :: u32)} = {0, 1}" by auto
  then show ?thesis by (simp add: blocks_of_def demo_parts insert_commute)
qed

lemma demo_inv: "pool_inv demo_pool demo_built (\<lambda>_. [1012, 1000])"
  by (simp add: pool_inv_def subpool_inv_def ASSERT_SUBPOOL_def ptr_val_def Let_def demo_parts demo_blocks VCOS_BLOCKPOOL_MAX_SUBPOOLS_def
      free_next_def)

lemma demo_find: "find (has_free demo_pool) [0..<bp_num_subpools demo_pool] = Some 0"
  by (simp add: demo_parts has_free_def)

theorem vcos_generic_blockpool_alloc_takes_free_witness:
  "\<exists>b p' s'. vcos_generic_blockpool_alloc demo_pool demo_built = Some (Some (b + 4), p', s') \<and> b = 1012 \<and>
     owners s' 1012 = Owned 0"
  using vcos_generic_blockpool_alloc_takes_free [OF demo_inv demo_find] by fastforce

lemma demo_alloc: "\<exists>p' s'. vcos_generic_blockpool_alloc demo_pool demo_built = Some (Some 1016, p', s')"
  using demo_find by (simp add: vcos_generic_blockpool_alloc_def take_block_def demo_parts Let_def
      sizeof_VCOS_BLOCKPOOL_HEADER_T_def)

theorem vcos_generic_blockpool_alloc_free_roundtrip_witness:
  "\<exists>p' s'. vcos_generic_blockpool_alloc demo_pool demo_built = Some (Some 1016, p', s') \<and>
     vcos_generic_blockpool_free (Some 1016) p' s' = Some (demo_pool, demo_built)"
  using vcos_generic_blockpool_alloc_free_roundtrip [OF demo_inv demo_find] demo_alloc by blast

theorem vcos_generic_blockpool_init_fits_witness:
  "\<exists>F. pool_inv demo_pool demo_built F \<and> length (F 0) = 2 \<and> (\<forall>b\<in>blocks_of demo_pool 0. 4 dvd b + 4 \<and> b + 12 \<le> 1032)"
  using vcos_generic_blockpool_init_fits [of demo_zero 2 8 1000 32 2 demo_store demo_pool demo_built] demo_init
  by (auto simp: demo_blocks block_stride_def VCOS_BLOCKPOOL_ROUND_UP_def sizeof_VCOS_BLOCKPOOL_HEADER_T_def)

definition demo_taken :: bp_store where
  "demo_taken = set_owner 1012 (Owned 0) demo_built"

definition demo_left :: blockpool where
  "demo_left = upd_subpool 0 (\<lambda>sp. sp\<lparr>sp_free_list := Some 1000, sp_available_blocks := 1\<rparr>) demo_pool"

lemma demo_left_inv: "pool_inv demo_left demo_taken (\<lambda>_. [1000])"
proof -
  have "{..<unat (2 :: u32)} = {0, 1}" by auto
  then show ?thesis
    by (simp add: demo_left_def demo_taken_def pool_inv_def subpool_inv_def ASSERT_SUBPOOL_def ptr_val_def Let_def demo_parts
      VCOS_BLOCKPOOL_MAX_SUBPOOLS_def free_next_def blocks_of_def)
qed

theorem vcos_generic_blockpool_handle_roundtrip_witness:
  "\<exists>h. vcos_generic_blockpool_elem_to_handle demo_left 1016 demo_taken = Some h \<and>
     vcos_generic_blockpool_elem_from_handle demo_left h demo_taken = Some (Some 1016)"
proof -
  have "{..<unat (2 :: u32)} = {0, 1}" by auto
  then have b: "1012 \<in> blocks_of demo_left 0" by (simp add: blocks_of_def demo_left_def demo_parts)
  have o: "owners demo_taken 1012 = Owned 0" by (simp add: demo_taken_def)
  show ?thesis
    using vcos_generic_blockpool_handle_roundtrip [OF demo_left_inv _ b o]
    by (auto simp: demo_left_def demo_parts)
qed

section \<open>Two failures\<close>

lemma size_align_0 [simp]: "VCOS_BLOCKPOOL_SIZE n bsize 0 = 0"
  by (simp add: VCOS_BLOCKPOOL_SIZE_def block_stride_def VCOS_BLOCKPOOL_ROUND_UP_def)

text \<open>
  \<open>vcos_generic_blockpool_create_on_heap\<close> with alignment 0, which asks for the default, fails
  with \<open>VCOS_ENOMEM\<close> even when memory is found, because the size is computed before the default is put in.
  The memory stays allocated.
\<close>

theorem vcos_generic_blockpool_create_on_heap_default_align:
  assumes "mallocs s = Some mem # ms" "VCOS_BLOCKPOOL_SIZE n bsize VCOS_BLOCKPOOL_ALIGN_DEFAULT \<noteq> 0"
  shows "vcos_generic_blockpool_create_on_heap p n bsize 0 s = (VCOS_ENOMEM, p, s\<lparr>mallocs := ms, live := (mem, 0) # live s\<rparr>)"
proof -
  have "0 < VCOS_BLOCKPOOL_SIZE n bsize VCOS_BLOCKPOOL_ALIGN_DEFAULT" using assms(2) by (simp add: word_neq_0_conv)
  then have "vcos_generic_blockpool_init p n bsize mem 0 0 t = (VCOS_ENOMEM, p, t)" for t :: "'a bp_store_scheme"
    by (simp add: vcos_generic_blockpool_init_def VCOS_BLOCKPOOL_ALIGN_DEFAULT_def)
  then show ?thesis using assms(1) by (simp add: vcos_generic_blockpool_create_on_heap_def vcos_malloc_def)
qed

theorem vcos_generic_blockpool_create_on_heap_default_align_witness:
  "fst (vcos_generic_blockpool_create_on_heap demo_zero 2 8 0 (demo_store\<lparr>mallocs := [Some 1000]\<rparr>)) = VCOS_ENOMEM"
proof -
  have "VCOS_BLOCKPOOL_SIZE 2 8 VCOS_BLOCKPOOL_ALIGN_DEFAULT \<noteq> 0"
    by (simp add: VCOS_BLOCKPOOL_SIZE_def VCOS_BLOCKPOOL_ALIGN_DEFAULT_def block_stride_def
        VCOS_BLOCKPOOL_ROUND_UP_def sizeof_VCOS_BLOCKPOOL_HEADER_T_def)
  then show ?thesis using vcos_generic_blockpool_create_on_heap_default_align
      [of "demo_store\<lparr>mallocs := [Some 1000]\<rparr>" 1000 "[]" 2 8 demo_zero] by simp
qed

end
