(* ===== verification/BufferPool.thy ===== *)
theory BufferPool
  imports BufferQueue
begin

text \<open>
  Pools of buffer headers, \<^verbatim>\<open>mmal/core/mmal_pool.c\<close>.  A pool owns a block that holds an array of
  pointers followed by the headers themselves, one payload for each header, obtained from the
  client's allocator, and a queue that holds the headers that are free.

  Header \<open>i\<close> is placed at \<open>header_start + i * header_size\<close> behind the array.  Function pointers
  are names; the argument \<open>pool_env\<close> says what the client's allocators and callbacks do.  A result
  \<open>None\<close> is a call that does not come back (it waits for ever, or follows a null pointer).
\<close>

section \<open>Data\<close>

datatype pool_callback = Mmal_port_connected_pool_cb | Mmal_connection_bh_release_cb | Client_pool_cb nat

record mmal_pool =
  pool_queue :: "addr option"
  pool_headers_num :: u32
  pool_header :: "addr option"
  pool_header_at :: "nat \<Rightarrow> addr option"   \<comment> \<open>the array at \<open>pool_header\<close>\<close>
  pool_cb :: "pool_callback option"
  pool_userdata :: "addr option"
  pool_allocator_alloc :: "payload_allocator option"
  pool_allocator_free :: "payload_allocator option"
  pool_allocator_context :: "addr option"
  pool_header_size :: u32
  pool_payload_size :: u32
  pool_headers_alloc_num :: u32

record pool_store = q_store +
  pools :: "addr \<Rightarrow> mmal_pool"

definition upd_pool :: "addr \<Rightarrow> (mmal_pool \<Rightarrow> mmal_pool) \<Rightarrow> 'a pool_store_scheme \<Rightarrow> 'a pool_store_scheme" where
  "upd_pool p f s = s\<lparr>pools := (pools s)(p := f (pools s p))\<rparr>"

record 's pool_env =
  env_alloc :: "payload_allocator \<Rightarrow> addr option \<Rightarrow> u32 \<Rightarrow> 's \<Rightarrow> addr option \<times> 's"
  env_free :: "payload_allocator \<Rightarrow> addr option \<Rightarrow> addr \<Rightarrow> 's \<Rightarrow> 's"
  env_cb :: "pool_callback \<Rightarrow> addr \<Rightarrow> addr \<Rightarrow> addr option \<Rightarrow> 's \<Rightarrow> (bool \<times> 's) option"
  env_pre_release :: "nat \<Rightarrow> addr \<Rightarrow> addr option \<Rightarrow> 's \<Rightarrow> (bool \<times> 's) option"
  env_release :: "nat \<Rightarrow> addr \<Rightarrow> 's \<Rightarrow> 's option"

definition zero_pool :: mmal_pool where
  "zero_pool = \<lparr>pool_queue = None, pool_headers_num = 0, pool_header = None, pool_header_at = (\<lambda>_. None),
     pool_cb = None, pool_userdata = None, pool_allocator_alloc = None, pool_allocator_free = None,
     pool_allocator_context = None, pool_header_size = 0, pool_payload_size = 0, pool_headers_alloc_num = 0\<rparr>"

definition sizeof_MMAL_POOL_PRIVATE_T :: u32 where "sizeof_MMAL_POOL_PRIVATE_T = 44"

section \<open>Allocators\<close>

definition mmal_pool_allocator_default_alloc ::
  "addr option \<Rightarrow> u32 \<Rightarrow> 'a pool_store_scheme \<Rightarrow> addr option \<times> 'a pool_store_scheme" where
  "mmal_pool_allocator_default_alloc context sz s = vcos_malloc sz s"

definition mmal_pool_allocator_default_free ::
  "addr option \<Rightarrow> addr \<Rightarrow> 'a pool_store_scheme \<Rightarrow> 'a pool_store_scheme" where
  "mmal_pool_allocator_default_free context mem s = vcos_free (Some mem) s"

definition call_alloc where
  "call_alloc env f context sz s =
     (if f = Mmal_pool_allocator_default then mmal_pool_allocator_default_alloc context sz s
      else env_alloc env f context sz s)"

definition call_free where
  "call_free env f context mem s =
     (if f = Mmal_pool_allocator_default then mmal_pool_allocator_default_free context mem s
      else env_free env f context mem s)"

section \<open>Laying out the headers\<close>

definition header_start :: "addr \<Rightarrow> u32 \<Rightarrow> addr" where
  "header_start base headers = base + unat (ROUND_UP (sizeof_ptr * headers) ALIGN)"

text \<open>The payload of a header is freed when it has one, a size and a function to free it.\<close>

definition free_payload :: "('a pool_store_scheme) pool_env \<Rightarrow> addr \<Rightarrow> 'a pool_store_scheme \<Rightarrow> 'a pool_store_scheme" where
  "free_payload env header s =
     (let b = bufs s header in
      case (pf_payload_free b, payload b) of
        (Some f, Some mem) \<Rightarrow>
          if payload_size b \<noteq> 0 then call_free env f (payload_context b) mem s else s
      | _ \<Rightarrow> s)"

definition set_header :: "addr \<Rightarrow> addr option \<Rightarrow> mmal_pool \<Rightarrow> mmal_buffer_header \<Rightarrow> mmal_buffer_header" where
  "set_header p mem pool b =
     b\<lparr>bh_data := mem, bh_alloc_size := pool_payload_size pool,
       pf_release := Some Mmal_pool_buffer_header_release, owner := Some p, refcount := 1,
       payload := mem, payload_context := pool_allocator_context pool,
       pf_payload_free := pool_allocator_free pool, payload_size := pool_payload_size pool\<rparr>"

fun initialise_headers ::
  "('a pool_store_scheme) pool_env \<Rightarrow> addr \<Rightarrow> bool \<Rightarrow> nat list \<Rightarrow> addr \<Rightarrow> addr option \<Rightarrow>
   'a pool_store_scheme \<Rightarrow> (mmal_status \<times> 'a pool_store_scheme) option" where
  "initialise_headers env p reinitialise [] header mem s = Some (MMAL_SUCCESS, s)"
| "initialise_headers env p reinitialise (i # is) header mem s =
     do {
       (header, s) \<leftarrow>
         (if reinitialise then
            (case mmal_buffer_header_initialise header (pool_header_size (pools s p)) s of
               (None, s) \<Rightarrow> None
             | (Some h, s) \<Rightarrow> Some (h, s))
          else Some (header, s));
       let pool = pools s p;
       let (failed, mem, s) =
         (case pool_allocator_alloc pool of
            Some f \<Rightarrow>
              if pool_payload_size pool \<noteq> 0 then
                (case call_alloc env f (pool_allocator_context pool) (pool_payload_size pool) s of
                   (None, s) \<Rightarrow> (True, None, s)
                 | (Some a, s) \<Rightarrow> (False, Some a, s))
              else (False, mem, free_payload env header s)
          | None \<Rightarrow> (False, mem, free_payload env header s));
       if failed then Some (MMAL_ENOMEM, s)
       else
         let s = upd_buf header (set_header p mem (pools s p)) s;
             s = upd_pool p (\<lambda>pl. pl\<lparr>pool_header_at := (pool_header_at pl)(i := Some header),
                                    pool_headers_num := word_of_nat (i + 1)\<rparr>) s
         in initialise_headers env p reinitialise is (header + unat (pool_header_size (pools s p))) mem s
     }"

definition mmal_pool_initialise_buffer_headers ::
  "('a pool_store_scheme) pool_env \<Rightarrow> addr \<Rightarrow> u32 \<Rightarrow> bool \<Rightarrow> 'a pool_store_scheme \<Rightarrow>
   (mmal_status \<times> 'a pool_store_scheme) option" where
  "mmal_pool_initialise_buffer_headers env p headers reinitialise s =
     (case pool_header (pools s p) of
        None \<Rightarrow> if headers = 0 then Some (MMAL_SUCCESS, s) else None
      | Some base \<Rightarrow>
          initialise_headers env p reinitialise [0..<unat headers] (header_start base headers) None s)"

section \<open>Creating, destroying and resizing\<close>

fun queue_headers :: "addr option \<Rightarrow> (nat \<Rightarrow> addr option) \<Rightarrow> nat list \<Rightarrow> 'a q_store_scheme \<Rightarrow> 'a q_store_scheme" where
  "queue_headers queue arr [] s = s"
| "queue_headers queue arr (i # is) s = queue_headers queue arr is (mmal_queue_put queue (arr i) s)"

fun free_payloads :: "('a pool_store_scheme) pool_env \<Rightarrow> (nat \<Rightarrow> addr option) \<Rightarrow> nat list \<Rightarrow>
    'a pool_store_scheme \<Rightarrow> 'a pool_store_scheme" where
  "free_payloads env arr [] s = s"
| "free_payloads env arr (i # is) s =
     free_payloads env arr is (case arr i of None \<Rightarrow> s | Some h \<Rightarrow> free_payload env h s)"

definition mmal_pool_destroy ::
  "('a pool_store_scheme) pool_env \<Rightarrow> addr option \<Rightarrow> 'a pool_store_scheme \<Rightarrow> 'a pool_store_scheme" where
  "mmal_pool_destroy env pool s =
     (case pool of
        None \<Rightarrow> s
      | Some p \<Rightarrow>
          let s = free_payloads env (pool_header_at (pools s p)) [0..<unat (pool_headers_num (pools s p))] s;
              s = vcos_free (pool_header (pools s p)) s;
              s = mmal_queue_destroy (pool_queue (pools s p)) s
          in vcos_free (Some p) s)"

definition headers_block_size :: "u32 \<Rightarrow> u32 \<Rightarrow> u32" where
  "headers_block_size header_size headers = ROUND_UP (sizeof_ptr * headers) ALIGN + header_size * headers"

definition mmal_pool_create_with_allocator ::
  "('a pool_store_scheme) pool_env \<Rightarrow> u32 \<Rightarrow> u32 \<Rightarrow> addr option \<Rightarrow> payload_allocator option \<Rightarrow>
   payload_allocator option \<Rightarrow> 'a pool_store_scheme \<Rightarrow> (addr option \<times> 'a pool_store_scheme) option" where
  "mmal_pool_create_with_allocator env headers psize context alloc free s =
     (case mmal_queue_create s of
        (None, s) \<Rightarrow> Some (None, s)
      | (Some queue, s) \<Rightarrow>
          let header_size = ROUND_UP mmal_buffer_header_size ALIGN;
              (priv, s) = vcos_calloc (ROUND_UP sizeof_MMAL_POOL_PRIVATE_T ALIGN) 1 s;
              (array, s) = vcos_calloc (headers_block_size header_size headers) 1 s
          in case (priv, array) of
               (Some p, Some a) \<Rightarrow>
                 let (context, alloc, free) =
                       (if alloc = None \<or> free = None
                        then (None, Some Mmal_pool_allocator_default, Some Mmal_pool_allocator_default)
                        else (context, alloc, free));
                     s = upd_pool p (\<lambda>_. zero_pool\<lparr>pool_queue := Some queue, pool_header := Some a,
                           pool_header_size := header_size, pool_payload_size := psize,
                           pool_headers_alloc_num := headers, pool_allocator_alloc := alloc,
                           pool_allocator_free := free, pool_allocator_context := context\<rparr>) s
                 in do {
                   (status, s) \<leftarrow> mmal_pool_initialise_buffer_headers env p headers True s;
                   if status \<noteq> MMAL_SUCCESS then Some (None, mmal_pool_destroy env (Some p) s)
                   else Some (Some p, queue_headers (Some queue) (pool_header_at (pools s p))
                                        [0..<unat (pool_headers_num (pools s p))] s)
                 }
             | _ \<Rightarrow> Some (None, mmal_queue_destroy (Some queue) (vcos_free array (vcos_free priv s))))"

definition mmal_pool_create ::
  "('a pool_store_scheme) pool_env \<Rightarrow> u32 \<Rightarrow> u32 \<Rightarrow> 'a pool_store_scheme \<Rightarrow>
   (addr option \<times> 'a pool_store_scheme) option" where
  "mmal_pool_create env headers psize s =
     mmal_pool_create_with_allocator env headers psize None
       (Some Mmal_pool_allocator_default) (Some Mmal_pool_allocator_default) s"

text \<open>\<open>for (i = 0; i < pool->headers_num; i++) mmal_queue_get(pool->queue);\<close>\<close>

fun drain_queue :: "addr option \<Rightarrow> nat \<Rightarrow> 'a q_store_scheme \<Rightarrow> 'a q_store_scheme option" where
  "drain_queue queue 0 s = Some s"
| "drain_queue queue (Suc n) s = do { (_, s) \<leftarrow> mmal_queue_get queue s; drain_queue queue n s }"

definition mmal_pool_resize ::
  "('a pool_store_scheme) pool_env \<Rightarrow> addr option \<Rightarrow> u32 \<Rightarrow> u32 \<Rightarrow> 'a pool_store_scheme \<Rightarrow>
   (mmal_status \<times> 'a pool_store_scheme) option" where
  "mmal_pool_resize env pool headers psize s =
     (case pool of
        None \<Rightarrow> Some (MMAL_EINVAL, s)
      | Some p \<Rightarrow>
          if headers = 0 then Some (MMAL_EINVAL, s)
          else if headers = pool_headers_num (pools s p) \<and> psize = pool_payload_size (pools s p)
          then Some (MMAL_SUCCESS, s)
          else do {
            s \<leftarrow> drain_queue (pool_queue (pools s p)) (unat (pool_headers_num (pools s p))) s;
            let s = upd_pool p (\<lambda>pl. pl\<lparr>pool_payload_size := 0\<rparr>) s;
            (_, s) \<leftarrow> mmal_pool_initialise_buffer_headers env p (pool_headers_num (pools s p)) False s;
            let s = upd_pool p (\<lambda>pl. pl\<lparr>pool_headers_num := 0\<rparr>) s;
            let (enomem, s) =
              (if pool_headers_alloc_num (pools s p) < headers then
                 let s = upd_pool p (\<lambda>pl. pl\<lparr>pool_headers_alloc_num := 0\<rparr>) s;
                     s = vcos_free (pool_header (pools s p)) s;
                     (block, s) = vcos_calloc (headers_block_size (pool_header_size (pools s p)) headers) 1 s;
                     s = upd_pool p (\<lambda>pl. pl\<lparr>pool_header := block, pool_header_at := (\<lambda>_. None)\<rparr>) s
                 in (block = None,
                     if block = None then s
                     else upd_pool p (\<lambda>pl. pl\<lparr>pool_headers_alloc_num := headers\<rparr>) s)
               else (False, s));
            if enomem then Some (MMAL_ENOMEM, s)
            else do {
              let s = upd_pool p (\<lambda>pl. pl\<lparr>pool_payload_size := psize\<rparr>) s;
              (_, s) \<leftarrow> mmal_pool_initialise_buffer_headers env p headers True s;
              Some (MMAL_SUCCESS, queue_headers (pool_queue (pools s p)) (pool_header_at (pools s p))
                      [0..<unat (pool_headers_num (pools s p))] s)
            }
          })"

lemma drain_queue_numeral:
  "drain_queue queue (numeral k) s = do { (_, s) \<leftarrow> mmal_queue_get queue s; drain_queue queue (pred_numeral k) s }"
  by (simp add: numeral_eq_Suc)

section \<open>Recycling\<close>

definition mmal_pool_buffer_header_release ::
  "('a pool_store_scheme) pool_env \<Rightarrow> addr \<Rightarrow> 'a pool_store_scheme \<Rightarrow> 'a pool_store_scheme option" where
  "mmal_pool_buffer_header_release env header s =
     (case owner (bufs s header) of
        None \<Rightarrow> None
      | Some p \<Rightarrow>
          let s = upd_buf header (\<lambda>b. b\<lparr>refcount := 1\<rparr>) s in
          do {
            (queue_buffer, s) \<leftarrow>
              (case pool_cb (pools s p) of
                 None \<Rightarrow> Some (True, s)
               | Some cb \<Rightarrow> env_cb env cb p header (pool_userdata (pools s p)) s);
            Some (if queue_buffer then mmal_queue_put (pool_queue (pools s p)) (Some header) s else s)
          })"

definition mmal_pool_callback_set ::
  "addr \<Rightarrow> pool_callback option \<Rightarrow> addr option \<Rightarrow> 'a pool_store_scheme \<Rightarrow> 'a pool_store_scheme" where
  "mmal_pool_callback_set p cb userdata s =
     upd_pool p (\<lambda>pl. pl\<lparr>pool_cb := cb, pool_userdata := userdata\<rparr>) s"

fun set_pre_release :: "nat option \<Rightarrow> addr option \<Rightarrow> nat \<Rightarrow> addr \<Rightarrow> nat \<Rightarrow> 'a bh_store_scheme \<Rightarrow> 'a bh_store_scheme" where
  "set_pre_release cb userdata 0 header step s = s"
| "set_pre_release cb userdata (Suc n) header step s =
     set_pre_release cb userdata n (header + step) step
       (mmal_buffer_header_pre_release_cb_set header cb userdata s)"

definition mmal_pool_pre_release_callback_set ::
  "addr \<Rightarrow> nat option \<Rightarrow> addr option \<Rightarrow> 'a pool_store_scheme \<Rightarrow> 'a pool_store_scheme" where
  "mmal_pool_pre_release_callback_set p cb userdata s =
     (case pool_header (pools s p) of
        None \<Rightarrow> s
      | Some base \<Rightarrow>
          set_pre_release cb userdata (unat (pool_headers_num (pools s p)))
            (header_start base (pool_headers_num (pools s p))) (unat (pool_header_size (pools s p))) s)"

section \<open>Layout of the headers\<close>

lemma pools_upd_pool [simp]: "pools (upd_pool p f s) = (pools s)(p := f (pools s p))"
  by (simp add: upd_pool_def)

lemma upd_pool_sel [simp]:
  "bufs (upd_pool p f s) = bufs s" "queues (upd_pool p f s) = queues s"
  "live (upd_pool p f s) = live s" "sync (upd_pool p f s) = sync s"
  "mallocs (upd_pool p f s) = mallocs s" "creates (upd_pool p f s) = creates s"
  by (simp_all add: upd_pool_def)

lemma upd_buf_sel [simp]:
  "queues (upd_buf h g t) = queues t" "live (upd_buf h g s) = live s" "sync (upd_buf h g s) = sync s"
  "mallocs (upd_buf h g s) = mallocs s" "pools (upd_buf h g u) = pools u"
  "pool_store.more (upd_buf h g u) = pool_store.more u" "pool_store.more (upd_pool p f u) = pool_store.more u"
  by (simp_all add: upd_buf_def upd_pool_def)

lemma fresh_allocs_cong:
  "mallocs s = mallocs t \<Longrightarrow> live s = live t \<Longrightarrow> fresh_allocs s = fresh_allocs t"
  by (simp add: fresh_allocs_def granted_def)

lemma call_default [simp]:
  "call_alloc env Mmal_pool_allocator_default c sz s = vcos_malloc sz s"
  "call_free env Mmal_pool_allocator_default c a s = vcos_free (Some a) s"
  by (simp_all add: call_alloc_def call_free_def mmal_pool_allocator_default_alloc_def
      mmal_pool_allocator_default_free_def)

text \<open>What the layout relies on in the pool: the default allocators and room for a header.\<close>

definition default_pool :: "mmal_pool \<Rightarrow> bool" where
  "default_pool pl \<longleftrightarrow>
     pool_allocator_alloc pl = Some Mmal_pool_allocator_default \<and>
     pool_allocator_free pl = Some Mmal_pool_allocator_default \<and>
     mmal_buffer_header_size \<le> pool_header_size pl"

lemma default_pool_size: "default_pool pl \<Longrightarrow> 0 < unat (pool_header_size pl)"
  by (simp add: default_pool_def word_le_nat_alt mmal_buffer_header_size_eq)

text \<open>
  The state after the first headers of pool \<open>p\<close> have been laid out from \<open>start\<close>: \<open>ms\<close> are their
  payloads, \<open>live0\<close> the blocks that existed before.
\<close>

definition laid_out ::
  "addr \<Rightarrow> mmal_pool \<Rightarrow> addr \<Rightarrow> (addr \<times> u32) list \<Rightarrow> addr option list \<Rightarrow> 'a pool_store_scheme \<Rightarrow> bool" where
  "laid_out p pl start live0 ms s \<longleftrightarrow>
     pools s p = pl\<lparr>pool_header_at := pool_header_at (pools s p), pool_headers_num := word_of_nat (length ms)\<rparr> \<and>
     (\<forall>j<length ms. pool_header_at (pools s p) j = Some (start + j * unat (pool_header_size pl)) \<and>
        bufs s (start + j * unat (pool_header_size pl)) = set_header p (ms ! j) pl zero_buffer_header) \<and>
     (\<forall>m\<in>set ms. m = None \<longleftrightarrow> pool_payload_size pl = 0) \<and>
     live s = map (\<lambda>a. (a, pool_payload_size pl)) (rev (List.map_filter id ms)) @ live0 \<and>
     set (List.map_filter id ms) \<inter> fst ` set live0 = {} \<and>
     fresh_allocs s"

lemma map_filter_append [simp]: "List.map_filter f (xs @ ys) = List.map_filter f xs @ List.map_filter f ys"
  by (simp add: List.map_filter_def)

lemma map_filter_single: "List.map_filter id [m] = (case m of None \<Rightarrow> [] | Some a \<Rightarrow> [a])"
  by (cases m) (simp_all add: List.map_filter_simps)

lemma set_header_upd:
  "set_header p m (pl\<lparr>pool_header_at := f, pool_headers_num := n\<rparr>) = set_header p m pl"
  by (simp add: set_header_def fun_eq_iff)

lemma laid_out_snoc:
  assumes part: "laid_out p pl start live0 ms s" and dp: "default_pool pl"
    and s1: "s1 = upd_buf h (\<lambda>_. zero_buffer_header) s" and h: "h = start + length ms * unat (pool_header_size pl)"
    and s2: "mallocs s2 = mallocs' " "live s2 = (case m of None \<Rightarrow> [] | Some a \<Rightarrow> [(a, pool_payload_size pl)]) @ live s"
      "bufs s2 = bufs s1" "pools s2 = pools s"
    and m: "m = None \<longleftrightarrow> pool_payload_size pl = 0" "\<And>a. m = Some a \<Longrightarrow> a \<notin> fst ` set (live s)" "fresh_allocs s2"
  shows "laid_out p pl start live0 (ms @ [m])
     (upd_pool p (\<lambda>pl. pl\<lparr>pool_header_at := (pool_header_at pl)(length ms := Some h),
         pool_headers_num := word_of_nat (length ms + 1)\<rparr>)
       (upd_buf h (set_header p m (pools s2 p)) s2))" (is "laid_out p pl start live0 _ ?s")
proof -
  let ?hs = "unat (pool_header_size pl)"
  have pools: "pools s p = pl\<lparr>pool_header_at := pool_header_at (pools s p), pool_headers_num := word_of_nat (length ms)\<rparr>"
    and hdr: "\<And>j. j < length ms \<Longrightarrow> pool_header_at (pools s p) j = Some (start + j * ?hs) \<and>
        bufs s (start + j * ?hs) = set_header p (ms ! j) pl zero_buffer_header"
    using part by (simp_all add: laid_out_def)
  have hs: "0 < ?hs" using dp by (rule default_pool_size)
  have sh: "set_header p m (pools s p) = set_header p m pl"
    by (subst pools) (rule set_header_upd)
  have "pools ?s p = (pools s p)\<lparr>pool_header_at := pool_header_at (pools ?s p),
      pool_headers_num := word_of_nat (length (ms @ [m]))\<rparr>"
    by (simp add: s2(4))
  also have "\<dots> = pl\<lparr>pool_header_at := pool_header_at (pools ?s p),
      pool_headers_num := word_of_nat (length (ms @ [m]))\<rparr>"
    by (subst pools) simp
  finally have 1: "pools ?s p = \<dots>" .
  have 2: "pool_header_at (pools ?s p) j = Some (start + j * ?hs) \<and>
      bufs ?s (start + j * ?hs) = set_header p ((ms @ [m]) ! j) pl zero_buffer_header"
    if "j < length (ms @ [m])" for j
  proof (cases "j = length ms")
    case True
    then show ?thesis by (simp add: s2 s1 h sh)
  next
    case False
    with that have j: "j < length ms" by simp
    with hs have "start + j * ?hs \<noteq> h" unfolding h by simp
    with j hdr [OF j] show ?thesis by (simp add: s2 s1 nth_append)
  qed
  have 3: "set (List.map_filter id (ms @ [m])) \<inter> fst ` set live0 = {}"
    using part m(2) by (cases m) (auto simp: laid_out_def map_filter_single)
  have 4: "live ?s = map (\<lambda>a. (a, pool_payload_size pl)) (rev (List.map_filter id (ms @ [m]))) @ live0"
    using part by (cases m) (simp_all add: laid_out_def map_filter_single s2)
  have 5: "fresh_allocs ?s" using m(3) by (simp add: fresh_allocs_def granted_def)
  from 1 2 3 4 5 part m(1) show ?thesis unfolding laid_out_def by auto
qed

lemma initialise_headers_laid_out:
  assumes "laid_out p pl start live0 ms s" "default_pool pl" "pool_payload_size pl = 0 \<longrightarrow> mem = None"
    and "is = [length ms..<n]" "length ms \<le> n"
  shows "\<exists>st s' ms'. initialise_headers env p True is
            (start + length ms * unat (pool_header_size pl)) mem s = Some (st, s') \<and>
          laid_out p pl start live0 ms' s' \<and> (st = MMAL_SUCCESS \<longleftrightarrow> length ms' = n) \<and> length ms' \<le> n \<and>
          queues s' = queues s \<and> sync s' = sync s \<and> pool_store.more s' = pool_store.more s"
  using assms
proof (induction "is" arbitrary: ms s mem)
  case Nil
  then have "n \<le> length ms" using upt_eq_Nil_conv [of "length ms" n] by auto
  then have "length ms = n" using Nil.prems(5) by simp
  with Nil show ?case by (intro exI [of _ MMAL_SUCCESS] exI [of _ s] exI [of _ ms]) simp
next
  case (Cons i rest)
  let ?hs = "unat (pool_header_size pl)"
  define h where "h = start + length ms * ?hs"
  define s1 where "s1 = upd_buf h (\<lambda>_. zero_buffer_header) s"
  have lt: "length ms < n" and i: "i = length ms" and rest: "rest = [Suc (length ms)..<n]"
    using Cons.prems(4) [symmetric] by (auto simp: upt_eq_Cons_conv)
  have pools: "pools s p = pl\<lparr>pool_header_at := pool_header_at (pools s p), pool_headers_num := word_of_nat (length ms)\<rparr>"
    using Cons.prems(1) by (simp add: laid_out_def)
  have fld: "pool_header_size (pools s p) = pool_header_size pl" "pool_payload_size (pools s p) = pool_payload_size pl"
    "pool_allocator_alloc (pools s p) = Some Mmal_pool_allocator_default"
    using Cons.prems(2) by (subst pools, simp add: default_pool_def)+
  have init: "mmal_buffer_header_initialise h (pool_header_size (pools s p)) s = (Some h, s1)"
    using Cons.prems(2) by (simp add: mmal_buffer_header_initialise_def fld default_pool_def s1_def not_less)
  have keep: "mallocs s1 = mallocs s" "live s1 = live s" "pools s1 = pools s" "queues s1 = queues s" "sync s1 = sync s"
    "pool_store.more s1 = pool_store.more s" by (simp_all add: s1_def)
  have "fresh_allocs s" using Cons.prems(1) by (simp add: laid_out_def)
  then have fresh: "fresh_allocs s1" using fresh_allocs_cong [of s1 s] keep by simp
  have next_h: "h + ?hs = start + length (ms @ [m]) * ?hs" for m by (simp add: h_def)
  consider (zero) "pool_payload_size pl = 0"
    | (fail) s2 where "pool_payload_size pl \<noteq> 0" "vcos_malloc (pool_payload_size pl) s1 = (None, s2)"
    | (alloc) a s2 where "pool_payload_size pl \<noteq> 0" "vcos_malloc (pool_payload_size pl) s1 = (Some a, s2)"
    by (cases "vcos_malloc (pool_payload_size pl) s1"; cases "fst (vcos_malloc (pool_payload_size pl) s1)") auto
  then show ?case
  proof cases
    case zero
    let ?s2 = "upd_pool p (\<lambda>pl. pl\<lparr>pool_header_at := (pool_header_at pl)(length ms := Some h),
         pool_headers_num := word_of_nat (length ms + 1)\<rparr>) (upd_buf h (set_header p None (pools s1 p)) s1)"
    have "free_payload env h s1 = s1" by (simp add: free_payload_def s1_def zero_buffer_header_def Let_def)
    moreover have l: "laid_out p pl start live0 (ms @ [None]) ?s2"
      using zero fresh keep h_def s1_def Cons.prems(1,2) by (intro laid_out_snoc [OF _ _ s1_def]) simp_all
    ultimately have step: "initialise_headers env p True (i # rest) h mem s =
        initialise_headers env p True rest (h + ?hs) None ?s2"
      using init zero Cons.prems(3) fld keep by (simp add: i Let_def)
    have "pool_payload_size pl = 0 \<longrightarrow> (None :: addr option) = None" "rest = [length (ms @ [None])..<n]"
      "length (ms @ [None]) \<le> n"
      using rest lt by simp_all
    from Cons.IH [OF l Cons.prems(2) this] step show ?thesis unfolding h_def [symmetric] next_h [symmetric] by (simp add: keep)
  next
    case (fail s2)
    note s2 = vcos_malloc_None [OF fail(2)]
    have "initialise_headers env p True (i # rest) h mem s = Some (MMAL_ENOMEM, s2)"
      using init fail fld keep by (simp add: i Let_def)
    moreover have "laid_out p pl start live0 ms s2"
    proof -
      have "fresh_allocs s2" using fail(2) fresh by (rule vcos_malloc_fresh)
      moreover have "bufs s2 (start + j * ?hs) = bufs s (start + j * ?hs)" if "j < length ms" for j
      proof -
        have "0 < ?hs" using Cons.prems(2) by (rule default_pool_size)
        with that show ?thesis by (simp add: s2 s1_def h_def)
      qed
      moreover have "pools s2 = pools s" "live s2 = live s" using s2 keep by simp_all
      ultimately show ?thesis using Cons.prems(1) unfolding laid_out_def by simp
    qed
    ultimately show ?thesis unfolding h_def
      using lt s2 keep by (intro exI [of _ MMAL_ENOMEM] exI [of _ s2] exI [of _ ms]) simp
  next
    case (alloc a s2)
    note s2 = vcos_malloc_Some [OF alloc(2) fresh]
    let ?s3 = "upd_pool p (\<lambda>pl. pl\<lparr>pool_header_at := (pool_header_at pl)(length ms := Some h),
         pool_headers_num := word_of_nat (length ms + 1)\<rparr>) (upd_buf h (set_header p (Some a) (pools s2 p)) s2)"
    have l: "laid_out p pl start live0 (ms @ [Some a]) ?s3"
      using alloc s2 keep by (intro laid_out_snoc [OF Cons.prems(1,2) s1_def h_def]) simp_all
    have step: "initialise_headers env p True (i # rest) h mem s =
        initialise_headers env p True rest (h + ?hs) (Some a) ?s3"
      using init alloc fld keep s2(1) by (simp add: i Let_def)
    have "pool_payload_size pl = 0 \<longrightarrow> Some a = None" "rest = [length (ms @ [Some a])..<n]"
      "length (ms @ [Some a]) \<le> n"
      using alloc rest lt by simp_all
    from Cons.IH [OF l Cons.prems(2) this] step show ?thesis
      unfolding h_def [symmetric] next_h [symmetric] by (simp add: keep s2(1))
  qed
qed

section \<open>Creating and destroying\<close>

lemma put_sel [simp]:
  "live (mmal_queue_put q b s) = live s" "sync (mmal_queue_put q b s) = sync s"
  "mallocs (mmal_queue_put q b s) = mallocs s"
  "pools (mmal_queue_put q b t) = pools t" "pool_store.more (mmal_queue_put q b t) = pool_store.more t"
  by (auto simp: mmal_queue_put_def store_last_def Let_def upd_queue_def set_next_def upd_buf_def
      split: option.splits last_link.splits)

lemma queue_headers_rep:
  "queue_rep q s xs \<Longrightarrow> (\<forall>i\<in>set is. arr i = Some (h i)) \<Longrightarrow> distinct (xs @ map h is) \<Longrightarrow>
   queue_rep q (queue_headers (Some q) arr is s) (xs @ map h is)"
proof (induction "is" arbitrary: s xs)
  case (Cons i "is")
  have "queue_rep q (mmal_queue_put (Some q) (Some (h i)) s) (xs @ [h i])"
    using Cons.prems by (intro queue_rep_put) auto
  from Cons.IH [OF this] Cons.prems show ?case by simp
qed simp

lemma queue_headers_only_links:
  "(\<forall>i\<in>set is. arr i \<noteq> None) \<Longrightarrow>
   \<exists>n. bufs (queue_headers (Some q) arr is s) x = (bufs s x)\<lparr>bh_next := n\<rparr>"
proof (induction "is" arbitrary: s)
  case Nil
  have "bufs s x = (bufs s x)\<lparr>bh_next := bh_next (bufs s x)\<rparr>" by simp
  then show ?case unfolding queue_headers.simps by (rule exI)
next
  case (Cons i "is")
  then obtain h where h: "arr i = Some h" by auto
  from Cons obtain n where "bufs (queue_headers (Some q) arr is (mmal_queue_put (Some q) (Some h) s)) x
      = (bufs (mmal_queue_put (Some q) (Some h) s) x)\<lparr>bh_next := n\<rparr>" by auto
  moreover obtain n' where "bufs (mmal_queue_put (Some q) (Some h) s) x = (bufs s x)\<lparr>bh_next := n'\<rparr>"
    using put_only_links by blast
  ultimately show ?case using h by auto
qed

lemma queue_headers_sel [simp]:
  "live (queue_headers q arr is s) = live s" "sync (queue_headers q arr is s) = sync s"
  "mallocs (queue_headers q arr is s) = mallocs s"
  "pools (queue_headers q arr is t) = pools t" "pool_store.more (queue_headers q arr is t) = pool_store.more t"
  by (induction "is" arbitrary: s t) simp_all

lemma vcos_free_sel [simp]:
  "sync (vcos_free a s) = sync s" "bufs (vcos_free a t) = bufs t" "queues (vcos_free a u) = queues u"
  "pools (vcos_free a v) = pools v" "pool_store.more (vcos_free a v) = pool_store.more v"
  by (auto simp: vcos_free_def split: option.splits)

lemma mmal_queue_destroy_live:
  "live (mmal_queue_destroy (Some q) s) = filter (\<lambda>(b, _). b \<noteq> q) (live s)"
  "sync (mmal_queue_destroy (Some q) s) = remove1 (Semaphore q) (remove1 (Mutex q) (sync s))"
  "pool_store.more (mmal_queue_destroy (Some q) t) = pool_store.more t"
  by (simp_all add: mmal_queue_destroy_def vcos_free_def vcos_delete_def)

lemma free_payloads_live:
  "(\<forall>j\<in>set js. \<exists>h. arr j = Some h \<and> payload (bufs s h) = m j \<and>
      (m j \<noteq> None \<longrightarrow> payload_size (bufs s h) \<noteq> 0 \<and> pf_payload_free (bufs s h) = Some Mmal_pool_allocator_default)) \<Longrightarrow>
   live (free_payloads env arr js s) = filter (\<lambda>(b, _). b \<notin> set (List.map_filter m js)) (live s) \<and>
   pools (free_payloads env arr js s) = pools s \<and> sync (free_payloads env arr js s) = sync s \<and>
   pool_store.more (free_payloads env arr js s) = pool_store.more s"
proof (induction js arbitrary: s)
  case Nil
  then show ?case by (simp add: List.map_filter_simps)
next
  case (Cons j js)
  then obtain h where h: "arr j = Some h" "payload (bufs s h) = m j"
    "m j \<noteq> None \<longrightarrow> payload_size (bufs s h) \<noteq> 0 \<and> pf_payload_free (bufs s h) = Some Mmal_pool_allocator_default"
    by auto
  have fp: "free_payload env h s = (case m j of None \<Rightarrow> s | Some a \<Rightarrow> vcos_free (Some a) s)"
    using h by (auto simp: free_payload_def Let_def split: option.splits)
  have "bufs (free_payload env h s) = bufs s" unfolding fp by (simp split: option.split)
  with Cons.IH [of "free_payload env h s"] Cons.prems
  have IH: "live (free_payloads env arr js (free_payload env h s)) =
      filter (\<lambda>(b, _). b \<notin> set (List.map_filter m js)) (live (free_payload env h s)) \<and>
    pools (free_payloads env arr js (free_payload env h s)) = pools (free_payload env h s) \<and>
    sync (free_payloads env arr js (free_payload env h s)) = sync (free_payload env h s) \<and>
    pool_store.more (free_payloads env arr js (free_payload env h s)) = pool_store.more (free_payload env h s)"
    by simp
  have "live (free_payload env h s) = filter (\<lambda>(b, _). m j \<noteq> Some b) (live s)"
    unfolding fp by (auto simp: vcos_free_def intro!: filter_cong split: option.split)
  with IH h(1) fp show ?case
    by (auto simp: List.map_filter_simps intro!: filter_cong split: option.split)
qed

lemma filter_out_all:
  "set (map fst xs) \<subseteq> A \<Longrightarrow> A \<inter> fst ` set ys = {} \<Longrightarrow> filter (\<lambda>(b, _). b \<notin> A) (xs @ ys) = ys"
proof -
  assume xs: "set (map fst xs) \<subseteq> A" and ys: "A \<inter> fst ` set ys = {}"
  have "filter (\<lambda>(b, _). b \<notin> A) xs = []" using xs by (auto simp: filter_empty_conv)
  moreover have "filter (\<lambda>(b, _). b \<notin> A) ys = ys" using ys by (induction ys) auto
  ultimately show ?thesis by simp
qed

lemma map_filter_nth: "List.map_filter ((!) ms) [0..<length ms] = List.map_filter id ms"
proof -
  have "List.map_filter id ms = List.map_filter id (map ((!) ms) [0..<length ms])" by (simp add: map_nth)
  also have "\<dots> = List.map_filter ((!) ms) [0..<length ms]" by (simp add: List.map_filter_def comp_def filter_map)
  finally show ?thesis by simp
qed

text \<open>What is freed of a pool depends on its headers, not on how they are linked in the queue.\<close>

lemma laid_out_payloads:
  assumes l: "laid_out p pl start live0 ms s" and dp: "default_pool pl"
    and s': "\<And>x. \<exists>n. bufs s' x = (bufs s x)\<lparr>bh_next := n\<rparr>"
  shows "\<forall>j\<in>set [0..<length ms]. \<exists>h. pool_header_at (pools s p) j = Some h \<and> payload (bufs s' h) = ms ! j \<and>
      (ms ! j \<noteq> None \<longrightarrow> payload_size (bufs s' h) \<noteq> 0 \<and>
        pf_payload_free (bufs s' h) = Some Mmal_pool_allocator_default)"
proof
  fix j assume "j \<in> set [0..<length ms]"
  then have j: "j < length ms" by simp
  let ?h = "start + j * unat (pool_header_size pl)"
  have "pool_header_at (pools s p) j = Some ?h" "bufs s ?h = set_header p (ms ! j) pl zero_buffer_header"
    "ms ! j = None \<longleftrightarrow> pool_payload_size pl = 0"
    using l j by (auto simp: laid_out_def)
  moreover obtain n where "bufs s' ?h = (bufs s ?h)\<lparr>bh_next := n\<rparr>" using s' by blast
  ultimately show "\<exists>h. pool_header_at (pools s p) j = Some h \<and> payload (bufs s' h) = ms ! j \<and>
    (ms ! j \<noteq> None \<longrightarrow> payload_size (bufs s' h) \<noteq> 0 \<and>
      pf_payload_free (bufs s' h) = Some Mmal_pool_allocator_default)"
    using dp by (simp add: set_header_def default_pool_def)
qed

lemma free_payloads_laid_out:
  assumes l: "laid_out p pl start live0 ms s" and dp: "default_pool pl"
    and s': "\<And>x. \<exists>n. bufs s' x = (bufs s x)\<lparr>bh_next := n\<rparr>" "live s' = live s" "pools s' = pools s"
  shows "live (free_payloads env (pool_header_at (pools s p)) [0..<length ms] s') = live0 \<and>
    pools (free_payloads env (pool_header_at (pools s p)) [0..<length ms] s') = pools s \<and>
    sync (free_payloads env (pool_header_at (pools s p)) [0..<length ms] s') = sync s' \<and>
    pool_store.more (free_payloads env (pool_header_at (pools s p)) [0..<length ms] s') = pool_store.more s'"
proof -
  note pre = laid_out_payloads [OF l dp s'(1)]
  have "live s = map (\<lambda>a. (a, pool_payload_size pl)) (rev (List.map_filter id ms)) @ live0"
    "set (List.map_filter id ms) \<inter> fst ` set live0 = {}"
    using l by (simp_all add: laid_out_def)
  then have "filter (\<lambda>(b, _). b \<notin> set (List.map_filter id ms)) (live s) = live0"
    using filter_out_all [of "map (\<lambda>a. (a, pool_payload_size pl)) (rev (List.map_filter id ms))"
        "set (List.map_filter id ms)" live0] by (simp add: image_image)
  with free_payloads_live [OF pre, of env] s' show ?thesis by (simp add: map_filter_nth)
qed

definition header_addr :: "addr \<Rightarrow> u32 \<Rightarrow> nat \<Rightarrow> addr" where
  "header_addr base headers j = header_start base headers + j * unat (ROUND_UP mmal_buffer_header_size ALIGN)"

definition created_pool :: "addr \<Rightarrow> addr \<Rightarrow> u32 \<Rightarrow> u32 \<Rightarrow> mmal_pool" where
  "created_pool queue block headers psize =
     zero_pool\<lparr>pool_queue := Some queue, pool_header := Some block,
       pool_header_size := ROUND_UP mmal_buffer_header_size ALIGN, pool_payload_size := psize,
       pool_headers_alloc_num := headers, pool_allocator_alloc := Some Mmal_pool_allocator_default,
       pool_allocator_free := Some Mmal_pool_allocator_default, pool_allocator_context := None\<rparr>"

lemma header_size_472: "ROUND_UP mmal_buffer_header_size ALIGN = 472"
  by (simp add: mmal_buffer_header_size_eq ROUND_UP_def ALIGN_def)

lemma header_size_472' [simp]: "ROUND_UP 464 ALIGN = 472"
  using header_size_472 by (simp add: mmal_buffer_header_size_eq)

lemma default_created_pool [simp]: "default_pool (created_pool queue block headers psize)"
  by (simp add: default_pool_def created_pool_def header_size_472 mmal_buffer_header_size_eq)

lemma created_pool_sel [simp]:
  "pool_queue (created_pool queue block headers psize) = Some queue"
  "pool_header (created_pool queue block headers psize) = Some block"
  "pool_header_size (created_pool queue block headers psize) = ROUND_UP mmal_buffer_header_size ALIGN"
  "pool_payload_size (created_pool queue block headers psize) = psize"
  "pool_headers_num (created_pool queue block headers psize) = 0"
  by (simp_all add: created_pool_def zero_pool_def)

text \<open>Destroying a pool whose headers are laid out gives back its blocks and those of its queue.\<close>

lemma mmal_pool_destroy_laid_out:
  assumes l: "laid_out p (created_pool q a headers psize) start ((a, n1) # (p, n2) # (q, n3) # live0) ms s"
    and len: "length ms < 2 ^ 32"
    and dist: "a \<notin> fst ` set live0" "p \<notin> fst ` set live0" "q \<notin> fst ` set live0" "distinct [a, p, q]"
    and s': "\<And>x. \<exists>n. bufs s' x = (bufs s x)\<lparr>bh_next := n\<rparr>" "live s' = live s" "pools s' = pools s"
      "sync s' = [Semaphore q, Mutex q] @ sync0"
  shows "live (mmal_pool_destroy env (Some p) s') = live0 \<and> sync (mmal_pool_destroy env (Some p) s') = sync0 \<and>
    pool_store.more (mmal_pool_destroy env (Some p) s') = pool_store.more s'"
proof -
  let ?arr = "pool_header_at (pools s p)"
  let ?s1 = "free_payloads env ?arr [0..<length ms] s'"
  have pl: "pools s p = (created_pool q a headers psize)\<lparr>pool_header_at := ?arr,
      pool_headers_num := word_of_nat (length ms)\<rparr>"
    using l by (simp add: laid_out_def)
  have num: "unat (pool_headers_num (pools s p)) = length ms"
    using len by (subst pl) (simp add: unat_of_nat)
  have qa: "pool_queue (pools s p) = Some q" "pool_header (pools s p) = Some a"
    by (subst pl, simp)+
  have s1: "live ?s1 = (a, n1) # (p, n2) # (q, n3) # live0" "pools ?s1 = pools s"
    "sync ?s1 = [Semaphore q, Mutex q] @ sync0" "pool_store.more ?s1 = pool_store.more s'"
    using free_payloads_laid_out [OF l default_created_pool s'(1-3)] s'(4) by simp_all
  have d: "mmal_pool_destroy env (Some p) s' =
      vcos_free (Some p) (mmal_queue_destroy (Some q) (vcos_free (Some a) ?s1))"
    using s1(2) by (simp add: mmal_pool_destroy_def Let_def s'(3) num qa)
  have "live (mmal_pool_destroy env (Some p) s') = live0"
    unfolding d using s1(1) dist by (auto simp: vcos_free_def mmal_queue_destroy_live vcos_free_fresh)
  moreover have "sync (mmal_pool_destroy env (Some p) s') = sync0"
    unfolding d using s1(3) by (simp add: mmal_queue_destroy_live)
  moreover have "pool_store.more (mmal_pool_destroy env (Some p) s') = pool_store.more s'"
    unfolding d using s1(4) by (simp add: mmal_queue_destroy_live)
  ultimately show ?thesis by blast
qed

text \<open>The three outcomes of a creation.\<close>

definition pool_created ::
  "u32 \<Rightarrow> u32 \<Rightarrow> addr \<Rightarrow> 'a pool_store_scheme \<Rightarrow> 'a pool_store_scheme \<Rightarrow> bool" where
  "pool_created headers psize p s s' \<longleftrightarrow>
     (\<exists>q a ms s1. let n = unat headers in
        laid_out p (created_pool q a headers psize) (header_start a headers)
          ((a, headers_block_size 472 headers) # (p, 48) # (q, sizeof_MMAL_QUEUE_T) # live s) ms s1 \<and>
        length ms = n \<and> distinct [a, p, q] \<and> {a, p, q} \<inter> fst ` set (live s) = {} \<and>
        sync s1 = [Semaphore q, Mutex q] @ sync s \<and> queue_rep q s1 [] \<and>
        s' = queue_headers (Some q) (pool_header_at (pools s1 p)) [0..<n] s1)"

lemma os_calls_pool_more:
  fixes s :: "'a pool_store_scheme"
  shows "vcos_malloc n s = (r, t) \<Longrightarrow> pool_store.more t = pool_store.more s"
    "vcos_create x s = (ok, t) \<Longrightarrow> pool_store.more t = pool_store.more s"
    "pool_store.more (vcos_delete x s) = pool_store.more s"
  by (auto simp: vcos_malloc_def vcos_create_def vcos_delete_def split: list.splits option.splits bool.splits)

lemma mmal_queue_create_more:
  fixes s :: "'a pool_store_scheme"
  shows "mmal_queue_create s = (r, t) \<Longrightarrow> pool_store.more t = pool_store.more s"
  by (auto simp: mmal_queue_create_def upd_queue_def os_calls_pool_more(3)
      dest!: os_calls_pool_more(1,2) split: prod.splits option.splits bool.splits)

lemma mmal_pool_create_cases:
  assumes fresh: "fresh_allocs s"
  shows "\<exists>r s'. mmal_pool_create env headers psize s = Some (r, s') \<and> pool_store.more s' = pool_store.more s \<and>
    (case r of None \<Rightarrow> live s' = live s \<and> sync s' = sync s | Some p \<Rightarrow> pool_created headers psize p s s')"
proof -
  obtain qr s1 where c: "mmal_queue_create s = (qr, s1)" by fastforce
  show ?thesis
  proof (cases qr)
    case None
    with c mmal_queue_create_None [of s s1] mmal_queue_create_more [OF c] fresh show ?thesis
      by (simp add: mmal_pool_create_def mmal_pool_create_with_allocator_def)
  next
    case (Some q)
    note q = mmal_queue_create_Some [OF c [unfolded Some] fresh]
    let ?blk = "headers_block_size 472 headers"
    obtain pr s2 where m1: "vcos_malloc 48 s1 = (pr, s2)" by fastforce
    obtain ar s3 where m2: "vcos_malloc ?blk s2 = (ar, s3)" by fastforce
    have sizes: "vcos_calloc (ROUND_UP sizeof_MMAL_POOL_PRIVATE_T ALIGN) 1 t = vcos_malloc 48 t"
      "vcos_calloc (headers_block_size (ROUND_UP mmal_buffer_header_size ALIGN) headers) 1 t = vcos_malloc ?blk t"
      for t :: "'a pool_store_scheme"
      by (simp add: vcos_calloc_def ROUND_UP_def ALIGN_def sizeof_MMAL_POOL_PRIVATE_T_def,
          simp add: vcos_calloc_def header_size_472)
    have fresh2: "fresh_allocs s2" using m1 q(3) by (rule vcos_malloc_fresh)
    have q1: "live s1 = (q, sizeof_MMAL_QUEUE_T) # live s" "sync s1 = [Semaphore q, Mutex q] @ sync s"
      "queues s1 q = empty_queue" "pools s1 = pools s" "bufs s1 = bufs s"
      by (simp_all add: q(1))
    show ?thesis
    proof (cases "pr = None \<or> ar = None")
      case True
      have "mmal_pool_create env headers psize s =
          Some (None, mmal_queue_destroy (Some q) (vcos_free ar (vcos_free pr s3)))"
        using True c Some m1 m2 sizes
        by (auto simp: mmal_pool_create_def mmal_pool_create_with_allocator_def Let_def split: option.splits)
      moreover have "live (mmal_queue_destroy (Some q) (vcos_free ar (vcos_free pr s3))) = live s \<and>
          sync (mmal_queue_destroy (Some q) (vcos_free ar (vcos_free pr s3))) = sync s"
      proof (cases pr)
        case None
        note s2 = vcos_malloc_None [OF m1 [unfolded None]]
        show ?thesis
        proof (cases ar)
          case None
          note s3 = vcos_malloc_None [OF m2 [unfolded None]]
          from None \<open>pr = None\<close> s2 s3 q1 q(2) show ?thesis
            by (simp add: mmal_queue_destroy_live vcos_free_def vcos_free_fresh)
        next
          case (Some a)
          note s3 = vcos_malloc_Some [OF m2 [unfolded Some] fresh2]
          from Some \<open>pr = None\<close> s2 s3 q1 q(2) show ?thesis
            by (auto simp: mmal_queue_destroy_live vcos_free_def vcos_free_fresh)
        qed
      next
        case (Some p)
        with True have "ar = None" by simp
        note s2 = vcos_malloc_Some [OF m1 [unfolded Some] q(3)]
        note s3 = vcos_malloc_None [OF m2 [unfolded \<open>ar = None\<close>]]
        from Some \<open>ar = None\<close> s2 s3 q1 q(2) show ?thesis
          by (auto simp: mmal_queue_destroy_live vcos_free_def vcos_free_fresh)
      qed
      moreover have "pool_store.more (mmal_queue_destroy (Some q) (vcos_free ar (vcos_free pr s3))) = pool_store.more s"
        using mmal_queue_create_more [OF c] os_calls_pool_more(1) [OF m1] os_calls_pool_more(1) [OF m2]
        by (simp add: mmal_queue_destroy_live)
      ultimately show ?thesis by simp
    next
      case False
      then obtain p a where pa: "pr = Some p" "ar = Some a" by auto
      note s2 = vcos_malloc_Some [OF m1 [unfolded pa] q(3)]
      note s3 = vcos_malloc_Some [OF m2 [unfolded pa] s2(3)]
      let ?pl = "created_pool q a headers psize"
      let ?live0 = "(a, ?blk) # (p, 48) # (q, sizeof_MMAL_QUEUE_T) # live s"
      let ?s4 = "upd_pool p (\<lambda>_. ?pl) s3"
      have dist: "distinct [a, p, q]" "{a, p, q} \<inter> fst ` set (live s) = {}"
        using s2 s3 q1 q(2) by auto
      have lv: "live s3 = ?live0" using s2(1) s3(1) q1 by simp
      have l0: "laid_out p ?pl (header_start a headers) ?live0 [] ?s4"
        using lv s3(3) by (simp add: laid_out_def List.map_filter_simps fresh_allocs_def granted_def)
      from initialise_headers_laid_out [OF l0 default_created_pool, of None "[0..<unat headers]" "unat headers" env]
      obtain st s5 ms where init: "initialise_headers env p True [0..<unat headers] (header_start a headers) None ?s4
          = Some (st, s5)"
        and l5: "laid_out p ?pl (header_start a headers) ?live0 ms s5"
        and st: "st = MMAL_SUCCESS \<longleftrightarrow> length ms = unat headers" "length ms \<le> unat headers"
        and fr: "queues s5 = queues ?s4" "sync s5 = sync ?s4" "pool_store.more s5 = pool_store.more ?s4"
        by auto
      have sy: "sync s5 = [Semaphore q, Mutex q] @ sync s" using fr(2) s2(1) s3(1) q1 by simp
      have mo: "pool_store.more s5 = pool_store.more s"
        using fr(3) mmal_queue_create_more [OF c] os_calls_pool_more(1) [OF m1] os_calls_pool_more(1) [OF m2] by simp
      have pls: "pools s5 p = ?pl\<lparr>pool_header_at := pool_header_at (pools s5 p),
          pool_headers_num := word_of_nat (length ms)\<rparr>"
        using l5 by (simp add: laid_out_def)
      have len: "length ms < 2 ^ 32"
        using st(2) unat_u32_less [of headers] by simp
      have num: "unat (pool_headers_num (pools s5 p)) = length ms"
        using len by (subst pls) (simp add: unat_of_nat)
      have eq: "mmal_pool_create env headers psize s =
          (if st \<noteq> MMAL_SUCCESS then Some (None, mmal_pool_destroy env (Some p) s5)
           else Some (Some p, queue_headers (Some q) (pool_header_at (pools s5 p)) [0..<length ms] s5))"
        using c Some pa m1 m2 sizes init num
        by (simp add: mmal_pool_create_def mmal_pool_create_with_allocator_def Let_def
            mmal_pool_initialise_buffer_headers_def created_pool_def)
      show ?thesis
      proof (cases "st = MMAL_SUCCESS")
        case True
        have "queue_rep q s5 []" using fr(1) s2(1) s3(1) q1(3)
          by (intro queue_rep_empty_queue) simp
        then have "pool_created headers psize p s
            (queue_headers (Some q) (pool_header_at (pools s5 p)) [0..<length ms] s5)"
          unfolding pool_created_def Let_def using l5 True st dist sy by metis
        with eq True mo show ?thesis by simp
      next
        case False
        have "live (mmal_pool_destroy env (Some p) s5) = live s \<and> sync (mmal_pool_destroy env (Some p) s5) = sync s \<and>
            pool_store.more (mmal_pool_destroy env (Some p) s5) = pool_store.more s5"
        proof (rule mmal_pool_destroy_laid_out [OF l5 len _ _ _ _ _ _ _ sy])
          show "\<exists>n. bufs s5 x = (bufs s5 x)\<lparr>bh_next := n\<rparr>" for x
            by (rule exI [of _ "bh_next (bufs s5 x)"]) simp
        qed (use dist in auto)
        with eq False mo show ?thesis by simp
      qed
    qed
  qed
qed

section \<open>Properties\<close>

lemma pool_created_destroy:
  assumes "pool_created headers psize p s s'"
  shows "live (mmal_pool_destroy env (Some p) s') = live s \<and> sync (mmal_pool_destroy env (Some p) s') = sync s"
proof -
  obtain q a ms s1 where
    l: "laid_out p (created_pool q a headers psize) (header_start a headers)
          ((a, headers_block_size 472 headers) # (p, 48) # (q, sizeof_MMAL_QUEUE_T) # live s) ms s1"
    and len: "length ms = unat headers" and d: "distinct [a, p, q]" "{a, p, q} \<inter> fst ` set (live s) = {}"
    and sy: "sync s1 = [Semaphore q, Mutex q] @ sync s"
    and s': "s' = queue_headers (Some q) (pool_header_at (pools s1 p)) [0..<unat headers] s1"
    using assms unfolding pool_created_def Let_def by blast
  have "\<forall>i\<in>set [0..<unat headers]. pool_header_at (pools s1 p) i \<noteq> None"
    using l len by (auto simp: laid_out_def)
  then have links: "\<exists>n. bufs s' x = (bufs s1 x)\<lparr>bh_next := n\<rparr>" for x
    unfolding s' by (rule queue_headers_only_links)
  have "length ms < 2 ^ 32" using unat_u32_less [of headers] len by simp
  from mmal_pool_destroy_laid_out [OF l this _ _ _ d(1) links] d(2) sy show ?thesis
    by (simp add: s')
qed

text \<open>The same for a state in which other blocks have been taken since.\<close>

lemma pool_created_later:
  assumes "pool_created headers psize p s s'"
  obtains A q N where "live s' = N @ live s" "fst ` set N = A" "A \<inter> fst ` set (live s) = {}"
    "sync s' = [Semaphore q, Mutex q] @ sync s" "fresh_allocs s'"
    "\<And>env t. pools t = pools s' \<Longrightarrow> bufs t = bufs s' \<Longrightarrow>
       live (mmal_pool_destroy env (Some p) t) = filter (\<lambda>(b, _). b \<notin> A) (live t) \<and>
       sync (mmal_pool_destroy env (Some p) t) = remove1 (Semaphore q) (remove1 (Mutex q) (sync t)) \<and>
       pool_store.more (mmal_pool_destroy env (Some p) t) = pool_store.more t"
proof -
  obtain q a ms s1 where
    l: "laid_out p (created_pool q a headers psize) (header_start a headers)
          ((a, headers_block_size 472 headers) # (p, 48) # (q, sizeof_MMAL_QUEUE_T) # live s) ms s1"
    and len: "length ms = unat headers" and d: "distinct [a, p, q]" "{a, p, q} \<inter> fst ` set (live s) = {}"
    and sy: "sync s1 = [Semaphore q, Mutex q] @ sync s"
    and s': "s' = queue_headers (Some q) (pool_header_at (pools s1 p)) [0..<unat headers] s1"
    using assms unfolding pool_created_def Let_def by blast
  let ?arr = "pool_header_at (pools s1 p)" and ?M = "List.map_filter id ms"
  let ?N = "map (\<lambda>a. (a, psize)) (rev ?M) @ [(a, headers_block_size 472 headers), (p, 48), (q, sizeof_MMAL_QUEUE_T)]"
  have "\<forall>i\<in>set [0..<unat headers]. ?arr i \<noteq> None"
    using l len by (auto simp: laid_out_def)
  then have links: "\<exists>n. bufs s' x = (bufs s1 x)\<lparr>bh_next := n\<rparr>" for x
    unfolding s' by (rule queue_headers_only_links)
  have lv: "live s' = ?N @ live s" and fr: "fresh_allocs s'"
    using l fresh_allocs_cong [of s' s1] by (simp_all add: laid_out_def s')
  have A: "fst ` set ?N = set ?M \<union> {a, p, q}" by (auto simp: image_image)
  have dj: "(set ?M \<union> {a, p, q}) \<inter> fst ` set (live s) = {}" using d l by (auto simp: laid_out_def)
  have pl: "pools s1 p = (created_pool q a headers psize)\<lparr>pool_header_at := ?arr, pool_headers_num := word_of_nat (length ms)\<rparr>"
    using l by (simp add: laid_out_def)
  have num: "unat (pool_headers_num (pools s1 p)) = length ms"
    using len unat_u32_less [of headers] by (subst pl) (simp add: unat_of_nat)
  have qa: "pool_queue (pools s1 p) = Some q" "pool_header (pools s1 p) = Some a" by (subst pl, simp)+
  have destroy: "live (mmal_pool_destroy env (Some p) t) = filter (\<lambda>(b, _). b \<notin> set ?M \<union> {a, p, q}) (live t) \<and>
      sync (mmal_pool_destroy env (Some p) t) = remove1 (Semaphore q) (remove1 (Mutex q) (sync t)) \<and>
      pool_store.more (mmal_pool_destroy env (Some p) t) = pool_store.more t"
    if t: "pools t = pools s'" "bufs t = bufs s'" for env t
  proof -
    have pt: "pools t = pools s1" using t(1) by (simp add: s')
    let ?u = "free_payloads env ?arr [0..<length ms] t"
    have "\<exists>n. bufs t x = (bufs s1 x)\<lparr>bh_next := n\<rparr>" for x using links t(2) by simp
    note u = free_payloads_live [OF laid_out_payloads [OF l default_created_pool this], of env]
    have dd: "mmal_pool_destroy env (Some p) t =
        vcos_free (Some p) (mmal_queue_destroy (Some q) (vcos_free (Some a) ?u))"
      using u by (simp add: mmal_pool_destroy_def Let_def pt num qa)
    show ?thesis unfolding dd using u
      by (auto simp: vcos_free_def mmal_queue_destroy_live map_filter_nth intro!: filter_cong)
  qed
  show ?thesis
    by (rule that [OF lv A dj _ fr]) (use sy destroy in \<open>simp_all add: s'\<close>)
qed

text \<open>
  C3: creating a pool always returns, whatever the allocations and the creations of locks
  answer, and destroying what it returned (a pool, or nothing) leaves exactly the blocks, mutexes and
  semaphores that existed before: every error path frees what it had taken.
\<close>

theorem mmal_pool_create_destroy_balanced:
  assumes "fresh_allocs s"
  shows "\<exists>r s'. mmal_pool_create env headers psize s = Some (r, s') \<and>
           live (mmal_pool_destroy env r s') = live s \<and> sync (mmal_pool_destroy env r s') = sync s"
proof -
  obtain r s' where c: "mmal_pool_create env headers psize s = Some (r, s')"
    and r: "case r of None \<Rightarrow> live s' = live s \<and> sync s' = sync s | Some p \<Rightarrow> pool_created headers psize p s s'"
    using mmal_pool_create_cases [OF assms] by blast
  have "live (mmal_pool_destroy env r s') = live s \<and> sync (mmal_pool_destroy env r s') = sync s"
  proof (cases r)
    case None
    with r show ?thesis by (simp add: mmal_pool_destroy_def)
  next
    case (Some p)
    with r show ?thesis using pool_created_destroy [of headers psize p s s' env] by simp
  qed
  with c show ?thesis by blast
qed

definition empty_pool_store :: pool_store where
  "empty_pool_store = \<lparr>mallocs = [], creates = [], clock_readings = [], live = [], sync = [],
     bufs = (\<lambda>_. zero_buffer_header), queues = (\<lambda>_. empty_queue), pools = (\<lambda>_. zero_pool)\<rparr>"

definition no_env :: "('a pool_store_scheme) pool_env" where
  "no_env = \<lparr>env_alloc = (\<lambda>_ _ _ s. (None, s)), env_free = (\<lambda>_ _ _ s. s), env_cb = (\<lambda>_ _ _ _ s. Some (True, s)),
     env_pre_release = (\<lambda>_ _ _ s. Some (False, s)), env_release = (\<lambda>_ _ s. Some s)\<rparr>"

definition pool_store_with :: "addr option list \<Rightarrow> pool_store" where
  "pool_store_with ms = empty_pool_store\<lparr>mallocs := ms, creates := [True, True]\<rparr>"

lemma fresh_pool_store_with: "distinct (List.map_filter id ms) \<Longrightarrow> fresh_allocs (pool_store_with ms)"
  by (simp add: fresh_allocs_def granted_def pool_store_with_def empty_pool_store_def)

text \<open>The second of the three payloads cannot be allocated.\<close>

theorem mmal_pool_create_destroy_balanced_witness:
  "\<exists>r s'. mmal_pool_create no_env 3 1000 (pool_store_with [Some 100, Some 200, Some 300, Some 4000, None])
     = Some (r, s') \<and> live (mmal_pool_destroy no_env r s') = [] \<and> sync (mmal_pool_destroy no_env r s') = []"
proof -
  have "fresh_allocs (pool_store_with [Some 100, Some 200, Some 300, Some 4000, None])"
    by (rule fresh_pool_store_with) (simp add: List.map_filter_simps)
  from mmal_pool_create_destroy_balanced [OF this, of no_env 3 1000]
  show ?thesis by (simp add: pool_store_with_def empty_pool_store_def)
qed

text \<open>
  C4: a pool that is created has all its headers in its queue, in the order of their addresses; each holds one
  reference, belongs to the pool, comes back to it when released, and has a payload of the
  requested size (none for size zero).
\<close>

theorem mmal_pool_create_fills_queue:
  assumes fresh: "fresh_allocs s" and create: "mmal_pool_create env headers psize s = Some (Some p, s')"
  shows "\<exists>q a. pool_queue (pools s' p) = Some q \<and> pool_header (pools s' p) = Some a \<and>
           queue_rep q s' (map (header_addr a headers) [0..<unat headers]) \<and>
           (\<forall>j<unat headers. let b = bufs s' (header_addr a headers j) in
              refcount b = 1 \<and> owner b = Some p \<and> pf_release b = Some Mmal_pool_buffer_header_release \<and>
              reference b = None \<and> bh_alloc_size b = psize \<and> bh_data b = payload b \<and>
              (payload b = None \<longleftrightarrow> psize = 0))"
proof -
  have "pool_created headers psize p s s'"
    using mmal_pool_create_cases [OF fresh, of env headers psize] create by auto
  then obtain q a ms s1 where
    l: "laid_out p (created_pool q a headers psize) (header_start a headers)
          ((a, headers_block_size 472 headers) # (p, 48) # (q, sizeof_MMAL_QUEUE_T) # live s) ms s1"
    and len: "length ms = unat headers" and q: "queue_rep q s1 []"
    and s': "s' = queue_headers (Some q) (pool_header_at (pools s1 p)) [0..<unat headers] s1"
    unfolding pool_created_def Let_def by blast
  have at: "pool_header_at (pools s1 p) j = Some (header_addr a headers j)"
    and bf: "bufs s1 (header_addr a headers j) = set_header p (ms ! j) (created_pool q a headers psize) zero_buffer_header"
    and ms: "ms ! j = None \<longleftrightarrow> psize = 0"
    if "j < unat headers" for j
    using l len that by (simp_all add: laid_out_def header_addr_def)
  have "inj_on (header_addr a headers) {0..<unat headers}"
    by (auto simp: inj_on_def header_addr_def header_size_472)
  then have "queue_rep q s' ([] @ map (header_addr a headers) [0..<unat headers])"
    unfolding s' using q at by (intro queue_headers_rep) (auto simp: distinct_map)
  moreover have "pools s' p = pools s1 p" by (simp add: s')
  moreover have "pools s1 p = (created_pool q a headers psize)\<lparr>pool_header_at := pool_header_at (pools s1 p),
      pool_headers_num := word_of_nat (length ms)\<rparr>"
    using l by (simp add: laid_out_def)
  then have "pool_queue (pools s1 p) = Some q" "pool_header (pools s1 p) = Some a"
    by (metis created_pool_sel(1) mmal_pool.select_convs(1) mmal_pool.surjective mmal_pool.update_convs(2,4),
        metis created_pool_sel(2) mmal_pool.select_convs(3) mmal_pool.surjective mmal_pool.update_convs(2,4))
  moreover have "let b = bufs s' (header_addr a headers j) in
      refcount b = 1 \<and> owner b = Some p \<and> pf_release b = Some Mmal_pool_buffer_header_release \<and>
      reference b = None \<and> bh_alloc_size b = psize \<and> bh_data b = payload b \<and> (payload b = None \<longleftrightarrow> psize = 0)"
    if j: "j < unat headers" for j
  proof -
    have "\<forall>i\<in>set [0..<unat headers]. pool_header_at (pools s1 p) i \<noteq> None" using at by auto
    from queue_headers_only_links [OF this, of q s1 "header_addr a headers j"]
    obtain n where "bufs s' (header_addr a headers j) = (bufs s1 (header_addr a headers j))\<lparr>bh_next := n\<rparr>"
      unfolding s' by blast
    with bf [OF j] ms [OF j] show ?thesis by (simp add: set_header_def zero_buffer_header_def Let_def)
  qed
  ultimately show ?thesis by (intro exI [of _ q] exI [of _ a]) simp
qed

theorem mmal_pool_create_fills_queue_witness:
  "\<exists>s'. mmal_pool_create no_env 2 0 (pool_store_with [Some 100, Some 200, Some 300]) = Some (Some 200, s') \<and>
     (\<exists>q a. queue_rep q s' (map (header_addr a 2) [0..<2]))"
proof -
  let ?s = "pool_store_with [Some 100, Some 200, Some 300]"
  have fresh: "fresh_allocs ?s" by (rule fresh_pool_store_with) (simp add: List.map_filter_simps)
  have "\<exists>s'. mmal_pool_create no_env 2 0 ?s = Some (Some 200, s')"
    by (simp add: mmal_pool_create_def mmal_pool_create_with_allocator_def pool_store_with_def empty_pool_store_def
        mmal_queue_create_def vcos_malloc_def vcos_calloc_def vcos_create_def Let_def upd_queue_def upd_pool_def
        mmal_pool_initialise_buffer_headers_def upt_rec mmal_buffer_header_initialise_def header_size_472
        mmal_buffer_header_size_eq free_payload_def zero_pool_def zero_buffer_header_def)
  then obtain s' where c: "mmal_pool_create no_env 2 0 ?s = Some (Some 200, s')" ..
  from mmal_pool_create_fills_queue [OF fresh c] show ?thesis by (intro exI [of _ s']) (auto simp: c)
qed

text \<open>
  The size of the block for the headers is computed in 32 bits.  For 9023042 headers it wraps to 704
  bytes, less than two headers need, and the allocation can succeed.
\<close>

theorem mmal_pool_block_wraps:
  "headers_block_size (ROUND_UP mmal_buffer_header_size ALIGN) 9023042 = 704 \<and>
   a + 704 < header_addr a 9023042 0 + unat mmal_buffer_header_size"
  by (simp add: headers_block_size_def header_size_472 header_addr_def header_start_def ROUND_UP_def
      ALIGN_def sizeof_ptr_def mmal_buffer_header_size_eq)

text \<open>For up to 9000000 headers the block holds the array and all headers.\<close>

lemma mmal_pool_block_fits:
  assumes "unat headers \<le> 9000000" and "j < unat headers"
  shows "a + 4 * unat headers \<le> header_addr a headers j \<and>
     header_addr a headers j + unat mmal_buffer_header_size \<le>
       a + unat (headers_block_size (ROUND_UP mmal_buffer_header_size ALIGN) headers)"
proof -
  define n where "n = unat headers"
  have n: "n \<le> 9000000" using assms by (simp add: n_def)
  have four: "unat (sizeof_ptr * headers) = 4 * n"
    using n by (simp add: sizeof_ptr_def unat_word_ariths n_def)
  have "unat (sizeof_ptr * headers AND NOT (2 ^ 3 - 1)) = 4 * n - 4 * n mod 8"
    by (simp only: unat_align_down four) simp
  then have down: "unat (sizeof_ptr * headers AND NOT (ALIGN - 1)) = 4 * n - 4 * n mod 8"
    by (simp add: ALIGN_def)
  define r where "r = 4 * n - 4 * n mod 8 + 8"
  have r: "unat (ROUND_UP (sizeof_ptr * headers) ALIGN) = r"
    using down n unfolding ROUND_UP_def r_def by (subst unat_word_ariths) (simp add: ALIGN_def)
  have m: "unat (472 * headers) = 472 * n" using n by (simp add: unat_word_ariths n_def)
  have "r \<le> 4 * n + 8" unfolding r_def by linarith
  then have tot: "unat (headers_block_size 472 headers) = r + 472 * n"
    using n unfolding headers_block_size_def by (subst unat_word_ariths) (simp add: r m)
  have "4 * n mod 8 < 8" by simp
  then have "4 * n \<le> r" unfolding r_def by linarith
  moreover have "Suc j * 472 \<le> n * 472" using assms(2) unfolding n_def by (intro mult_le_mono1) simp
  ultimately show ?thesis
    unfolding header_addr_def header_start_def header_size_472 r mmal_buffer_header_size_eq n_def [symmetric]
    by (simp add: tot)
qed

text \<open>What the functions named in a header mean: the release function of the pool, or the client's.\<close>

definition pool_release_env :: "('a pool_store_scheme) pool_env \<Rightarrow> ('a pool_store_scheme) release_env" where
  "pool_release_env env =
     \<lparr>call_pre_release = env_pre_release env,
      call_release = (\<lambda>f h s. case f of
         Mmal_pool_buffer_header_release \<Rightarrow> mmal_pool_buffer_header_release env h s
       | Client_release n \<Rightarrow> env_release env n h s)\<rparr>"

lemma pool_release_recycles:
  assumes "owner (bufs s h) = Some p" "pool_cb (pools s p) = None" "pool_queue (pools s p) = Some q"
    and "queue_rep q s xs" "h \<notin> set xs"
  shows "\<exists>s'. mmal_pool_buffer_header_release env h s = Some s' \<and> queue_rep q s' (xs @ [h]) \<and>
     (\<exists>n. bufs s' h = (bufs s h)\<lparr>refcount := 1, bh_next := n\<rparr>)"
proof -
  let ?s = "upd_buf h (\<lambda>b. b\<lparr>refcount := 1\<rparr>) s"
  have "queue_rep q ?s xs" using assms(4,5) by (intro queue_rep_frame [OF assms(4)]) auto
  then have "queue_rep q (mmal_queue_put (Some q) (Some h) ?s) (xs @ [h])"
    using assms(5) by (rule queue_rep_put)
  moreover obtain n where "bufs (mmal_queue_put (Some q) (Some h) ?s) h = (bufs ?s h)\<lparr>bh_next := n\<rparr>"
    using put_only_links by blast
  ultimately show ?thesis
    using assms by (intro exI [of _ "mmal_queue_put (Some q) (Some h) ?s"])
      (auto simp: mmal_pool_buffer_header_release_def Let_def)
qed

text \<open>
  Releasing the last reference of a header of a pool that has no callback puts it back at
  the end of the queue of the pool with one reference, reset and not referring to another
  header.
\<close>

theorem pool_header_release_recycles:
  assumes "refcount (bufs s h) = 1" "reference (bufs s h) = None" "pf_pre_release (bufs s h) = None"
    and "pf_release (bufs s h) = Some Mmal_pool_buffer_header_release"
    and "owner (bufs s h) = Some p" "pool_cb (pools s p) = None" "pool_queue (pools s p) = Some q"
    and "queue_rep q s xs" "h \<notin> set xs"
  shows "\<exists>s'. mmal_buffer_header_release (pool_release_env env) h s = Some s' \<and>
     queue_rep q s' (xs @ [h]) \<and> refcount (bufs s' h) = 1 \<and> reference (bufs s' h) = None \<and>
     bh_length (bufs s' h) = 0 \<and> bh_flags (bufs s' h) = 0 \<and> bh_pts (bufs s' h) = MMAL_TIME_UNKNOWN"
proof -
  let ?s = "upd_buf h (\<lambda>b. b\<lparr>reference := None\<rparr>)
    (mmal_buffer_header_reset h (upd_buf h (\<lambda>b. b\<lparr>refcount := 0\<rparr>) s))"
  have rel: "mmal_buffer_header_release (pool_release_env env) h s =
      mmal_pool_buffer_header_release env h ?s"
    using assms by (simp add: release_last mmal_buffer_header_release_continue_def Let_def
        mmal_buffer_header_reset_def reset_header_def pool_release_env_def split: option.split)
  have "queue_rep q ?s xs" using assms(9)
    by (intro queue_rep_frame [OF assms(8)]) (auto simp: mmal_buffer_header_reset_def)
  then obtain s' n where "mmal_pool_buffer_header_release env h ?s = Some s'" "queue_rep q s' (xs @ [h])"
    "bufs s' h = (bufs ?s h)\<lparr>refcount := 1, bh_next := n\<rparr>"
    using pool_release_recycles [of ?s h p q xs env] assms
    by (auto simp: mmal_buffer_header_reset_def reset_header_def)
  with rel show ?thesis by (auto simp: mmal_buffer_header_reset_def reset_header_def)
qed

theorem pool_header_release_recycles_witness:
  "\<exists>s :: pool_store. \<exists>s'. mmal_buffer_header_release (pool_release_env no_env) 5 s = Some s' \<and>
     queue_rep 9 s' [5]"
proof -
  let ?h = "zero_buffer_header\<lparr>refcount := 1, owner := Some 2, pf_release := Some Mmal_pool_buffer_header_release\<rparr>"
  let ?s = "empty_pool_store\<lparr>bufs := (\<lambda>_. ?h), pools := (\<lambda>_. zero_pool\<lparr>pool_queue := Some 9\<rparr>)\<rparr>"
  have "queue_rep 9 ?s []" by (rule queue_rep_empty_queue) (simp add: empty_pool_store_def)
  moreover have "bufs ?s 5 = ?h" "pools ?s 2 = zero_pool\<lparr>pool_queue := Some 9\<rparr>" by simp_all
  ultimately obtain s' where "mmal_buffer_header_release (pool_release_env no_env) 5 ?s = Some s'"
    "queue_rep 9 s' [5]"
    using pool_header_release_recycles [of ?s 5 2 9 "[]" no_env]
    by (auto simp: zero_buffer_header_def zero_pool_def)
  then show ?thesis by blast
qed

text \<open>
  Resizing reports success when the payload of a header cannot be allocated, and it leaves a
  pool whose number of headers no longer says where its headers are: the only header is at
  316, but functions that compute the start from the number look at 308, so the
  pre-release callback that is set afterwards does not reach the header.
\<close>

theorem mmal_pool_resize_misplaces_headers:
  "\<exists>s s'. mmal_pool_create no_env 2 0 (pool_store_with [Some 100, Some 200, Some 300, Some 5000, None]) = Some (Some 200, s) \<and>
     mmal_pool_resize no_env (Some 200) 2 1000 s = Some (MMAL_SUCCESS, s') \<and>
     pool_headers_num (pools s' 200) = 1 \<and> pool_header_at (pools s' 200) 0 = Some 316 \<and>
     header_start 300 (pool_headers_num (pools s' 200)) = 308 \<and>
     pf_pre_release (bufs (mmal_pool_pre_release_callback_set 200 (Some 7) None s') 316) = None"
  by (simp add: mmal_pool_create_def mmal_pool_create_with_allocator_def pool_store_with_def empty_pool_store_def
        mmal_queue_create_def vcos_malloc_def vcos_calloc_def vcos_create_def Let_def upd_queue_def upd_pool_def
        mmal_pool_initialise_buffer_headers_def upt_rec mmal_buffer_header_initialise_def header_size_472
        mmal_buffer_header_size_eq free_payload_def zero_pool_def zero_buffer_header_def
        mmal_pool_resize_def mmal_queue_put_def mmal_queue_get_def store_last_def set_next_def upd_buf_def
        vcos_semaphore_post_def vcos_semaphore_wait_def drain_queue_numeral empty_queue_def set_header_def
        header_start_def ROUND_UP_def ALIGN_def sizeof_ptr_def mmal_pool_pre_release_callback_set_def
        mmal_buffer_header_pre_release_cb_set_def)

end
