(* ===== verification/Format.thy ===== *)
theory Format
  imports BufferPool Rational
begin

text \<open>
  Elementary stream formats, \<^verbatim>\<open>mmal/core/mmal_format.c\<close> with the structs of \<^verbatim>\<open>mmal/mmal_format.h\<close>.

  A format and its private part are one block; the pointer \<open>es\<close> of a format always leads to the stream specific
  part that belongs to it, so the record holds that part itself.  The part is a union; it is kept as its eleven
  32-bit words, which the three kinds of stream read differently.  The codec specific data live in byte
  addressed memory (\<open>bytes\<close>), either in the small buffer at the end of the block or in a block of their own.
\<close>

section \<open>Data\<close>

datatype mmal_es_type =
  MMAL_ES_TYPE_UNKNOWN | MMAL_ES_TYPE_CONTROL | MMAL_ES_TYPE_AUDIO | MMAL_ES_TYPE_VIDEO | MMAL_ES_TYPE_SUBPICTURE

definition EXTRADATA_SIZE_DEFAULT :: u32 where "EXTRADATA_SIZE_DEFAULT = 32"
definition EXTRADATA_SIZE_MAX :: u32 where "EXTRADATA_SIZE_MAX = 10 * 1024"

record mmal_es_format =
  fmt_type :: mmal_es_type
  fmt_encoding :: u32
  fmt_encoding_variant :: u32
  fmt_es :: "u32 list"
  fmt_bitrate :: u32
  fmt_flags :: u32
  fmt_extradata_size :: u32
  fmt_extradata :: "addr option"
  \<comment> \<open>the private part\<close>
  priv_extradata_size :: u32
  priv_extradata :: "addr option"

text \<open>The fields of a video format in the union.\<close>

definition video_width :: "u32 list \<Rightarrow> u32" where "video_width es = es ! 0"
definition video_height :: "u32 list \<Rightarrow> u32" where "video_height es = es ! 1"
definition video_crop :: "u32 list \<Rightarrow> u32 list" where "video_crop es = take 4 (drop 2 es)"
definition video_frame_rate :: "u32 list \<Rightarrow> mmal_rational" where
  "video_frame_rate es = \<lparr>num = sint (es ! 6), den = sint (es ! 7)\<rparr>"
definition video_par :: "u32 list \<Rightarrow> mmal_rational" where
  "video_par es = \<lparr>num = sint (es ! 8), den = sint (es ! 9)\<rparr>"
definition video_color_space :: "u32 list \<Rightarrow> u32" where "video_color_space es = es ! 10"

record fmt_store = pool_store +
  formats :: "addr \<Rightarrow> mmal_es_format"
  bytes :: "addr \<Rightarrow> u8"

definition upd_fmt :: "addr \<Rightarrow> (mmal_es_format \<Rightarrow> mmal_es_format) \<Rightarrow> 'a fmt_store_scheme \<Rightarrow> 'a fmt_store_scheme" where
  "upd_fmt f g s = s\<lparr>formats := (formats s)(f := g (formats s f))\<rparr>"

definition zero_format :: mmal_es_format where
  "zero_format = \<lparr>fmt_type = MMAL_ES_TYPE_UNKNOWN, fmt_encoding = 0, fmt_encoding_variant = 0, fmt_es = replicate 11 0,
     fmt_bitrate = 0, fmt_flags = 0, fmt_extradata_size = 0, fmt_extradata = None,
     priv_extradata_size = 0, priv_extradata = None\<rparr>"

definition sizeof_MMAL_ES_FORMAT_T :: u32 where "sizeof_MMAL_ES_FORMAT_T = 32"
definition sizeof_MMAL_ES_SPECIFIC_FORMAT_T :: u32 where "sizeof_MMAL_ES_SPECIFIC_FORMAT_T = 44"
definition sizeof_MMAL_ES_FORMAT_PRIVATE_T :: u32 where "sizeof_MMAL_ES_FORMAT_PRIVATE_T = 120"

text \<open>Where the small buffer is.\<close>

definition inline_buffer :: "addr \<Rightarrow> addr" where
  "inline_buffer f = f + 88"

definition memcpy :: "addr \<Rightarrow> addr \<Rightarrow> nat \<Rightarrow> 'a fmt_store_scheme \<Rightarrow> 'a fmt_store_scheme" where
  "memcpy dst src n s =
     s\<lparr>bytes := (\<lambda>a. if dst \<le> a \<and> a < dst + n then bytes s (src + (a - dst)) else bytes s a)\<rparr>"

definition mem_range :: "addr \<Rightarrow> nat \<Rightarrow> 'a fmt_store_scheme \<Rightarrow> u8 list" where
  "mem_range a n s = map (bytes s) [a..<a + n]"

section \<open>Operations\<close>

definition mmal_format_alloc :: "'a fmt_store_scheme \<Rightarrow> addr option \<times> 'a fmt_store_scheme" where
  "mmal_format_alloc s =
     (case vcos_malloc sizeof_MMAL_ES_FORMAT_PRIVATE_T s of
        (None, s) \<Rightarrow> (None, s)
      | (Some f, s) \<Rightarrow> (Some f, upd_fmt f (\<lambda>_. zero_format\<lparr>priv_extradata_size := EXTRADATA_SIZE_DEFAULT\<rparr>) s))"

definition mmal_format_free :: "addr \<Rightarrow> 'a fmt_store_scheme \<Rightarrow> 'a fmt_store_scheme" where
  "mmal_format_free f s = vcos_free (Some f) (vcos_free (priv_extradata (formats s f)) s)"

definition mmal_format_copy :: "addr \<Rightarrow> addr \<Rightarrow> 'a fmt_store_scheme \<Rightarrow> 'a fmt_store_scheme" where
  "mmal_format_copy dst src s =
     (let f = formats s src in
      upd_fmt dst (\<lambda>d. d\<lparr>fmt_type := fmt_type f, fmt_encoding := fmt_encoding f,
        fmt_encoding_variant := fmt_encoding_variant f, fmt_es := fmt_es f, fmt_bitrate := fmt_bitrate f,
        fmt_flags := fmt_flags f, fmt_extradata_size := 0, fmt_extradata := None\<rparr>) s)"

definition mmal_format_extradata_alloc ::
  "addr \<Rightarrow> u32 \<Rightarrow> 'a fmt_store_scheme \<Rightarrow> mmal_status \<times> 'a fmt_store_scheme" where
  "mmal_format_extradata_alloc f sz s =
     (if EXTRADATA_SIZE_MAX < sz then (MMAL_EINVAL, s)
      else
        let (nomem, s) =
          (if priv_extradata_size (formats s f) < sz then
             let s = vcos_free (priv_extradata (formats s f)) s;
                 (mem, s) = vcos_malloc sz s;
                 s = upd_fmt f (\<lambda>d. d\<lparr>priv_extradata := mem\<rparr>) s
             in if mem = None then (True, s)
                else (False, upd_fmt f (\<lambda>d. d\<lparr>priv_extradata_size := sz\<rparr>) s)
           else (False, s))
        in if nomem then (MMAL_ENOMEM, s)
           else (MMAL_SUCCESS, upd_fmt f (\<lambda>d. d\<lparr>fmt_extradata :=
                   (case priv_extradata d of Some a \<Rightarrow> Some a | None \<Rightarrow> Some (inline_buffer f))\<rparr>) s))"

text \<open>The memory for the codec data of a format takes \<open>n\<close> bytes: its own block, or the small buffer.\<close>

definition extra_room :: "addr \<Rightarrow> u32 \<Rightarrow> 'a fmt_store_scheme \<Rightarrow> bool" where
  "extra_room f n s \<longleftrightarrow>
     (case priv_extradata (formats s f) of
        None \<Rightarrow> n \<le> EXTRADATA_SIZE_DEFAULT
      | Some a \<Rightarrow> \<exists>b\<in>set (live s). fst b = a \<and> n \<le> snd b)"

text \<open>
  \<open>None\<close>: the source has a size of codec data but no data, so that \<open>memcpy\<close> follows a null pointer, or \<open>memcpy\<close> writes behind the memory
  of the destination, over whatever lies there.
\<close>

definition mmal_format_full_copy ::
  "addr \<Rightarrow> addr \<Rightarrow> 'a fmt_store_scheme \<Rightarrow> (mmal_status \<times> 'a fmt_store_scheme) option" where
  "mmal_format_full_copy dst src s =
     (let s = mmal_format_copy dst src s in
      if fmt_extradata_size (formats s src) \<noteq> 0 then
        let (status, s) = mmal_format_extradata_alloc dst (fmt_extradata_size (formats s src)) s in
        if status \<noteq> MMAL_SUCCESS then Some (status, s)
        else
          let s = upd_fmt dst (\<lambda>d. d\<lparr>fmt_extradata_size := fmt_extradata_size (formats s src)\<rparr>) s in
          (case (fmt_extradata (formats s dst), fmt_extradata (formats s src)) of
             (Some d, Some a) \<Rightarrow>
               if extra_room dst (fmt_extradata_size (formats s src)) s
               then Some (MMAL_SUCCESS, memcpy d a (unat (fmt_extradata_size (formats s src))) s) else None
           | _ \<Rightarrow> None)
      else Some (MMAL_SUCCESS, s))"

section \<open>Comparison\<close>

definition MMAL_ES_FORMAT_COMPARE_FLAG_TYPE :: u32 where "MMAL_ES_FORMAT_COMPARE_FLAG_TYPE = 0x01"
definition MMAL_ES_FORMAT_COMPARE_FLAG_ENCODING :: u32 where "MMAL_ES_FORMAT_COMPARE_FLAG_ENCODING = 0x02"
definition MMAL_ES_FORMAT_COMPARE_FLAG_BITRATE :: u32 where "MMAL_ES_FORMAT_COMPARE_FLAG_BITRATE = 0x04"
definition MMAL_ES_FORMAT_COMPARE_FLAG_FLAGS :: u32 where "MMAL_ES_FORMAT_COMPARE_FLAG_FLAGS = 0x08"
definition MMAL_ES_FORMAT_COMPARE_FLAG_EXTRADATA :: u32 where "MMAL_ES_FORMAT_COMPARE_FLAG_EXTRADATA = 0x10"
definition MMAL_ES_FORMAT_COMPARE_FLAG_VIDEO_RESOLUTION :: u32 where "MMAL_ES_FORMAT_COMPARE_FLAG_VIDEO_RESOLUTION = 0x0100"
definition MMAL_ES_FORMAT_COMPARE_FLAG_VIDEO_CROPPING :: u32 where "MMAL_ES_FORMAT_COMPARE_FLAG_VIDEO_CROPPING = 0x0200"
definition MMAL_ES_FORMAT_COMPARE_FLAG_VIDEO_FRAME_RATE :: u32 where "MMAL_ES_FORMAT_COMPARE_FLAG_VIDEO_FRAME_RATE = 0x0400"
definition MMAL_ES_FORMAT_COMPARE_FLAG_VIDEO_ASPECT_RATIO :: u32 where "MMAL_ES_FORMAT_COMPARE_FLAG_VIDEO_ASPECT_RATIO = 0x0800"
definition MMAL_ES_FORMAT_COMPARE_FLAG_VIDEO_COLOR_SPACE :: u32 where "MMAL_ES_FORMAT_COMPARE_FLAG_VIDEO_COLOR_SPACE = 0x1000"
definition MMAL_ES_FORMAT_COMPARE_FLAG_ES_OTHER :: u32 where "MMAL_ES_FORMAT_COMPARE_FLAG_ES_OTHER = 0x10000000"

lemmas format_compare_flags =
  MMAL_ES_FORMAT_COMPARE_FLAG_TYPE_def MMAL_ES_FORMAT_COMPARE_FLAG_ENCODING_def
  MMAL_ES_FORMAT_COMPARE_FLAG_BITRATE_def MMAL_ES_FORMAT_COMPARE_FLAG_FLAGS_def
  MMAL_ES_FORMAT_COMPARE_FLAG_EXTRADATA_def MMAL_ES_FORMAT_COMPARE_FLAG_VIDEO_RESOLUTION_def
  MMAL_ES_FORMAT_COMPARE_FLAG_VIDEO_CROPPING_def MMAL_ES_FORMAT_COMPARE_FLAG_VIDEO_FRAME_RATE_def
  MMAL_ES_FORMAT_COMPARE_FLAG_VIDEO_ASPECT_RATIO_def MMAL_ES_FORMAT_COMPARE_FLAG_VIDEO_COLOR_SPACE_def
  MMAL_ES_FORMAT_COMPARE_FLAG_ES_OTHER_def

definition flag_if :: "bool \<Rightarrow> u32 \<Rightarrow> u32" where
  "flag_if b f = (if b then f else 0)"

text \<open>\<open>memcmp\<close> of the codec data; a null pointer is only read for length 0.\<close>

definition extradata_differs :: "mmal_es_format \<Rightarrow> mmal_es_format \<Rightarrow> 'a fmt_store_scheme \<Rightarrow> bool" where
  "extradata_differs f1 f2 s \<longleftrightarrow>
     fmt_extradata_size f1 \<noteq> fmt_extradata_size f2 \<or>
     fmt_extradata_size f1 \<noteq> 0 \<and>
       (case (fmt_extradata f1, fmt_extradata f2) of
          (Some a, Some b) \<Rightarrow> mem_range a (unat (fmt_extradata_size f1)) s \<noteq> mem_range b (unat (fmt_extradata_size f1)) s
        | _ \<Rightarrow> True)"

text \<open>Behind the colour space the video format ends, so the last comparison of a video format has length 0.\<close>

definition compare_es :: "mmal_es_type \<Rightarrow> u32 list \<Rightarrow> u32 list \<Rightarrow> u32" where
  "compare_es t v1 v2 =
     (case t of
        MMAL_ES_TYPE_VIDEO \<Rightarrow>
          flag_if (video_width v1 \<noteq> video_width v2 \<or> video_height v1 \<noteq> video_height v2)
            MMAL_ES_FORMAT_COMPARE_FLAG_VIDEO_RESOLUTION OR
          flag_if (video_crop v1 \<noteq> video_crop v2) MMAL_ES_FORMAT_COMPARE_FLAG_VIDEO_CROPPING OR
          flag_if (\<not> mmal_rational_equal (video_par v1) (video_par v2)) MMAL_ES_FORMAT_COMPARE_FLAG_VIDEO_ASPECT_RATIO OR
          flag_if (\<not> mmal_rational_equal (video_frame_rate v1) (video_frame_rate v2))
            MMAL_ES_FORMAT_COMPARE_FLAG_VIDEO_FRAME_RATE OR
          flag_if (video_color_space v1 \<noteq> video_color_space v2) MMAL_ES_FORMAT_COMPARE_FLAG_VIDEO_COLOR_SPACE OR
          flag_if (drop 11 v1 \<noteq> drop 11 v2) MMAL_ES_FORMAT_COMPARE_FLAG_ES_OTHER
      | MMAL_ES_TYPE_AUDIO \<Rightarrow> flag_if (take 4 v1 \<noteq> take 4 v2) MMAL_ES_FORMAT_COMPARE_FLAG_ES_OTHER
      | MMAL_ES_TYPE_SUBPICTURE \<Rightarrow> flag_if (take 2 v1 \<noteq> take 2 v2) MMAL_ES_FORMAT_COMPARE_FLAG_ES_OTHER
      | _ \<Rightarrow> 0)"

definition mmal_format_compare :: "addr \<Rightarrow> addr \<Rightarrow> 'a fmt_store_scheme \<Rightarrow> u32" where
  "mmal_format_compare fmt1 fmt2 s =
     (let f1 = formats s fmt1; f2 = formats s fmt2 in
      if fmt_type f1 \<noteq> fmt_type f2 then MMAL_ES_FORMAT_COMPARE_FLAG_TYPE
      else
        flag_if (fmt_encoding f1 \<noteq> fmt_encoding f2) MMAL_ES_FORMAT_COMPARE_FLAG_ENCODING OR
        flag_if (fmt_bitrate f1 \<noteq> fmt_bitrate f2) MMAL_ES_FORMAT_COMPARE_FLAG_BITRATE OR
        flag_if (fmt_flags f1 \<noteq> fmt_flags f2) MMAL_ES_FORMAT_COMPARE_FLAG_FLAGS OR
        flag_if (extradata_differs f1 f2 s) MMAL_ES_FORMAT_COMPARE_FLAG_EXTRADATA OR
        compare_es (fmt_type f1) (fmt_es f1) (fmt_es f2))"

section \<open>Lemmas\<close>

lemma formats_upd_fmt [simp]: "formats (upd_fmt f g s) = (formats s)(f := g (formats s f))"
  by (simp add: upd_fmt_def)

lemma upd_fmt_sel [simp]:
  "bufs (upd_fmt f g s) = bufs s" "queues (upd_fmt f g s) = queues s" "pools (upd_fmt f g s) = pools s"
  "live (upd_fmt f g s) = live s" "sync (upd_fmt f g s) = sync s" "bytes (upd_fmt f g s) = bytes s"
  "mallocs (upd_fmt f g s) = mallocs s" "creates (upd_fmt f g s) = creates s"
  by (simp_all add: upd_fmt_def)

lemma memcpy_sel [simp]:
  "formats (memcpy d a n s) = formats s" "live (memcpy d a n s) = live s" "mallocs (memcpy d a n s) = mallocs s"
  by (simp_all add: memcpy_def)

lemma os_calls_formats [simp]:
  "formats (vcos_free p s) = formats s" "formats (snd (vcos_malloc n s)) = formats s"
  "bytes (vcos_free p s) = bytes s" "bytes (snd (vcos_malloc n s)) = bytes s"
  by (auto simp: vcos_free_def vcos_malloc_def split: option.split list.split)

lemma vcos_malloc_formats:
  assumes "vcos_malloc n s = (r, t)"
  shows "formats t = formats s" "bytes t = bytes s"
  using assms os_calls_formats by (metis snd_conv)+

lemma granted_free [simp]: "granted (vcos_free p s) = granted s" "mallocs (vcos_free p s) = mallocs s"
  by (simp_all add: granted_def vcos_free_def split: option.split)

lemma mem_range_memcpy:
  "d + n \<le> a \<or> a + n \<le> d \<Longrightarrow> mem_range d n (memcpy d a n s) = mem_range a n s"
  "d + n \<le> a \<or> a + n \<le> d \<Longrightarrow> mem_range a n (memcpy d a n s) = mem_range a n s"
  by (auto simp: mem_range_def memcpy_def list_eq_iff_nth_eq)

lemma flag_if_False [simp]: "flag_if False f = 0" "flag_if b 0 = 0"
  by (simp_all add: flag_if_def)

lemma mmal_rational_equal_refl [simp]: "mmal_rational_equal r r"
  by (simp add: mmal_rational_equal_def)

lemma compare_es_refl [simp]: "compare_es t v v = 0"
  by (simp add: compare_es_def split: mmal_es_type.split)

section \<open>Room for the codec data\<close>

definition extra_area :: "addr \<Rightarrow> 'a fmt_store_scheme \<Rightarrow> addr" where
  "extra_area f s = (case priv_extradata (formats s f) of Some a \<Rightarrow> a | None \<Rightarrow> inline_buffer f)"

definition extra_ok :: "addr \<Rightarrow> 'a fmt_store_scheme \<Rightarrow> bool" where
  "extra_ok f s \<longleftrightarrow> extra_room f (priv_extradata_size (formats s f)) s"

lemma extra_room_mono: "extra_room f n s \<Longrightarrow> m \<le> n \<Longrightarrow> extra_room f m s"
  unfolding extra_room_def by (auto split: option.splits intro: order.trans)

lemma extradata_alloc_cases:
  assumes "mmal_format_extradata_alloc f sz s = (status, s')"
  obtains "EXTRADATA_SIZE_MAX < sz" "status = MMAL_EINVAL" "s' = s"
  | "sz \<le> EXTRADATA_SIZE_MAX" "sz \<le> priv_extradata_size (formats s f)" "status = MMAL_SUCCESS"
      "s' = upd_fmt f (\<lambda>d. d\<lparr>fmt_extradata := Some (extra_area f s)\<rparr>) s"
  | t where "sz \<le> EXTRADATA_SIZE_MAX" "priv_extradata_size (formats s f) < sz" "status = MMAL_ENOMEM"
      "vcos_malloc sz (vcos_free (priv_extradata (formats s f)) s) = (None, t)"
      "s' = upd_fmt f (\<lambda>d. d\<lparr>priv_extradata := None\<rparr>) t"
  | a t where "sz \<le> EXTRADATA_SIZE_MAX" "priv_extradata_size (formats s f) < sz" "status = MMAL_SUCCESS"
      "vcos_malloc sz (vcos_free (priv_extradata (formats s f)) s) = (Some a, t)"
      "s' = upd_fmt f (\<lambda>d. d\<lparr>priv_extradata := Some a, priv_extradata_size := sz, fmt_extradata := Some a\<rparr>) t"
proof -
  obtain r t where m: "vcos_malloc sz (vcos_free (priv_extradata (formats s f)) s) = (r, t)" by fastforce
  show thesis
  proof (cases "EXTRADATA_SIZE_MAX < sz")
    case True
    then show thesis using assms that(1) by (simp add: mmal_format_extradata_alloc_def)
  next
    case big: False
    show thesis
    proof (cases "priv_extradata_size (formats s f) < sz")
      case False
      then show thesis using assms big that(2)
        by (auto simp: mmal_format_extradata_alloc_def extra_area_def upd_fmt_def split: option.splits)
    next
      case True
      show thesis
      proof (cases r)
        case None
        then show thesis using assms big True m that(3)
          by (auto simp: mmal_format_extradata_alloc_def Let_def)
      next
        case (Some a)
        then show thesis using assms big True m that(4)
          by (auto simp: mmal_format_extradata_alloc_def Let_def upd_fmt_def)
      qed
    qed
  qed
qed

text \<open>
  An allocation of codec data that succeeds points the format at memory with room for all the bytes that
  were asked for, and keeps the recorded size within the memory.
\<close>

theorem mmal_format_extradata_alloc_room:
  assumes "mmal_format_extradata_alloc f sz s = (MMAL_SUCCESS, s')" and "extra_ok f s"
  shows "fmt_extradata (formats s' f) = Some (extra_area f s') \<and> extra_room f sz s' \<and> extra_ok f s'"
  using assms(1)
proof (cases rule: extradata_alloc_cases)
  case 2
  have "extra_room f sz s" using assms(2) 2(2) extra_room_mono unfolding extra_ok_def by blast
  moreover have "extra_room f n s' = extra_room f n s" for n by (simp add: 2(4) extra_room_def split: option.split)
  ultimately show ?thesis using assms(2) by (simp add: 2(4) extra_ok_def extra_area_def)
next
  case (4 a t)
  then have "(a, sz) \<in> set (live t)" by (auto simp: vcos_malloc_def split: list.splits option.splits)
  then show ?thesis by (force simp: 4(5) extra_ok_def extra_room_def extra_area_def)
qed simp_all

definition empty_fmt_store :: fmt_store where
  "empty_fmt_store = \<lparr>mallocs = [], creates = [], clock_readings = [], live = [], sync = [],
     bufs = (\<lambda>_. zero_buffer_header), queues = (\<lambda>_. empty_queue), pools = (\<lambda>_. zero_pool),
     formats = (\<lambda>_. zero_format), bytes = (\<lambda>_. 0)\<rparr>"

definition one_format :: "addr option list \<Rightarrow> fmt_store" where
  "one_format ms = snd (mmal_format_alloc (empty_fmt_store\<lparr>mallocs := Some 1000 # ms\<rparr>))"

theorem mmal_format_extradata_alloc_room_witness:
  "fst (mmal_format_extradata_alloc 1000 64 (one_format [Some 5000])) = MMAL_SUCCESS \<and>
   extra_room 1000 64 (snd (mmal_format_extradata_alloc 1000 64 (one_format [Some 5000])))"
proof -
  have ok: "extra_ok 1000 (one_format [Some 5000])"
    by (simp add: extra_ok_def extra_room_def one_format_def mmal_format_alloc_def vcos_malloc_def empty_fmt_store_def
        zero_format_def)
  have "fst (mmal_format_extradata_alloc 1000 64 (one_format [Some 5000])) = MMAL_SUCCESS"
    by (simp add: mmal_format_extradata_alloc_def one_format_def mmal_format_alloc_def vcos_malloc_def vcos_free_def
        empty_fmt_store_def zero_format_def EXTRADATA_SIZE_DEFAULT_def EXTRADATA_SIZE_MAX_def)
  then show ?thesis
    using mmal_format_extradata_alloc_room [OF _ ok] by (metis prod.collapse)
qed

text \<open>
  After a failed allocation the recorded size is that of the block that was freed, so that a second request
  for as much succeeds and points the format at its buffer of 32 bytes: a full copy of a format with 64
  bytes of codec data would then overwrite 32 bytes behind the buffer.
\<close>

theorem mmal_format_extradata_alloc_overflow:
  "let s1 = snd (mmal_format_extradata_alloc 1000 64 (one_format [Some 5000, None]));
       (failed, s2) = mmal_format_extradata_alloc 1000 100 s1;
       (again, s3) = mmal_format_extradata_alloc 1000 64 s2
   in failed = MMAL_ENOMEM \<and> again = MMAL_SUCCESS \<and>
      fmt_extradata (formats s3 1000) = Some (inline_buffer 1000) \<and> \<not> extra_room 1000 64 s3"
  by (simp add: mmal_format_extradata_alloc_def one_format_def mmal_format_alloc_def vcos_malloc_def vcos_free_def
      empty_fmt_store_def zero_format_def EXTRADATA_SIZE_DEFAULT_def EXTRADATA_SIZE_MAX_def extra_room_def)

section \<open>Copies\<close>

text \<open>\<open>n\<close> bytes at \<open>a\<close> and \<open>b\<close> do not overlap.\<close>

definition apart :: "addr \<Rightarrow> addr \<Rightarrow> nat \<Rightarrow> bool" where
  "apart a b n \<longleftrightarrow> a + n \<le> b \<or> b + n \<le> a"

text \<open>All public fields but the codec data are equal.\<close>

definition same_format :: "mmal_es_format \<Rightarrow> mmal_es_format \<Rightarrow> bool" where
  "same_format f g \<longleftrightarrow> fmt_type f = fmt_type g \<and> fmt_encoding f = fmt_encoding g \<and>
     fmt_encoding_variant f = fmt_encoding_variant g \<and> fmt_es f = fmt_es g \<and> fmt_bitrate f = fmt_bitrate g \<and>
     fmt_flags f = fmt_flags g"

lemma copy_facts:
  "same_format (formats (mmal_format_copy dst src s) dst) (formats s src)"
  "priv_extradata (formats (mmal_format_copy dst src s) f) = priv_extradata (formats s f)"
  "fmt_extradata_size (formats (mmal_format_copy dst src s) dst) = 0"
  "f \<noteq> dst \<Longrightarrow> formats (mmal_format_copy dst src s) f = formats s f"
  "bytes (mmal_format_copy dst src s) = bytes s" "mallocs (mmal_format_copy dst src s) = mallocs s"
  by (simp_all add: mmal_format_copy_def Let_def same_format_def)

lemma same_format_compare:
  assumes "same_format (formats s f) (formats s g)" "\<not> extradata_differs (formats s f) (formats s g) s"
  shows "mmal_format_compare f g s = 0"
  using assms by (simp add: mmal_format_compare_def same_format_def Let_def)

lemma copy_extra [simp]:
  "extra_ok f (mmal_format_copy dst src s) = extra_ok f s" "extra_ok f (memcpy d a n s) = extra_ok f s"
  "extra_room f m (upd_fmt f (\<lambda>x. x\<lparr>fmt_extradata_size := z\<rparr>) s) = extra_room f m s"
  "extra_ok f (upd_fmt f (\<lambda>x. x\<lparr>fmt_extradata_size := z\<rparr>) s) = extra_ok f s"
  by (simp_all add: extra_ok_def extra_room_def mmal_format_copy_def Let_def split: option.split)

text \<open>What an allocation for a copy leaves: the fields copied before it, and memory that the data of the source do not overlap.\<close>

lemma alloc_for_copy:
  assumes alloc: "mmal_format_extradata_alloc dst sz (mmal_format_copy dst src s) = (MMAL_SUCCESS, s2)" and ne: "dst \<noteq> src"
    and apart: "\<forall>d\<in>insert (inline_buffer dst) (set_option (priv_extradata (formats s dst)) \<union> set (granted s)). apart d a n"
  obtains d where "fmt_extradata (formats s2 dst) = Some d" "apart d a n" "formats s2 src = formats s src" "bytes s2 = bytes s"
    "same_format (formats s2 dst) (formats s src)"
  using alloc
proof (cases rule: extradata_alloc_cases)
  let ?s1 = "mmal_format_copy dst src s"
  case 2
  have "extra_area dst ?s1 \<in> insert (inline_buffer dst) (set_option (priv_extradata (formats s dst)))"
    by (simp add: extra_area_def copy_facts split: option.split)
  then show thesis using 2(4) apart ne copy_facts(1) [of dst src s]
    by (intro that [of "extra_area dst ?s1"]) (auto simp: copy_facts same_format_def)
next
  case (4 e t)
  have "e \<in> set (granted s)" using 4(4) copy_facts(6) [of dst src s]
    by (auto simp: vcos_malloc_def granted_def List.map_filter_simps split: list.splits option.splits)
  then show thesis using 4(5) apart ne vcos_malloc_formats [OF 4(4)] copy_facts(1) [of dst src s]
    by (intro that [of e]) (auto simp: copy_facts same_format_def)
qed simp_all

lemma failed_alloc_src:
  "mmal_format_extradata_alloc dst sz (mmal_format_copy dst src s) = (status, s2) \<Longrightarrow> status \<noteq> MMAL_SUCCESS \<Longrightarrow> dst \<noteq> src \<Longrightarrow>
   formats s2 src = formats s src \<and> (status = MMAL_EINVAL \<and> EXTRADATA_SIZE_MAX < sz \<or> status = MMAL_ENOMEM)"
  by (erule extradata_alloc_cases) (auto simp: copy_facts dest: vcos_malloc_formats)

text \<open>
  C38: a full copy into a format whose recorded size of codec data is that of its memory always returns.  When it succeeds the
  destination compares equal to the source, on all fields and on the codec data, if there are any, and its memory has room for them;
  it fails only when the source has more codec data than is allowed or there is no memory.  The source keeps its
  fields and data.  No memory that the copy may use overlaps the data of the source.  (A format whose allocation of codec data
  failed before records the size of the block that was freed, and is excluded: see
  \<open>mmal_format_extradata_alloc_overflow\<close>.)
\<close>

theorem mmal_format_full_copy_compares_equal:
  assumes ne: "dst \<noteq> src" and ok: "extra_ok dst s" and n: "n = unat (fmt_extradata_size (formats s src))"
    and data: "fmt_extradata_size (formats s src) = 0 \<or> fmt_extradata (formats s src) = Some a \<and>
      (\<forall>d\<in>insert (inline_buffer dst) (set_option (priv_extradata (formats s dst)) \<union> set (granted s)). apart d a n)"
  shows "\<exists>status s'. mmal_format_full_copy dst src s = Some (status, s') \<and> formats s' src = formats s src \<and>
     (status = MMAL_SUCCESS \<and> mmal_format_compare dst src s' = 0 \<and> mem_range a n s' = mem_range a n s \<and>
        fmt_extradata_size (formats s' dst) = fmt_extradata_size (formats s src) \<and> extra_ok dst s' \<or>
      status = MMAL_EINVAL \<and> EXTRADATA_SIZE_MAX < fmt_extradata_size (formats s src) \<or> status = MMAL_ENOMEM)"
proof -
  let ?sz = "fmt_extradata_size (formats s src)"
  let ?s1 = "mmal_format_copy dst src s"
  have src1: "formats ?s1 src = formats s src" using ne by (simp add: copy_facts)
  show ?thesis
  proof (cases "?sz = 0")
    case True
    have "\<not> extradata_differs (formats ?s1 dst) (formats ?s1 src) ?s1"
      using True src1 by (simp add: extradata_differs_def copy_facts)
    then have "mmal_format_compare dst src ?s1 = 0"
      using src1 same_format_compare copy_facts(1) by metis
    moreover have "mmal_format_full_copy dst src s = Some (MMAL_SUCCESS, ?s1)"
      using True src1 by (simp add: mmal_format_full_copy_def Let_def)
    ultimately show ?thesis using ok True n src1 by (simp add: copy_facts mem_range_def)
  next
    case False
    with data have a: "fmt_extradata (formats s src) = Some a"
      and apart: "\<forall>d\<in>insert (inline_buffer dst) (set_option (priv_extradata (formats s dst)) \<union> set (granted s)). apart d a n"
      by blast+
    obtain status s2 where alloc: "mmal_format_extradata_alloc dst ?sz ?s1 = (status, s2)" by fastforce
    show ?thesis
    proof (cases "status = MMAL_SUCCESS")
      case failed: False
      then have "mmal_format_full_copy dst src s = Some (status, s2)"
        using alloc False src1 by (simp add: mmal_format_full_copy_def Let_def)
      then show ?thesis using failed_alloc_src [OF alloc failed ne] by blast
    next
      case True
      note alloc = alloc [unfolded True]
      obtain d where d: "fmt_extradata (formats s2 dst) = Some d" "apart d a n"
        and f2: "formats s2 src = formats s src" "bytes s2 = bytes s" "same_format (formats s2 dst) (formats s src)"
        using alloc_for_copy [OF alloc ne apart] by blast
      have room: "extra_room dst ?sz s2" "extra_ok dst s2" using mmal_format_extradata_alloc_room [OF alloc] ok by simp_all
      let ?s3 = "upd_fmt dst (\<lambda>x. x\<lparr>fmt_extradata_size := ?sz\<rparr>) s2"
      let ?s' = "memcpy d a n ?s3"
      have copy: "mmal_format_full_copy dst src s = Some (MMAL_SUCCESS, ?s')"
        using False src1 alloc d(1) f2(1) ne a n room(1) by (simp add: mmal_format_full_copy_def Let_def)
      have ap: "d + n \<le> a \<or> a + n \<le> d" using d(2) by (simp add: apart_def)
      have "mem_range d n ?s' = mem_range a n ?s3" "mem_range a n ?s' = mem_range a n ?s3"
        by (rule mem_range_memcpy [OF ap])+
      moreover have "mem_range a n ?s3 = mem_range a n s" using f2(2) by (simp add: mem_range_def)
      moreover have src': "formats ?s' src = formats s src" using ne f2(1) by simp
      moreover have dst': "formats ?s' dst = (formats s2 dst)\<lparr>fmt_extradata_size := ?sz\<rparr>" by simp
      ultimately have "same_format (formats ?s' dst) (formats ?s' src)" "\<not> extradata_differs (formats ?s' dst) (formats ?s' src) ?s'"
        "mem_range a n ?s' = mem_range a n s"
        using f2(3) d(1) a n by (simp_all add: same_format_def extradata_differs_def)
      moreover have "extra_ok dst ?s'" "fmt_extradata_size (formats ?s' dst) = ?sz" using room(2) dst' by simp_all
      ultimately show ?thesis using copy src' same_format_compare by blast
    qed
  qed
qed

text \<open>A format at 2000 with three bytes of codec data at 3000, one at 4000 without any, and an empty one at 1000.\<close>

definition two_formats :: fmt_store where
  "two_formats = empty_fmt_store\<lparr>formats := (\<lambda>f. if f = 2000
     then zero_format\<lparr>fmt_type := MMAL_ES_TYPE_VIDEO, fmt_extradata_size := 3, fmt_extradata := Some 3000\<rparr>
     else zero_format\<lparr>fmt_encoding := of_nat f, priv_extradata_size := 32\<rparr>), bytes := (\<lambda>a. of_nat a)\<rparr>"

theorem mmal_format_full_copy_compares_equal_witness:
  "(\<exists>s'. mmal_format_full_copy 1000 2000 two_formats = Some (MMAL_SUCCESS, s') \<and> mmal_format_compare 1000 2000 s' = 0) \<and>
   (\<exists>s'. mmal_format_full_copy 1000 4000 two_formats = Some (MMAL_SUCCESS, s') \<and> mmal_format_compare 1000 4000 s' = 0)"
proof -
  have ok: "extra_ok 1000 two_formats"
    by (simp add: extra_ok_def extra_room_def two_formats_def zero_format_def EXTRADATA_SIZE_DEFAULT_def)
  have src: "fmt_extradata (formats two_formats 2000) = Some 3000" "fmt_extradata_size (formats two_formats 2000) = 3"
    "fmt_extradata_size (formats two_formats 4000) = 0"
    by (simp_all add: two_formats_def zero_format_def)
  have "\<forall>d\<in>insert (inline_buffer 1000) (set_option (priv_extradata (formats two_formats 1000)) \<union> set (granted two_formats)).
      apart d 3000 3"
    by (simp add: two_formats_def empty_fmt_store_def zero_format_def inline_buffer_def apart_def)
  moreover obtain u where "mmal_format_full_copy 1000 2000 two_formats = Some (MMAL_SUCCESS, u)"
    by (simp add: mmal_format_full_copy_def mmal_format_extradata_alloc_def mmal_format_copy_def two_formats_def
        empty_fmt_store_def EXTRADATA_SIZE_MAX_def EXTRADATA_SIZE_DEFAULT_def extra_room_def zero_format_def Let_def)
  moreover obtain v where "mmal_format_full_copy 1000 4000 two_formats = Some (MMAL_SUCCESS, v)"
    by (simp add: mmal_format_full_copy_def mmal_format_copy_def two_formats_def empty_fmt_store_def zero_format_def Let_def)
  ultimately show ?thesis
    using mmal_format_full_copy_compares_equal [OF _ ok, of 2000 3 3000] mmal_format_full_copy_compares_equal [OF _ ok, of 4000 0]
    by (auto simp: src)
qed

section \<open>Nothing is leaked\<close>

definition extradata_allocs :: "addr \<Rightarrow> u32 list \<Rightarrow> 'a fmt_store_scheme \<Rightarrow> 'a fmt_store_scheme" where
  "extradata_allocs f szs s = fold (\<lambda>sz s. snd (mmal_format_extradata_alloc f sz s)) szs s"

text \<open>Besides what existed before, only the format and its block of codec data are allocated.\<close>

definition owns :: "addr \<Rightarrow> (addr \<times> u32) list \<Rightarrow> 'a fmt_store_scheme \<Rightarrow> bool" where
  "owns f base s \<longleftrightarrow> fresh_allocs s \<and> f \<notin> fst ` set base \<and>
     (case priv_extradata (formats s f) of
        None \<Rightarrow> live s = (f, sizeof_MMAL_ES_FORMAT_PRIVATE_T) # base
      | Some a \<Rightarrow> a \<noteq> f \<and> a \<notin> fst ` set base \<and>
          (\<exists>n. live s = (a, n) # (f, sizeof_MMAL_ES_FORMAT_PRIVATE_T) # base))"

lemma fresh_allocs_free: "fresh_allocs s \<Longrightarrow> fresh_allocs (vcos_free p s)"
  by (auto simp: fresh_allocs_def vcos_free_def granted_def split: option.split)

lemma fresh_allocs_upd_fmt [simp]: "fresh_allocs (upd_fmt f g s) = fresh_allocs s"
  by (rule fresh_allocs_cong) simp_all

lemma owns_free_extradata:
  "owns f base s \<Longrightarrow> live (vcos_free (priv_extradata (formats s f)) s) = (f, sizeof_MMAL_ES_FORMAT_PRIVATE_T) # base"
  by (auto simp: owns_def vcos_free_def vcos_free_fresh split: option.splits)

lemma owns_alloc:
  assumes "owns f base s"
  shows "owns f base (snd (mmal_format_extradata_alloc f sz s))"
proof -
  obtain status s' where a: "mmal_format_extradata_alloc f sz s = (status, s')" by fastforce
  let ?t = "vcos_free (priv_extradata (formats s f)) s"
  have fr: "fresh_allocs ?t" "f \<notin> fst ` set base" using assms fresh_allocs_free by (auto simp: owns_def)
  from a have "owns f base s'"
  proof (cases rule: extradata_alloc_cases)
    case 2
    then show ?thesis using assms by (simp add: owns_def cong: option.case_cong)
  next
    case (3 t)
    have "fresh_allocs t" by (rule vcos_malloc_fresh [OF 3(4) fr(1)])
    then show ?thesis using vcos_malloc_None [OF 3(4)] owns_free_extradata [OF assms] fr(2)
      by (simp add: 3(5) owns_def)
  next
    case (4 e t)
    note m = vcos_malloc_Some [OF 4(4) fr(1)]
    have "live t = (e, sz) # (f, sizeof_MMAL_ES_FORMAT_PRIVATE_T) # base"
      using m(1) owns_free_extradata [OF assms] by simp
    then show ?thesis using m(2,3) fr(2) owns_free_extradata [OF assms] by (auto simp: 4(5) owns_def)
  qed (use assms in simp)
  then show ?thesis by (simp add: a)
qed

text \<open>
  Whatever requests for codec data are made on a new format, failing or not, freeing the format gives
  back exactly the memory it took.
\<close>

theorem mmal_format_lifecycle_balanced:
  assumes "mmal_format_alloc s = (Some f, s1)" "fresh_allocs s"
  shows "live (mmal_format_free f (extradata_allocs f szs s1)) = live s"
proof -
  obtain t where t: "vcos_malloc sizeof_MMAL_ES_FORMAT_PRIVATE_T s = (Some f, t)"
    "s1 = upd_fmt f (\<lambda>_. zero_format\<lparr>priv_extradata_size := EXTRADATA_SIZE_DEFAULT\<rparr>) t"
    using assms(1) by (auto simp: mmal_format_alloc_def split: prod.splits option.splits)
  note m = vcos_malloc_Some [OF t(1) assms(2)]
  have "owns f (live s) s1" using m by (simp add: t(2) owns_def zero_format_def)
  then have "owns f (live s) (extradata_allocs f szs s1)"
    unfolding extradata_allocs_def by (induction szs arbitrary: s1) (simp_all add: owns_alloc)
  from owns_free_extradata [OF this] this show ?thesis
    by (simp add: mmal_format_free_def owns_def) (simp add: vcos_free_def vcos_free_fresh)
qed

theorem mmal_format_lifecycle_balanced_witness:
  "live (mmal_format_free 1000 (extradata_allocs 1000 [64, 100, 64] (one_format [Some 5000, None]))) = []"
  using mmal_format_lifecycle_balanced
    [of "empty_fmt_store\<lparr>mallocs := [Some 1000, Some 5000, None]\<rparr>" 1000 "one_format [Some 5000, None]" "[64, 100, 64]"]
  by (simp add: one_format_def mmal_format_alloc_def vcos_malloc_def empty_fmt_store_def fresh_allocs_def granted_def
      List.map_filter_simps)

end
