(* ===== verification/PortData.thy ===== *)
theory PortData
  imports Format
begin

text \<open>
  The data of ports, components and connections: the structs of \<^verbatim>\<open>mmal/mmal_port.h\<close>,
  \<^verbatim>\<open>mmal/core/mmal_port_private.h\<close>, \<^verbatim>\<open>mmal/core/mmal_port.c\<close>, \<^verbatim>\<open>mmal/mmal_component.h\<close>,
  \<^verbatim>\<open>mmal/core/mmal_component.c\<close> and \<^verbatim>\<open>mmal/util/mmal_connection.c\<close>, the store that holds them, and the
  environment: what the functions of a component module and of a client do.

  The names of ports and connections are only text for the log and are left out.  The arrays of ports of a component
  are lists.  A function pointer is a name: of a function of the core, or a number for one of a module or client, whose
  meaning is a field of \<open>port_env\<close>.  A function of the environment that yields \<open>None\<close> does not come back.
\<close>

section \<open>Ports\<close>

datatype mmal_port_type =
  MMAL_PORT_TYPE_UNKNOWN | MMAL_PORT_TYPE_CONTROL | MMAL_PORT_TYPE_INPUT | MMAL_PORT_TYPE_OUTPUT | MMAL_PORT_TYPE_CLOCK

definition MMAL_PORT_CAPABILITY_PASSTHROUGH :: u32 where "MMAL_PORT_CAPABILITY_PASSTHROUGH = 0x01"
definition MMAL_PORT_CAPABILITY_ALLOCATION :: u32 where "MMAL_PORT_CAPABILITY_ALLOCATION = 0x02"
definition MMAL_PORT_CAPABILITY_SUPPORTS_EVENT_FORMAT_CHANGE :: u32 where
  "MMAL_PORT_CAPABILITY_SUPPORTS_EVENT_FORMAT_CHANGE = 0x04"

datatype bh_callback =
    Mmal_port_connected_input_cb | Mmal_port_connected_output_cb
  | Mmal_connection_bh_in_cb | Mmal_connection_bh_out_cb | Client_bh_cb nat

text \<open>A function of the core for control ports (\<^verbatim>\<open>mmal_component_*_control_port\<close>), or one of a module.\<close>

datatype module_fn = Control_port_fn | Module_fn nat

datatype connect_fn = Mmal_port_connect_default | Module_connect nat

record core_statistics =
  stat_buffer_count :: u32
  stat_first_buffer_time :: u32
  stat_last_buffer_time :: u32
  stat_max_delay :: u32

datatype core_stats_dir = MMAL_CORE_STATS_RX | MMAL_CORE_STATS_TX

datatype mmal_parameter =
    Param_core_statistics core_stats_dir bool core_statistics
  | Param_buffer_requirements u32 u32 u32 u32 u32
  | Param_other u32 u32 "nat list"

record mmal_port =
  port_type :: mmal_port_type
  port_index :: u16
  port_index_all :: u16
  port_enabled :: bool
  port_format :: addr
  buffer_num_min :: u32
  buffer_size_min :: u32
  buffer_alignment_min :: u32
  buffer_num_recommended :: u32
  buffer_size_recommended :: u32
  buffer_num :: u32
  buffer_size :: u32
  port_component :: addr
  port_userdata :: "addr option"
  port_capabilities :: u32
  \<comment> \<open>the module's functions\<close>
  pf_set_format :: "nat option"
  pf_enable :: "module_fn option"
  pf_disable :: "module_fn option"
  pf_send :: "nat option"
  pf_flush :: "nat option"
  pf_parameter_set :: "module_fn option"
  pf_parameter_get :: "module_fn option"
  pf_connect :: "connect_fn option"
  port_payload_alloc :: "nat option"
  port_payload_free :: "nat option"
  \<comment> \<open>the core's private part\<close>
  buffer_header_callback :: "bh_callback option"
  transit_buffer_headers :: int
  transit_sema :: nat
  format_ptr_copy :: addr
  connected_port :: "addr option"
  core_owns_connection :: bool
  pool_for_connection :: "addr option"
  is_paused :: bool
  queue_first :: "addr option"
  queue_last :: last_link
  stats_rx :: core_statistics
  stats_tx :: core_statistics

definition zero_statistics :: core_statistics where
  "zero_statistics = \<lparr>stat_buffer_count = 0, stat_first_buffer_time = 0, stat_last_buffer_time = 0, stat_max_delay = 0\<rparr>"

definition zero_port :: mmal_port where
  "zero_port = \<lparr>port_type = MMAL_PORT_TYPE_UNKNOWN, port_index = 0, port_index_all = 0, port_enabled = False,
     port_format = 0, buffer_num_min = 0, buffer_size_min = 0, buffer_alignment_min = 0,
     buffer_num_recommended = 0, buffer_size_recommended = 0, buffer_num = 0, buffer_size = 0,
     port_component = 0, port_userdata = None, port_capabilities = 0,
     pf_set_format = None, pf_enable = None, pf_disable = None, pf_send = None, pf_flush = None,
     pf_parameter_set = None, pf_parameter_get = None, pf_connect = None,
     port_payload_alloc = None, port_payload_free = None,
     buffer_header_callback = None, transit_buffer_headers = 0, transit_sema = 0, format_ptr_copy = 0,
     connected_port = None, core_owns_connection = False, pool_for_connection = None, is_paused = False,
     queue_first = None, queue_last = At_first, stats_rx = zero_statistics, stats_tx = zero_statistics\<rparr>"

section \<open>Components and connections\<close>

record mmal_component =
  comp_name :: string
  comp_enabled :: bool
  comp_control :: "addr option"
  comp_input_array :: "addr option"
  comp_input :: "addr list"
  comp_output_array :: "addr option"
  comp_output :: "addr list"
  comp_clock :: "addr list"
  comp_port_array :: "addr option"
  comp_port :: "addr list"
  comp_id :: u32
  comp_module :: "addr option"
  comp_pf_enable :: "nat option"
  comp_pf_disable :: "nat option"
  comp_pf_destroy :: "nat option"
  comp_event_pool :: "addr option"
  comp_refcount :: int
  comp_refcount_ports :: int
  comp_pf_action :: "nat option"
  action_event :: nat
  action_quit :: bool
  destruction_pending :: bool

definition zero_component :: mmal_component where
  "zero_component = \<lparr>comp_name = [], comp_enabled = False, comp_control = None, comp_input_array = None, comp_input = [], comp_output_array = None, comp_output = [],
     comp_clock = [], comp_port_array = None, comp_port = [], comp_id = 0, comp_module = None,
     comp_pf_enable = None, comp_pf_disable = None, comp_pf_destroy = None, comp_event_pool = None,
     comp_refcount = 0, comp_refcount_ports = 0, comp_pf_action = None, action_event = 0, action_quit = False,
     destruction_pending = False\<rparr>"

record mmal_connection =
  conn_callback :: "nat option"
  conn_enabled :: bool
  conn_flags :: u32
  conn_in :: addr
  conn_out :: addr
  conn_pool :: "addr option"
  conn_queue :: "addr option"
  conn_time_setup :: int
  conn_time_enable :: int
  conn_time_disable :: int
  conn_pool_port :: "addr option"
  conn_refcount :: int
  conn_user_data :: "addr option"

text \<open>What the data of an event buffer holds, by the address of the data.\<close>

record event_format_changed =
  ev_buffer_size_min :: u32
  ev_buffer_num_min :: u32
  ev_buffer_size_recommended :: u32
  ev_buffer_num_recommended :: u32
  ev_format :: "addr option"

datatype event_data =
  Ev_none | Ev_error mmal_status | Ev_end_of_stream mmal_port_type u32 | Ev_format_changed event_format_changed

text \<open>The list of the suppliers of components; the prefix is the text up to the terminating zero.\<close>

record mmal_component_supplier =
  sup_next :: "addr option"
  sup_create :: nat
  sup_prefix :: string

text \<open>The last fields are global variables of the core.\<close>

record mmal_store = fmt_store +
  ports :: "addr \<Rightarrow> mmal_port"
  components :: "addr \<Rightarrow> mmal_component"
  connections :: "addr \<Rightarrow> mmal_connection"
  events :: "addr \<Rightarrow> event_data"
  core_refcount :: u32
  core_instance_count :: u32
  suppliers :: "addr option"
  supplier_at :: "addr \<Rightarrow> mmal_component_supplier"

definition upd_port :: "addr \<Rightarrow> (mmal_port \<Rightarrow> mmal_port) \<Rightarrow> 'a mmal_store_scheme \<Rightarrow> 'a mmal_store_scheme" where
  "upd_port p f s = s\<lparr>ports := (ports s)(p := f (ports s p))\<rparr>"

definition upd_comp :: "addr \<Rightarrow> (mmal_component \<Rightarrow> mmal_component) \<Rightarrow> 'a mmal_store_scheme \<Rightarrow> 'a mmal_store_scheme" where
  "upd_comp c f s = s\<lparr>components := (components s)(c := f (components s c))\<rparr>"

definition upd_conn :: "addr \<Rightarrow> (mmal_connection \<Rightarrow> mmal_connection) \<Rightarrow> 'a mmal_store_scheme \<Rightarrow> 'a mmal_store_scheme" where
  "upd_conn c f s = s\<lparr>connections := (connections s)(c := f (connections s c))\<rparr>"

section \<open>Modules and clients\<close>

record 's port_env =
  on_set_format :: "nat \<Rightarrow> addr \<Rightarrow> 's \<Rightarrow> (mmal_status \<times> 's) option"
  on_enable :: "nat \<Rightarrow> addr \<Rightarrow> bh_callback option \<Rightarrow> 's \<Rightarrow> (mmal_status \<times> 's) option"
  on_disable :: "nat \<Rightarrow> addr \<Rightarrow> 's \<Rightarrow> (mmal_status \<times> 's) option"
  on_send :: "nat \<Rightarrow> addr \<Rightarrow> addr \<Rightarrow> 's \<Rightarrow> (mmal_status \<times> 's) option"
  on_flush :: "nat \<Rightarrow> addr \<Rightarrow> 's \<Rightarrow> (mmal_status \<times> 's) option"
  on_parameter_set :: "nat \<Rightarrow> addr \<Rightarrow> mmal_parameter \<Rightarrow> 's \<Rightarrow> (mmal_status \<times> 's) option"
  on_parameter_get :: "nat \<Rightarrow> addr \<Rightarrow> mmal_parameter \<Rightarrow> 's \<Rightarrow> (mmal_status \<times> mmal_parameter \<times> 's) option"
  on_connect :: "nat \<Rightarrow> addr \<Rightarrow> addr option \<Rightarrow> 's \<Rightarrow> (mmal_status \<times> 's) option"
  on_payload_alloc :: "nat \<Rightarrow> addr \<Rightarrow> u32 \<Rightarrow> 's \<Rightarrow> addr option \<times> 's"
  on_payload_free :: "nat \<Rightarrow> addr \<Rightarrow> addr \<Rightarrow> 's \<Rightarrow> 's"
  on_create :: "nat \<Rightarrow> string \<Rightarrow> addr \<Rightarrow> 's \<Rightarrow> (mmal_status \<times> 's) option"
  on_component_enable :: "nat \<Rightarrow> addr \<Rightarrow> 's \<Rightarrow> (mmal_status \<times> 's) option"
  on_component_disable :: "nat \<Rightarrow> addr \<Rightarrow> 's \<Rightarrow> (mmal_status \<times> 's) option"
  on_component_destroy :: "nat \<Rightarrow> addr \<Rightarrow> 's \<Rightarrow> mmal_status \<times> 's"
  on_action :: "nat \<Rightarrow> addr \<Rightarrow> 's \<Rightarrow> 's option"
  on_buffer :: "nat \<Rightarrow> addr \<Rightarrow> addr \<Rightarrow> 's \<Rightarrow> 's option"
  on_connection :: "nat \<Rightarrow> addr \<Rightarrow> 's \<Rightarrow> 's option"
  client_pool :: "'s pool_env"

section \<open>Sizes on the 32-bit ARM target\<close>

definition sizeof_MMAL_PORT_T :: u32 where "sizeof_MMAL_PORT_T = 64"
definition sizeof_MMAL_PORT_PRIVATE_T :: u32 where "sizeof_MMAL_PORT_PRIVATE_T = 52"
definition sizeof_MMAL_PORT_PRIVATE_CORE_T :: u32 where "sizeof_MMAL_PORT_PRIVATE_CORE_T = 212"
definition sizeof_PORT_NAME_FORMAT :: u32 where "sizeof_PORT_NAME_FORMAT = 22"
definition sizeof_MMAL_COMPONENT_T :: u32 where "sizeof_MMAL_COMPONENT_T = 56"
definition sizeof_MMAL_COMPONENT_CORE_PRIVATE_T :: u32 where "sizeof_MMAL_COMPONENT_CORE_PRIVATE_T = 344"

text \<open>The synchronisation objects of a port, in the order in which they are created.\<close>

definition port_core :: "addr \<Rightarrow> addr" where
  "port_core p = p + unat (sizeof_MMAL_PORT_T + sizeof_MMAL_PORT_PRIVATE_T)"

definition port_sync :: "addr \<Rightarrow> sync_object list" where
  "port_sync p =
     [Mutex (port_core p),                \<comment> \<open>\<open>lock\<close>\<close>
      Mutex (port_core p + 24),           \<comment> \<open>\<open>send_lock\<close>\<close>
      Mutex (port_core p + 104),          \<comment> \<open>\<open>transit_lock\<close>\<close>
      Semaphore (port_core p + 128),      \<comment> \<open>\<open>transit_sema\<close>\<close>
      Mutex (port_core p + 48),           \<comment> \<open>\<open>stats_lock\<close>\<close>
      Mutex (port_core p + 72)]           \<comment> \<open>\<open>connection_lock\<close>\<close>"

section \<open>Updates and selectors\<close>

lemma ports_upd [simp]:
  "ports (upd_port p f s) = (ports s)(p := f (ports s p))"
  "components (upd_comp c g s) = (components s)(c := g (components s c))"
  "connections (upd_conn d h s) = (connections s)(d := h (connections s d))"
  by (simp_all add: upd_port_def upd_comp_def upd_conn_def)

lemma upd_port_sel [simp]:
  "bufs (upd_port p f s) = bufs s" "queues (upd_port p f s) = queues s" "pools (upd_port p f s) = pools s"
  "formats (upd_port p f s) = formats s" "bytes (upd_port p f s) = bytes s"
  "live (upd_port p f s) = live s" "sync (upd_port p f s) = sync s" "mallocs (upd_port p f s) = mallocs s"
  "creates (upd_port p f s) = creates s" "components (upd_port p f s) = components s"
  "connections (upd_port p f s) = connections s" "clock_readings (upd_port p f s) = clock_readings s"
  by (simp_all add: upd_port_def)

lemma upd_comp_sel [simp]:
  "bufs (upd_comp p g s) = bufs s" "queues (upd_comp p g s) = queues s" "pools (upd_comp p g s) = pools s"
  "formats (upd_comp p g s) = formats s" "bytes (upd_comp p g s) = bytes s"
  "live (upd_comp p g s) = live s" "sync (upd_comp p g s) = sync s" "mallocs (upd_comp p g s) = mallocs s"
  "creates (upd_comp p g s) = creates s" "ports (upd_comp p g s) = ports s"
  "connections (upd_comp p g s) = connections s"
  by (simp_all add: upd_comp_def)

lemma upd_conn_sel [simp]:
  "bufs (upd_conn p h s) = bufs s" "queues (upd_conn p h s) = queues s" "pools (upd_conn p h s) = pools s"
  "formats (upd_conn p h s) = formats s" "live (upd_conn p h s) = live s" "sync (upd_conn p h s) = sync s"
  "mallocs (upd_conn p h s) = mallocs s" "creates (upd_conn p h s) = creates s" "ports (upd_conn p h s) = ports s"
  "components (upd_conn p h s) = components s"
  by (simp_all add: upd_conn_def)

lemma upd_port_upd_port [simp]: "upd_port p f (upd_port p g s) = upd_port p (f \<circ> g) s"
  by (simp add: upd_port_def)

lemma upd_port_id: "f (ports s p) = ports s p \<Longrightarrow> upd_port p f s = s"
  by (simp add: upd_port_def fun_upd_idem)

lemma upd_port_cong: "f (ports s p) = g (ports s p) \<Longrightarrow> upd_port p f s = upd_port p g s"
  by (simp add: upd_port_def)

lemma upd_buf_mmal [simp]:
  "ports (upd_buf h f s) = ports s" "components (upd_buf h f s) = components s" "formats (upd_buf h f s) = formats s"
  "connections (upd_buf h f s) = connections s"
  by (simp_all add: upd_buf_def)

lemma upd_fmt_mmal [simp]:
  "ports (upd_fmt h g s) = ports s" "components (upd_fmt h g s) = components s"
  "connections (upd_fmt h g s) = connections s"
  by (simp_all add: upd_fmt_def)

lemma fresh_allocs_mmal [simp]:
  "fresh_allocs (upd_port p f s) = fresh_allocs s" "fresh_allocs (upd_comp c g s) = fresh_allocs s"
  "fresh_allocs (upd_conn d h s) = fresh_allocs s"
  by (simp_all cong: fresh_allocs_cong add: fresh_allocs_def granted_def)

end
