(* ===== verification/PortAlloc.thy ===== *)
theory PortAlloc
  imports PortData "HOL-Library.Multiset"
begin

text \<open>
  Creating and destroying ports: \<open>mmal_port_alloc\<close>, \<open>mmal_port_free\<close>, \<open>mmal_ports_alloc\<close> and \<open>mmal_ports_free\<close> of
  \<^verbatim>\<open>mmal/core/mmal_port.c\<close>.  A port takes one block, six synchronisation objects and a format.
\<close>

section \<open>Operations\<close>

text \<open>All six objects are attempted, whether or not one fails; the created ones are deleted on failure.\<close>

fun create_all :: "sync_object list \<Rightarrow> 'a os_store_scheme \<Rightarrow> bool list \<times> 'a os_store_scheme" where
  "create_all [] s = ([], s)"
| "create_all (x # xs) s =
     (let (ok, s) = vcos_create x s; (oks, s) = create_all xs s in (ok # oks, s))"

fun delete_created :: "sync_object list \<Rightarrow> bool list \<Rightarrow> 'a os_store_scheme \<Rightarrow> 'a os_store_scheme" where
  "delete_created (x # xs) (ok # oks) s = delete_created xs oks (if ok then vcos_delete x s else s)"
| "delete_created xs oks s = s"

definition port_alloc_size :: "string \<Rightarrow> u32 \<Rightarrow> u32" where
  "port_alloc_size name extra_size =
     sizeof_MMAL_PORT_T + sizeof_MMAL_PORT_PRIVATE_T + sizeof_MMAL_PORT_PRIVATE_CORE_T +
     (word_of_nat (length name) + sizeof_PORT_NAME_FORMAT) + extra_size"

definition mmal_port_alloc ::
  "addr \<Rightarrow> mmal_port_type \<Rightarrow> u32 \<Rightarrow> 'a mmal_store_scheme \<Rightarrow> addr option \<times> 'a mmal_store_scheme" where
  "mmal_port_alloc component type extra_size s =
     (case vcos_calloc 1 (port_alloc_size (comp_name (components s component)) extra_size) s of
        (None, s) \<Rightarrow> (None, s)
      | (Some port, s) \<Rightarrow>
          let s = upd_port port (\<lambda>_. zero_port\<lparr>port_type := type, port_component := component,
                    pf_connect := Some Mmal_port_connect_default, transit_sema := 1, queue_last := At_first\<rparr>) s;
              (oks, s) = create_all (port_sync port) s in
          if False \<in> set oks then (None, vcos_free (Some port) (delete_created (port_sync port) oks s))
          else
            (case mmal_format_alloc s of
               (None, s) \<Rightarrow> (None, vcos_free (Some port) (delete_created (port_sync port) oks s))
             | (Some f, s) \<Rightarrow> (Some port, upd_port port (\<lambda>p. p\<lparr>port_format := f, format_ptr_copy := f\<rparr>) s)))"

definition mmal_port_free :: "addr option \<Rightarrow> 'a mmal_store_scheme \<Rightarrow> 'a mmal_store_scheme" where
  "mmal_port_free port s =
     (case port of
        None \<Rightarrow> s
      | Some p \<Rightarrow>
          let s = mmal_format_free (format_ptr_copy (ports s p)) s;
              s = fold vcos_delete (rev (port_sync p)) s
          in vcos_free (Some p) s)"

text \<open>\<open>for (i = 0; i < ports_num; i++)\<close>; the ports that were made are returned in order.\<close>

fun alloc_ports ::
  "addr \<Rightarrow> mmal_port_type \<Rightarrow> u32 \<Rightarrow> nat list \<Rightarrow> addr list \<Rightarrow> 'a mmal_store_scheme \<Rightarrow> bool \<times> addr list \<times> 'a mmal_store_scheme" where
  "alloc_ports component type extra_size [] ps s = (True, ps, s)"
| "alloc_ports component type extra_size (i # is) ps s =
     (case mmal_port_alloc component type extra_size s of
        (None, s) \<Rightarrow> (False, ps, s)
      | (Some p, s) \<Rightarrow>
          alloc_ports component type extra_size is (ps @ [p]) (upd_port p (\<lambda>pt. pt\<lparr>port_index := word_of_nat i\<rparr>) s))"

definition free_ports :: "addr list \<Rightarrow> 'a mmal_store_scheme \<Rightarrow> 'a mmal_store_scheme" where
  "free_ports ps s = fold (\<lambda>p. mmal_port_free (Some p)) ps s"

definition mmal_ports_alloc ::
  "addr \<Rightarrow> u32 \<Rightarrow> mmal_port_type \<Rightarrow> u32 \<Rightarrow> 'a mmal_store_scheme \<Rightarrow> (addr \<times> addr list) option \<times> 'a mmal_store_scheme" where
  "mmal_ports_alloc component ports_num type extra_size s =
     (case vcos_malloc (sizeof_ptr * ports_num) s of
        (None, s) \<Rightarrow> (None, s)
      | (Some array, s) \<Rightarrow>
          let (all, ps, s) = alloc_ports component type extra_size [0..<unat ports_num] [] s in
          if \<not> all then (None, vcos_free (Some array) (free_ports ps s)) else (Some (array, ps), s))"

definition mmal_ports_free :: "addr \<Rightarrow> addr list \<Rightarrow> 'a mmal_store_scheme \<Rightarrow> 'a mmal_store_scheme" where
  "mmal_ports_free array ps s = vcos_free (Some array) (free_ports ps s)"

section \<open>Synchronisation objects\<close>

lemma vcos_delete_sel [simp]:
  "sync (vcos_delete x s) = remove1 x (sync s)" "live (vcos_delete x s) = live s"
  "mallocs (vcos_delete x s) = mallocs s" "ports (vcos_delete x t) = ports t" "formats (vcos_delete x u) = formats u"
  by (simp_all add: vcos_delete_def)

lemma fold_delete_sel [simp]:
  "sync (fold vcos_delete xs s) = fold remove1 xs (sync s)" "live (fold vcos_delete xs s) = live s"
  "mallocs (fold vcos_delete xs s) = mallocs s" "ports (fold vcos_delete xs t) = ports t"
  "formats (fold vcos_delete xs u) = formats u"
  by (induction xs arbitrary: s t u) simp_all

lemma fold_remove1_append:
  "mset xs \<subseteq># mset l \<Longrightarrow> fold remove1 xs (l @ s) = fold remove1 xs l @ s"
proof (induction xs arbitrary: l)
  case (Cons x xs)
  then have "x \<in> set l" by (metis list.set_intros(1) set_mset_mono set_mset_mset subsetD)
  moreover have "mset xs \<subseteq># mset (remove1 x l)"
    using Cons.prems by (simp add: insert_subset_eq_iff)
  ultimately show ?case using Cons.IH by (simp add: remove1_append)
qed simp

lemma mset_fold_remove1: "mset (fold remove1 xs l) = mset l - mset xs"
  by (induction xs arbitrary: l) simp_all

lemma fold_remove1_all: "mset xs = mset l \<Longrightarrow> fold remove1 xs (l @ s) = s"
  using fold_remove1_append [of xs l s] mset_fold_remove1 [of xs l] by simp

text \<open>What was created of a list of objects.\<close>

definition created :: "sync_object list \<Rightarrow> bool list \<Rightarrow> sync_object list" where
  "created xs oks = map fst (filter snd (zip xs oks))"

lemma create_all_sync:
  "create_all xs s = (oks, s') \<Longrightarrow>
   sync s' = rev (created xs oks) @ sync s \<and> live s' = live s \<and> mallocs s' = mallocs s \<and> length oks = length xs"
proof (induction xs arbitrary: s oks s')
  case (Cons x xs)
  obtain ok t where c: "vcos_create x s = (ok, t)" by fastforce
  obtain oks1 t1 where r: "create_all xs t = (oks1, t1)" by fastforce
  have "sync t = (if ok then x # sync s else sync s)" "live t = live s" "mallocs t = mallocs s"
    using vcos_create_cases [OF c] by simp_all
  with Cons.IH [OF r] Cons.prems c r show ?case by (auto simp: created_def)
qed (simp add: created_def)

lemma vcos_create_mmal:
  "ports (snd (vcos_create x s)) = ports s" "formats (snd (vcos_create x u)) = formats u"
  "components (snd (vcos_create x s)) = components s"
  by (auto simp: vcos_create_def split: list.split bool.split)

lemma create_all_mmal:
  "create_all xs s = (oks, s') \<Longrightarrow>
     ports s' = ports s \<and> formats s' = formats s \<and> components s' = components s"
proof (induction xs arbitrary: s oks s')
  case (Cons x xs)
  then show ?case using vcos_create_mmal [of x s] by (fastforce simp: Let_def split: prod.splits)
qed simp

lemma delete_created_fold: "delete_created xs oks s = fold vcos_delete (created xs oks) s"
  by (induction xs oks s rule: delete_created.induct) (simp_all add: created_def)

lemma created_all: "length oks = length xs \<Longrightarrow> False \<notin> set oks \<Longrightarrow> created xs oks = xs"
proof (induction xs arbitrary: oks)
  case (Cons x xs)
  then show ?case by (cases oks) (auto simp: created_def)
qed (simp add: created_def)

lemma delete_created_sync:
  assumes "create_all xs s = (oks, s')" "sync t = sync s'"
  shows "sync (delete_created xs oks t) = sync s"
  using create_all_sync [OF assms(1)] assms(2) fold_remove1_all [of "created xs oks" "rev (created xs oks)"]
  by (simp add: delete_created_fold)

section \<open>Effects\<close>

definition new_port :: "addr \<Rightarrow> mmal_port_type \<Rightarrow> addr \<Rightarrow> mmal_port" where
  "new_port component type f = zero_port\<lparr>port_type := type, port_component := component,
     pf_connect := Some Mmal_port_connect_default, transit_sema := 1, queue_last := At_first,
     port_format := f, format_ptr_copy := f\<rparr>"

lemma mmal_format_alloc_cases:
  assumes "mmal_format_alloc s = (r, s')"
  obtains "r = None" "vcos_malloc sizeof_MMAL_ES_FORMAT_PRIVATE_T s = (None, s')"
  | f t where "r = Some f" "vcos_malloc sizeof_MMAL_ES_FORMAT_PRIVATE_T s = (Some f, t)"
      "s' = upd_fmt f (\<lambda>_. zero_format\<lparr>priv_extradata_size := EXTRADATA_SIZE_DEFAULT\<rparr>) t"
  using assms by (auto simp: mmal_format_alloc_def split: prod.splits option.splits)

lemma vcos_malloc_sel:
  assumes "vcos_malloc n s = (r, t)"
  shows "sync t = sync s" "creates t = creates s"
  using assms by (auto simp: vcos_malloc_def split: list.splits option.splits)

lemma vcos_malloc_mmal:
  fixes s :: "'a mmal_store_scheme"
  assumes "vcos_malloc n s = (r, t)"
  shows "ports t = ports s" "components t = components s" "connections t = connections s"
  using assms by (auto simp: vcos_malloc_def split: list.splits option.splits)

lemma vcos_free_mmal [simp]:
  fixes s :: "'a mmal_store_scheme"
  shows "ports (vcos_free p s) = ports s" "components (vcos_free p s) = components s"
    "connections (vcos_free p s) = connections s" "sync (vcos_free p s) = sync s"
  by (simp_all add: vcos_free_def split: option.split)

lemma live_vcos_free: "live (vcos_free (Some a) s) = filter (\<lambda>(b, _). b \<noteq> a) (live s)"
  by (simp add: vcos_free_def)

lemma mmal_port_alloc_Some:
  assumes alloc: "mmal_port_alloc c t extra s = (Some p, s')" and fresh: "fresh_allocs s"
  obtains f where "ports s' = (ports s)(p := new_port c t f)" "components s' = components s"
    "priv_extradata (formats s' f) = None" "\<And>g. g \<noteq> f \<Longrightarrow> formats s' g = formats s g"
    "live s' = (f, sizeof_MMAL_ES_FORMAT_PRIVATE_T) # (p, port_alloc_size (comp_name (components s c)) extra) # live s"
    "sync s' = rev (port_sync p) @ sync s" "fresh_allocs s'"
    "p \<noteq> f" "p \<notin> fst ` set (live s)" "f \<notin> fst ` set (live s)"
proof -
  let ?n = "port_alloc_size (comp_name (components s c)) extra"
  obtain s1 where m: "vcos_malloc ?n s = (Some p, s1)"
    using alloc by (auto simp: mmal_port_alloc_def vcos_calloc_def Let_def split: prod.splits option.splits if_splits)
  let ?s2 = "upd_port p (\<lambda>_. zero_port\<lparr>port_type := t, port_component := c,
      pf_connect := Some Mmal_port_connect_default, transit_sema := 1, queue_last := At_first\<rparr>) s1"
  obtain oks s3 where c: "create_all (port_sync p) ?s2 = (oks, s3)" by fastforce
  obtain r s4 where f: "mmal_format_alloc s3 = (r, s4)" by fastforce
  have ok: "False \<notin> set oks" using alloc m c f
    by (auto simp: mmal_port_alloc_def vcos_calloc_def Let_def split: if_splits)
  note cs = create_all_sync [OF c] and cm = create_all_mmal [OF c]
  note m' = vcos_malloc_Some [OF m fresh]
  from f show thesis
  proof (cases rule: mmal_format_alloc_cases)
    case 1
    then show thesis using alloc m c f ok by (auto simp: mmal_port_alloc_def vcos_calloc_def Let_def)
  next
    case (2 g s5)
    have s': "s' = upd_port p (\<lambda>p. p\<lparr>port_format := g, format_ptr_copy := g\<rparr>) s4"
      using alloc m c f ok 2(1) by (auto simp: mmal_port_alloc_def vcos_calloc_def Let_def)
    have fr3: "fresh_allocs s3" using cs m'(3) fresh_allocs_cong [of s3 s1] by simp
    note g = vcos_malloc_Some [OF 2(2) fr3] and gm = vcos_malloc_mmal [OF 2(2)] and gf = vcos_malloc_formats [OF 2(2)]
    have live3: "live s3 = (p, ?n) # live s" using cs m'(1) by simp
    show thesis
    proof (rule that [of g])
      have "ports s3 = ports ?s2" "formats s3 = formats s1" using cm by simp_all
      then show "ports s' = (ports s)(p := new_port c t g)"
        using gm(1) vcos_malloc_mmal(1) [OF m] by (simp add: s' 2(3) new_port_def)
      show "formats s' h = formats s h" if "h \<noteq> g" for h
        using that \<open>formats s3 = formats s1\<close> gf(1) vcos_malloc_formats(1) [OF m] by (simp add: s' 2(3))
      have "components s3 = components s1" using cm by simp
      then show "components s' = components s"
        using gm(2) vcos_malloc_mmal(2) [OF m] by (simp add: s' 2(3))
      show "priv_extradata (formats s' g) = None" by (simp add: s' 2(3) zero_format_def)
      show "live s' = (g, sizeof_MMAL_ES_FORMAT_PRIVATE_T) # (p, ?n) # live s" using g(1) live3 by (simp add: s' 2(3))
      have "created (port_sync p) oks = port_sync p" using cs ok by (intro created_all) auto
      then show "sync s' = rev (port_sync p) @ sync s"
        using cs vcos_malloc_sel(1) [OF 2(2)] vcos_malloc_sel(1) [OF m] by (simp add: s' 2(3))
      show "fresh_allocs s'" using g(3) by (simp add: s' 2(3))
      show "p \<noteq> g" "p \<notin> fst ` set (live s)" "g \<notin> fst ` set (live s)" using g(2) m'(2) live3 by auto
    qed
  qed
qed

lemma mmal_port_alloc_None:
  assumes alloc: "mmal_port_alloc c t extra s = (None, s')" and fresh: "fresh_allocs s"
  shows "live s' = live s \<and> sync s' = sync s \<and> formats s' = formats s \<and>
    (\<forall>q. q \<in> fst ` set (live s) \<longrightarrow> ports s' q = ports s q)"
proof -
  let ?n = "port_alloc_size (comp_name (components s c)) extra"
  obtain r s1 where m: "vcos_malloc ?n s = (r, s1)" by fastforce
  show ?thesis
  proof (cases r)
    case None
    then show ?thesis using alloc m vcos_malloc_None [of ?n s s1]
      by (auto simp: mmal_port_alloc_def vcos_calloc_def)
  next
    case (Some p)
    let ?s2 = "upd_port p (\<lambda>_. zero_port\<lparr>port_type := t, port_component := c,
      pf_connect := Some Mmal_port_connect_default, transit_sema := 1, queue_last := At_first\<rparr>) s1"
    obtain oks s3 where c: "create_all (port_sync p) ?s2 = (oks, s3)" by fastforce
    obtain r4 s4 where f: "mmal_format_alloc s3 = (r4, s4)" by fastforce
    note cs = create_all_sync [OF c] and cm = create_all_mmal [OF c]
    note m' = vcos_malloc_Some [OF m [unfolded Some] fresh]
    have "\<exists>u. s' = vcos_free (Some p) (delete_created (port_sync p) oks u) \<and> sync u = sync s3 \<and> live u = live s3
        \<and> ports u = ports s3 \<and> formats u = formats s3"
    proof (cases "False \<in> set oks")
      case True
      then show ?thesis using alloc m Some c by (auto simp: mmal_port_alloc_def vcos_calloc_def Let_def)
    next
      case False
      from f show ?thesis
      proof (cases rule: mmal_format_alloc_cases)
        case 1
        then show ?thesis
          using alloc m Some c f False vcos_malloc_None [OF 1(2)] vcos_malloc_sel [OF 1(2)] vcos_malloc_mmal [OF 1(2)]
            vcos_malloc_formats [OF 1(2)]
          by (auto simp: mmal_port_alloc_def vcos_calloc_def Let_def)
      next
        case (2 g s5)
        then show ?thesis using alloc m Some c f False by (auto simp: mmal_port_alloc_def vcos_calloc_def Let_def)
      qed
    qed
    then obtain u where u: "s' = vcos_free (Some p) (delete_created (port_sync p) oks u)" "sync u = sync s3"
      "live u = live s3" "ports u = ports s3" "formats u = formats s3" by blast
    have "sync s' = sync s"
      using delete_created_sync [OF c u(2)] vcos_malloc_sel(1) [OF m] by (simp add: u(1))
    moreover have "live s' = live s"
      using u(3) cs m' by (auto simp: u(1) delete_created_fold live_vcos_free vcos_free_fresh)
    moreover have "formats s' = formats s"
      using u(5) cm vcos_malloc_formats(1) [OF m] by (simp add: u(1) delete_created_fold)
    moreover have "ports s' = (ports s)(p := ports s' p)"
      using u(4) cm vcos_malloc_mmal(1) [OF m] by (simp add: u(1) delete_created_fold)
    ultimately show ?thesis using m'(2) by (metis fun_upd_apply)
  qed
qed

lemma mmal_port_free_effect:
  assumes "priv_extradata (formats s (format_ptr_copy (ports s p))) = None"
  shows "live (mmal_port_free (Some p) s) =
       filter (\<lambda>(b, _). b \<notin> {p, format_ptr_copy (ports s p)}) (live s)"
    and "sync (mmal_port_free (Some p) s) = fold remove1 (rev (port_sync p)) (sync s)"
    and "ports (mmal_port_free (Some p) s) = ports s" "formats (mmal_port_free (Some p) s) = formats s"
  using assms
  by (simp_all add: mmal_port_free_def Let_def mmal_format_free_def live_vcos_free del: rev.simps)
     (auto simp: vcos_free_def filter_filter case_prod_beta intro!: filter_cong)

lemma free_ports_effect:
  assumes "\<forall>p\<in>set ps. priv_extradata (formats s (format_ptr_copy (ports s p))) = None"
  shows "live (free_ports ps s) = filter (\<lambda>(b, _). b \<notin> set ps \<union> (\<lambda>p. format_ptr_copy (ports s p)) ` set ps) (live s)
    \<and> sync (free_ports ps s) = fold remove1 (concat (map (\<lambda>p. rev (port_sync p)) ps)) (sync s)"
  using assms
proof (induction ps arbitrary: s)
  case (Cons p ps)
  let ?t = "mmal_port_free (Some p) s"
  have p: "priv_extradata (formats s (format_ptr_copy (ports s p))) = None" using Cons.prems by simp
  note e = mmal_port_free_effect [OF p]
  have "\<forall>p\<in>set ps. priv_extradata (formats ?t (format_ptr_copy (ports ?t p))) = None" using Cons.prems e by simp
  from Cons.IH [OF this] show ?case
    using e by (auto simp: free_ports_def fold_append filter_filter case_prod_beta intro!: filter_cong)
qed (simp add: free_ports_def)

section \<open>Arrays of ports\<close>

text \<open>
  The ports \<open>ps\<close> have been made on top of the blocks \<open>L\<close> and the objects \<open>S\<close>: what was taken since belongs to
  one of them.
\<close>

definition made :: "addr \<Rightarrow> mmal_port_type \<Rightarrow> addr list \<Rightarrow> (addr \<times> u32) list \<Rightarrow> sync_object list \<Rightarrow> 'a mmal_store_scheme \<Rightarrow> bool" where
  "made c t ps L S s \<longleftrightarrow>
     fresh_allocs s \<and> distinct ps \<and>
     (\<forall>i<length ps. \<exists>f. ports s (ps ! i) = (new_port c t f)\<lparr>port_index := word_of_nat i\<rparr>
        \<and> priv_extradata (formats s f) = None) \<and>
     (let A = set ps \<union> (\<lambda>p. format_ptr_copy (ports s p)) ` set ps in
        A \<inter> fst ` set L = {} \<and> A \<subseteq> fst ` set (live s) \<and>
        (\<exists>N. live s = N @ L \<and> fst ` set N \<subseteq> A)) \<and>
     (\<exists>M. sync s = M @ S \<and> mset M = mset (concat (map port_sync ps)))"

lemma made_formats:
  assumes "made c t ps L S s" "p \<in> set ps"
  shows "priv_extradata (formats s (format_ptr_copy (ports s p))) = None" and "p \<in> fst ` set (live s)"
proof -
  obtain i where "i < length ps" "ps ! i = p" using assms(2) by (auto simp: in_set_conv_nth)
  then obtain f where "ports s p = (new_port c t f)\<lparr>port_index := word_of_nat i\<rparr>" "priv_extradata (formats s f) = None"
    using assms(1) unfolding made_def by blast
  then show "priv_extradata (formats s (format_ptr_copy (ports s p))) = None" by (simp add: new_port_def)
  show "p \<in> fst ` set (live s)" using assms unfolding made_def Let_def by blast
qed

lemma made_free:
  assumes "made c t ps L S s"
  shows "live (free_ports ps s) = L \<and> sync (free_ports ps s) = S"
proof -
  let ?A = "set ps \<union> (\<lambda>p. format_ptr_copy (ports s p)) ` set ps"
  have "\<forall>p\<in>set ps. priv_extradata (formats s (format_ptr_copy (ports s p))) = None"
    using made_formats(1) [OF assms] by blast
  note e = free_ports_effect [OF this]
  obtain N where N: "live s = N @ L" "fst ` set N \<subseteq> ?A" and L: "?A \<inter> fst ` set L = {}"
    using assms by (auto simp: made_def Let_def)
  obtain M where M: "sync s = M @ S" "mset M = mset (concat (map port_sync ps))"
    using assms by (auto simp: made_def)
  have "filter (\<lambda>(b, _). b \<notin> ?A) N = []" using N(2) by (auto simp: filter_empty_conv)
  moreover have "\<forall>x\<in>set L. fst x \<notin> ?A" using L by blast
  then have "filter (\<lambda>(b, _). b \<notin> ?A) L = L" by (intro filter_True) (simp add: case_prod_beta)
  ultimately have "live (free_ports ps s) = L" using e N(1) by simp
  moreover have "mset (concat (map (\<lambda>p. rev (port_sync p)) ps)) = mset (concat (map port_sync ps))"
    by (induction ps) simp_all
  then have "sync (free_ports ps s) = S" using e M fold_remove1_all by metis
  ultimately show ?thesis by simp
qed

lemma made_alloc:
  assumes made: "made c t ps L S s" and alloc: "mmal_port_alloc c t extra s = (Some p, s')"
  shows "made c t (ps @ [p]) L S (upd_port p (\<lambda>pt. pt\<lparr>port_index := word_of_nat (length ps)\<rparr>) s')"
proof -
  let ?A = "set ps \<union> (\<lambda>p. format_ptr_copy (ports s p)) ` set ps"
  have fresh: "fresh_allocs s" using made by (simp add: made_def)
  from mmal_port_alloc_Some [OF alloc fresh] obtain f where
    eff: "ports s' = (ports s)(p := new_port c t f)" "priv_extradata (formats s' f) = None"
      "\<And>g. g \<noteq> f \<Longrightarrow> formats s' g = formats s g"
      "live s' = (f, sizeof_MMAL_ES_FORMAT_PRIVATE_T) # (p, port_alloc_size (comp_name (components s c)) extra) # live s"
      "sync s' = rev (port_sync p) @ sync s" "fresh_allocs s'"
      "p \<noteq> f" "p \<notin> fst ` set (live s)" "f \<notin> fst ` set (live s)" by metis
  let ?s = "upd_port p (\<lambda>pt. pt\<lparr>port_index := word_of_nat (length ps)\<rparr>) s'"
  have A: "?A \<inter> fst ` set L = {}" "?A \<subseteq> fst ` set (live s)" "\<exists>N. live s = N @ L \<and> fst ` set N \<subseteq> ?A"
    using made by (auto simp: made_def Let_def)
  have old: "q \<noteq> p \<and> format_ptr_copy (ports s q) \<noteq> f" if "q \<in> set ps" for q using that A(2) eff(8,9) by auto
  have nin: "p \<notin> set ps" using old by blast
  have pts: "ports ?s q = (if q = p then (new_port c t f)\<lparr>port_index := word_of_nat (length ps)\<rparr> else ports s q)" for q
    using eff(1) by simp
  have idx: "\<exists>f. ports ?s ((ps @ [p]) ! i) = (new_port c t f)\<lparr>port_index := word_of_nat i\<rparr>
        \<and> priv_extradata (formats ?s f) = None" if "i < length (ps @ [p])" for i
  proof (cases "i = length ps")
    case True
    then show ?thesis using eff(1,2) by (intro exI [of _ f]) (simp add: nth_append)
  next
    case False
    then have i: "i < length ps" "ps ! i \<in> set ps" using that by auto
    then obtain g where g: "ports s (ps ! i) = (new_port c t g)\<lparr>port_index := word_of_nat i\<rparr>"
      "priv_extradata (formats s g) = None" using made by (auto simp: made_def)
    then have "g \<noteq> f" using old [OF i(2)] by (auto simp: new_port_def)
    with g i old [OF i(2)] eff(1,3) show ?thesis by (intro exI [of _ g]) (simp add: nth_append)
  qed
  have fmts: "(\<lambda>q. format_ptr_copy (ports ?s q)) ` set (ps @ [p]) = insert f ((\<lambda>q. format_ptr_copy (ports s q)) ` set ps)"
    using pts old by (auto simp: new_port_def image_iff)
  let ?B = "insert p (insert f ?A)"
  have B: "set (ps @ [p]) \<union> (\<lambda>q. format_ptr_copy (ports ?s q)) ` set (ps @ [p]) = ?B" unfolding fmts by auto
  obtain N where N: "live s = N @ L" "fst ` set N \<subseteq> ?A" using A(3) by blast
  have "?B \<inter> fst ` set L = {}" using A(1) eff(8,9) N(1) by auto
  moreover have "?B \<subseteq> fst ` set (live ?s)" using A(2) eff(4) by auto
  moreover have "\<exists>N. live ?s = N @ L \<and> fst ` set N \<subseteq> ?B"
    using N eff(4) by (intro exI [of _ "(f, sizeof_MMAL_ES_FORMAT_PRIVATE_T) #
        (p, port_alloc_size (comp_name (components s c)) extra) # N"]) auto
  moreover obtain M where "sync s = M @ S" "mset M = mset (concat (map port_sync ps))"
    using made by (auto simp: made_def)
  then have "\<exists>M. sync ?s = M @ S \<and> mset M = mset (concat (map port_sync (ps @ [p])))"
    using eff(5) by (intro exI [of _ "rev (port_sync p) @ M"]) (simp add: ac_simps)
  moreover have "distinct (ps @ [p])" using made nin by (simp add: made_def)
  ultimately show ?thesis
    using idx eff(6) unfolding made_def B Let_def by auto
qed

lemma alloc_ports_made:
  assumes "made c t ps L S s" "length ps = k"
    and "alloc_ports c t extra [k..<n] ps s = (all, ps', s')" "k \<le> n"
  shows "(all \<longrightarrow> length ps' = n \<and> made c t ps' L S s') \<and> live (free_ports ps' s') = L \<and> sync (free_ports ps' s') = S"
  using assms
proof (induction "n - k" arbitrary: k ps s)
  case 0
  then show ?case using made_free [OF 0(2)] by simp
next
  case (Suc m)
  then have upt: "[k..<n] = k # [Suc k..<n]" by (simp add: upt_conv_Cons)
  obtain r s1 where a: "mmal_port_alloc c t extra s = (r, s1)" by fastforce
  show ?case
  proof (cases r)
    case None
    then have eq: "all = False" "ps' = ps" "s' = s1" using Suc.prems(3) a by (auto simp: upt)
    have fresh: "fresh_allocs s" using Suc.prems(1) by (simp add: made_def)
    note n = mmal_port_alloc_None [OF a [unfolded None] fresh]
    have old: "\<forall>p\<in>set ps. ports s1 p = ports s p"
      using n made_formats(2) [OF Suc.prems(1)] by blast
    then have same: "(\<lambda>p. format_ptr_copy (ports s1 p)) ` set ps = (\<lambda>p. format_ptr_copy (ports s p)) ` set ps"
      "\<forall>p\<in>set ps. priv_extradata (formats s1 (format_ptr_copy (ports s1 p))) = None"
      using n old made_formats(1) [OF Suc.prems(1)] by auto
    have ok: "\<forall>p\<in>set ps. priv_extradata (formats s (format_ptr_copy (ports s p))) = None"
      using made_formats(1) [OF Suc.prems(1)] by blast
    have "live (free_ports ps s1) = live (free_ports ps s)" "sync (free_ports ps s1) = sync (free_ports ps s)"
      using free_ports_effect [OF same(2)] free_ports_effect [OF ok] same(1) n by simp_all
    then show ?thesis using made_free [OF Suc.prems(1)] by (simp add: eq)
  next
    case (Some p)
    note made = made_alloc [OF Suc.prems(1) a [unfolded Some], unfolded Suc.prems(2)]
    have "m = n - Suc k" "length (ps @ [p]) = Suc k" "Suc k \<le> n" using Suc.prems(2,4) Suc.hyps(2) by simp_all
    moreover have "alloc_ports c t extra [Suc k..<n] (ps @ [p])
        (upd_port p (\<lambda>pt. pt\<lparr>port_index := word_of_nat k\<rparr>) s1) = (all, ps', s')"
      using Suc.prems(3) a Some by (simp add: upt)
    ultimately show ?thesis using Suc.hyps(1) made by blast
  qed
qed

text \<open>
  Making an array of ports either makes all of them, numbered in order and with a format of their own, or none.
  Freeing the array, and likewise a failure on the way, gives back every block and every synchronisation object.
\<close>

theorem mmal_ports_alloc_balanced:
  assumes "fresh_allocs s"
  shows "case mmal_ports_alloc c n t extra s of
           (None, s') \<Rightarrow> live s' = live s \<and> sync s' = sync s
         | (Some (array, ps), s') \<Rightarrow> length ps = unat n \<and> distinct ps \<and>
             (\<forall>i<unat n. \<exists>f. ports s' (ps ! i) = (new_port c t f)\<lparr>port_index := word_of_nat i\<rparr>) \<and>
             live (mmal_ports_free array ps s') = live s \<and> sync (mmal_ports_free array ps s') = sync s"
proof -
  obtain r s1 where m: "vcos_malloc (sizeof_ptr * n) s = (r, s1)" by fastforce
  show ?thesis
  proof (cases r)
    case None
    then show ?thesis using m vcos_malloc_None [OF m [unfolded None]] by (simp add: mmal_ports_alloc_def)
  next
    case (Some a)
    note m' = vcos_malloc_Some [OF m [unfolded Some] assms]
    obtain all ps s2 where al: "alloc_ports c t extra [0..<unat n] [] s1 = (all, ps, s2)" by (metis prod_cases3)
    have "made c t [] (live s1) (sync s1) s1" using m'(3) by (simp add: made_def)
    note am = alloc_ports_made [OF this _ al]
    have l: "live (vcos_free (Some a) u) = live s" if "live u = live s1" for u :: "'a mmal_store_scheme"
      using that m'(1,2) by (simp add: live_vcos_free vcos_free_fresh)
    show ?thesis
    proof (cases all)
      case True
      then show ?thesis using m Some al am l vcos_malloc_sel(1) [OF m]
        by (auto simp: mmal_ports_alloc_def mmal_ports_free_def made_def)
    next
      case False
      then show ?thesis using m Some al am l vcos_malloc_sel(1) [OF m] by (simp add: mmal_ports_alloc_def)
    qed
  qed
qed

definition empty_mmal_store :: mmal_store where
  "empty_mmal_store = \<lparr>mallocs = [], creates = [], clock_readings = [], live = [], sync = [],
     bufs = (\<lambda>_. zero_buffer_header), queues = (\<lambda>_. empty_queue), pools = (\<lambda>_. zero_pool),
     formats = (\<lambda>_. zero_format), bytes = (\<lambda>_. 0), ports = (\<lambda>_. zero_port), components = (\<lambda>_. zero_component),
     connections = (\<lambda>_. \<lparr>conn_callback = None, conn_enabled = False, conn_flags = 0, conn_in = 0, conn_out = 0,
       conn_pool = None, conn_queue = None, conn_time_setup = 0, conn_time_enable = 0, conn_time_disable = 0,
       conn_pool_port = None, conn_refcount = 0, conn_user_data = None\<rparr>),
     events = (\<lambda>_. Ev_none), core_refcount = 0, core_instance_count = 0, suppliers = None,
     supplier_at = (\<lambda>_. \<lparr>sup_next = None, sup_create = 0, sup_prefix = []\<rparr>)\<rparr>"

text \<open>Modules and clients that do nothing.\<close>

definition quiet_env :: "('a mmal_store_scheme) port_env" where
  "quiet_env = \<lparr>on_set_format = (\<lambda>_ _ s. Some (MMAL_SUCCESS, s)), on_enable = (\<lambda>_ _ _ s. Some (MMAL_SUCCESS, s)),
     on_disable = (\<lambda>_ _ s. Some (MMAL_SUCCESS, s)), on_send = (\<lambda>_ _ _ s. Some (MMAL_SUCCESS, s)),
     on_flush = (\<lambda>_ _ s. Some (MMAL_SUCCESS, s)), on_parameter_set = (\<lambda>_ _ _ s. Some (MMAL_ENOSYS, s)),
     on_parameter_get = (\<lambda>_ _ param s. Some (MMAL_ENOSYS, param, s)),
     on_connect = (\<lambda>_ _ _ s. Some (MMAL_SUCCESS, s)), on_payload_alloc = (\<lambda>_ _ _ s. (None, s)),
     on_payload_free = (\<lambda>_ _ _ s. s), on_create = (\<lambda>_ _ _ s. Some (MMAL_SUCCESS, s)), on_component_enable = (\<lambda>_ _ s. Some (MMAL_SUCCESS, s)),
     on_component_disable = (\<lambda>_ _ s. Some (MMAL_SUCCESS, s)), on_component_destroy = (\<lambda>_ _ s. (MMAL_SUCCESS, s)),
     on_action = (\<lambda>_ _ s. Some s), on_buffer = (\<lambda>_ _ _ s. Some s), on_connection = (\<lambda>_ _ s. Some s),
     client_pool = no_env\<rparr>"

text \<open>The second port gets its block, but its third object cannot be created.\<close>

theorem mmal_ports_alloc_balanced_witness:
  "let s = empty_mmal_store\<lparr>mallocs := [Some 9000, Some 1000, Some 2000, Some 3000],
             creates := [True, True, True, True, True, True, True, True, False]\<rparr>;
       (r, s') = mmal_ports_alloc 5 2 MMAL_PORT_TYPE_INPUT 0 s
   in r = None \<and> live s' = [] \<and> sync s' = []"
proof -
  let ?s = "empty_mmal_store\<lparr>mallocs := [Some 9000, Some 1000, Some 2000, Some 3000],
             creates := [True, True, True, True, True, True, True, True, False]\<rparr>"
  have "fresh_allocs ?s" by (simp add: fresh_allocs_def granted_def empty_mmal_store_def List.map_filter_simps)
  from mmal_ports_alloc_balanced [OF this, of 2 5 MMAL_PORT_TYPE_INPUT 0]
  have "\<exists>s'. mmal_ports_alloc 5 2 MMAL_PORT_TYPE_INPUT 0 ?s = (None, s') \<and> live s' = live ?s \<and> sync s' = sync ?s"
    if "fst (mmal_ports_alloc 5 2 MMAL_PORT_TYPE_INPUT 0 ?s) = None"
    using that by (cases "mmal_ports_alloc 5 2 MMAL_PORT_TYPE_INPUT 0 ?s") simp
  moreover have "fst (mmal_ports_alloc 5 2 MMAL_PORT_TYPE_INPUT 0 ?s) = None"
    by (simp add: mmal_ports_alloc_def upt_rec mmal_port_alloc_def vcos_calloc_def vcos_malloc_def
        vcos_create_def port_sync_def mmal_format_alloc_def empty_mmal_store_def Let_def)
  ultimately show ?thesis by (auto simp: Let_def empty_mmal_store_def)
qed

end
