(* ===== verification/ComponentCore.thy ===== *)
theory ComponentCore
  imports PortAlloc
begin

text \<open>
  The life of a component in \<^verbatim>\<open>mmal/core/mmal_component.c\<close>: the reference count of the core, the action thread, the
  references on ports and the destruction; and the payload functions of ports in \<^verbatim>\<open>mmal/core/mmal_port.c\<close>,
  which hold such references.  A component lives as long as it or one of its ports is referenced.

  The payloads of the event pool of a component come from the heap, so that destroying the pool does not call the payload
  functions of a port.
\<close>

section \<open>The core\<close>

definition mmal_core_init :: "'a mmal_store_scheme \<Rightarrow> 'a mmal_store_scheme" where
  "mmal_core_init s = s\<lparr>core_refcount := core_refcount s + 1\<rparr>"

definition mmal_core_deinit :: "'a mmal_store_scheme \<Rightarrow> 'a mmal_store_scheme" where
  "mmal_core_deinit s = (if core_refcount s = 0 then s else s\<lparr>core_refcount := core_refcount s - 1\<rparr>)"

section \<open>Actions\<close>

definition comp_lock :: "addr \<Rightarrow> sync_object" where
  "comp_lock c = Mutex (c + 372)"

definition action_event_sem :: "addr \<Rightarrow> sync_object" where
  "action_event_sem c = Semaphore (c + 328)"

definition action_event_mutex :: "addr \<Rightarrow> sync_object" where
  "action_event_mutex c = Mutex (c + 304)"

definition action_mutex :: "addr \<Rightarrow> sync_object" where
  "action_mutex c = Mutex (c + 344)"

definition action_thread :: "addr \<Rightarrow> sync_object" where
  "action_thread c = Thread (c + 96)"

definition vcos_event_create :: "sync_object \<Rightarrow> sync_object \<Rightarrow> 'a os_store_scheme \<Rightarrow> bool \<times> 'a os_store_scheme" where
  "vcos_event_create sem mutex s =
     (case vcos_create sem s of
        (False, s) \<Rightarrow> (False, s)
      | (True, s) \<Rightarrow>
          (case vcos_create mutex s of
             (False, s) \<Rightarrow> (False, vcos_delete sem s)
           | (True, s) \<Rightarrow> (True, s)))"

definition vcos_event_delete :: "sync_object \<Rightarrow> sync_object \<Rightarrow> 'a os_store_scheme \<Rightarrow> 'a os_store_scheme" where
  "vcos_event_delete sem mutex s = vcos_delete mutex (vcos_delete sem s)"

text \<open>An event is a semaphore that signalling raises to at most one.\<close>

definition vcos_event_signal :: "nat \<Rightarrow> nat" where
  "vcos_event_signal sem = (if sem = 0 then vcos_semaphore_post sem else sem)"

definition vcos_event_wait :: "nat \<Rightarrow> nat option" where
  "vcos_event_wait sem = vcos_semaphore_wait sem"

definition mmal_component_action_register :: "addr \<Rightarrow> nat \<Rightarrow> 'a mmal_store_scheme \<Rightarrow> mmal_status \<times> 'a mmal_store_scheme" where
  "mmal_component_action_register c action s =
     (if comp_pf_action (components s c) \<noteq> None then (MMAL_EINVAL, s)
      else case vcos_event_create (action_event_sem c) (action_event_mutex c) s of
        (False, s) \<Rightarrow> (MMAL_ENOMEM, s)
      | (True, s) \<Rightarrow>
          let s = upd_comp c (\<lambda>k. k\<lparr>action_event := 0\<rparr>) s in
          (case vcos_create (action_mutex c) s of
             (False, s) \<Rightarrow> (MMAL_ENOMEM, vcos_event_delete (action_event_sem c) (action_event_mutex c) s)
           | (True, s) \<Rightarrow>
               (case vcos_create (action_thread c) s of
                  (False, s) \<Rightarrow>
                    (MMAL_ENOMEM, vcos_event_delete (action_event_sem c) (action_event_mutex c)
                                    (vcos_delete (action_mutex c) s))
                | (True, s) \<Rightarrow> (MMAL_SUCCESS, upd_comp c (\<lambda>k. k\<lparr>comp_pf_action := Some action\<rparr>) s))))"

text \<open>One turn of the action thread; the result says whether it goes on.  \<open>None\<close>: it waits, or the action does not come back.\<close>

definition mmal_component_action_thread_round ::
  "('a mmal_store_scheme) port_env \<Rightarrow> addr \<Rightarrow> 'a mmal_store_scheme \<Rightarrow> (bool \<times> 'a mmal_store_scheme) option" where
  "mmal_component_action_thread_round env c s =
     do {
       sem \<leftarrow> vcos_event_wait (action_event (components s c));
       let s = upd_comp c (\<lambda>k. k\<lparr>action_event := sem\<rparr>) s;
       if action_quit (components s c) then Some (False, s)
       else do {
         f \<leftarrow> comp_pf_action (components s c);
         s \<leftarrow> on_action env f c s;
         Some (True, s)
       }
     }"

text \<open>The thread is waiting for the event when it is told to quit: it takes the event, sees the flag and ends.\<close>

definition mmal_component_action_deregister :: "addr \<Rightarrow> 'a mmal_store_scheme \<Rightarrow> mmal_status \<times> 'a mmal_store_scheme" where
  "mmal_component_action_deregister c s =
     (if comp_pf_action (components s c) = None then (MMAL_EINVAL, s)
      else
        let s = upd_comp c (\<lambda>k. k\<lparr>action_quit := True\<rparr>) s;
            s = upd_comp c (\<lambda>k. k\<lparr>action_event := vcos_event_signal (action_event k)\<rparr>) s;
            s = (case vcos_event_wait (action_event (components s c)) of
                   None \<Rightarrow> s
                 | Some sem \<Rightarrow> vcos_delete (action_thread c) (upd_comp c (\<lambda>k. k\<lparr>action_event := sem\<rparr>) s));
            s = vcos_event_delete (action_event_sem c) (action_event_mutex c) s;
            s = vcos_delete (action_mutex c) s
        in (MMAL_SUCCESS, upd_comp c (\<lambda>k. k\<lparr>comp_pf_action := None, action_quit := False\<rparr>) s))"

definition mmal_component_action_trigger :: "addr \<Rightarrow> 'a mmal_store_scheme \<Rightarrow> mmal_status \<times> 'a mmal_store_scheme" where
  "mmal_component_action_trigger c s =
     (if comp_pf_action (components s c) = None then (MMAL_EINVAL, s)
      else (MMAL_SUCCESS, upd_comp c (\<lambda>k. k\<lparr>action_event := vcos_event_signal (action_event k)\<rparr>) s))"

section \<open>Destruction\<close>

definition free_event_pool :: "('a mmal_store_scheme) port_env \<Rightarrow> addr \<Rightarrow> 'a mmal_store_scheme \<Rightarrow> 'a mmal_store_scheme" where
  "free_event_pool env c s =
     (case comp_event_pool (components s c) of
        None \<Rightarrow> s
      | Some pool \<Rightarrow> mmal_pool_destroy (client_pool env) (Some pool) s)"

definition free_control_port :: "addr \<Rightarrow> 'a mmal_store_scheme \<Rightarrow> 'a mmal_store_scheme" where
  "free_control_port c s =
     (case comp_control (components s c) of None \<Rightarrow> s | Some control \<Rightarrow> mmal_port_free (Some control) s)"

definition free_port_array :: "addr \<Rightarrow> 'a mmal_store_scheme \<Rightarrow> 'a mmal_store_scheme" where
  "free_port_array c s =
     (case comp_port_array (components s c) of None \<Rightarrow> s | Some a \<Rightarrow> vcos_free (Some a) s)"

definition mmal_component_destroy_internal ::
  "('a mmal_store_scheme) port_env \<Rightarrow> addr \<Rightarrow> 'a mmal_store_scheme \<Rightarrow> mmal_status \<times> 'a mmal_store_scheme" where
  "mmal_component_destroy_internal env c s =
     (let (_, s) = mmal_component_action_deregister c s;
          (status, s) =
            (case comp_pf_destroy (components s c) of
               None \<Rightarrow> (MMAL_SUCCESS, s)
             | Some f \<Rightarrow> on_component_destroy env f c s)
      in if status \<noteq> MMAL_SUCCESS then (status, s)
         else
           let s = free_event_pool env c s;
               s = free_control_port c s;
               s = free_port_array c s;
               s = vcos_delete (comp_lock c) s;
               s = vcos_free (Some c) s
           in (MMAL_SUCCESS, mmal_core_deinit s))"

definition mmal_component_acquire :: "addr \<Rightarrow> 'a mmal_store_scheme \<Rightarrow> 'a mmal_store_scheme" where
  "mmal_component_acquire c s = upd_comp c (\<lambda>k. k\<lparr>comp_refcount := s32 (comp_refcount k + 1)\<rparr>) s"

definition mmal_port_acquire :: "addr \<Rightarrow> 'a mmal_store_scheme \<Rightarrow> 'a mmal_store_scheme" where
  "mmal_port_acquire port s =
     upd_comp (port_component (ports s port)) (\<lambda>k. k\<lparr>comp_refcount_ports := s32 (comp_refcount_ports k + 1)\<rparr>) s"

definition mmal_port_release ::
  "('a mmal_store_scheme) port_env \<Rightarrow> addr \<Rightarrow> 'a mmal_store_scheme \<Rightarrow> mmal_status \<times> 'a mmal_store_scheme" where
  "mmal_port_release env port s =
     (let c = port_component (ports s port) in
      if comp_refcount_ports (components s c) \<le> 0 then (MMAL_EINVAL, s)
      else
        let s = upd_comp c (\<lambda>k. k\<lparr>comp_refcount_ports := comp_refcount_ports k - 1\<rparr>) s in
        if comp_refcount_ports (components s c) \<noteq> 0 \<or> comp_refcount (components s c) \<noteq> 0 \<or>
           destruction_pending (components s c)
        then (MMAL_SUCCESS, s)
        else mmal_component_destroy_internal env c s)"

section \<open>Payloads\<close>

definition mmal_port_payload_alloc ::
  "('a mmal_store_scheme) port_env \<Rightarrow> addr option \<Rightarrow> u32 \<Rightarrow> 'a mmal_store_scheme \<Rightarrow> addr option \<times> 'a mmal_store_scheme" where
  "mmal_port_payload_alloc env port psize s =
     (case port of
        None \<Rightarrow> (None, s)
      | Some p \<Rightarrow>
          if psize = 0 then (None, s)
          else
            let (mem, s) =
              (case port_payload_alloc (ports s p) of
                 None \<Rightarrow> vcos_malloc psize s
               | Some f \<Rightarrow> on_payload_alloc env f p psize s)
            in (mem, if mem \<noteq> None then mmal_port_acquire p s else s))"

text \<open>
  The heap is chosen when \<open>pf_payload_alloc\<close> is missing, not when \<open>pf_payload_free\<close> is; with only the first of
  them set the call goes through a null pointer (\<open>None\<close>).
\<close>

definition mmal_port_payload_free ::
  "('a mmal_store_scheme) port_env \<Rightarrow> addr option \<Rightarrow> addr \<Rightarrow> 'a mmal_store_scheme \<Rightarrow> 'a mmal_store_scheme option" where
  "mmal_port_payload_free env port mem s =
     (case port of
        None \<Rightarrow> Some s
      | Some p \<Rightarrow>
          if port_payload_alloc (ports s p) = None
          then Some (snd (mmal_port_release env p (vcos_free (Some mem) s)))
          else do {
            f \<leftarrow> port_payload_free (ports s p);
            Some (snd (mmal_port_release env p (on_payload_free env f p mem s)))
          })"

end
