(* ===== verification/Port.thy ===== *)
theory Port
  imports ComponentCore
begin

text \<open>
  The operations of ports, \<^verbatim>\<open>mmal/core/mmal_port.c\<close>, with the events of \<^verbatim>\<open>mmal/core/mmal_events.c\<close> and the buffer callbacks
  of \<^verbatim>\<open>mmal/util/mmal_connection.c\<close>: sending, flushing, pausing, enabling, disabling, connecting and disconnecting.

  A port counts the buffers it has in transit, and holds its semaphore while there are any, so that disabling it waits
  for them.  Buffers sent to a paused port are kept in a list through their \<open>next\<close> fields.  A port may be connected to
  another; then the core owns a pool of buffers that go round between the two ports.

  Each operation runs under the locks of the port, so it is one step; locking the same port twice blocks for ever.
  \<open>None\<close> is a call that does not come back: blocked, through a null pointer, or in a module that does not return.
\<close>

section \<open>Buffers in transit\<close>

definition in_transit_increment :: "addr \<Rightarrow> 'a mmal_store_scheme \<Rightarrow> 'a mmal_store_scheme option" where
  "in_transit_increment p s =
     (let n = transit_buffer_headers (ports s p);
          s = upd_port p (\<lambda>pt. pt\<lparr>transit_buffer_headers := s32 (n + 1)\<rparr>) s
      in if n = 0 then do {
           sem \<leftarrow> vcos_semaphore_wait (transit_sema (ports s p));
           Some (upd_port p (\<lambda>pt. pt\<lparr>transit_sema := sem\<rparr>) s)
         } else Some s)"

definition in_transit_decrement :: "addr \<Rightarrow> 'a mmal_store_scheme \<Rightarrow> 'a mmal_store_scheme" where
  "in_transit_decrement p s =
     (let s = upd_port p (\<lambda>pt. pt\<lparr>transit_buffer_headers := s32 (transit_buffer_headers pt - 1)\<rparr>) s in
      if transit_buffer_headers (ports s p) = 0
      then upd_port p (\<lambda>pt. pt\<lparr>transit_sema := vcos_semaphore_post (transit_sema pt)\<rparr>) s else s)"

definition in_transit_wait :: "addr \<Rightarrow> 'a mmal_store_scheme \<Rightarrow> 'a mmal_store_scheme option" where
  "in_transit_wait p s = do {
     sem \<leftarrow> vcos_semaphore_wait (transit_sema (ports s p));
     Some (upd_port p (\<lambda>pt. pt\<lparr>transit_sema := vcos_semaphore_post sem\<rparr>) s)
   }"

section \<open>Statistics and parameters\<close>

definition count_buffer :: "u32 \<Rightarrow> core_statistics \<Rightarrow> core_statistics" where
  "count_buffer stc st =
     (let st = st\<lparr>stat_buffer_count := stat_buffer_count st + 1\<rparr> in
      if stat_first_buffer_time st = 0
      then st\<lparr>stat_first_buffer_time := stc, stat_last_buffer_time := stc\<rparr>
      else st\<lparr>stat_max_delay := max (stat_max_delay st) (stc - stat_last_buffer_time st), stat_last_buffer_time := stc\<rparr>)"

definition mmal_port_update_port_stats :: "addr \<Rightarrow> core_stats_dir \<Rightarrow> 'a mmal_store_scheme \<Rightarrow> 'a mmal_store_scheme" where
  "mmal_port_update_port_stats p dir s =
     (let (stc, s) = vcos_getmicrosecs s in
      upd_port p (\<lambda>pt. case dir of
         MMAL_CORE_STATS_RX \<Rightarrow> pt\<lparr>stats_rx := count_buffer stc (stats_rx pt)\<rparr>
       | MMAL_CORE_STATS_TX \<Rightarrow> pt\<lparr>stats_tx := count_buffer stc (stats_tx pt)\<rparr>) s)"

definition mmal_port_get_core_stats ::
  "addr \<Rightarrow> core_stats_dir \<Rightarrow> bool \<Rightarrow> 'a mmal_store_scheme \<Rightarrow> mmal_status \<times> mmal_parameter \<times> 'a mmal_store_scheme" where
  "mmal_port_get_core_stats p dir reset s =
     (case dir of
        MMAL_CORE_STATS_RX \<Rightarrow>
          (MMAL_SUCCESS, Param_core_statistics dir reset (stats_rx (ports s p)),
           if reset then upd_port p (\<lambda>pt. pt\<lparr>stats_rx := zero_statistics\<rparr>) s else s)
      | MMAL_CORE_STATS_TX \<Rightarrow>
          (MMAL_SUCCESS, Param_core_statistics dir reset (stats_tx (ports s p)),
           if reset then upd_port p (\<lambda>pt. pt\<lparr>stats_tx := zero_statistics\<rparr>) s else s))"

definition mmal_port_private_parameter_get ::
  "addr \<Rightarrow> mmal_parameter \<Rightarrow> 'a mmal_store_scheme \<Rightarrow> mmal_status \<times> mmal_parameter \<times> 'a mmal_store_scheme" where
  "mmal_port_private_parameter_get p param s =
     (case param of
        Param_core_statistics dir reset stats \<Rightarrow> mmal_port_get_core_stats p dir reset s
      | _ \<Rightarrow> (MMAL_ENOSYS, param, s))"

definition mmal_port_private_parameter_set ::
  "addr \<Rightarrow> mmal_parameter \<Rightarrow> 'a mmal_store_scheme \<Rightarrow> mmal_status \<times> 'a mmal_store_scheme" where
  "mmal_port_private_parameter_set p param s = (MMAL_ENOSYS, s)"

definition mmal_component_parameter_set ::
  "addr \<Rightarrow> mmal_parameter \<Rightarrow> 'a mmal_store_scheme \<Rightarrow> mmal_status \<times> 'a mmal_store_scheme" where
  "mmal_component_parameter_set p param s = (MMAL_ENOSYS, s)"

definition mmal_component_parameter_get ::
  "addr \<Rightarrow> mmal_parameter \<Rightarrow> 'a mmal_store_scheme \<Rightarrow> mmal_status \<times> mmal_parameter \<times> 'a mmal_store_scheme" where
  "mmal_component_parameter_get p param s = (MMAL_ENOSYS, param, s)"

definition mmal_component_enable_control_port ::
  "addr \<Rightarrow> bh_callback option \<Rightarrow> 'a mmal_store_scheme \<Rightarrow> mmal_status \<times> 'a mmal_store_scheme" where
  "mmal_component_enable_control_port p cb s = (MMAL_SUCCESS, s)"

definition mmal_component_disable_control_port :: "addr \<Rightarrow> 'a mmal_store_scheme \<Rightarrow> mmal_status \<times> 'a mmal_store_scheme" where
  "mmal_component_disable_control_port p s = (MMAL_SUCCESS, s)"

definition mmal_port_parameter_set ::
  "('a mmal_store_scheme) port_env \<Rightarrow> addr option \<Rightarrow> mmal_parameter option \<Rightarrow> 'a mmal_store_scheme \<Rightarrow>
   (mmal_status \<times> 'a mmal_store_scheme) option" where
  "mmal_port_parameter_set env port param s =
     (case (port, param) of
        (Some p, Some param) \<Rightarrow> do {
          (status, s) \<leftarrow>
            (case pf_parameter_set (ports s p) of
               None \<Rightarrow> Some (MMAL_ENOSYS, s)
             | Some Control_port_fn \<Rightarrow> Some (mmal_component_parameter_set p param s)
             | Some (Module_fn n) \<Rightarrow> on_parameter_set env n p param s);
          Some (if status = MMAL_ENOSYS then mmal_port_private_parameter_set p param s else (status, s))
        }
      | _ \<Rightarrow> Some (MMAL_EINVAL, s))"

definition mmal_port_parameter_get ::
  "('a mmal_store_scheme) port_env \<Rightarrow> addr option \<Rightarrow> mmal_parameter option \<Rightarrow> 'a mmal_store_scheme \<Rightarrow>
   (mmal_status \<times> mmal_parameter option \<times> 'a mmal_store_scheme) option" where
  "mmal_port_parameter_get env port param s =
     (case (port, param) of
        (Some p, Some param) \<Rightarrow> do {
          (status, param, s) \<leftarrow>
            (case pf_parameter_get (ports s p) of
               None \<Rightarrow> Some (MMAL_ENOSYS, param, s)
             | Some Control_port_fn \<Rightarrow> Some (mmal_component_parameter_get p param s)
             | Some (Module_fn n) \<Rightarrow> on_parameter_get env n p param s);
          let (status, param, s) =
            (if status = MMAL_ENOSYS then mmal_port_private_parameter_get p param s else (status, param, s));
          Some (status, Some param, s)
        }
      | _ \<Rightarrow> Some (MMAL_EINVAL, param, s))"

section \<open>Sending\<close>

text \<open>\<open>*queue_last = buffer\<close> with the port's own link or a header's.\<close>

definition enqueue_paused :: "addr \<Rightarrow> addr \<Rightarrow> 'a mmal_store_scheme \<Rightarrow> 'a mmal_store_scheme" where
  "enqueue_paused p b s =
     (let s = set_next b None s;
          s = (case queue_last (ports s p) of
                 At_first \<Rightarrow> upd_port p (\<lambda>pt. pt\<lparr>queue_first := Some b\<rparr>) s
               | At_next h \<Rightarrow> set_next h (Some b) s)
      in upd_port p (\<lambda>pt. pt\<lparr>queue_last := At_next b\<rparr>) s)"

definition mmal_port_send_buffer ::
  "('a mmal_store_scheme) port_env \<Rightarrow> addr option \<Rightarrow> addr \<Rightarrow> 'a mmal_store_scheme \<Rightarrow>
   (mmal_status \<times> 'a mmal_store_scheme) option" where
  "mmal_port_send_buffer env port b s =
     (case port of
        None \<Rightarrow> Some (MMAL_EINVAL, s)
      | Some p \<Rightarrow>
          if bh_data (bufs s b) = None \<and> port_capabilities (ports s p) AND MMAL_PORT_CAPABILITY_PASSTHROUGH = 0
          then Some (MMAL_EINVAL, s)
          else (case pf_send (ports s p) of
            None \<Rightarrow> Some (MMAL_ENOSYS, s)
          | Some f \<Rightarrow>
              if \<not> port_enabled (ports s p) then Some (MMAL_EINVAL, s)
              else do {
                let s = (if port_type (ports s p) = MMAL_PORT_TYPE_OUTPUT \<and> bh_length (bufs s b) \<noteq> 0
                         then upd_buf b (\<lambda>h. h\<lparr>bh_length := 0\<rparr>) s else s);
                s \<leftarrow> in_transit_increment p s;
                (status, s) \<leftarrow>
                  (if is_paused (ports s p) then Some (MMAL_SUCCESS, enqueue_paused p b s)
                   else on_send env f p b s);
                if status \<noteq> MMAL_SUCCESS then Some (status, in_transit_decrement p s)
                else Some (status, mmal_port_update_port_stats p MMAL_CORE_STATS_RX s)
              }))"

section \<open>Recycling between connected ports\<close>

definition mmal_port_connected_pool_cb ::
  "('a mmal_store_scheme) port_env \<Rightarrow> addr option \<Rightarrow> addr \<Rightarrow> 'a mmal_store_scheme \<Rightarrow> (bool \<times> 'a mmal_store_scheme) option" where
  "mmal_port_connected_pool_cb env userdata b s = do {
     (status, s) \<leftarrow> mmal_port_send_buffer env userdata b s;
     Some (status \<noteq> MMAL_SUCCESS, s)
   }"

text \<open>The client's function of a connection, called when there is one.\<close>

definition notify_connection :: "('a mmal_store_scheme) port_env \<Rightarrow> addr \<Rightarrow> 'a mmal_store_scheme \<Rightarrow> 'a mmal_store_scheme option" where
  "notify_connection env c s =
     (case conn_callback (connections s c) of None \<Rightarrow> Some s | Some f \<Rightarrow> on_connection env f c s)"

definition mmal_connection_bh_release_cb ::
  "('a mmal_store_scheme) port_env \<Rightarrow> addr \<Rightarrow> addr \<Rightarrow> addr option \<Rightarrow> 'a mmal_store_scheme \<Rightarrow>
   (bool \<times> 'a mmal_store_scheme) option" where
  "mmal_connection_bh_release_cb env pool b userdata s = do {
     c \<leftarrow> userdata;
     let s = mmal_queue_put (pool_queue (pools s pool)) (Some b) s;
     s \<leftarrow> notify_connection env c s;
     Some (False, s)
   }"

text \<open>What the names of allocators and pool callbacks mean.  A null \<open>pf_payload_free\<close> leaves the state as it is.\<close>

definition port_pool_env :: "('a mmal_store_scheme) port_env \<Rightarrow> ('a mmal_store_scheme) pool_env" where
  "port_pool_env env = (client_pool env)
     \<lparr>env_alloc := (\<lambda>f context sz s. if f = Mmal_port_payload then mmal_port_payload_alloc env context sz s
                     else env_alloc (client_pool env) f context sz s),
      env_free := (\<lambda>f context mem s. if f = Mmal_port_payload
                     then (case mmal_port_payload_free env context mem s of None \<Rightarrow> s | Some s \<Rightarrow> s)
                     else env_free (client_pool env) f context mem s),
      env_cb := (\<lambda>cb pool b userdata s. case cb of
                     Mmal_port_connected_pool_cb \<Rightarrow> mmal_port_connected_pool_cb env userdata b s
                   | Mmal_connection_bh_release_cb \<Rightarrow> mmal_connection_bh_release_cb env pool b userdata s
                   | Client_pool_cb n \<Rightarrow> env_cb (client_pool env) cb pool b userdata s)\<rparr>"

definition release_buffer :: "('a mmal_store_scheme) port_env \<Rightarrow> addr \<Rightarrow> 'a mmal_store_scheme \<Rightarrow> 'a mmal_store_scheme option" where
  "release_buffer env b s = mmal_buffer_header_release (pool_release_env (port_pool_env env)) b s"

definition mmal_port_pool_create ::
  "('a mmal_store_scheme) port_env \<Rightarrow> addr option \<Rightarrow> u32 \<Rightarrow> u32 \<Rightarrow> 'a mmal_store_scheme \<Rightarrow>
   (addr option \<times> 'a mmal_store_scheme) option" where
  "mmal_port_pool_create env port headers psize s =
     (case port of
        None \<Rightarrow> Some (None, s)
      | Some p \<Rightarrow> mmal_pool_create_with_allocator (port_pool_env env) headers psize (Some p)
                    (Some Mmal_port_payload) (Some Mmal_port_payload) s)"

section \<open>Events\<close>

definition MMAL_EVENT_ERROR :: u32 where
  "MMAL_EVENT_ERROR = MMAL_FOURCC (CHR ''E'') (CHR ''R'') (CHR ''R'') (CHR ''O'')"
definition MMAL_EVENT_EOS :: u32 where
  "MMAL_EVENT_EOS = MMAL_FOURCC (CHR ''E'') (CHR ''E'') (CHR ''O'') (CHR ''S'')"
definition MMAL_EVENT_FORMAT_CHANGED :: u32 where
  "MMAL_EVENT_FORMAT_CHANGED = MMAL_FOURCC (CHR ''E'') (CHR ''F'') (CHR ''C'') (CHR ''H'')"

definition sizeof_MMAL_EVENT_FORMAT_CHANGED_T :: u32 where "sizeof_MMAL_EVENT_FORMAT_CHANGED_T = 20"
definition sizeof_MMAL_STATUS_T :: u32 where "sizeof_MMAL_STATUS_T = 4"
definition sizeof_MMAL_EVENT_END_OF_STREAM_T :: u32 where "sizeof_MMAL_EVENT_END_OF_STREAM_T = 8"

definition format_changed_size :: u32 where
  "format_changed_size =
     sizeof_MMAL_EVENT_FORMAT_CHANGED_T + sizeof_MMAL_ES_FORMAT_T + sizeof_MMAL_ES_SPECIFIC_FORMAT_T"

definition zero_event :: event_format_changed where
  "zero_event = \<lparr>ev_buffer_size_min = 0, ev_buffer_num_min = 0, ev_buffer_size_recommended = 0,
     ev_buffer_num_recommended = 0, ev_format = None\<rparr>"

definition event_at :: "addr \<Rightarrow> 'a mmal_store_scheme \<Rightarrow> event_format_changed" where
  "event_at a s = (case events s a of Ev_format_changed e \<Rightarrow> e | _ \<Rightarrow> zero_event)"

definition set_event :: "addr \<Rightarrow> event_data \<Rightarrow> 'a mmal_store_scheme \<Rightarrow> 'a mmal_store_scheme" where
  "set_event a v s = s\<lparr>events := (events s)(a := v)\<rparr>"

text \<open>The address of the event, with the pointers to the format behind it put in; none for another or a short buffer.\<close>

definition mmal_event_format_changed_get :: "addr option \<Rightarrow> 'a mmal_store_scheme \<Rightarrow> addr option \<times> 'a mmal_store_scheme" where
  "mmal_event_format_changed_get buffer s =
     (case buffer of
        None \<Rightarrow> (None, s)
      | Some b \<Rightarrow>
          if bh_cmd (bufs s b) \<noteq> MMAL_EVENT_FORMAT_CHANGED \<or> bh_length (bufs s b) < format_changed_size then (None, s)
          else (case bh_data (bufs s b) of
            None \<Rightarrow> (None, s)
          | Some a \<Rightarrow>
              let f = a + unat sizeof_MMAL_EVENT_FORMAT_CHANGED_T;
                  s = set_event a (Ev_format_changed ((event_at a s)\<lparr>ev_format := Some f\<rparr>)) s;
                  s = upd_fmt f (\<lambda>d. d\<lparr>
                        fmt_extradata_size := bh_length (bufs s b) - format_changed_size,
                        fmt_extradata := Some (a + unat format_changed_size)\<rparr>) s
              in (Some a, s)))"

definition mmal_port_event_get ::
  "('a mmal_store_scheme) port_env \<Rightarrow> addr option \<Rightarrow> u32 \<Rightarrow> 'a mmal_store_scheme \<Rightarrow>
   (mmal_status \<times> addr option \<times> 'a mmal_store_scheme) option" where
  "mmal_port_event_get env port event s =
     (case port of
        None \<Rightarrow> Some (MMAL_EINVAL, None, s)
      | Some p \<Rightarrow> do {
          pool \<leftarrow> comp_event_pool (components s (port_component (ports s p)));
          (buffer, s) \<leftarrow> mmal_queue_get (pool_queue (pools s pool)) s;
          (case buffer of
             None \<Rightarrow> Some (MMAL_ENOSPC, None, s)
           | Some b \<Rightarrow>
               let s = upd_buf b (\<lambda>h. h\<lparr>bh_cmd := event, bh_length := 0\<rparr>) s in
               if event = MMAL_EVENT_FORMAT_CHANGED then
                 if bh_alloc_size (bufs s b) < format_changed_size then do {
                   s \<leftarrow> release_buffer env b s;
                   Some (MMAL_ENOSPC, None, s)
                 } else do {
                   a \<leftarrow> bh_data (bufs s b);
                   let s = set_event a (Ev_format_changed zero_event) s;
                   let s = upd_fmt (a + unat sizeof_MMAL_EVENT_FORMAT_CHANGED_T) (\<lambda>_. zero_format) s;
                   let s = upd_buf b (\<lambda>h. h\<lparr>bh_length := format_changed_size\<rparr>) s;
                   Some (MMAL_SUCCESS, Some b, s)
                 }
               else Some (MMAL_SUCCESS, Some b, s))
        })"

section \<open>Committing a format\<close>

definition raise_to_minimum :: "mmal_port \<Rightarrow> mmal_port" where
  "raise_to_minimum pt =
     (let pt = (if buffer_size pt < buffer_size_min pt then pt\<lparr>buffer_size := buffer_size_min pt\<rparr> else pt)
      in if buffer_num pt < buffer_num_min pt then pt\<lparr>buffer_num := buffer_num_min pt\<rparr> else pt)"

definition mmal_port_format_commit ::
  "('a mmal_store_scheme) port_env \<Rightarrow> addr option \<Rightarrow> 'a mmal_store_scheme \<Rightarrow> (mmal_status \<times> 'a mmal_store_scheme) option" where
  "mmal_port_format_commit env port s =
     (case port of
        None \<Rightarrow> Some (MMAL_EINVAL, s)
      | Some p \<Rightarrow>
          if port_format (ports s p) \<noteq> format_ptr_copy (ports s p)
          then Some (MMAL_EFAULT, upd_port p (\<lambda>pt. pt\<lparr>port_format := format_ptr_copy pt\<rparr>) s)
          else (case pf_set_format (ports s p) of
            None \<Rightarrow> Some (MMAL_ENOSYS, s)
          | Some f \<Rightarrow> do {
              (status, s) \<leftarrow> on_set_format env f p s;
              let s = upd_port p raise_to_minimum s;
              Some (status,
                if port_type (ports s p) = MMAL_PORT_TYPE_INPUT
                then fold (\<lambda>q. upd_port q raise_to_minimum) (comp_output (components s (port_component (ports s p)))) s
                else s)
            }))"

section \<open>Buffers coming back\<close>

text \<open>
  The callbacks a port may have.  The callback of a connected output port may send an error event, which goes to the callback
  of the control port of the component.
\<close>

definition mmal_connection_bh_out_cb ::
  "('a mmal_store_scheme) port_env \<Rightarrow> addr \<Rightarrow> addr \<Rightarrow> 'a mmal_store_scheme \<Rightarrow> 'a mmal_store_scheme option" where
  "mmal_connection_bh_out_cb env p b s = do {
     c \<leftarrow> port_userdata (ports s p);
     notify_connection env c (mmal_queue_put (conn_queue (connections s c)) (Some b) s)
   }"

definition mmal_port_connected_input_cb ::
  "('a mmal_store_scheme) port_env \<Rightarrow> addr \<Rightarrow> addr \<Rightarrow> 'a mmal_store_scheme \<Rightarrow> 'a mmal_store_scheme option" where
  "mmal_port_connected_input_cb env p b s =
     (if port_type (ports s p) = MMAL_PORT_TYPE_CLOCK \<and> bh_length (bufs s b) \<noteq> 0 then do {
        (_, s) \<leftarrow> mmal_port_send_buffer env (connected_port (ports s p)) b s;
        Some s
      } else release_buffer env b s)"

text \<open>Applying a format change that came out of a port, and passing the event on.\<close>

definition apply_format_event ::
  "('a mmal_store_scheme) port_env \<Rightarrow> addr \<Rightarrow> addr \<Rightarrow> addr \<Rightarrow> 'a mmal_store_scheme \<Rightarrow>
   (mmal_status \<times> 'a mmal_store_scheme) option" where
  "apply_format_event env p b ev s = do {
     f \<leftarrow> ev_format (event_at ev s);
     (status, s) \<leftarrow> mmal_format_full_copy (port_format (ports s p)) f s;
     (status, s) \<leftarrow> (if status = MMAL_SUCCESS then mmal_port_format_commit env (Some p) s else Some (status, s));
     if status = MMAL_SUCCESS then mmal_port_send_buffer env (connected_port (ports s p)) b s else Some (status, s)
   }"

definition forward_data ::
  "('a mmal_store_scheme) port_env \<Rightarrow> addr \<Rightarrow> addr \<Rightarrow> 'a mmal_store_scheme \<Rightarrow> 'a mmal_store_scheme option" where
  "forward_data env p b s =
     (if port_enabled (ports s p) then do {
        (status, s) \<leftarrow> mmal_port_send_buffer env (connected_port (ports s p)) b s;
        if status \<noteq> MMAL_SUCCESS then release_buffer env b s else Some s
      } else release_buffer env b s)"

text \<open>The data of an error event.\<close>

definition fill_error :: "addr \<Rightarrow> mmal_status \<Rightarrow> 'a mmal_store_scheme \<Rightarrow> 'a mmal_store_scheme option" where
  "fill_error e status s = do {
     a \<leftarrow> bh_data (bufs s e);
     Some (set_event a (Ev_error status) (upd_buf e (\<lambda>h. h\<lparr>bh_length := sizeof_MMAL_STATUS_T\<rparr>) s))
   }"

partial_function (option) call_bh_callback ::
  "('a mmal_store_scheme) port_env \<Rightarrow> bh_callback \<Rightarrow> addr \<Rightarrow> addr \<Rightarrow> 'a mmal_store_scheme \<Rightarrow> 'a mmal_store_scheme option" where
  "call_bh_callback env cb p b s =
     (case cb of
        Mmal_port_connected_input_cb \<Rightarrow> mmal_port_connected_input_cb env p b s
      | Mmal_connection_bh_in_cb \<Rightarrow> release_buffer env b s
      | Mmal_connection_bh_out_cb \<Rightarrow> mmal_connection_bh_out_cb env p b s
      | Client_bh_cb n \<Rightarrow> on_buffer env n p b s
      | Mmal_port_connected_output_cb \<Rightarrow>
          if bh_cmd (bufs s b) = 0 then forward_data env p b s
          else (case mmal_event_format_changed_get (Some b) s of
            (None, s) \<Rightarrow> release_buffer env b s
          | (Some ev, s) \<Rightarrow>
              Option.bind (apply_format_event env p b ev s) (\<lambda>(status, s).
                if status = MMAL_SUCCESS then Some s
                else
                  Option.bind
                    (Option.bind (mmal_port_event_get env (comp_control (components s (port_component (ports s p))))
                        MMAL_EVENT_ERROR s) (\<lambda>(_, event, s).
                      case (event, comp_control (components s (port_component (ports s p)))) of
                        (Some e, Some control) \<Rightarrow>
                          Option.bind (fill_error e status s) (\<lambda>s.
                            case buffer_header_callback (ports s control) of
                              Some cb' \<Rightarrow> call_bh_callback env cb' control e s
                            | None \<Rightarrow> release_buffer env e s)
                      | _ \<Rightarrow> Some s))
                    (\<lambda>s. release_buffer env b s))))"

definition mmal_port_buffer_header_callback ::
  "('a mmal_store_scheme) port_env \<Rightarrow> addr \<Rightarrow> addr \<Rightarrow> 'a mmal_store_scheme \<Rightarrow> 'a mmal_store_scheme option" where
  "mmal_port_buffer_header_callback env p b s = do {
     cb \<leftarrow> buffer_header_callback (ports s p);
     s \<leftarrow> call_bh_callback env cb p b s;
     Some (in_transit_decrement p s)
   }"

definition mmal_port_event_send ::
  "('a mmal_store_scheme) port_env \<Rightarrow> addr \<Rightarrow> addr \<Rightarrow> 'a mmal_store_scheme \<Rightarrow> 'a mmal_store_scheme option" where
  "mmal_port_event_send env p b s =
     (case buffer_header_callback (ports s p) of
        Some cb \<Rightarrow> call_bh_callback env cb p b s
      | None \<Rightarrow> release_buffer env b s)"

section \<open>Sending events\<close>

definition mmal_event_error_send ::
  "('a mmal_store_scheme) port_env \<Rightarrow> addr option \<Rightarrow> mmal_status \<Rightarrow> 'a mmal_store_scheme \<Rightarrow>
   (mmal_status \<times> 'a mmal_store_scheme) option" where
  "mmal_event_error_send env component error_status s =
     (case component of
        None \<Rightarrow> Some (MMAL_EINVAL, s)
      | Some c \<Rightarrow> do {
          (status, event, s) \<leftarrow> mmal_port_event_get env (comp_control (components s c)) MMAL_EVENT_ERROR s;
          (case (event, comp_control (components s c)) of
             (Some e, Some control) \<Rightarrow> do {
               s \<leftarrow> fill_error e error_status s;
               s \<leftarrow> mmal_port_event_send env control e s;
               Some (MMAL_SUCCESS, s)
             }
           | _ \<Rightarrow> Some (status, s))
        })"

definition mmal_event_eos_send ::
  "('a mmal_store_scheme) port_env \<Rightarrow> addr option \<Rightarrow> 'a mmal_store_scheme \<Rightarrow> (mmal_status \<times> 'a mmal_store_scheme) option" where
  "mmal_event_eos_send env port s =
     (case port of
        None \<Rightarrow> Some (MMAL_EINVAL, s)
      | Some p \<Rightarrow> do {
          let control = comp_control (components s (port_component (ports s p)));
          (status, buffer, s) \<leftarrow> mmal_port_event_get env control MMAL_EVENT_EOS s;
          (case (buffer, control) of
             (Some b, Some control) \<Rightarrow> do {
               a \<leftarrow> bh_data (bufs s b);
               let s = upd_buf b (\<lambda>h. h\<lparr>bh_length := sizeof_MMAL_EVENT_END_OF_STREAM_T\<rparr>) s;
               let s = set_event a (Ev_end_of_stream (port_type (ports s p)) (ucast (port_index (ports s p)))) s;
               s \<leftarrow> mmal_port_event_send env control b s;
               Some (MMAL_SUCCESS, s)
             }
           | _ \<Rightarrow> Some (status, s))
        })"

text \<open>A copy of the data, whatever they are: as an event, as the format behind it, and as bytes.\<close>

definition copy_event_data :: "addr \<Rightarrow> addr \<Rightarrow> nat \<Rightarrow> 'a mmal_store_scheme \<Rightarrow> 'a mmal_store_scheme" where
  "copy_event_data dst src n s =
     (let off = unat sizeof_MMAL_EVENT_FORMAT_CHANGED_T;
          s = set_event dst (events s src) s;
          s = upd_fmt (dst + off) (\<lambda>_. formats s (src + off)) s
      in memcpy dst src n s)"

definition mmal_event_forward ::
  "('a mmal_store_scheme) port_env \<Rightarrow> addr \<Rightarrow> addr option \<Rightarrow> 'a mmal_store_scheme \<Rightarrow> (mmal_status \<times> 'a mmal_store_scheme) option" where
  "mmal_event_forward env event port s =
     (case port of
        None \<Rightarrow> Some (MMAL_EINVAL, s)
      | Some p \<Rightarrow>
          if port_type (ports s p) \<noteq> MMAL_PORT_TYPE_OUTPUT then Some (MMAL_EINVAL, s)
          else do {
            let control = comp_control (components s (port_component (ports s p)));
            (status, buffer, s) \<leftarrow> mmal_port_event_get env control (bh_cmd (bufs s event)) s;
            (case (buffer, control) of
               (Some b, Some control) \<Rightarrow>
                 if bh_alloc_size (bufs s b) < bh_length (bufs s event) then do {
                   s \<leftarrow> release_buffer env b s;
                   Some (MMAL_ENOSPC, s)
                 } else do {
                   dst \<leftarrow> bh_data (bufs s b);
                   src \<leftarrow> bh_data (bufs s event);
                   let s = copy_event_data dst src (unat (bh_length (bufs s event))) s;
                   let e = bufs s event;
                   let s = upd_buf b (\<lambda>h. h\<lparr>bh_length := bh_length e, bh_offset := bh_offset e,
                             bh_flags := bh_flags e, bh_pts := bh_pts e\<rparr>) s;
                   s \<leftarrow> mmal_port_event_send env control b s;
                   Some (MMAL_SUCCESS, s)
                 }
             | _ \<Rightarrow> Some (status, s))
          })"

section \<open>Flushing and pausing\<close>

text \<open>Returning the buffers of the paused queue, one after the other along their \<open>next\<close> fields.\<close>

partial_function (option) return_buffers ::
  "('a mmal_store_scheme) port_env \<Rightarrow> addr \<Rightarrow> addr option \<Rightarrow> 'a mmal_store_scheme \<Rightarrow> 'a mmal_store_scheme option" where
  "return_buffers env p buffer s =
     (case buffer of
        None \<Rightarrow> Some s
      | Some b \<Rightarrow>
          Option.bind (mmal_port_buffer_header_callback env p b s)
            (\<lambda>s'. return_buffers env p (bh_next (bufs s b)) s'))"

definition empty_paused :: "mmal_port \<Rightarrow> mmal_port" where
  "empty_paused pt = pt\<lparr>queue_first := None, queue_last := At_first\<rparr>"

definition mmal_port_flush ::
  "('a mmal_store_scheme) port_env \<Rightarrow> addr option \<Rightarrow> 'a mmal_store_scheme \<Rightarrow> (mmal_status \<times> 'a mmal_store_scheme) option" where
  "mmal_port_flush env port s =
     (case port of
        None \<Rightarrow> Some (MMAL_EINVAL, s)
      | Some p \<Rightarrow>
          (case pf_flush (ports s p) of
             None \<Rightarrow> Some (MMAL_ENOSYS, s)
           | Some f \<Rightarrow>
               if \<not> port_enabled (ports s p) then Some (MMAL_SUCCESS, s)
               else do {
                 (status, s) \<leftarrow> on_flush env f p s;
                 let (buffer, s) = (if status = MMAL_SUCCESS then (queue_first (ports s p), upd_port p empty_paused s)
                                    else (None, s));
                 s \<leftarrow> return_buffers env p buffer s;
                 Some (status, s)
               }))"

text \<open>
  On resuming, the queued buffers go to the module until one is refused, which stays at the head of the queue; its
  \<open>next\<close> field is restored.
\<close>

partial_function (option) send_paused ::
  "('a mmal_store_scheme) port_env \<Rightarrow> addr \<Rightarrow> addr option \<Rightarrow> 'a mmal_store_scheme \<Rightarrow>
   (mmal_status \<times> addr option \<times> 'a mmal_store_scheme) option" where
  "send_paused env p buffer s =
     (case buffer of
        None \<Rightarrow> Some (MMAL_SUCCESS, None, s)
      | Some b \<Rightarrow>
          Option.bind (pf_send (ports s p)) (\<lambda>f.
            Option.bind (on_send env f p b s) (\<lambda>(status, s').
              if status \<noteq> MMAL_SUCCESS then Some (status, Some b, set_next b (bh_next (bufs s b)) s')
              else send_paused env p (bh_next (bufs s b)) s')))"

definition mmal_port_pause ::
  "('a mmal_store_scheme) port_env \<Rightarrow> addr \<Rightarrow> bool \<Rightarrow> 'a mmal_store_scheme \<Rightarrow> (mmal_status \<times> 'a mmal_store_scheme) option" where
  "mmal_port_pause env p pause s = do {
     (status, s) \<leftarrow>
       (if \<not> pause \<and> port_enabled (ports s p) then do {
          (status, buffer, s) \<leftarrow> send_paused env p (queue_first (ports s p)) s;
          Some (status, if status \<noteq> MMAL_SUCCESS then upd_port p (\<lambda>pt. pt\<lparr>queue_first := buffer\<rparr>) s
                        else upd_port p empty_paused s)
        } else Some (MMAL_SUCCESS, s));
     Some (status, if status = MMAL_SUCCESS then upd_port p (\<lambda>pt. pt\<lparr>is_paused := pause\<rparr>) s else s)
   }"

section \<open>Enabling and disabling one port\<close>

definition call_enable ::
  "('a mmal_store_scheme) port_env \<Rightarrow> module_fn \<Rightarrow> addr \<Rightarrow> bh_callback option \<Rightarrow> 'a mmal_store_scheme \<Rightarrow>
   (mmal_status \<times> 'a mmal_store_scheme) option" where
  "call_enable env f p cb s =
     (case f of
        Control_port_fn \<Rightarrow> Some (mmal_component_enable_control_port p cb s)
      | Module_fn n \<Rightarrow> on_enable env n p cb s)"

definition call_disable ::
  "('a mmal_store_scheme) port_env \<Rightarrow> module_fn \<Rightarrow> addr \<Rightarrow> 'a mmal_store_scheme \<Rightarrow>
   (mmal_status \<times> 'a mmal_store_scheme) option" where
  "call_disable env f p s =
     (case f of
        Control_port_fn \<Rightarrow> Some (mmal_component_disable_control_port p s)
      | Module_fn n \<Rightarrow> on_disable env n p s)"

definition mmal_port_enable_internal ::
  "('a mmal_store_scheme) port_env \<Rightarrow> addr \<Rightarrow> bh_callback option \<Rightarrow> 'a mmal_store_scheme \<Rightarrow>
   (mmal_status \<times> 'a mmal_store_scheme) option" where
  "mmal_port_enable_internal env p cb s =
     (let pt = ports s p in
      if port_enabled pt then Some (MMAL_SUCCESS, s)
      else if buffer_num pt < buffer_num_min pt then Some (MMAL_EINVAL, s)
      else if buffer_size pt < buffer_size_min pt then Some (MMAL_EINVAL, s)
      else do {
        let s = upd_port p (\<lambda>pt. pt\<lparr>buffer_header_callback := cb\<rparr>) s;
        f \<leftarrow> pf_enable (ports s p);
        (status, s) \<leftarrow> call_enable env f p cb s;
        Some (status, if status \<noteq> MMAL_SUCCESS then s else upd_port p (\<lambda>pt. pt\<lparr>port_enabled := True\<rparr>) s)
      })"

definition mmal_port_disable_internal ::
  "('a mmal_store_scheme) port_env \<Rightarrow> addr \<Rightarrow> 'a mmal_store_scheme \<Rightarrow> (mmal_status \<times> 'a mmal_store_scheme) option" where
  "mmal_port_disable_internal env p s =
     (if \<not> port_enabled (ports s p) then Some (MMAL_SUCCESS, s)
      else do {
        let s = upd_port p (\<lambda>pt. pt\<lparr>port_enabled := False\<rparr>) s;
        let s = (case pool_for_connection (ports s p) of
                   None \<Rightarrow> s
                 | Some pool \<Rightarrow> mmal_pool_callback_set pool None None s);
        f \<leftarrow> pf_disable (ports s p);
        (status, s) \<leftarrow> call_disable env f p s;
        if status \<noteq> MMAL_SUCCESS then Some (status, upd_port p (\<lambda>pt. pt\<lparr>port_enabled := True\<rparr>) s)
        else do {
          s \<leftarrow> return_buffers env p (queue_first (ports s p)) s;
          let s = upd_port p empty_paused s;
          s \<leftarrow> in_transit_wait p s;
          Some (status, upd_port p (\<lambda>pt. pt\<lparr>buffer_header_callback := None\<rparr>) s)
        }
      })"

section \<open>Enabling and disabling connected ports\<close>

definition output_of :: "addr \<Rightarrow> addr \<Rightarrow> 'a mmal_store_scheme \<Rightarrow> addr" where
  "output_of p q s = (if port_type (ports s p) = MMAL_PORT_TYPE_OUTPUT then p else q)"

definition input_of :: "addr \<Rightarrow> addr \<Rightarrow> 'a mmal_store_scheme \<Rightarrow> addr" where
  "input_of p q s = (if port_type (ports s q) = MMAL_PORT_TYPE_INPUT then q else p)"

definition connection_pool :: "addr \<Rightarrow> addr \<Rightarrow> 'a mmal_store_scheme \<Rightarrow> addr option" where
  "connection_pool p q s =
     (if pool_for_connection (ports s p) \<noteq> None then pool_for_connection (ports s p)
      else pool_for_connection (ports s q))"

definition set_buffers :: "u32 \<Rightarrow> u32 \<Rightarrow> mmal_port \<Rightarrow> mmal_port" where
  "set_buffers n sz pt = pt\<lparr>buffer_num := n, buffer_size := sz\<rparr>"

definition mmal_port_connection_enable ::
  "('a mmal_store_scheme) port_env \<Rightarrow> addr \<Rightarrow> addr \<Rightarrow> 'a mmal_store_scheme \<Rightarrow> (mmal_status \<times> 'a mmal_store_scheme) option" where
  "mmal_port_connection_enable env p q s =
     (let output = output_of p q s; inp = input_of p q s;
          pool_port = (if port_capabilities (ports s output) AND MMAL_PORT_CAPABILITY_ALLOCATION \<noteq> 0 then output else inp);
          n = max (buffer_num (ports s p)) (buffer_num (ports s q));
          sz = max (buffer_size (ports s p)) (buffer_size (ports s q));
          s = upd_port p (set_buffers n sz) (upd_port q (set_buffers n sz) s);
          sz = (if port_capabilities (ports s output) AND MMAL_PORT_CAPABILITY_PASSTHROUGH \<noteq> 0 then 0 else sz)
      in if \<not> core_owns_connection (ports s p) then Some (MMAL_SUCCESS, s)
         else do {
           (pool, s) \<leftarrow> mmal_port_pool_create env (Some pool_port) n sz s;
           (case pool of
              None \<Rightarrow> Some (MMAL_ENOMEM, s)
            | Some pl \<Rightarrow>
                let s = upd_port pool_port (\<lambda>pt. pt\<lparr>pool_for_connection := Some pl\<rparr>) s
                in Some (MMAL_SUCCESS, mmal_pool_callback_set pl (Some Mmal_port_connected_pool_cb) (Some output) s))
         })"

definition mmal_port_connection_disable ::
  "('a mmal_store_scheme) port_env \<Rightarrow> addr \<Rightarrow> addr \<Rightarrow> 'a mmal_store_scheme \<Rightarrow> mmal_status \<times> 'a mmal_store_scheme" where
  "mmal_port_connection_disable env p q s =
     (let s = mmal_pool_destroy (port_pool_env env) (connection_pool p q s) s;
          s = upd_port q (\<lambda>pt. pt\<lparr>pool_for_connection := None\<rparr>) s
      in (MMAL_SUCCESS, upd_port p (\<lambda>pt. pt\<lparr>pool_for_connection := None\<rparr>) s))"

text \<open>One buffer after the other, in turn to the output and to the input port, until the pool is empty.\<close>

partial_function (option) populate_clock_ports ::
  "('a mmal_store_scheme) port_env \<Rightarrow> addr \<Rightarrow> addr \<Rightarrow> addr option \<Rightarrow> 'a mmal_store_scheme \<Rightarrow>
   (mmal_status \<times> 'a mmal_store_scheme) option" where
  "populate_clock_ports env p q queue s =
     Option.bind (mmal_queue_get queue s) (\<lambda>(buffer, s).
       case buffer of
         None \<Rightarrow> Some (MMAL_SUCCESS, s)
       | Some b \<Rightarrow>
           Option.bind (mmal_port_send_buffer env (Some p) b s) (\<lambda>(status, s).
             if status \<noteq> MMAL_SUCCESS then Option.bind (release_buffer env b s) (\<lambda>s. Some (status, s))
             else populate_clock_ports env q p queue s))"

definition mmal_port_populate_clock_ports ::
  "('a mmal_store_scheme) port_env \<Rightarrow> addr \<Rightarrow> addr \<Rightarrow> addr \<Rightarrow> 'a mmal_store_scheme \<Rightarrow>
   (mmal_status \<times> 'a mmal_store_scheme) option" where
  "mmal_port_populate_clock_ports env output inp pool s =
     (if pf_send (ports s output) = None \<or> pf_send (ports s inp) = None then Some (MMAL_ENOSYS, s)
      else populate_clock_ports env output inp (pool_queue (pools s pool)) s)"

partial_function (option) populate_from_pool ::
  "('a mmal_store_scheme) port_env \<Rightarrow> addr \<Rightarrow> addr option \<Rightarrow> u32 \<Rightarrow> 'a mmal_store_scheme \<Rightarrow>
   (mmal_status \<times> 'a mmal_store_scheme) option" where
  "populate_from_pool env p queue idx s =
     (if idx < buffer_num (ports s p) then
        Option.bind (mmal_queue_get queue s) (\<lambda>(buffer, s).
          case buffer of
            None \<Rightarrow> Some (MMAL_ENOMEM, s)
          | Some b \<Rightarrow>
              Option.bind (mmal_port_send_buffer env (Some p) b s) (\<lambda>(status, s).
                if status \<noteq> MMAL_SUCCESS then Option.bind (release_buffer env b s) (\<lambda>s. Some (status, s))
                else populate_from_pool env p queue (idx + 1) s))
      else Some (MMAL_SUCCESS, s))"

definition mmal_port_populate_from_pool ::
  "('a mmal_store_scheme) port_env \<Rightarrow> addr \<Rightarrow> addr \<Rightarrow> 'a mmal_store_scheme \<Rightarrow> (mmal_status \<times> 'a mmal_store_scheme) option" where
  "mmal_port_populate_from_pool env p pool s =
     (if pf_send (ports s p) = None then Some (MMAL_ENOSYS, s)
      else populate_from_pool env p (pool_queue (pools s pool)) 0 s)"

definition mmal_port_connection_start ::
  "('a mmal_store_scheme) port_env \<Rightarrow> addr \<Rightarrow> addr \<Rightarrow> 'a mmal_store_scheme \<Rightarrow> (mmal_status \<times> 'a mmal_store_scheme) option" where
  "mmal_port_connection_start env p q s =
     (let output = output_of p q s; inp = input_of p q s in do {
        pool \<leftarrow> connection_pool p q s;
        if port_type (ports s output) = MMAL_PORT_TYPE_CLOCK \<and> port_type (ports s inp) = MMAL_PORT_TYPE_CLOCK
        then mmal_port_populate_clock_ports env output inp pool s
        else mmal_port_populate_from_pool env output pool s
      })"

text \<open>The error path of \<open>mmal_port_enable\<close>; what disabling returns is ignored.\<close>

definition disable_if_enabled ::
  "('a mmal_store_scheme) port_env \<Rightarrow> addr \<Rightarrow> 'a mmal_store_scheme \<Rightarrow> 'a mmal_store_scheme option" where
  "disable_if_enabled env p s =
     (if port_enabled (ports s p) then map_option snd (mmal_port_disable_internal env p s) else Some s)"

definition enable_failed ::
  "('a mmal_store_scheme) port_env \<Rightarrow> addr \<Rightarrow> addr option \<Rightarrow> mmal_status \<Rightarrow> 'a mmal_store_scheme \<Rightarrow>
   (mmal_status \<times> 'a mmal_store_scheme) option" where
  "enable_failed env p connected status s = do {
     s \<leftarrow> (case connected of None \<Rightarrow> Some s | Some q \<Rightarrow> disable_if_enabled env q s);
     s \<leftarrow> disable_if_enabled env p s;
     Some (status, case connected of None \<Rightarrow> s | Some q \<Rightarrow> snd (mmal_port_connection_disable env p q s))
   }"

text \<open>The part of \<open>mmal_port_enable\<close> after the connection is prepared: the input port first, an output port last.\<close>

definition enable_ports ::
  "('a mmal_store_scheme) port_env \<Rightarrow> addr \<Rightarrow> addr option \<Rightarrow> bh_callback option \<Rightarrow> 'a mmal_store_scheme \<Rightarrow>
   (mmal_status \<times> 'a mmal_store_scheme) option" where
  "enable_ports env p connected cb s = do {
     (status, s) \<leftarrow> (case connected of
        Some q \<Rightarrow> if port_type (ports s q) = MMAL_PORT_TYPE_INPUT
                  then mmal_port_enable_internal env q (Some Mmal_port_connected_input_cb) s else Some (MMAL_SUCCESS, s)
      | None \<Rightarrow> Some (MMAL_SUCCESS, s));
     if status \<noteq> MMAL_SUCCESS then Some (status, s) else do {
     (status, s) \<leftarrow> mmal_port_enable_internal env p cb s;
     if status \<noteq> MMAL_SUCCESS then Some (status, s) else do {
     (status, s) \<leftarrow> (case connected of
        Some q \<Rightarrow> if port_type (ports s q) \<noteq> MMAL_PORT_TYPE_INPUT
                  then mmal_port_enable_internal env q (Some Mmal_port_connected_output_cb) s else Some (MMAL_SUCCESS, s)
      | None \<Rightarrow> Some (MMAL_SUCCESS, s));
     if status \<noteq> MMAL_SUCCESS then Some (status, s) else
     (case connected of
        Some q \<Rightarrow> if core_owns_connection (ports s p) then mmal_port_connection_start env p q s else Some (MMAL_SUCCESS, s)
      | None \<Rightarrow> Some (MMAL_SUCCESS, s))
     }}
   }"

definition mmal_port_enable ::
  "('a mmal_store_scheme) port_env \<Rightarrow> addr option \<Rightarrow> bh_callback option \<Rightarrow> 'a mmal_store_scheme \<Rightarrow>
   (mmal_status \<times> 'a mmal_store_scheme) option" where
  "mmal_port_enable env port cb s =
     (case port of
        None \<Rightarrow> Some (MMAL_EINVAL, s)
      | Some p \<Rightarrow>
          if pf_enable (ports s p) = None then Some (MMAL_ENOSYS, s)
          else if port_enabled (ports s p) then Some (MMAL_EINVAL, s)
          else
            let connected = connected_port (ports s p) in
            if connected \<noteq> None \<and> cb \<noteq> None then Some (MMAL_EINVAL, s)
            else do {
              (status, s) \<leftarrow> (case connected of
                 Some q \<Rightarrow> mmal_port_connection_enable env p q s
               | None \<Rightarrow> Some (MMAL_SUCCESS, s));
              if status \<noteq> MMAL_SUCCESS then Some (status, s) else do {
              let cb = (case connected of
                 Some q \<Rightarrow> Some (if port_type (ports s q) = MMAL_PORT_TYPE_INPUT
                                 then Mmal_port_connected_output_cb else Mmal_port_connected_input_cb)
               | None \<Rightarrow> cb);
              (status, s) \<leftarrow> enable_ports env p connected cb s;
              if status \<noteq> MMAL_SUCCESS then enable_failed env p connected status s else Some (MMAL_SUCCESS, s)
              }
            })"

definition mmal_port_disable ::
  "('a mmal_store_scheme) port_env \<Rightarrow> addr option \<Rightarrow> 'a mmal_store_scheme \<Rightarrow> (mmal_status \<times> 'a mmal_store_scheme) option" where
  "mmal_port_disable env port s =
     (case port of
        None \<Rightarrow> Some (MMAL_EINVAL, s)
      | Some p \<Rightarrow>
          if pf_disable (ports s p) = None then Some (MMAL_ENOSYS, s)
          else if \<not> port_enabled (ports s p) then Some (MMAL_EINVAL, s)
          else (case connected_port (ports s p) of
            None \<Rightarrow> mmal_port_disable_internal env p s
          | Some q \<Rightarrow> do {
              (status, s) \<leftarrow> (if port_type (ports s q) \<noteq> MMAL_PORT_TYPE_INPUT then mmal_port_disable_internal env q s
                              else Some (MMAL_SUCCESS, s));
              if status \<noteq> MMAL_SUCCESS then Some (status, s) else do {
              (status, s) \<leftarrow> mmal_port_disable_internal env p s;
              if status \<noteq> MMAL_SUCCESS then Some (status, s) else do {
              (status, s) \<leftarrow> (if port_type (ports s q) = MMAL_PORT_TYPE_INPUT then mmal_port_disable_internal env q s
                              else Some (MMAL_SUCCESS, s));
              if status \<noteq> MMAL_SUCCESS then Some (status, s)
              else Some (mmal_port_connection_disable env p q s)
              }}
            }))"

section \<open>Connecting and disconnecting\<close>

definition mmal_port_connect_default :: "addr \<Rightarrow> addr option \<Rightarrow> 'a mmal_store_scheme \<Rightarrow> mmal_status \<times> 'a mmal_store_scheme" where
  "mmal_port_connect_default p other s = (MMAL_ENOSYS, s)"

definition call_connect ::
  "('a mmal_store_scheme) port_env \<Rightarrow> connect_fn \<Rightarrow> addr \<Rightarrow> addr option \<Rightarrow> 'a mmal_store_scheme \<Rightarrow>
   (mmal_status \<times> 'a mmal_store_scheme) option" where
  "call_connect env f p other s =
     (case f of
        Mmal_port_connect_default \<Rightarrow> Some (mmal_port_connect_default p other s)
      | Module_connect n \<Rightarrow> on_connect env n p other s)"

definition link_ports :: "addr \<Rightarrow> addr \<Rightarrow> 'a mmal_store_scheme \<Rightarrow> 'a mmal_store_scheme" where
  "link_ports p q s =
     (let s = upd_port p (\<lambda>pt. pt\<lparr>connected_port := Some q\<rparr>) s;
          s = upd_port q (\<lambda>pt. pt\<lparr>connected_port := Some p\<rparr>) s;
          s = upd_port p (\<lambda>pt. pt\<lparr>core_owns_connection := False\<rparr>) s
      in upd_port q (\<lambda>pt. pt\<lparr>core_owns_connection := False\<rparr>) s)"

text \<open>The connection locks of both ports are taken; connecting a port to itself would take the same lock twice.\<close>

definition mmal_port_connect ::
  "('a mmal_store_scheme) port_env \<Rightarrow> addr option \<Rightarrow> addr option \<Rightarrow> 'a mmal_store_scheme \<Rightarrow>
   (mmal_status \<times> 'a mmal_store_scheme) option" where
  "mmal_port_connect env port other s =
     (case (port, other) of
        (Some p, Some q) \<Rightarrow>
          if port_type (ports s p) = MMAL_PORT_TYPE_CLOCK \<and> port_type (ports s p) \<noteq> port_type (ports s q)
          then Some (MMAL_EINVAL, s)
          else if pf_connect (ports s p) = None \<or> pf_connect (ports s q) = None then Some (MMAL_ENOSYS, s)
          else if connected_port (ports s p) \<noteq> None then Some (MMAL_EISCONN, s)
          else if port_enabled (ports s p) then Some (MMAL_EINVAL, s)
          else if p = q then None
          else if connected_port (ports s q) \<noteq> None then Some (MMAL_EISCONN, s)
          else if port_enabled (ports s q) then Some (MMAL_EINVAL, s)
          else do {
            let s = link_ports p q s;
            f \<leftarrow> pf_connect (ports s (output_of p q s));
            (status, s) \<leftarrow> call_connect env f p (Some q) s;
            Some (MMAL_SUCCESS,
              if status = MMAL_SUCCESS then s
              else upd_port q (\<lambda>pt. pt\<lparr>core_owns_connection := True\<rparr>)
                     (upd_port p (\<lambda>pt. pt\<lparr>core_owns_connection := True\<rparr>) s))
          }
      | _ \<Rightarrow> Some (MMAL_EINVAL, s))"

definition mmal_port_disconnect ::
  "('a mmal_store_scheme) port_env \<Rightarrow> addr option \<Rightarrow> 'a mmal_store_scheme \<Rightarrow> (mmal_status \<times> 'a mmal_store_scheme) option" where
  "mmal_port_disconnect env port s =
     (case port of
        None \<Rightarrow> Some (MMAL_EINVAL, s)
      | Some p \<Rightarrow>
          (case connected_port (ports s p) of
             None \<Rightarrow> Some (MMAL_ENOTCONN, s)
           | Some q \<Rightarrow> do {
               (status, s) \<leftarrow>
                 (if port_enabled (ports s p) then do {
                    let (output, inp) = (output_of p q s, input_of p q s);
                    (status, s) \<leftarrow> mmal_port_disable_internal env output s;
                    if status \<noteq> MMAL_SUCCESS then Some (status, s) else do {
                    (status, s) \<leftarrow> mmal_port_disable_internal env inp s;
                    if status \<noteq> MMAL_SUCCESS then Some (status, s)
                    else Some (mmal_port_connection_disable env p q s)
                    }
                  } else Some (MMAL_SUCCESS, s));
               if status \<noteq> MMAL_SUCCESS then Some (status, s) else do {
               (status, s) \<leftarrow>
                 (if \<not> core_owns_connection (ports s p) then do {
                    f \<leftarrow> pf_connect (ports s p);
                    call_connect env f p None s
                  } else Some (status, s));
               if status \<noteq> MMAL_SUCCESS then Some (status, s)
               else Some (status, upd_port q (\<lambda>pt. pt\<lparr>connected_port := None\<rparr>)
                                    (upd_port p (\<lambda>pt. pt\<lparr>connected_port := None\<rparr>) s))
               }
             }))"

definition mmal_port_is_connected :: "addr \<Rightarrow> 'a mmal_store_scheme \<Rightarrow> bool" where
  "mmal_port_is_connected p s \<longleftrightarrow> connected_port (ports s p) \<noteq> None"

text \<open>\<open>mmal_port_pool_destroy\<close> of \<^verbatim>\<open>mmal/util/mmal_util.c\<close>: an enabled port is disabled first.\<close>

definition mmal_port_pool_destroy ::
  "('a mmal_store_scheme) port_env \<Rightarrow> addr option \<Rightarrow> addr option \<Rightarrow> 'a mmal_store_scheme \<Rightarrow> 'a mmal_store_scheme option" where
  "mmal_port_pool_destroy env port pool s =
     (case (port, pool) of
        (Some p, Some pl) \<Rightarrow> do {
          s \<leftarrow> (if port_enabled (ports s p) then map_option snd (mmal_port_disable env (Some p) s) else Some s);
          Some (mmal_pool_destroy (port_pool_env env) (Some pl) s)
        }
      | _ \<Rightarrow> Some s)"

end
