(* ===== verification/PortQueue.thy ===== *)
theory PortQueue
  imports Port
begin

text \<open>
  Correctness of sending, pausing, resuming and disabling a port (\<^verbatim>\<open>mmal/core/mmal_port.c\<close>): the count of buffers in transit
  agrees with the semaphore, the buffers held by a paused port form a queue, nothing is lost or reordered by pausing, and
  disabling returns what is held and waits for the rest.
\<close>

section \<open>The count and the semaphore\<close>

definition transit_ok :: "nat \<Rightarrow> mmal_port \<Rightarrow> bool" where
  "transit_ok n pt \<longleftrightarrow> transit_buffer_headers pt = int n \<and> transit_sema pt = (if n = 0 then 1 else 0)"

lemma in_transit_increment_ok:
  assumes "transit_ok n (ports s p)" "n < 2147483647"
  shows "in_transit_increment p s =
     Some (upd_port p (\<lambda>pt. pt\<lparr>transit_buffer_headers := int n + 1, transit_sema := 0\<rparr>) s)"
proof -
  have "s32 (int n + 1) = int n + 1" using assms(2) by (intro s32_id) (simp add: is_s32_def)
  then have "upd_port p (\<lambda>pt. pt\<lparr>transit_buffer_headers := s32 (int n + 1)\<rparr>) s =
      upd_port p (\<lambda>pt. pt\<lparr>transit_buffer_headers := int n + 1, transit_sema := 0\<rparr>) s" if "n \<noteq> 0"
    using assms(1) that by (intro upd_port_cong) (cases "ports s p", simp add: transit_ok_def)
  with \<open>s32 (int n + 1) = int n + 1\<close> show ?thesis
    using assms by (cases "n = 0")
      (auto simp: in_transit_increment_def transit_ok_def Let_def vcos_semaphore_wait_def o_def)
qed

lemma in_transit_decrement_ok:
  assumes "transit_ok (Suc n) (ports s p)" "Suc n < 2147483647"
  shows "in_transit_decrement p s =
     upd_port p (\<lambda>pt. pt\<lparr>transit_buffer_headers := int n, transit_sema := (if n = 0 then 1 else 0)\<rparr>) s"
proof -
  have n: "s32 (int n) = int n" using assms(2) by (intro s32_id) (simp add: is_s32_def)
  show ?thesis
    using assms n unfolding in_transit_decrement_def Let_def
    by (cases "ports s p") (auto simp: transit_ok_def vcos_semaphore_post_def intro!: upd_port_cong)
qed

lemma in_transit_wait_iff:
  assumes "transit_ok n (ports s p)"
  shows "in_transit_wait p s = (if n = 0 then Some s else None)"
proof (cases "n = 0")
  case True
  then have "upd_port p (\<lambda>pt. pt\<lparr>transit_sema := vcos_semaphore_post 0\<rparr>) s = s"
    using assms by (intro upd_port_id) (simp add: transit_ok_def vcos_semaphore_post_def)
  with True assms show ?thesis by (simp add: in_transit_wait_def transit_ok_def vcos_semaphore_wait_def)
qed (use assms in \<open>simp add: in_transit_wait_def transit_ok_def vcos_semaphore_wait_def\<close>)

section \<open>The buffers a paused port holds\<close>

definition next_of :: "'a bh_store_scheme \<Rightarrow> addr \<Rightarrow> addr option" where
  "next_of s h = bh_next (bufs s h)"

definition holds :: "addr \<Rightarrow> 'a mmal_store_scheme \<Rightarrow> addr list \<Rightarrow> bool" where
  "holds p s bs \<longleftrightarrow> lseg (next_of s) (queue_first (ports s p)) bs None \<and> distinct bs \<and>
     queue_last (ports s p) = (if bs = [] then At_first else At_next (last bs))"

lemma next_of_upd_port [simp]: "next_of (upd_port p f s) = next_of s"
  by (simp add: next_of_def fun_eq_iff)

lemma holds_frame:
  assumes "holds p s bs" "queue_first (ports t p) = queue_first (ports s p)" "queue_last (ports t p) = queue_last (ports s p)"
    and "\<And>h. h \<in> set bs \<Longrightarrow> bh_next (bufs t h) = bh_next (bufs s h)"
  shows "holds p t bs"
proof -
  have "lseg (next_of t) (queue_first (ports t p)) bs None = lseg (next_of s) (queue_first (ports s p)) bs None"
    unfolding assms(2) by (rule lseg_cong) (simp add: next_of_def assms(4))
  with assms show ?thesis by (simp add: holds_def)
qed

lemma ports_set_next [simp]: "ports (set_next h n s) = ports s"
  by (simp add: set_next_def)

lemma enqueue_paused_holds:
  assumes h: "holds p s bs" and b: "b \<notin> set bs"
  shows "holds p (enqueue_paused p b s) (bs @ [b])"
proof (cases "bs = []")
  case True
  then show ?thesis using h by (simp add: holds_def enqueue_paused_def Let_def next_of_def bufs_set_next)
next
  case False
  let ?l = "last bs"
  let ?s = "enqueue_paused p b s"
  have l: "?l \<in> set bs" "?l \<noteq> b" using False b by auto
  have bufs: "bh_next (bufs ?s x) = (if x = ?l then Some b else if x = b then None else bh_next (bufs s x))"
    and q: "queue_first (ports ?s p) = queue_first (ports s p)" "queue_last (ports ?s p) = At_next b" for x
    using h False l(2) by (simp_all add: enqueue_paused_def holds_def Let_def bufs_set_next)
  obtain ys where bs: "bs = ys @ [?l]" using False by (metis append_butlast_last_id)
  have dist: "distinct bs" and seg: "lseg (next_of s) (queue_first (ports s p)) bs None"
    using h by (simp_all add: holds_def)
  have "lseg (next_of s) (queue_first (ports s p)) (ys @ [?l]) None" using seg bs by metis
  then have "lseg (next_of s) (queue_first (ports s p)) ys (Some ?l)" by (auto simp: lseg_append)
  moreover have "?l \<notin> set ys" "b \<notin> set ys" using dist bs b by (metis distinct.simps(2) distinct1_rotate
      rotate1.simps(2) list.set_intros(1) append_Cons, metis Un_iff set_append)
  then have "lseg (next_of ?s) (queue_first (ports s p)) ys (Some ?l) =
      lseg (next_of s) (queue_first (ports s p)) ys (Some ?l)"
    by (intro lseg_cong) (auto simp: next_of_def bufs)
  ultimately have "lseg (next_of ?s) (queue_first (ports s p)) (ys @ [?l] @ [b]) None"
    using l(2) by (auto simp: lseg_append next_of_def bufs)
  then have "lseg (next_of ?s) (queue_first (ports s p)) (bs @ [b]) None" using bs by (metis append_assoc)
  then show ?thesis using dist b q by (simp add: holds_def)
qed

lemma enqueue_paused_frame:
  "is_paused (ports (enqueue_paused p b s) p) = is_paused (ports s p)"
  "transit_buffer_headers (ports (enqueue_paused p b s) p) = transit_buffer_headers (ports s p)"
  "transit_sema (ports (enqueue_paused p b s) p) = transit_sema (ports s p)"
  "port_enabled (ports (enqueue_paused p b s) p) = port_enabled (ports s p)"
  "pf_send (ports (enqueue_paused p b s) p) = pf_send (ports s p)"
  "port_capabilities (ports (enqueue_paused p b s) p) = port_capabilities (ports s p)"
  "bh_data (bufs (enqueue_paused p b s) h) = bh_data (bufs s h)"
  by (simp_all add: enqueue_paused_def Let_def bufs_set_next split: last_link.split)

section \<open>Sending while paused keeps the order\<close>

abbreviation head :: "'b list \<Rightarrow> 'b option" where
  "head xs \<equiv> (case xs of [] \<Rightarrow> None | x # _ \<Rightarrow> Some x)"

text \<open>
  A component module that takes the buffers of its port into a log of its own, or refuses them.  It may write to any
  header that it has been given, and leaves the port and the headers it has not been given alone.
\<close>

definition logging_module ::
  "('a mmal_store_scheme) port_env \<Rightarrow> nat \<Rightarrow> addr \<Rightarrow> ('a \<Rightarrow> addr list) \<Rightarrow> bool" where
  "logging_module env f p log \<longleftrightarrow>
     (\<forall>b s. \<exists>status s'. on_send env f p b s = Some (status, s') \<and> ports s' p = ports s p \<and>
        log (mmal_store.more s') = log (mmal_store.more s) @ (if status = MMAL_SUCCESS then [b] else []) \<and>
        (\<forall>h. h \<notin> set (log (mmal_store.more s)) \<and> h \<noteq> b \<longrightarrow> bufs s' h = bufs s h))"

lemma logging_moduleE:
  assumes "logging_module env f p log"
  obtains status s' where "on_send env f p b s = Some (status, s')" "ports s' p = ports s p"
    "log (mmal_store.more s') = log (mmal_store.more s) @ (if status = MMAL_SUCCESS then [b] else [])"
    "\<And>h. h \<notin> set (log (mmal_store.more s)) \<Longrightarrow> h \<noteq> b \<Longrightarrow> bufs s' h = bufs s h"
  using assms unfolding logging_module_def by blast

lemma more_upd [simp]:
  "mmal_store.more (upd_buf h g s) = mmal_store.more s" "mmal_store.more (upd_port p k s) = mmal_store.more s"
  "mmal_store.more (set_next h n s) = mmal_store.more s" "mmal_store.more (enqueue_paused p b s) = mmal_store.more s"
  by (simp_all add: upd_buf_def upd_port_def set_next_def enqueue_paused_def Let_def split: last_link.split)

lemma send_paused_runs:
  assumes "logging_module env f p log" "pf_send (ports s p) = Some f"
    and "lseg (next_of s) buf bs None" "distinct (log (mmal_store.more s) @ bs)"
  shows "\<exists>status rest acc s'. send_paused env p buf s = Some (status, head rest, s') \<and> bs = acc @ rest \<and>
     (status = MMAL_SUCCESS \<longleftrightarrow> rest = []) \<and> ports s' p = ports s p \<and>
     log (mmal_store.more s') = log (mmal_store.more s) @ acc \<and> lseg (next_of s') (head rest) rest None \<and>
     (\<forall>h. h \<notin> set (log (mmal_store.more s)) \<union> set bs \<longrightarrow> bufs s' h = bufs s h)"
  using assms(2-)
proof (induction bs arbitrary: buf s)
  case Nil
  then have "send_paused env p buf s = Some (MMAL_SUCCESS, None, s)" by (simp add: send_paused.simps)
  then show ?case by (intro exI [of _ MMAL_SUCCESS] exI [of _ "[]"] exI [of _ s]) simp
next
  case (Cons b bs)
  then have buf: "buf = Some b" and seg: "lseg (next_of s) (next_of s b) bs None" by simp_all
  obtain status s' where m: "on_send env f p b s = Some (status, s')" "ports s' p = ports s p"
    "log (mmal_store.more s') = log (mmal_store.more s) @ (if status = MMAL_SUCCESS then [b] else [])"
    "\<And>h. h \<notin> set (log (mmal_store.more s)) \<Longrightarrow> h \<noteq> b \<Longrightarrow> bufs s' h = bufs s h"
    using logging_moduleE [OF assms(1)] by blast
  have keep: "bufs s' h = bufs s h" if "h \<in> set bs" for h using m(4) that Cons.prems(3) by auto
  then have seg': "lseg (next_of s') (next_of s b) bs None"
    using seg by (subst lseg_cong [of bs _ "next_of s"]) (simp_all add: next_of_def)
  show ?case
  proof (cases "status = MMAL_SUCCESS")
    case False
    let ?s = "set_next b (bh_next (bufs s b)) s'"
    have "send_paused env p buf s = Some (status, Some b, ?s)"
      using False m(1) buf Cons.prems(1) by (simp add: send_paused.simps)
    moreover have "next_of ?s = (next_of s')(b := next_of s b)" by (auto simp: next_of_def bufs_set_next)
    then have "lseg (next_of ?s) (Some b) (b # bs) None" using seg' Cons.prems(3) by (simp add: lseg_upd)
    ultimately show ?thesis using False m(2-)
      by (intro exI [of _ status] exI [of _ "b # bs"] exI [of _ "[]"] exI [of _ ?s]) (simp add: bufs_set_next)
  next
    case True
    have "pf_send (ports s' p) = Some f" "distinct (log (mmal_store.more s') @ bs)"
      using m(2,3) True Cons.prems by auto
    from Cons.IH [OF this(1) seg' this(2)] obtain status' rest acc t where
      t: "send_paused env p (next_of s b) s' = Some (status', head rest, t)" "bs = acc @ rest"
        "status' = MMAL_SUCCESS \<longleftrightarrow> rest = []" "ports t p = ports s' p"
        "log (mmal_store.more t) = log (mmal_store.more s') @ acc" "lseg (next_of t) (head rest) rest None"
        "\<forall>h. h \<notin> set (log (mmal_store.more s')) \<union> set bs \<longrightarrow> bufs t h = bufs s' h" by blast
    have "send_paused env p buf s = Some (status', head rest, t)"
      using True m(1) buf Cons.prems(1) t(1) by (simp add: send_paused.simps next_of_def)
    with t True m(2-) show ?thesis
      by (intro exI [of _ status'] exI [of _ rest] exI [of _ "b # acc"] exI [of _ t]) auto
  qed
qed

text \<open>The state of a port that takes buffers: \<open>n\<close> in transit, of which \<open>held\<close> wait until it is resumed.\<close>

definition sending :: "addr \<Rightarrow> nat \<Rightarrow> nat \<Rightarrow> 'a mmal_store_scheme \<Rightarrow> addr list \<Rightarrow> bool" where
  "sending p f n s held \<longleftrightarrow> port_enabled (ports s p) \<and> pf_send (ports s p) = Some f \<and> transit_ok n (ports s p) \<and>
     holds p s held \<and> (is_paused (ports s p) \<or> held = [])"

lemma head_None_iff: "head xs = None \<longleftrightarrow> xs = []"
  by (cases xs) simp_all

lemma resume_sending:
  assumes m: "logging_module env f p log" and s: "sending p f n s held"
    and d: "distinct (log (mmal_store.more s) @ held)"
  shows "\<exists>status s' held'. mmal_port_pause env p False s = Some (status, s') \<and> sending p f n s' held' \<and>
     log (mmal_store.more s') @ held' = log (mmal_store.more s) @ held"
proof -
  have seg: "lseg (next_of s) (queue_first (ports s p)) held None" and pf: "pf_send (ports s p) = Some f"
    using s by (simp_all add: sending_def holds_def)
  obtain status rest acc t where t: "send_paused env p (queue_first (ports s p)) s = Some (status, head rest, t)"
      "held = acc @ rest" "status = MMAL_SUCCESS \<longleftrightarrow> rest = []" "ports t p = ports s p"
      "log (mmal_store.more t) = log (mmal_store.more s) @ acc" "lseg (next_of t) (head rest) rest None"
    using send_paused_runs [OF m pf seg d] by blast
  show ?thesis
  proof (cases "status = MMAL_SUCCESS")
    case True
    with t s show ?thesis
      by (intro exI [of _ status] exI [of _ "upd_port p (\<lambda>pt. (empty_paused pt)\<lparr>is_paused := False\<rparr>) t"] exI [of _ "[]"])
        (simp add: mmal_port_pause_def sending_def holds_def empty_paused_def transit_ok_def o_def)
  next
    case False
    with t s d show ?thesis
      by (intro exI [of _ status] exI [of _ "upd_port p (\<lambda>pt. pt\<lparr>queue_first := head rest\<rparr>) t"] exI [of _ rest])
        (auto simp: mmal_port_pause_def sending_def holds_def transit_ok_def)
  qed
qed

lemma pause_sending:
  assumes "sending p f n s held"
  shows "\<exists>s'. mmal_port_pause env p True s = Some (MMAL_SUCCESS, s') \<and> sending p f n s' held \<and>
     mmal_store.more s' = mmal_store.more s"
  using assms
  by (simp add: mmal_port_pause_def sending_def transit_ok_def holds_def)


lemma sending_upd_port:
  assumes "sending p f n s held" "\<And>pt. (port_enabled (g pt), pf_send (g pt), transit_buffer_headers (g pt),
      transit_sema (g pt), queue_first (g pt), queue_last (g pt), is_paused (g pt)) =
    (port_enabled pt, pf_send pt, transit_buffer_headers pt, transit_sema pt, queue_first pt, queue_last pt, is_paused pt)"
  shows "sending p f n (upd_port p g s) held"
  using assms by (simp add: sending_def holds_def transit_ok_def)

lemma getmicrosecs_frame:
  "snd (vcos_getmicrosecs s) = s\<lparr>clock_readings := clock_readings (snd (vcos_getmicrosecs s))\<rparr>"
  by (auto simp: vcos_getmicrosecs_eq split: list.split)

lemma update_stats_sending:
  assumes "sending p f n s held"
  shows "sending p f n (mmal_port_update_port_stats p d s) held"
    and "mmal_store.more (mmal_port_update_port_stats p d s) = mmal_store.more s"
proof -
  define t where "t = snd (vcos_getmicrosecs s)"
  obtain stc where g: "vcos_getmicrosecs s = (stc, t)" by (cases "vcos_getmicrosecs s") (simp add: t_def)
  have "t = s\<lparr>clock_readings := clock_readings t\<rparr>" using getmicrosecs_frame [of s] by (simp add: t_def)
  then have eq: "ports t = ports s" "bufs t = bufs s" "mmal_store.more t = mmal_store.more s"
    by (cases s, cases t, simp)+
  then have "sending p f n t held" using assms by (simp add: sending_def holds_def next_of_def [abs_def])
  then show "sending p f n (mmal_port_update_port_stats p d s) held"
    unfolding mmal_port_update_port_stats_def g Let_def by (cases d) (auto intro!: sending_upd_port)
  show "mmal_store.more (mmal_port_update_port_stats p d s) = mmal_store.more s"
    unfolding mmal_port_update_port_stats_def g Let_def by (simp add: eq)
qed

lemma send_sending:
  assumes m: "logging_module env f p log" and s: "sending p f n s held" and n: "n + 1 < 2147483647"
    and d: "distinct (log (mmal_store.more s) @ held @ [b])"
  shows "\<exists>status s' held' n'. mmal_port_send_buffer env (Some p) b s = Some (status, s') \<and> sending p f n' s' held' \<and>
     log (mmal_store.more s') @ held' = log (mmal_store.more s) @ held @ (if status = MMAL_SUCCESS then [b] else []) \<and>
     n' = n + (if status = MMAL_SUCCESS then 1 else 0)"
proof -
  let ?pass = "bh_data (bufs s b) = None \<and> port_capabilities (ports s p) AND MMAL_PORT_CAPABILITY_PASSTHROUGH = 0"
  show ?thesis
  proof (cases ?pass)
    case True
    then show ?thesis using s
      by (intro exI [of _ MMAL_EINVAL] exI [of _ s] exI [of _ held] exI [of _ n]) (simp add: mmal_port_send_buffer_def)
  next
    case False
    define t where "t = (if port_type (ports s p) = MMAL_PORT_TYPE_OUTPUT \<and> bh_length (bufs s b) \<noteq> 0
                         then upd_buf b (\<lambda>h. h\<lparr>bh_length := 0\<rparr>) s else s)"
    have nx: "next_of t = next_of s" by (auto simp: t_def next_of_def)
    have t: "sending p f n t held" "mmal_store.more t = mmal_store.more s" "ports t = ports s"
      using s nx by (auto simp: t_def sending_def holds_def)
    define u where "u = upd_port p (\<lambda>pt. pt\<lparr>transit_buffer_headers := int n + 1, transit_sema := 0\<rparr>) t"
    have "transit_ok n (ports t p)" using t(1) by (simp add: sending_def)
    then have inc: "in_transit_increment p t = Some u" using n by (simp add: u_def in_transit_increment_ok)
    have u: "sending p f (Suc n) u held" "mmal_store.more u = mmal_store.more s"
      using t by (simp_all add: u_def sending_def holds_def transit_ok_def)
    have run: "mmal_port_send_buffer env (Some p) b s = do {
        (status, s) \<leftarrow> (if is_paused (ports u p) then Some (MMAL_SUCCESS, enqueue_paused p b u) else on_send env f p b u);
        if status \<noteq> MMAL_SUCCESS then Some (status, in_transit_decrement p s)
        else Some (status, mmal_port_update_port_stats p MMAL_CORE_STATS_RX s)}"
      using s t inc unfolding mmal_port_send_buffer_def option.case if_not_P [OF False]
      by (simp add: t_def [symmetric] sending_def)
    show ?thesis
    proof (cases "is_paused (ports u p)")
      case True
      have "holds p u held" "b \<notin> set held" using u(1) d by (auto simp: sending_def)
      then have "sending p f (Suc n) (enqueue_paused p b u) (held @ [b])"
        using enqueue_paused_holds [of p u held b] u(1) True by (simp add: sending_def transit_ok_def enqueue_paused_frame)
      from update_stats_sending [OF this, of MMAL_CORE_STATS_RX] show ?thesis using run True u(2)
        by (intro exI [of _ MMAL_SUCCESS] exI [of _ "mmal_port_update_port_stats p MMAL_CORE_STATS_RX (enqueue_paused p b u)"]
            exI [of _ "held @ [b]"] exI [of _ "Suc n"]) simp
    next
      case False
      then have held: "held = []" using u(1) by (simp add: sending_def)
      obtain status v where v: "on_send env f p b u = Some (status, v)" "ports v p = ports u p"
        "log (mmal_store.more v) = log (mmal_store.more u) @ (if status = MMAL_SUCCESS then [b] else [])"
        using logging_moduleE [OF m] by blast
      have vs: "sending p f (Suc n) v []" using u(1) v(2) held by (simp add: sending_def holds_def)
      show ?thesis
      proof (cases "status = MMAL_SUCCESS")
        case True
        from update_stats_sending [OF vs, of MMAL_CORE_STATS_RX] show ?thesis using run True False u(2) v held
          by (intro exI [of _ MMAL_SUCCESS] exI [of _ "mmal_port_update_port_stats p MMAL_CORE_STATS_RX v"]
            exI [of _ "[]"] exI [of _ "Suc n"]) simp
      next
        case bad: False
        have "transit_ok (Suc n) (ports v p)" using vs by (simp add: sending_def)
        then have dec: "in_transit_decrement p v = upd_port p (\<lambda>pt. pt\<lparr>transit_buffer_headers := int n,
            transit_sema := (if n = 0 then 1 else 0)\<rparr>) v" using n by (intro in_transit_decrement_ok) auto
        have "sending p f n (in_transit_decrement p v) []"
          unfolding dec using vs by (simp add: sending_def holds_def transit_ok_def)
        then show ?thesis using run bad False u(2) v held dec
          by (intro exI [of _ status] exI [of _ "in_transit_decrement p v"] exI [of _ "[]"] exI [of _ n]) simp
      qed
    qed
  qed
qed

datatype port_op = Send addr | Pause | Resume

text \<open>Runs the operations and collects the buffers whose sending succeeded.\<close>

fun port_run ::
  "('a mmal_store_scheme) port_env \<Rightarrow> addr \<Rightarrow> port_op list \<Rightarrow> 'a mmal_store_scheme \<Rightarrow>
   (addr list \<times> 'a mmal_store_scheme) option" where
  "port_run env p [] s = Some ([], s)"
| "port_run env p (Send b # ops) s = do {
     (status, s) \<leftarrow> mmal_port_send_buffer env (Some p) b s;
     (bs, s) \<leftarrow> port_run env p ops s;
     Some (if status = MMAL_SUCCESS then b # bs else bs, s)
   }"
| "port_run env p (Pause # ops) s = do { (_, s) \<leftarrow> mmal_port_pause env p True s; port_run env p ops s }"
| "port_run env p (Resume # ops) s = do { (_, s) \<leftarrow> mmal_port_pause env p False s; port_run env p ops s }"

fun sent_by :: "port_op list \<Rightarrow> addr list" where
  "sent_by [] = []"
| "sent_by (Send b # ops) = b # sent_by ops"
| "sent_by (op # ops) = sent_by ops"

text \<open>
  C1: whatever is sent to an enabled port and however it is paused and resumed in between, no call blocks, and what the
  module has got followed by what the port still holds is what was successfully sent, in that order; the buffers in
  transit are counted exactly.  The module may refuse buffers, also while the port is being resumed.
\<close>

theorem mmal_port_pause_keeps_order:
  assumes m: "logging_module env f p log"
    and "sending p f n s held" "n + length ops < 2147483647" "distinct (log (mmal_store.more s) @ held @ sent_by ops)"
  shows "\<exists>bs s' held'. port_run env p ops s = Some (bs, s') \<and> sending p f (n + length bs) s' held' \<and>
     log (mmal_store.more s') @ held' = log (mmal_store.more s) @ held @ bs"
  using assms(2-)
proof (induction ops arbitrary: n s held)
  case Nil
  then show ?case by (intro exI [of _ "[]"]) auto
next
  case (Cons op ops)
  show ?case
  proof (cases op)
    case (Send b)
    have d: "distinct (log (mmal_store.more s) @ held @ [b])" using Cons.prems(3) Send by auto
    have "n + 1 < 2147483647" using Cons.prems(2) by simp
    from send_sending [OF m Cons.prems(1) this d] obtain status t held' n' where
      t: "mmal_port_send_buffer env (Some p) b s = Some (status, t)" "sending p f n' t held'"
        "log (mmal_store.more t) @ held' = log (mmal_store.more s) @ held @ (if status = MMAL_SUCCESS then [b] else [])"
        "n' = n + (if status = MMAL_SUCCESS then 1 else 0)" by blast
    have "distinct ((log (mmal_store.more t) @ held') @ sent_by ops)"
      unfolding t(3) using Cons.prems(3) Send by auto
    then have "distinct (log (mmal_store.more t) @ held' @ sent_by ops)" by simp
    moreover have "n' + length ops < 2147483647" using t(4) Cons.prems(2) by simp
    ultimately obtain bs u held'' where
      u: "port_run env p ops t = Some (bs, u)" "sending p f (n' + length bs) u held''"
        "log (mmal_store.more u) @ held'' = log (mmal_store.more t) @ held' @ bs"
      using Cons.IH [OF t(2)] by blast
    have "log (mmal_store.more u) @ held'' = (log (mmal_store.more t) @ held') @ bs" using u(3) by simp
    then show ?thesis using t u unfolding Send
      by (intro exI [of _ "if status = MMAL_SUCCESS then b # bs else bs"] exI [of _ u] exI [of _ held'']) auto
  next
    case Pause
    obtain t where t: "mmal_port_pause env p True s = Some (MMAL_SUCCESS, t)" "sending p f n t held"
      "mmal_store.more t = mmal_store.more s" using pause_sending [OF Cons.prems(1)] by blast
    then show ?thesis using Cons.IH [OF t(2)] Cons.prems(2,3) Pause by auto
  next
    case Resume
    have d: "distinct (log (mmal_store.more s) @ held)" using Cons.prems(3) by auto
    obtain status t held' where t: "mmal_port_pause env p False s = Some (status, t)" "sending p f n t held'"
      "log (mmal_store.more t) @ held' = log (mmal_store.more s) @ held"
      using resume_sending [OF m Cons.prems(1) d] by blast
    have eq: "log (mmal_store.more t) @ held' @ xs = log (mmal_store.more s) @ held @ xs" for xs
      using t(3) by (metis append_assoc)
    show ?thesis using Cons.IH [OF t(2)] Cons.prems(2,3) Resume t(1) by (simp add: eq)
  qed
qed

definition logged_store :: "(addr list) mmal_store_scheme" where
  "logged_store = mmal_store.extend empty_mmal_store []"

text \<open>A module that takes every buffer but the header at 4.\<close>

definition logging_env :: "((addr list) mmal_store_scheme) port_env" where
  "logging_env = quiet_env\<lparr>on_send := (\<lambda>_ _ b s.
     if b = 4 then Some (MMAL_EAGAIN, s) else Some (MMAL_SUCCESS, mmal_store.more_update (\<lambda>l. l @ [b]) s))\<rparr>"

definition sending_store :: "(addr list) mmal_store_scheme" where
  "sending_store = upd_port 7 (\<lambda>_. zero_port\<lparr>port_enabled := True, pf_send := Some 0, transit_sema := 1,
     port_capabilities := MMAL_PORT_CAPABILITY_PASSTHROUGH\<rparr>) logged_store"

theorem mmal_port_pause_keeps_order_witness:
  "let ops = [Send 1, Pause, Send 2, Send 4, Send 3, Resume, Send 5] in
   \<exists>bs s' held'. port_run logging_env 7 ops sending_store = Some (bs, s') \<and> sending 7 0 (length bs) s' held' \<and>
     mmal_store.more s' @ held' = bs"
proof -
  have "logging_module logging_env 0 7 (\<lambda>l. l)"
    by (simp add: logging_module_def logging_env_def)
  moreover have "mmal_store.more sending_store = []"
    by (simp add: sending_store_def logged_store_def mmal_store.defs)
  moreover have "sending 7 0 0 sending_store []"
    by (simp add: sending_def sending_store_def transit_ok_def holds_def zero_port_def)
  ultimately show ?thesis
    using mmal_port_pause_keeps_order [of logging_env 0 7 "\<lambda>l. l" 0 sending_store "[]"
        "[Send 1, Pause, Send 2, Send 4, Send 3, Resume, Send 5]"] by (simp add: Let_def)
qed

end
