(* ===== verification/PortDisable.thy ===== *)
theory PortDisable
  imports PortQueue
begin

text \<open>
  Disabling a port (\<^verbatim>\<open>mmal_port_disable\<close> of \<^verbatim>\<open>mmal/core/mmal_port.c\<close>): every buffer in transit comes back to the client, first
  those of the module, then those a paused port holds, and the call returns exactly when none is left.
\<close>

section \<open>Giving buffers back\<close>

text \<open>A client that keeps the buffers that come back in a log of its own.\<close>

definition logging_client ::
  "('a mmal_store_scheme) port_env \<Rightarrow> nat \<Rightarrow> addr \<Rightarrow> ('a \<Rightarrow> addr list) \<Rightarrow> bool" where
  "logging_client env k p log \<longleftrightarrow>
     (\<forall>b s. \<exists>s'. on_buffer env k p b s = Some s' \<and> ports s' p = ports s p \<and>
        log (mmal_store.more s') = log (mmal_store.more s) @ [b] \<and>
        (\<forall>h. h \<notin> set (log (mmal_store.more s)) \<and> h \<noteq> b \<longrightarrow> bufs s' h = bufs s h))"

lemma logging_clientE:
  assumes "logging_client env k p log"
  obtains s' where "on_buffer env k p b s = Some s'" "ports s' p = ports s p"
    "log (mmal_store.more s') = log (mmal_store.more s) @ [b]"
    "\<And>h. h \<notin> set (log (mmal_store.more s)) \<Longrightarrow> h \<noteq> b \<Longrightarrow> bufs s' h = bufs s h"
  using assms unfolding logging_client_def by blast

text \<open>What a module does with the buffers it holds when its port is disabled.\<close>

fun return_all ::
  "('a mmal_store_scheme) port_env \<Rightarrow> addr \<Rightarrow> addr list \<Rightarrow> 'a mmal_store_scheme \<Rightarrow> 'a mmal_store_scheme option" where
  "return_all env p [] s = Some s"
| "return_all env p (b # bs) s = do { s \<leftarrow> mmal_port_buffer_header_callback env p b s; return_all env p bs s }"

text \<open>The port but for the count and the semaphore.\<close>

definition uncounted :: "mmal_port \<Rightarrow> mmal_port" where
  "uncounted pt = pt\<lparr>transit_buffer_headers := 0, transit_sema := 0\<rparr>"

lemma uncounted_sel:
  assumes "uncounted a = uncounted b"
  shows "buffer_header_callback a = buffer_header_callback b" "queue_first a = queue_first b"
    "queue_last a = queue_last b" "port_enabled a = port_enabled b" "pf_send a = pf_send b"
  using assms by (cases a; cases b; simp add: uncounted_def)+

lemma callback_step:
  assumes cl: "logging_client env k p log" and cb: "buffer_header_callback (ports s p) = Some (Client_bh_cb k)"
    and n: "transit_ok (Suc n) (ports s p)" "Suc n < 2147483647"
  obtains t where "mmal_port_buffer_header_callback env p b s = Some t" "transit_ok n (ports t p)"
    "uncounted (ports t p) = uncounted (ports s p)" "log (mmal_store.more t) = log (mmal_store.more s) @ [b]"
    "\<And>h. h \<notin> set (log (mmal_store.more s)) \<Longrightarrow> h \<noteq> b \<Longrightarrow> bufs t h = bufs s h"
proof -
  obtain u where u: "on_buffer env k p b s = Some u" "ports u p = ports s p"
    "log (mmal_store.more u) = log (mmal_store.more s) @ [b]"
    "\<And>h. h \<notin> set (log (mmal_store.more s)) \<Longrightarrow> h \<noteq> b \<Longrightarrow> bufs u h = bufs s h"
    using logging_clientE [OF cl] by blast
  have "transit_ok (Suc n) (ports u p)" using n(1) u(2) by simp
  note dec = in_transit_decrement_ok [OF this n(2)]
  have run: "mmal_port_buffer_header_callback env p b s = Some (in_transit_decrement p u)"
    using cb u(1) by (simp add: mmal_port_buffer_header_callback_def call_bh_callback.simps)
  show ?thesis
    by (rule that [OF run]) (simp_all add: dec transit_ok_def uncounted_def u)
qed

lemma return_all_runs:
  assumes cl: "logging_client env k p log"
    and "buffer_header_callback (ports s p) = Some (Client_bh_cb k)"
    and "transit_ok (n + length bs) (ports s p)" "n + length bs < 2147483647"
  shows "\<exists>t. return_all env p bs s = Some t \<and> transit_ok n (ports t p) \<and> uncounted (ports t p) = uncounted (ports s p) \<and>
     log (mmal_store.more t) = log (mmal_store.more s) @ bs \<and>
     (\<forall>h. h \<notin> set (log (mmal_store.more s) @ bs) \<longrightarrow> bufs t h = bufs s h)"
  using assms(2-)
proof (induction bs arbitrary: s)
  case (Cons b bs)
  have "transit_ok (Suc (n + length bs)) (ports s p)" "Suc (n + length bs) < 2147483647" using Cons.prems by simp_all
  from callback_step [OF cl Cons.prems(1) this, of b] obtain t where
    t: "mmal_port_buffer_header_callback env p b s = Some t" "transit_ok (n + length bs) (ports t p)"
      "uncounted (ports t p) = uncounted (ports s p)" "log (mmal_store.more t) = log (mmal_store.more s) @ [b]"
      "\<And>h. h \<notin> set (log (mmal_store.more s)) \<Longrightarrow> h \<noteq> b \<Longrightarrow> bufs t h = bufs s h" by metis
  have "buffer_header_callback (ports t p) = Some (Client_bh_cb k)"
    using uncounted_sel(1) [OF t(3)] Cons.prems(1) by simp
  from Cons.IH [OF this t(2)] Cons.prems(3) obtain u where
    u: "return_all env p bs t = Some u" "transit_ok n (ports u p)" "uncounted (ports u p) = uncounted (ports t p)"
      "log (mmal_store.more u) = log (mmal_store.more t) @ bs"
      "\<forall>h. h \<notin> set (log (mmal_store.more t) @ bs) \<longrightarrow> bufs u h = bufs t h" by auto
  with t show ?case by (intro exI [of _ u]) auto
qed simp

text \<open>Following the \<open>next\<close> fields while the client is given the buffers.\<close>

lemma return_buffers_eq:
  assumes cl: "logging_client env k p log"
    and "buffer_header_callback (ports s p) = Some (Client_bh_cb k)"
    and "transit_ok (n + length bs) (ports s p)" "n + length bs < 2147483647"
    and "lseg (next_of s) buf bs None" "distinct (log (mmal_store.more s) @ bs)"
  shows "return_buffers env p buf s = return_all env p bs s"
  using assms(2-)
proof (induction bs arbitrary: buf s)
  case Nil
  then show ?case by (simp add: return_buffers.simps)
next
  case (Cons b bs)
  have "transit_ok (Suc (n + length bs)) (ports s p)" "Suc (n + length bs) < 2147483647" using Cons.prems by simp_all
  from callback_step [OF cl Cons.prems(1) this, of b] obtain t where
    t: "mmal_port_buffer_header_callback env p b s = Some t" "transit_ok (n + length bs) (ports t p)"
      "uncounted (ports t p) = uncounted (ports s p)" "log (mmal_store.more t) = log (mmal_store.more s) @ [b]"
      "\<And>h. h \<notin> set (log (mmal_store.more s)) \<Longrightarrow> h \<noteq> b \<Longrightarrow> bufs t h = bufs s h" by metis
  have "lseg (next_of s) (next_of s b) bs None" using Cons.prems(4) by simp
  moreover have "next_of t h = next_of s h" if "h \<in> set bs" for h
  proof -
    have "h \<notin> set (log (mmal_store.more s))" "h \<noteq> b" using that Cons.prems(5) by auto
    then show ?thesis by (simp add: next_of_def t(5))
  qed
  ultimately have "lseg (next_of t) (next_of s b) bs None" using lseg_cong [of bs "next_of t" "next_of s"] by simp
  moreover have "buffer_header_callback (ports t p) = Some (Client_bh_cb k)"
    using uncounted_sel(1) [OF t(3)] Cons.prems(1) by simp
  moreover have "distinct (log (mmal_store.more t) @ bs)" using Cons.prems(5) t(4) by simp
  ultimately have "return_buffers env p (next_of s b) t = return_all env p bs t"
    using Cons.IH t(2) Cons.prems(3) by simp
  then show ?case using t(1) Cons.prems(4) by (simp add: return_buffers.simps next_of_def)
qed

lemma pool_callback_set_frame [simp]:
  "ports (mmal_pool_callback_set pool cb u s) = ports s" "bufs (mmal_pool_callback_set pool cb u s) = bufs s"
  "mmal_store.more (mmal_pool_callback_set pool cb u s) = mmal_store.more s"
  by (simp_all add: mmal_pool_callback_set_def upd_pool_def Let_def)

text \<open>
  C2: a port with \<open>n\<close> buffers in transit, of which a paused port holds \<open>held\<close> and the module \<open>xs\<close>, is disabled.  If
  these are all the buffers, the client gets back each of them once, those of the module first, in the order in which they
  were sent, and the port is left disabled, empty and without callback.  If some other buffer is still out, the call waits for it.
\<close>

theorem mmal_port_disable_returns_buffers:
  assumes s: "sending p f n s held" and cb: "buffer_header_callback (ports s p) = Some (Client_bh_cb k)"
    and cl: "logging_client env k p log" and alone: "connected_port (ports s p) = None"
    and pf: "pf_disable (ports s p) = Some (Module_fn d)"
    and m: "\<And>t. buffer_header_callback (ports t p) = Some (Client_bh_cb k) \<Longrightarrow>
          on_disable env d p t = map_option (Pair MMAL_SUCCESS) (return_all env p xs t)"
    and n: "length xs + length held \<le> n" "n < 2147483647"
    and dist: "distinct (log (mmal_store.more s) @ xs @ held)"
  shows "if n = length xs + length held
     then \<exists>s'. mmal_port_disable env (Some p) s = Some (MMAL_SUCCESS, s') \<and>
       log (mmal_store.more s') = log (mmal_store.more s) @ xs @ held \<and>
       \<not> port_enabled (ports s' p) \<and> holds p s' [] \<and> transit_ok 0 (ports s' p) \<and>
       buffer_header_callback (ports s' p) = None
     else mmal_port_disable env (Some p) s = None"
proof -
  define t where "t = (let s = upd_port p (\<lambda>pt. pt\<lparr>port_enabled := False\<rparr>) s in
      case pool_for_connection (ports s p) of None \<Rightarrow> s | Some pool \<Rightarrow> mmal_pool_callback_set pool None None s)"
  have t: "ports t p = (ports s p)\<lparr>port_enabled := False\<rparr>" "bufs t = bufs s" "mmal_store.more t = mmal_store.more s"
    by (simp_all add: t_def Let_def split: option.split)
  have en: "port_enabled (ports s p)" and ok: "transit_ok n (ports s p)" and hold: "holds p s held"
    using s by (simp_all add: sending_def)
  have tn: "transit_ok ((n - length xs) + length xs) (ports t p)" using ok n by (simp add: t transit_ok_def)
  have tcb: "buffer_header_callback (ports t p) = Some (Client_bh_cb k)" using cb by (simp add: t)
  have "(n - length xs) + length xs < 2147483647" using n by simp
  from return_all_runs [OF cl tcb tn this] obtain u where
    u: "return_all env p xs t = Some u" "transit_ok (n - length xs) (ports u p)" "uncounted (ports u p) = uncounted (ports t p)"
      "log (mmal_store.more u) = log (mmal_store.more s) @ xs"
      "\<And>h. h \<notin> set (log (mmal_store.more s) @ xs) \<Longrightarrow> bufs u h = bufs s h" by (auto simp: t)
  note usel = uncounted_sel [OF u(3)]
  have ucb: "buffer_header_callback (ports u p) = Some (Client_bh_cb k)" using usel(1) tcb by simp
  have useg: "lseg (next_of u) (queue_first (ports u p)) held None"
  proof -
    have "next_of u h = next_of s h" if "h \<in> set held" for h
    proof -
      have "h \<notin> set (log (mmal_store.more s) @ xs)" using that dist by auto
      from u(5) [OF this] show ?thesis by (simp add: next_of_def)
    qed
    then show ?thesis using hold usel(2) lseg_cong [of held "next_of u" "next_of s"] by (simp add: holds_def t)
  qed
  let ?r = "n - length xs - length held"
  have r: "transit_ok (?r + length held) (ports u p)" "?r + length held < 2147483647" using u(2) n by simp_all
  have "distinct (log (mmal_store.more u) @ held)" using dist u(4) by simp
  note eq = return_buffers_eq [OF cl ucb r useg this]
  from return_all_runs [OF cl ucb r] obtain v where
    v: "return_all env p held u = Some v" "transit_ok ?r (ports v p)" "uncounted (ports v p) = uncounted (ports u p)"
      "log (mmal_store.more v) = log (mmal_store.more s) @ xs @ held" by (auto simp: u(4))
  have "uncounted (ports v p) = uncounted ((ports s p)\<lparr>port_enabled := False\<rparr>)" using v(3) u(3) t(1) by simp
  note vsel = uncounted_sel [OF this]
  let ?w = "upd_port p empty_paused v"
  have wait: "in_transit_wait p ?w = (if ?r = 0 then Some ?w else None)"
    using v(2) by (intro in_transit_wait_iff) (simp add: empty_paused_def transit_ok_def)
  have run: "mmal_port_disable env (Some p) s = do {
      s \<leftarrow> in_transit_wait p ?w; Some (MMAL_SUCCESS, upd_port p (\<lambda>pt. pt\<lparr>buffer_header_callback := None\<rparr>) s)}"
    using en alone pf u(1) v(1) eq m [OF tcb] t(1)
    by (cases "pool_for_connection (ports s p)")
      (simp_all add: mmal_port_disable_def mmal_port_disable_internal_def t_def call_disable_def)
  show ?thesis
  proof (cases "n = length xs + length held")
    case True
    then show ?thesis using run wait v vsel(4) by (simp add: holds_def empty_paused_def transit_ok_def)
  next
    case False
    then have "?r \<noteq> 0" using n by simp
    then show ?thesis using run wait False by simp
  qed
qed


definition client_env :: "((addr list) mmal_store_scheme) port_env" where
  "client_env = quiet_env\<lparr>on_buffer := (\<lambda>_ _ b s. Some (mmal_store.more_update (\<lambda>l. l @ [b]) s))\<rparr>"

text \<open>The module holds the buffer at 5, the paused port those at 8 and 9.\<close>

definition disabling_env :: "((addr list) mmal_store_scheme) port_env" where
  "disabling_env = client_env\<lparr>on_disable := (\<lambda>_ p s. map_option (Pair MMAL_SUCCESS) (return_all client_env p [5] s))\<rparr>"

definition disabling_store :: "(addr list) mmal_store_scheme" where
  "disabling_store = upd_port 7 (\<lambda>_. zero_port\<lparr>port_enabled := True, pf_send := Some 0, pf_disable := Some (Module_fn 0),
     buffer_header_callback := Some (Client_bh_cb 0), transit_buffer_headers := 3, is_paused := True,
     queue_first := Some 8, queue_last := At_next 9\<rparr>) (set_next 8 (Some 9) logged_store)"

theorem mmal_port_disable_returns_buffers_witness:
  "\<exists>s'. mmal_port_disable disabling_env (Some 7) disabling_store = Some (MMAL_SUCCESS, s') \<and>
     mmal_store.more s' = [5, 8, 9] \<and> \<not> port_enabled (ports s' 7)"
proof -
  have p: "ports disabling_store 7 = zero_port\<lparr>port_enabled := True, pf_send := Some 0, pf_disable := Some (Module_fn 0),
     buffer_header_callback := Some (Client_bh_cb 0), transit_buffer_headers := 3, is_paused := True,
     queue_first := Some 8, queue_last := At_next 9\<rparr>" by (simp add: disabling_store_def)
  have nx: "bh_next (bufs disabling_store 8) = Some 9" "bh_next (bufs disabling_store 9) = None"
    by (simp_all add: disabling_store_def logged_store_def empty_mmal_store_def mmal_store.defs bufs_set_next
        zero_buffer_header_def)
  have more: "mmal_store.more disabling_store = []"
    by (simp add: disabling_store_def logged_store_def mmal_store.defs)
  have "sending 7 0 3 disabling_store [8, 9]"
    by (simp add: sending_def p zero_port_def transit_ok_def holds_def next_of_def nx)
  moreover have "logging_client disabling_env 0 7 (\<lambda>l. l)"
    by (simp add: logging_client_def disabling_env_def client_env_def)
  moreover have "on_disable disabling_env 0 7 t = map_option (Pair MMAL_SUCCESS) (return_all disabling_env 7 [5] t)"
    if "buffer_header_callback (ports t 7) = Some (Client_bh_cb 0)" for t
    using that by (simp add: disabling_env_def client_env_def mmal_port_buffer_header_callback_def call_bh_callback.simps)
  ultimately show ?thesis
    using mmal_port_disable_returns_buffers [of 7 0 3 disabling_store "[8, 9]" 0 disabling_env "\<lambda>l. l" 0 "[5]"]
    by (simp add: p zero_port_def more) blast
qed

end
