(* ===== verification/Component.thy ===== *)
theory Component
  imports PortDisable
begin

text \<open>
  Creating, enabling, disabling and releasing components, \<^verbatim>\<open>mmal/core/mmal_component.c\<close>, on top of the life cycle in
  \<open>ComponentCore\<close>.  A component is made by a constructor, or by the first supplier registered for the prefix of its name
  that makes it; then the core adds an event pool and the array of all its ports.

  Constructors, suppliers and the functions of a component are names whose meaning is in the environment.
\<close>

section \<open>Suppliers\<close>

definition SUPPLIER_PREFIX_LEN :: nat where "SUPPLIER_PREFIX_LEN = 32"
definition sizeof_MMAL_COMPONENT_SUPPLIER_T :: u32 where "sizeof_MMAL_COMPONENT_SUPPLIER_T = 40"

definition dot_size :: "string \<Rightarrow> nat" where
  "dot_size name = length (takeWhile (\<lambda>ch. ch \<noteq> CHR ''.'') name)"

definition supplier_matches :: "mmal_component_supplier \<Rightarrow> string \<Rightarrow> bool" where
  "supplier_matches sp name \<longleftrightarrow>
     length (sup_prefix sp) = dot_size name \<and> take (dot_size name) (sup_prefix sp) = take (dot_size name) name"

partial_function (option) supplier_walk ::
  "('a mmal_store_scheme) port_env \<Rightarrow> string \<Rightarrow> addr \<Rightarrow> addr option \<Rightarrow> mmal_status \<Rightarrow> 'a mmal_store_scheme \<Rightarrow>
   (mmal_status \<times> 'a mmal_store_scheme) option" where
  "supplier_walk env name c supplier status s =
     (case supplier of
        None \<Rightarrow> Some (status, s)
      | Some a \<Rightarrow>
          if supplier_matches (supplier_at s a) name then
            Option.bind (on_create env (sup_create (supplier_at s a)) name c s) (\<lambda>(status, s).
              if status = MMAL_SUCCESS then Some (status, s)
              else supplier_walk env name c (sup_next (supplier_at s a)) status s)
          else supplier_walk env name c (sup_next (supplier_at s a)) status s)"

definition mmal_component_supplier_create ::
  "('a mmal_store_scheme) port_env \<Rightarrow> string \<Rightarrow> addr \<Rightarrow> 'a mmal_store_scheme \<Rightarrow>
   (mmal_status \<times> 'a mmal_store_scheme) option" where
  "mmal_component_supplier_create env name c s = supplier_walk env name c (suppliers s) MMAL_ENOSYS s"

definition mmal_component_supplier_register :: "string \<Rightarrow> nat \<Rightarrow> 'a mmal_store_scheme \<Rightarrow> 'a mmal_store_scheme" where
  "mmal_component_supplier_register prefix create_fn s =
     (case vcos_calloc 1 sizeof_MMAL_COMPONENT_SUPPLIER_T s of
        (None, s) \<Rightarrow> s
      | (Some a, s) \<Rightarrow>
          s\<lparr>supplier_at := (supplier_at s)(a := \<lparr>sup_next = suppliers s, sup_create = create_fn,
              sup_prefix = take (SUPPLIER_PREFIX_LEN - 1) prefix\<rparr>), suppliers := Some a\<rparr>)"

partial_function (option) destroy_suppliers :: "addr option \<Rightarrow> 'a mmal_store_scheme \<Rightarrow> 'a mmal_store_scheme option" where
  "destroy_suppliers supplier s =
     (case supplier of
        None \<Rightarrow> Some s
      | Some current \<Rightarrow> destroy_suppliers (sup_next (supplier_at s current)) (vcos_free (Some current) s))"

definition mmal_component_supplier_destructor :: "'a mmal_store_scheme \<Rightarrow> 'a mmal_store_scheme option" where
  "mmal_component_supplier_destructor s = destroy_suppliers (suppliers s) s"

section \<open>Creation\<close>

definition MMAL_CONTROL_PORT_BUFFERS_MIN :: u32 where "MMAL_CONTROL_PORT_BUFFERS_MIN = 4"

definition mmal_component_init_control_port :: "addr \<Rightarrow> 'a mmal_store_scheme \<Rightarrow> 'a mmal_store_scheme" where
  "mmal_component_init_control_port p s =
     (let s = upd_fmt (port_format (ports s p)) (\<lambda>f. f\<lparr>fmt_type := MMAL_ES_TYPE_CONTROL\<rparr>) s in
      upd_port p (\<lambda>pt. pt\<lparr>
        buffer_num_min := MMAL_CONTROL_PORT_BUFFERS_MIN, buffer_num := MMAL_CONTROL_PORT_BUFFERS_MIN,
        buffer_size_min := sizeof_MMAL_ES_FORMAT_T + sizeof_MMAL_ES_SPECIFIC_FORMAT_T,
        buffer_size := sizeof_MMAL_ES_FORMAT_T + sizeof_MMAL_ES_SPECIFIC_FORMAT_T,
        pf_enable := Some Control_port_fn, pf_disable := Some Control_port_fn,
        pf_parameter_set := Some Control_port_fn, pf_parameter_get := Some Control_port_fn\<rparr>) s)"

text \<open>Room for a format event, and enough events.\<close>

definition widen_control_port :: "mmal_port \<Rightarrow> mmal_port" where
  "widen_control_port pt =
     (let pt = (if buffer_size_min pt < format_changed_size then pt\<lparr>buffer_size_min := format_changed_size\<rparr> else pt)
      in if buffer_num_min pt < MMAL_CONTROL_PORT_BUFFERS_MIN
         then pt\<lparr>buffer_num_min := MMAL_CONTROL_PORT_BUFFERS_MIN\<rparr> else pt)"

text \<open>\<open>for (i = 0; i < num; i++) f (i, ports[i])\<close>\<close>

definition each_port :: "(nat \<Rightarrow> mmal_port \<Rightarrow> mmal_port) \<Rightarrow> addr list \<Rightarrow> 'a mmal_store_scheme \<Rightarrow> 'a mmal_store_scheme" where
  "each_port f ps s = fold (\<lambda>(i, p). upd_port p (f i)) (zip [0..<length ps] ps) s"

definition set_port_type :: "mmal_port_type \<Rightarrow> nat \<Rightarrow> mmal_port \<Rightarrow> mmal_port" where
  "set_port_type t i pt = pt\<lparr>port_type := t, port_index := word_of_nat i\<rparr>"

text \<open>From the array of all ports on.\<close>

definition number_ports :: "addr \<Rightarrow> addr \<Rightarrow> 'a mmal_store_scheme \<Rightarrow> 'a mmal_store_scheme" where
  "number_ports c control s =
     (let k = components s c;
          all = control # comp_input k @ comp_output k @ comp_clock k;
          s = upd_comp c (\<lambda>k. k\<lparr>comp_port := all\<rparr>) s;
          s = each_port (\<lambda>i pt. pt\<lparr>port_index_all := word_of_nat i\<rparr>) all s;
          s = upd_port control (set_port_type MMAL_PORT_TYPE_CONTROL 0) s;
          s = each_port (set_port_type MMAL_PORT_TYPE_INPUT) (comp_input k) s;
          s = each_port (set_port_type MMAL_PORT_TYPE_OUTPUT) (comp_output k) s;
          s = each_port (set_port_type MMAL_PORT_TYPE_CLOCK) (comp_clock k) s
      in each_port (\<lambda>_. raise_to_minimum) all s)"

definition create_failed ::
  "('a mmal_store_scheme) port_env \<Rightarrow> addr \<Rightarrow> mmal_status \<Rightarrow> 'a mmal_store_scheme \<Rightarrow>
   (mmal_status \<times> addr option \<times> 'a mmal_store_scheme) option" where
  "create_failed env c status s = Some (status, None, snd (mmal_component_destroy_internal env c s))"

text \<open>The event pool and the array of all ports.\<close>

definition complete_component ::
  "('a mmal_store_scheme) port_env \<Rightarrow> addr \<Rightarrow> addr \<Rightarrow> 'a mmal_store_scheme \<Rightarrow>
   (mmal_status \<times> addr option \<times> 'a mmal_store_scheme) option" where
  "complete_component env c control s = do {
     let s = upd_port control widen_control_port s;
     (pool, s) \<leftarrow> mmal_pool_create (port_pool_env env) (buffer_num_min (ports s control)) (buffer_size_min (ports s control)) s;
     let s = upd_comp c (\<lambda>k. k\<lparr>comp_event_pool := pool\<rparr>) s;
     if pool = None then create_failed env c MMAL_ENOMEM s
     else
       let k = components s c;
           port_num = 1 + word_of_nat (length (comp_input k) + length (comp_output k) + length (comp_clock k));
           (array, s) = vcos_malloc (port_num * sizeof_ptr) s;
           s = upd_comp c (\<lambda>k. k\<lparr>comp_port_array := array\<rparr>) s
       in if array = None then create_failed env c MMAL_ENOMEM s
          else Some (MMAL_SUCCESS, Some c, number_ports c control s)
   }"

definition construct ::
  "('a mmal_store_scheme) port_env \<Rightarrow> string \<Rightarrow> nat option \<Rightarrow> addr \<Rightarrow> 'a mmal_store_scheme \<Rightarrow>
   (mmal_status \<times> 'a mmal_store_scheme) option" where
  "construct env name constructor c s =
     (case constructor of
        None \<Rightarrow> mmal_component_supplier_create env name c s
      | Some f \<Rightarrow> on_create env f name c s)"

text \<open>From the control port on.\<close>

definition construct_component ::
  "('a mmal_store_scheme) port_env \<Rightarrow> string \<Rightarrow> nat option \<Rightarrow> addr option \<Rightarrow> addr \<Rightarrow> 'a mmal_store_scheme \<Rightarrow>
   (mmal_status \<times> addr option \<times> 'a mmal_store_scheme) option" where
  "construct_component env name constructor private_data c s =
     (let (control, s) = mmal_port_alloc c MMAL_PORT_TYPE_CONTROL 0 s;
          s = upd_comp c (\<lambda>k. k\<lparr>comp_control := control\<rparr>) s
      in (case control of
            None \<Rightarrow> create_failed env c MMAL_ENOMEM s
          | Some p \<Rightarrow> do {
              let s = mmal_component_init_control_port p s;
              let s = upd_comp c (\<lambda>k. k\<lparr>comp_module := private_data\<rparr>) s;
              (status, s) \<leftarrow> construct env name constructor c s;
              if status \<noteq> MMAL_SUCCESS then create_failed env c status s
              else complete_component env c p s
            }))"

text \<open>The second component of the result is what \<open>*component\<close> holds afterwards.\<close>

definition mmal_component_create_core ::
  "('a mmal_store_scheme) port_env \<Rightarrow> string \<Rightarrow> nat option \<Rightarrow> addr option \<Rightarrow> 'a mmal_store_scheme \<Rightarrow>
   (mmal_status \<times> addr option \<times> 'a mmal_store_scheme) option" where
  "mmal_component_create_core env name constructor private_data s =
     (let s = mmal_core_init s;
          csize = sizeof_MMAL_COMPONENT_T + sizeof_MMAL_COMPONENT_CORE_PRIVATE_T + (word_of_nat (length name) + 1)
      in case vcos_calloc 1 csize s of
           (None, s) \<Rightarrow> Some (MMAL_ENOMEM, None, s)
         | (Some c, s) \<Rightarrow>
             let s = upd_comp c (\<lambda>_. zero_component\<lparr>comp_name := name, comp_refcount := 1\<rparr>) s in
             (case vcos_create (comp_lock c) s of
                (False, s) \<Rightarrow> Some (MMAL_ENOMEM, Some c, vcos_free (Some c) s)
              | (True, s) \<Rightarrow>
                  let s = upd_comp c (\<lambda>k. k\<lparr>comp_id := core_instance_count s\<rparr>) s;
                      s = s\<lparr>core_instance_count := core_instance_count s + 1\<rparr>
                  in construct_component env name constructor private_data c s))"

text \<open>\<open>component = False\<close>: there is no place for the result.\<close>

definition mmal_component_create ::
  "('a mmal_store_scheme) port_env \<Rightarrow> string \<Rightarrow> bool \<Rightarrow> 'a mmal_store_scheme \<Rightarrow>
   (mmal_status \<times> addr option \<times> 'a mmal_store_scheme) option" where
  "mmal_component_create env name component s =
     (if \<not> component then Some (MMAL_EINVAL, None, s) else mmal_component_create_core env name None None s)"

definition mmal_component_create_with_constructor ::
  "('a mmal_store_scheme) port_env \<Rightarrow> string \<Rightarrow> nat option \<Rightarrow> addr option \<Rightarrow> bool \<Rightarrow> 'a mmal_store_scheme \<Rightarrow>
   (mmal_status \<times> addr option \<times> 'a mmal_store_scheme) option" where
  "mmal_component_create_with_constructor env name constructor private_data component s =
     (if \<not> component then Some (MMAL_EINVAL, None, s)
      else mmal_component_create_core env name constructor private_data s)"

section \<open>Release\<close>

text \<open>The results of disabling and disconnecting are ignored.\<close>

fun disable_ports ::
  "('a mmal_store_scheme) port_env \<Rightarrow> addr list \<Rightarrow> 'a mmal_store_scheme \<Rightarrow> 'a mmal_store_scheme option" where
  "disable_ports env [] s = Some s"
| "disable_ports env (p # ps) s = do {
     s \<leftarrow> (if port_enabled (ports s p) then map_option snd (mmal_port_disable env (Some p) s) else Some s);
     disable_ports env ps s
   }"

fun disconnect_ports ::
  "('a mmal_store_scheme) port_env \<Rightarrow> addr list \<Rightarrow> 'a mmal_store_scheme \<Rightarrow> 'a mmal_store_scheme option" where
  "disconnect_ports env [] s = Some s"
| "disconnect_ports env (p # ps) s = do {
     (_, s) \<leftarrow> mmal_port_disconnect env (Some p) s;
     disconnect_ports env ps s
   }"

definition mmal_component_release_internal ::
  "('a mmal_store_scheme) port_env \<Rightarrow> addr \<Rightarrow> 'a mmal_store_scheme \<Rightarrow> (mmal_status \<times> 'a mmal_store_scheme) option" where
  "mmal_component_release_internal env c s =
     (if comp_refcount (components s c) \<le> 0 then Some (MMAL_EINVAL, s)
      else
        let s = upd_comp c (\<lambda>k. k\<lparr>comp_refcount := comp_refcount k - 1\<rparr>) s in
        if comp_refcount (components s c) \<noteq> 0 then Some (MMAL_SUCCESS, s)
        else do {
          let s = upd_comp c (\<lambda>k. k\<lparr>destruction_pending := True\<rparr>) s;
          s \<leftarrow> disable_ports env (comp_input (components s c)) s;
          s \<leftarrow> disable_ports env (comp_output (components s c)) s;
          s \<leftarrow> disable_ports env (comp_clock (components s c)) s;
          control \<leftarrow> comp_control (components s c);
          s \<leftarrow> disable_ports env [control] s;
          s \<leftarrow> disconnect_ports env (comp_input (components s c)) s;
          s \<leftarrow> disconnect_ports env (comp_output (components s c)) s;
          s \<leftarrow> disconnect_ports env (comp_clock (components s c)) s;
          if comp_refcount_ports (components s c) \<noteq> 0
          then Some (MMAL_SUCCESS, upd_comp c (\<lambda>k. k\<lparr>destruction_pending := False\<rparr>) s)
          else Some (mmal_component_destroy_internal env c s)
        })"

definition mmal_component_destroy ::
  "('a mmal_store_scheme) port_env \<Rightarrow> addr option \<Rightarrow> 'a mmal_store_scheme \<Rightarrow> (mmal_status \<times> 'a mmal_store_scheme) option" where
  "mmal_component_destroy env component s =
     (case component of None \<Rightarrow> Some (MMAL_EINVAL, s) | Some c \<Rightarrow> mmal_component_release_internal env c s)"

definition mmal_component_release ::
  "('a mmal_store_scheme) port_env \<Rightarrow> addr option \<Rightarrow> 'a mmal_store_scheme \<Rightarrow> (mmal_status \<times> 'a mmal_store_scheme) option" where
  "mmal_component_release env component s =
     (case component of None \<Rightarrow> Some (MMAL_EINVAL, s) | Some c \<Rightarrow> mmal_component_release_internal env c s)"

section \<open>Enabling and disabling\<close>

text \<open>\<open>for (i = 0; status == MMAL_SUCCESS && i < num; i++) status = mmal_port_pause (ports[i], pause);\<close>\<close>

fun pause_ports ::
  "('a mmal_store_scheme) port_env \<Rightarrow> bool \<Rightarrow> addr list \<Rightarrow> mmal_status \<Rightarrow> 'a mmal_store_scheme \<Rightarrow>
   (mmal_status \<times> 'a mmal_store_scheme) option" where
  "pause_ports env pause [] status s = Some (status, s)"
| "pause_ports env pause (p # ps) status s =
     (if status \<noteq> MMAL_SUCCESS then Some (status, s)
      else do { (status, s) \<leftarrow> mmal_port_pause env p pause s; pause_ports env pause ps status s })"

definition mmal_component_enable ::
  "('a mmal_store_scheme) port_env \<Rightarrow> addr option \<Rightarrow> 'a mmal_store_scheme \<Rightarrow> (mmal_status \<times> 'a mmal_store_scheme) option" where
  "mmal_component_enable env component s =
     (case component of
        None \<Rightarrow> Some (MMAL_EINVAL, s)
      | Some c \<Rightarrow>
          if comp_enabled (components s c) then Some (MMAL_SUCCESS, s)
          else do {
            (status, s) \<leftarrow> (case comp_pf_enable (components s c) of
                              None \<Rightarrow> Some (MMAL_ENOSYS, s) | Some f \<Rightarrow> on_component_enable env f c s);
            (status, s) \<leftarrow>
              (if status = MMAL_ENOSYS then do {
                 (status, s) \<leftarrow> pause_ports env False (comp_input (components s c)) MMAL_SUCCESS s;
                 pause_ports env False (comp_output (components s c)) status s
               } else Some (status, s));
            Some (status, if status = MMAL_SUCCESS then upd_comp c (\<lambda>k. k\<lparr>comp_enabled := True\<rparr>) s else s)
          })"

definition mmal_component_disable ::
  "('a mmal_store_scheme) port_env \<Rightarrow> addr option \<Rightarrow> 'a mmal_store_scheme \<Rightarrow> (mmal_status \<times> 'a mmal_store_scheme) option" where
  "mmal_component_disable env component s =
     (case component of
        None \<Rightarrow> Some (MMAL_EINVAL, s)
      | Some c \<Rightarrow>
          if \<not> comp_enabled (components s c) then Some (MMAL_SUCCESS, s)
          else do {
            (status, s) \<leftarrow> (case comp_pf_disable (components s c) of
                              None \<Rightarrow> Some (MMAL_ENOSYS, s) | Some f \<Rightarrow> on_component_disable env f c s);
            (status, s) \<leftarrow>
              (if status = MMAL_ENOSYS then do {
                 (status, s) \<leftarrow> pause_ports env True (comp_input (components s c)) MMAL_SUCCESS s;
                 pause_ports env True (comp_output (components s c)) status s
               } else Some (status, s));
            Some (status, if status = MMAL_SUCCESS then upd_comp c (\<lambda>k. k\<lparr>comp_enabled := False\<rparr>) s else s)
          })"

end
