(* ===== verification/ComponentLife.thy ===== *)
theory ComponentLife
  imports Component
begin

text \<open>
  The life of a component: what creation takes, destruction gives back, and the component is destroyed exactly when the last
  reference on it and on its ports is gone.
\<close>

section \<open>Frames\<close>


lemma os_calls_core:
  fixes s :: "'a mmal_store_scheme"
  shows "vcos_malloc n s = (r, t) \<Longrightarrow> core_refcount t = core_refcount s"
    "vcos_create x s = (ok, t) \<Longrightarrow> core_refcount t = core_refcount s"
    "core_refcount (vcos_delete x s) = core_refcount s" "core_refcount (vcos_free a s) = core_refcount s"
    "core_refcount (upd_port p f s) = core_refcount s" "core_refcount (upd_comp c g s) = core_refcount s"
    "core_refcount (upd_fmt e h s) = core_refcount s"
  by (auto simp: vcos_malloc_def vcos_create_def vcos_delete_def vcos_free_def upd_port_def upd_comp_def upd_fmt_def
      split: list.splits option.splits bool.splits)






lemma components_delete [simp]: "components (vcos_delete x s) = components (s :: 'a mmal_store_scheme)"
  by (simp add: vcos_delete_def)

lemma components_fold_delete [simp]: "components (fold vcos_delete xs s) = components (s :: 'a mmal_store_scheme)"
  by (induction xs arbitrary: s) simp_all

section \<open>What destruction frees\<close>







section \<open>Construction\<close>






lemma upd_port_core_sel [simp]: "core_refcount (upd_port p f s) = core_refcount s"
  "core_refcount (upd_comp c g s) = core_refcount s" "core_refcount (upd_fmt e h s) = core_refcount s"
  by (simp_all add: os_calls_core)



lemma raise_to_minimum_sel [simp]:
  "format_ptr_copy (raise_to_minimum pt) = format_ptr_copy pt" "port_enabled (raise_to_minimum pt) = port_enabled pt"
  "connected_port (raise_to_minimum pt) = connected_port pt"
  by (simp_all add: raise_to_minimum_def Let_def)

lemma each_port_comp [simp]: "components (each_port f ps s) = components s"
proof -
  have "components (fold (\<lambda>(i, p). upd_port p (f i)) xs s) = components s" for xs
    by (induction xs arbitrary: s) auto
  then show ?thesis by (simp add: each_port_def)
qed

lemma set_port_type_sel [simp]:
  "format_ptr_copy (set_port_type ty i pt) = format_ptr_copy pt" "port_enabled (set_port_type ty i pt) = port_enabled pt"
  "connected_port (set_port_type ty i pt) = connected_port pt"
  by (simp_all add: set_port_type_def)










section \<open>Creation and destruction\<close>


lemma disable_ports_disabled: "(\<forall>p\<in>set ps. \<not> port_enabled (ports s p)) \<Longrightarrow> disable_ports env ps s = Some s"
  by (induction ps) simp_all

lemma disconnect_ports_unconnected:
  "(\<forall>p\<in>set ps. connected_port (ports s p) = None) \<Longrightarrow> disconnect_ports env ps s = Some s"
  by (induction ps) (simp_all add: mmal_port_disconnect_def)















section \<open>References\<close>

datatype ref_op = Acquire | Release | Port_acquire | Port_release

fun ref_step ::
  "('a mmal_store_scheme) port_env \<Rightarrow> addr \<Rightarrow> addr \<Rightarrow> ref_op \<Rightarrow> 'a mmal_store_scheme \<Rightarrow> 'a mmal_store_scheme option" where
  "ref_step env c p Acquire s = Some (mmal_component_acquire c s)"
| "ref_step env c p Release s = map_option snd (mmal_component_release env (Some c) s)"
| "ref_step env c p Port_acquire s = Some (mmal_port_acquire p s)"
| "ref_step env c p Port_release s = Some (snd (mmal_port_release env p s))"

fun ref_run ::
  "('a mmal_store_scheme) port_env \<Rightarrow> addr \<Rightarrow> addr \<Rightarrow> ref_op list \<Rightarrow> 'a mmal_store_scheme \<Rightarrow> 'a mmal_store_scheme option" where
  "ref_run env c p [] s = Some s"
| "ref_run env c p (op # ops) s = do { s \<leftarrow> ref_step env c p op s; ref_run env c p ops s }"

text \<open>The references as numbers: on the component and on its ports.\<close>

fun count_refs :: "ref_op \<Rightarrow> nat \<times> nat \<Rightarrow> nat \<times> nat" where
  "count_refs Acquire (m, n) = (m + 1, n)"
| "count_refs Release (m, n) = (m - 1, n)"
| "count_refs Port_acquire (m, n) = (m, n + 1)"
| "count_refs Port_release (m, n) = (m, n - 1)"

text \<open>Only a holder of a reference takes another or gives one back; with no reference left nobody does anything.\<close>

fun refs_held :: "ref_op list \<Rightarrow> nat \<times> nat \<Rightarrow> bool" where
  "refs_held [] r = True"
| "refs_held (op # ops) (m, n) \<longleftrightarrow>
     (case op of Acquire \<Rightarrow> 0 < m | Release \<Rightarrow> 0 < m | Port_acquire \<Rightarrow> 0 < m + n | Port_release \<Rightarrow> 0 < n) \<and>
     refs_held ops (count_refs op (m, n))"

definition set_refs :: "nat \<Rightarrow> nat \<Rightarrow> bool \<Rightarrow> mmal_component \<Rightarrow> mmal_component" where
  "set_refs m n b k = k\<lparr>comp_refcount := int m, comp_refcount_ports := int n, destruction_pending := b\<rparr>"

lemma upd_comp_upd_comp [simp]: "upd_comp c f (upd_comp c g s) = upd_comp c (f \<circ> g) s"
  by (simp add: upd_comp_def)

lemma upd_comp_cong: "f (components s c) = g (components s c) \<Longrightarrow> upd_comp c f s = upd_comp c g s"
  by (simp add: upd_comp_def)

definition idle_component :: "addr \<Rightarrow> 'a mmal_store_scheme \<Rightarrow> bool" where
  "idle_component c s \<longleftrightarrow> (\<exists>p. comp_control (components s c) = Some p \<and> \<not> port_enabled (ports s p)) \<and>
     (\<forall>q\<in>set (comp_input (components s c) @ comp_output (components s c) @ comp_clock (components s c)).
       \<not> port_enabled (ports s q) \<and> connected_port (ports s q) = None)"

lemma release_step:
  assumes idle: "idle_component c s"
  shows "mmal_component_release env (Some c) (upd_comp c (set_refs (Suc m) n False) s) =
    (if m = 0 \<and> n = 0 then Some (mmal_component_destroy_internal env c (upd_comp c (set_refs 0 0 True) s))
     else Some (MMAL_SUCCESS, upd_comp c (set_refs m n False) s))"
proof -
  obtain p where p: "comp_control (components s c) = Some p" "\<not> port_enabled (ports s p)"
    using idle by (auto simp: idle_component_def)
  have eqs: "upd_comp c ((\<lambda>k. k\<lparr>comp_refcount := comp_refcount k - 1\<rparr>) \<circ> set_refs (Suc m) n False) s = upd_comp c (set_refs m n False) s"
    "upd_comp c ((\<lambda>k. k\<lparr>destruction_pending := b\<rparr>) \<circ> set_refs m n b') s = upd_comp c (set_refs m n b) s" for m n b b'
    by (rule upd_comp_cong, simp add: set_refs_def)+
  have sels: "comp_refcount (set_refs m n b k) = int m" "comp_refcount_ports (set_refs m n b k) = int n"
    "comp_control (set_refs m n b k) = comp_control k" "comp_input (set_refs m n b k) = comp_input k"
    "comp_output (set_refs m n b k) = comp_output k" "comp_clock (set_refs m n b k) = comp_clock k" for m n b k
    by (simp_all add: set_refs_def)
  show ?thesis using p idle
    by (simp add: mmal_component_release_def mmal_component_release_internal_def eqs sels Let_def
        disable_ports_disabled disconnect_ports_unconnected idle_component_def)
qed

lemma ref_step_counts:
  assumes idle: "idle_component c s" and port: "port_component (ports s p) = c"
    and small: "m + n + 1 < 2147483648" and held: "refs_held [op] (m, n)" and r: "count_refs op (m, n) = (m', n')"
  shows "ref_step env c p op (upd_comp c (set_refs m n False) s) =
    Some (if m' = 0 \<and> n' = 0 then snd (mmal_component_destroy_internal env c (upd_comp c (set_refs 0 0 (op = Release)) s))
          else upd_comp c (set_refs m' n' False) s)"
proof (cases op)
  case Acquire
  have "s32 (int m + 1) = int m + 1" using small by (intro s32_id) (simp add: is_s32_def)
  then have "upd_comp c ((\<lambda>k. k\<lparr>comp_refcount := s32 (comp_refcount k + 1)\<rparr>) \<circ> set_refs m n False) s =
      upd_comp c (set_refs (m + 1) n False) s" by (intro upd_comp_cong) (simp add: set_refs_def)
  then show ?thesis using Acquire r by (auto simp: mmal_component_acquire_def)
next
  case Release
  then obtain k where "m = Suc k" using held by (cases m) auto
  then show ?thesis using Release r release_step [OF idle, of env k n]
    by (cases "mmal_component_destroy_internal env c (upd_comp c (set_refs 0 0 True) s)") auto
next
  case Port_acquire
  have "s32 (int n + 1) = int n + 1" using small by (intro s32_id) (simp add: is_s32_def)
  then have "upd_comp c ((\<lambda>k. k\<lparr>comp_refcount_ports := s32 (comp_refcount_ports k + 1)\<rparr>) \<circ> set_refs m n False) s =
      upd_comp c (set_refs m (n + 1) False) s" by (intro upd_comp_cong) (simp add: set_refs_def)
  then show ?thesis using Port_acquire r port by (auto simp: mmal_port_acquire_def)
next
  case Port_release
  then obtain k where k: "n = Suc k" using held by (cases n) auto
  then have "upd_comp c ((\<lambda>k. k\<lparr>comp_refcount_ports := comp_refcount_ports k - 1\<rparr>) \<circ> set_refs m n False) s =
      upd_comp c (set_refs m k False) s" by (intro upd_comp_cong) (simp add: set_refs_def)
  then show ?thesis using Port_release r port k by (auto simp: mmal_port_release_def Let_def set_refs_def)
qed

text \<open>
  C6: a component whose ports are at rest counts the references on it and on its ports, together: as long as one is left,
  taking and giving back references changes nothing but the two counts; with the last one, whichever it is, the component is
  destroyed, once.
\<close>

theorem mmal_component_lives_while_referenced:
  assumes "idle_component c s" "port_component (ports s p) = c" "refs_held ops (m, n)" "0 < m + n"
    and "m + n + length ops < 2147483648" and "fold count_refs ops (m, n) = (m', n')"
  shows "if m' = 0 \<and> n' = 0
     then \<exists>b. ref_run env c p ops (upd_comp c (set_refs m n False) s) =
            Some (snd (mmal_component_destroy_internal env c (upd_comp c (set_refs 0 0 b) s)))
     else ref_run env c p ops (upd_comp c (set_refs m n False) s) = Some (upd_comp c (set_refs m' n' False) s)"
  using assms(3-)
proof (induction ops arbitrary: m n)
  case (Cons op ops)
  obtain m1 n1 where r: "count_refs op (m, n) = (m1, n1)" by fastforce
  have small: "m + n + 1 < 2147483648" using Cons.prems(3) by simp
  have held: "refs_held [op] (m, n)" "refs_held ops (m1, n1)" using Cons.prems(1) r by simp_all
  note step = ref_step_counts [OF assms(1,2) small held(1) r, of env]
  have sum: "m1 + n1 \<le> m + n + 1" using r by (cases op) auto
  show ?case
  proof (cases "m1 = 0 \<and> n1 = 0")
    case True
    then have "ops = []" using held(2) by (cases ops; cases "hd ops") auto
    then show ?thesis using step True r Cons.prems(4) by auto
  next
    case False
    then have "0 < m1 + n1" "m1 + n1 + length ops < 2147483648" using sum Cons.prems(3) by auto
    from Cons.IH [OF held(2) this] Cons.prems(4) show ?thesis using step False r by simp
  qed
qed auto

definition idle_store :: mmal_store where
  "idle_store = upd_comp 1000 (\<lambda>_. zero_component\<lparr>comp_control := Some 2000\<rparr>)
     (upd_port 3000 (\<lambda>_. zero_port\<lparr>port_component := 1000\<rparr>) empty_mmal_store)"

text \<open>A payload of a port outlives the client's reference on the component.\<close>

theorem mmal_component_lives_while_referenced_witness:
  "\<exists>b. ref_run quiet_env 1000 3000 [Port_acquire, Acquire, Release, Release, Port_release]
       (upd_comp 1000 (set_refs 1 0 False) idle_store) =
     Some (snd (mmal_component_destroy_internal quiet_env 1000 (upd_comp 1000 (set_refs 0 0 b) idle_store)))"
proof -
  have "idle_component 1000 idle_store" "port_component (ports idle_store 3000) = 1000"
    by (simp_all add: idle_component_def idle_store_def empty_mmal_store_def zero_port_def zero_component_def)
  from mmal_component_lives_while_referenced [OF this, of "[Port_acquire, Acquire, Release, Release, Port_release]" 1 0 0 0]
  show ?thesis by simp
qed

text \<open>
  When the lock of a new component cannot be created, the call reports the failure but leaves the address of the freed
  component in the caller's pointer and the reference count of the core raised.
\<close>

theorem mmal_component_create_dangling:
  "\<exists>s'. mmal_component_create env name True (empty_mmal_store\<lparr>mallocs := [Some 1000], creates := [False]\<rparr>) =
     Some (MMAL_ENOMEM, Some 1000, s') \<and> live s' = [] \<and> core_refcount s' = 1"
  by (simp add: mmal_component_create_def mmal_component_create_core_def mmal_core_init_def vcos_calloc_def
      vcos_malloc_def vcos_create_def empty_mmal_store_def upd_comp_def vcos_free_def Let_def)

end
