(* ===== verification/Connection.thy ===== *)
theory Connection
  imports ComponentLife
begin

text \<open>
  Connections between an output and an input port, \<^verbatim>\<open>mmal/util/mmal_connection.c\<close>.  A connection is tunnelled, and the core
  passes the buffers on (\<open>mmal_port_connect\<close>), or it has a pool and a queue of its own, and the client moves the buffers.

  The names are for the log only and are left out, but their room is counted.
\<close>

section \<open>Flags and sizes\<close>

definition MMAL_CONNECTION_FLAG_TUNNELLING :: u32 where "MMAL_CONNECTION_FLAG_TUNNELLING = 0x1"
definition MMAL_CONNECTION_FLAG_ALLOCATION_ON_INPUT :: u32 where "MMAL_CONNECTION_FLAG_ALLOCATION_ON_INPUT = 0x2"
definition MMAL_CONNECTION_FLAG_ALLOCATION_ON_OUTPUT :: u32 where "MMAL_CONNECTION_FLAG_ALLOCATION_ON_OUTPUT = 0x4"
definition MMAL_CONNECTION_FLAG_KEEP_BUFFER_REQUIREMENTS :: u32 where "MMAL_CONNECTION_FLAG_KEEP_BUFFER_REQUIREMENTS = 0x8"

definition sizeof_MMAL_CONNECTION_PRIVATE_T :: u32 where "sizeof_MMAL_CONNECTION_PRIVATE_T = 72"
definition sizeof_CONNECTION_NAME_FORMAT :: u32 where "sizeof_CONNECTION_NAME_FORMAT = 28"

definition zero_connection :: mmal_connection where
  "zero_connection = \<lparr>conn_callback = None, conn_enabled = False, conn_flags = 0, conn_in = 0, conn_out = 0,
     conn_pool = None, conn_queue = None, conn_time_setup = 0, conn_time_enable = 0, conn_time_disable = 0,
     conn_pool_port = None, conn_refcount = 0, conn_user_data = None\<rparr>"

definition conn_flag :: "addr \<Rightarrow> u32 \<Rightarrow> 'a mmal_store_scheme \<Rightarrow> bool" where
  "conn_flag c flag s \<longleftrightarrow> conn_flags (connections s c) AND flag \<noteq> 0"

section \<open>Disabling\<close>

text \<open>The queue is emptied, each buffer released.\<close>

partial_function (option) drain_connection ::
  "('a mmal_store_scheme) port_env \<Rightarrow> addr \<Rightarrow> 'a mmal_store_scheme \<Rightarrow> 'a mmal_store_scheme option" where
  "drain_connection env c s =
     Option.bind (mmal_queue_get (conn_queue (connections s c)) s) (\<lambda>(buffer, s).
       case buffer of
         None \<Rightarrow> Some s
       | Some b \<Rightarrow> Option.bind (release_buffer env b s) (\<lambda>s. drain_connection env c s))"

definition disable_connected_ports ::
  "('a mmal_store_scheme) port_env \<Rightarrow> addr \<Rightarrow> 'a mmal_store_scheme \<Rightarrow> (mmal_status \<times> 'a mmal_store_scheme) option" where
  "disable_connected_ports env c s =
     (if conn_flag c MMAL_CONNECTION_FLAG_TUNNELLING s then mmal_port_disable env (Some (conn_out (connections s c))) s
      else do {
        (status, s) \<leftarrow> mmal_port_disable env (Some (conn_in (connections s c))) s;
        if status \<noteq> MMAL_SUCCESS then Some (status, s) else do {
        (status, s) \<leftarrow> mmal_port_disable env (Some (conn_out (connections s c))) s;
        if status \<noteq> MMAL_SUCCESS then Some (status, s) else do {
        s \<leftarrow> drain_connection env c s;
        Some (status, s)
        }}
      })"

definition mmal_connection_disable ::
  "('a mmal_store_scheme) port_env \<Rightarrow> addr \<Rightarrow> 'a mmal_store_scheme \<Rightarrow> (mmal_status \<times> 'a mmal_store_scheme) option" where
  "mmal_connection_disable env c s =
     (if \<not> conn_enabled (connections s c) then Some (MMAL_SUCCESS, s)
      else do {
        let (now, s) = vcos_getmicrosecs s;
        let s = upd_conn c (\<lambda>k. k\<lparr>conn_time_disable := uint now\<rparr>) s;
        (status, s) \<leftarrow> disable_connected_ports env c s;
        let (now, s) = vcos_getmicrosecs s;
        let s = upd_conn c (\<lambda>k. k\<lparr>conn_time_disable := uint now - conn_time_disable k\<rparr>) s;
        Some (status, upd_conn c (\<lambda>k. k\<lparr>conn_enabled := status \<noteq> MMAL_SUCCESS\<rparr>) s)
      })"

section \<open>Destruction\<close>

definition mmal_connection_destroy_internal ::
  "('a mmal_store_scheme) port_env \<Rightarrow> addr \<Rightarrow> 'a mmal_store_scheme \<Rightarrow> (mmal_status \<times> 'a mmal_store_scheme) option" where
  "mmal_connection_destroy_internal env c s = do {
     (status, s) \<leftarrow> (if conn_enabled (connections s c) then mmal_connection_disable env c s else Some (MMAL_SUCCESS, s));
     if status \<noteq> MMAL_SUCCESS then Some (status, s) else do {
     s \<leftarrow> (if conn_flag c MMAL_CONNECTION_FLAG_TUNNELLING s
           then map_option snd (mmal_port_disconnect env (Some (conn_out (connections s c))) s) else Some s);
     let s = (case conn_pool (connections s c) of None \<Rightarrow> s | Some pool \<Rightarrow> mmal_pool_destroy (port_pool_env env) (Some pool) s);
     let s = (case conn_queue (connections s c) of None \<Rightarrow> s | Some q \<Rightarrow> mmal_queue_destroy (Some q) s);
     Some (MMAL_SUCCESS, vcos_free (Some c) s)
     }
   }"

definition drop_connection ::
  "('a mmal_store_scheme) port_env \<Rightarrow> addr \<Rightarrow> 'a mmal_store_scheme \<Rightarrow> (mmal_status \<times> 'a mmal_store_scheme) option" where
  "drop_connection env c s =
     (let s = upd_conn c (\<lambda>k. k\<lparr>conn_refcount := s32 (conn_refcount k - 1)\<rparr>) s in
      if conn_refcount (connections s c) \<noteq> 0 then Some (MMAL_SUCCESS, s) else mmal_connection_destroy_internal env c s)"

definition mmal_connection_destroy ::
  "('a mmal_store_scheme) port_env \<Rightarrow> addr \<Rightarrow> 'a mmal_store_scheme \<Rightarrow> (mmal_status \<times> 'a mmal_store_scheme) option" where
  "mmal_connection_destroy env c s = drop_connection env c s"

definition mmal_connection_release ::
  "('a mmal_store_scheme) port_env \<Rightarrow> addr \<Rightarrow> 'a mmal_store_scheme \<Rightarrow> (mmal_status \<times> 'a mmal_store_scheme) option" where
  "mmal_connection_release env c s = drop_connection env c s"

definition mmal_connection_acquire :: "addr \<Rightarrow> 'a mmal_store_scheme \<Rightarrow> 'a mmal_store_scheme" where
  "mmal_connection_acquire c s = upd_conn c (\<lambda>k. k\<lparr>conn_refcount := s32 (conn_refcount k + 1)\<rparr>) s"

section \<open>Creation\<close>

definition copy_and_commit ::
  "('a mmal_store_scheme) port_env \<Rightarrow> addr \<Rightarrow> addr \<Rightarrow> 'a mmal_store_scheme \<Rightarrow> (mmal_status \<times> 'a mmal_store_scheme) option" where
  "copy_and_commit env p format s = do {
     (status, s) \<leftarrow> mmal_format_full_copy (port_format (ports s p)) format s;
     if status = MMAL_SUCCESS then mmal_port_format_commit env (Some p) s else Some (status, s)
   }"

text \<open>The buffer requirements of the input port are passed to a pass-through output port.\<close>

definition propagate_requirements ::
  "('a mmal_store_scheme) port_env \<Rightarrow> addr \<Rightarrow> addr \<Rightarrow> 'a mmal_store_scheme \<Rightarrow> (mmal_status \<times> 'a mmal_store_scheme) option" where
  "propagate_requirements env out inp s =
     (if port_capabilities (ports s out) AND MMAL_PORT_CAPABILITY_PASSTHROUGH \<noteq> 0 then do {
        let pt = ports s inp;
        (status, s) \<leftarrow> mmal_port_parameter_set env (Some out)
          (Some (Param_buffer_requirements (buffer_num_min pt) (buffer_size_min pt) (buffer_alignment_min pt)
                   (buffer_num_recommended pt) (buffer_size_recommended pt))) s;
        Some (if status \<noteq> MMAL_SUCCESS \<and> status \<noteq> MMAL_ENOSYS then status else MMAL_SUCCESS, s)
      } else Some (MMAL_SUCCESS, s))"

definition choose_pool_port :: "addr \<Rightarrow> addr \<Rightarrow> u32 \<Rightarrow> 'a mmal_store_scheme \<Rightarrow> addr" where
  "choose_pool_port out inp flags s =
     (let p = (if port_capabilities (ports s inp) AND MMAL_PORT_CAPABILITY_ALLOCATION \<noteq> 0 then inp else out);
          p = (if flags AND MMAL_CONNECTION_FLAG_ALLOCATION_ON_INPUT \<noteq> 0 then inp else p)
      in if flags AND MMAL_CONNECTION_FLAG_ALLOCATION_ON_OUTPUT \<noteq> 0 then out else p)"

text \<open>An empty pool and a queue; the result says whether both are there.\<close>

definition create_pool_and_queue ::
  "('a mmal_store_scheme) port_env \<Rightarrow> addr \<Rightarrow> addr \<Rightarrow> addr \<Rightarrow> u32 \<Rightarrow> 'a mmal_store_scheme \<Rightarrow>
   (bool \<times> 'a mmal_store_scheme) option" where
  "create_pool_and_queue env c out inp flags s = do {
     let pool_port = choose_pool_port out inp flags s;
     let s = upd_conn c (\<lambda>k. k\<lparr>conn_pool_port := Some pool_port\<rparr>) s;
     (pool, s) \<leftarrow> mmal_port_pool_create env (Some pool_port) 0 0 s;
     let s = upd_conn c (\<lambda>k. k\<lparr>conn_pool := pool\<rparr>) s;
     (case pool of
        None \<Rightarrow> Some (False, s)
      | Some pl \<Rightarrow>
          let s = mmal_pool_callback_set pl (Some Mmal_connection_bh_release_cb) (Some c) s;
              (queue, s) = mmal_queue_create s;
              s = upd_conn c (\<lambda>k. k\<lparr>conn_queue := queue\<rparr>) s
          in Some (queue \<noteq> None, s))
   }"

definition connection_failed ::
  "('a mmal_store_scheme) port_env \<Rightarrow> addr \<Rightarrow> mmal_status \<Rightarrow> 'a mmal_store_scheme \<Rightarrow>
   (mmal_status \<times> addr option \<times> 'a mmal_store_scheme) option" where
  "connection_failed env c status s = do {
     (_, s) \<leftarrow> mmal_connection_destroy_internal env c s;
     Some (if status = MMAL_SUCCESS then MMAL_ENOMEM else status, None, s)
   }"

definition connection_done ::
  "addr \<Rightarrow> addr \<Rightarrow> addr \<Rightarrow> mmal_status \<Rightarrow> 'a mmal_store_scheme \<Rightarrow> mmal_status \<times> addr option \<times> 'a mmal_store_scheme" where
  "connection_done c out inp status s =
     (let s = upd_port out (\<lambda>pt. pt\<lparr>port_userdata := Some c\<rparr>) s;
          s = upd_port inp (\<lambda>pt. pt\<lparr>port_userdata := Some c\<rparr>) s;
          (now, s) = vcos_getmicrosecs s
      in (status, Some c, upd_conn c (\<lambda>k. k\<lparr>conn_time_setup := uint now - conn_time_setup k\<rparr>) s))"

text \<open>\<open>None\<close> in the second place of the result: \<open>*cx\<close> is not written.\<close>

definition mmal_connection_create ::
  "('a mmal_store_scheme) port_env \<Rightarrow> bool \<Rightarrow> addr \<Rightarrow> addr \<Rightarrow> u32 \<Rightarrow> 'a mmal_store_scheme \<Rightarrow>
   (mmal_status \<times> addr option \<times> 'a mmal_store_scheme) option" where
  "mmal_connection_create env cx out inp flags s =
     (if \<not> cx then Some (MMAL_EINVAL, None, s)
      else
        let name_size = word_of_nat (length (comp_name (components s (port_component (ports s out))))) +
              word_of_nat (length (comp_name (components s (port_component (ports s inp))))) + sizeof_CONNECTION_NAME_FORMAT
        in case vcos_malloc (sizeof_MMAL_CONNECTION_PRIVATE_T + name_size) s of
             (None, s) \<Rightarrow> Some (MMAL_ENOMEM, None, s)
           | (Some c, s) \<Rightarrow> do {
               let s = upd_conn c (\<lambda>_. zero_connection\<lparr>conn_refcount := 1, conn_out := out, conn_in := inp, conn_flags := flags\<rparr>) s;
               let (now, s) = vcos_getmicrosecs s;
               let s = upd_conn c (\<lambda>k. k\<lparr>conn_time_setup := uint now\<rparr>) s;
               (status, s) \<leftarrow> copy_and_commit env inp (port_format (ports s out)) s;
               if status \<noteq> MMAL_SUCCESS then connection_failed env c status s else do {
               (status, s) \<leftarrow> propagate_requirements env out inp s;
               if status \<noteq> MMAL_SUCCESS then connection_failed env c status s
               else if conn_flag c MMAL_CONNECTION_FLAG_TUNNELLING s then do {
                 (status, s) \<leftarrow> mmal_port_connect env (Some out) (Some inp) s;
                 Some (connection_done c out inp status s)
               } else do {
                 (made, s) \<leftarrow> create_pool_and_queue env c out inp flags s;
                 if \<not> made then connection_failed env c status s else Some (connection_done c out inp status s)
               }
               }
             })"

section \<open>Enabling\<close>

definition use_recommended :: "mmal_port \<Rightarrow> mmal_port" where
  "use_recommended pt =
     (let pt = (if buffer_num_recommended pt \<noteq> 0 then pt\<lparr>buffer_num := buffer_num_recommended pt\<rparr> else pt)
      in if buffer_size_recommended pt \<noteq> 0 then pt\<lparr>buffer_size := buffer_size_recommended pt\<rparr> else pt)"

text \<open>The buffers of the pool go in turn to the output and the input clock port; what sending returns is ignored.\<close>

partial_function (option) populate_connected_clocks ::
  "('a mmal_store_scheme) port_env \<Rightarrow> addr \<Rightarrow> addr \<Rightarrow> addr option \<Rightarrow> 'a mmal_store_scheme \<Rightarrow> 'a mmal_store_scheme option" where
  "populate_connected_clocks env p q queue s =
     Option.bind (mmal_queue_get queue s) (\<lambda>(buffer, s).
       case buffer of
         None \<Rightarrow> Some s
       | Some b \<Rightarrow>
           Option.bind (mmal_port_send_buffer env (Some p) b s) (\<lambda>(_, s). populate_connected_clocks env q p queue s))"

definition enable_pooled_ports ::
  "('a mmal_store_scheme) port_env \<Rightarrow> addr \<Rightarrow> addr \<Rightarrow> addr \<Rightarrow> 'a mmal_store_scheme \<Rightarrow> (mmal_status \<times> 'a mmal_store_scheme) option" where
  "enable_pooled_ports env c out inp s = do {
     let n = max (buffer_num (ports s out)) (buffer_num (ports s inp));
     let sz = max (buffer_size (ports s out)) (buffer_size (ports s inp));
     let s = upd_port out (set_buffers n sz) (upd_port inp (set_buffers n sz) s);
     let sz = (if port_capabilities (ports s out) AND MMAL_PORT_CAPABILITY_PASSTHROUGH \<noteq> 0 then 0 else sz);
     (status, s) \<leftarrow> mmal_pool_resize (port_pool_env env) (conn_pool (connections s c)) n sz s;
     if status \<noteq> MMAL_SUCCESS then Some (status, s) else do {
     (status, s) \<leftarrow> mmal_port_enable env (Some out) (Some Mmal_connection_bh_out_cb) s;
     if status \<noteq> MMAL_SUCCESS then Some (status, s) else do {
     (status, s) \<leftarrow> mmal_port_enable env (Some inp) (Some Mmal_connection_bh_in_cb) s;
     if status \<noteq> MMAL_SUCCESS then do {
       (_, s) \<leftarrow> mmal_port_disable env (Some out) s;
       Some (status, s)
     } else if port_type (ports s out) = MMAL_PORT_TYPE_CLOCK \<and> port_type (ports s inp) = MMAL_PORT_TYPE_CLOCK then do {
       pool \<leftarrow> conn_pool (connections s c);
       s \<leftarrow> populate_connected_clocks env out inp (pool_queue (pools s pool)) s;
       Some (status, s)
     } else Some (status, s)
     }}
   }"

definition mmal_connection_enable ::
  "('a mmal_store_scheme) port_env \<Rightarrow> addr \<Rightarrow> 'a mmal_store_scheme \<Rightarrow> (mmal_status \<times> 'a mmal_store_scheme) option" where
  "mmal_connection_enable env c s =
     (let inp = conn_in (connections s c); out = conn_out (connections s c) in
      if conn_enabled (connections s c) then Some (MMAL_SUCCESS, s)
      else do {
        let (now, s) = vcos_getmicrosecs s;
        let s = upd_conn c (\<lambda>k. k\<lparr>conn_time_enable := uint now\<rparr>) s;
        let s = (if \<not> conn_flag c MMAL_CONNECTION_FLAG_KEEP_BUFFER_REQUIREMENTS s
                 then upd_port inp use_recommended (upd_port out use_recommended s) else s);
        (status, s) \<leftarrow> (if conn_flag c MMAL_CONNECTION_FLAG_TUNNELLING s then mmal_port_enable env (Some out) None s
                       else enable_pooled_ports env c out inp s);
        let (now, s) = vcos_getmicrosecs s;
        let s = upd_conn c (\<lambda>k. k\<lparr>conn_time_enable := uint now - conn_time_enable k\<rparr>) s;
        Some (status, upd_conn c (\<lambda>k. k\<lparr>conn_enabled := status = MMAL_SUCCESS\<rparr>) s)
      })"

section \<open>Changing the format\<close>

definition mmal_connection_reconfigure ::
  "('a mmal_store_scheme) port_env \<Rightarrow> addr \<Rightarrow> addr \<Rightarrow> 'a mmal_store_scheme \<Rightarrow> (mmal_status \<times> 'a mmal_store_scheme) option" where
  "mmal_connection_reconfigure env c format s = do {
     (status, s) \<leftarrow> mmal_connection_disable env c s;
     if status \<noteq> MMAL_SUCCESS then Some (status, s) else do {
     (status, s) \<leftarrow> copy_and_commit env (conn_out (connections s c)) format s;
     if status \<noteq> MMAL_SUCCESS then Some (status, s) else do {
     (status, s) \<leftarrow> copy_and_commit env (conn_in (connections s c)) (port_format (ports s (conn_out (connections s c)))) s;
     if status \<noteq> MMAL_SUCCESS then Some (status, s) else mmal_connection_enable env c s
     }}
   }"

definition mmal_connection_event_format_changed ::
  "('a mmal_store_scheme) port_env \<Rightarrow> addr \<Rightarrow> addr \<Rightarrow> 'a mmal_store_scheme \<Rightarrow> (mmal_status \<times> 'a mmal_store_scheme) option" where
  "mmal_connection_event_format_changed env c b s =
     (if bh_cmd (bufs s b) \<noteq> MMAL_EVENT_FORMAT_CHANGED then Some (MMAL_EINVAL, s)
      else case mmal_event_format_changed_get (Some b) s of
        (None, s) \<Rightarrow> Some (MMAL_EINVAL, s)
      | (Some ev, s) \<Rightarrow> do {
          let inp = conn_in (connections s c);
          let out = conn_out (connections s c);
          format \<leftarrow> ev_format (event_at ev s);
          if port_capabilities (ports s inp) AND MMAL_PORT_CAPABILITY_SUPPORTS_EVENT_FORMAT_CHANGE \<noteq> 0 \<and>
             ev_buffer_size_min (event_at ev s) \<le> buffer_size (ports s out) \<and>
             ev_buffer_num_min (event_at ev s) \<le> buffer_num (ports s out)
          then do {
            (status, s) \<leftarrow> copy_and_commit env out format s;
            if status \<noteq> MMAL_SUCCESS then Some (status, s) else do {
            let s = mmal_buffer_header_acquire b s;
            (status, s) \<leftarrow> mmal_port_send_buffer env (Some inp) b s;
            if status \<noteq> MMAL_SUCCESS then do { s \<leftarrow> release_buffer env b s; Some (status, s) }
            else Some (MMAL_SUCCESS, s)
            }
          } else mmal_connection_reconfigure env c format s
        })"

end
