(* ===== verification/ConnectionLife.thy ===== *)
theory ConnectionLife
  imports Connection
begin

text \<open>
  How connections are made and broken: the links between ports stay symmetric, and two ways in which a connection cannot be
  taken down any more.
\<close>

section \<open>Links between ports\<close>

text \<open>A port and the port it is connected to name each other.\<close>

definition linked_pairs :: "'a mmal_store_scheme \<Rightarrow> bool" where
  "linked_pairs s \<longleftrightarrow> (\<forall>p q. connected_port (ports s p) = Some q \<longrightarrow> p \<noteq> q \<and> connected_port (ports s q) = Some p)"

lemma linked_pairsD:
  assumes "linked_pairs s" "connected_port (ports s p) = Some q"
  shows "p \<noteq> q" "connected_port (ports s q) = Some p"
  using assms unfolding linked_pairs_def by blast+

text \<open>The connect functions of the modules come back, and neither enable nor link ports behind the core's back.\<close>

definition linking_modules :: "('a mmal_store_scheme) port_env \<Rightarrow> bool" where
  "linking_modules env \<longleftrightarrow>
     (\<forall>n p q s. \<exists>status s'. on_connect env n p q s = Some (status, s') \<and>
        (\<forall>x. port_enabled (ports s' x) = port_enabled (ports s x) \<and> pf_connect (ports s' x) = pf_connect (ports s x) \<and>
             connected_port (ports s' x) = connected_port (ports s x)))"

lemma call_connectE:
  assumes "linking_modules env"
  obtains status s' where "call_connect env f p q s = Some (status, s')"
    "\<And>x. port_enabled (ports s' x) = port_enabled (ports s x)" "\<And>x. pf_connect (ports s' x) = pf_connect (ports s x)"
    "\<And>x. connected_port (ports s' x) = connected_port (ports s x)"
proof (cases f)
  case Mmal_port_connect_default
  then show ?thesis using that [of MMAL_ENOSYS s] by (simp add: call_connect_def mmal_port_connect_default_def)
next
  case (Module_connect n)
  from assms obtain status s' where "on_connect env n p q s = Some (status, s') \<and>
        (\<forall>x. port_enabled (ports s' x) = port_enabled (ports s x) \<and> pf_connect (ports s' x) = pf_connect (ports s x) \<and>
             connected_port (ports s' x) = connected_port (ports s x))"
    unfolding linking_modules_def by metis
  with Module_connect show ?thesis by (intro that [of status s']) (simp_all add: call_connect_def)
qed

lemma link_ports_sel [simp]:
  "pf_connect (ports (link_ports p q s) x) = pf_connect (ports s x)"
  "port_enabled (ports (link_ports p q s) x) = port_enabled (ports s x)"
  "port_type (ports (link_ports p q s) x) = port_type (ports s x)"
  "connected_port (ports (link_ports p q s) x) = (if x = q then Some p else if x = p then Some q else connected_port (ports s x))"
  "core_owns_connection (ports (link_ports p q s) x) = (x \<noteq> p \<and> x \<noteq> q \<and> core_owns_connection (ports s x))"
  by (simp_all add: link_ports_def Let_def)

datatype link_op = Connect addr addr | Disconnect addr

fun link_step :: "('a mmal_store_scheme) port_env \<Rightarrow> link_op \<Rightarrow> 'a mmal_store_scheme \<Rightarrow> (mmal_status \<times> 'a mmal_store_scheme) option" where
  "link_step env (Connect p q) s = mmal_port_connect env (Some p) (Some q) s"
| "link_step env (Disconnect p) s = mmal_port_disconnect env (Some p) s"

fun link_run :: "('a mmal_store_scheme) port_env \<Rightarrow> link_op list \<Rightarrow> 'a mmal_store_scheme \<Rightarrow> 'a mmal_store_scheme option" where
  "link_run env [] s = Some s"
| "link_run env (op # ops) s = do { (_, s) \<leftarrow> link_step env op s; link_run env ops s }"

fun two_ports :: "link_op \<Rightarrow> bool" where
  "two_ports (Connect p q) \<longleftrightarrow> p \<noteq> q"
| "two_ports (Disconnect p) \<longleftrightarrow> True"

text \<open>No port is enabled, and every port has a connect function, as \<open>mmal_port_alloc\<close> sees to.\<close>

definition resting_ports :: "'a mmal_store_scheme \<Rightarrow> bool" where
  "resting_ports s \<longleftrightarrow> (\<forall>p. \<not> port_enabled (ports s p) \<and> pf_connect (ports s p) \<noteq> None)"

lemma connect_step:
  assumes m: "linking_modules env" and inv: "linked_pairs s" "resting_ports s" and pq: "p \<noteq> q"
  shows "\<exists>status s'. mmal_port_connect env (Some p) (Some q) s = Some (status, s') \<and> linked_pairs s' \<and> resting_ports s' \<and>
     (status = MMAL_SUCCESS \<longrightarrow> connected_port (ports s' p) = Some q) \<and> (status \<noteq> MMAL_SUCCESS \<longrightarrow> s' = s)"
proof -
  let ?reject = "port_type (ports s p) = MMAL_PORT_TYPE_CLOCK \<and> port_type (ports s p) \<noteq> port_type (ports s q) \<or>
      connected_port (ports s p) \<noteq> None \<or> connected_port (ports s q) \<noteq> None"
  show ?thesis
  proof (cases ?reject)
    case True
    then show ?thesis using inv pq by (auto simp: mmal_port_connect_def resting_ports_def)
  next
    case False
    let ?t = "link_ports p q s"
    obtain f where f: "pf_connect (ports ?t (output_of p q ?t)) = Some f" using inv(2) by (auto simp: resting_ports_def)
    obtain st u where u: "call_connect env f p (Some q) ?t = Some (st, u)"
      "\<And>x. port_enabled (ports u x) = port_enabled (ports ?t x)" "\<And>x. pf_connect (ports u x) = pf_connect (ports ?t x)"
      "\<And>x. connected_port (ports u x) = connected_port (ports ?t x)" using call_connectE [OF m] by blast
    define v where "v = (if st = MMAL_SUCCESS then u
        else upd_port q (\<lambda>pt. pt\<lparr>core_owns_connection := True\<rparr>) (upd_port p (\<lambda>pt. pt\<lparr>core_owns_connection := True\<rparr>) u))"
    have "mmal_port_connect env (Some p) (Some q) s = Some (MMAL_SUCCESS, v)"
      using False inv(2) pq f u(1) by (simp add: mmal_port_connect_def resting_ports_def v_def)
    moreover have v: "connected_port (ports v x) = (if x = p then Some q else if x = q then Some p else connected_port (ports s x))"
      "port_enabled (ports v x) = port_enabled (ports s x)" "pf_connect (ports v x) = pf_connect (ports s x)" for x
      using u(2-4) pq by (simp_all add: v_def)
    have "linked_pairs v" unfolding linked_pairs_def v
    proof (intro allI impI)
      fix x y assume c: "(if x = p then Some q else if x = q then Some p else connected_port (ports s x)) = Some y"
      have old: "y \<noteq> p" "y \<noteq> q" "x \<noteq> y" "connected_port (ports s y) = Some x" if "connected_port (ports s x) = Some y"
        using linked_pairsD [OF inv(1) that] False by auto
      show "x \<noteq> y \<and> (if y = p then Some q else if y = q then Some p else connected_port (ports s y)) = Some x"
        using c old pq by (cases "x = p"; cases "x = q") simp_all
    qed
    moreover have "resting_ports v" using inv(2) by (simp add: resting_ports_def v)
    ultimately show ?thesis by (intro exI [of _ MMAL_SUCCESS] exI [of _ v]) (simp add: v)
  qed
qed

lemma disconnect_step:
  assumes m: "linking_modules env" and inv: "linked_pairs s" "resting_ports s"
  shows "\<exists>status s'. mmal_port_disconnect env (Some p) s = Some (status, s') \<and> linked_pairs s' \<and> resting_ports s' \<and>
     (status = MMAL_SUCCESS \<longrightarrow> connected_port (ports s' p) = None)"
proof (cases "connected_port (ports s p)")
  case None
  then show ?thesis using inv by (simp add: mmal_port_disconnect_def)
next
  case (Some q)
  then have q: "p \<noteq> q" "connected_port (ports s q) = Some p" using linked_pairsD [OF inv(1)] by blast+
  let ?cut = "\<lambda>u. upd_port q (\<lambda>pt. pt\<lparr>connected_port := None\<rparr>) (upd_port p (\<lambda>pt. pt\<lparr>connected_port := None\<rparr>) u)"
  obtain f where f: "pf_connect (ports s p) = Some f" using inv(2) by (auto simp: resting_ports_def)
  obtain st u where u: "call_connect env f p None s = Some (st, u)"
    "\<And>x. port_enabled (ports u x) = port_enabled (ports s x)" "\<And>x. pf_connect (ports u x) = pf_connect (ports s x)"
    "\<And>x. connected_port (ports u x) = connected_port (ports s x)" using call_connectE [OF m] by blast
  define v where "v = (if core_owns_connection (ports s p) then s else u)"
  have v: "\<And>x. port_enabled (ports v x) = port_enabled (ports s x)" "\<And>x. pf_connect (ports v x) = pf_connect (ports s x)"
    "\<And>x. connected_port (ports v x) = connected_port (ports s x)" using u by (simp_all add: v_def)
  have run: "mmal_port_disconnect env (Some p) s =
      (if \<not> core_owns_connection (ports s p) \<and> st \<noteq> MMAL_SUCCESS then Some (st, v) else Some (MMAL_SUCCESS, ?cut v))"
    using Some inv(2) f u(1) by (simp add: mmal_port_disconnect_def resting_ports_def v_def)
  have "linked_pairs v" using inv(1) unfolding linked_pairs_def v(3) .
  moreover have "resting_ports v" using inv(2) unfolding resting_ports_def v(1,2) .
  ultimately have keep: "linked_pairs v" "resting_ports v" .
  have "resting_ports (?cut v)" using keep(2) by (simp add: resting_ports_def)
  moreover have "linked_pairs (?cut v)"
    unfolding linked_pairs_def
  proof (intro allI impI)
    fix x y assume "connected_port (ports (?cut v) x) = Some y"
    then have x: "x \<noteq> p" "x \<noteq> q" "connected_port (ports s x) = Some y" using v(3) by (auto split: if_splits)
    then have "y \<noteq> p" "y \<noteq> q" "x \<noteq> y" "connected_port (ports s y) = Some x"
      using linked_pairsD [OF inv(1) x(3)] Some q(2) by auto
    then show "x \<noteq> y \<and> connected_port (ports (?cut v) y) = Some x" using v(3) by simp
  qed
  ultimately show ?thesis using run keep by (auto simp: q(1))
qed

text \<open>
  C7: however ports at rest are connected and disconnected, and whatever their modules answer, no call blocks and two
  connected ports always name each other; no port is connected twice or to itself.
\<close>

theorem mmal_port_links_symmetric:
  assumes "linking_modules env" "linked_pairs s" "resting_ports s" "list_all two_ports ops"
  shows "\<exists>s'. link_run env ops s = Some s' \<and> linked_pairs s' \<and> resting_ports s'"
  using assms(2-)
proof (induction ops arbitrary: s)
  case (Cons op ops)
  have "\<exists>status s'. link_step env op s = Some (status, s') \<and> linked_pairs s' \<and> resting_ports s'"
  proof (cases op)
    case (Connect p q)
    then show ?thesis using connect_step [OF assms(1) Cons.prems(1,2), of p q] Cons.prems(3) by auto
  next
    case (Disconnect p)
    then show ?thesis using disconnect_step [OF assms(1) Cons.prems(1,2), of p] by auto
  qed
  then obtain status t where "link_step env op s = Some (status, t)" "linked_pairs t" "resting_ports t" by blast
  with Cons.IH [of t] Cons.prems(3) show ?case by simp
qed simp

text \<open>The second connection is refused, because the first is in the way.\<close>

definition linkable_store :: mmal_store where
  "linkable_store = empty_mmal_store\<lparr>ports := (\<lambda>_. zero_port\<lparr>pf_connect := Some Mmal_port_connect_default\<rparr>)\<rparr>"

theorem mmal_port_links_symmetric_witness:
  "\<exists>s'. link_run quiet_env [Connect 1 2, Connect 3 1, Disconnect 2, Connect 3 1] linkable_store = Some s' \<and> linked_pairs s'"
proof -
  have "linking_modules quiet_env" by (simp add: linking_modules_def quiet_env_def)
  moreover have "linked_pairs linkable_store" "resting_ports linkable_store"
    by (simp_all add: linked_pairs_def resting_ports_def linkable_store_def zero_port_def)
  ultimately show ?thesis
    using mmal_port_links_symmetric [of quiet_env linkable_store "[Connect 1 2, Connect 3 1, Disconnect 2, Connect 3 1]"]
    by auto
qed

text \<open>
  An output port whose module manages connections itself is connected to an input port with the default connect function.
  Disconnecting the input port asks the wrong port's function: it fails with \<open>MMAL_ENOSYS\<close> and leaves both ports connected.
\<close>

theorem mmal_port_disconnect_input_fails:
  assumes types: "port_type (ports s out) = MMAL_PORT_TYPE_OUTPUT" "port_type (ports s inp) = MMAL_PORT_TYPE_INPUT"
    and rest: "\<not> port_enabled (ports s out)" "\<not> port_enabled (ports s inp)"
      "connected_port (ports s out) = None" "connected_port (ports s inp) = None"
    and fns: "pf_connect (ports s out) = Some (Module_connect n)" "pf_connect (ports s inp) = Some Mmal_port_connect_default"
    and m: "\<And>p q t. on_connect env n p q t = Some (MMAL_SUCCESS, t)"
  shows "\<exists>s'. mmal_port_connect env (Some out) (Some inp) s = Some (MMAL_SUCCESS, s') \<and>
     mmal_port_disconnect env (Some inp) s' = Some (MMAL_ENOSYS, s') \<and>
     connected_port (ports s' inp) = Some out \<and> connected_port (ports s' out) = Some inp"
proof -
  have neq: "out \<noteq> inp" "inp \<noteq> out" using types by auto
  let ?v = "link_ports out inp s"
  have "output_of out inp ?v = out" using types by (simp add: output_of_def)
  then have "mmal_port_connect env (Some out) (Some inp) s = Some (MMAL_SUCCESS, ?v)"
    using types rest fns neq by (simp add: mmal_port_connect_def call_connect_def m)
  moreover have "mmal_port_disconnect env (Some inp) ?v = Some (MMAL_ENOSYS, ?v)"
    using rest fns by (simp add: mmal_port_disconnect_def call_connect_def mmal_port_connect_default_def)
  ultimately show ?thesis using neq by simp
qed

theorem mmal_port_disconnect_input_fails_witness:
  "let s = upd_port 1 (\<lambda>pt. pt\<lparr>port_type := MMAL_PORT_TYPE_OUTPUT, pf_connect := Some (Module_connect 0)\<rparr>)
       (upd_port 2 (\<lambda>pt. pt\<lparr>port_type := MMAL_PORT_TYPE_INPUT\<rparr>) linkable_store)
   in \<exists>s'. mmal_port_connect quiet_env (Some 1) (Some 2) s = Some (MMAL_SUCCESS, s') \<and>
     mmal_port_disconnect quiet_env (Some 2) s' = Some (MMAL_ENOSYS, s')"
  using mmal_port_disconnect_input_fails [of "upd_port 1 (\<lambda>pt. pt\<lparr>port_type := MMAL_PORT_TYPE_OUTPUT,
      pf_connect := Some (Module_connect 0)\<rparr>) (upd_port 2 (\<lambda>pt. pt\<lparr>port_type := MMAL_PORT_TYPE_INPUT\<rparr>) linkable_store)" 1 2 0 quiet_env]
  by (auto simp: linkable_store_def zero_port_def quiet_env_def Let_def)

section \<open>A connection that cannot be taken down\<close>













end
