(* ===== verification/CircularBuffer.thy ===== *)
theory CircularBuffer
  imports Prelude "HOL-Library.Multiset"
begin

text \<open>
  The buffer between the camera and the worker threads of the detector, \<^verbatim>\<open>src/RC_CircularBuffer.cpp\<close>: a ring of
  elements, each with a time stamp and a mark that says whether it was handed out already.  The mutex makes every method
  atomic.  The result of \<^verbatim>\<open>time (NULL)\<close> is an argument of the operations that call it.
\<close>

record 'a cbElement =
  element :: 'a
  processed :: bool
  tstamp :: int

record 'a CircularBuffer =
  cBuffer :: "'a cbElement list"
  nextIndex :: u32
  maxElements :: u32
  availableElements :: u32
  skippedElements :: u32
  maxAge :: int

section \<open>The methods\<close>

text \<open>The constructor of the elements leaves \<open>blank\<close> in them.  Counting \<open>i\<close> down from the size, \<open>i % maxElements\<close> reaches all of them.\<close>

definition create_buffer :: "'a \<Rightarrow> u32 \<Rightarrow> int \<Rightarrow> 'a CircularBuffer" where
  "create_buffer blank num tm =
     \<lparr>cBuffer = replicate (unat num) \<lparr>element = blank, processed = False, tstamp = tm\<rparr>,
      nextIndex = 0, maxElements = num, availableElements = 0, skippedElements = 0, maxAge = tm\<rparr>"

lemma unat_suc_less: "i < limit \<Longrightarrow> unat (i + 1) = Suc (unat i)" for i limit :: u32
  using unat_u32_less [of limit] by (simp add: word_less_nat_alt unat_word_ariths)

lemma word_loop_decreases: "i < limit \<Longrightarrow> unat (limit - (i + 1)) < unat (limit - i)" for i limit :: u32
  using unat_suc_less [of i limit] by (simp add: unat_sub word_le_nat_alt word_less_nat_alt)

text \<open>The loop of \<open>addElement\<close> over the elements behind the next index.\<close>

function find_victim :: "'a cbElement list \<Rightarrow> u32 \<Rightarrow> u32 \<Rightarrow> u32 \<Rightarrow> int \<Rightarrow> u32 \<Rightarrow> u32" where
  "find_victim es num i limit oldest newIndex =
     (if i < limit then
        let index = i mod num; e = es ! unat index in
        if \<not> processed e \<and> oldest < tstamp e then find_victim es num (i + 1) limit (tstamp e) index
        else find_victim es num (i + 1) limit oldest newIndex
      else newIndex)"
  by pat_completeness auto
termination by (relation "measure (\<lambda>(_, _, i, limit, _, _). unat (limit - i))") (simp_all add: word_loop_decreases)

declare find_victim.simps [simp del]

text \<open>A buffer without elements has no place to write to.\<close>

definition addElement :: "'a \<Rightarrow> int \<Rightarrow> 'a CircularBuffer \<Rightarrow> (bool \<times> 'a CircularBuffer) option" where
  "addElement elem now b =
     (if maxElements b = 0 then None
      else
        let (ret, b) =
              (if \<not> processed (cBuffer b ! unat (nextIndex b)) then
                 let newIndex = find_victim (cBuffer b) (maxElements b) (nextIndex b + 1) (nextIndex b + maxElements b)
                       (tstamp (cBuffer b ! unat (nextIndex b))) (nextIndex b);
                     b = (if newIndex \<noteq> nextIndex b then b\<lparr>skippedElements := skippedElements b + 1\<rparr> else b)
                 in (False, b\<lparr>nextIndex := newIndex\<rparr>)
               else (True, b));
            b = b\<lparr>cBuffer := (cBuffer b)[unat (nextIndex b) := \<lparr>element = elem, processed = False, tstamp = now\<rparr>]\<rparr>;
            b = b\<lparr>nextIndex := (nextIndex b + 1) mod maxElements b\<rparr>;
            b = (if availableElements b < maxElements b then b\<lparr>availableElements := availableElements b + 1\<rparr> else b)
        in Some (ret, b))"

text \<open>The loop of \<open>getElement\<close>: the first index whose element is neither handed out nor too old.\<close>

function find_fresh :: "'a cbElement list \<Rightarrow> u32 \<Rightarrow> int \<Rightarrow> u32 \<Rightarrow> u32 \<Rightarrow> u32 option" where
  "find_fresh es num age i limit =
     (if i < limit then
        let index = i mod num; e = es ! unat index in
        if \<not> processed e \<and> age \<le> tstamp e then Some index else find_fresh es num age (i + 1) limit
      else None)"
  by pat_completeness auto
termination by (relation "measure (\<lambda>(_, _, _, i, limit). unat (limit - i))") (simp_all add: word_loop_decreases)

declare find_fresh.simps [simp del]

definition getElement :: "'a CircularBuffer \<Rightarrow> 'a option \<times> 'a CircularBuffer" where
  "getElement b =
     (if availableElements b = 0 then (None, b)
      else case find_fresh (cBuffer b) (maxElements b) (maxAge b) (nextIndex b) (nextIndex b + maxElements b) of
             None \<Rightarrow> (None, b)
           | Some index \<Rightarrow>
               let e = cBuffer b ! unat index in
               (Some (element e),
                b\<lparr>cBuffer := (cBuffer b)[unat index := e\<lparr>processed := True\<rparr>],
                  availableElements := availableElements b - 1, maxAge := tstamp e\<rparr>))"

definition processed_marks :: "'a CircularBuffer \<Rightarrow> string" where
  "processed_marks b = map (\<lambda>i. if processed (cBuffer b ! i) then CHR ''*'' else CHR ''-'') [0..<unat (maxElements b)]"

text \<open>\<open>rc::Camera::grabCameraImage\<close>: \<open>grab\<close> is what the camera delivers, if it delivers.\<close>

definition grabCameraImage :: "'a option \<Rightarrow> int \<Rightarrow> 'a CircularBuffer \<Rightarrow> (bool \<times> 'a CircularBuffer) option" where
  "grabCameraImage grab now b = (case grab of None \<Rightarrow> Some (False, b) | Some img \<Rightarrow> addElement img now b)"

section \<open>The loops\<close>

text \<open>A buffer that was created with at least one element, small enough for the sums of two indices not to wrap.\<close>

definition buffer_ok :: "'a CircularBuffer \<Rightarrow> bool" where
  "buffer_ok b \<longleftrightarrow> 0 < unat (maxElements b) \<and> unat (maxElements b) < 2 ^ 31 \<and> nextIndex b < maxElements b \<and>
     length (cBuffer b) = unat (maxElements b) \<and> availableElements b \<le> maxElements b"

lemma unat_mod_of_nat: "k < 2 ^ 32 \<Longrightarrow> unat (word_of_nat k mod (m :: u32)) = k mod unat m"
  by (simp add: unat_mod_distrib unat_of_nat take_bit_nat_eq_self)

lemma unat_sum_next:
  assumes "buffer_ok b"
  shows "unat (nextIndex b + maxElements b) = unat (nextIndex b) + unat (maxElements b)"
    "unat (nextIndex b + 1) = unat (nextIndex b) + 1"
  using assms by (auto simp: buffer_ok_def word_less_nat_alt unat_word_ariths intro!: mod_less)

lemma find_fresh_eq:
  "find_fresh es m age i limit =
     find (\<lambda>ix. \<not> processed (es ! unat ix) \<and> age \<le> tstamp (es ! unat ix)) (map (\<lambda>k. word_of_nat k mod m) [unat i..<unat limit])"
proof (induction es m age i limit rule: find_fresh.induct)
  case (1 es m age i limit)
  show ?case
  proof (cases "i < limit")
    case True
    then have "unat (i + 1) = Suc (unat i)" by (rule unat_suc_less)
    moreover have "[unat i..<unat limit] = unat i # [Suc (unat i)..<unat limit]"
      using True by (simp add: upt_conv_Cons word_less_nat_alt)
    ultimately show ?thesis using 1 True by (simp add: find_fresh.simps [of es m age i limit] Let_def)
  next
    case False
    then show ?thesis by (simp add: find_fresh.simps [of es m age i limit] word_less_nat_alt)
  qed
qed

text \<open>The victim is the newest of the elements that were not handed out.\<close>

lemma find_victim_newest:
  assumes "\<not> processed (es ! unat new)" "oldest = tstamp (es ! unat new)"
  shows "\<not> processed (es ! unat (find_victim es m i limit oldest new)) \<and>
     oldest \<le> tstamp (es ! unat (find_victim es m i limit oldest new)) \<and>
     (\<forall>k\<in>{unat i..<unat limit}. \<not> processed (es ! unat (word_of_nat k mod m)) \<longrightarrow>
        tstamp (es ! unat (word_of_nat k mod m)) \<le> tstamp (es ! unat (find_victim es m i limit oldest new))) \<and>
     (find_victim es m i limit oldest new = new \<or> (\<exists>k. find_victim es m i limit oldest new = k mod m))"
  using assms
proof (induction es m i limit oldest new rule: find_victim.induct)
  case (1 es m i limit oldest new)
  show ?case
  proof (cases "i < limit")
    case True
    then have range: "{unat i..<unat limit} = insert (unat i) {unat (i + 1)..<unat limit}"
      unfolding unat_suc_less [OF True] by (auto simp: word_less_nat_alt)
    show ?thesis
    proof (cases "\<not> processed (es ! unat (i mod m)) \<and> oldest < tstamp (es ! unat (i mod m))")
      case newer: True
      then have "find_victim es m i limit oldest new = find_victim es m (i + 1) limit (tstamp (es ! unat (i mod m))) (i mod m)"
        using True by (simp add: find_victim.simps [of es m i limit] Let_def)
      then show ?thesis using newer 1(1) [OF True refl refl newer] unfolding range by auto
    next
      case older: False
      then have "find_victim es m i limit oldest new = find_victim es m (i + 1) limit oldest new"
        using True by (auto simp: find_victim.simps [of es m i limit] Let_def)
      then show ?thesis using older 1(2) [OF True refl refl older 1(3,4)] unfolding range by auto
    qed
  next
    case False
    then show ?thesis using 1(3,4) by (simp add: find_victim.simps [of es m i limit] word_less_nat_alt)
  qed
qed

text \<open>From the next index on, \<open>maxElements\<close> steps reach every element.\<close>

lemma ring_covers:
  assumes "buffer_ok b" "j < unat (maxElements b)"
  shows "\<exists>k\<in>{unat (nextIndex b)..<unat (nextIndex b) + unat (maxElements b)}. unat (word_of_nat k mod maxElements b) = j"
proof (cases "unat (nextIndex b) \<le> j")
  case True
  then show ?thesis using assms by (intro bexI [of _ j]) (auto simp: unat_mod_of_nat buffer_ok_def)
next
  case False
  have "unat (word_of_nat (j + unat (maxElements b)) mod maxElements b) = j"
    using assms by (subst unat_mod_of_nat) (auto simp: buffer_ok_def)
  then show ?thesis using assms False
    by (intro bexI [of _ "j + unat (maxElements b)"]) (auto simp: buffer_ok_def word_less_nat_alt)
qed

lemma mod_index: "buffer_ok b \<Longrightarrow> unat (k mod maxElements b) < length (cBuffer b)"
  by (simp add: buffer_ok_def unat_mod_distrib)

text \<open>What \<open>addElement\<close> does, in one step: it overwrites the element at \<open>v\<close>.\<close>

definition overwrite :: "u32 \<Rightarrow> 'a \<Rightarrow> int \<Rightarrow> 'a CircularBuffer \<Rightarrow> 'a CircularBuffer" where
  "overwrite v elem now b =
     b\<lparr>cBuffer := (cBuffer b)[unat v := \<lparr>element = elem, processed = False, tstamp = now\<rparr>],
       nextIndex := (v + 1) mod maxElements b,
       availableElements := (if availableElements b < maxElements b then availableElements b + 1 else availableElements b),
       skippedElements := (if v \<noteq> nextIndex b then skippedElements b + 1 else skippedElements b)\<rparr>"

lemma addElement_overwrites:
  assumes ok: "buffer_ok b"
  obtains v where "addElement elem now b = Some (processed (cBuffer b ! unat (nextIndex b)), overwrite v elem now b)"
    "unat v < length (cBuffer b)" "processed (cBuffer b ! unat (nextIndex b)) \<Longrightarrow> v = nextIndex b"
    "\<not> processed (cBuffer b ! unat (nextIndex b)) \<Longrightarrow> \<not> processed (cBuffer b ! unat v) \<and>
       (\<forall>e\<in>set (cBuffer b). \<not> processed e \<longrightarrow> tstamp e \<le> tstamp (cBuffer b ! unat v))"
proof (cases "processed (cBuffer b ! unat (nextIndex b))")
  case True
  have some: "maxElements b \<noteq> 0" using ok by (auto simp: buffer_ok_def)
  then have "addElement elem now b = Some (True, overwrite (nextIndex b) elem now b)"
    using True by (simp add: addElement_def overwrite_def Let_def)
  then show ?thesis using True ok that [of "nextIndex b"] by (simp add: buffer_ok_def word_less_nat_alt)
next
  case False
  let ?v = "find_victim (cBuffer b) (maxElements b) (nextIndex b + 1) (nextIndex b + maxElements b)
      (tstamp (cBuffer b ! unat (nextIndex b))) (nextIndex b)"
  note v = find_victim_newest [OF False refl, of "maxElements b" "nextIndex b + 1" "nextIndex b + maxElements b"]
  have inside: "unat ?v < length (cBuffer b)"
    using v mod_index [OF ok] ok by (auto simp: buffer_ok_def word_less_nat_alt)
  have "tstamp e \<le> tstamp (cBuffer b ! unat ?v)" if e: "e \<in> set (cBuffer b)" "\<not> processed e" for e
  proof -
    obtain j where j: "j < unat (maxElements b)" "e = cBuffer b ! j"
      using e(1) ok by (auto simp: in_set_conv_nth buffer_ok_def)
    obtain k where k: "k \<in> {unat (nextIndex b)..<unat (nextIndex b) + unat (maxElements b)}"
      "unat (word_of_nat k mod maxElements b) = j" using ring_covers [OF ok j(1)] by blast
    show ?thesis
    proof (cases "k = unat (nextIndex b)")
      case True
      then have "j = unat (nextIndex b)" using k(2) ok by (simp add: buffer_ok_def unat_mod_distrib word_less_nat_alt)
      then show ?thesis using v j(2) by simp
    next
      case False
      then have "k \<in> {unat (nextIndex b + 1)..<unat (nextIndex b + maxElements b)}"
        using k(1) by (simp add: unat_sum_next [OF ok])
      then show ?thesis using v k(2) j(2) e(2) by blast
    qed
  qed
  moreover have "addElement elem now b = Some (False, overwrite ?v elem now b)"
    using False ok by (auto simp: addElement_def overwrite_def buffer_ok_def Let_def)
  ultimately show ?thesis using False inside v that [of ?v] by simp
qed

definition taken :: "u32 \<Rightarrow> 'a CircularBuffer \<Rightarrow> 'a CircularBuffer" where
  "taken ix b =
     b\<lparr>cBuffer := (cBuffer b)[unat ix := (cBuffer b ! unat ix)\<lparr>processed := True\<rparr>],
       availableElements := availableElements b - 1, maxAge := tstamp (cBuffer b ! unat ix)\<rparr>"

lemma getElement_cases:
  assumes ok: "buffer_ok b"
  obtains "getElement b = (None, b)"
  | ix where "getElement b = (Some (element (cBuffer b ! unat ix)), taken ix b)" "unat ix < length (cBuffer b)"
    "\<not> processed (cBuffer b ! unat ix)" "maxAge b \<le> tstamp (cBuffer b ! unat ix)" "availableElements b \<noteq> 0"
proof (cases "availableElements b = 0")
  case True
  then show ?thesis using that(1) by (simp add: getElement_def)
next
  case False
  let ?found = "find_fresh (cBuffer b) (maxElements b) (maxAge b) (nextIndex b) (nextIndex b + maxElements b)"
  show ?thesis
  proof (cases ?found)
    case None
    then show ?thesis using that(1) False by (simp add: getElement_def)
  next
    case (Some ix)
    then have "(\<exists>k. ix = k mod maxElements b) \<and> \<not> processed (cBuffer b ! unat ix) \<and> maxAge b \<le> tstamp (cBuffer b ! unat ix)"
      by (auto simp: find_fresh_eq find_Some_iff)
    then show ?thesis using that(2) [of ix] Some False mod_index [OF ok] by (auto simp: getElement_def taken_def Let_def)
  qed
qed

section \<open>What comes out of the buffer\<close>

definition waiting :: "'a CircularBuffer \<Rightarrow> ('a \<times> int) multiset" where
  "waiting b = image_mset (\<lambda>e. (element e, tstamp e)) (filter_mset (\<lambda>e. \<not> processed e) (mset (cBuffer b)))"

lemma waiting_overwrite:
  assumes "unat v < length (cBuffer b)"
  shows "waiting (overwrite v x t b) \<subseteq># add_mset (x, t) (waiting b)"
proof -
  have "filter_mset (\<lambda>e. \<not> processed e) (mset (cBuffer b) - {#cBuffer b ! unat v#}) \<subseteq>#
      filter_mset (\<lambda>e. \<not> processed e) (mset (cBuffer b))"
    by (rule multiset_filter_mono) simp
  then show ?thesis
    using assms by (simp add: waiting_def overwrite_def mset_update image_mset_subseteq_mono)
qed

lemma waiting_taken:
  assumes "unat ix < length (cBuffer b)" "\<not> processed (cBuffer b ! unat ix)"
  shows "waiting b = add_mset (element (cBuffer b ! unat ix), tstamp (cBuffer b ! unat ix)) (waiting (taken ix b))"
proof -
  obtain m where m: "mset (cBuffer b) = add_mset (cBuffer b ! unat ix) m"
    using assms(1) by (metis insert_DiffM nth_mem_mset)
  then show ?thesis using assms by (simp add: waiting_def taken_def mset_update)
qed

lemma buffer_ok_overwrite: "buffer_ok b \<Longrightarrow> buffer_ok (overwrite v x t b)"
  by (auto simp: buffer_ok_def overwrite_def word_less_nat_alt word_le_nat_alt unat_mod_distrib unat_word_ariths)

lemma buffer_ok_taken: "buffer_ok b \<Longrightarrow> availableElements b \<noteq> 0 \<Longrightarrow> buffer_ok (taken ix b)"
  by (auto simp: buffer_ok_def taken_def word_le_nat_alt unat_minus_one)

datatype 'a buffer_op = Add 'a int | Get

text \<open>The elements that come out, each with its time stamp, which \<open>getElement\<close> leaves in \<open>maxAge\<close>.\<close>

fun buffer_run :: "'a buffer_op list \<Rightarrow> 'a CircularBuffer \<Rightarrow> (('a \<times> int) list \<times> 'a CircularBuffer) option" where
  "buffer_run [] b = Some ([], b)"
| "buffer_run (Add x t # ops) b = do { (_, b) \<leftarrow> addElement x t b; buffer_run ops b }"
| "buffer_run (Get # ops) b =
     (case getElement b of
        (None, b) \<Rightarrow> buffer_run ops b
      | (Some x, b) \<Rightarrow> do { (outs, b') \<leftarrow> buffer_run ops b; Some ((x, maxAge b) # outs, b') })"

fun added :: "'a buffer_op list \<Rightarrow> ('a \<times> int) list" where
  "added [] = []"
| "added (Add x t # ops) = (x, t) # added ops"
| "added (Get # ops) = added ops"

lemma buffer_run_spec:
  assumes "buffer_ok b"
  shows "\<exists>outs b'. buffer_run ops b = Some (outs, b') \<and> buffer_ok b' \<and> mset outs \<subseteq># waiting b + mset (added ops) \<and>
     sorted (maxAge b # map snd outs) \<and> length outs \<le> unat (availableElements b) + length (added ops)"
  using assms
proof (induction ops arbitrary: b)
  case (Cons op ops)
  show ?case
  proof (cases op)
    case (Add x t)
    obtain v where v: "addElement x t b = Some (processed (cBuffer b ! unat (nextIndex b)), overwrite v x t b)"
      "unat v < length (cBuffer b)" using addElement_overwrites [OF Cons.prems, of x t] by metis
    from Cons.IH [OF buffer_ok_overwrite [OF Cons.prems, of v x t]] obtain outs b' where run:
      "buffer_run ops (overwrite v x t b) = Some (outs, b')" "buffer_ok b'"
      "mset outs \<subseteq># waiting (overwrite v x t b) + mset (added ops)" "sorted (maxAge (overwrite v x t b) # map snd outs)"
      "length outs \<le> unat (availableElements (overwrite v x t b)) + length (added ops)" by blast
    have "mset outs \<subseteq># add_mset (x, t) (waiting b) + mset (added ops)"
      using run(3) waiting_overwrite [OF v(2), of x t] by (meson subset_mset.add_right_mono subset_mset.order_trans)
    moreover have "unat (availableElements (overwrite v x t b)) \<le> unat (availableElements b) + 1"
      by (simp add: overwrite_def unat_word_ariths)
    ultimately show ?thesis using Add v(1) run by (auto simp: overwrite_def)
  next
    case Get
    show ?thesis
    proof (cases rule: getElement_cases [OF Cons.prems])
      case 1
      then show ?thesis using Get Cons.IH [OF Cons.prems] by simp
    next
      case (2 ix)
      from Cons.IH [OF buffer_ok_taken [OF Cons.prems 2(5), of ix]] obtain outs b' where run:
        "buffer_run ops (taken ix b) = Some (outs, b')" "buffer_ok b'" "mset outs \<subseteq># waiting (taken ix b) + mset (added ops)"
        "sorted (maxAge (taken ix b) # map snd outs)" "length outs \<le> unat (availableElements (taken ix b)) + length (added ops)"
        by blast
      have "unat (availableElements (taken ix b)) + 1 = unat (availableElements b)"
        using 2(5) by (simp add: taken_def unat_minus_one unat_gt_0)
      then show ?thesis using Get 2 run by (auto simp: waiting_taken [OF 2(2,3)] taken_def)
    qed
  qed
qed simp

lemma create_buffer_ok: "0 < unat n \<Longrightarrow> unat n < 2 ^ 31 \<Longrightarrow> buffer_ok (create_buffer blank n tm)"
  by (simp add: buffer_ok_def create_buffer_def word_less_nat_alt)

lemma filter_replicate_mset: "filter_mset P (replicate_mset n x) = (if P x then replicate_mset n x else {#})"
  by (induction n) simp_all

lemma waiting_create: "waiting (create_buffer blank n tm) = replicate_mset (unat n) (blank, tm)"
  by (simp add: waiting_def create_buffer_def filter_replicate_mset)

text \<open>
  C32: whatever is added to a new buffer and asked of it, no operation fails; every element comes out at most once, the time
  stamps of what comes out never go back, nothing comes out but what was added and the blank elements the buffer was made of,
  and not more than was added.
\<close>

theorem buffer_delivers_once_in_order:
  assumes "0 < unat n" "unat n < 2 ^ 31"
  shows "\<exists>outs b. buffer_run ops (create_buffer blank n tm) = Some (outs, b) \<and>
     mset outs \<subseteq># replicate_mset (unat n) (blank, tm) + mset (added ops) \<and>
     sorted (map snd outs) \<and> length outs \<le> length (added ops)"
proof -
  have "availableElements (create_buffer blank n tm) = 0" by (simp add: create_buffer_def)
  then show ?thesis
    using buffer_run_spec [OF create_buffer_ok [OF assms], of ops blank tm] by (auto simp: waiting_create)
qed

theorem buffer_delivers_once_in_order_witness:
  "\<exists>outs b. buffer_run [Add 5 3, Add 6 4, Get, Get, Add 7 4, Get] (create_buffer (0::nat) 2 3) = Some (outs, b) \<and>
     length outs \<le> 3"
  using buffer_delivers_once_in_order [of 2 "[Add 5 3, Add 6 4, Get, Get, Add 7 4, Get]" 0 3] by auto

text \<open>
  An element that is added while the next one was not handed out yet replaces the newest of the elements that wait, not
  the oldest, and \<open>addElement\<close> says so with its result.
\<close>

theorem addElement_replaces_newest:
  assumes "buffer_ok b" "\<not> processed (cBuffer b ! unat (nextIndex b))"
  shows "\<exists>v b'. addElement x t b = Some (False, b') \<and> v < length (cBuffer b) \<and> \<not> processed (cBuffer b ! v) \<and>
     (\<forall>e\<in>set (cBuffer b). \<not> processed e \<longrightarrow> tstamp e \<le> tstamp (cBuffer b ! v)) \<and>
     cBuffer b' = (cBuffer b)[v := \<lparr>element = x, processed = False, tstamp = t\<rparr>]"
proof -
  obtain v where v: "addElement x t b = Some (processed (cBuffer b ! unat (nextIndex b)), overwrite v x t b)"
    "unat v < length (cBuffer b)" "\<not> processed (cBuffer b ! unat v) \<and>
       (\<forall>e\<in>set (cBuffer b). \<not> processed e \<longrightarrow> tstamp e \<le> tstamp (cBuffer b ! unat v))"
    using addElement_overwrites [OF assms(1), of x t] assms(2) by metis
  show ?thesis
    by (intro exI [of _ "unat v"] exI [of _ "overwrite v x t b"]) (use v assms(2) in \<open>simp add: overwrite_def\<close>)
qed

text \<open>Three frames wait; the fourth replaces the one of second 9, and the one of second 7 stays.\<close>

definition full_buffer :: "nat CircularBuffer" where
  "full_buffer = \<lparr>cBuffer = [\<lparr>element = 1, processed = False, tstamp = 7\<rparr>, \<lparr>element = 2, processed = False, tstamp = 8\<rparr>,
     \<lparr>element = 3, processed = False, tstamp = 9\<rparr>], nextIndex = 0, maxElements = 3, availableElements = 3,
     skippedElements = 0, maxAge = 5\<rparr>"

theorem addElement_replaces_newest_witness:
  "\<exists>b'. addElement 4 9 full_buffer = Some (False, b') \<and> map element (cBuffer b') = [1, 2, 4]"
proof -
  have "buffer_ok full_buffer" "\<not> processed (cBuffer full_buffer ! unat (nextIndex full_buffer))"
    by (simp_all add: full_buffer_def buffer_ok_def)
  from addElement_replaces_newest [OF this, of 4 9] obtain v b' where v: "addElement 4 9 full_buffer = Some (False, b')"
    "v < length (cBuffer full_buffer)" "\<forall>e\<in>set (cBuffer full_buffer). \<not> processed e \<longrightarrow> tstamp e \<le> tstamp (cBuffer full_buffer ! v)"
    "cBuffer b' = (cBuffer full_buffer)[v := \<lparr>element = 4, processed = False, tstamp = 9\<rparr>]"
    by blast
  have "v = 0 \<or> v = 1 \<or> v = 2" using v(2) by (auto simp: full_buffer_def)
  moreover have "9 \<le> tstamp (cBuffer full_buffer ! v)" using v(3) by (simp add: full_buffer_def)
  ultimately have "v = 2" by (auto simp: full_buffer_def)
  then show ?thesis using v(1,4) by (simp add: full_buffer_def)
qed

lemma find_victim_none:
  assumes "\<And>k. unat (k mod m) < length es \<Longrightarrow> tstamp (es ! unat (k mod m)) \<le> oldest" "\<And>k :: u32. unat (k mod m) < length es"
  shows "find_victim es m i limit oldest new = new"
proof (induction "unat (limit - i)" arbitrary: i rule: less_induct)
  case less
  show ?case
  proof (cases "i < limit")
    case True
    then show ?thesis using less [OF word_loop_decreases [OF True]] assms(1) [OF assms(2), of i]
      by (simp add: find_victim.simps [of es m i limit] Let_def)
  next
    case False
    then show ?thesis by (simp add: find_victim.simps [of es m i limit])
  qed
qed

text \<open>
  The elements of a new buffer count as not handed out.  After the first frame is added, the first \<open>getElement\<close> hands out
  a blank element in its place, and the second one finds nothing: the frame stays in the buffer.
\<close>

theorem first_frame_stays_behind:
  assumes "1 < unat n" "unat n < 2 ^ 31"
  shows "\<exists>b b' ret. addElement x t (create_buffer blank n tm) = Some (ret, b) \<and> getElement b = (Some blank, b') \<and>
     getElement b' = (None, b') \<and> (x, t) \<in># waiting b'"
proof -
  let ?new = "create_buffer blank n tm"
  have n: "n \<noteq> 0" "0 < unat n" using assms by auto
  have ix: "unat (k mod n) < unat n" for k using n by (simp add: unat_mod_distrib)
  have "find_victim (cBuffer ?new) n 1 n tm 0 = 0"
    by (rule find_victim_none) (use ix in \<open>simp_all add: create_buffer_def\<close>)
  then have "addElement x t ?new = Some (False, overwrite 0 x t ?new)"
    using n by (simp add: addElement_def overwrite_def create_buffer_def)
  moreover have one: "1 mod n = 1" "unat (1 mod n) = 1" "unat (1 + n) = Suc (unat n)"
    using assms by (auto simp: word_unat_eq_iff unat_mod_distrib unat_word_ariths)
  moreover have "getElement (overwrite 0 x t ?new) = (Some blank, taken 1 (overwrite 0 x t ?new))"
    using n assms one(1,3)
    by (simp add: getElement_def taken_def overwrite_def create_buffer_def find_fresh_eq upt_conv_Cons word_gt_0 nth_list_update)
  moreover have "availableElements (taken 1 (overwrite 0 x t ?new)) = 0"
    using n by (simp add: taken_def overwrite_def create_buffer_def word_gt_0)
  moreover have "(x, t) \<in># waiting (taken 1 (overwrite 0 x t ?new))"
  proof -
    have "cBuffer (taken 1 (overwrite 0 x t ?new)) ! 0 = \<lparr>element = x, processed = False, tstamp = t\<rparr>"
      "0 < length (cBuffer (taken 1 (overwrite 0 x t ?new)))"
      using n by (simp_all add: taken_def overwrite_def create_buffer_def)
    then show ?thesis by (force simp: waiting_def in_set_conv_nth image_iff)
  qed
  ultimately show ?thesis by (auto simp: getElement_def)
qed

theorem first_frame_stays_behind_witness:
  "\<exists>b b' ret. addElement (7::nat) 1 (create_buffer 0 4 1) = Some (ret, b) \<and> getElement b = (Some 0, b')"
  using first_frame_stays_behind [of 4 7 1 0 1] by auto

end
