(* ===== verification/ThreadPool.thy ===== *)
theory ThreadPool
  imports Prelude
begin

text \<open>
  The worker threads of the detector, \<^verbatim>\<open>src/RC_Threads.cpp\<close>, as a step relation: the main thread creates the workers,
  stops them and waits for each; a worker initialises itself, sets \<open>doLoop\<close> and calls the thread function while it is set.
  Reading and writing the atomic \<open>doLoop\<close> are steps of their own, which interleave freely.  The functions the client gives
  come back; what they do to the images is not a part of this component.  Joining a thread that was never created throws: then
  the main thread has no next step.
\<close>

datatype worker = Absent | Started | Initialised | Looping | Working | Cleaning | Ended

datatype main_thread = Idle | Starting nat | Running | Joining nat | Stopped

record Threads =
  doLoop :: bool
  main :: main_thread
  thrds :: "nat \<Rightarrow> worker"

definition create_threads :: Threads where
  "create_threads = \<lparr>doLoop = False, main = Idle, thrds = (\<lambda>_. Absent)\<rparr>"

definition set_worker :: "nat \<Rightarrow> worker \<Rightarrow> Threads \<Rightarrow> Threads" where
  "set_worker i w s = s\<lparr>thrds := (thrds s)(i := w)\<rparr>"

lemma set_worker_sel [simp]:
  "doLoop (set_worker i w s) = doLoop s" "main (set_worker i w s) = main s"
  "thrds (set_worker i w s) = (thrds s)(i := w)"
  by (simp_all add: set_worker_def)

text \<open>\<open>n\<close> is \<open>numThreads\<close>; \<open>func\<close> says whether a thread function was set.\<close>

inductive threads_step :: "nat \<Rightarrow> bool \<Rightarrow> Threads \<Rightarrow> Threads \<Rightarrow> bool" for n func where
  no_function: "main s = Idle \<Longrightarrow> \<not> func \<Longrightarrow> threads_step n func s (s\<lparr>main := Running\<rparr>)"
| start: "main s = Idle \<Longrightarrow> func \<Longrightarrow> threads_step n func s (s\<lparr>main := Starting 0\<rparr>)"
| create: "main s = Starting i \<Longrightarrow> i < n \<Longrightarrow> threads_step n func s (set_worker i Started (s\<lparr>main := Starting (i + 1)\<rparr>))"
| started: "main s = Starting i \<Longrightarrow> n \<le> i \<Longrightarrow> threads_step n func s (s\<lparr>main := Running\<rparr>)"
| initialise: "thrds s i = Started \<Longrightarrow> threads_step n func s (set_worker i Initialised s)"
| enter: "thrds s i = Initialised \<Longrightarrow> threads_step n func s (set_worker i Looping (s\<lparr>doLoop := True\<rparr>))"
| again: "thrds s i = Looping \<Longrightarrow> doLoop s \<Longrightarrow> threads_step n func s (set_worker i Working s)"
| worked: "thrds s i = Working \<Longrightarrow> threads_step n func s (set_worker i Looping s)"
| leave: "thrds s i = Looping \<Longrightarrow> \<not> doLoop s \<Longrightarrow> threads_step n func s (set_worker i Cleaning s)"
| finish: "thrds s i = Cleaning \<Longrightarrow> threads_step n func s (set_worker i Ended s)"
| stop: "main s = Running \<Longrightarrow> threads_step n func s (s\<lparr>main := Joining 0, doLoop := False\<rparr>)"
| join: "main s = Joining i \<Longrightarrow> i < n \<Longrightarrow> thrds s i = Ended \<Longrightarrow> threads_step n func s (s\<lparr>main := Joining (i + 1)\<rparr>)"
| joined: "main s = Joining i \<Longrightarrow> n \<le> i \<Longrightarrow> threads_step n func s (s\<lparr>main := Stopped\<rparr>)"

inductive_cases threads_stepE: "threads_step n func s t"

text \<open>Only threads that were created are there.\<close>

definition only_workers :: "nat \<Rightarrow> Threads \<Rightarrow> bool" where
  "only_workers n s \<longleftrightarrow> (\<forall>i. thrds s i \<noteq> Absent \<longrightarrow> i < n)"

lemma only_workers_step: "threads_step n func s t \<Longrightarrow> only_workers n s \<Longrightarrow> only_workers n t"
  by (erule threads_stepE) (auto simp: only_workers_def)

lemma only_workers_reachable: "(threads_step n func)\<^sup>*\<^sup>* create_threads s \<Longrightarrow> only_workers n s"
proof (induction rule: rtranclp_induct)
  case base
  show ?case by (simp add: only_workers_def create_threads_def)
qed (rule only_workers_step)

section \<open>Stopping\<close>

text \<open>What a worker still has to do once \<open>doLoop\<close> is false, and the main thread.\<close>

fun worker_work :: "worker \<Rightarrow> nat" where
  "worker_work Working = 3"
| "worker_work Looping = 2"
| "worker_work Cleaning = 1"
| "worker_work _ = 0"

fun main_work :: "nat \<Rightarrow> main_thread \<Rightarrow> nat" where
  "main_work n (Joining i) = n - i + 1"
| "main_work n _ = 0"

definition work :: "nat \<Rightarrow> Threads \<Rightarrow> nat" where
  "work n s = main_work n (main s) + (\<Sum>i<n. worker_work (thrds s i))"

text \<open>The main thread joins, and no worker will set \<open>doLoop\<close> any more.\<close>

definition winding_down :: "nat \<Rightarrow> Threads \<Rightarrow> bool" where
  "winding_down n s \<longleftrightarrow> \<not> doLoop s \<and> (main s = Stopped \<or> (\<exists>i. main s = Joining i)) \<and> only_workers n s \<and>
     (\<forall>i<n. thrds s i \<in> {Looping, Working, Cleaning, Ended})"

lemma work_set_worker:
  "i < n \<Longrightarrow> work n (set_worker i w s) + worker_work (thrds s i) = work n s + worker_work w"
proof -
  assume "i < n"
  then have "(\<Sum>j<n. f j) = f i + (\<Sum>j\<in>{..<n} - {i}. f j)" for f :: "nat \<Rightarrow> nat"
    by (simp add: sum.remove)
  from this [of "\<lambda>j. worker_work (((thrds s)(i := w)) j)"] this [of "\<lambda>j. worker_work (thrds s j)"] show ?thesis
    by (simp add: work_def)
qed

lemma winding_down_step:
  assumes "winding_down n s" "threads_step n func s t"
  shows "winding_down n t \<and> work n t < work n s"
proof -
  have only: "i < n" if "thrds s i \<noteq> Absent" for i using assms(1) that by (simp add: winding_down_def only_workers_def)
  have known: "i < n \<Longrightarrow> thrds s i \<in> {Looping, Working, Cleaning, Ended}" for i using assms(1) by (simp add: winding_down_def)
  from assms(2) show ?thesis
  proof cases
    case (initialise i)
    then show ?thesis using only [of i] known [of i] by auto
  next
    case (enter i)
    then show ?thesis using only [of i] known [of i] by auto
  next
    case (worked i)
    then show ?thesis using assms(1) only [of i] work_set_worker [of i n Looping s]
      by (auto simp: winding_down_def only_workers_def)
  next
    case (leave i)
    then show ?thesis using assms(1) only [of i] work_set_worker [of i n Cleaning s]
      by (auto simp: winding_down_def only_workers_def)
  next
    case (finish i)
    then show ?thesis using assms(1) only [of i] work_set_worker [of i n Ended s]
      by (auto simp: winding_down_def only_workers_def)
  next
    case (join i)
    moreover from this have "n - (i + 1) < n - i" by simp
    ultimately show ?thesis using assms(1) by (simp add: winding_down_def only_workers_def work_def)
  qed (use assms(1) in \<open>auto simp: winding_down_def only_workers_def work_def\<close>)
qed

lemma winding_down_progress:
  assumes "winding_down n s" "main s \<noteq> Stopped"
  shows "\<exists>t. threads_step n func s t"
proof -
  obtain i where i: "main s = Joining i" using assms by (auto simp: winding_down_def)
  show ?thesis
  proof (cases "i < n")
    case True
    then have "thrds s i \<in> {Looping, Working, Cleaning, Ended}" using assms(1) by (simp add: winding_down_def)
    moreover have "\<not> doLoop s" using assms(1) by (simp add: winding_down_def)
    ultimately show ?thesis
      using i True worked [of s i] leave [of s i] finish [of s i] join [of s i n] by fastforce
  next
    case False
    then show ?thesis using i joined [of s i n func] by auto
  qed
qed

lemma winding_down_bounded:
  assumes "(threads_step n func ^^ m) s t" "winding_down n s"
  shows "winding_down n t \<and> m + work n t \<le> work n s"
  using assms
proof (induction m arbitrary: t)
  case (Suc m)
  then obtain u where u: "(threads_step n func ^^ m) s u" "threads_step n func u t" by auto
  from Suc.IH [OF u(1) Suc.prems(2)] winding_down_step [OF _ u(2)] show ?case by fastforce
qed simp

text \<open>
  C33: when every worker has entered its loop before the main thread stops them, then on every schedule the main thread has
  joined all of them after at most \<open>4 * n + 1\<close> further steps, and until then there is always a next step.
\<close>

theorem stopThreads_completes:
  assumes reach: "(threads_step n func)\<^sup>*\<^sup>* create_threads s" and loops: "\<forall>i<n. thrds s i = Looping \<or> thrds s i = Working"
    and run: "main s = Running" and steps: "(threads_step n func ^^ m) (s\<lparr>main := Joining 0, doLoop := False\<rparr>) t"
  shows "m \<le> 4 * n + 1 \<and> (main t \<noteq> Stopped \<longrightarrow> (\<exists>u. threads_step n func t u))"
proof -
  let ?s = "s\<lparr>main := Joining 0, doLoop := False\<rparr>"
  have down: "winding_down n ?s"
    using loops only_workers_reachable [OF reach] by (auto simp: winding_down_def only_workers_def)
  have "(\<Sum>i<n. worker_work (thrds s i)) \<le> (\<Sum>i<n. 3)" using loops by (intro sum_mono) auto
  then have "work n ?s \<le> 4 * n + 1" by (simp add: work_def)
  then show ?thesis using winding_down_bounded [OF steps down] winding_down_progress by fastforce
qed

theorem stopThreads_completes_witness:
  "\<exists>s. (threads_step 1 True)\<^sup>*\<^sup>* create_threads s \<and> main s = Running \<and>
     (\<forall>m t. (threads_step 1 True ^^ m) (s\<lparr>main := Joining 0, doLoop := False\<rparr>) t \<longrightarrow> m \<le> 5)"
proof -
  let ?a = "create_threads\<lparr>main := Starting 0\<rparr>"
  let ?b = "set_worker 0 Started (?a\<lparr>main := Starting (0 + 1)\<rparr>)"
  let ?c = "?b\<lparr>main := Running\<rparr>"
  let ?d = "set_worker 0 Initialised ?c"
  let ?e = "set_worker 0 Looping (?d\<lparr>doLoop := True\<rparr>)"
  have "threads_step 1 True create_threads ?a" by (rule start) (simp_all add: create_threads_def)
  moreover have "threads_step 1 True ?a ?b" by (rule create) simp_all
  moreover have "threads_step 1 True ?b ?c" by (rule started [of _ 1]) simp_all
  moreover have "threads_step 1 True ?c ?d" by (rule initialise) simp
  moreover have "threads_step 1 True ?d ?e" by (rule enter) simp
  ultimately have reach: "(threads_step 1 True)\<^sup>*\<^sup>* create_threads ?e" by (meson rtranclp.rtrancl_refl rtranclp.rtrancl_into_rtrancl)
  have "m \<le> 5" if "(threads_step 1 True ^^ m) (?e\<lparr>main := Joining 0, doLoop := False\<rparr>) t" for m t
    using stopThreads_completes [OF reach _ _ that] by simp
  then show ?thesis using reach by (intro exI [of _ ?e]) simp
qed

section \<open>A worker that starts late\<close>

text \<open>The main thread waits for a worker that runs its loop, and nobody will clear \<open>doLoop\<close>.\<close>

definition stop_lost :: "nat \<Rightarrow> Threads \<Rightarrow> bool" where
  "stop_lost j s \<longleftrightarrow> doLoop s \<and> (\<exists>i\<le>j. main s = Joining i) \<and> thrds s j \<in> {Looping, Working}"

lemma stop_lost_step:
  assumes "stop_lost j s" "threads_step n func s t" "j < n"
  shows "stop_lost j t"
  using assms(2)
proof cases
  case (join i)
  then show ?thesis using assms(1) by (cases "i = j") (auto simp: stop_lost_def)
qed (use assms(1,3) in \<open>auto simp: stop_lost_def\<close>)

lemma stop_lost_forever: "(threads_step n func)\<^sup>*\<^sup>* s t \<Longrightarrow> j < n \<Longrightarrow> stop_lost j s \<Longrightarrow> stop_lost j t"
  by (induction rule: rtranclp_induct) (auto intro: stop_lost_step)

lemma all_created: "i \<le> n \<Longrightarrow> (threads_step n True)\<^sup>*\<^sup>* create_threads
     \<lparr>doLoop = False, main = Starting i, thrds = (\<lambda>k. if k < i then Started else Absent)\<rparr>"
proof (induction i)
  case 0
  have "threads_step n True create_threads (create_threads\<lparr>main := Starting 0\<rparr>)"
    by (rule start) (simp_all add: create_threads_def)
  then show ?case by (auto simp: create_threads_def)
next
  case (Suc i)
  let ?s = "\<lparr>doLoop = False, main = Starting i, thrds = (\<lambda>k. if k < i then Started else Absent)\<rparr>"
  have "threads_step n True ?s (set_worker i Started (?s\<lparr>main := Starting (i + 1)\<rparr>))"
    using Suc.prems by (intro create) simp_all
  moreover have "set_worker i Started (?s\<lparr>main := Starting (i + 1)\<rparr>) =
      \<lparr>doLoop = False, main = Starting (Suc i), thrds = (\<lambda>k. if k < Suc i then Started else Absent)\<rparr>"
    by (auto simp: set_worker_def)
  ultimately show ?case using Suc by (auto elim: rtranclp.rtrancl_into_rtrancl)
qed

text \<open>
  C34: when the main thread stops the pool before some worker has set \<open>doLoop\<close>, that worker sets it again afterwards: a state
  is reachable from which, on every schedule, the main thread never comes back from \<open>stopThreads\<close>.
\<close>

theorem stopThreads_can_hang:
  assumes "0 < n"
  shows "\<exists>s. (threads_step n True)\<^sup>*\<^sup>* create_threads s \<and> main s = Joining 0 \<and>
     (\<forall>t. (threads_step n True)\<^sup>*\<^sup>* s t \<longrightarrow> main t \<noteq> Stopped)"
proof -
  let ?a = "\<lparr>doLoop = False, main = Starting n, thrds = (\<lambda>k. if k < n then Started else Absent)\<rparr>"
  let ?b = "?a\<lparr>main := Running\<rparr>"
  let ?c = "?b\<lparr>main := Joining 0, doLoop := False\<rparr>"
  let ?d = "set_worker 0 Initialised ?c"
  let ?e = "set_worker 0 Looping (?d\<lparr>doLoop := True\<rparr>)"
  have "threads_step n True ?a ?b" by (rule started [of _ n]) simp_all
  moreover have "threads_step n True ?b ?c" by (rule stop) simp
  moreover have "threads_step n True ?c ?d" using assms by (intro initialise) simp
  moreover have "threads_step n True ?d ?e" by (rule enter) simp
  ultimately have "(threads_step n True)\<^sup>*\<^sup>* create_threads ?e"
    using all_created [of n n] by (meson order_refl rtranclp.rtrancl_into_rtrancl)
  moreover have "stop_lost 0 ?e" by (simp add: stop_lost_def)
  ultimately show ?thesis using stop_lost_forever [of n True ?e _ 0] assms
    by (intro exI [of _ ?e]) (auto simp: stop_lost_def)
qed

theorem stopThreads_can_hang_witness:
  "\<exists>s. (threads_step 4 True)\<^sup>*\<^sup>* create_threads s \<and> main s = Joining 0 \<and>
     (\<forall>t. (threads_step 4 True)\<^sup>*\<^sup>* s t \<longrightarrow> main t \<noteq> Stopped)"
  by (rule stopThreads_can_hang) simp

end
