(* ===== verification/Encodings.thy ===== *)
theory Encodings
  imports Prelude
begin

text \<open>
  The four character codes of the encodings, their variants and the colour spaces, \<^verbatim>\<open>mmal/mmal_encodings.h\<close>, for a little
  endian machine.
\<close>

section \<open>Four character codes\<close>

lemma of_char_less: "(of_char c :: nat) < 256"
  using range_nat_of_char by (metis atLeastLessThan_iff rangeI)

lemma byte_bit: "take_bit 8 a = a \<Longrightarrow> bit a n \<Longrightarrow> n < 8" for a :: u32
  by (metis bit_take_bit_iff)

lemma join_bytes:
  fixes a b c d :: u32
  assumes "take_bit 8 a = a" "take_bit 8 b = b" "take_bit 8 c = c" "take_bit 8 d = d"
  shows "take_bit 8 (a OR push_bit 8 b OR push_bit 16 c OR push_bit 24 d) = a"
    "take_bit 8 (drop_bit 8 (a OR push_bit 8 b OR push_bit 16 c OR push_bit 24 d)) = b"
    "take_bit 8 (drop_bit 16 (a OR push_bit 8 b OR push_bit 16 c OR push_bit 24 d)) = c"
    "take_bit 8 (drop_bit 24 (a OR push_bit 8 b OR push_bit 16 c OR push_bit 24 d)) = d"
proof -
  note less = assms [THEN byte_bit]
  show "take_bit 8 (a OR push_bit 8 b OR push_bit 16 c OR push_bit 24 d) = a"
    by (rule bit_word_eqI) (auto simp: bit_simps dest: less)
  show "take_bit 8 (drop_bit 8 (a OR push_bit 8 b OR push_bit 16 c OR push_bit 24 d)) = b"
    by (rule bit_word_eqI) (auto simp: bit_simps dest: less)
  show "take_bit 8 (drop_bit 16 (a OR push_bit 8 b OR push_bit 16 c OR push_bit 24 d)) = c"
    by (rule bit_word_eqI) (auto simp: bit_simps dest: less)
  show "take_bit 8 (drop_bit 24 (a OR push_bit 8 b OR push_bit 16 c OR push_bit 24 d)) = d"
    by (rule bit_word_eqI) (auto simp: bit_simps dest: less)
qed

lemma byte_of_char: "take_bit 8 (word_of_nat (of_char a) :: u32) = word_of_nat (of_char a)"
  by (cases a) (simp add: take_bit_eq_mod of_char_def word_unat_eq_iff )

lemma unat_of_char: "unat (word_of_nat (of_char c) :: u32) = of_char c"
  by (rule of_nat_inverse [OF refl]) (rule less_trans [OF of_char_less], simp)

lemma word_of_char_inj: "(word_of_nat (of_char a) :: u32) = word_of_nat (of_char b) \<longleftrightarrow> a = b"
proof
  assume "(word_of_nat (of_char a) :: u32) = word_of_nat (of_char b)"
  then have "(of_char a :: nat) = of_char b" by (metis unat_of_char)
  then show "a = b" by simp
qed simp

lemma fourcc_bytes:
  "take_bit 8 (MMAL_FOURCC a b c d) = word_of_nat (of_char a)"
  "take_bit 8 (drop_bit 8 (MMAL_FOURCC a b c d)) = word_of_nat (of_char b)"
  "take_bit 8 (drop_bit 16 (MMAL_FOURCC a b c d)) = word_of_nat (of_char c)"
  "take_bit 8 (drop_bit 24 (MMAL_FOURCC a b c d)) = word_of_nat (of_char d)"
  unfolding MMAL_FOURCC_def by (simp_all only: join_bytes byte_of_char)

lemma MMAL_FOURCC_inj [simp]: "MMAL_FOURCC a b c d = MMAL_FOURCC a' b' c' d' \<longleftrightarrow> a = a' \<and> b = b' \<and> c = c' \<and> d = d'"
  by (metis fourcc_bytes word_of_char_inj)

lemma MMAL_FOURCC_nonzero:
  assumes "a \<noteq> CHR 0x00"
  shows "MMAL_FOURCC a b c d \<noteq> 0"
proof
  assume "MMAL_FOURCC a b c d = 0"
  also have "0 = MMAL_FOURCC (CHR 0x00) (CHR 0x00) (CHR 0x00) (CHR 0x00)" by (simp add: MMAL_FOURCC_def)
  finally show False using assms by simp
qed

definition fourcc :: "string \<Rightarrow> u32" where
  "fourcc s = MMAL_FOURCC (s ! 0) (s ! 1) (s ! 2) (s ! 3)"

text \<open>\<open>MMAL_ENCODING_UNKNOWN\<close> is defined in \<^verbatim>\<open>mmal/mmal_format.h\<close>.\<close>

definition MMAL_ENCODING_UNKNOWN :: u32 where "MMAL_ENCODING_UNKNOWN = 0"

definition MMAL_ENCODING_H264 :: u32 where "MMAL_ENCODING_H264 = fourcc ''H264''"
definition MMAL_ENCODING_H263 :: u32 where "MMAL_ENCODING_H263 = fourcc ''H263''"
definition MMAL_ENCODING_MP4V :: u32 where "MMAL_ENCODING_MP4V = fourcc ''MP4V''"
definition MMAL_ENCODING_MP2V :: u32 where "MMAL_ENCODING_MP2V = fourcc ''MP2V''"
definition MMAL_ENCODING_MP1V :: u32 where "MMAL_ENCODING_MP1V = fourcc ''MP1V''"
definition MMAL_ENCODING_WMV3 :: u32 where "MMAL_ENCODING_WMV3 = fourcc ''WMV3''"
definition MMAL_ENCODING_WMV2 :: u32 where "MMAL_ENCODING_WMV2 = fourcc ''WMV2''"
definition MMAL_ENCODING_WMV1 :: u32 where "MMAL_ENCODING_WMV1 = fourcc ''WMV1''"
definition MMAL_ENCODING_WVC1 :: u32 where "MMAL_ENCODING_WVC1 = fourcc ''WVC1''"
definition MMAL_ENCODING_VP8 :: u32 where "MMAL_ENCODING_VP8 = fourcc ''VP8 ''"
definition MMAL_ENCODING_VP7 :: u32 where "MMAL_ENCODING_VP7 = fourcc ''VP7 ''"
definition MMAL_ENCODING_VP6 :: u32 where "MMAL_ENCODING_VP6 = fourcc ''VP6 ''"
definition MMAL_ENCODING_THEORA :: u32 where "MMAL_ENCODING_THEORA = fourcc ''THEO''"
definition MMAL_ENCODING_SPARK :: u32 where "MMAL_ENCODING_SPARK = fourcc ''SPRK''"
definition MMAL_ENCODING_MJPEG :: u32 where "MMAL_ENCODING_MJPEG = fourcc ''MJPG''"
definition MMAL_ENCODING_JPEG :: u32 where "MMAL_ENCODING_JPEG = fourcc ''JPEG''"
definition MMAL_ENCODING_GIF :: u32 where "MMAL_ENCODING_GIF = fourcc ''GIF ''"
definition MMAL_ENCODING_PNG :: u32 where "MMAL_ENCODING_PNG = fourcc ''PNG ''"
definition MMAL_ENCODING_PPM :: u32 where "MMAL_ENCODING_PPM = fourcc ''PPM ''"
definition MMAL_ENCODING_TGA :: u32 where "MMAL_ENCODING_TGA = fourcc ''TGA ''"
definition MMAL_ENCODING_BMP :: u32 where "MMAL_ENCODING_BMP = fourcc ''BMP ''"
definition MMAL_ENCODING_I420 :: u32 where "MMAL_ENCODING_I420 = fourcc ''I420''"
definition MMAL_ENCODING_I420_SLICE :: u32 where "MMAL_ENCODING_I420_SLICE = fourcc ''S420''"
definition MMAL_ENCODING_YV12 :: u32 where "MMAL_ENCODING_YV12 = fourcc ''YV12''"
definition MMAL_ENCODING_I422 :: u32 where "MMAL_ENCODING_I422 = fourcc ''I422''"
definition MMAL_ENCODING_I422_SLICE :: u32 where "MMAL_ENCODING_I422_SLICE = fourcc ''S422''"
definition MMAL_ENCODING_YUYV :: u32 where "MMAL_ENCODING_YUYV = fourcc ''YUYV''"
definition MMAL_ENCODING_YVYU :: u32 where "MMAL_ENCODING_YVYU = fourcc ''YVYU''"
definition MMAL_ENCODING_UYVY :: u32 where "MMAL_ENCODING_UYVY = fourcc ''UYVY''"
definition MMAL_ENCODING_VYUY :: u32 where "MMAL_ENCODING_VYUY = fourcc ''VYUY''"
definition MMAL_ENCODING_NV12 :: u32 where "MMAL_ENCODING_NV12 = fourcc ''NV12''"
definition MMAL_ENCODING_NV21 :: u32 where "MMAL_ENCODING_NV21 = fourcc ''NV21''"
definition MMAL_ENCODING_ARGB :: u32 where "MMAL_ENCODING_ARGB = fourcc ''ARGB''"
definition MMAL_ENCODING_RGBA :: u32 where "MMAL_ENCODING_RGBA = fourcc ''RGBA''"
definition MMAL_ENCODING_ABGR :: u32 where "MMAL_ENCODING_ABGR = fourcc ''ABGR''"
definition MMAL_ENCODING_BGRA :: u32 where "MMAL_ENCODING_BGRA = fourcc ''BGRA''"
definition MMAL_ENCODING_RGB16 :: u32 where "MMAL_ENCODING_RGB16 = fourcc ''RGB2''"
definition MMAL_ENCODING_RGB24 :: u32 where "MMAL_ENCODING_RGB24 = fourcc ''RGB3''"
definition MMAL_ENCODING_RGB32 :: u32 where "MMAL_ENCODING_RGB32 = fourcc ''RGB4''"
definition MMAL_ENCODING_BGR16 :: u32 where "MMAL_ENCODING_BGR16 = fourcc ''BGR2''"
definition MMAL_ENCODING_BGR24 :: u32 where "MMAL_ENCODING_BGR24 = fourcc ''BGR3''"
definition MMAL_ENCODING_BGR32 :: u32 where "MMAL_ENCODING_BGR32 = fourcc ''BGR4''"
definition MMAL_ENCODING_YUVUV128 :: u32 where "MMAL_ENCODING_YUVUV128 = fourcc ''SAND''"
definition MMAL_ENCODING_OPAQUE :: u32 where "MMAL_ENCODING_OPAQUE = fourcc ''OPQV''"
definition MMAL_ENCODING_EGL_IMAGE :: u32 where "MMAL_ENCODING_EGL_IMAGE = fourcc ''EGLI''"
definition MMAL_ENCODING_PCM_UNSIGNED_BE :: u32 where "MMAL_ENCODING_PCM_UNSIGNED_BE = fourcc ''PCMU''"
definition MMAL_ENCODING_PCM_UNSIGNED_LE :: u32 where "MMAL_ENCODING_PCM_UNSIGNED_LE = fourcc ''pcmu''"
definition MMAL_ENCODING_PCM_SIGNED_BE :: u32 where "MMAL_ENCODING_PCM_SIGNED_BE = fourcc ''PCMS''"
definition MMAL_ENCODING_PCM_SIGNED_LE :: u32 where "MMAL_ENCODING_PCM_SIGNED_LE = fourcc ''pcms''"
definition MMAL_ENCODING_PCM_FLOAT_BE :: u32 where "MMAL_ENCODING_PCM_FLOAT_BE = fourcc ''PCMF''"
definition MMAL_ENCODING_PCM_FLOAT_LE :: u32 where "MMAL_ENCODING_PCM_FLOAT_LE = fourcc ''pcmf''"
definition MMAL_ENCODING_PCM_UNSIGNED :: u32 where "MMAL_ENCODING_PCM_UNSIGNED = MMAL_ENCODING_PCM_UNSIGNED_LE"
definition MMAL_ENCODING_PCM_SIGNED :: u32 where "MMAL_ENCODING_PCM_SIGNED = MMAL_ENCODING_PCM_SIGNED_LE"
definition MMAL_ENCODING_PCM_FLOAT :: u32 where "MMAL_ENCODING_PCM_FLOAT = MMAL_ENCODING_PCM_FLOAT_LE"
definition MMAL_ENCODING_MP4A :: u32 where "MMAL_ENCODING_MP4A = fourcc ''MP4A''"
definition MMAL_ENCODING_MPGA :: u32 where "MMAL_ENCODING_MPGA = fourcc ''MPGA''"
definition MMAL_ENCODING_ALAW :: u32 where "MMAL_ENCODING_ALAW = fourcc ''ALAW''"
definition MMAL_ENCODING_MULAW :: u32 where "MMAL_ENCODING_MULAW = fourcc ''ULAW''"
definition MMAL_ENCODING_ADPCM_MS :: u32 where "MMAL_ENCODING_ADPCM_MS = MMAL_FOURCC (CHR ''M'') (CHR ''S'') (CHR 0x00) (CHR 0x02)"
definition MMAL_ENCODING_ADPCM_IMA_MS :: u32 where "MMAL_ENCODING_ADPCM_IMA_MS = MMAL_FOURCC (CHR ''M'') (CHR ''S'') (CHR 0x00) (CHR 0x01)"
definition MMAL_ENCODING_ADPCM_SWF :: u32 where "MMAL_ENCODING_ADPCM_SWF = fourcc ''ASWF''"
definition MMAL_ENCODING_WMA1 :: u32 where "MMAL_ENCODING_WMA1 = fourcc ''WMA1''"
definition MMAL_ENCODING_WMA2 :: u32 where "MMAL_ENCODING_WMA2 = fourcc ''WMA2''"
definition MMAL_ENCODING_WMAP :: u32 where "MMAL_ENCODING_WMAP = fourcc ''WMAP''"
definition MMAL_ENCODING_WMAL :: u32 where "MMAL_ENCODING_WMAL = fourcc ''WMAL''"
definition MMAL_ENCODING_WMAV :: u32 where "MMAL_ENCODING_WMAV = fourcc ''WMAV''"
definition MMAL_ENCODING_AMRNB :: u32 where "MMAL_ENCODING_AMRNB = fourcc ''AMRN''"
definition MMAL_ENCODING_AMRWB :: u32 where "MMAL_ENCODING_AMRWB = fourcc ''AMRW''"
definition MMAL_ENCODING_AMRWBP :: u32 where "MMAL_ENCODING_AMRWBP = fourcc ''AMRP''"
definition MMAL_ENCODING_AC3 :: u32 where "MMAL_ENCODING_AC3 = fourcc ''AC3 ''"
definition MMAL_ENCODING_EAC3 :: u32 where "MMAL_ENCODING_EAC3 = fourcc ''EAC3''"
definition MMAL_ENCODING_DTS :: u32 where "MMAL_ENCODING_DTS = fourcc ''DTS ''"
definition MMAL_ENCODING_MLP :: u32 where "MMAL_ENCODING_MLP = fourcc ''MLP ''"
definition MMAL_ENCODING_FLAC :: u32 where "MMAL_ENCODING_FLAC = fourcc ''FLAC''"
definition MMAL_ENCODING_VORBIS :: u32 where "MMAL_ENCODING_VORBIS = fourcc ''VORB''"
definition MMAL_ENCODING_SPEEX :: u32 where "MMAL_ENCODING_SPEEX = fourcc ''SPX ''"
definition MMAL_ENCODING_ATRAC3 :: u32 where "MMAL_ENCODING_ATRAC3 = fourcc ''ATR3''"
definition MMAL_ENCODING_ATRACX :: u32 where "MMAL_ENCODING_ATRACX = fourcc ''ATRX''"
definition MMAL_ENCODING_ATRACL :: u32 where "MMAL_ENCODING_ATRACL = fourcc ''ATRL''"
definition MMAL_ENCODING_MIDI :: u32 where "MMAL_ENCODING_MIDI = fourcc ''MIDI''"
definition MMAL_ENCODING_EVRC :: u32 where "MMAL_ENCODING_EVRC = fourcc ''EVRC''"
definition MMAL_ENCODING_NELLYMOSER :: u32 where "MMAL_ENCODING_NELLYMOSER = fourcc ''NELY''"
definition MMAL_ENCODING_QCELP :: u32 where "MMAL_ENCODING_QCELP = fourcc ''QCEL''"
definition MMAL_ENCODING_MP4V_DIVX_DRM :: u32 where "MMAL_ENCODING_MP4V_DIVX_DRM = fourcc ''M4VD''"
definition MMAL_ENCODING_VARIANT_H264_DEFAULT :: u32 where "MMAL_ENCODING_VARIANT_H264_DEFAULT = 0"
definition MMAL_ENCODING_VARIANT_H264_AVC1 :: u32 where "MMAL_ENCODING_VARIANT_H264_AVC1 = fourcc ''AVC1''"
definition MMAL_ENCODING_VARIANT_H264_RAW :: u32 where "MMAL_ENCODING_VARIANT_H264_RAW = fourcc ''RAW ''"
definition MMAL_ENCODING_VARIANT_MP4A_DEFAULT :: u32 where "MMAL_ENCODING_VARIANT_MP4A_DEFAULT = 0"
definition MMAL_ENCODING_VARIANT_MP4A_ADTS :: u32 where "MMAL_ENCODING_VARIANT_MP4A_ADTS = fourcc ''ADTS''"
definition MMAL_COLOR_SPACE_UNKNOWN :: u32 where "MMAL_COLOR_SPACE_UNKNOWN = 0"
definition MMAL_COLOR_SPACE_ITUR_BT601 :: u32 where "MMAL_COLOR_SPACE_ITUR_BT601 = fourcc ''Y601''"
definition MMAL_COLOR_SPACE_ITUR_BT709 :: u32 where "MMAL_COLOR_SPACE_ITUR_BT709 = fourcc ''Y709''"
definition MMAL_COLOR_SPACE_JPEG_JFIF :: u32 where "MMAL_COLOR_SPACE_JPEG_JFIF = fourcc ''YJFI''"
definition MMAL_COLOR_SPACE_FCC :: u32 where "MMAL_COLOR_SPACE_FCC = fourcc ''YFCC''"
definition MMAL_COLOR_SPACE_SMPTE240M :: u32 where "MMAL_COLOR_SPACE_SMPTE240M = fourcc ''Y240''"
definition MMAL_COLOR_SPACE_BT470_2_M :: u32 where "MMAL_COLOR_SPACE_BT470_2_M = fourcc ''Y__M''"
definition MMAL_COLOR_SPACE_BT470_2_BG :: u32 where "MMAL_COLOR_SPACE_BT470_2_BG = fourcc ''Y_BG''"
definition MMAL_COLOR_SPACE_JFIF_Y16_255 :: u32 where "MMAL_COLOR_SPACE_JFIF_Y16_255 = fourcc ''YY16''"

text \<open>The encodings without the names for the byte order of the machine and without the variants.\<close>

definition encodings :: "u32 list" where
  "encodings = [MMAL_ENCODING_UNKNOWN, MMAL_ENCODING_H264, MMAL_ENCODING_H263, MMAL_ENCODING_MP4V, MMAL_ENCODING_MP2V,
     MMAL_ENCODING_MP1V, MMAL_ENCODING_WMV3, MMAL_ENCODING_WMV2, MMAL_ENCODING_WMV1,
     MMAL_ENCODING_WVC1, MMAL_ENCODING_VP8, MMAL_ENCODING_VP7, MMAL_ENCODING_VP6,
     MMAL_ENCODING_THEORA, MMAL_ENCODING_SPARK, MMAL_ENCODING_MJPEG, MMAL_ENCODING_JPEG,
     MMAL_ENCODING_GIF, MMAL_ENCODING_PNG, MMAL_ENCODING_PPM, MMAL_ENCODING_TGA,
     MMAL_ENCODING_BMP, MMAL_ENCODING_I420, MMAL_ENCODING_I420_SLICE, MMAL_ENCODING_YV12,
     MMAL_ENCODING_I422, MMAL_ENCODING_I422_SLICE, MMAL_ENCODING_YUYV, MMAL_ENCODING_YVYU,
     MMAL_ENCODING_UYVY, MMAL_ENCODING_VYUY, MMAL_ENCODING_NV12, MMAL_ENCODING_NV21,
     MMAL_ENCODING_ARGB, MMAL_ENCODING_RGBA, MMAL_ENCODING_ABGR, MMAL_ENCODING_BGRA,
     MMAL_ENCODING_RGB16, MMAL_ENCODING_RGB24, MMAL_ENCODING_RGB32, MMAL_ENCODING_BGR16,
     MMAL_ENCODING_BGR24, MMAL_ENCODING_BGR32, MMAL_ENCODING_YUVUV128, MMAL_ENCODING_OPAQUE,
     MMAL_ENCODING_EGL_IMAGE, MMAL_ENCODING_PCM_UNSIGNED_BE, MMAL_ENCODING_PCM_UNSIGNED_LE, MMAL_ENCODING_PCM_SIGNED_BE,
     MMAL_ENCODING_PCM_SIGNED_LE, MMAL_ENCODING_PCM_FLOAT_BE, MMAL_ENCODING_PCM_FLOAT_LE, MMAL_ENCODING_MP4A,
     MMAL_ENCODING_MPGA, MMAL_ENCODING_ALAW, MMAL_ENCODING_MULAW, MMAL_ENCODING_ADPCM_MS,
     MMAL_ENCODING_ADPCM_IMA_MS, MMAL_ENCODING_ADPCM_SWF, MMAL_ENCODING_WMA1, MMAL_ENCODING_WMA2,
     MMAL_ENCODING_WMAP, MMAL_ENCODING_WMAL, MMAL_ENCODING_WMAV, MMAL_ENCODING_AMRNB,
     MMAL_ENCODING_AMRWB, MMAL_ENCODING_AMRWBP, MMAL_ENCODING_AC3, MMAL_ENCODING_EAC3,
     MMAL_ENCODING_DTS, MMAL_ENCODING_MLP, MMAL_ENCODING_FLAC, MMAL_ENCODING_VORBIS,
     MMAL_ENCODING_SPEEX, MMAL_ENCODING_ATRAC3, MMAL_ENCODING_ATRACX, MMAL_ENCODING_ATRACL,
     MMAL_ENCODING_MIDI, MMAL_ENCODING_EVRC, MMAL_ENCODING_NELLYMOSER, MMAL_ENCODING_QCELP,
     MMAL_ENCODING_MP4V_DIVX_DRM]"

lemmas encoding_defs = fourcc_def
  MMAL_ENCODING_UNKNOWN_def MMAL_ENCODING_H264_def MMAL_ENCODING_H263_def MMAL_ENCODING_MP4V_def
  MMAL_ENCODING_MP2V_def MMAL_ENCODING_MP1V_def MMAL_ENCODING_WMV3_def MMAL_ENCODING_WMV2_def
  MMAL_ENCODING_WMV1_def MMAL_ENCODING_WVC1_def MMAL_ENCODING_VP8_def MMAL_ENCODING_VP7_def
  MMAL_ENCODING_VP6_def MMAL_ENCODING_THEORA_def MMAL_ENCODING_SPARK_def MMAL_ENCODING_MJPEG_def
  MMAL_ENCODING_JPEG_def MMAL_ENCODING_GIF_def MMAL_ENCODING_PNG_def MMAL_ENCODING_PPM_def
  MMAL_ENCODING_TGA_def MMAL_ENCODING_BMP_def MMAL_ENCODING_I420_def MMAL_ENCODING_I420_SLICE_def
  MMAL_ENCODING_YV12_def MMAL_ENCODING_I422_def MMAL_ENCODING_I422_SLICE_def MMAL_ENCODING_YUYV_def
  MMAL_ENCODING_YVYU_def MMAL_ENCODING_UYVY_def MMAL_ENCODING_VYUY_def MMAL_ENCODING_NV12_def
  MMAL_ENCODING_NV21_def MMAL_ENCODING_ARGB_def MMAL_ENCODING_RGBA_def MMAL_ENCODING_ABGR_def
  MMAL_ENCODING_BGRA_def MMAL_ENCODING_RGB16_def MMAL_ENCODING_RGB24_def MMAL_ENCODING_RGB32_def
  MMAL_ENCODING_BGR16_def MMAL_ENCODING_BGR24_def MMAL_ENCODING_BGR32_def MMAL_ENCODING_YUVUV128_def
  MMAL_ENCODING_OPAQUE_def MMAL_ENCODING_EGL_IMAGE_def MMAL_ENCODING_PCM_UNSIGNED_BE_def MMAL_ENCODING_PCM_UNSIGNED_LE_def
  MMAL_ENCODING_PCM_SIGNED_BE_def MMAL_ENCODING_PCM_SIGNED_LE_def MMAL_ENCODING_PCM_FLOAT_BE_def MMAL_ENCODING_PCM_FLOAT_LE_def
  MMAL_ENCODING_MP4A_def MMAL_ENCODING_MPGA_def MMAL_ENCODING_ALAW_def MMAL_ENCODING_MULAW_def
  MMAL_ENCODING_ADPCM_MS_def MMAL_ENCODING_ADPCM_IMA_MS_def MMAL_ENCODING_ADPCM_SWF_def MMAL_ENCODING_WMA1_def
  MMAL_ENCODING_WMA2_def MMAL_ENCODING_WMAP_def MMAL_ENCODING_WMAL_def MMAL_ENCODING_WMAV_def
  MMAL_ENCODING_AMRNB_def MMAL_ENCODING_AMRWB_def MMAL_ENCODING_AMRWBP_def MMAL_ENCODING_AC3_def
  MMAL_ENCODING_EAC3_def MMAL_ENCODING_DTS_def MMAL_ENCODING_MLP_def MMAL_ENCODING_FLAC_def
  MMAL_ENCODING_VORBIS_def MMAL_ENCODING_SPEEX_def MMAL_ENCODING_ATRAC3_def MMAL_ENCODING_ATRACX_def
  MMAL_ENCODING_ATRACL_def MMAL_ENCODING_MIDI_def MMAL_ENCODING_EVRC_def MMAL_ENCODING_NELLYMOSER_def
  MMAL_ENCODING_QCELP_def MMAL_ENCODING_MP4V_DIVX_DRM_def

lemma encodings_distinct: "distinct encodings"
  by (simp add: encodings_def encoding_defs MMAL_FOURCC_nonzero MMAL_FOURCC_nonzero [symmetric])
end
