(* ===== verification/Util.thy ===== *)
theory Util
  imports Port Encodings
begin

text \<open>
  The helpers of \<^verbatim>\<open>mmal/util/mmal_util.c\<close>: names of status codes and port types, the width of pictures in bytes and in pixels,
  the ports of a component by type and index, parameters of unknown size, and four character codes as text.
\<close>

section \<open>Names\<close>

definition status_to_string_map :: "(mmal_status \<times> string) list" where
  "status_to_string_map =
     [(MMAL_SUCCESS, ''SUCCESS''), (MMAL_ENOMEM, ''ENOMEM''), (MMAL_ENOSPC, ''ENOSPC''), (MMAL_EINVAL, ''EINVAL''),
      (MMAL_ENOSYS, ''ENOSYS''), (MMAL_ENOENT, ''ENOENT''), (MMAL_ENXIO, ''ENXIO''), (MMAL_EIO, ''EIO''),
      (MMAL_ESPIPE, ''ESPIPE''), (MMAL_ECORRUPT, ''ECORRUPT''), (MMAL_ENOTREADY, ''ENOTREADY''),
      (MMAL_ECONFIG, ''ECONFIG'')]"

definition mmal_status_to_string :: "mmal_status \<Rightarrow> string" where
  "mmal_status_to_string status =
     (case map_of status_to_string_map status of Some str \<Rightarrow> str | None \<Rightarrow> ''UNKNOWN'')"

definition mmal_port_type_to_string :: "mmal_port_type \<Rightarrow> string" where
  "mmal_port_type_to_string type =
     (case type of
        MMAL_PORT_TYPE_INPUT \<Rightarrow> ''in'' | MMAL_PORT_TYPE_OUTPUT \<Rightarrow> ''out'' | MMAL_PORT_TYPE_CLOCK \<Rightarrow> ''clk''
      | MMAL_PORT_TYPE_CONTROL \<Rightarrow> ''ctr'' | _ \<Rightarrow> ''invalid'')"

section \<open>Widths of pictures\<close>

definition pixel_pitch :: "(u32 \<times> u32 \<times> u32) list" where
  "pixel_pitch =
     [(MMAL_ENCODING_I420, 1, 1), (MMAL_ENCODING_YV12, 1, 1), (MMAL_ENCODING_I422, 1, 1), (MMAL_ENCODING_NV21, 1, 1),
      (MMAL_ENCODING_NV12, 1, 1), (MMAL_ENCODING_ARGB, 4, 1), (MMAL_ENCODING_RGBA, 4, 1), (MMAL_ENCODING_RGB32, 4, 1),
      (MMAL_ENCODING_ABGR, 4, 1), (MMAL_ENCODING_BGRA, 4, 1), (MMAL_ENCODING_BGR32, 4, 1), (MMAL_ENCODING_RGB16, 2, 1),
      (MMAL_ENCODING_RGB24, 3, 1), (MMAL_ENCODING_BGR16, 2, 1), (MMAL_ENCODING_BGR24, 3, 1),
      (MMAL_ENCODING_YUYV, 2, 1), (MMAL_ENCODING_YVYU, 2, 1), (MMAL_ENCODING_UYVY, 2, 1), (MMAL_ENCODING_VYUY, 2, 1)]"

definition mmal_encoding_stride_to_width :: "u32 \<Rightarrow> u32 \<Rightarrow> u32" where
  "mmal_encoding_stride_to_width encoding stride =
     (case map_of pixel_pitch encoding of None \<Rightarrow> 0 | Some (pitch_num, pitch_den) \<Rightarrow> pitch_den * stride div pitch_num)"

definition mmal_encoding_width_to_stride :: "u32 \<Rightarrow> u32 \<Rightarrow> u32" where
  "mmal_encoding_width_to_stride encoding width =
     (case map_of pixel_pitch encoding of None \<Rightarrow> 0 | Some (pitch_num, pitch_den) \<Rightarrow> pitch_num * width div pitch_den)"

section \<open>Ports of a component\<close>

definition mmal_util_get_port :: "addr \<Rightarrow> mmal_port_type \<Rightarrow> nat \<Rightarrow> 'a mmal_store_scheme \<Rightarrow> addr option" where
  "mmal_util_get_port c type index s =
     (let nth = (\<lambda>ps. if index < length ps then Some (ps ! index) else None);
          k = components s c
      in case type of
           MMAL_PORT_TYPE_INPUT \<Rightarrow> nth (comp_input k)
         | MMAL_PORT_TYPE_OUTPUT \<Rightarrow> nth (comp_output k)
         | MMAL_PORT_TYPE_CLOCK \<Rightarrow> nth (comp_clock k)
         | MMAL_PORT_TYPE_CONTROL \<Rightarrow> if index < 1 then comp_control k else None
         | _ \<Rightarrow> None)"

section \<open>Parameters of unknown size\<close>

definition sizeof_MMAL_PARAMETER_HEADER_T :: u32 where "sizeof_MMAL_PARAMETER_HEADER_T = 8"

text \<open>The size field of the header of a parameter: header, then the fields of the struct.\<close>

definition parameter_size :: "mmal_parameter \<Rightarrow> u32" where
  "parameter_size param =
     (case param of Param_core_statistics _ _ _ \<Rightarrow> 32 | Param_buffer_requirements _ _ _ _ _ \<Rightarrow> 28 | Param_other _ sz _ \<Rightarrow> sz)"

text \<open>One attempt: a zeroed block with a header, filled by the port.\<close>

definition get_parameter_of_size ::
  "('a mmal_store_scheme) port_env \<Rightarrow> addr option \<Rightarrow> u32 \<Rightarrow> u32 \<Rightarrow> 'a mmal_store_scheme \<Rightarrow>
   (mmal_status \<times> (addr \<times> mmal_parameter) option \<times> 'a mmal_store_scheme) option" where
  "get_parameter_of_size env port pid sz s =
     (case vcos_calloc 1 sz s of
        (None, s) \<Rightarrow> Some (MMAL_ENOMEM, None, s)
      | (Some a, s) \<Rightarrow> do {
          (status, param, s) \<leftarrow> mmal_port_parameter_get env port (Some (Param_other pid sz [])) s;
          Some (status, map_option (Pair a) param, s)
        })"

definition drop_parameter ::
  "mmal_status \<Rightarrow> (addr \<times> mmal_parameter) option \<Rightarrow> 'a mmal_store_scheme \<Rightarrow>
   mmal_status \<times> (addr \<times> mmal_parameter) option \<times> 'a mmal_store_scheme" where
  "drop_parameter status param s =
     (status, None, case param of None \<Rightarrow> s | Some (a, _) \<Rightarrow> vcos_free (Some a) s)"

text \<open>The result is the block and what is in it.  Parameters that the core itself answers are left out.\<close>

definition mmal_port_parameter_alloc_get ::
  "('a mmal_store_scheme) port_env \<Rightarrow> addr option \<Rightarrow> u32 \<Rightarrow> u32 \<Rightarrow> 'a mmal_store_scheme \<Rightarrow>
   (mmal_status \<times> (addr \<times> mmal_parameter) option \<times> 'a mmal_store_scheme) option" where
  "mmal_port_parameter_alloc_get env port pid sz s = do {
     let sz = (if sz < sizeof_MMAL_PARAMETER_HEADER_T then sizeof_MMAL_PARAMETER_HEADER_T else sz);
     (status, param, s) \<leftarrow> get_parameter_of_size env port pid sz s;
     (status, param, s) \<leftarrow>
       (case param of
          Some (a, p) \<Rightarrow>
            if status = MMAL_ENOSPC then get_parameter_of_size env port pid (parameter_size p) (vcos_free (Some a) s)
            else Some (status, param, s)
        | None \<Rightarrow> Some (status, param, s));
     Some (if status \<noteq> MMAL_SUCCESS then drop_parameter status param s else (status, param, s))
   }"

definition mmal_port_parameter_free :: "addr option \<Rightarrow> 'a mmal_store_scheme \<Rightarrow> 'a mmal_store_scheme" where
  "mmal_port_parameter_free param s = vcos_free param s"

section \<open>Four character codes as text\<close>

definition bytes_of_u32 :: "u32 \<Rightarrow> string" where
  "bytes_of_u32 w = map (\<lambda>i. char_of (unat (take_bit 8 (drop_bit (8 * i) w)))) [0..<4]"

text \<open>The characters written to the buffer.\<close>

definition mmal_4cc_to_string :: "nat \<Rightarrow> u32 \<Rightarrow> string" where
  "mmal_4cc_to_string len code =
     (if len < 5 then [CHR 0x00]
      else if code \<noteq> 0 then bytes_of_u32 code @ [CHR 0x00]
      else ''<0>'' @ [CHR 0x00])"

section \<open>Correctness\<close>

lemma pixel_pitch_lookup: "map_of pixel_pitch e = Some (n, d) \<Longrightarrow> d = 1 \<and> 0 < n \<and> n \<le> 4"
  by (drule map_of_SomeD) (auto simp: pixel_pitch_def)

text \<open>
  For every encoding with a known pitch, the width computed from the stride of a width is that width, as long as the
  stride fits into 32 bits.
\<close>

theorem mmal_encoding_stride_roundtrip:
  assumes "e \<in> fst ` set pixel_pitch" "4 * unat w < 2 ^ 32"
  shows "mmal_encoding_stride_to_width e (mmal_encoding_width_to_stride e w) = w"
proof -
  obtain n d where nd: "map_of pixel_pitch e = Some (n, d)"
    using assms(1) by (metis map_of_eq_None_iff not_None_eq surj_pair)
  note pitch = pixel_pitch_lookup [OF nd]
  have "unat n * unat w \<le> 4 * unat w" using pitch by (intro mult_right_mono) (simp_all add: word_le_nat_alt)
  with assms(2) have "unat n * unat w < 2 ^ 32" by linarith
  then have "unat (n * w) = unat n * unat w" by (simp add: unat_word_ariths)
  moreover have "0 < unat n" using pitch by (simp add: word_less_nat_alt)
  ultimately have "unat (n * w div n) = unat w" by (simp add: unat_div)
  then have "n * w div n = w" by (simp only: word_unat_eq_iff)
  then show ?thesis using nd pitch
    by (simp add: mmal_encoding_stride_to_width_def mmal_encoding_width_to_stride_def)
qed

theorem mmal_encoding_stride_roundtrip_witness:
  "mmal_encoding_stride_to_width MMAL_ENCODING_BGR24 (mmal_encoding_width_to_stride MMAL_ENCODING_BGR24 1280) = 1280"
  by (rule mmal_encoding_stride_roundtrip) (simp_all add: pixel_pitch_def)

text \<open>
  The text of a four character code is its four characters, in order, and a terminating zero.
\<close>

theorem mmal_4cc_to_string_roundtrip:
  assumes "5 \<le> len" "a \<noteq> CHR 0x00"
  shows "mmal_4cc_to_string len (MMAL_FOURCC a b c d) = [a, b, c, d, CHR 0x00]"
proof -
  have "bytes_of_u32 (MMAL_FOURCC a b c d) = [a, b, c, d]"
    by (simp add: bytes_of_u32_def upt_conv_Cons fourcc_bytes unat_of_char)
  then show ?thesis using assms by (simp add: mmal_4cc_to_string_def MMAL_FOURCC_nonzero)
qed

theorem mmal_4cc_to_string_roundtrip_witness:
  "mmal_4cc_to_string 5 MMAL_ENCODING_H264 = ''H264'' @ [CHR 0x00]"
  using mmal_4cc_to_string_roundtrip [of 5 "CHR ''H''" "CHR ''2''" "CHR ''6''" "CHR ''4''"]
  by (simp add: encoding_defs)

text \<open>The parameter functions of the modules come back and leave the memory alone.\<close>

definition answering_modules :: "('a mmal_store_scheme) port_env \<Rightarrow> bool" where
  "answering_modules env \<longleftrightarrow>
     (\<forall>n p param s. \<exists>status param' s'. on_parameter_get env n p param s = Some (status, param', s') \<and>
        live s' = live s \<and> mallocs s' = mallocs s)"

lemma private_get_live:
  obtains status param' s' where "mmal_port_private_parameter_get p param s = (status, param', s')" "live s' = live s" "mallocs s' = mallocs s"
  by (cases param; cases "case param of Param_core_statistics dir _ _ \<Rightarrow> dir | _ \<Rightarrow> MMAL_CORE_STATS_RX")
    (auto simp: mmal_port_private_parameter_get_def mmal_port_get_core_stats_def)

lemma parameter_get_live:
  assumes "answering_modules env"
  obtains status param' s' where "mmal_port_parameter_get env port (Some (Param_other pid sz bs)) s = Some (status, Some param', s')"
    "live s' = live s" "mallocs s' = mallocs s"
proof (cases port)
  case None
  then show ?thesis using that [of MMAL_EINVAL "Param_other pid sz bs" s] by (simp add: mmal_port_parameter_get_def)
next
  case (Some p)
  show ?thesis
  proof (cases "pf_parameter_get (ports s p)")
    case (Some f)
    show ?thesis
    proof (cases f)
      case Control_port_fn
      then show ?thesis using Some \<open>port = Some p\<close> that [of MMAL_ENOSYS "Param_other pid sz bs" s]
        by (simp add: mmal_port_parameter_get_def mmal_component_parameter_get_def mmal_port_private_parameter_get_def)
    next
      case (Module_fn n)
      from assms obtain status param' s' where "on_parameter_get env n p (Param_other pid sz bs) s = Some (status, param', s')"
        "live s' = live s" "mallocs s' = mallocs s" unfolding answering_modules_def by metis
      moreover obtain status'' param'' s'' where "mmal_port_private_parameter_get p param' s' = (status'', param'', s'')"
        "live s'' = live s'" "mallocs s'' = mallocs s'" by (rule private_get_live)
      ultimately show ?thesis using Some Module_fn \<open>port = Some p\<close> that
        by (cases "status = MMAL_ENOSYS") (simp_all add: mmal_port_parameter_get_def)
    qed
  next
    case None
    then show ?thesis using \<open>port = Some p\<close> that [of MMAL_ENOSYS "Param_other pid sz bs" s]
      by (simp add: mmal_port_parameter_get_def mmal_port_private_parameter_get_def)
  qed
qed

lemma get_of_size_cases:
  assumes m: "answering_modules env" and fresh: "fresh_allocs s"
  obtains t where "get_parameter_of_size env port pid sz s = Some (MMAL_ENOMEM, None, t)" "live t = live s"
  | a status param t where "get_parameter_of_size env port pid sz s = Some (status, Some (a, param), t)"
      "live t = (a, sz) # live s" "a \<notin> fst ` set (live s)" "fresh_allocs t"
proof (cases "vcos_calloc 1 sz s")
  case (Pair r u)
  then have u: "vcos_malloc sz s = (r, u)" by (simp add: vcos_calloc_def)
  show ?thesis
  proof (cases r)
    case None
    then show ?thesis using Pair u vcos_malloc_None [of sz s u] that(1) [of u] by (simp add: get_parameter_of_size_def)
  next
    case (Some a)
    obtain status param t where t: "mmal_port_parameter_get env port (Some (Param_other pid sz [])) u = Some (status, Some param, t)"
      "live t = live u" "mallocs t = mallocs u" by (rule parameter_get_live [OF m])
    note u' = vcos_malloc_Some [OF u [unfolded Some] fresh]
    have "fresh_allocs t" using u'(3) t(2,3) by (simp add: fresh_allocs_def granted_def)
    then show ?thesis using Pair Some t u'(1,2) that(2) [of status a param t] by (simp add: get_parameter_of_size_def)
  qed
qed

lemma live_free_new: "live t = (a, b) # l \<Longrightarrow> a \<notin> fst ` set l \<Longrightarrow> live (vcos_free (Some a) t) = l"
  by (simp add: vcos_free_def vcos_free_fresh)

text \<open>
  Getting a parameter of unknown size returns, whatever the port answers, after at most two allocations.  On success the
  caller has exactly one new block, which \<open>mmal_port_parameter_free\<close> gives back; on failure nothing is left allocated.
\<close>

theorem mmal_port_parameter_alloc_get_balanced:
  assumes m: "answering_modules env" and fresh: "fresh_allocs s"
  shows "\<exists>status res s'. mmal_port_parameter_alloc_get env port pid sz s = Some (status, res, s') \<and>
     (case res of
        None \<Rightarrow> status \<noteq> MMAL_SUCCESS \<and> live s' = live s
      | Some (a, param) \<Rightarrow> status = MMAL_SUCCESS \<and> (\<exists>b. live s' = (a, b) # live s) \<and>
          live (mmal_port_parameter_free (Some a) s') = live s)"
proof -
  define sz' where "sz' = (if sz < sizeof_MMAL_PARAMETER_HEADER_T then sizeof_MMAL_PARAMETER_HEADER_T else sz)"
  show ?thesis
  proof (cases rule: get_of_size_cases [OF m fresh, of port pid sz'])
    case (1 t)
    then show ?thesis by (simp add: mmal_port_parameter_alloc_get_def flip: sz'_def) (simp add: drop_parameter_def)
  next
    case (2 a status param t)
    note new = live_free_new [OF 2(2,3)]
    show ?thesis
    proof (cases "status = MMAL_ENOSPC")
      case False
      then show ?thesis using 2(1,2) new
        by (simp add: mmal_port_parameter_alloc_get_def flip: sz'_def)
          (simp add: drop_parameter_def mmal_port_parameter_free_def)
    next
      case True
      have fresh': "fresh_allocs (vcos_free (Some a) t)" using 2(4) by (rule fresh_allocs_free)
      show ?thesis
      proof (cases rule: get_of_size_cases [OF m fresh', of port pid "parameter_size param"])
        case again: (1 u)
        then show ?thesis using True 2(1) new
          by (simp add: mmal_port_parameter_alloc_get_def flip: sz'_def) (simp add: drop_parameter_def)
      next
        case again: (2 a' status' param' u)
        have "live (vcos_free (Some a') u) = live s" using live_free_new [OF again(2,3)] new by simp
        then show ?thesis using True 2(1) new again(1,2)
          by (simp add: mmal_port_parameter_alloc_get_def flip: sz'_def)
            (simp add: drop_parameter_def mmal_port_parameter_free_def)
      qed
    qed
  qed
qed

text \<open>A port that first asks for 40 bytes.\<close>

definition sizing_env :: "mmal_store port_env" where
  "sizing_env = quiet_env\<lparr>on_parameter_get := (\<lambda>_ _ param s. Some (case param of
     Param_other i sz bs \<Rightarrow> if sz < 40 then (MMAL_ENOSPC, Param_other i 40 bs, s) else (MMAL_SUCCESS, Param_other i sz [7], s)
   | _ \<Rightarrow> (MMAL_ENOSYS, param, s)))\<rparr>"

theorem mmal_port_parameter_alloc_get_balanced_witness:
  "let s = upd_port 1 (\<lambda>pt. pt\<lparr>pf_parameter_get := Some (Module_fn 0)\<rparr>) (empty_mmal_store\<lparr>mallocs := [Some 8, Some 9]\<rparr>)
   in \<exists>status res s'. mmal_port_parameter_alloc_get sizing_env (Some 1) 5 8 s = Some (status, res, s') \<and>
     (res = None \<longrightarrow> live s' = live s)"
proof -
  let ?s = "upd_port 1 (\<lambda>pt. pt\<lparr>pf_parameter_get := Some (Module_fn 0)\<rparr>) (empty_mmal_store\<lparr>mallocs := [Some 8, Some 9]\<rparr>)"
  have "answering_modules sizing_env"
    by (auto simp: answering_modules_def sizing_env_def split: mmal_parameter.splits)
  moreover have "fresh_allocs ?s"
    by (simp add: fresh_allocs_def empty_mmal_store_def upd_port_def List.map_filter_simps)
  ultimately show ?thesis
    using mmal_port_parameter_alloc_get_balanced [of sizing_env ?s "Some 1" 5 8] by (fastforce simp: Let_def)
qed

end
