(* ===== verification/ParamConvert.thy ===== *)
theory ParamConvert
  imports Rational Encodings
begin

text \<open>
  Reading parameters from text, \<^verbatim>\<open>mmal/util/mmal_param_convert.c\<close>: numbers, rationals, sizes, codecs and rectangles.  What the
  code uses of the C library is written out for the 32-bit target: \<open>strtol\<close> and \<open>strtoul\<close> with base 0, \<open>strcasecmp\<close>, and
  \<open>sscanf\<close> with \<open>%d\<close> and literal characters.
\<close>

section \<open>The C library\<close>

definition digit_value :: "char \<Rightarrow> nat option" where
  "digit_value c =
     (let n = of_char c in
      if 48 \<le> n \<and> n \<le> 57 then Some (n - 48)
      else if 97 \<le> n \<and> n \<le> 122 then Some (n - 87)
      else if 65 \<le> n \<and> n \<le> 90 then Some (n - 55)
      else None)"

definition is_digit :: "nat \<Rightarrow> char \<Rightarrow> bool" where
  "is_digit base c \<longleftrightarrow> (case digit_value c of None \<Rightarrow> False | Some d \<Rightarrow> d < base)"

definition is_space :: "char \<Rightarrow> bool" where
  "is_space c \<longleftrightarrow> c \<in> {CHR '' '', CHR 0x09, CHR 0x0A, CHR 0x0B, CHR 0x0C, CHR 0x0D}"

fun scan_digits :: "nat \<Rightarrow> nat \<Rightarrow> string \<Rightarrow> nat \<times> string" where
  "scan_digits base acc [] = (acc, [])"
| "scan_digits base acc (c # cs) =
     (if is_digit base c then scan_digits base (acc * base + the (digit_value c)) cs else (acc, c # cs))"

definition scan_sign :: "string \<Rightarrow> bool \<times> string" where
  "scan_sign s =
     (case s of c # cs \<Rightarrow> if c = CHR ''-'' then (True, cs) else if c = CHR ''+'' then (False, cs) else (False, s) | [] \<Rightarrow> (False, s))"

text \<open>The base that the text announces, and the text behind the prefix.\<close>

definition scan_prefix :: "string \<Rightarrow> nat \<times> string" where
  "scan_prefix s =
     (case s of
        c # x # d # cs \<Rightarrow>
          if c = CHR ''0'' \<and> x \<in> {CHR ''x'', CHR ''X''} \<and> is_digit 16 d then (16, d # cs)
          else (if c = CHR ''0'' then 8 else 10, s)
      | c # cs \<Rightarrow> (if c = CHR ''0'' then 8 else 10, s)
      | [] \<Rightarrow> (10, s))"

text \<open>The conversion of \<open>strtol\<close> and \<open>strtoul\<close>: sign, magnitude and the text behind; without a digit there is none.\<close>

definition strto :: "string \<Rightarrow> (bool \<times> nat \<times> string) option" where
  "strto s =
     (let (neg, s) = scan_sign (dropWhile is_space s);
          (base, s) = scan_prefix s;
          (n, rest) = scan_digits base 0 s
      in if rest = s then None else Some (neg, n, rest))"

definition strtoul :: "string \<Rightarrow> u32 \<times> string" where
  "strtoul s =
     (case strto s of
        None \<Rightarrow> (0, s)
      | Some (neg, n, rest) \<Rightarrow>
          (if 2 ^ 32 \<le> n then - 1 else if neg then - word_of_nat n else word_of_nat n, rest))"

definition clamp32 :: "int \<Rightarrow> int" where
  "clamp32 k = (if INT32_MAX < k then INT32_MAX else if k < INT32_MIN then INT32_MIN else k)"

definition strtol :: "string \<Rightarrow> int \<times> string" where
  "strtol s =
     (case strto s of
        None \<Rightarrow> (0, s)
      | Some (neg, n, rest) \<Rightarrow> (clamp32 (if neg then - int n else int n), rest))"

definition to_lower :: "char \<Rightarrow> char" where
  "to_lower c = (let n = of_char c :: nat in if 65 \<le> n \<and> n \<le> 90 then char_of (n + 32) else c)"

definition vcos_strcasecmp :: "string \<Rightarrow> string \<Rightarrow> bool" where
  "vcos_strcasecmp s t \<longleftrightarrow> map to_lower s \<noteq> map to_lower t"

text \<open>One \<open>%d\<close>, and a format of \<open>%d\<close> with literal characters between; the numbers that were converted.\<close>

definition scan_d :: "string \<Rightarrow> (int \<times> string) option" where
  "scan_d s =
     (let (neg, s) = scan_sign (dropWhile is_space s);
          (n, rest) = scan_digits 10 0 s
      in if rest = s then None else Some (clamp32 (if neg then - int n else int n), rest))"

fun sscanf :: "string \<Rightarrow> string \<Rightarrow> int list" where
  "sscanf seps s =
     (case scan_d s of
        None \<Rightarrow> []
      | Some (v, rest) \<Rightarrow>
          v # (case (seps, rest) of
                 (sep # seps, c # rest) \<Rightarrow> if c = sep then sscanf seps rest else []
               | _ \<Rightarrow> []))"

declare sscanf.simps [simp del]

section \<open>The parsers\<close>

text \<open>The loop increments its counter twice.\<close>

fun parse_enum :: "(string \<times> u32) list \<Rightarrow> string \<Rightarrow> u32 option" where
  "parse_enum [] str = None"
| "parse_enum [(name, v)] str = (if \<not> vcos_strcasecmp str name then Some v else None)"
| "parse_enum ((name, v) # _ # pairs) str = (if \<not> vcos_strcasecmp str name then Some v else parse_enum pairs str)"

definition video_sizes :: "(string \<times> u32 \<times> u32) list" where
  "video_sizes = [(''1080p'', 1920, 1080), (''720p'', 1280, 720), (''vga'', 640, 480), (''wvga'', 800, 480),
     (''cif'', 352, 288), (''qcif'', 352 div 2, 288 div 2)]"

definition mmal_parse_video_size :: "string \<Rightarrow> mmal_status \<times> (u32 \<times> u32) option" where
  "mmal_parse_video_size str =
     (case find (\<lambda>(name, _). \<not> vcos_strcasecmp str name) video_sizes of
        Some (_, wh) \<Rightarrow> (MMAL_SUCCESS, Some wh)
      | None \<Rightarrow> (MMAL_EINVAL, None))"

text \<open>Both fields are written in any case.\<close>

definition mmal_parse_rational :: "string \<Rightarrow> mmal_status \<times> mmal_rational" where
  "mmal_parse_rational str =
     (let (n, rest) = strtoul str in
      (case rest of
         [] \<Rightarrow> (MMAL_SUCCESS, \<lparr>num = sint n, den = 1\<rparr>)
       | c # cs \<Rightarrow>
           if c = CHR ''/'' then
             let (d, rest) = strtoul cs in (if rest = [] then MMAL_SUCCESS else MMAL_EINVAL, \<lparr>num = sint n, den = sint d\<rparr>)
           else (MMAL_EINVAL, \<lparr>num = sint n, den = 1\<rparr>)))"

definition mmal_parse_int :: "string \<Rightarrow> mmal_status \<times> int option" where
  "mmal_parse_int str = (let (i, rest) = strtol str in if rest = [] then (MMAL_SUCCESS, Some i) else (MMAL_EINVAL, None))"

definition mmal_parse_uint :: "string \<Rightarrow> mmal_status \<times> u32 option" where
  "mmal_parse_uint str = (let (i, rest) = strtoul str in if rest = [] then (MMAL_SUCCESS, Some i) else (MMAL_EINVAL, None))"

definition video_codec_enums :: "(string \<times> u32) list" where
  "video_codec_enums =
     [(''h264'', MMAL_ENCODING_H264), (''h263'', MMAL_ENCODING_H263), (''mpeg4'', MMAL_ENCODING_MP4V),
      (''mpeg2'', MMAL_ENCODING_MP2V), (''vp8'', MMAL_ENCODING_VP8), (''vp7'', MMAL_ENCODING_VP7), (''vp6'', MMAL_ENCODING_VP6)]"

definition mmal_parse_video_codec :: "string \<Rightarrow> mmal_status \<times> u32" where
  "mmal_parse_video_codec str =
     (case parse_enum video_codec_enums str of Some v \<Rightarrow> (MMAL_SUCCESS, v) | None \<Rightarrow> (MMAL_EINVAL, 0))"

record mmal_rect =
  rect_x :: int
  rect_y :: int
  rect_width :: int
  rect_height :: int

text \<open>What the first \<open>sscanf\<close> converted before it failed stays in \<open>x\<close>.\<close>

definition mmal_parse_geometry :: "string \<Rightarrow> mmal_status \<times> mmal_rect option" where
  "mmal_parse_geometry str =
     (let v = sscanf ''*++'' str; v' = sscanf ''*'' str in
      if length v = 4 then
        (MMAL_SUCCESS, Some \<lparr>rect_x = v ! 2, rect_y = v ! 3, rect_width = v ! 0, rect_height = v ! 1\<rparr>)
      else if length v' = 2 then
        (MMAL_SUCCESS, Some \<lparr>rect_x = (if 2 < length v then v ! 2 else 0), rect_y = 0, rect_width = v' ! 0, rect_height = v' ! 1\<rparr>)
      else (MMAL_EINVAL, None))"

section \<open>Decimal numbers are read back\<close>

definition digit :: "nat \<Rightarrow> char" where
  "digit d = char_of (48 + d)"

fun dec :: "nat \<Rightarrow> string" where
  "dec n = (if n < 10 then [digit n] else dec (n div 10) @ [digit (n mod 10)])"

declare dec.simps [simp del]

lemma digit_value_digit: "d < 10 \<Longrightarrow> digit_value (digit d) = Some d"
  by (simp add: digit_value_def digit_def of_char_of)

lemma digit_cases: "d < 10 \<Longrightarrow> d \<in> {0, 1, 2, 3, 4, 5, 6, 7, 8, 9::nat}"
  by auto

lemma digit_plain: "d < 10 \<Longrightarrow> \<not> is_space (digit d) \<and> digit d \<noteq> CHR ''-'' \<and> digit d \<noteq> CHR ''+'' \<and>
     digit d \<noteq> CHR ''x'' \<and> digit d \<noteq> CHR ''X''"
  by (drule digit_cases) (auto simp: is_space_def digit_def char_of_def)

lemma digit_0_iff: "d < 10 \<Longrightarrow> digit d = CHR ''0'' \<longleftrightarrow> d = 0"
  by (drule digit_cases) (auto simp: digit_def char_of_def bit_0)

lemma digit_is_digit: "d < 10 \<Longrightarrow> is_digit 10 (digit d)"
  by (simp add: is_digit_def digit_value_digit)

lemma scan_dec: "scan_digits 10 0 (dec n @ rest) = scan_digits 10 n rest"
proof (induction n arbitrary: rest rule: dec.induct)
  case (1 n)
  show ?case
  proof (cases "n < 10")
    case True
    then show ?thesis by (simp add: dec.simps [of n] digit_is_digit digit_value_digit)
  next
    case False
    then have "scan_digits 10 0 (dec n @ rest) = scan_digits 10 (n div 10) (digit (n mod 10) # rest)"
      using 1 by (simp add: dec.simps [of n])
    then show ?thesis by (simp add: digit_is_digit digit_value_digit)
  qed
qed

text \<open>The first digit.\<close>

lemma dec_Cons:
  obtains d ds where "dec n = digit d # ds" "d < 10" "d = 0 \<longleftrightarrow> n = 0" "n = 0 \<Longrightarrow> ds = []"
proof -
  have "\<exists>d ds. dec n = digit d # ds \<and> d < 10 \<and> (d = 0 \<longleftrightarrow> n = 0) \<and> (n = 0 \<longrightarrow> ds = [])"
  proof (induction n rule: dec.induct)
    case (1 n)
    show ?case
    proof (cases "n < 10")
      case True
      then show ?thesis by (intro exI [of _ n]) (simp add: dec.simps [of n])
    next
      case False
      then have "n div 10 \<noteq> 0" by simp
      with 1 False obtain d ds where "dec (n div 10) = digit d # ds" "d < 10" "d \<noteq> 0" by blast
      then show ?thesis using False by (intro exI [of _ d]) (simp add: dec.simps [of n])
    qed
  qed
  then show ?thesis using that by blast
qed

text \<open>What may follow a number: nothing, or a separator.\<close>

definition separated :: "string \<Rightarrow> bool" where
  "separated rest \<longleftrightarrow> (case rest of [] \<Rightarrow> True | c # _ \<Rightarrow> c \<in> {CHR ''/'', CHR ''*'', CHR ''+''})"

lemma separated_scan: "separated rest \<Longrightarrow> scan_digits b n rest = (n, rest)"
  by (cases rest) (auto simp: separated_def is_digit_def digit_value_def)

lemma separated_plain: "separated (c # cs) \<Longrightarrow> c \<noteq> CHR ''x'' \<and> c \<noteq> CHR ''X''"
  by (auto simp: separated_def)

lemma skip_dec: "scan_sign (dropWhile is_space (dec n @ rest)) = (False, dec n @ rest)"
proof -
  obtain d ds where "dec n = digit d # ds" "d < 10" by (rule dec_Cons)
  then show ?thesis using digit_plain [of d] by (simp add: scan_sign_def)
qed

lemma scan_dec_separated: "separated rest \<Longrightarrow> scan_digits 10 0 (dec n @ rest) = (n, rest) \<and> rest \<noteq> dec n @ rest"
proof -
  have "dec n \<noteq> []" by (simp add: dec.simps [of n])
  then show "separated rest \<Longrightarrow> scan_digits 10 0 (dec n @ rest) = (n, rest) \<and> rest \<noteq> dec n @ rest"
    by (simp add: scan_dec separated_scan)
qed

lemma strto_dec:
  assumes "separated rest"
  shows "strto (dec n @ rest) = Some (False, n, rest)"
proof (cases "n = 0")
  case True
  have zero: "dec 0 = CHR ''0'' # []" using digit_0_iff [of 0] by (simp add: dec.simps [of 0])
  have "scan_prefix (CHR ''0'' # rest) = (8, CHR ''0'' # rest)"
    using assms by (auto simp: scan_prefix_def separated_def split: list.splits)
  moreover have "scan_digits 8 0 (CHR ''0'' # rest) = (0, rest)"
    using separated_scan [OF assms] by (simp add: is_digit_def digit_value_def)
  ultimately show ?thesis using True skip_dec [of 0 rest] by (simp add: strto_def zero)
next
  case False
  obtain d ds where d: "dec n = digit d # ds" "d < 10" "d = 0 \<longleftrightarrow> n = 0" by (rule dec_Cons)
  with False have "scan_prefix (dec n @ rest) = (10, dec n @ rest)"
    using digit_0_iff [of d] by (auto simp: scan_prefix_def split: list.splits)
  then show ?thesis using scan_dec_separated [OF assms, of n] by (simp add: strto_def skip_dec Let_def)
qed

lemma strtoul_dec: "separated rest \<Longrightarrow> n < 2 ^ 32 \<Longrightarrow> strtoul (dec n @ rest) = (word_of_nat n, rest)"
  by (simp add: strtoul_def strto_dec)

lemma scan_d_dec: "separated rest \<Longrightarrow> n < 2 ^ 31 \<Longrightarrow> scan_d (dec n @ rest) = Some (int n, rest)"
  using scan_dec_separated [of rest n] by (simp add: scan_d_def skip_dec clamp32_def)

lemma sint_of_nat: "n < 2 ^ 31 \<Longrightarrow> sint (word_of_nat n :: u32) = int n"
  by (simp add: signed_of_nat signed_take_bit_int_eq_self)

text \<open>
  Numbers written in decimal are read back: a rational \<open>n/d\<close> by \<open>mmal_parse_rational\<close>, a rectangle \<open>w*h+x+y\<close> by
  \<open>mmal_parse_geometry\<close> and a number by \<open>mmal_parse_uint\<close>, for all values of the types.
\<close>

theorem mmal_parse_decimal_roundtrip:
  assumes "n < 2 ^ 31" "d < 2 ^ 31" "x < 2 ^ 31" "y < 2 ^ 31" "u < 2 ^ 32"
  shows "mmal_parse_rational (dec n @ ''/'' @ dec d) = (MMAL_SUCCESS, \<lparr>num = int n, den = int d\<rparr>) \<and>
     mmal_parse_geometry (dec n @ ''*'' @ dec d @ ''+'' @ dec x @ ''+'' @ dec y) =
       (MMAL_SUCCESS, Some \<lparr>rect_x = int x, rect_y = int y, rect_width = int n, rect_height = int d\<rparr>) \<and>
     mmal_parse_uint (dec u) = (MMAL_SUCCESS, Some (word_of_nat u))"
proof -
  have sep: "separated []" "separated (CHR ''/'' # cs)" "separated (CHR ''*'' # cs)" "separated (CHR ''+'' # cs)" for cs
    by (simp_all add: separated_def)
  have rational: "mmal_parse_rational (dec n @ ''/'' @ dec d) = (MMAL_SUCCESS, \<lparr>num = int n, den = int d\<rparr>)"
    using strtoul_dec [OF sep(2), of n "dec d"] strtoul_dec [OF sep(1), of d] assms(1,2)
    by (simp add: mmal_parse_rational_def sint_of_nat)
  have last: "scan_d (dec m) = Some (int m, [])" if "m < 2 ^ 31" for m using scan_d_dec [OF sep(1) that] by simp
  have "sscanf ''*++'' (dec n @ ''*'' @ dec d @ ''+'' @ dec x @ ''+'' @ dec y) = [int n, int d, int x, int y]"
    using assms last by (simp add: sscanf.simps scan_d_dec sep)
  then have geometry: "mmal_parse_geometry (dec n @ ''*'' @ dec d @ ''+'' @ dec x @ ''+'' @ dec y) =
       (MMAL_SUCCESS, Some \<lparr>rect_x = int x, rect_y = int y, rect_width = int n, rect_height = int d\<rparr>)"
    by (simp add: mmal_parse_geometry_def)
  have "mmal_parse_uint (dec u) = (MMAL_SUCCESS, Some (word_of_nat u))"
    using strtoul_dec [OF sep(1) assms(5)] by (simp add: mmal_parse_uint_def)
  with rational geometry show ?thesis by blast
qed

theorem mmal_parse_decimal_roundtrip_witness:
  "mmal_parse_rational (dec 30 @ ''/'' @ dec 1001) = (MMAL_SUCCESS, \<lparr>num = 30, den = 1001\<rparr>)"
  using mmal_parse_decimal_roundtrip [of 30 1001 0 0 0] by simp

text \<open>
  Every second codec in the table of \<open>mmal_parse_video_codec\<close> is never compared with: \<open>h263\<close>, \<open>mpeg2\<close> and \<open>vp7\<close> are in
  the table and are refused, the others are accepted.
\<close>

theorem mmal_parse_video_codec_skips:
  "map (\<lambda>(name, _). fst (mmal_parse_video_codec name)) video_codec_enums =
     [MMAL_SUCCESS, MMAL_EINVAL, MMAL_SUCCESS, MMAL_EINVAL, MMAL_SUCCESS, MMAL_EINVAL, MMAL_SUCCESS]"
  by (simp add: video_codec_enums_def mmal_parse_video_codec_def vcos_strcasecmp_def to_lower_def)

text \<open>A text without any digit is read as zero.\<close>

lemma mmal_parse_empty: "mmal_parse_uint [] = (MMAL_SUCCESS, Some 0)" "mmal_parse_int [] = (MMAL_SUCCESS, Some 0)"
  by (simp_all add: mmal_parse_uint_def mmal_parse_int_def strtoul_def strtol_def strto_def scan_sign_def scan_prefix_def)

end
