(* ===== verification/GraphData.thy ===== *)
theory GraphData
  imports Component Connection Util ParamConvert
begin

text \<open>
  The data of a graph of components, \<^verbatim>\<open>mmal/util/mmal_graph.h\<close> and the private struct of \<^verbatim>\<open>mmal/util/mmal_graph.c\<close>: the components,
  connections and ports that were added, the functions of the client, and the worker thread.  The arrays with their counts
  are lists.  The store of the core is extended with the graphs by address.
\<close>

definition GRAPH_CONNECTIONS_MAX :: nat where "GRAPH_CONNECTIONS_MAX = 16"
definition PROCESSING_TIME_MAX :: int where "PROCESSING_TIME_MAX = 20000"
definition MMAL_CONNECTION_FLAG_DIRECT :: u32 where "MMAL_CONNECTION_FLAG_DIRECT = 0x10"

datatype mmal_graph_topology =
  MMAL_GRAPH_TOPOLOGY_ALL | MMAL_GRAPH_TOPOLOGY_STRAIGHT | MMAL_GRAPH_TOPOLOGY_CUSTOM | MMAL_GRAPH_TOPOLOGY_MAX

record mmal_graph =
  graph_userdata :: "addr option"
  \<comment> \<open>the client's functions\<close>
  gf_destroy :: "nat option"
  gf_parameter_set :: "nat option"
  gf_parameter_get :: "nat option"
  gf_format_commit :: "nat option"
  gf_send_buffer :: "nat option"
  gf_return_buffer :: "nat option"
  gf_payload_alloc :: "nat option"
  gf_payload_free :: "nat option"
  gf_flush :: "nat option"
  gf_enable :: "nat option"
  gf_disable :: "nat option"
  gf_control_callback :: "nat option"
  gf_graph_enable :: "nat option"
  gf_connection_buffer :: "nat option"
  \<comment> \<open>the private part\<close>
  graph_component :: "addr list"
  graph_topology :: "nat \<Rightarrow> mmal_graph_topology"
  graph_connection :: "addr list"
  connection_current :: u32
  graph_input :: "addr list"
  graph_output :: "addr list"
  graph_self :: "addr option"
  stop_worker :: bool
  graph_sema :: nat
  event_cb :: "nat option"

definition zero_graph :: mmal_graph where
  "zero_graph = \<lparr>graph_userdata = None, gf_destroy = None, gf_parameter_set = None, gf_parameter_get = None,
     gf_format_commit = None, gf_send_buffer = None, gf_return_buffer = None, gf_payload_alloc = None,
     gf_payload_free = None, gf_flush = None, gf_enable = None, gf_disable = None, gf_control_callback = None,
     gf_graph_enable = None, gf_connection_buffer = None, graph_component = [],
     graph_topology = (\<lambda>_. MMAL_GRAPH_TOPOLOGY_ALL), graph_connection = [], connection_current = 0,
     graph_input = [], graph_output = [], graph_self = None, stop_worker = False, graph_sema = 0, event_cb = None\<rparr>"

definition sizeof_MMAL_GRAPH_PRIVATE_T :: u32 where "sizeof_MMAL_GRAPH_PRIVATE_T = 640"

record graph_store = mmal_store +
  graphs :: "addr \<Rightarrow> mmal_graph"

definition upd_graph :: "addr \<Rightarrow> (mmal_graph \<Rightarrow> mmal_graph) \<Rightarrow> 'a graph_store_scheme \<Rightarrow> 'a graph_store_scheme" where
  "upd_graph g f s = s\<lparr>graphs := (graphs s)(g := f (graphs s g))\<rparr>"

definition graph_sema_object :: "addr \<Rightarrow> sync_object" where
  "graph_sema_object g = Semaphore (g + 616)"

definition graph_thread :: "addr \<Rightarrow> sync_object" where
  "graph_thread g = Thread (g + 408)"

text \<open>What the names of the client's functions mean.\<close>

record 's graph_client =
  gc_destroy :: "nat \<Rightarrow> addr \<Rightarrow> 's \<Rightarrow> 's option"
  gc_port :: "nat \<Rightarrow> addr \<Rightarrow> addr \<Rightarrow> 's \<Rightarrow> (mmal_status \<times> 's) option"
  gc_buffer :: "nat \<Rightarrow> addr \<Rightarrow> addr \<Rightarrow> addr \<Rightarrow> 's \<Rightarrow> (mmal_status \<times> 's) option"
  gc_parameter_set :: "nat \<Rightarrow> addr \<Rightarrow> addr \<Rightarrow> mmal_parameter \<Rightarrow> 's \<Rightarrow> (mmal_status \<times> 's) option"
  gc_parameter_get :: "nat \<Rightarrow> addr \<Rightarrow> addr \<Rightarrow> mmal_parameter \<Rightarrow> 's \<Rightarrow> (mmal_status \<times> mmal_parameter \<times> 's) option"
  gc_payload_alloc :: "nat \<Rightarrow> addr \<Rightarrow> addr \<Rightarrow> u32 \<Rightarrow> 's \<Rightarrow> mmal_status \<times> addr option \<times> 's"
  gc_payload_free :: "nat \<Rightarrow> addr \<Rightarrow> addr \<Rightarrow> addr \<Rightarrow> 's \<Rightarrow> mmal_status \<times> 's"
  gc_graph_enable :: "nat \<Rightarrow> addr \<Rightarrow> bool \<Rightarrow> 's \<Rightarrow> (mmal_status \<times> 's) option"
  gc_event :: "nat \<Rightarrow> addr \<Rightarrow> addr \<Rightarrow> addr \<Rightarrow> 's \<Rightarrow> 's option"

text \<open>The client's function comes first, and its answer counts unless it is \<open>MMAL_ENOSYS\<close>.\<close>

definition user_first ::
  "nat option \<Rightarrow> (nat \<Rightarrow> 's \<Rightarrow> (mmal_status \<times> 's) option) \<Rightarrow> 's \<Rightarrow> ('s \<Rightarrow> (mmal_status \<times> 's) option) \<Rightarrow> (mmal_status \<times> 's) option" where
  "user_first f call s rest =
     (case f of
        None \<Rightarrow> rest s
      | Some n \<Rightarrow> do { (status, s) \<leftarrow> call n s; if status \<noteq> MMAL_ENOSYS then Some (status, s) else rest s })"

lemma user_first_None [simp]: "user_first None call s rest = rest s"
  by (simp add: user_first_def)

lemma upd_graph_sel [simp]:
  "graphs (upd_graph g f s) = (graphs s)(g := f (graphs s g))"
  "ports (upd_graph g f s) = ports s" "components (upd_graph g f s) = components s"
  "connections (upd_graph g f s) = connections s" "bufs (upd_graph g f s) = bufs s" "queues (upd_graph g f s) = queues s"
  "pools (upd_graph g f s) = pools s" "live (upd_graph g f s) = live s" "sync (upd_graph g f s) = sync s"
  "mallocs (upd_graph g f s) = mallocs s" "creates (upd_graph g f s) = creates s" "formats (upd_graph g f s) = formats s"
  by (simp_all add: upd_graph_def)

end
