(* ===== verification/Graph.thy ===== *)
theory Graph
  imports GraphData
begin

text \<open>
  Graphs of components, \<^verbatim>\<open>mmal/util/mmal_graph.c\<close>, first half: building a graph, moving the buffers of its connections, the
  worker thread, enabling and disabling.  The graph as a component is in \<^verbatim>\<open>GraphComponent\<close>.
\<close>

section \<open>Names of the functions of graphs\<close>

definition GRAPH_CONTROL_CB :: nat where "GRAPH_CONTROL_CB = 1000"
definition GRAPH_CONNECTION_CB :: nat where "GRAPH_CONNECTION_CB = 1001"

section \<open>Building a graph\<close>

text \<open>The address in the result is what \<open>*graph\<close> holds; \<open>gplace\<close> says whether there is a place for it.\<close>

definition mmal_graph_create :: "bool \<Rightarrow> u32 \<Rightarrow> 'a graph_store_scheme \<Rightarrow> mmal_status \<times> addr option \<times> 'a graph_store_scheme" where
  "mmal_graph_create gplace userdata_size s =
     (if \<not> gplace then (MMAL_EINVAL, None, s)
      else case vcos_calloc 1 (sizeof_MMAL_GRAPH_PRIVATE_T + userdata_size) s of
        (None, s) \<Rightarrow> (MMAL_ENOMEM, None, s)
      | (Some g, s) \<Rightarrow>
          let s = upd_graph g (\<lambda>_. zero_graph) s;
              s = (if userdata_size \<noteq> 0
                   then upd_graph g (\<lambda>d. d\<lparr>graph_userdata := Some (g + unat sizeof_MMAL_GRAPH_PRIVATE_T)\<rparr>) s else s)
          in (case vcos_create (graph_sema_object g) s of
                (False, s) \<Rightarrow> (MMAL_ENOSPC, Some g, vcos_free (Some g) s)
              | (True, s) \<Rightarrow> (MMAL_SUCCESS, Some g, s)))"

text \<open>The results of releasing are ignored.\<close>

fun release_connections ::
  "('a mmal_store_scheme) port_env \<Rightarrow> addr list \<Rightarrow> 'a mmal_store_scheme \<Rightarrow> 'a mmal_store_scheme option" where
  "release_connections env [] s = Some s"
| "release_connections env (c # cs) s = do { (_, s) \<leftarrow> mmal_connection_release env c s; release_connections env cs s }"

fun release_components ::
  "('a mmal_store_scheme) port_env \<Rightarrow> addr list \<Rightarrow> 'a mmal_store_scheme \<Rightarrow> 'a mmal_store_scheme option" where
  "release_components env [] s = Some s"
| "release_components env (c # cs) s = do { (_, s) \<leftarrow> mmal_component_release env (Some c) s; release_components env cs s }"

definition call_graph_destroy :: "('a graph_store_scheme) graph_client \<Rightarrow> addr \<Rightarrow> 'a graph_store_scheme \<Rightarrow> 'a graph_store_scheme option" where
  "call_graph_destroy gc g s = (case gf_destroy (graphs s g) of None \<Rightarrow> Some s | Some n \<Rightarrow> gc_destroy gc n g s)"

definition mmal_graph_destroy ::
  "('a graph_store_scheme) port_env \<Rightarrow> ('a graph_store_scheme) graph_client \<Rightarrow> addr option \<Rightarrow> 'a graph_store_scheme \<Rightarrow>
   (mmal_status \<times> 'a graph_store_scheme) option" where
  "mmal_graph_destroy env gc graph s =
     (case graph of
        None \<Rightarrow> Some (MMAL_EINVAL, s)
      | Some g \<Rightarrow> do {
          s \<leftarrow> call_graph_destroy gc g s;
          s \<leftarrow> release_connections env (graph_connection (graphs s g)) s;
          s \<leftarrow> release_components env (graph_component (graphs s g)) s;
          let s = vcos_delete (graph_sema_object g) s;
          Some (MMAL_SUCCESS, vcos_free (Some g) s)
        })"

definition mmal_graph_add_component :: "addr \<Rightarrow> addr option \<Rightarrow> 'a graph_store_scheme \<Rightarrow> mmal_status \<times> 'a graph_store_scheme" where
  "mmal_graph_add_component g component s =
     (case component of
        None \<Rightarrow> (MMAL_EINVAL, s)
      | Some c \<Rightarrow>
          if GRAPH_CONNECTIONS_MAX \<le> length (graph_component (graphs s g)) then (MMAL_ENOSPC, s)
          else (MMAL_SUCCESS, upd_graph g (\<lambda>d. d\<lparr>graph_component := graph_component d @ [c]\<rparr>) (mmal_component_acquire c s)))"

fun find_index :: "addr \<Rightarrow> addr list \<Rightarrow> nat option" where
  "find_index c [] = None"
| "find_index c (d # ds) = (if c = d then Some 0 else map_option Suc (find_index c ds))"

definition mmal_graph_component_topology ::
  "addr \<Rightarrow> addr option \<Rightarrow> mmal_graph_topology \<Rightarrow> 'a graph_store_scheme \<Rightarrow> mmal_status \<times> 'a graph_store_scheme" where
  "mmal_graph_component_topology g component topology s =
     (case component of
        None \<Rightarrow> (MMAL_EINVAL, s)
      | Some c \<Rightarrow>
          (case find_index c (graph_component (graphs s g)) of
             None \<Rightarrow> (MMAL_EINVAL, s)
           | Some i \<Rightarrow>
               if topology = MMAL_GRAPH_TOPOLOGY_CUSTOM \<or> topology = MMAL_GRAPH_TOPOLOGY_MAX then (MMAL_ENOSYS, s)
               else (MMAL_SUCCESS, upd_graph g (\<lambda>d. d\<lparr>graph_topology := (graph_topology d)(i := topology)\<rparr>) s)))"

definition mmal_graph_add_connection :: "addr \<Rightarrow> addr option \<Rightarrow> 'a graph_store_scheme \<Rightarrow> mmal_status \<times> 'a graph_store_scheme" where
  "mmal_graph_add_connection g cx s =
     (case cx of
        None \<Rightarrow> (MMAL_EINVAL, s)
      | Some c \<Rightarrow>
          if GRAPH_CONNECTIONS_MAX \<le> length (graph_connection (graphs s g)) then (MMAL_ENOSPC, s)
          else (MMAL_SUCCESS, upd_graph g (\<lambda>d. d\<lparr>graph_connection := graph_connection d @ [c]\<rparr>) (mmal_connection_acquire c s)))"

definition mmal_graph_add_port :: "addr \<Rightarrow> addr option \<Rightarrow> 'a graph_store_scheme \<Rightarrow> mmal_status \<times> 'a graph_store_scheme" where
  "mmal_graph_add_port g port s =
     (case port of
        None \<Rightarrow> (MMAL_EINVAL, s)
      | Some p \<Rightarrow>
          (case port_type (ports s p) of
             MMAL_PORT_TYPE_INPUT \<Rightarrow>
               if GRAPH_CONNECTIONS_MAX \<le> length (graph_input (graphs s g)) then (MMAL_ENOSPC, s)
               else (MMAL_SUCCESS, upd_graph g (\<lambda>d. d\<lparr>graph_input := graph_input d @ [p]\<rparr>) s)
           | MMAL_PORT_TYPE_OUTPUT \<Rightarrow>
               if GRAPH_CONNECTIONS_MAX \<le> length (graph_output (graphs s g)) then (MMAL_ENOSPC, s)
               else (MMAL_SUCCESS, upd_graph g (\<lambda>d. d\<lparr>graph_output := graph_output d @ [p]\<rparr>) s)
           | _ \<Rightarrow> (MMAL_EINVAL, s)))"

text \<open>\<open>place\<close> says whether the caller asks for the component, which takes a reference of its own.\<close>

definition mmal_graph_new_component ::
  "('a graph_store_scheme) port_env \<Rightarrow> addr \<Rightarrow> string \<Rightarrow> bool \<Rightarrow> 'a graph_store_scheme \<Rightarrow>
   (mmal_status \<times> addr option \<times> 'a graph_store_scheme) option" where
  "mmal_graph_new_component env g name place s =
     (if GRAPH_CONNECTIONS_MAX \<le> length (graph_component (graphs s g)) then Some (MMAL_ENOSPC, None, s)
      else do {
        (status, comp, s) \<leftarrow> mmal_component_create env name True s;
        if status \<noteq> MMAL_SUCCESS then Some (status, None, s)
        else do {
          c \<leftarrow> comp;
          let s = upd_graph g (\<lambda>d. d\<lparr>graph_component := graph_component d @ [c]\<rparr>) s;
          Some (MMAL_SUCCESS, if place then (Some c, mmal_component_acquire c s) else (None, s))
        }
      })"

definition mmal_graph_new_connection ::
  "('a graph_store_scheme) port_env \<Rightarrow> addr \<Rightarrow> addr option \<Rightarrow> addr option \<Rightarrow> u32 \<Rightarrow> bool \<Rightarrow> 'a graph_store_scheme \<Rightarrow>
   (mmal_status \<times> addr option \<times> 'a graph_store_scheme) option" where
  "mmal_graph_new_connection env g out inp flags place s =
     (case (out, inp) of
        (Some p, Some q) \<Rightarrow>
          if port_type (ports s p) = MMAL_PORT_TYPE_CLOCK \<and> port_type (ports s q) \<noteq> MMAL_PORT_TYPE_CLOCK
          then Some (MMAL_EINVAL, None, s)
          else if port_type (ports s p) \<noteq> MMAL_PORT_TYPE_CLOCK \<and>
            (port_type (ports s p) \<noteq> MMAL_PORT_TYPE_OUTPUT \<or> port_type (ports s q) \<noteq> MMAL_PORT_TYPE_INPUT)
          then Some (MMAL_EINVAL, None, s)
          else if GRAPH_CONNECTIONS_MAX \<le> length (graph_connection (graphs s g)) then Some (MMAL_ENOSPC, None, s)
          else do {
            (status, cx, s) \<leftarrow> mmal_connection_create env True p q flags s;
            if status \<noteq> MMAL_SUCCESS then Some (status, None, s)
            else do {
              c \<leftarrow> cx;
              let s = upd_graph g (\<lambda>d. d\<lparr>graph_connection := graph_connection d @ [c]\<rparr>) s;
              Some (MMAL_SUCCESS, if place then (Some c, mmal_connection_acquire c s) else (None, s))
            }
          }
      | _ \<Rightarrow> Some (MMAL_EINVAL, None, s))"

definition mmal_graph_find_port :: "addr \<Rightarrow> string \<Rightarrow> mmal_port_type \<Rightarrow> nat \<Rightarrow> 'a graph_store_scheme \<Rightarrow> addr option" where
  "mmal_graph_find_port g name type index s =
     (let candidates = filter (\<lambda>c. \<not> vcos_strcasecmp name (comp_name (components s c))) (graph_component (graphs s g));
          port = (\<lambda>c. let k = components s c;
                          ps = (case type of
                                  MMAL_PORT_TYPE_INPUT \<Rightarrow> comp_input k
                                | MMAL_PORT_TYPE_OUTPUT \<Rightarrow> comp_output k
                                | MMAL_PORT_TYPE_CONTROL \<Rightarrow> (case comp_control k of None \<Rightarrow> [] | Some p \<Rightarrow> [p])
                                | _ \<Rightarrow> [])
                      in if index < length ps then Some (ps ! index) else None)
      in (case List.map_filter port candidates of [] \<Rightarrow> None | p # _ \<Rightarrow> Some p))"

section \<open>Moving buffers\<close>

definition graph_control_cb ::
  "('a graph_store_scheme) port_env \<Rightarrow> ('a graph_store_scheme) graph_client \<Rightarrow> addr \<Rightarrow> addr \<Rightarrow> 'a graph_store_scheme \<Rightarrow>
   'a graph_store_scheme option" where
  "graph_control_cb env gc p b s = do {
     g \<leftarrow> port_userdata (ports s p);
     (case event_cb (graphs s g) of Some n \<Rightarrow> gc_event gc n g p b s | None \<Rightarrow> release_buffer env b s)
   }"

definition graph_port_event_handler ::
  "('a mmal_store_scheme) port_env \<Rightarrow> addr \<Rightarrow> addr \<Rightarrow> addr \<Rightarrow> 'a mmal_store_scheme \<Rightarrow> 'a mmal_store_scheme option" where
  "graph_port_event_handler env c p b s = do {
     (status, s) \<leftarrow>
       (if bh_cmd (bufs s b) = MMAL_EVENT_FORMAT_CHANGED \<and> port_type (ports s p) = MMAL_PORT_TYPE_OUTPUT
        then mmal_connection_event_format_changed env c b (snd (mmal_event_format_changed_get (Some b) s))
        else Some (MMAL_SUCCESS, s));
     s \<leftarrow> release_buffer env b s;
     if status \<noteq> MMAL_SUCCESS then map_option snd (mmal_event_error_send env (Some (port_component (ports s p))) status s)
     else Some s
   }"

definition deliver_buffer ::
  "('a mmal_store_scheme) port_env \<Rightarrow> addr \<Rightarrow> addr \<Rightarrow> 'a mmal_store_scheme \<Rightarrow> 'a mmal_store_scheme option" where
  "deliver_buffer env c b s = do {
     (status, s) \<leftarrow> mmal_port_send_buffer env (Some (conn_in (connections s c))) b s;
     if status \<noteq> MMAL_SUCCESS then do {
       s \<leftarrow> release_buffer env b s;
       map_option snd (mmal_event_error_send env (Some (port_component (ports s (conn_out (connections s c))))) status s)
     } else Some s
   }"

definition graph_process_buffer ::
  "('a graph_store_scheme) port_env \<Rightarrow> ('a graph_store_scheme) graph_client \<Rightarrow> addr \<Rightarrow> addr \<Rightarrow> addr \<Rightarrow> 'a graph_store_scheme \<Rightarrow>
   'a graph_store_scheme option" where
  "graph_process_buffer env gc g c b s = do {
     (taken, s) \<leftarrow>
       (case gf_connection_buffer (graphs s g) of
          None \<Rightarrow> Some (False, s)
        | Some n \<Rightarrow> do { (status, s) \<leftarrow> gc_buffer gc n g c b s; Some (status \<noteq> MMAL_ENOSYS, s) });
     if taken then Some s
     else if bh_cmd (bufs s b) \<noteq> 0 then graph_port_event_handler env c (conn_out (connections s c)) b s
     else deliver_buffer env c b s
   }"

definition post_graph :: "addr \<Rightarrow> 'a graph_store_scheme \<Rightarrow> 'a graph_store_scheme" where
  "post_graph g s = upd_graph g (\<lambda>d. d\<lparr>graph_sema := vcos_semaphore_post (graph_sema d)\<rparr>) s"

text \<open>The next buffer of a direct connection; \<open>None\<close> in the result for every other connection.\<close>

definition direct_buffer :: "addr \<Rightarrow> 'a mmal_store_scheme \<Rightarrow> (addr option \<times> 'a mmal_store_scheme) option" where
  "direct_buffer c s =
     (if conn_flags (connections s c) = MMAL_CONNECTION_FLAG_DIRECT then mmal_queue_get (conn_queue (connections s c)) s
      else Some (None, s))"

definition graph_connection_cb ::
  "('a graph_store_scheme) port_env \<Rightarrow> ('a graph_store_scheme) graph_client \<Rightarrow> addr \<Rightarrow> 'a graph_store_scheme \<Rightarrow>
   'a graph_store_scheme option" where
  "graph_connection_cb env gc c s = do {
     g \<leftarrow> conn_user_data (connections s c);
     (buffer, s) \<leftarrow> direct_buffer c s;
     (case buffer of Some b \<Rightarrow> graph_process_buffer env gc g c b s | None \<Rightarrow> Some (post_graph g s))
   }"

text \<open>The connections, from the current one on, round the table.\<close>

definition graph_order :: "mmal_graph \<Rightarrow> addr list" where
  "graph_order d = (let cs = graph_connection d in
     map (\<lambda>i. cs ! (unat (connection_current d + word_of_nat i) mod length cs)) [0..<length cs])"

text \<open>Empty buffers go to the output port until it refuses one, which goes back to the head of the queue.\<close>

partial_function (option) send_empty ::
  "('a mmal_store_scheme) port_env \<Rightarrow> addr \<Rightarrow> addr option \<Rightarrow> bool \<Rightarrow> 'a mmal_store_scheme \<Rightarrow> (bool \<times> 'a mmal_store_scheme) option" where
  "send_empty env out queue run_again s =
     Option.bind (mmal_queue_get queue s) (\<lambda>(buffer, s).
       case buffer of
         None \<Rightarrow> Some (run_again, s)
       | Some b \<Rightarrow>
           Option.bind (mmal_port_send_buffer env (Some out) b s) (\<lambda>(status, s).
             if status \<noteq> MMAL_SUCCESS then Some (False, mmal_queue_put_back queue (Some b) s)
             else send_empty env out queue True s))"

fun process_empty ::
  "('a mmal_store_scheme) port_env \<Rightarrow> addr list \<Rightarrow> bool \<Rightarrow> 'a mmal_store_scheme \<Rightarrow> (bool \<times> 'a mmal_store_scheme) option" where
  "process_empty env [] run_again s = Some (run_again, s)"
| "process_empty env (c # cs) run_again s = do {
     (run_again, s) \<leftarrow>
       (case conn_pool (connections s c) of
          None \<Rightarrow> Some (run_again, s)
        | Some pool \<Rightarrow>
            if conn_flag c MMAL_CONNECTION_FLAG_TUNNELLING s then Some (run_again, s)
            else send_empty env (conn_out (connections s c)) (pool_queue (pools s pool)) run_again s);
     process_empty env cs run_again s
   }"

text \<open>The clock is read before every buffer; \<open>start\<close> is its value when the connection had its turn.\<close>

partial_function (option) send_queued ::
  "('a graph_store_scheme) port_env \<Rightarrow> ('a graph_store_scheme) graph_client \<Rightarrow> addr \<Rightarrow> addr \<Rightarrow> int \<Rightarrow> bool \<Rightarrow>
   'a graph_store_scheme \<Rightarrow> (bool \<times> 'a graph_store_scheme) option" where
  "send_queued env gc g c start run_again s =
     (case vcos_getmicrosecs64 s of
        (now, s) \<Rightarrow>
          if s64 (uint now - start) < PROCESSING_TIME_MAX then
            Option.bind (mmal_queue_get (conn_queue (connections s c)) s) (\<lambda>(buffer, s).
              case buffer of
                None \<Rightarrow> Some (run_again, s)
              | Some b \<Rightarrow> Option.bind (graph_process_buffer env gc g c b s) (\<lambda>s. send_queued env gc g c start True s))
          else Some (run_again, s))"

fun process_queued ::
  "('a graph_store_scheme) port_env \<Rightarrow> ('a graph_store_scheme) graph_client \<Rightarrow> addr \<Rightarrow> addr list \<Rightarrow> bool \<Rightarrow>
   'a graph_store_scheme \<Rightarrow> (bool \<times> 'a graph_store_scheme) option" where
  "process_queued env gc g [] run_again s = Some (run_again, s)"
| "process_queued env gc g (c # cs) run_again s = do {
     let (start, s) = vcos_getmicrosecs64 s;
     (run_again, s) \<leftarrow>
       (if conn_flag c MMAL_CONNECTION_FLAG_TUNNELLING s \<or> conn_flag c MMAL_CONNECTION_FLAG_DIRECT s
        then Some (run_again, s)
        else send_queued env gc g c (uint start) run_again s);
     process_queued env gc g cs run_again s
   }"

definition graph_do_processing ::
  "('a graph_store_scheme) port_env \<Rightarrow> ('a graph_store_scheme) graph_client \<Rightarrow> addr \<Rightarrow> 'a graph_store_scheme \<Rightarrow>
   (bool \<times> 'a graph_store_scheme) option" where
  "graph_do_processing env gc g s = do {
     (run_again, s) \<leftarrow> process_empty env (graph_order (graphs s g)) False s;
     let order = graph_order (graphs s g);
     let s = upd_graph g (\<lambda>d. d\<lparr>connection_current := connection_current d + 1\<rparr>) s;
     process_queued env gc g order run_again s
   }"

partial_function (option) process_all ::
  "('a graph_store_scheme) port_env \<Rightarrow> ('a graph_store_scheme) graph_client \<Rightarrow> addr \<Rightarrow> 'a graph_store_scheme \<Rightarrow>
   'a graph_store_scheme option" where
  "process_all env gc g s =
     Option.bind (graph_do_processing env gc g s) (\<lambda>(run_again, s). if run_again then process_all env gc g s else Some s)"

section \<open>The worker thread\<close>

text \<open>One turn; the result says whether the thread goes on.\<close>

definition graph_worker_round ::
  "('a graph_store_scheme) port_env \<Rightarrow> ('a graph_store_scheme) graph_client \<Rightarrow> addr \<Rightarrow> 'a graph_store_scheme \<Rightarrow>
   (bool \<times> 'a graph_store_scheme) option" where
  "graph_worker_round env gc g s = do {
     sem \<leftarrow> vcos_semaphore_wait (graph_sema (graphs s g));
     let s = upd_graph g (\<lambda>d. d\<lparr>graph_sema := sem\<rparr>) s;
     if stop_worker (graphs s g) then Some (False, s)
     else do { s \<leftarrow> process_all env gc g s; Some (True, s) }
   }"

text \<open>The thread waits for its semaphore when it is told to stop: it takes the token, sees the flag and ends.\<close>

definition graph_stop_worker_thread :: "addr \<Rightarrow> 'a graph_store_scheme \<Rightarrow> 'a graph_store_scheme option" where
  "graph_stop_worker_thread g s = do {
     let s = post_graph g (upd_graph g (\<lambda>d. d\<lparr>stop_worker := True\<rparr>) s);
     sem \<leftarrow> vcos_semaphore_wait (graph_sema (graphs s g));
     Some (vcos_delete (graph_thread g) (upd_graph g (\<lambda>d. d\<lparr>graph_sema := sem\<rparr>) s))
   }"

section \<open>Enabling and disabling\<close>

text \<open>A control port that cannot be enabled is reported, and the rest goes on; the last status is kept.\<close>

fun enable_control_ports ::
  "('a mmal_store_scheme) port_env \<Rightarrow> addr \<Rightarrow> nat \<Rightarrow> addr list \<Rightarrow> mmal_status \<Rightarrow> 'a mmal_store_scheme \<Rightarrow>
   (mmal_status \<times> 'a mmal_store_scheme) option" where
  "enable_control_ports env userdata cb [] status s = Some (status, s)"
| "enable_control_ports env userdata cb (c # cs) status s = do {
     p \<leftarrow> comp_control (components s c);
     let s = upd_port p (\<lambda>pt. pt\<lparr>port_userdata := Some userdata\<rparr>) s;
     (status, s) \<leftarrow> mmal_port_enable env (Some p) (Some (Client_bh_cb cb)) s;
     enable_control_ports env userdata cb cs status s
   }"

fun enable_connections ::
  "('a mmal_store_scheme) port_env \<Rightarrow> addr \<Rightarrow> addr list \<Rightarrow> mmal_status \<Rightarrow> 'a mmal_store_scheme \<Rightarrow>
   (mmal_status \<times> 'a mmal_store_scheme) option" where
  "enable_connections env g [] status s = Some (status, s)"
| "enable_connections env g (c # cs) status s = do {
     let s = upd_conn c (\<lambda>k. k\<lparr>conn_callback := Some GRAPH_CONNECTION_CB, conn_user_data := Some g\<rparr>) s;
     (status, s) \<leftarrow> mmal_connection_enable env c s;
     if status \<noteq> MMAL_SUCCESS then Some (status, s) else enable_connections env g cs status s
   }"

text \<open>The status of the last control port is the result only when the graph has no connection.\<close>

definition mmal_graph_enable ::
  "('a graph_store_scheme) port_env \<Rightarrow> addr \<Rightarrow> nat option \<Rightarrow> 'a graph_store_scheme \<Rightarrow> (mmal_status \<times> 'a graph_store_scheme) option" where
  "mmal_graph_enable env g cb s =
     (case vcos_create (graph_thread g) s of
        (False, s) \<Rightarrow> Some (MMAL_ENOSPC, s)
      | (True, s) \<Rightarrow> do {
          let s = upd_graph g (\<lambda>d. d\<lparr>event_cb := cb\<rparr>) s;
          (status, s) \<leftarrow> enable_control_ports env g GRAPH_CONTROL_CB (graph_component (graphs s g)) MMAL_SUCCESS s;
          let cs = graph_connection (graphs s g);
          (status', s) \<leftarrow> enable_connections env g cs MMAL_SUCCESS s;
          if status' \<noteq> MMAL_SUCCESS then do { s \<leftarrow> graph_stop_worker_thread g s; Some (status', s) }
          else Some (if cs = [] then status else status', post_graph g s)
        })"

fun disable_connections ::
  "('a mmal_store_scheme) port_env \<Rightarrow> addr list \<Rightarrow> mmal_status \<Rightarrow> 'a mmal_store_scheme \<Rightarrow>
   (mmal_status \<times> 'a mmal_store_scheme) option" where
  "disable_connections env [] status s = Some (status, s)"
| "disable_connections env (c # cs) status s = do {
     (status, s) \<leftarrow> mmal_connection_disable env c s;
     if status \<noteq> MMAL_SUCCESS then Some (status, s) else disable_connections env cs status s
   }"

definition mmal_graph_disable ::
  "('a graph_store_scheme) port_env \<Rightarrow> addr \<Rightarrow> 'a graph_store_scheme \<Rightarrow> (mmal_status \<times> 'a graph_store_scheme) option" where
  "mmal_graph_disable env g s = do {
     s \<leftarrow> graph_stop_worker_thread g s;
     disable_connections env (graph_connection (graphs s g)) MMAL_SUCCESS s
   }"

end
