(* ===== verification/GraphComponent.thy ===== *)
theory GraphComponent
  imports Graph
begin

text \<open>
  A graph as a component of its own, \<^verbatim>\<open>mmal/util/mmal_graph.c\<close>, second half: the ports of the component stand for the ports
  that were added to the graph, and every operation on them goes to the port behind, and on along the connections.
  \<open>graph_env\<close> gives the names of these functions their meaning on top of an environment of other modules.
\<close>

definition GRAPH_COMPONENT_CONTROL_CB :: nat where "GRAPH_COMPONENT_CONTROL_CB = 1002"
definition GRAPH_COMPONENT_CONNECTION_CB :: nat where "GRAPH_COMPONENT_CONNECTION_CB = 1003"
definition GRAPH_PORT_ENABLE_CB :: nat where "GRAPH_PORT_ENABLE_CB = 1004"
definition GRAPH_FN :: nat where "GRAPH_FN = 1005"
definition GRAPH_CONTROL_FN :: nat where "GRAPH_CONTROL_FN = 1006"

section \<open>Callbacks\<close>

definition graph_component_control_cb ::
  "('a graph_store_scheme) port_env \<Rightarrow> ('a graph_store_scheme) graph_client \<Rightarrow> addr \<Rightarrow> addr \<Rightarrow> 'a graph_store_scheme \<Rightarrow>
   'a graph_store_scheme option" where
  "graph_component_control_cb env gc p b s = do {
     k \<leftarrow> port_userdata (ports s p);
     g \<leftarrow> comp_module (components s k);
     (taken, s) \<leftarrow>
       (case gf_control_callback (graphs s g) of
          None \<Rightarrow> Some (False, s)
        | Some n \<Rightarrow> do { (status, s) \<leftarrow> gc_buffer gc n g p b s; Some (status \<noteq> MMAL_ENOSYS, s) });
     if taken then Some s
     else do { control \<leftarrow> comp_control (components s k); mmal_port_event_send env control b s }
   }"

definition graph_component_connection_cb ::
  "('a graph_store_scheme) port_env \<Rightarrow> ('a graph_store_scheme) graph_client \<Rightarrow> addr \<Rightarrow> 'a graph_store_scheme \<Rightarrow>
   'a graph_store_scheme option" where
  "graph_component_connection_cb env gc c s = do {
     k \<leftarrow> conn_user_data (connections s c);
     (buffer, s) \<leftarrow> direct_buffer c s;
     (case buffer of
        Some b \<Rightarrow> do { g \<leftarrow> comp_module (components s k); graph_process_buffer env gc g c b s }
      | None \<Rightarrow> Some (snd (mmal_component_action_trigger k s)))
   }"

definition graph_do_processing_loop ::
  "('a graph_store_scheme) port_env \<Rightarrow> ('a graph_store_scheme) graph_client \<Rightarrow> addr \<Rightarrow> 'a graph_store_scheme \<Rightarrow>
   'a graph_store_scheme option" where
  "graph_do_processing_loop env gc k s = do { g \<leftarrow> comp_module (components s k); process_all env gc g s }"

section \<open>The port behind a port\<close>

text \<open>
  The comparison lets an index through that equals the number of ports: the entry behind the last one is null while the table
  has room (\<open>Some None\<close>), and no entry of the table when it is full (\<open>None\<close>).
\<close>

definition table_entry :: "addr list \<Rightarrow> nat \<Rightarrow> addr option option" where
  "table_entry ps i =
     (if length ps < i then Some None
      else if i < length ps then Some (Some (ps ! i))
      else if i < GRAPH_CONNECTIONS_MAX then Some None
      else None)"

definition find_port_from_graph :: "addr \<Rightarrow> addr \<Rightarrow> 'a graph_store_scheme \<Rightarrow> addr option option" where
  "find_port_from_graph g p s =
     (case port_type (ports s p) of
        MMAL_PORT_TYPE_INPUT \<Rightarrow> table_entry (graph_input (graphs s g)) (unat (port_index (ports s p)))
      | MMAL_PORT_TYPE_OUTPUT \<Rightarrow> table_entry (graph_output (graphs s g)) (unat (port_index (ports s p)))
      | _ \<Rightarrow> Some None)"

text \<open>
  The way back, to the port of the component.  A port that the graph has not is not found (\<open>Some None\<close>); for one that it has, the
  component is followed, which is null before the component is made, and its array read, which may have fewer entries than the table
  when ports were added later (\<open>None\<close>).
\<close>

definition find_port_to_graph :: "addr \<Rightarrow> addr \<Rightarrow> 'a graph_store_scheme \<Rightarrow> addr option option" where
  "find_port_to_graph g p s =
     (let entry = (\<lambda>i ports_of. do {
        k \<leftarrow> graph_self (graphs s g);
        if i < length (ports_of (components s k)) then Some (Some (ports_of (components s k) ! i)) else None
      }) in
      case port_type (ports s p) of
        MMAL_PORT_TYPE_INPUT \<Rightarrow>
          (case find_index p (graph_input (graphs s g)) of None \<Rightarrow> Some None | Some i \<Rightarrow> entry i comp_input)
      | MMAL_PORT_TYPE_OUTPUT \<Rightarrow>
          (case find_index p (graph_output (graphs s g)) of None \<Rightarrow> Some None | Some i \<Rightarrow> entry i comp_output)
      | _ \<Rightarrow> Some None)"

definition mirror_requirements :: "mmal_port \<Rightarrow> mmal_port \<Rightarrow> mmal_port" where
  "mirror_requirements pt gp = gp\<lparr>buffer_num_min := buffer_num_min pt, buffer_num_recommended := buffer_num_recommended pt,
     buffer_size_min := buffer_size_min pt, buffer_size_recommended := buffer_size_recommended pt,
     buffer_alignment_min := buffer_alignment_min pt\<rparr>"

definition mirror_port :: "bool \<Rightarrow> mmal_port \<Rightarrow> mmal_port \<Rightarrow> mmal_port" where
  "mirror_port init pt gp =
     (let gp = (mirror_requirements pt gp)\<lparr>port_capabilities := port_capabilities pt\<rparr>
      in if init then gp\<lparr>buffer_num := buffer_num pt, buffer_size := buffer_size pt\<rparr> else gp)"

definition graph_port_update ::
  "addr \<Rightarrow> addr \<Rightarrow> bool \<Rightarrow> 'a graph_store_scheme \<Rightarrow> (mmal_status \<times> 'a graph_store_scheme) option" where
  "graph_port_update g gp init s = do {
     port \<leftarrow> find_port_from_graph g gp s;
     (case port of
        None \<Rightarrow> Some (MMAL_EINVAL, s)
      | Some p \<Rightarrow> do {
          (status, s) \<leftarrow> mmal_format_full_copy (port_format (ports s gp)) (port_format (ports s p)) s;
          Some (if status \<noteq> MMAL_SUCCESS then (status, s)
                else (MMAL_SUCCESS, upd_port gp (mirror_port init (ports s p)) s))
        })
   }"

definition graph_port_update_requirements :: "addr \<Rightarrow> addr \<Rightarrow> 'a graph_store_scheme \<Rightarrow> (mmal_status \<times> 'a graph_store_scheme) option" where
  "graph_port_update_requirements g gp s = do {
     port \<leftarrow> find_port_from_graph g gp s;
     Some (case port of
             None \<Rightarrow> (MMAL_EINVAL, s)
           | Some p \<Rightarrow> (MMAL_SUCCESS, upd_port gp (mirror_requirements (ports s p)) s))
   }"

text \<open>A loop over ports that stops at the first failure.\<close>

fun while_success ::
  "(addr \<Rightarrow> 's \<Rightarrow> (mmal_status \<times> 's) option) \<Rightarrow> addr list \<Rightarrow> mmal_status \<Rightarrow> 's \<Rightarrow> (mmal_status \<times> 's) option" where
  "while_success f [] status s = Some (status, s)"
| "while_success f (p # ps) status s =
     (if status \<noteq> MMAL_SUCCESS then Some (status, s)
      else do { (status, s) \<leftarrow> f p s; while_success f ps status s })"

section \<open>The component\<close>

text \<open>\<open>component->input\<close> is null exactly when the component has no input port.\<close>

definition free_component_ports :: "addr option \<Rightarrow> addr list \<Rightarrow> 'a mmal_store_scheme \<Rightarrow> 'a mmal_store_scheme" where
  "free_component_ports array ps s = (case array of None \<Rightarrow> s | Some a \<Rightarrow> if ps = [] then s else mmal_ports_free a ps s)"

definition graph_component_destroy ::
  "('a graph_store_scheme) port_env \<Rightarrow> ('a graph_store_scheme) graph_client \<Rightarrow> addr \<Rightarrow> 'a graph_store_scheme \<Rightarrow>
   (mmal_status \<times> 'a graph_store_scheme) option" where
  "graph_component_destroy env gc k s = do {
     g \<leftarrow> comp_module (components s k);
     s \<leftarrow> call_graph_destroy gc g s;
     let s = upd_graph g (\<lambda>d. d\<lparr>gf_destroy := None\<rparr>) s;
     let s = free_component_ports (comp_input_array (components s k)) (comp_input (components s k)) s;
     let s = free_component_ports (comp_output_array (components s k)) (comp_output (components s k)) s;
     (_, s) \<leftarrow> mmal_graph_destroy env gc (Some g) s;
     Some (MMAL_SUCCESS, s)
   }"

definition graph_component_set_enabled ::
  "('a graph_store_scheme) graph_client \<Rightarrow> bool \<Rightarrow> addr \<Rightarrow> 'a graph_store_scheme \<Rightarrow> (mmal_status \<times> 'a graph_store_scheme) option" where
  "graph_component_set_enabled gc enable k s = do {
     g \<leftarrow> comp_module (components s k);
     (case gf_graph_enable (graphs s g) of None \<Rightarrow> Some (MMAL_ENOSYS, s) | Some n \<Rightarrow> gc_graph_enable gc n g enable s)
   }"

definition graph_component_enable ::
  "('a graph_store_scheme) graph_client \<Rightarrow> addr \<Rightarrow> 'a graph_store_scheme \<Rightarrow> (mmal_status \<times> 'a graph_store_scheme) option" where
  "graph_component_enable gc k s = graph_component_set_enabled gc True k s"

definition graph_component_disable ::
  "('a graph_store_scheme) graph_client \<Rightarrow> addr \<Rightarrow> 'a graph_store_scheme \<Rightarrow> (mmal_status \<times> 'a graph_store_scheme) option" where
  "graph_component_disable gc k s = graph_component_set_enabled gc False k s"

section \<open>Operations on the ports\<close>

definition graph_port_enable_cb ::
  "('a graph_store_scheme) port_env \<Rightarrow> ('a graph_store_scheme) graph_client \<Rightarrow> addr \<Rightarrow> addr \<Rightarrow> 'a graph_store_scheme \<Rightarrow>
   'a graph_store_scheme option" where
  "graph_port_enable_cb env gc p b s = do {
     g \<leftarrow> port_userdata (ports s p);
     port \<leftarrow> find_port_to_graph g p s;
     (case port of
        None \<Rightarrow> release_buffer env b s
      | Some gp \<Rightarrow> do {
          (taken, s) \<leftarrow>
            (case gf_return_buffer (graphs s g) of
               None \<Rightarrow> Some (False, s)
             | Some n \<Rightarrow> do { (status, s) \<leftarrow> gc_buffer gc n g gp b s; Some (status \<noteq> MMAL_ENOSYS, s) });
          if taken then Some s
          else if bh_cmd (bufs s b) \<noteq> 0 then mmal_port_event_send env gp b s
          else mmal_port_buffer_header_callback env gp b s
        })
   }"

definition graph_component_topology_ports_linked :: "addr \<Rightarrow> addr \<Rightarrow> addr \<Rightarrow> 'a graph_store_scheme \<Rightarrow> bool" where
  "graph_component_topology_ports_linked g p q s =
     (case find_index (port_component (ports s p)) (graph_component (graphs s g)) of
        None \<Rightarrow> False
      | Some i \<Rightarrow>
          if graph_topology (graphs s g) i = MMAL_GRAPH_TOPOLOGY_STRAIGHT
          then port_index (ports s p) = port_index (ports s q) else True)"

definition opposite_type :: "mmal_port_type \<Rightarrow> mmal_port_type" where
  "opposite_type t =
     (case t of MMAL_PORT_TYPE_OUTPUT \<Rightarrow> MMAL_PORT_TYPE_INPUT | MMAL_PORT_TYPE_INPUT \<Rightarrow> MMAL_PORT_TYPE_OUTPUT | _ \<Rightarrow> t)"

text \<open>The connection of the graph that \<open>q\<close> is an end of, for the ports that the change has to reach.\<close>

definition state_connection :: "addr \<Rightarrow> addr \<Rightarrow> bool \<Rightarrow> mmal_port_type \<Rightarrow> addr \<Rightarrow> 'a graph_store_scheme \<Rightarrow> addr option" where
  "state_connection g p enable type q s =
     (if port_type (ports s q) \<noteq> type \<or> port_enabled (ports s q) = enable then None
      else case find (\<lambda>c. conn_out (connections s c) = q \<or> conn_in (connections s c) = q) (graph_connection (graphs s g)) of
             None \<Rightarrow> None
           | Some c \<Rightarrow> if graph_component_topology_ports_linked g p q s then Some c else None)"

text \<open>\<open>qs\<close> are the ports of the component of \<open>p\<close> that are still to be looked at, \<open>type\<close> is the type of the other side.\<close>

partial_function (option) state_propagate ::
  "('a graph_store_scheme) port_env \<Rightarrow> addr \<Rightarrow> addr \<Rightarrow> bool \<Rightarrow> mmal_port_type \<Rightarrow> addr list \<Rightarrow> 'a graph_store_scheme \<Rightarrow>
   (mmal_status \<times> 'a graph_store_scheme) option" where
  "state_propagate env g p enable type qs s =
     (case qs of
        [] \<Rightarrow> Some (MMAL_SUCCESS, s)
      | q # qs \<Rightarrow>
          (case state_connection g p enable type q s of
             None \<Rightarrow> state_propagate env g p enable type qs s
           | Some c \<Rightarrow>
               Option.bind (if enable then mmal_connection_enable env c s else Some (MMAL_SUCCESS, s)) (\<lambda>(status, s).
                 if status \<noteq> MMAL_SUCCESS then Some (status, s)
                 else
                   let other = (if conn_in (connections s c) = q then conn_out (connections s c) else conn_in (connections s c)) in
                   Option.bind (state_propagate env g other enable (opposite_type (port_type (ports s other)))
                       (comp_port (components s (port_component (ports s other)))) s) (\<lambda>(status, s).
                     if status \<noteq> MMAL_SUCCESS then Some (status, s)
                     else
                       Option.bind (if \<not> enable then mmal_connection_disable env c s else Some (MMAL_SUCCESS, s)) (\<lambda>(status, s).
                         if status \<noteq> MMAL_SUCCESS then Some (status, s)
                         else state_propagate env g p enable type qs s)))))"

definition graph_port_state_propagate ::
  "('a graph_store_scheme) port_env \<Rightarrow> addr \<Rightarrow> addr \<Rightarrow> bool \<Rightarrow> 'a graph_store_scheme \<Rightarrow> (mmal_status \<times> 'a graph_store_scheme) option" where
  "graph_port_state_propagate env g p enable s =
     state_propagate env g p enable (opposite_type (port_type (ports s p)))
       (comp_port (components s (port_component (ports s p)))) s"

text \<open>An operation on a port of the component: the graph behind it, and the port behind it if there is one.\<close>

definition with_graph_port ::
  "addr \<Rightarrow> (addr \<Rightarrow> addr \<Rightarrow> 'a graph_store_scheme \<Rightarrow> (mmal_status \<times> 'a graph_store_scheme) option) \<Rightarrow> 'a graph_store_scheme \<Rightarrow>
   (mmal_status \<times> 'a graph_store_scheme) option" where
  "with_graph_port gp f s = do {
     g \<leftarrow> comp_module (components s (port_component (ports s gp)));
     port \<leftarrow> find_port_from_graph g gp s;
     (case port of None \<Rightarrow> Some (MMAL_EINVAL, s) | Some p \<Rightarrow> f g p s)
   }"

definition graph_port_enable ::
  "('a graph_store_scheme) port_env \<Rightarrow> ('a graph_store_scheme) graph_client \<Rightarrow> addr \<Rightarrow> 'a graph_store_scheme \<Rightarrow>
   (mmal_status \<times> 'a graph_store_scheme) option" where
  "graph_port_enable env gc gp s = with_graph_port gp (\<lambda>g p s.
     let s = upd_port p (set_buffers (buffer_num (ports s gp)) (buffer_size (ports s gp))) s in
     user_first (gf_enable (graphs s g)) (\<lambda>n. gc_port gc n g gp) s (\<lambda>s. do {
       let s = upd_port p (\<lambda>pt. pt\<lparr>port_userdata := Some g\<rparr>) s;
       (status, s) \<leftarrow> mmal_port_enable env (Some p) (Some (Client_bh_cb GRAPH_PORT_ENABLE_CB)) s;
       if status \<noteq> MMAL_SUCCESS then Some (status, s)
       else do {
         (status, s) \<leftarrow> graph_port_state_propagate env g p True s;
         Some (status, snd (mmal_component_action_trigger (port_component (ports s gp)) s))
       }
     })) s"

definition graph_port_disable ::
  "('a graph_store_scheme) port_env \<Rightarrow> ('a graph_store_scheme) graph_client \<Rightarrow> addr \<Rightarrow> 'a graph_store_scheme \<Rightarrow>
   (mmal_status \<times> 'a graph_store_scheme) option" where
  "graph_port_disable env gc gp s = with_graph_port gp (\<lambda>g p s.
     user_first (gf_disable (graphs s g)) (\<lambda>n. gc_port gc n g gp) s (\<lambda>s. do {
       (status, s) \<leftarrow>
         (if graph_input (graphs s g) = [] \<or> port_type (ports s p) = MMAL_PORT_TYPE_INPUT
          then graph_port_state_propagate env g p False s else Some (MMAL_SUCCESS, s));
       if status \<noteq> MMAL_SUCCESS then Some (status, s) else mmal_port_disable env (Some p) s
     })) s"

text \<open>The buffers that wait in the queue of a connection are released.\<close>

definition flush_connection_queue ::
  "('a mmal_store_scheme) port_env \<Rightarrow> addr \<Rightarrow> 'a mmal_store_scheme \<Rightarrow> 'a mmal_store_scheme option" where
  "flush_connection_queue env c s = (if conn_queue (connections s c) = None then Some s else drain_connection env c s)"

definition flush_connection :: "addr \<Rightarrow> addr \<Rightarrow> addr \<Rightarrow> 'a graph_store_scheme \<Rightarrow> addr option" where
  "flush_connection g p q s =
     (if port_type (ports s q) \<noteq> MMAL_PORT_TYPE_OUTPUT \<or> \<not> port_enabled (ports s q) then None
      else case find (\<lambda>c. conn_out (connections s c) = q) (graph_connection (graphs s g)) of
             None \<Rightarrow> None
           | Some c \<Rightarrow> if graph_component_topology_ports_linked g p q s then Some c else None)"

text \<open>\<open>None\<close> for \<open>todo\<close>: \<open>p\<close> is still to be flushed; \<open>Some qs\<close>: the ports of its component that are left.\<close>

partial_function (option) flush_propagate ::
  "('a graph_store_scheme) port_env \<Rightarrow> addr \<Rightarrow> addr \<Rightarrow> addr list option \<Rightarrow> 'a graph_store_scheme \<Rightarrow>
   (mmal_status \<times> 'a graph_store_scheme) option" where
  "flush_propagate env g p todo s =
     (case todo of
        None \<Rightarrow>
          Option.bind (mmal_port_flush env (Some p) s) (\<lambda>(status, s).
            if status \<noteq> MMAL_SUCCESS \<or> port_type (ports s p) = MMAL_PORT_TYPE_OUTPUT then Some (status, s)
            else flush_propagate env g p (Some (comp_port (components s (port_component (ports s p))))) s)
      | Some [] \<Rightarrow> Some (MMAL_SUCCESS, s)
      | Some (q # qs) \<Rightarrow>
          (case flush_connection g p q s of
             None \<Rightarrow> flush_propagate env g p (Some qs) s
           | Some c \<Rightarrow>
               Option.bind (flush_connection_queue env c s) (\<lambda>s.
                 Option.bind (flush_propagate env g (conn_in (connections s c)) None s) (\<lambda>(status, s).
                   if status \<noteq> MMAL_SUCCESS then Some (status, s) else flush_propagate env g p (Some qs) s))))"

definition graph_port_flush ::
  "('a graph_store_scheme) port_env \<Rightarrow> ('a graph_store_scheme) graph_client \<Rightarrow> addr \<Rightarrow> 'a graph_store_scheme \<Rightarrow>
   (mmal_status \<times> 'a graph_store_scheme) option" where
  "graph_port_flush env gc gp s = with_graph_port gp (\<lambda>g p s.
     user_first (gf_flush (graphs s g)) (\<lambda>n. gc_port gc n g gp) s (flush_propagate env g p None)) s"

definition graph_port_send ::
  "('a graph_store_scheme) port_env \<Rightarrow> ('a graph_store_scheme) graph_client \<Rightarrow> addr \<Rightarrow> addr \<Rightarrow> 'a graph_store_scheme \<Rightarrow>
   (mmal_status \<times> 'a graph_store_scheme) option" where
  "graph_port_send env gc gp b s = with_graph_port gp (\<lambda>g p s.
     user_first (gf_send_buffer (graphs s g)) (\<lambda>n. gc_buffer gc n g gp b) s (mmal_port_send_buffer env (Some p) b)) s"

definition format_connection :: "addr \<Rightarrow> addr \<Rightarrow> addr \<Rightarrow> 'a graph_store_scheme \<Rightarrow> addr option" where
  "format_connection g p q s =
     (if port_enabled (ports s q) then None
      else case find (\<lambda>c. conn_out (connections s c) = q) (graph_connection (graphs s g)) of
             None \<Rightarrow> None
           | Some c \<Rightarrow> if graph_component_topology_ports_linked g p q s then Some c else None)"

partial_function (option) format_propagate ::
  "('a graph_store_scheme) port_env \<Rightarrow> addr \<Rightarrow> addr \<Rightarrow> addr list option \<Rightarrow> 'a graph_store_scheme \<Rightarrow>
   (mmal_status \<times> 'a graph_store_scheme) option" where
  "format_propagate env g p todo s =
     (case todo of
        None \<Rightarrow>
          if port_type (ports s p) = MMAL_PORT_TYPE_OUTPUT then Some (MMAL_SUCCESS, s)
          else format_propagate env g p (Some (comp_output (components s (port_component (ports s p))))) s
      | Some [] \<Rightarrow> Some (MMAL_SUCCESS, s)
      | Some (q # qs) \<Rightarrow>
          (case format_connection g p q s of
             None \<Rightarrow> format_propagate env g p (Some qs) s
           | Some c \<Rightarrow>
               Option.bind (copy_and_commit env (conn_in (connections s c)) (port_format (ports s (conn_out (connections s c)))) s)
                 (\<lambda>(status, s).
                   if status \<noteq> MMAL_SUCCESS then Some (status, s)
                   else
                     Option.bind (format_propagate env g (conn_in (connections s c)) None s) (\<lambda>(status, s).
                       if status \<noteq> MMAL_SUCCESS then Some (status, s) else format_propagate env g p (Some qs) s))))"

text \<open>After a commit the values are read back, for an input port also those of all output ports.\<close>

definition read_formats_back ::
  "addr \<Rightarrow> addr \<Rightarrow> 'a graph_store_scheme \<Rightarrow> (mmal_status \<times> 'a graph_store_scheme) option" where
  "read_formats_back g gp s = do {
     (status, s) \<leftarrow> graph_port_update g gp False s;
     if status \<noteq> MMAL_SUCCESS \<or> port_type (ports s gp) \<noteq> MMAL_PORT_TYPE_INPUT then Some (status, s)
     else while_success (\<lambda>q. graph_port_update g q False)
            (take (length (graph_output (graphs s g))) (comp_output (components s (port_component (ports s gp))))) MMAL_SUCCESS s
   }"

definition graph_port_format_commit ::
  "('a graph_store_scheme) port_env \<Rightarrow> ('a graph_store_scheme) graph_client \<Rightarrow> addr \<Rightarrow> 'a graph_store_scheme \<Rightarrow>
   (mmal_status \<times> 'a graph_store_scheme) option" where
  "graph_port_format_commit env gc gp s = do {
     g \<leftarrow> comp_module (components s (port_component (ports s gp)));
     (status, s) \<leftarrow>
       user_first (gf_format_commit (graphs s g)) (\<lambda>n. gc_port gc n g gp) s (\<lambda>s. do {
         port \<leftarrow> find_port_from_graph g gp s;
         (case port of
            None \<Rightarrow> Some (MMAL_EINVAL, s)
          | Some p \<Rightarrow> do {
              (status, s) \<leftarrow> mmal_format_full_copy (port_format (ports s p)) (port_format (ports s gp)) s;
              if status \<noteq> MMAL_SUCCESS then Some (status, s) else do {
              let s = upd_port p (set_buffers (buffer_num (ports s gp)) (buffer_size (ports s gp))) s;
              (status, s) \<leftarrow> mmal_port_format_commit env (Some p) s;
              if status \<noteq> MMAL_SUCCESS then Some (status, s) else format_propagate env g p None s
              }
            })
       });
     if status \<noteq> MMAL_SUCCESS then Some (status, s) else read_formats_back g gp s
   }"

section \<open>Parameters\<close>

text \<open>The components of the graph are asked in turn until one succeeds.\<close>

fun control_parameter_get ::
  "('a mmal_store_scheme) port_env \<Rightarrow> addr list \<Rightarrow> mmal_status \<Rightarrow> mmal_parameter \<Rightarrow> 'a mmal_store_scheme \<Rightarrow>
   (mmal_status \<times> mmal_parameter \<times> 'a mmal_store_scheme) option" where
  "control_parameter_get env [] status param s = Some (status, param, s)"
| "control_parameter_get env (c # cs) status param s =
     (if status = MMAL_SUCCESS then Some (status, param, s)
      else do {
        (status, res, s) \<leftarrow> mmal_port_parameter_get env (comp_control (components s c)) (Some param) s;
        control_parameter_get env cs status (case res of None \<Rightarrow> param | Some q \<Rightarrow> q) s
      })"

fun control_parameter_set ::
  "('a mmal_store_scheme) port_env \<Rightarrow> addr list \<Rightarrow> mmal_status \<Rightarrow> mmal_parameter \<Rightarrow> 'a mmal_store_scheme \<Rightarrow>
   (mmal_status \<times> 'a mmal_store_scheme) option" where
  "control_parameter_set env [] status param s = Some (status, s)"
| "control_parameter_set env (c # cs) status param s =
     (if status = MMAL_SUCCESS then Some (status, s)
      else do {
        (status, s) \<leftarrow> mmal_port_parameter_set env (comp_control (components s c)) (Some param) s;
        control_parameter_set env cs status param s
      })"

definition user_parameter_get ::
  "('a graph_store_scheme) graph_client \<Rightarrow> addr \<Rightarrow> addr \<Rightarrow> mmal_parameter \<Rightarrow> 'a graph_store_scheme \<Rightarrow>
   (mmal_status \<times> mmal_parameter \<times> 'a graph_store_scheme) option" where
  "user_parameter_get gc g gp param s =
     (case gf_parameter_get (graphs s g) of
        None \<Rightarrow> Some (MMAL_ENOSYS, param, s)
      | Some n \<Rightarrow> gc_parameter_get gc n g gp param s)"

definition graph_port_control_parameter_get ::
  "('a graph_store_scheme) port_env \<Rightarrow> ('a graph_store_scheme) graph_client \<Rightarrow> addr \<Rightarrow> mmal_parameter \<Rightarrow> 'a graph_store_scheme \<Rightarrow>
   (mmal_status \<times> mmal_parameter \<times> 'a graph_store_scheme) option" where
  "graph_port_control_parameter_get env gc gp param s = do {
     g \<leftarrow> comp_module (components s (port_component (ports s gp)));
     (status, param, s) \<leftarrow> user_parameter_get gc g gp param s;
     if status \<noteq> MMAL_ENOSYS then Some (status, param, s)
     else control_parameter_get env (graph_component (graphs s g)) MMAL_ENOSYS param s
   }"

definition graph_port_parameter_get ::
  "('a graph_store_scheme) port_env \<Rightarrow> ('a graph_store_scheme) graph_client \<Rightarrow> addr \<Rightarrow> mmal_parameter \<Rightarrow> 'a graph_store_scheme \<Rightarrow>
   (mmal_status \<times> mmal_parameter \<times> 'a graph_store_scheme) option" where
  "graph_port_parameter_get env gc gp param s = do {
     g \<leftarrow> comp_module (components s (port_component (ports s gp)));
     (status, param, s) \<leftarrow> user_parameter_get gc g gp param s;
     if status \<noteq> MMAL_ENOSYS then Some (status, param, s)
     else do {
       port \<leftarrow> find_port_from_graph g gp s;
       (case port of
          None \<Rightarrow> Some (MMAL_EINVAL, param, s)
        | Some p \<Rightarrow> do {
            (status, res, s) \<leftarrow> mmal_port_parameter_get env (Some p) (Some param) s;
            Some (status, case res of None \<Rightarrow> param | Some q \<Rightarrow> q, s)
          })
     }
   }"

definition graph_port_control_parameter_set ::
  "('a graph_store_scheme) port_env \<Rightarrow> ('a graph_store_scheme) graph_client \<Rightarrow> addr \<Rightarrow> mmal_parameter \<Rightarrow> 'a graph_store_scheme \<Rightarrow>
   (mmal_status \<times> 'a graph_store_scheme) option" where
  "graph_port_control_parameter_set env gc gp param s = do {
     g \<leftarrow> comp_module (components s (port_component (ports s gp)));
     user_first (gf_parameter_set (graphs s g)) (\<lambda>n. gc_parameter_set gc n g gp param) s
       (\<lambda>s. control_parameter_set env (graph_component (graphs s g)) MMAL_ENOSYS param s)
   }"

definition is_buffer_requirements :: "mmal_parameter \<Rightarrow> bool" where
  "is_buffer_requirements param = (case param of Param_buffer_requirements _ _ _ _ _ \<Rightarrow> True | _ \<Rightarrow> False)"

text \<open>New buffer requirements of one port may change those of the others, which are all read back.\<close>

definition graph_port_parameter_set ::
  "('a graph_store_scheme) port_env \<Rightarrow> ('a graph_store_scheme) graph_client \<Rightarrow> addr \<Rightarrow> mmal_parameter \<Rightarrow> 'a graph_store_scheme \<Rightarrow>
   (mmal_status \<times> 'a graph_store_scheme) option" where
  "graph_port_parameter_set env gc gp param s = do {
     g \<leftarrow> comp_module (components s (port_component (ports s gp)));
     user_first (gf_parameter_set (graphs s g)) (\<lambda>n. gc_parameter_set gc n g gp param) s
       (\<lambda>s. do {
          port \<leftarrow> find_port_from_graph g gp s;
          (case port of
             None \<Rightarrow> Some (MMAL_EINVAL, s)
           | Some p \<Rightarrow> do {
               (status, s) \<leftarrow> mmal_port_parameter_set env (Some p) (Some param) s;
               if status = MMAL_SUCCESS \<and> is_buffer_requirements param then do {
                 let k = components s (port_component (ports s gp));
                 while_success (graph_port_update_requirements g) (comp_input k @ comp_output k) MMAL_SUCCESS s
               } else Some (status, s)
             })
        })
   }"

section \<open>Connecting, payloads\<close>

text \<open>This function is never installed.\<close>

definition graph_port_connect ::
  "('a graph_store_scheme) port_env \<Rightarrow> addr \<Rightarrow> addr option \<Rightarrow> 'a graph_store_scheme \<Rightarrow> (mmal_status \<times> 'a graph_store_scheme) option" where
  "graph_port_connect env gp other s = with_graph_port gp (\<lambda>g p s.
     case other of Some q \<Rightarrow> mmal_port_connect env (Some p) (Some q) s | None \<Rightarrow> mmal_port_disconnect env (Some p) s) s"

definition graph_port_payload_alloc ::
  "('a graph_store_scheme) port_env \<Rightarrow> ('a graph_store_scheme) graph_client \<Rightarrow> addr \<Rightarrow> u32 \<Rightarrow> 'a graph_store_scheme \<Rightarrow>
   (addr option \<times> 'a graph_store_scheme) option" where
  "graph_port_payload_alloc env gc gp sz s = do {
     g \<leftarrow> comp_module (components s (port_component (ports s gp)));
     port \<leftarrow> find_port_from_graph g gp s;
     (case port of
        None \<Rightarrow> Some (None, s)
      | Some p \<Rightarrow>
          (case gf_payload_alloc (graphs s g) of
             None \<Rightarrow> Some (mmal_port_payload_alloc env (Some p) sz s)
           | Some n \<Rightarrow>
               let (status, payload, s) = gc_payload_alloc gc n g gp sz s in
               Some (if status \<noteq> MMAL_ENOSYS then (if status = MMAL_SUCCESS then payload else None, s)
                     else mmal_port_payload_alloc env (Some p) sz s)))
   }"

definition graph_port_payload_free ::
  "('a graph_store_scheme) port_env \<Rightarrow> ('a graph_store_scheme) graph_client \<Rightarrow> addr \<Rightarrow> addr \<Rightarrow> 'a graph_store_scheme \<Rightarrow>
   'a graph_store_scheme option" where
  "graph_port_payload_free env gc gp mem s = do {
     g \<leftarrow> comp_module (components s (port_component (ports s gp)));
     port \<leftarrow> find_port_from_graph g gp s;
     (case port of
        None \<Rightarrow> Some s
      | Some p \<Rightarrow>
          (case gf_payload_free (graphs s g) of
             None \<Rightarrow> mmal_port_payload_free env (Some p) mem s
           | Some n \<Rightarrow>
               let (status, s) = gc_payload_free gc n g gp mem s in
               if status = MMAL_SUCCESS then Some s else mmal_port_payload_free env (Some p) mem s))
   }"

section \<open>Creating the component\<close>

definition graph_port_functions :: "mmal_port \<Rightarrow> mmal_port" where
  "graph_port_functions pt = pt\<lparr>pf_enable := Some (Module_fn GRAPH_FN), pf_disable := Some (Module_fn GRAPH_FN),
     pf_flush := Some GRAPH_FN, pf_send := Some GRAPH_FN, pf_set_format := Some GRAPH_FN,
     pf_parameter_get := Some (Module_fn GRAPH_FN), pf_parameter_set := Some (Module_fn GRAPH_FN),
     port_payload_alloc := Some GRAPH_FN, port_payload_free := Some GRAPH_FN\<rparr>"

definition set_up_port :: "addr \<Rightarrow> addr \<Rightarrow> 'a graph_store_scheme \<Rightarrow> (mmal_status \<times> 'a graph_store_scheme) option" where
  "set_up_port g gp s = graph_port_update g gp True (upd_port gp graph_port_functions s)"

text \<open>An array of ports for a side of the graph, if that side has any; the result says whether it could be made.\<close>

definition make_ports ::
  "addr \<Rightarrow> mmal_port_type \<Rightarrow> nat \<Rightarrow> 'a mmal_store_scheme \<Rightarrow> bool \<times> addr option \<times> addr list \<times> 'a mmal_store_scheme" where
  "make_ports k type n s =
     (if n = 0 then (True, None, [], s)
      else case mmal_ports_alloc k (word_of_nat n) type 0 s of
             (None, s) \<Rightarrow> (False, None, [], s)
           | (Some (array, ps), s) \<Rightarrow> (True, Some array, ps, s))"

fun set_connection_callbacks :: "addr \<Rightarrow> addr list \<Rightarrow> 'a mmal_store_scheme \<Rightarrow> 'a mmal_store_scheme" where
  "set_connection_callbacks k [] s = s"
| "set_connection_callbacks k (c # cs) s = set_connection_callbacks k cs
     (upd_conn c (\<lambda>x. x\<lparr>conn_callback := Some GRAPH_COMPONENT_CONNECTION_CB, conn_user_data := Some k\<rparr>) s)"

text \<open>
  The ports of both sides: whether they are there, and the status at that point.  It is \<open>MMAL_ENOMEM\<close> at first, but when the array
  of the output ports cannot be had it is what the last input port left.
\<close>

definition create_graph_ports :: "addr \<Rightarrow> addr \<Rightarrow> 'a graph_store_scheme \<Rightarrow> (bool \<times> mmal_status \<times> 'a graph_store_scheme) option" where
  "create_graph_ports k g s = do {
     let (made, array, ps, s) = make_ports k MMAL_PORT_TYPE_INPUT (length (graph_input (graphs s g))) s;
     let s = upd_comp k (\<lambda>d. d\<lparr>comp_input_array := array, comp_input := ps\<rparr>) s;
     if \<not> made then Some (False, MMAL_ENOMEM, s) else do {
     (status, s) \<leftarrow> while_success (set_up_port g) ps MMAL_SUCCESS s;
     if status \<noteq> MMAL_SUCCESS then Some (False, status, s) else do {
     let (made, array, qs, s) = make_ports k MMAL_PORT_TYPE_OUTPUT (length (graph_output (graphs s g))) s;
     let s = upd_comp k (\<lambda>d. d\<lparr>comp_output_array := array, comp_output := qs\<rparr>) s;
     if \<not> made then Some (False, if ps = [] then MMAL_ENOMEM else status, s) else do {
     (status, s) \<leftarrow> while_success (set_up_port g) qs MMAL_SUCCESS s;
     Some (status = MMAL_SUCCESS, status, s)
     }}}
   }"

definition mmal_component_create_from_graph ::
  "('a graph_store_scheme) port_env \<Rightarrow> ('a graph_store_scheme) graph_client \<Rightarrow> addr \<Rightarrow> 'a graph_store_scheme \<Rightarrow>
   (mmal_status \<times> 'a graph_store_scheme) option" where
  "mmal_component_create_from_graph env gc k s = do {
     g \<leftarrow> comp_module (components s k);
     control \<leftarrow> comp_control (components s k);
     let s = upd_port control (\<lambda>pt. pt\<lparr>pf_parameter_get := Some (Module_fn GRAPH_CONTROL_FN),
               pf_parameter_set := Some (Module_fn GRAPH_CONTROL_FN)\<rparr>) s;
     (made, status, s) \<leftarrow> create_graph_ports k g s;
     (status, s) \<leftarrow> Some (if made then mmal_component_action_register k GRAPH_FN s else (status, s));
     if \<not> made \<or> status \<noteq> MMAL_SUCCESS then do { (_, s) \<leftarrow> graph_component_destroy env gc k s; Some (status, s) }
     else do {
       let s = set_connection_callbacks k (graph_connection (graphs s g)) s;
       let s = upd_comp k (\<lambda>d. d\<lparr>comp_pf_destroy := Some GRAPH_FN, comp_pf_enable := Some GRAPH_FN,
                 comp_pf_disable := Some GRAPH_FN\<rparr>) s;
       let s = upd_graph g (\<lambda>d. d\<lparr>graph_self := Some k\<rparr>) s;
       (_, s) \<leftarrow> enable_control_ports env k GRAPH_COMPONENT_CONTROL_CB (graph_component (graphs s g)) MMAL_SUCCESS s;
       Some (MMAL_SUCCESS, s)
     }
   }"

definition mmal_graph_component_constructor ::
  "('a graph_store_scheme) port_env \<Rightarrow> ('a graph_store_scheme) graph_client \<Rightarrow> string \<Rightarrow> addr \<Rightarrow> 'a graph_store_scheme \<Rightarrow>
   (mmal_status \<times> 'a graph_store_scheme) option" where
  "mmal_graph_component_constructor env gc name k s = mmal_component_create_from_graph env gc k s"

section \<open>The names of these functions\<close>

text \<open>
  \<open>env\<close> is the environment of the other modules, whose functions the components inside the graph have.  Where the interface of
  the core has no room for a call that does not come back, the state is left as it is.
\<close>

definition or_else :: "'s \<Rightarrow> 's option \<Rightarrow> 's" where
  "or_else d r = (case r of None \<Rightarrow> d | Some x \<Rightarrow> x)"

definition graph_env ::
  "('a graph_store_scheme) graph_client \<Rightarrow> ('a graph_store_scheme) port_env \<Rightarrow> ('a graph_store_scheme) port_env" where
  "graph_env gc env = env\<lparr>
     on_set_format := (\<lambda>n p s. if n = GRAPH_FN then graph_port_format_commit env gc p s else on_set_format env n p s),
     on_enable := (\<lambda>n p cb s. if n = GRAPH_FN then graph_port_enable env gc p s else on_enable env n p cb s),
     on_disable := (\<lambda>n p s. if n = GRAPH_FN then graph_port_disable env gc p s else on_disable env n p s),
     on_send := (\<lambda>n p b s. if n = GRAPH_FN then graph_port_send env gc p b s else on_send env n p b s),
     on_flush := (\<lambda>n p s. if n = GRAPH_FN then graph_port_flush env gc p s else on_flush env n p s),
     on_parameter_set := (\<lambda>n p param s.
       if n = GRAPH_FN then graph_port_parameter_set env gc p param s
       else if n = GRAPH_CONTROL_FN then graph_port_control_parameter_set env gc p param s
       else on_parameter_set env n p param s),
     on_parameter_get := (\<lambda>n p param s.
       if n = GRAPH_FN then graph_port_parameter_get env gc p param s
       else if n = GRAPH_CONTROL_FN then graph_port_control_parameter_get env gc p param s
       else on_parameter_get env n p param s),
     on_payload_alloc := (\<lambda>n p sz s. if n = GRAPH_FN then or_else (None, s) (graph_port_payload_alloc env gc p sz s)
       else on_payload_alloc env n p sz s),
     on_payload_free := (\<lambda>n p mem s. if n = GRAPH_FN then or_else s (graph_port_payload_free env gc p mem s)
       else on_payload_free env n p mem s),
     on_component_enable := (\<lambda>n k s. if n = GRAPH_FN then graph_component_enable gc k s else on_component_enable env n k s),
     on_component_disable := (\<lambda>n k s. if n = GRAPH_FN then graph_component_disable gc k s else on_component_disable env n k s),
     on_component_destroy := (\<lambda>n k s. if n = GRAPH_FN then or_else (MMAL_SUCCESS, s) (graph_component_destroy env gc k s)
       else on_component_destroy env n k s),
     on_create := (\<lambda>n name k s. if n = GRAPH_FN then mmal_graph_component_constructor env gc name k s else on_create env n name k s),
     on_action := (\<lambda>n k s. if n = GRAPH_FN then graph_do_processing_loop env gc k s else on_action env n k s),
     on_buffer := (\<lambda>n p b s.
       if n = GRAPH_CONTROL_CB then graph_control_cb env gc p b s
       else if n = GRAPH_COMPONENT_CONTROL_CB then graph_component_control_cb env gc p b s
       else if n = GRAPH_PORT_ENABLE_CB then graph_port_enable_cb env gc p b s
       else on_buffer env n p b s),
     on_connection := (\<lambda>n c s.
       if n = GRAPH_CONNECTION_CB then graph_connection_cb env gc c s
       else if n = GRAPH_COMPONENT_CONNECTION_CB then graph_component_connection_cb env gc c s
       else on_connection env n c s)\<rparr>"

text \<open>The graph becomes the module of the new component.\<close>

definition mmal_graph_build ::
  "('a graph_store_scheme) port_env \<Rightarrow> ('a graph_store_scheme) graph_client \<Rightarrow> addr \<Rightarrow> string \<Rightarrow> bool \<Rightarrow> 'a graph_store_scheme \<Rightarrow>
   (mmal_status \<times> addr option \<times> 'a graph_store_scheme) option" where
  "mmal_graph_build env gc g name place s =
     mmal_component_create_with_constructor (graph_env gc env) name (Some GRAPH_FN) (Some g) place s"

end
