(* ===== verification/GraphLife.thy ===== *)
theory GraphLife
  imports GraphComponent
begin

text \<open>
  What graphs promise: building one takes exactly the references that destroying it gives back, whatever is added in whatever
  order; the ports of the component and the ports behind them stand in one-to-one correspondence; and what goes wrong when the
  memory for the output ports is refused, or when a graph is enabled a second time.
\<close>

section \<open>Building and destroying\<close>

datatype build_op =
  Add_component "addr option" | Add_connection "addr option" | Add_port "addr option"
| Set_topology "addr option" mmal_graph_topology

fun build_step :: "addr \<Rightarrow> build_op \<Rightarrow> 'a graph_store_scheme \<Rightarrow> mmal_status \<times> 'a graph_store_scheme" where
  "build_step g (Add_component c) s = mmal_graph_add_component g c s"
| "build_step g (Add_connection c) s = mmal_graph_add_connection g c s"
| "build_step g (Add_port p) s = mmal_graph_add_port g p s"
| "build_step g (Set_topology c t) s = mmal_graph_component_topology g c t s"

definition build_run :: "addr \<Rightarrow> build_op list \<Rightarrow> 'a graph_store_scheme \<Rightarrow> 'a graph_store_scheme" where
  "build_run g ops s = fold (\<lambda>op s. snd (build_step g op s)) ops s"

text \<open>The tables fit, and the counts are those of \<open>K\<close> and \<open>X\<close> raised by the entries of the tables.\<close>

definition tables_fit :: "mmal_graph \<Rightarrow> bool" where
  "tables_fit d \<longleftrightarrow> length (graph_component d) \<le> GRAPH_CONNECTIONS_MAX \<and> length (graph_connection d) \<le> GRAPH_CONNECTIONS_MAX \<and>
     length (graph_input d) \<le> GRAPH_CONNECTIONS_MAX \<and> length (graph_output d) \<le> GRAPH_CONNECTIONS_MAX"

definition more_refs :: "nat \<Rightarrow> mmal_component \<Rightarrow> mmal_component" where
  "more_refs n k = k\<lparr>comp_refcount := comp_refcount k + int n\<rparr>"

definition more_conn_refs :: "nat \<Rightarrow> mmal_connection \<Rightarrow> mmal_connection" where
  "more_conn_refs n k = k\<lparr>conn_refcount := conn_refcount k + int n\<rparr>"

definition holds_refs ::
  "(addr \<Rightarrow> mmal_component) \<Rightarrow> (addr \<Rightarrow> mmal_connection) \<Rightarrow> addr list \<Rightarrow> addr list \<Rightarrow> 'a graph_store_scheme \<Rightarrow> bool" where
  "holds_refs K X cs xs s \<longleftrightarrow>
     components s = (\<lambda>c. more_refs (count_list cs c) (K c)) \<and> connections s = (\<lambda>c. more_conn_refs (count_list xs c) (X c))"

text \<open>Everything that is added is held by somebody else too, and no count is about to overflow.\<close>

definition added_components :: "build_op list \<Rightarrow> addr set" where
  "added_components ops = {c. Add_component (Some c) \<in> set ops}"

definition added_connections :: "build_op list \<Rightarrow> addr set" where
  "added_connections ops = {c. Add_connection (Some c) \<in> set ops}"

definition held_elsewhere :: "build_op list \<Rightarrow> (addr \<Rightarrow> mmal_component) \<Rightarrow> (addr \<Rightarrow> mmal_connection) \<Rightarrow> bool" where
  "held_elsewhere ops K X \<longleftrightarrow>
     (\<forall>c\<in>added_components ops. 0 < comp_refcount (K c) \<and> comp_refcount (K c) + 16 \<le> INT32_MAX) \<and>
     (\<forall>c\<in>added_connections ops. 0 < conn_refcount (X c) \<and> conn_refcount (X c) + 16 \<le> INT32_MAX)"

lemma count_list_snoc [simp]: "count_list (xs @ [x]) y = count_list xs y + (if x = y then 1 else 0)"
  by simp

lemma more_refs_simps [simp]:
  "more_refs 0 k = k" "comp_refcount (more_refs n k) = comp_refcount k + int n"
  "more_conn_refs 0 x = x" "conn_refcount (more_conn_refs n x) = conn_refcount x + int n"
  by (simp_all add: more_refs_def more_conn_refs_def)

lemma more_refs_set:
  "(more_refs n k)\<lparr>comp_refcount := comp_refcount k + int m\<rparr> = more_refs m k"
  "(more_conn_refs n x)\<lparr>conn_refcount := conn_refcount x + int m\<rparr> = more_conn_refs m x"
  by (simp_all add: more_refs_def more_conn_refs_def)

lemma s32_refs: "0 < k \<Longrightarrow> k + 16 \<le> INT32_MAX \<Longrightarrow> n < 16 \<Longrightarrow> s32 (k + int n + 1) = k + int (Suc n)"
  by (subst s32_id) (auto simp: is_s32_def)

lemma acquire_holds:
  assumes "holds_refs K X cs xs s" "0 < comp_refcount (K c)" "comp_refcount (K c) + 16 \<le> INT32_MAX" "length cs < 16"
  shows "holds_refs K X (cs @ [c]) xs (mmal_component_acquire c s)"
proof -
  have "count_list cs c < 16" using count_le_length [of cs c] assms(4) by linarith
  then have "s32 (comp_refcount (K c) + int (count_list cs c) + 1) = comp_refcount (K c) + int (Suc (count_list cs c))"
    using assms(2,3) by (intro s32_refs) auto
  then show ?thesis using assms(1)
    by (auto simp: holds_refs_def mmal_component_acquire_def fun_eq_iff upd_comp_def more_refs_def)
qed

lemma acquire_conn_holds:
  assumes "holds_refs K X cs xs s" "0 < conn_refcount (X x)" "conn_refcount (X x) + 16 \<le> INT32_MAX" "length xs < 16"
  shows "holds_refs K X cs (xs @ [x]) (mmal_connection_acquire x s)"
proof -
  have "count_list xs x < 16" using count_le_length [of xs x] assms(4) by linarith
  then have "s32 (conn_refcount (X x) + int (count_list xs x) + 1) = conn_refcount (X x) + int (Suc (count_list xs x))"
    using assms(2,3) by (intro s32_refs) auto
  then show ?thesis using assms(1)
    by (auto simp: holds_refs_def mmal_connection_acquire_def fun_eq_iff upd_conn_def more_conn_refs_def)
qed

definition building ::
  "build_op list \<Rightarrow> (addr \<Rightarrow> mmal_component) \<Rightarrow> (addr \<Rightarrow> mmal_connection) \<Rightarrow> (addr \<times> u32) list \<Rightarrow> sync_object list \<Rightarrow> addr \<Rightarrow>
   'a graph_store_scheme \<Rightarrow> bool" where
  "building ops K X L S g s \<longleftrightarrow> tables_fit (graphs s g) \<and> gf_destroy (graphs s g) = None \<and> live s = L \<and> sync s = S \<and>
     set (graph_component (graphs s g)) \<subseteq> added_components ops \<and>
     set (graph_connection (graphs s g)) \<subseteq> added_connections ops \<and>
     holds_refs K X (graph_component (graphs s g)) (graph_connection (graphs s g)) s"

lemma holds_refs_upd_graph [simp]: "holds_refs K X cs xs (upd_graph g f s) = holds_refs K X cs xs s"
  by (simp add: holds_refs_def)

lemma acquire_other [simp]:
  "graphs (mmal_component_acquire c s) = graphs s" "live (mmal_component_acquire c s) = live s"
  "sync (mmal_component_acquire c s) = sync s"
  "graphs (mmal_connection_acquire x s) = graphs s" "live (mmal_connection_acquire x s) = live s"
  "sync (mmal_connection_acquire x s) = sync s"
  by (simp_all add: mmal_component_acquire_def mmal_connection_acquire_def upd_comp_def upd_conn_def)

lemma build_step_building:
  assumes "building ops K X L S g s" "held_elsewhere ops K X" "op \<in> set ops"
  shows "building ops K X L S g (snd (build_step g op s))"
proof (cases op)
  case (Add_component c)
  then show ?thesis using assms acquire_holds [of K X "graph_component (graphs s g)" "graph_connection (graphs s g)" s]
    by (auto simp: building_def mmal_graph_add_component_def tables_fit_def GRAPH_CONNECTIONS_MAX_def held_elsewhere_def
        added_components_def split: option.split)
next
  case (Add_connection c)
  then show ?thesis using assms acquire_conn_holds [of K X "graph_component (graphs s g)" "graph_connection (graphs s g)" s]
    by (auto simp: building_def mmal_graph_add_connection_def tables_fit_def GRAPH_CONNECTIONS_MAX_def held_elsewhere_def
        added_connections_def split: option.split)
next
  case (Add_port p)
  then show ?thesis using assms
    by (auto simp: building_def mmal_graph_add_port_def tables_fit_def GRAPH_CONNECTIONS_MAX_def
        split: option.split mmal_port_type.split)
next
  case (Set_topology c t)
  then show ?thesis using assms
    by (auto simp: building_def mmal_graph_component_topology_def tables_fit_def split: option.split)
qed

lemma build_run_building:
  assumes "building ops K X L S g s" "held_elsewhere ops K X" "set ops' \<subseteq> set ops"
  shows "building ops K X L S g (build_run g ops' s)"
  using assms unfolding build_run_def
  by (induction ops' arbitrary: s) (simp_all add: build_step_building)

text \<open>As long as every count is above the entries of the table, releasing them all destroys nothing.\<close>

lemma release_components_all:
  assumes "components s = (\<lambda>c. more_refs (count_list cs c) (K c))" "\<forall>c\<in>set cs. 0 < comp_refcount (K c)"
  shows "release_components env cs s = Some (s\<lparr>components := K\<rparr>)"
  using assms
proof (induction cs arbitrary: s)
  case Nil
  then show ?case by simp
next
  case (Cons c cs)
  let ?s = "upd_comp c (\<lambda>k. k\<lparr>comp_refcount := comp_refcount k - 1\<rparr>) s"
  have "components ?s = (\<lambda>c. more_refs (count_list cs c) (K c))"
    using Cons.prems by (auto simp: fun_eq_iff more_refs_def)
  from Cons.IH [OF this] Cons.prems(2) have "release_components env cs ?s = Some (?s\<lparr>components := K\<rparr>)" by simp
  then show ?case using Cons.prems
    by (simp add: mmal_component_release_def mmal_component_release_internal_def Let_def) (simp add: upd_comp_def)
qed

lemma release_connections_all:
  assumes "connections s = (\<lambda>c. more_conn_refs (count_list xs c) (X c))" "\<forall>c\<in>set xs. 0 < conn_refcount (X c) \<and> conn_refcount (X c) + 16 \<le> INT32_MAX" "length xs \<le> 16"
  shows "release_connections env xs s = Some (s\<lparr>connections := X\<rparr>)"
  using assms
proof (induction xs arbitrary: s)
  case Nil
  then show ?case by simp
next
  case (Cons x xs)
  let ?s = "upd_conn x (\<lambda>k. k\<lparr>conn_refcount := s32 (conn_refcount k - 1)\<rparr>) s"
  have x: "0 < conn_refcount (X x)" "conn_refcount (X x) + 16 \<le> INT32_MAX" using Cons.prems(2) by auto
  have n: "count_list xs x < 16" using count_le_length [of xs x] Cons.prems(3) by simp
  have w: "s32 (conn_refcount (X x) + int (count_list xs x)) = conn_refcount (X x) + int (count_list xs x)"
    using x n by (intro s32_id) (auto simp: is_s32_def)
  have "connections ?s = (\<lambda>c. more_conn_refs (count_list xs c) (X c))"
    using Cons.prems w by (auto simp: fun_eq_iff more_conn_refs_def)
  from Cons.IH [OF this] Cons.prems(2,3) have "release_connections env xs ?s = Some (?s\<lparr>connections := X\<rparr>)" by simp
  then show ?case using Cons.prems w x
    by (simp add: mmal_connection_release_def drop_connection_def Let_def) (simp add: upd_conn_def)
qed

lemma vcos_malloc_graph:
  "vcos_malloc n s = (r, s') \<Longrightarrow> graphs s' = graphs s \<and> components s' = components s \<and> connections s' = connections s \<and>
     ports s' = ports s"
  by (auto simp: vcos_malloc_def split: list.splits option.splits)

lemma mmal_graph_create_building:
  assumes "mmal_graph_create True n s = (MMAL_SUCCESS, Some g, s1)"
  shows "building ops (components s) (connections s) ((g, sizeof_MMAL_GRAPH_PRIVATE_T + n) # live s)
    (graph_sema_object g # sync s) g s1"
  using assms
  by (auto simp: mmal_graph_create_def vcos_calloc_def Let_def building_def zero_graph_def tables_fit_def holds_refs_def
      vcos_malloc_def vcos_create_def split: prod.splits option.splits if_splits bool.splits list.splits)

lemma mmal_graph_create_fresh:
  assumes "mmal_graph_create True n s = (MMAL_SUCCESS, Some g, s1)" "fresh_allocs s"
  shows "g \<notin> fst ` set (live s)"
proof -
  obtain r t where m: "vcos_malloc (sizeof_MMAL_GRAPH_PRIVATE_T + n) s = (r, t)" by fastforce
  with assms(1) have "r = Some g"
    by (auto simp: mmal_graph_create_def vcos_calloc_def Let_def split: option.splits prod.splits bool.splits)
  with m vcos_malloc_Some(2) assms(2) show ?thesis by blast
qed

text \<open>A store for the examples: components and connections that somebody holds.\<close>

definition held_store :: graph_store where
  "held_store = mmal_store.extend
     (empty_mmal_store\<lparr>components := (\<lambda>_. zero_component\<lparr>comp_refcount := 1\<rparr>),
        connections := (\<lambda>c. (connections empty_mmal_store c)\<lparr>conn_refcount := 1\<rparr>)\<rparr>)
     (graph_store.fields (\<lambda>_. zero_graph))"

lemma held_store_sel [simp]:
  "mallocs held_store = []" "creates held_store = []" "live held_store = []" "sync held_store = []"
  "components held_store = (\<lambda>_. zero_component\<lparr>comp_refcount := 1\<rparr>)" "conn_refcount (connections held_store c) = 1"
  "graphs held_store = (\<lambda>_. zero_graph)" "ports held_store = (\<lambda>_. zero_port)" "formats held_store = (\<lambda>_. zero_format)"
  by (simp_all add: held_store_def mmal_store.defs graph_store.defs empty_mmal_store_def)

definition quiet_client :: "('a graph_store_scheme) graph_client" where
  "quiet_client = \<lparr>gc_destroy = (\<lambda>_ _ s. Some s), gc_port = (\<lambda>_ _ _ s. Some (MMAL_ENOSYS, s)),
     gc_buffer = (\<lambda>_ _ _ _ s. Some (MMAL_ENOSYS, s)), gc_parameter_set = (\<lambda>_ _ _ _ s. Some (MMAL_ENOSYS, s)),
     gc_parameter_get = (\<lambda>_ _ _ param s. Some (MMAL_ENOSYS, param, s)), gc_payload_alloc = (\<lambda>_ _ _ _ s. (MMAL_ENOSYS, None, s)),
     gc_payload_free = (\<lambda>_ _ _ _ s. (MMAL_ENOSYS, s)), gc_graph_enable = (\<lambda>_ _ _ s. Some (MMAL_SUCCESS, s)),
     gc_event = (\<lambda>_ _ _ _ s. Some s)\<rparr>"

definition some_ops :: "build_op list" where
  "some_ops = Add_connection (Some 60) # Add_component None # Add_port (Some 70) # Set_topology (Some 50) MMAL_GRAPH_TOPOLOGY_STRAIGHT
     # replicate 20 (Add_component (Some 50))"

lemma some_ops_held: "held_elsewhere some_ops (components held_store) (connections held_store)"
  by (simp add: held_elsewhere_def)

lemma held_store_create:
  "\<exists>s1. mmal_graph_create True 0 (held_store\<lparr>mallocs := [Some 1000], creates := [True]\<rparr>) = (MMAL_SUCCESS, Some 1000, s1)"
  by (simp add: mmal_graph_create_def vcos_calloc_def vcos_malloc_def vcos_create_def upd_graph_def)



text \<open>
  C15: a new graph to which components, connections and ports that somebody else holds are added, in whatever order and refused
  or not, can be destroyed; that leaves every component and connection, the memory and the synchronisation objects exactly as
  they were before the graph was created.
\<close>

theorem mmal_graph_create_destroy_roundtrip:
  assumes create: "mmal_graph_create True n s = (MMAL_SUCCESS, Some g, s1)" and "fresh_allocs s"
    and held: "held_elsewhere ops (components s) (connections s)"
  shows "\<exists>s'. mmal_graph_destroy env gc (Some g) (build_run g ops s1) = Some (MMAL_SUCCESS, s') \<and>
    components s' = components s \<and> connections s' = connections s \<and> live s' = live s \<and> sync s' = sync s"
proof -
  let ?u = "build_run g ops s1"
  note b = build_run_building [OF mmal_graph_create_building [OF create] held subset_refl, unfolded building_def]
  have g: "g \<notin> fst ` set (live s)" using mmal_graph_create_fresh assms(1,2) .
  have "release_connections env (graph_connection (graphs ?u g)) ?u = Some (?u\<lparr>connections := connections s\<rparr>)"
    using b held by (intro release_connections_all)
      (auto simp: holds_refs_def held_elsewhere_def tables_fit_def GRAPH_CONNECTIONS_MAX_def)
  moreover have "release_components env (graph_component (graphs ?u g)) (?u\<lparr>connections := connections s\<rparr>) =
      Some (?u\<lparr>connections := connections s, components := components s\<rparr>)"
    using b held by (subst release_components_all [where K = "components s"]) (auto simp: holds_refs_def held_elsewhere_def)
  ultimately show ?thesis using b g
    by (simp add: mmal_graph_destroy_def call_graph_destroy_def vcos_delete_def vcos_free_def vcos_free_fresh)
qed

theorem mmal_graph_create_destroy_roundtrip_witness:
  "\<exists>s1 s'. mmal_graph_create True 0 (held_store\<lparr>mallocs := [Some 1000], creates := [True]\<rparr>) = (MMAL_SUCCESS, Some 1000, s1) \<and>
     mmal_graph_destroy quiet_env quiet_client (Some 1000) (build_run 1000 some_ops s1) = Some (MMAL_SUCCESS, s') \<and> live s' = []"
proof -
  let ?s = "held_store\<lparr>mallocs := [Some 1000], creates := [True]\<rparr>"
  have h: "held_elsewhere some_ops (components ?s) (connections ?s)" using some_ops_held by simp
  have f: "fresh_allocs ?s" by (simp add: fresh_allocs_def granted_def List.map_filter_simps)
  obtain s1 where "mmal_graph_create True 0 ?s = (MMAL_SUCCESS, Some 1000, s1)" using held_store_create by blast
  with mmal_graph_create_destroy_roundtrip [OF this f h, of quiet_env quiet_client] show ?thesis by auto
qed

section \<open>The ports of the component and the ports behind them\<close>

text \<open>The component \<open>k\<close> stands for the graph \<open>g\<close>: port by port on either side.\<close>

definition side_matches :: "mmal_port_type \<Rightarrow> addr list \<Rightarrow> addr list \<Rightarrow> 'a mmal_store_scheme \<Rightarrow> bool" where
  "side_matches t ps gps s \<longleftrightarrow> length gps = length ps \<and> length ps \<le> GRAPH_CONNECTIONS_MAX \<and> distinct ps \<and>
     (\<forall>i<length ps. port_type (ports s (ps ! i)) = t \<and> port_type (ports s (gps ! i)) = t \<and>
        port_index (ports s (gps ! i)) = word_of_nat i)"

definition stands_for :: "addr \<Rightarrow> addr \<Rightarrow> 'a graph_store_scheme \<Rightarrow> bool" where
  "stands_for k g s \<longleftrightarrow> graph_self (graphs s g) = Some k \<and>
     side_matches MMAL_PORT_TYPE_INPUT (graph_input (graphs s g)) (comp_input (components s k)) s \<and>
     side_matches MMAL_PORT_TYPE_OUTPUT (graph_output (graphs s g)) (comp_output (components s k)) s"

lemma find_index_nth: "distinct ps \<Longrightarrow> i < length ps \<Longrightarrow> find_index (ps ! i) ps = Some i"
proof (induction ps arbitrary: i)
  case (Cons p ps)
  then show ?case by (cases i) auto
qed simp

lemma find_index_Some: "find_index p ps = Some i \<Longrightarrow> i < length ps \<and> ps ! i = p"
  by (induction ps arbitrary: i) (auto split: if_splits)

lemma small_index: "i < length ps \<Longrightarrow> length ps \<le> GRAPH_CONNECTIONS_MAX \<Longrightarrow> unat (word_of_nat i :: u16) = i"
  by (simp add: GRAPH_CONNECTIONS_MAX_def unat_of_nat)

lemma side_entry:
  assumes "side_matches t ps gps s" "i < length ps"
  shows "table_entry ps (unat (port_index (ports s (gps ! i)))) = Some (Some (ps ! i))"
proof -
  have "port_index (ports s (gps ! i)) = word_of_nat i" using assms by (simp add: side_matches_def)
  moreover have "unat (word_of_nat i :: u16) = i" by (rule small_index [of i ps]) (use assms in \<open>simp_all add: side_matches_def\<close>)
  ultimately have "unat (port_index (ports s (gps ! i))) = i" by (simp only:)
  then show ?thesis using assms(2) by (simp only: table_entry_def) simp
qed

text \<open>
  The ports of a component made from a graph and the ports that were added to the graph correspond one to one: a port of the
  component leads to the port behind it, never outside the table, and that port leads back to it.
\<close>

theorem graph_ports_roundtrip:
  assumes "stands_for k g s" "gp \<in> set (comp_input (components s k)) \<union> set (comp_output (components s k))"
  shows "\<exists>p. find_port_from_graph g gp s = Some (Some p) \<and> find_port_to_graph g p s = Some (Some gp)"
proof -
  from assms(2) consider i where "i < length (comp_input (components s k))" "gp = comp_input (components s k) ! i"
    | i where "i < length (comp_output (components s k))" "gp = comp_output (components s k) ! i"
    by (auto simp: in_set_conv_nth)
  then show ?thesis
  proof cases
    case 1
    with assms(1) have i: "i < length (graph_input (graphs s g))" "side_matches MMAL_PORT_TYPE_INPUT (graph_input (graphs s g)) (comp_input (components s k)) s"
      by (simp_all add: stands_for_def side_matches_def)
    from side_entry [OF i(2,1)] i 1(2) have "find_port_from_graph g gp s = Some (Some (graph_input (graphs s g) ! i))"
      by (simp add: side_matches_def find_port_from_graph_def)
    moreover from 1 i assms(1) have "find_port_to_graph g (graph_input (graphs s g) ! i) s = Some (Some gp)"
      by (simp add: stands_for_def side_matches_def find_port_to_graph_def find_index_nth)
    ultimately show ?thesis by blast
  next
    case 2
    with assms(1) have i: "i < length (graph_output (graphs s g))" "side_matches MMAL_PORT_TYPE_OUTPUT (graph_output (graphs s g)) (comp_output (components s k)) s"
      by (simp_all add: stands_for_def side_matches_def)
    from side_entry [OF i(2,1)] i 2(2) have "find_port_from_graph g gp s = Some (Some (graph_output (graphs s g) ! i))"
      by (simp add: side_matches_def find_port_from_graph_def)
    moreover from 2 i assms(1) have "find_port_to_graph g (graph_output (graphs s g) ! i) s = Some (Some gp)"
      by (simp add: stands_for_def side_matches_def find_port_to_graph_def find_index_nth)
    ultimately show ?thesis by blast
  qed
qed

definition matched_store :: graph_store where
  "matched_store = held_store\<lparr>graphs := (\<lambda>_. zero_graph\<lparr>graph_input := [10], graph_self := Some 1\<rparr>),
     components := (\<lambda>_. zero_component\<lparr>comp_input := [20]\<rparr>), ports := (\<lambda>_. zero_port\<lparr>port_type := MMAL_PORT_TYPE_INPUT\<rparr>)\<rparr>"

theorem graph_ports_roundtrip_witness:
  "\<exists>p. find_port_from_graph 2 20 matched_store = Some (Some p) \<and> find_port_to_graph 2 p matched_store = Some (Some 20)"
proof -
  have "stands_for 1 2 matched_store" "20 \<in> set (comp_input (components matched_store 1)) \<union> set (comp_output (components matched_store 1))"
    by (simp_all add: matched_store_def stands_for_def side_matches_def zero_graph_def zero_component_def GRAPH_CONNECTIONS_MAX_def
        zero_port_def)
  from graph_ports_roundtrip [OF this] show ?thesis .
qed

section \<open>Making the ports\<close>

text \<open>Nothing but blocks that were not yet handed out changes among the ports.\<close>

definition only_new :: "'a graph_store_scheme \<Rightarrow> 'a graph_store_scheme \<Rightarrow> bool" where
  "only_new s s' \<longleftrightarrow> set (granted s') \<subseteq> set (granted s) \<and> (\<forall>q. q \<notin> set (granted s) \<longrightarrow> ports s' q = ports s q) \<and>
     graphs s' = graphs s \<and> components s' = components s"

lemma only_new_refl [simp]: "only_new s s"
  by (simp add: only_new_def)

lemma only_new_trans: "only_new s t \<Longrightarrow> only_new t u \<Longrightarrow> only_new s u"
  unfolding only_new_def by (metis subset_iff)

lemma only_new_upd_port: "only_new s t \<Longrightarrow> p \<in> set (granted s) \<Longrightarrow> only_new s (upd_port p f t)"
  by (auto simp: only_new_def granted_def upd_port_def)

lemma vcos_malloc_only_new:
  assumes "vcos_malloc n s = (r, s')"
  shows "only_new s s'" "r = Some p \<Longrightarrow> p \<in> set (granted s)"
  using assms by (auto simp: vcos_malloc_def only_new_def granted_def List.map_filter_simps split: list.splits option.splits)

lemma create_all_only_new: "create_all xs s = (oks, s') \<Longrightarrow> only_new s s'"
proof (induction xs arbitrary: s oks s')
  case (Cons x xs)
  obtain ok t where t: "vcos_create x s = (ok, t)" by fastforce
  have "only_new s t" using vcos_create_cases [OF t] by (auto simp: only_new_def granted_def)
  with Cons t show ?case by (auto simp: Let_def split: prod.splits intro: only_new_trans)
qed simp

lemma mmal_format_alloc_only_new: "mmal_format_alloc s = (r, s') \<Longrightarrow> only_new s s'"
  by (elim mmal_format_alloc_cases) (auto dest!: vcos_malloc_only_new(1) simp: only_new_def granted_def upd_fmt_def)

lemma mmal_port_alloc_only_new:
  assumes "mmal_port_alloc c t e s = (Some p, s')"
  shows "only_new s s'" "p \<in> set (granted s)"
proof -
  obtain r s1 where m: "vcos_malloc (port_alloc_size (comp_name (components s c)) e) s = (r, s1)" by fastforce
  from assms m have r: "r = Some p"
    by (auto simp: mmal_port_alloc_def vcos_calloc_def Let_def split: option.splits prod.splits if_splits)
  note m1 = vcos_malloc_only_new [OF m]
  show p: "p \<in> set (granted s)" using m1(2) r by blast
  let ?s = "upd_port p (\<lambda>_. zero_port\<lparr>port_type := t, port_component := c,
                    pf_connect := Some Mmal_port_connect_default, transit_sema := 1, queue_last := At_first\<rparr>) s1"
  have 1: "only_new s ?s" by (rule only_new_upd_port [OF m1(1) p])
  obtain oks s2 where c: "create_all (port_sync p) ?s = (oks, s2)" by fastforce
  obtain f s3 where f: "mmal_format_alloc s2 = (f, s3)" by fastforce
  have "only_new s s3"
    by (rule only_new_trans [OF 1 only_new_trans [OF create_all_only_new [OF c] mmal_format_alloc_only_new [OF f]]])
  then show "only_new s s'" using assms m r c f p
    by (auto simp: mmal_port_alloc_def vcos_calloc_def Let_def split: if_splits option.splits intro: only_new_upd_port)
qed

lemma alloc_ports_only_new:
  "alloc_ports c t e is ps s = (True, ps', s') \<Longrightarrow>
     only_new s s' \<and> set ps' \<subseteq> set ps \<union> set (granted s)"
proof (induction "is" arbitrary: ps s)
  case (Cons i "is")
  then obtain p s1 where s1: "mmal_port_alloc c t e s = (Some p, s1)" by (auto split: prod.splits option.splits)
  note n = mmal_port_alloc_only_new [OF s1]
  let ?t = "upd_port p (\<lambda>pt. pt\<lparr>port_index := word_of_nat i\<rparr>) s1"
  from Cons.prems s1 have "alloc_ports c t e is (ps @ [p]) ?t = (True, ps', s')" by simp
  from Cons.IH [OF this] have IH: "only_new ?t s'" "set ps' \<subseteq> insert p (set ps) \<union> set (granted ?t)" by auto
  have "only_new s ?t" by (rule only_new_upd_port [OF n])
  then show ?case using IH n(2) only_new_trans [of s ?t s'] by (auto simp: only_new_def)
qed simp

definition made_ports :: "addr \<Rightarrow> mmal_port_type \<Rightarrow> addr list \<Rightarrow> 'a mmal_store_scheme \<Rightarrow> bool" where
  "made_ports k t ps s \<longleftrightarrow> distinct ps \<and> set ps \<inter> set (granted s) = {} \<and>
     (\<forall>i<length ps. port_type (ports s (ps ! i)) = t \<and> port_index (ports s (ps ! i)) = word_of_nat i \<and>
        port_component (ports s (ps ! i)) = k)"

lemma made_ports_mmal_ports_alloc:
  assumes "mmal_ports_alloc k n t 0 s = (Some (array, ps), s')" "fresh_allocs s"
  shows "length ps = unat n" "made_ports k t ps s'" "fresh_allocs s'" "only_new s s'" "set ps \<subseteq> set (granted s)"
proof -
  obtain s1 where m: "vcos_malloc (sizeof_ptr * n) s = (Some array, s1)"
    and al: "alloc_ports k t 0 [0..<unat n] [] s1 = (True, ps, s')"
    using assms(1) by (auto simp: mmal_ports_alloc_def split: prod.splits option.splits if_splits)
  note m1 = vcos_malloc_Some [OF m assms(2)] and a1 = alloc_ports_only_new [OF al]
  have "made k t [] (live s1) (sync s1) s1" using m1(3) by (simp add: made_def)
  from alloc_ports_made [OF this _ al] have made: "length ps = unat n" "made k t ps (live s1) (sync s1) s'" by simp_all
  then show "length ps = unat n" "fresh_allocs s'" by (simp_all add: made_def)
  have "set ps \<subseteq> fst ` set (live s')" using made(2) by (simp add: made_def Let_def)
  then have "set ps \<inter> set (granted s') = {}" using made(2) by (auto simp: made_def fresh_allocs_def)
  then show "made_ports k t ps s'" using made(2) by (auto simp: made_ports_def made_def new_port_def)
  show "only_new s s'" "set ps \<subseteq> set (granted s)"
    using a1 vcos_malloc_only_new(1) [OF m] only_new_trans [of s s1 s'] by (auto simp: only_new_def)
qed

lemma make_ports_effect:
  assumes "make_ports k t n s = (True, array, ps, s')" "fresh_allocs s" "n \<le> 16"
  shows "length ps = n" "made_ports k t ps s'" "fresh_allocs s'" "only_new s s'" "set ps \<subseteq> set (granted s)"
proof -
  have "unat (word_of_nat n :: u32) = n" using assms(3) by (simp add: unat_of_nat)
  then have "length ps = n \<and> made_ports k t ps s' \<and> fresh_allocs s' \<and> only_new s s' \<and> set ps \<subseteq> set (granted s)"
    using assms made_ports_mmal_ports_alloc [of k "word_of_nat n" t s]
    by (auto simp: make_ports_def made_ports_def split: if_splits prod.splits option.splits)
  then show "length ps = n" "made_ports k t ps s'" "fresh_allocs s'" "only_new s s'" "set ps \<subseteq> set (granted s)" by auto
qed

lemma fmt_other [simp]:
  "granted (upd_fmt f h s) = granted s" "graphs (upd_fmt f h s) = graphs s" "fresh_allocs (upd_fmt f h s) = fresh_allocs s"
  "granted (memcpy d a n s) = granted s" "graphs (memcpy d a n s) = graphs s" "fresh_allocs (memcpy d a n s) = fresh_allocs s"
  "ports (memcpy d a n s) = ports s" "components (memcpy d a n s) = components s"
  by (simp_all add: granted_def upd_fmt_def memcpy_def fresh_allocs_def)

lemma granted_upd [simp]:
  "granted (upd_port p f s) = granted s" "granted (upd_comp k h s) = granted s" "granted (upd_conn c x s) = granted s"
  by (simp_all add: granted_def)

lemma graphs_upd [simp]:
  "graphs (upd_port p f s) = graphs s" "graphs (upd_comp k h s) = graphs s" "graphs (upd_conn c x s) = graphs s"
  by (simp_all add: upd_port_def upd_comp_def upd_conn_def)

text \<open>Copying a format changes no port.\<close>

lemma full_copy_only_new:
  assumes "mmal_format_full_copy dst src s = Some (status, s')"
  shows "only_new s s'" "ports s' = ports s" "fresh_allocs s \<Longrightarrow> fresh_allocs s'"
proof -
  have ea: "only_new t t' \<and> ports t' = ports t \<and> (fresh_allocs t \<longrightarrow> fresh_allocs t')" if "mmal_format_extradata_alloc f n t = (st, t')" for f n st and t t' :: "'a graph_store_scheme"
  proof -
    let ?t = "vcos_free (priv_extradata (formats t f)) t"
    obtain r u where m: "vcos_malloc n ?t = (r, u)" by fastforce
    have "only_new t ?t" by (simp add: only_new_def granted_def vcos_free_def split: option.split)
    with vcos_malloc_only_new(1) [OF m] only_new_trans have "only_new t u" by blast
    moreover have "ports u = ports t" using vcos_malloc_mmal(1) [OF m] by simp
    moreover have "fresh_allocs t \<Longrightarrow> fresh_allocs u"
      by (rule vcos_malloc_fresh [OF m]) (auto simp: fresh_allocs_def granted_def vcos_free_def split: option.split)
    ultimately show ?thesis using that m
      by (auto simp: mmal_format_extradata_alloc_def Let_def only_new_def split: if_splits)
  qed
  show "only_new s s'" "ports s' = ports s" "fresh_allocs s \<Longrightarrow> fresh_allocs s'" using assms
    by (auto simp: mmal_format_full_copy_def Let_def mmal_format_copy_def only_new_def
        split: if_splits prod.splits option.splits dest!: ea)
qed

text \<open>A port of the component has what the port behind it has.\<close>

definition mirrors :: "mmal_port \<Rightarrow> mmal_port \<Rightarrow> bool" where
  "mirrors p gp \<longleftrightarrow> buffer_num_min gp = buffer_num_min p \<and> buffer_num_recommended gp = buffer_num_recommended p \<and>
     buffer_size_min gp = buffer_size_min p \<and> buffer_size_recommended gp = buffer_size_recommended p \<and>
     buffer_alignment_min gp = buffer_alignment_min p \<and> port_capabilities gp = port_capabilities p \<and>
     buffer_num gp = buffer_num p \<and> buffer_size gp = buffer_size p \<and>
     pf_send gp = Some GRAPH_FN \<and> pf_enable gp = Some (Module_fn GRAPH_FN)"

lemma set_up_port_effect:
  assumes "set_up_port g gp s = Some (MMAL_SUCCESS, s')" "find_port_from_graph g gp s = Some (Some p)" "p \<noteq> gp"
  shows "\<exists>pt. ports s' = (ports s)(gp := pt) \<and> mirrors (ports s p) pt \<and> port_type pt = port_type (ports s gp) \<and>
      port_index pt = port_index (ports s gp)"
    and "graphs s' = graphs s" "components s' = components s" "set (granted s') \<subseteq> set (granted s)" "fresh_allocs s \<Longrightarrow> fresh_allocs s'"
proof -
  let ?s = "upd_port gp graph_port_functions s"
  have "find_port_from_graph g gp ?s = Some (Some p)"
    using assms(2) by (simp add: find_port_from_graph_def graph_port_functions_def cong: mmal_port_type.case_cong)
  with assms(1,3) obtain u where
    u: "mmal_format_full_copy (port_format (ports s gp)) (port_format (ports s p)) ?s = Some (MMAL_SUCCESS, u)"
      "s' = upd_port gp (mirror_port True (ports u p)) u"
    by (auto simp: set_up_port_def graph_port_update_def graph_port_functions_def split: bind_splits if_splits)
  note c = full_copy_only_new [OF u(1)]
  have "granted ?s = granted s" "graphs ?s = graphs s" by (simp_all add: granted_def upd_port_def)
  then show "graphs s' = graphs s" "components s' = components s" "set (granted s') \<subseteq> set (granted s)"
    using c(1) u(2) by (simp_all add: only_new_def granted_def upd_port_def)
  show "fresh_allocs s \<Longrightarrow> fresh_allocs s'" using c(3) u(2) by simp
  show "\<exists>pt. ports s' = (ports s)(gp := pt) \<and> mirrors (ports s p) pt \<and> port_type pt = port_type (ports s gp) \<and>
      port_index pt = port_index (ports s gp)"
    using c(2) u(2) assms(3)
    by (intro exI [of _ "mirror_port True (ports s p) (graph_port_functions (ports s gp))"])
      (simp add: mirrors_def mirror_port_def mirror_requirements_def graph_port_functions_def Let_def)
qed

lemma while_success_last: "while_success f ps st s = Some (MMAL_SUCCESS, s') \<Longrightarrow> st = MMAL_SUCCESS"
  by (cases ps) (auto split: if_splits)

lemma find_port_cong:
  assumes "graphs s' = graphs s" "port_type (ports s' p) = port_type (ports s p)" "port_index (ports s' p) = port_index (ports s p)"
  shows "find_port_from_graph g p s' = find_port_from_graph g p s"
  using assms by (simp add: find_port_from_graph_def cong: mmal_port_type.case_cong)

lemma set_up_ports_effect:
  assumes "while_success (set_up_port g) gps MMAL_SUCCESS s = Some (MMAL_SUCCESS, s')" "distinct gps"
    and "\<forall>gp\<in>set gps. find_port_from_graph g gp s = Some (Some (behind gp)) \<and> behind gp \<notin> set gps"
  shows "(\<forall>gp\<in>set gps. mirrors (ports s (behind gp)) (ports s' gp) \<and> port_type (ports s' gp) = port_type (ports s gp) \<and>
       port_index (ports s' gp) = port_index (ports s gp)) \<and>
     (\<forall>q. q \<notin> set gps \<longrightarrow> ports s' q = ports s q) \<and> graphs s' = graphs s \<and> components s' = components s \<and>
     set (granted s') \<subseteq> set (granted s) \<and> (fresh_allocs s \<longrightarrow> fresh_allocs s')"
  using assms
proof (induction gps arbitrary: s)
  case (Cons gp gps)
  from Cons.prems(1) obtain st s1 where "set_up_port g gp s = Some (st, s1)"
    and rest: "while_success (set_up_port g) gps st s1 = Some (MMAL_SUCCESS, s')" by (auto split: bind_splits)
  with while_success_last [OF rest] have s1: "set_up_port g gp s = Some (MMAL_SUCCESS, s1)"
    "while_success (set_up_port g) gps MMAL_SUCCESS s1 = Some (MMAL_SUCCESS, s')" by simp_all
  have "find_port_from_graph g gp s = Some (Some (behind gp))" "behind gp \<noteq> gp" using Cons.prems(3) by auto
  note e = set_up_port_effect [OF s1(1) this]
  from e(1) obtain pt where pt: "ports s1 = (ports s)(gp := pt)" "mirrors (ports s (behind gp)) pt"
    "port_type pt = port_type (ports s gp)" "port_index pt = port_index (ports s gp)" by blast
  have "\<forall>q\<in>set gps. find_port_from_graph g q s1 = Some (Some (behind q)) \<and> behind q \<notin> set gps"
  proof
    fix q assume q: "q \<in> set gps"
    then have "q \<noteq> gp" using Cons.prems(2) by auto
    then have "find_port_from_graph g q s1 = find_port_from_graph g q s" using e(2) pt(1) by (intro find_port_cong) simp_all
    then show "find_port_from_graph g q s1 = Some (Some (behind q)) \<and> behind q \<notin> set gps" using q Cons.prems(3) by auto
  qed
  note IH = Cons.IH [OF s1(2) _ this]
  have "behind q \<noteq> gp" if "q \<in> set gps" for q using that Cons.prems(3) by auto
  then show ?case using IH e pt Cons.prems(2) by auto
qed simp

lemma made_ports_find:
  assumes "made_ports k t gps s" "length gps = length ps" "i < length ps" "length ps \<le> GRAPH_CONNECTIONS_MAX"
    and "t = MMAL_PORT_TYPE_INPUT \<and> ps = graph_input (graphs s g) \<or> t = MMAL_PORT_TYPE_OUTPUT \<and> ps = graph_output (graphs s g)"
  shows "find_port_from_graph g (gps ! i) s = Some (Some (ps ! i))"
proof -
  have "port_index (ports s (gps ! i)) = word_of_nat i" "port_type (ports s (gps ! i)) = t"
    using assms(1-3) by (simp_all add: made_ports_def)
  moreover have "unat (word_of_nat i :: u16) = i" by (rule small_index [OF assms(3,4)])
  ultimately have "port_type (ports s (gps ! i)) = t" "unat (port_index (ports s (gps ! i))) = i" by (simp_all only:)
  then show ?thesis using assms(3,5) by (auto simp only: find_port_from_graph_def table_entry_def) auto
qed

text \<open>One side of the component: the ports \<open>gps\<close> mirror the ports \<open>ps\<close>.\<close>

definition side_mirrors :: "mmal_port_type \<Rightarrow> addr list \<Rightarrow> addr list \<Rightarrow> (addr \<Rightarrow> mmal_port) \<Rightarrow> 'a mmal_store_scheme \<Rightarrow> bool" where
  "side_mirrors t ps gps P s \<longleftrightarrow> length gps = length ps \<and> distinct gps \<and>
     (\<forall>i<length ps. port_type (ports s (gps ! i)) = t \<and> port_index (ports s (gps ! i)) = word_of_nat i \<and>
        mirrors (P (ps ! i)) (ports s (gps ! i)) \<and> ports s (ps ! i) = P (ps ! i))"

lemma side_made:
  assumes "while_success (set_up_port g) gps MMAL_SUCCESS s = Some (MMAL_SUCCESS, s')" "made_ports k t gps s"
    and "length gps = length ps" "length ps \<le> GRAPH_CONNECTIONS_MAX" "set ps \<inter> set gps = {}"
    and "t = MMAL_PORT_TYPE_INPUT \<and> ps = graph_input (graphs s g) \<or> t = MMAL_PORT_TYPE_OUTPUT \<and> ps = graph_output (graphs s g)"
  shows "side_mirrors t ps gps (ports s) s' \<and> (\<forall>q. q \<notin> set gps \<longrightarrow> ports s' q = ports s q) \<and> graphs s' = graphs s \<and>
    components s' = components s \<and> set (granted s') \<subseteq> set (granted s) \<and> (fresh_allocs s \<longrightarrow> fresh_allocs s')"
proof -
  define behind where "behind gp = ps ! (THE i. i < length gps \<and> gps ! i = gp)" for gp
  have d: "distinct gps" using assms(2) by (simp add: made_ports_def)
  have the: "behind (gps ! i) = ps ! i" if "i < length gps" for i
  proof -
    have "(THE j. j < length gps \<and> gps ! j = gps ! i) = i"
      using that d by (intro the_equality) (auto simp: nth_eq_iff_index_eq)
    then show ?thesis by (simp add: behind_def)
  qed
  have "\<forall>gp\<in>set gps. find_port_from_graph g gp s = Some (Some (behind gp)) \<and> behind gp \<notin> set gps"
  proof
    fix gp assume "gp \<in> set gps"
    then obtain i where i: "i < length gps" "gp = gps ! i" by (auto simp: in_set_conv_nth)
    then show "find_port_from_graph g gp s = Some (Some (behind gp)) \<and> behind gp \<notin> set gps"
      using made_ports_find [OF assms(2,3) _ assms(4,6), of i] the [of i] assms(3,5) nth_mem [of i ps]
      by (simp add: disjoint_iff)
  qed
  note e = set_up_ports_effect [OF assms(1) d this]
  have "ports s' (ps ! i) = ports s (ps ! i)" if "i < length ps" for i
    using e that assms(5) nth_mem [of i ps] by blast
  moreover have "mirrors (ports s (ps ! i)) (ports s' (gps ! i))" "port_type (ports s' (gps ! i)) = t"
    "port_index (ports s' (gps ! i)) = word_of_nat i" if "i < length ps" for i
  proof -
    have "gps ! i \<in> set gps" using that assms(3) by simp
    then have "mirrors (ports s (behind (gps ! i))) (ports s' (gps ! i))" "port_type (ports s' (gps ! i)) = port_type (ports s (gps ! i))"
      "port_index (ports s' (gps ! i)) = port_index (ports s (gps ! i))" using e by blast+
    then show "mirrors (ports s (ps ! i)) (ports s' (gps ! i))" "port_type (ports s' (gps ! i)) = t"
      "port_index (ports s' (gps ! i)) = word_of_nat i"
      using that the [of i] assms(2,3) by (simp_all add: made_ports_def)
  qed
  ultimately show ?thesis using e d assms(3) by (simp add: side_mirrors_def)
qed

lemma made_ports_keep:
  assumes "made_ports k t gps s" "\<forall>q\<in>set gps. ports s' q = ports s q" "set (granted s') \<subseteq> set (granted s)"
  shows "made_ports k t gps s'"
  using assms by (auto simp: made_ports_def)

lemma side_mirrors_keep:
  assumes "side_mirrors t ps gps P s" "\<forall>q\<in>set ps \<union> set gps. ports s' q = ports s q"
  shows "side_mirrors t ps gps P s'"
  using assms by (simp add: side_mirrors_def)

text \<open>One side: making the ports and setting them up; in between only the component changes.\<close>

lemma make_side:
  fixes s :: "'a graph_store_scheme"
  assumes m: "make_ports k t (length ps) s = (True, a, gps, s1)" and fresh: "fresh_allocs s"
    and w: "while_success (set_up_port g) gps MMAL_SUCCESS (upd_comp k f s1) = Some (MMAL_SUCCESS, s')"
    and len: "length ps \<le> 16" and old: "set ps \<inter> set (granted s) = {}"
    and side: "t = MMAL_PORT_TYPE_INPUT \<and> ps = graph_input (graphs s g) \<or> t = MMAL_PORT_TYPE_OUTPUT \<and> ps = graph_output (graphs s g)"
  shows "side_mirrors t ps gps (ports s) s'" "set gps \<subseteq> set (granted s)" "set gps \<inter> set (granted s') = {}"
    "set (granted s') \<subseteq> set (granted s)" "\<forall>q. q \<notin> set (granted s) \<longrightarrow> ports s' q = ports s q"
    "graphs s' = graphs s" "components s' = (components s)(k := f (components s k))" "fresh_allocs s'"
proof -
  let ?s1 = "upd_comp k f s1"
  note e = make_ports_effect [OF m fresh len]
  have g: "graphs ?s1 = graphs s" "set (granted ?s1) \<subseteq> set (granted s)" "fresh_allocs ?s1"
    "\<forall>q. q \<notin> set (granted s) \<longrightarrow> ports ?s1 q = ports s q" "components ?s1 = (components s)(k := f (components s k))"
    using e(3,4) by (simp_all add: only_new_def)
  have made: "made_ports k t gps ?s1" using made_ports_keep [OF e(2), of ?s1] by simp
  have disj: "set ps \<inter> set gps = {}" using e(5) old by blast
  have "length ps \<le> GRAPH_CONNECTIONS_MAX" using len by (simp add: GRAPH_CONNECTIONS_MAX_def)
  note f = side_made [OF w made e(1) this disj side [folded g(1)]]
  have gps: "set gps \<subseteq> set (granted s)" by (rule e(5))
  have "\<forall>i<length ps. ports ?s1 (ps ! i) = ports s (ps ! i)" using g(4) old nth_mem by blast
  moreover have "side_mirrors t ps gps (ports ?s1) s'" using f by (rule conjunct1)
  ultimately show "side_mirrors t ps gps (ports s) s'" by (simp add: side_mirrors_def)
  show "set gps \<subseteq> set (granted s)" by (rule gps)
  show "set gps \<inter> set (granted s') = {}" using made f unfolding made_ports_def by blast
  show "set (granted s') \<subseteq> set (granted s)" using f g(2) by blast
  show "\<forall>q. q \<notin> set (granted s) \<longrightarrow> ports s' q = ports s q" using f g(4) gps by (metis subsetD)
  show "graphs s' = graphs s" using f g(1) by simp
  show "components s' = (components s)(k := f (components s k))" using f g(5) by simp
  show "fresh_allocs s'" using f g(3) by blast
qed

text \<open>The steps of a successful creation.\<close>

lemma create_graph_ports_steps:
  assumes "create_graph_ports k g s = Some (True, status, s')"
  obtains a ps s1 s2 b qs s3 where
    "make_ports k MMAL_PORT_TYPE_INPUT (length (graph_input (graphs s g))) s = (True, a, ps, s1)"
    "while_success (set_up_port g) ps MMAL_SUCCESS (upd_comp k (\<lambda>d. d\<lparr>comp_input_array := a, comp_input := ps\<rparr>) s1) = Some (MMAL_SUCCESS, s2)"
    "make_ports k MMAL_PORT_TYPE_OUTPUT (length (graph_output (graphs s2 g))) s2 = (True, b, qs, s3)"
    "while_success (set_up_port g) qs MMAL_SUCCESS (upd_comp k (\<lambda>d. d\<lparr>comp_output_array := b, comp_output := qs\<rparr>) s3) = Some (MMAL_SUCCESS, s')"
    "status = MMAL_SUCCESS"
proof -
  obtain m a ps s1 where 1: "make_ports k MMAL_PORT_TYPE_INPUT (length (graph_input (graphs s g))) s = (m, a, ps, s1)" by (metis prod_cases4)
  note run = assms [unfolded create_graph_ports_def 1 Let_def prod.case]
  then have m: "m = True" by (simp split: if_splits)
  note run = run [unfolded m not_True_eq_False if_False]
  from run obtain st s2 where 2: "while_success (set_up_port g) ps MMAL_SUCCESS (upd_comp k (\<lambda>d. d\<lparr>comp_input_array := a, comp_input := ps\<rparr>) s1) = Some (st, s2)"
    by (cases "while_success (set_up_port g) ps MMAL_SUCCESS (upd_comp k (\<lambda>d. d\<lparr>comp_input_array := a, comp_input := ps\<rparr>) s1)") auto
  note run = run [unfolded 2 Option.bind.bind_lunit prod.case]
  then have st: "st = MMAL_SUCCESS" by (simp split: if_splits)
  obtain n b qs s3 where 3: "make_ports k MMAL_PORT_TYPE_OUTPUT (length (graph_output (graphs s2 g))) s2 = (n, b, qs, s3)" by (metis prod_cases4)
  note run = run [unfolded st 3 prod.case simp_thms if_False]
  then have n: "n = True" by (simp split: if_splits)
  note run = run [unfolded n not_True_eq_False if_False]
  let ?w = "while_success (set_up_port g) qs MMAL_SUCCESS (upd_comp k (\<lambda>d. d\<lparr>comp_output_array := b, comp_output := qs\<rparr>) s3)"
  from run have "?w = Some (MMAL_SUCCESS, s')" "status = MMAL_SUCCESS" by (cases ?w; auto)+
  with 1 2 3 st m n show thesis by (intro that) simp_all
qed

text \<open>
  When the ports of the component have been made, each side of it has as many ports as were added to the graph on that side,
  numbered in order, each with the buffer requirements, the buffer numbers and sizes and the capabilities of the port behind
  it; the ports of the graph are as they were.
\<close>

theorem create_graph_ports_mirrors:
  assumes run: "create_graph_ports k g s = Some (True, status, s')" and "fresh_allocs s" and fit: "tables_fit (graphs s g)"
    and old: "\<forall>p\<in>set (graph_input (graphs s g)) \<union> set (graph_output (graphs s g)). p \<notin> set (granted s)"
  shows "status = MMAL_SUCCESS \<and>
    side_mirrors MMAL_PORT_TYPE_INPUT (graph_input (graphs s g)) (comp_input (components s' k)) (ports s) s' \<and>
    side_mirrors MMAL_PORT_TYPE_OUTPUT (graph_output (graphs s g)) (comp_output (components s' k)) (ports s) s'"
proof -
  let ?in = "graph_input (graphs s g)" and ?out = "graph_output (graphs s g)"
  from run obtain a ps s1 s2 b qs s3 where
    steps: "make_ports k MMAL_PORT_TYPE_INPUT (length ?in) s = (True, a, ps, s1)"
    "while_success (set_up_port g) ps MMAL_SUCCESS (upd_comp k (\<lambda>d. d\<lparr>comp_input_array := a, comp_input := ps\<rparr>) s1) = Some (MMAL_SUCCESS, s2)"
    "make_ports k MMAL_PORT_TYPE_OUTPUT (length (graph_output (graphs s2 g))) s2 = (True, b, qs, s3)"
    "while_success (set_up_port g) qs MMAL_SUCCESS (upd_comp k (\<lambda>d. d\<lparr>comp_output_array := b, comp_output := qs\<rparr>) s3) = Some (MMAL_SUCCESS, s')"
    and st: "status = MMAL_SUCCESS" by (rule create_graph_ports_steps)
  have len: "length ?in \<le> 16" "length ?out \<le> 16" using fit by (simp_all add: tables_fit_def GRAPH_CONNECTIONS_MAX_def)
  have new: "set ?in \<inter> set (granted s) = {}" "set ?out \<inter> set (granted s) = {}" using old by auto
  note i = make_side [OF steps(1) assms(2) steps(2) len(1) new(1) disjI1, simplified]
  have out: "graph_output (graphs s2 g) = ?out" using i(6) by simp
  have "set ?out \<inter> set (granted s2) = {}" using new(2) i(4) by blast
  note o = make_side [OF steps(3) [unfolded out] i(8) steps(4) len(2) this disjI2, unfolded i(6), simplified]
  have "\<forall>q\<in>set ?in \<union> set ps. q \<notin> set (granted s2)" using new(1) i(3,4) by blast
  then have keep: "\<forall>q\<in>set ?in \<union> set ps. ports s' q = ports s2 q" using o(5) by blast
  have "\<forall>p\<in>set ?out. ports s2 p = ports s p" using i(5) new(2) by blast
  then have "side_mirrors MMAL_PORT_TYPE_OUTPUT ?out qs (ports s) s'" using o(1) by (auto simp: side_mirrors_def)
  then show ?thesis using st side_mirrors_keep [OF i(1) keep] i(7) o(7) by simp
qed

text \<open>A graph at 2 with an input port at 10 and an output port at 11, to become the component at 1 with the control port at 5.\<close>

definition two_port_store :: "addr option list \<Rightarrow> graph_store" where
  "two_port_store ms = held_store\<lparr>mallocs := ms, creates := [True, True, True, True, True, True, True, True, True, True, True, True],
     graphs := (\<lambda>_. zero_graph\<lparr>graph_input := [10], graph_output := [11]\<rparr>),
     components := (\<lambda>_. zero_component\<lparr>comp_module := Some 2, comp_control := Some 5\<rparr>),
     ports := (\<lambda>p. zero_port\<lparr>port_type := if p = 10 then MMAL_PORT_TYPE_INPUT else MMAL_PORT_TYPE_OUTPUT, buffer_num_min := 3\<rparr>)\<rparr>"

lemma two_port_store_sel [simp]:
  "mallocs (two_port_store ms) = ms" "creates (two_port_store ms) = [True, True, True, True, True, True, True, True, True, True, True, True]" "live (two_port_store ms) = []"
  "graphs (two_port_store ms) = (\<lambda>_. zero_graph\<lparr>graph_input := [10], graph_output := [11]\<rparr>)"
  "components (two_port_store ms) = (\<lambda>_. zero_component\<lparr>comp_module := Some 2, comp_control := Some 5\<rparr>)"
  "ports (two_port_store ms) = (\<lambda>p. zero_port\<lparr>port_type := if p = 10 then MMAL_PORT_TYPE_INPUT else MMAL_PORT_TYPE_OUTPUT, buffer_num_min := 3\<rparr>)"
  "formats (two_port_store ms) = (\<lambda>_. zero_format)" "sync (two_port_store ms) = []"
  by (simp_all add: two_port_store_def)

lemma two_port_run:
  "\<exists>s'. create_graph_ports 1 2 (two_port_store (map Some [1000, 2000, 3000, 4000, 5000, 6000])) = Some (True, MMAL_SUCCESS, s')"
  by (simp add: create_graph_ports_def Let_def zero_graph_def make_ports_def mmal_ports_alloc_def mmal_port_alloc_def
      vcos_calloc_def vcos_malloc_def vcos_create_def port_sync_def mmal_format_alloc_def
      set_up_port_def graph_port_update_def find_port_from_graph_def table_entry_def graph_port_functions_def
      zero_port_def mmal_format_full_copy_def mmal_format_copy_def zero_format_def)

theorem create_graph_ports_mirrors_witness:
  "\<exists>s'. create_graph_ports 1 2 (two_port_store (map Some [1000, 2000, 3000, 4000, 5000, 6000])) = Some (True, MMAL_SUCCESS, s') \<and>
     side_mirrors MMAL_PORT_TYPE_INPUT [10] (comp_input (components s' 1)) (ports (two_port_store [])) s'"
proof -
  let ?s = "two_port_store (map Some [1000, 2000, 3000, 4000, 5000, 6000])"
  obtain s' where run: "create_graph_ports 1 2 ?s = Some (True, MMAL_SUCCESS, s')" using two_port_run by blast
  have "fresh_allocs ?s" by (simp add: fresh_allocs_def granted_def List.map_filter_simps)
  moreover have "tables_fit (graphs ?s 2)" by (simp add: tables_fit_def zero_graph_def GRAPH_CONNECTIONS_MAX_def)
  moreover have "\<forall>p\<in>set (graph_input (graphs ?s 2)) \<union> set (graph_output (graphs ?s 2)). p \<notin> set (granted ?s)"
    by (simp add: zero_graph_def granted_def List.map_filter_simps)
  ultimately show ?thesis using create_graph_ports_mirrors [OF run] run by (simp add: zero_graph_def)
qed

section \<open>A failure that is reported as success\<close>

definition control_functions :: "mmal_port \<Rightarrow> mmal_port" where
  "control_functions pt = pt\<lparr>pf_parameter_get := Some (Module_fn GRAPH_CONTROL_FN), pf_parameter_set := Some (Module_fn GRAPH_CONTROL_FN)\<rparr>"

lemma mmal_graph_destroy_frees:
  "mmal_graph_destroy env gc (Some g) s = Some (st, s') \<Longrightarrow> g \<notin> fst ` set (live s')"
  by (auto simp: mmal_graph_destroy_def vcos_free_def split: bind_splits)

lemma graph_component_destroy_frees:
  assumes "graph_component_destroy env gc k s = Some (st, s')" "comp_module (components s k) = Some g"
  shows "g \<notin> fst ` set (live s')"
  using assms by (auto simp: graph_component_destroy_def Let_def split: bind_splits dest: mmal_graph_destroy_frees)

text \<open>
  C17: when the input ports of the component have been made and the array of the output ports is refused, creation takes the
  component and the graph apart again, and still returns \<open>MMAL_SUCCESS\<close>: the status is that of the last input port.
\<close>

theorem create_from_graph_false_success:
  assumes "comp_module (components s k) = Some g" "comp_control (components s k) = Some c" "graph_input (graphs s g) \<noteq> []"
    and ins: "make_ports k MMAL_PORT_TYPE_INPUT (length (graph_input (graphs s g))) (upd_port c control_functions s) = (True, a, p # ps, s1)"
    and set_up: "while_success (set_up_port g) (p # ps) MMAL_SUCCESS
      (upd_comp k (\<lambda>d. d\<lparr>comp_input_array := a, comp_input := p # ps\<rparr>) s1) = Some (MMAL_SUCCESS, s2)"
    and outs: "make_ports k MMAL_PORT_TYPE_OUTPUT (length (graph_output (graphs s2 g))) s2 = (False, b, qs, s3)"
    and apart: "graph_component_destroy env gc k (upd_comp k (\<lambda>d. d\<lparr>comp_output_array := b, comp_output := qs\<rparr>) s3) = Some (st, s')"
    and "comp_module (components s3 k) = Some g"
  shows "mmal_component_create_from_graph env gc k s = Some (MMAL_SUCCESS, s') \<and> g \<notin> fst ` set (live s')"
proof
  have "create_graph_ports k g (upd_port c control_functions s) =
      Some (False, MMAL_SUCCESS, upd_comp k (\<lambda>d. d\<lparr>comp_output_array := b, comp_output := qs\<rparr>) s3)"
    using ins set_up outs by (simp add: create_graph_ports_def del: while_success.simps)
  with apart show "mmal_component_create_from_graph env gc k s = Some (MMAL_SUCCESS, s')"
    using assms(1,2) unfolding control_functions_def by (simp add: mmal_component_create_from_graph_def)
  show "g \<notin> fst ` set (live s')" by (rule graph_component_destroy_frees [OF apart]) (simp add: assms(8))
qed

lemmas port_making_defs =
  make_ports_def mmal_ports_alloc_def mmal_port_alloc_def vcos_calloc_def vcos_malloc_def vcos_create_def port_sync_def
  mmal_format_alloc_def set_up_port_def graph_port_update_def find_port_from_graph_def table_entry_def
  graph_port_functions_def zero_port_def mmal_format_full_copy_def mmal_format_copy_def zero_format_def

lemma os_other [simp]:
  "graphs (vcos_free a s) = graphs s" "graphs (vcos_delete x s) = graphs s" "components (vcos_delete x s) = components s"
  by (simp_all add: vcos_free_def vcos_delete_def split: option.split)

lemma fold_delete_other [simp]:
  "graphs (fold vcos_delete xs s) = graphs s" "components (fold vcos_delete xs s) = components s"
  by (induction xs arbitrary: s) simp_all

lemma mmal_ports_free_other [simp]:
  "graphs (mmal_ports_free a ps s) = graphs s" "components (mmal_ports_free a ps s) = components s"
proof -
  have "graphs (mmal_port_free (Some p) t) = graphs t \<and> components (mmal_port_free (Some p) t) = components t"
    for p and t :: "'a graph_store_scheme"
    by (simp add: mmal_port_free_def mmal_format_free_def Let_def)
  then have "graphs (free_ports ps t) = graphs t \<and> components (free_ports ps t) = components t" for t :: "'a graph_store_scheme"
    unfolding free_ports_def by (induction ps arbitrary: t) simp_all
  then show "graphs (mmal_ports_free a ps s) = graphs s" "components (mmal_ports_free a ps s) = components s"
    by (simp_all add: mmal_ports_free_def)
qed

lemma refused_run:
  "\<exists>a p ps s1 s2 b qs s3 st s'.
     make_ports 1 MMAL_PORT_TYPE_INPUT 1 (upd_port 5 control_functions (two_port_store [Some 1000, Some 2000, Some 3000])) = (True, a, p # ps, s1) \<and>
     while_success (set_up_port 2) (p # ps) MMAL_SUCCESS
       (upd_comp 1 (\<lambda>d. d\<lparr>comp_input_array := a, comp_input := p # ps\<rparr>) s1) = Some (MMAL_SUCCESS, s2) \<and>
     make_ports 1 MMAL_PORT_TYPE_OUTPUT (length (graph_output (graphs s2 2))) s2 = (False, b, qs, s3) \<and>
     graph_component_destroy quiet_env quiet_client 1 (upd_comp 1 (\<lambda>d. d\<lparr>comp_output_array := b, comp_output := qs\<rparr>) s3) = Some (st, s') \<and>
     comp_module (components s3 1) = Some 2"
  by (simp add: port_making_defs Let_def zero_graph_def control_functions_def graph_component_destroy_def call_graph_destroy_def
      mmal_graph_destroy_def free_component_ports_def zero_component_def)

theorem create_from_graph_false_success_witness:
  "\<exists>s'. mmal_component_create_from_graph quiet_env quiet_client 1 (two_port_store [Some 1000, Some 2000, Some 3000]) =
     Some (MMAL_SUCCESS, s') \<and> 2 \<notin> fst ` set (live s')"
proof -
  let ?s = "two_port_store [Some 1000, Some 2000, Some 3000]"
  obtain a p ps s1 s2 b qs s3 st s' where
    r: "make_ports 1 MMAL_PORT_TYPE_INPUT 1 (upd_port 5 control_functions ?s) = (True, a, p # ps, s1)"
     "while_success (set_up_port 2) (p # ps) MMAL_SUCCESS
       (upd_comp 1 (\<lambda>d. d\<lparr>comp_input_array := a, comp_input := p # ps\<rparr>) s1) = Some (MMAL_SUCCESS, s2)"
     "make_ports 1 MMAL_PORT_TYPE_OUTPUT (length (graph_output (graphs s2 2))) s2 = (False, b, qs, s3)"
     "graph_component_destroy quiet_env quiet_client 1 (upd_comp 1 (\<lambda>d. d\<lparr>comp_output_array := b, comp_output := qs\<rparr>) s3) = Some (st, s')"
     "comp_module (components s3 1) = Some 2" using refused_run by blast
  have "graph_input (graphs ?s 2) \<noteq> []" "length (graph_input (graphs ?s 2)) = 1" by (simp_all add: zero_graph_def)
  with create_from_graph_false_success [of ?s 1 2 5 a p ps s1 s2 b qs s3 quiet_env quiet_client st s'] r
  show ?thesis by (auto simp del: while_success.simps)
qed

end
