(* ===== verification/CoreFrame.thy ===== *)
theory CoreFrame
  imports Connection
begin

text \<open>
  What the core leaves alone: a layer built on top of it (graphs, for one) keeps its own state behind that of the core, in the
  rest of the store.  The locale below says that the modules and clients keep a property of that rest, and shows that then
  every operation on pools, ports and connections keeps it.
\<close>

section \<open>Calls that may come back\<close>

definition returns :: "('x \<Rightarrow> bool) \<Rightarrow> 'x option \<Rightarrow> bool" where
  "returns Q m \<longleftrightarrow> (\<forall>x. m = Some x \<longrightarrow> Q x)"

lemma returns_simps [simp]:
  "returns Q None" "returns Q (Some x) \<longleftrightarrow> Q x"
  "returns Q (Option.bind m f) \<longleftrightarrow> returns (\<lambda>x. returns Q (f x)) m"
  "returns Q (map_option g m) \<longleftrightarrow> returns (\<lambda>x. Q (g x)) m"
  by (auto simp: returns_def bind_eq_Some_conv)

lemma returnsD: "returns Q m \<Longrightarrow> m = Some x \<Longrightarrow> Q x"
  by (simp add: returns_def)

lemma returns_mono: "returns R m \<Longrightarrow> (\<And>x. R x \<Longrightarrow> Q x) \<Longrightarrow> returns Q m"
  by (simp add: returns_def)

lemma returns_any: "(\<And>x. Q x) \<Longrightarrow> returns Q m"
  by (simp add: returns_def)

text \<open>Pointers that are read from a struct.\<close>

lemmas field_steps =
  returns_any [where m = "pf_release b" for b] returns_any [where m = "port_payload_free pt" for pt]
  returns_any [where m = "pf_enable pt" for pt] returns_any [where m = "pf_disable pt" for pt]
  returns_any [where m = "pf_connect pt" for pt] returns_any [where m = "pf_send pt" for pt]
  returns_any [where m = "port_userdata pt" for pt] returns_any [where m = "buffer_header_callback pt" for pt]
  returns_any [where m = "comp_event_pool k" for k] returns_any [where m = "comp_control k" for k]
  returns_any [where m = "bh_data b" for b] returns_any [where m = "ev_format e" for e]
  returns_any [where m = "conn_pool c" for c] returns_any [where m = "connection_pool p q s" for p q s]

section \<open>Operations that touch no client\<close>

named_theorems rest_simps "operations that leave the rest of the store alone"

abbreviation rest :: "'a mmal_store_scheme \<Rightarrow> 'a" where
  "rest \<equiv> mmal_store.more"

lemma rest_updates [rest_simps]:
  fixes s :: "'a mmal_store_scheme"
  shows "rest (upd_buf b f s) = rest s" "rest (upd_queue q f1 s) = rest s" "rest (upd_pool p f2 s) = rest s"
    "rest (upd_port p f3 s) = rest s" "rest (upd_comp p f4 s) = rest s" "rest (upd_conn p f5 s) = rest s"
    "rest (upd_fmt p f6 s) = rest s" "rest (set_next p n s) = rest s" "rest (set_event p e s) = rest s"
    "rest (memcpy p q i s) = rest s"
  by (simp_all add: upd_buf_def upd_queue_def upd_pool_def upd_port_def upd_comp_def upd_conn_def upd_fmt_def set_next_def
      set_event_def memcpy_def)

lemma rest_os [rest_simps]:
  fixes s :: "'a mmal_store_scheme"
  shows "rest (snd (vcos_malloc n s)) = rest s" "rest (snd (vcos_calloc m n s)) = rest s" "rest (vcos_free p s) = rest s"
    "rest (snd (vcos_create x s)) = rest s" "rest (vcos_delete x s) = rest s" "rest (snd (vcos_getmicrosecs s)) = rest s"
  by (auto simp: vcos_calloc_def vcos_malloc_def vcos_free_def vcos_create_def vcos_delete_def vcos_getmicrosecs_eq
      split: list.split option.split bool.split)

lemma rest_queue [rest_simps]:
  fixes s :: "'a mmal_store_scheme"
  shows "rest (mmal_queue_put queue b s) = rest s" "rest (mmal_queue_put_back queue b s) = rest s"
    "rest (mmal_queue_destroy queue s) = rest s" "rest (snd (mmal_queue_create s)) = rest s"
  by (auto simp: mmal_queue_put_def mmal_queue_put_back_def mmal_queue_destroy_def mmal_queue_create_def store_last_def Let_def
      case_prod_beta rest_updates rest_os split: option.split last_link.split bool.split)

lemma rest_buffer [rest_simps]:
  fixes s :: "'a mmal_store_scheme"
  shows "rest (mmal_buffer_header_acquire b s) = rest s" "rest (mmal_buffer_header_reset b s) = rest s"
    "rest (snd (mmal_buffer_header_initialise b n s)) = rest s" "rest (mmal_pool_callback_set p cb u s) = rest s"
  by (auto simp: mmal_buffer_header_acquire_def mmal_buffer_header_reset_def mmal_buffer_header_initialise_def
      mmal_pool_callback_set_def rest_updates)

lemma rest_free_headers [rest_simps]:
  fixes s :: "'a mmal_store_scheme"
  shows "rest (queue_headers queue arr ns s) = rest s"
  by (induction ns arbitrary: s) (simp_all add: rest_queue)

lemma rest_fold_port [rest_simps]:
  fixes s :: "'a mmal_store_scheme"
  shows "rest (fold (\<lambda>q. upd_port q f) ps s) = rest s"
  by (induction ps arbitrary: s) (simp_all add: rest_updates)

lemma rest_fold_delete [rest_simps]:
  fixes s :: "'a mmal_store_scheme"
  shows "rest (fold vcos_delete xs s) = rest s"
  by (induction xs arbitrary: s) (simp_all add: rest_os)

lemma rest_component [rest_simps]:
  fixes s :: "'a mmal_store_scheme"
  shows "rest (snd (mmal_component_action_deregister c s)) = rest s" "rest (free_control_port c s) = rest s"
    "rest (free_port_array c s) = rest s" "rest (mmal_core_deinit s) = rest s" "rest (mmal_port_acquire p s) = rest s"
  by (simp_all add: mmal_component_action_deregister_def Let_def rest_updates rest_os rest_fold_delete vcos_event_delete_def
      free_control_port_def free_port_array_def mmal_port_free_def mmal_format_free_def mmal_core_deinit_def
      mmal_port_acquire_def split: option.split)

section \<open>Clients that keep a property of the rest\<close>

locale keeping_env =
  fixes env :: "('a mmal_store_scheme) port_env" and P :: "'a \<Rightarrow> bool"
  assumes keep_set_format: "P (rest s) \<Longrightarrow> returns (\<lambda>(_, s). P (rest s)) (on_set_format env n p s)"
    and keep_enable: "P (rest s) \<Longrightarrow> returns (\<lambda>(_, s). P (rest s)) (on_enable env n p cb s)"
    and keep_disable: "P (rest s) \<Longrightarrow> returns (\<lambda>(_, s). P (rest s)) (on_disable env n p s)"
    and keep_send: "P (rest s) \<Longrightarrow> returns (\<lambda>(_, s). P (rest s)) (on_send env n p b s)"
    and keep_flush: "P (rest s) \<Longrightarrow> returns (\<lambda>(_, s). P (rest s)) (on_flush env n p s)"
    and keep_parameter_set: "P (rest s) \<Longrightarrow> returns (\<lambda>(_, s). P (rest s)) (on_parameter_set env n p param s)"
    and keep_connect: "P (rest s) \<Longrightarrow> returns (\<lambda>(_, s). P (rest s)) (on_connect env n p other s)"
    and keep_payload_alloc: "P (rest s) \<Longrightarrow> P (rest (snd (on_payload_alloc env n p sz s)))"
    and keep_payload_free: "P (rest s) \<Longrightarrow> P (rest (on_payload_free env n p mem s))"
    and keep_component_destroy: "P (rest s) \<Longrightarrow> P (rest (snd (on_component_destroy env n c s)))"
    and keep_buffer: "P (rest s) \<Longrightarrow> returns (\<lambda>s. P (rest s)) (on_buffer env n p b s)"
    and keep_connection: "P (rest s) \<Longrightarrow> returns (\<lambda>s. P (rest s)) (on_connection env n c s)"
    and keep_alloc: "P (rest s) \<Longrightarrow> P (rest (snd (env_alloc (client_pool env) f u sz s)))"
    and keep_free: "P (rest s) \<Longrightarrow> P (rest (env_free (client_pool env) f u mem s))"
    and keep_cb: "P (rest s) \<Longrightarrow> returns (\<lambda>(_, s). P (rest s)) (env_cb (client_pool env) pcb p b u s)"
    and keep_pre_release: "P (rest s) \<Longrightarrow> returns (\<lambda>(_, s). P (rest s)) (env_pre_release (client_pool env) n b u s)"
    and keep_release: "P (rest s) \<Longrightarrow> returns (\<lambda>s. P (rest s)) (env_release (client_pool env) n b s)"
begin

text \<open>The laws in the form in which they follow a program step by step.\<close>

lemma step0: "returns (\<lambda>s. P (rest s)) m \<Longrightarrow> (\<And>s. P (rest s) \<Longrightarrow> Q s) \<Longrightarrow> returns Q m"
  by (rule returns_mono)

lemma step1: "returns (\<lambda>(_, s). P (rest s)) m \<Longrightarrow> (\<And>x s. P (rest s) \<Longrightarrow> Q (x, s)) \<Longrightarrow> returns Q m"
  by (erule returns_mono) auto

lemma step2: "returns (\<lambda>(_, _, s). P (rest s)) m \<Longrightarrow> (\<And>x y s. P (rest s) \<Longrightarrow> Q (x, y, s)) \<Longrightarrow> returns Q m"
  by (erule returns_mono) auto

lemmas client_steps =
  keep_set_format [THEN step1] keep_enable [THEN step1] keep_disable [THEN step1] keep_send [THEN step1] keep_flush [THEN step1]
  keep_parameter_set [THEN step1] keep_connect [THEN step1] keep_buffer [THEN step0] keep_connection [THEN step0]
  keep_cb [THEN step1] keep_pre_release [THEN step1] keep_release [THEN step0]

lemmas client_simps = keep_payload_alloc keep_payload_free keep_component_destroy keep_alloc keep_free

lemma queue_get_step: "P (rest s) \<Longrightarrow> (\<And>x s. P (rest s) \<Longrightarrow> Q (x, s)) \<Longrightarrow> returns Q (mmal_queue_get queue s)"
  by (simp add: mmal_queue_get_def returns_def vcos_semaphore_wait_def rest_simps split: option.split)

lemma full_copy_step: "P (rest s) \<Longrightarrow> (\<And>x s. P (rest s) \<Longrightarrow> Q (x, s)) \<Longrightarrow> returns Q (mmal_format_full_copy dst src s)"
  by (simp add: mmal_format_full_copy_def mmal_format_copy_def mmal_format_extradata_alloc_def Let_def case_prod_beta rest_simps
      split: option.split)

lemma transit_steps:
  "P (rest s) \<Longrightarrow> (\<And>s. P (rest s) \<Longrightarrow> Q s) \<Longrightarrow> returns Q (in_transit_increment p s)"
  "P (rest s) \<Longrightarrow> (\<And>s. P (rest s) \<Longrightarrow> Q s) \<Longrightarrow> returns Q (in_transit_wait p s)"
  by (simp_all add: in_transit_increment_def in_transit_wait_def Let_def returns_def vcos_semaphore_wait_def rest_simps)

lemma rest_port [simp]:
  "rest (in_transit_decrement p s) = rest s" "rest (enqueue_paused p b s) = rest s"
  "rest (mmal_port_update_port_stats p dir s) = rest s"
  by (simp_all add: in_transit_decrement_def enqueue_paused_def mmal_port_update_port_stats_def Let_def case_prod_beta rest_simps
      split: last_link.split)

lemma send_buffer_step:
  assumes "P (rest s)" "\<And>x s. P (rest s) \<Longrightarrow> Q (x, s)"
  shows "returns Q (mmal_port_send_buffer env port b s)"
  using assms(1) by (auto simp: mmal_port_send_buffer_def Let_def rest_simps split: option.split
      intro!: client_steps transit_steps assms(2))

subsection \<open>Releasing buffers\<close>

lemma keep_pool_free:
  assumes "\<And>f u mem t. P (rest t) \<Longrightarrow> P (rest (env_free pe f u mem t))" "P (rest s)"
  shows "P (rest (mmal_pool_destroy pe pool s))"
proof -
  have one: "P (rest t) \<Longrightarrow> P (rest (free_payload pe b t))" for b t
    by (auto simp: free_payload_def Let_def call_free_def mmal_pool_allocator_default_free_def rest_simps assms(1) split: option.split)
  have "P (rest t) \<Longrightarrow> P (rest (free_payloads pe arr ns t))" for arr ns t
    by (induction ns arbitrary: t) (auto simp: one split: option.split)
  with assms(2) show ?thesis by (simp add: mmal_pool_destroy_def Let_def rest_simps split: option.split)
qed

lemma keep_free_event_pool: "P (rest s) \<Longrightarrow> P (rest (free_event_pool env c s))"
  by (auto simp: free_event_pool_def keep_pool_free keep_free split: option.split)

lemma keep_destroy_internal: "P (rest s) \<Longrightarrow> P (rest (snd (mmal_component_destroy_internal env c s)))"
  by (auto simp: mmal_component_destroy_internal_def Let_def case_prod_beta rest_simps client_simps
      intro!: keep_free_event_pool split: option.split)

lemma keep_port_release: "P (rest s) \<Longrightarrow> P (rest (snd (mmal_port_release env p s)))"
  by (simp add: mmal_port_release_def Let_def rest_simps keep_destroy_internal)

lemma keep_port_payload:
  "P (rest s) \<Longrightarrow> P (rest (snd (mmal_port_payload_alloc env port sz s)))"
  "P (rest s) \<Longrightarrow> returns (\<lambda>s. P (rest s)) (mmal_port_payload_free env port mem s)"
  by (auto simp: mmal_port_payload_alloc_def mmal_port_payload_free_def Let_def case_prod_beta rest_simps client_simps
      intro!: keep_port_release field_steps split: option.split)

lemma notify_step:
  assumes "P (rest s)" "\<And>s. P (rest s) \<Longrightarrow> Q s"
  shows "returns Q (notify_connection env c s)"
  using assms(1) by (auto simp: notify_connection_def intro!: client_steps assms(2) split: option.split)

lemma connection_bh_release_step:
  assumes "P (rest s)" "\<And>x s. P (rest s) \<Longrightarrow> Q (x, s)"
  shows "returns Q (mmal_connection_bh_release_cb env pool b u s)"
  using assms(1) by (cases u) (auto simp: mmal_connection_bh_release_cb_def Let_def rest_simps intro!: notify_step assms(2))

lemma pool_env_alloc: "P (rest s) \<Longrightarrow> P (rest (snd (env_alloc (port_pool_env env) f u sz s)))"
  by (simp add: port_pool_env_def client_simps keep_port_payload(1))

lemma pool_env_free:
  assumes "P (rest s)"
  shows "P (rest (env_free (port_pool_env env) f u mem s))"
proof (cases "mmal_port_payload_free env u mem s")
  case None
  then show ?thesis using assms by (simp add: port_pool_env_def keep_free)
next
  case (Some t)
  then have "P (rest t)" using keep_port_payload(2) [OF assms] by (simp add: returns_def)
  then show ?thesis using assms Some by (simp add: port_pool_env_def keep_free)
qed

lemma pool_cb_step:
  assumes "P (rest s)" "\<And>x s. P (rest s) \<Longrightarrow> Q (x, s)"
  shows "returns Q (env_cb (port_pool_env env) pcb p b u s)"
proof (cases pcb)
  case Mmal_port_connected_pool_cb
  have "returns (\<lambda>x. Q (case x of (status, s) \<Rightarrow> (status \<noteq> MMAL_SUCCESS, s))) (mmal_port_send_buffer env u b s)"
    by (rule send_buffer_step) (simp_all add: assms)
  then show ?thesis
    by (simp add: port_pool_env_def mmal_port_connected_pool_cb_def Mmal_port_connected_pool_cb) (erule returns_mono; simp split: prod.splits)
next
  case Mmal_connection_bh_release_cb
  have "returns Q (mmal_connection_bh_release_cb env p b u s)"
    by (rule connection_bh_release_step) (simp_all add: assms)
  then show ?thesis by (simp add: port_pool_env_def Mmal_connection_bh_release_cb)
next
  case (Client_pool_cb n)
  have "returns Q (env_cb (client_pool env) pcb p b u s)" by (rule keep_cb [THEN step1]) (simp_all add: assms)
  then show ?thesis by (simp add: port_pool_env_def Client_pool_cb)
qed

lemma pool_header_release_step:
  assumes "P (rest s)" "\<And>s. P (rest s) \<Longrightarrow> Q s"
  shows "returns Q (mmal_pool_buffer_header_release (port_pool_env env) b s)"
  using assms(1) by (auto simp: mmal_pool_buffer_header_release_def Let_def rest_simps intro!: pool_cb_step assms(2) split: option.split)

lemma pre_release_step:
  assumes "P (rest s)" "\<And>x s. P (rest s) \<Longrightarrow> Q (x, s)"
  shows "returns Q (call_pre_release (pool_release_env (port_pool_env env)) n b u s)"
proof -
  have "returns Q (env_pre_release (client_pool env) n b u s)" by (rule keep_pre_release [THEN step1]) (simp_all add: assms)
  then show ?thesis by (simp add: pool_release_env_def port_pool_env_def)
qed

lemma call_release_step:
  assumes "P (rest s)" "\<And>s. P (rest s) \<Longrightarrow> Q s"
  shows "returns Q (call_release (pool_release_env (port_pool_env env)) f b s)"
proof (cases f)
  case Mmal_pool_buffer_header_release
  have "returns Q (mmal_pool_buffer_header_release (port_pool_env env) b s)"
    by (rule pool_header_release_step) (simp_all add: assms)
  then show ?thesis by (simp add: pool_release_env_def Mmal_pool_buffer_header_release)
next
  case (Client_release n)
  have "returns Q (env_release (client_pool env) n b s)" by (rule keep_release [THEN step0]) (simp_all add: assms)
  then show ?thesis by (simp add: pool_release_env_def port_pool_env_def Client_release)
qed

lemma header_release_keeps:
  assumes "mmal_buffer_header_release (pool_release_env (port_pool_env env)) b s = Some r" "P (rest s)"
  shows "P (rest r)"
proof -
  have "e = pool_release_env (port_pool_env env) \<longrightarrow> P (rest s) \<longrightarrow> P (rest r)"
    if "mmal_buffer_header_release e b s = Some r" for e
  proof (rule mmal_buffer_header_release.raw_induct
      [where P = "\<lambda>e b s r. e = pool_release_env (port_pool_env env) \<longrightarrow> P (rest s) \<longrightarrow> P (rest r)", OF _ that],
      intro impI)
    fix rel e b s r
    assume IH: "\<And>e b s r. rel e b s = Some r \<Longrightarrow> e = pool_release_env (port_pool_env env) \<longrightarrow> P (rest s) \<longrightarrow> P (rest r)"
      and run: "(let s = upd_buf b (\<lambda>b. b\<lparr>refcount := s32 (refcount b - 1)\<rparr>) s in
          if refcount (bufs s b) \<noteq> 0 then Some s
          else Option.bind (case pf_pre_release (bufs s b) of None \<Rightarrow> Some (False, s)
              | Some f \<Rightarrow> call_pre_release e f b (pre_release_userdata (bufs s b)) s)
            (\<lambda>(delay, s). if delay then Some s
               else let s = mmal_buffer_header_reset b s
                    in Option.bind (case reference (bufs s b) of None \<Rightarrow> Some s | Some x \<Rightarrow> rel e x s)
                        (\<lambda>s. let s = upd_buf b (\<lambda>b. b\<lparr>reference := None\<rparr>) s
                             in Option.bind (pf_release (bufs s b)) (\<lambda>f. call_release e f b s)))) = Some r"
      and e: "e = pool_release_env (port_pool_env env)" and s: "P (rest s)"
    have rel: "returns Q (rel e x t)" if "P (rest t)" "\<And>t. P (rest t) \<Longrightarrow> Q t" for Q x t
      using IH e that by (auto simp: returns_def)
    have "returns (\<lambda>r. P (rest r)) (Some r)" unfolding run [symmetric] using s
      by (auto simp: Let_def e rest_simps intro!: pre_release_step rel [unfolded e] field_steps call_release_step split: option.split)
    then show "P (rest r)" by simp
  qed
  with assms show ?thesis by blast
qed

lemma release_buffer_step:
  assumes "P (rest s)" "\<And>s. P (rest s) \<Longrightarrow> Q s"
  shows "returns Q (release_buffer env b s)"
  using assms header_release_keeps [of b s] by (auto simp: release_buffer_def returns_def)

subsection \<open>Pools\<close>

lemma initialise_headers_step:
  assumes "P (rest s)" "\<And>x s. P (rest s) \<Longrightarrow> Q (x, s)"
  shows "returns Q (initialise_headers (port_pool_env env) p re ns b mem s)"
  using assms(1)
proof (induction ns arbitrary: b mem s)
  case (Cons n ns)
  have "P (rest (snd (call_alloc (port_pool_env env) f u sz t)))" if "P (rest t)" for f u sz t
    using that by (simp add: call_alloc_def mmal_pool_allocator_default_alloc_def rest_simps pool_env_alloc)
  then have call: "P (rest t')" if "call_alloc (port_pool_env env) f u sz t = (r, t')" "P (rest t)" for f u sz t r t'
    using that by (metis snd_conv)
  have free: "P (rest (free_payload (port_pool_env env) h t))" if "P (rest t)" for h t
    using that by (auto simp: free_payload_def Let_def call_free_def mmal_pool_allocator_default_free_def rest_simps pool_env_free
        split: option.split)
  have init: "P (rest t')" if "mmal_buffer_header_initialise h sz t = (r, t')" "P (rest t)" for h sz t r t'
    using that rest_buffer(3) [of h sz t] by simp
  show ?case using Cons
    by (auto simp: Let_def rest_simps free split: option.split prod.split intro!: assms(2) dest: call init)
qed (simp add: assms(2))

lemma initialise_buffer_headers_step:
  assumes "P (rest s)" "\<And>x s. P (rest s) \<Longrightarrow> Q (x, s)"
  shows "returns Q (mmal_pool_initialise_buffer_headers (port_pool_env env) p n re s)"
  using assms(1) by (auto simp: mmal_pool_initialise_buffer_headers_def intro!: initialise_headers_step assms(2) split: option.split)

lemma pool_destroy_keeps: "P (rest s) \<Longrightarrow> P (rest (mmal_pool_destroy (port_pool_env env) pool s))"
  by (rule keep_pool_free) (simp_all add: pool_env_free)

lemma pool_create_step:
  assumes "P (rest s)" "\<And>x s. P (rest s) \<Longrightarrow> Q (x, s)"
  shows "returns Q (mmal_pool_create_with_allocator (port_pool_env env) n sz u al fr s)"
proof -
  have c: "P (rest t')" if "vcos_calloc m n t = (r, t')" "P (rest t)" for m n r and t t' :: "'a mmal_store_scheme"
    using that rest_os(2) [of m n t] by simp
  have q: "P (rest t')" if "mmal_queue_create t = (r, t')" "P (rest t)" for r and t t' :: "'a mmal_store_scheme"
    using that rest_queue(4) [of t] by simp
  show ?thesis using assms(1)
    by (auto simp: mmal_pool_create_with_allocator_def Let_def rest_simps split: option.split prod.split
        intro!: assms(2) initialise_buffer_headers_step pool_destroy_keeps dest!: c q)
qed

lemma drain_queue_step:
  assumes "P (rest s)" "\<And>s. P (rest s) \<Longrightarrow> Q s"
  shows "returns Q (drain_queue queue n s)"
  using assms(1) by (induction n arbitrary: s) (auto intro!: assms(2) queue_get_step)

lemma pool_resize_step:
  assumes "P (rest s)" "\<And>x s. P (rest s) \<Longrightarrow> Q (x, s)"
  shows "returns Q (mmal_pool_resize (port_pool_env env) pool n sz s)"
proof -
  have c: "P (rest t')" if "vcos_calloc m n t = (r, t')" "P (rest t)" for m n r and t t' :: "'a mmal_store_scheme"
    using that rest_os(2) [of m n t] by simp
  show ?thesis using assms(1)
    by (auto simp: mmal_pool_resize_def Let_def rest_simps split: option.split prod.split
        intro!: assms(2) drain_queue_step initialise_buffer_headers_step dest!: c)
qed

subsection \<open>Events and callbacks\<close>

lemma event_get_step:
  assumes "P (rest s)" "\<And>x y s. P (rest s) \<Longrightarrow> Q (x, y, s)"
  shows "returns Q (mmal_port_event_get env port event s)"
  using assms(1)
  by (auto simp: mmal_port_event_get_def Let_def rest_simps split: option.split
      intro!: assms(2) field_steps queue_get_step release_buffer_step)

lemma format_commit_step:
  assumes "P (rest s)" "\<And>x s. P (rest s) \<Longrightarrow> Q (x, s)"
  shows "returns Q (mmal_port_format_commit env port s)"
  using assms(1)
  by (auto simp: mmal_port_format_commit_def Let_def rest_simps split: option.split intro!: assms(2) client_steps)

lemma rest_format_event [simp]:
  fixes s :: "'a mmal_store_scheme"
  shows "rest (snd (mmal_event_format_changed_get buffer s)) = rest s"
  by (simp add: mmal_event_format_changed_get_def Let_def rest_simps split: option.split)

lemma callback_steps:
  assumes "P (rest s)" "\<And>s. P (rest s) \<Longrightarrow> Q s" "\<And>x s. P (rest s) \<Longrightarrow> R (x, s)"
  shows "returns Q (mmal_connection_bh_out_cb env p b s)" "returns Q (mmal_port_connected_input_cb env p b s)"
    "returns Q (forward_data env p b s)" "returns Q (fill_error b st s)" "returns R (apply_format_event env p b ev s)"
  using assms(1)
  by (auto simp: mmal_connection_bh_out_cb_def mmal_port_connected_input_cb_def forward_data_def fill_error_def
      apply_format_event_def Let_def rest_simps split: option.split
      intro!: assms(2,3) field_steps send_buffer_step release_buffer_step notify_step full_copy_step format_commit_step)

lemma bh_callback_keeps:
  assumes "call_bh_callback env cb p b s = Some r" "P (rest s)"
  shows "P (rest r)"
proof -
  have "e = env \<longrightarrow> P (rest s) \<longrightarrow> P (rest r)" if "call_bh_callback e cb p b s = Some r" for e
  proof (rule call_bh_callback.raw_induct
      [where P = "\<lambda>e cb p b s r. e = env \<longrightarrow> P (rest s) \<longrightarrow> P (rest r)", OF _ that], intro impI)
    fix f e cb p b and s r :: "'a mmal_store_scheme"
    assume IH: "\<And>e cb p b s r. f e cb p b s = Some r \<Longrightarrow> e = env \<longrightarrow> P (rest s) \<longrightarrow> P (rest r)"
      and run: "(case cb of
        Mmal_port_connected_input_cb \<Rightarrow> mmal_port_connected_input_cb e p b s
      | Mmal_port_connected_output_cb \<Rightarrow>
          if bh_cmd (bufs s b) = 0 then forward_data e p b s
          else (case mmal_event_format_changed_get (Some b) s of
            (None, s) \<Rightarrow> release_buffer e b s
          | (Some ev, s) \<Rightarrow>
              Option.bind (apply_format_event e p b ev s) (\<lambda>(status, s).
                if status = MMAL_SUCCESS then Some s
                else
                  Option.bind
                    (Option.bind (mmal_port_event_get e (comp_control (components s (port_component (ports s p))))
                        MMAL_EVENT_ERROR s) (\<lambda>(_, event, s).
                      case (event, comp_control (components s (port_component (ports s p)))) of
                        (Some x, Some control) \<Rightarrow>
                          Option.bind (fill_error x status s) (\<lambda>s.
                            case buffer_header_callback (ports s control) of
                              Some cb' \<Rightarrow> f e cb' control x s
                            | None \<Rightarrow> release_buffer e x s)
                      | _ \<Rightarrow> Some s))
                    (\<lambda>s. release_buffer e b s)))
      | Mmal_connection_bh_in_cb \<Rightarrow> release_buffer e b s
      | Mmal_connection_bh_out_cb \<Rightarrow> mmal_connection_bh_out_cb e p b s
      | Client_bh_cb n \<Rightarrow> on_buffer e n p b s) = Some r"
      and e: "e = env" and s: "P (rest s)"
    have rec: "returns Q (f e cb p b t)" if "P (rest t)" "\<And>t. P (rest t) \<Longrightarrow> Q t" for Q cb p b t
      using IH e that by (auto simp: returns_def)
    have ev: "P (rest t')" if "mmal_event_format_changed_get x t = (y, t')" "P (rest t)" for x y and t t' :: "'a mmal_store_scheme"
      using that rest_format_event [of x t] by simp
    have "returns (\<lambda>r. P (rest r)) (Some r)" unfolding run [symmetric] using s
      by (auto simp: e rest_simps split: bh_callback.split option.split prod.split dest!: ev
          intro!: callback_steps release_buffer_step event_get_step client_steps rec [unfolded e])
    then show "P (rest r)" by simp
  qed
  with assms show ?thesis by blast
qed

lemma bh_callback_step:
  assumes "P (rest s)" "\<And>s. P (rest s) \<Longrightarrow> Q s"
  shows "returns Q (call_bh_callback env cb p b s)"
  using assms bh_callback_keeps by (auto simp: returns_def)

lemma header_callback_step:
  assumes "P (rest s)" "\<And>s. P (rest s) \<Longrightarrow> Q s"
  shows "returns Q (mmal_port_buffer_header_callback env p b s)" "returns Q (mmal_port_event_send env p b s)"
  using assms(1) by (auto simp: mmal_port_buffer_header_callback_def mmal_port_event_send_def split: option.split
      intro!: assms(2) field_steps bh_callback_step release_buffer_step)

lemma return_buffers_keeps:
  assumes "return_buffers env p buffer s = Some r" "P (rest s)"
  shows "P (rest r)"
proof -
  have "e = env \<longrightarrow> P (rest s) \<longrightarrow> P (rest r)" if "return_buffers e p buffer s = Some r" for e
  proof (rule return_buffers.raw_induct
      [where P = "\<lambda>e p b s r. e = env \<longrightarrow> P (rest s) \<longrightarrow> P (rest r)", OF _ that], intro impI)
    fix f e p buffer and s r :: "'a mmal_store_scheme"
    assume IH: "\<And>e p b s r. f e p b s = Some r \<Longrightarrow> e = env \<longrightarrow> P (rest s) \<longrightarrow> P (rest r)"
      and run: "(case buffer of None \<Rightarrow> Some s
        | Some b \<Rightarrow> Option.bind (mmal_port_buffer_header_callback e p b s) (\<lambda>s'. f e p (bh_next (bufs s b)) s')) = Some r"
      and e: "e = env" and s: "P (rest s)"
    have rec: "returns Q (f e p b t)" if "P (rest t)" "\<And>t. P (rest t) \<Longrightarrow> Q t" for Q p b t
      using IH e that by (auto simp: returns_def)
    have "returns (\<lambda>r. P (rest r)) (Some r)" unfolding run [symmetric] using s
      by (auto simp: e split: option.split intro!: header_callback_step rec [unfolded e])
    then show "P (rest r)" by simp
  qed
  with assms show ?thesis by blast
qed

lemma return_buffers_step:
  assumes "P (rest s)" "\<And>s. P (rest s) \<Longrightarrow> Q s"
  shows "returns Q (return_buffers env p buffer s)"
  using assms return_buffers_keeps by (auto simp: returns_def)

subsection \<open>Ports\<close>

lemma enable_internal_step:
  assumes "P (rest s)" "\<And>x s. P (rest s) \<Longrightarrow> Q (x, s)"
  shows "returns Q (mmal_port_enable_internal env p cb s)"
  using assms(1)
  by (auto simp: mmal_port_enable_internal_def call_enable_def mmal_component_enable_control_port_def Let_def rest_simps
      split: module_fn.split intro!: assms(2) field_steps client_steps)

lemma disable_internal_step:
  assumes "P (rest s)" "\<And>x s. P (rest s) \<Longrightarrow> Q (x, s)"
  shows "returns Q (mmal_port_disable_internal env p s)"
  using assms(1)
  by (auto simp: mmal_port_disable_internal_def call_disable_def mmal_component_disable_control_port_def Let_def rest_simps
      split: module_fn.split option.split intro!: assms(2) field_steps client_steps return_buffers_step transit_steps)

lemma connection_disable_keeps: "P (rest s) \<Longrightarrow> P (rest (snd (mmal_port_connection_disable env p q s)))"
  by (simp add: mmal_port_connection_disable_def Let_def rest_simps pool_destroy_keeps)

lemma connection_enable_step:
  assumes "P (rest s)" "\<And>x s. P (rest s) \<Longrightarrow> Q (x, s)"
  shows "returns Q (mmal_port_connection_enable env p q s)"
  using assms(1)
  by (auto simp: mmal_port_connection_enable_def mmal_port_pool_create_def Let_def rest_simps split: option.split
      intro!: assms(2) pool_create_step)

lemma populate_clocks_keeps:
  assumes "populate_clock_ports env p q queue s = Some (st, r)" "P (rest s)"
  shows "P (rest r)"
proof -
  have "e = env \<longrightarrow> P (rest s) \<longrightarrow> P (rest (snd r))" if "populate_clock_ports e p q queue s = Some r" for e r
  proof (rule populate_clock_ports.raw_induct
      [where P = "\<lambda>e p q b s r. e = env \<longrightarrow> P (rest s) \<longrightarrow> P (rest (snd r))", OF _ that], intro impI)
    fix f e p q queue and s :: "'a mmal_store_scheme" and r :: "mmal_status \<times> 'a mmal_store_scheme"
    assume IH: "\<And>e p q b s r. f e p q b s = Some r \<Longrightarrow> e = env \<longrightarrow> P (rest s) \<longrightarrow> P (rest (snd r))"
      and run: "Option.bind (mmal_queue_get queue s) (\<lambda>(buffer, s).
         case buffer of None \<Rightarrow> Some (MMAL_SUCCESS, s)
         | Some b \<Rightarrow> Option.bind (mmal_port_send_buffer e (Some p) b s) (\<lambda>(status, s).
               if status \<noteq> MMAL_SUCCESS then Option.bind (release_buffer e b s) (\<lambda>s. Some (status, s))
               else f e q p queue s)) = Some r"
      and e: "e = env" and s: "P (rest s)"
    have rec: "returns Q (f e p q b t)" if "P (rest t)" "\<And>x t. P (rest t) \<Longrightarrow> Q (x, t)" for Q p q b t
      using IH e that by (auto simp: returns_def)
    have "returns (\<lambda>r. P (rest (snd r))) (Some r)" unfolding run [symmetric] using s
      by (auto simp: e split: option.split intro!: queue_get_step send_buffer_step release_buffer_step rec [unfolded e])
    then show "P (rest (snd r))" by simp
  qed
  with assms show ?thesis by fastforce
qed

lemma populate_pool_keeps:
  assumes "populate_from_pool env p queue idx s = Some (st, r)" "P (rest s)"
  shows "P (rest r)"
proof -
  have "e = env \<longrightarrow> P (rest s) \<longrightarrow> P (rest (snd r))" if "populate_from_pool e p queue idx s = Some r" for e r
  proof (rule populate_from_pool.raw_induct
      [where P = "\<lambda>e p q b s r. e = env \<longrightarrow> P (rest s) \<longrightarrow> P (rest (snd r))", OF _ that], intro impI)
    fix f e p queue idx and s :: "'a mmal_store_scheme" and r :: "mmal_status \<times> 'a mmal_store_scheme"
    assume IH: "\<And>e p q b s r. f e p q b s = Some r \<Longrightarrow> e = env \<longrightarrow> P (rest s) \<longrightarrow> P (rest (snd r))"
      and run: "(if idx < buffer_num (ports s p) then
        Option.bind (mmal_queue_get queue s) (\<lambda>(buffer, s).
          case buffer of None \<Rightarrow> Some (MMAL_ENOMEM, s)
          | Some b \<Rightarrow> Option.bind (mmal_port_send_buffer e (Some p) b s) (\<lambda>(status, s).
                if status \<noteq> MMAL_SUCCESS then Option.bind (release_buffer e b s) (\<lambda>s. Some (status, s))
                else f e p queue (idx + 1) s))
      else Some (MMAL_SUCCESS, s)) = Some r"
      and e: "e = env" and s: "P (rest s)"
    have rec: "returns Q (f e p q b t)" if "P (rest t)" "\<And>x t. P (rest t) \<Longrightarrow> Q (x, t)" for Q p q b t
      using IH e that by (auto simp: returns_def)
    have "returns (\<lambda>r. P (rest (snd r))) (Some r)" unfolding run [symmetric] using s
      by (auto simp: e split: option.split intro!: queue_get_step send_buffer_step release_buffer_step rec [unfolded e])
    then show "P (rest (snd r))" by simp
  qed
  with assms show ?thesis by fastforce
qed

lemma populate_steps:
  assumes "P (rest s)" "\<And>x s. P (rest s) \<Longrightarrow> Q (x, s)"
  shows "returns Q (populate_clock_ports env p q queue s)" "returns Q (populate_from_pool env p queue idx s)"
  using assms populate_clocks_keeps populate_pool_keeps by (auto simp: returns_def)

lemma connection_start_step:
  assumes "P (rest s)" "\<And>x s. P (rest s) \<Longrightarrow> Q (x, s)"
  shows "returns Q (mmal_port_connection_start env p q s)"
  using assms(1)
  by (auto simp: mmal_port_connection_start_def mmal_port_populate_clock_ports_def mmal_port_populate_from_pool_def Let_def
      intro!: assms(2) field_steps populate_steps)

lemma disable_if_enabled_step:
  assumes "P (rest s)" "\<And>s. P (rest s) \<Longrightarrow> Q s"
  shows "returns Q (disable_if_enabled env p s)"
  using assms(1) by (auto simp: disable_if_enabled_def intro!: assms(2) disable_internal_step)

lemma enable_failed_step:
  assumes "P (rest s)" "\<And>x s. P (rest s) \<Longrightarrow> Q (x, s)"
  shows "returns Q (enable_failed env p connected st s)"
  using assms(1) by (auto simp: enable_failed_def split: option.split intro!: assms(2) disable_if_enabled_step connection_disable_keeps)

lemma enable_ports_step:
  assumes "P (rest s)" "\<And>x s. P (rest s) \<Longrightarrow> Q (x, s)"
  shows "returns Q (enable_ports env p connected cb s)"
  using assms(1) by (auto simp: enable_ports_def split: option.split intro!: assms(2) enable_internal_step connection_start_step)

lemma port_enable_step:
  assumes "P (rest s)" "\<And>x s. P (rest s) \<Longrightarrow> Q (x, s)"
  shows "returns Q (mmal_port_enable env port cb s)"
  using assms(1)
  by (auto simp: mmal_port_enable_def Let_def split: option.split
      intro!: assms(2) connection_enable_step enable_ports_step enable_failed_step)

lemma port_disable_step:
  assumes "P (rest s)" "\<And>x s. P (rest s) \<Longrightarrow> Q (x, s)"
  shows "returns Q (mmal_port_disable env port s)"
proof -
  have pair: "Q (mmal_port_connection_disable env p q t)" if "P (rest t)" for p q t
    using connection_disable_keeps [OF that, of p q] assms(2) by (metis prod.collapse)
  show ?thesis using assms(1)
    by (auto simp: mmal_port_disable_def split: option.split intro!: assms(2) disable_internal_step pair)
qed

subsection \<open>Connections\<close>

lemma drain_connection_keeps:
  assumes "drain_connection env c s = Some r" "P (rest s)"
  shows "P (rest r)"
proof -
  have "e = env \<longrightarrow> P (rest s) \<longrightarrow> P (rest r)" if "drain_connection e c s = Some r" for e r
  proof (rule drain_connection.raw_induct
      [where P = "\<lambda>e c s r. e = env \<longrightarrow> P (rest s) \<longrightarrow> P (rest r)", OF _ that], intro impI)
    fix f e c and s r :: "'a mmal_store_scheme"
    assume IH: "\<And>e c s r. f e c s = Some r \<Longrightarrow> e = env \<longrightarrow> P (rest s) \<longrightarrow> P (rest r)"
      and run: "Option.bind (mmal_queue_get (conn_queue (connections s c)) s) (\<lambda>(buffer, s).
         case buffer of None \<Rightarrow> Some s | Some b \<Rightarrow> Option.bind (release_buffer e b s) (\<lambda>s. f e c s)) = Some r"
      and e: "e = env" and s: "P (rest s)"
    have rec: "returns Q (f e c t)" if "P (rest t)" "\<And>t. P (rest t) \<Longrightarrow> Q t" for Q c t
      using IH e that by (auto simp: returns_def)
    have "returns (\<lambda>r. P (rest r)) (Some r)" unfolding run [symmetric] using s
      by (auto simp: e split: option.split intro!: queue_get_step release_buffer_step rec [unfolded e])
    then show "P (rest r)" by simp
  qed
  with assms show ?thesis by blast
qed

lemma populate_connected_keeps:
  assumes "populate_connected_clocks env p q queue s = Some r" "P (rest s)"
  shows "P (rest r)"
proof -
  have "e = env \<longrightarrow> P (rest s) \<longrightarrow> P (rest r)" if "populate_connected_clocks e p q queue s = Some r" for e r
  proof (rule populate_connected_clocks.raw_induct
      [where P = "\<lambda>e p q b s r. e = env \<longrightarrow> P (rest s) \<longrightarrow> P (rest r)", OF _ that], intro impI)
    fix f e p q queue and s r :: "'a mmal_store_scheme"
    assume IH: "\<And>e p q b s r. f e p q b s = Some r \<Longrightarrow> e = env \<longrightarrow> P (rest s) \<longrightarrow> P (rest r)"
      and run: "Option.bind (mmal_queue_get queue s) (\<lambda>(buffer, s).
         case buffer of None \<Rightarrow> Some s
         | Some b \<Rightarrow> Option.bind (mmal_port_send_buffer e (Some p) b s) (\<lambda>(_, s). f e q p queue s)) = Some r"
      and e: "e = env" and s: "P (rest s)"
    have rec: "returns Q (f e p q b t)" if "P (rest t)" "\<And>t. P (rest t) \<Longrightarrow> Q t" for Q p q b t
      using IH e that by (auto simp: returns_def)
    have "returns (\<lambda>r. P (rest r)) (Some r)" unfolding run [symmetric] using s
      by (auto simp: e split: option.split intro!: queue_get_step send_buffer_step rec [unfolded e])
    then show "P (rest r)" by simp
  qed
  with assms show ?thesis by blast
qed

lemma connection_loop_steps:
  assumes "P (rest s)" "\<And>s. P (rest s) \<Longrightarrow> Q s"
  shows "returns Q (drain_connection env c s)" "returns Q (populate_connected_clocks env p q queue s)"
  using assms drain_connection_keeps populate_connected_keeps by (auto simp: returns_def)

lemma disable_connected_step:
  assumes "P (rest s)" "\<And>x s. P (rest s) \<Longrightarrow> Q (x, s)"
  shows "returns Q (disable_connected_ports env c s)"
  using assms(1) by (auto simp: disable_connected_ports_def intro!: assms(2) port_disable_step connection_loop_steps)

lemma connection_disable_step:
  assumes "P (rest s)" "\<And>x s. P (rest s) \<Longrightarrow> Q (x, s)"
  shows "returns Q (mmal_connection_disable env c s)"
  using assms(1)
  by (auto simp: mmal_connection_disable_def Let_def case_prod_beta rest_simps intro!: disable_connected_step assms(2))

lemma enable_pooled_step:
  assumes "P (rest s)" "\<And>x s. P (rest s) \<Longrightarrow> Q (x, s)"
  shows "returns Q (enable_pooled_ports env c out inp s)"
  using assms(1)
  by (auto simp: enable_pooled_ports_def Let_def rest_simps
      intro!: assms(2) field_steps pool_resize_step port_enable_step port_disable_step connection_loop_steps)

lemma conn_enable_step:
  assumes "P (rest s)" "\<And>x s. P (rest s) \<Longrightarrow> Q (x, s)"
  shows "returns Q (mmal_connection_enable env c s)"
  using assms(1)
  by (auto simp: mmal_connection_enable_def Let_def case_prod_beta rest_simps
      intro!: enable_pooled_step port_enable_step assms(2))

end

text \<open>Modules and clients that do nothing keep everything.\<close>

interpretation quiet: keeping_env quiet_env P for P
  by unfold_locales (simp_all add: quiet_env_def no_env_def)

end
