(* ===== verification/GraphFrame.thy ===== *)
theory GraphFrame
  imports GraphComponent CoreFrame
begin

text \<open>
  The functions of a graph as a client of the core.  When the other modules and the client of the graph keep a property of the graphs
  that speaks of their stop flags only, the functions that \<open>graph_env\<close> installs keep it too: they satisfy the laws of \<open>keeping_env\<close>.
\<close>

section \<open>More operations of the core\<close>

context keeping_env
begin

lemma port_flush_step:
  assumes "P (rest s)" "\<And>x s. P (rest s) \<Longrightarrow> Q (x, s)"
  shows "returns Q (mmal_port_flush env port s)"
  using assms(1) by (auto simp: mmal_port_flush_def Let_def rest_simps split: option.split
      intro!: assms(2) client_steps return_buffers_step)

lemma parameter_set_step:
  assumes "P (rest s)" "\<And>x s. P (rest s) \<Longrightarrow> Q (x, s)"
  shows "returns Q (mmal_port_parameter_set env port param s)"
  using assms(1) by (auto simp: mmal_port_parameter_set_def mmal_component_parameter_set_def mmal_port_private_parameter_set_def
      split: option.split module_fn.split intro!: assms(2) client_steps)

lemma connect_steps:
  assumes "P (rest s)" "\<And>x s. P (rest s) \<Longrightarrow> Q (x, s)"
  shows "returns Q (mmal_port_connect env port other s)" "returns Q (mmal_port_disconnect env port s)"
proof -
  have call: "returns R (call_connect env f p q t)" if "P (rest t)" "\<And>x s. P (rest s) \<Longrightarrow> R (x, s)" for R f p q t
    using that by (auto simp: call_connect_def mmal_port_connect_default_def split: connect_fn.split intro!: client_steps)
  show "returns Q (mmal_port_connect env port other s)"
    using assms(1) by (auto simp: mmal_port_connect_def link_ports_def Let_def rest_simps split: option.split
        intro!: assms(2) field_steps call)
  have pair_case: "returns Q (case mmal_port_connection_disable env p q t of (x, u) \<Rightarrow> f x u)"
    if "P (rest t)" "\<And>x u. P (rest u) \<Longrightarrow> returns Q (f x u)" for p q t f
    using that(2) connection_disable_keeps [OF that(1), of p q] by (simp add: case_prod_beta)
  show "returns Q (mmal_port_disconnect env port s)"
    using assms(1) by (auto simp: mmal_port_disconnect_def Let_def rest_simps split: option.split
        intro!: assms(2) field_steps call disable_internal_step pair_case)
qed

lemma destroy_connection_step:
  assumes "P (rest s)" "\<And>x s. P (rest s) \<Longrightarrow> Q (x, s)"
  shows "returns Q (mmal_connection_destroy_internal env c s)"
proof -
  have pool: "P (rest (case x of None \<Rightarrow> t | Some pool \<Rightarrow> mmal_pool_destroy (port_pool_env env) (Some pool) t))" if "P (rest t)" for x t
    using that by (simp add: pool_destroy_keeps split: option.split)
  have queue: "rest (case x of None \<Rightarrow> t | Some q \<Rightarrow> mmal_queue_destroy (Some q) t) = rest t" for x and t :: "'a mmal_store_scheme"
    by (simp add: rest_simps split: option.split)
  show ?thesis using assms(1)
    by (auto simp: mmal_connection_destroy_internal_def Let_def rest_simps queue pool intro!: assms(2) connection_disable_step connect_steps(2))
qed

lemma release_connection_step:
  assumes "P (rest s)" "\<And>x s. P (rest s) \<Longrightarrow> Q (x, s)"
  shows "returns Q (mmal_connection_release env c s)"
  using assms(1) by (auto simp: mmal_connection_release_def drop_connection_def Let_def rest_simps
      intro!: assms(2) destroy_connection_step)

lemma ports_steps:
  assumes "P (rest s)" "\<And>s. P (rest s) \<Longrightarrow> Q s"
  shows "returns Q (disable_ports env ps s)" "returns Q (disconnect_ports env ps s)"
proof -
  show "returns Q (disable_ports env ps s)"
    using assms(1) by (induction ps arbitrary: s) (auto intro!: assms(2) port_disable_step)
  show "returns Q (disconnect_ports env ps s)"
    using assms(1) by (induction ps arbitrary: s) (auto intro!: assms(2) connect_steps)
qed

lemma release_component_step:
  assumes "P (rest s)" "\<And>x s. P (rest s) \<Longrightarrow> Q (x, s)"
  shows "returns Q (mmal_component_release env component s)"
proof -
  have pair: "R (mmal_component_destroy_internal env c t)" if "P (rest t)" "\<And>x s. P (rest s) \<Longrightarrow> R (x, s)" for R c t
    using keep_destroy_internal [OF that(1), of c] that(2) by (metis prod.collapse)
  have tail: "returns Q (if comp_refcount_ports (components t c) \<noteq> 0
      then Some (MMAL_SUCCESS, upd_comp c (\<lambda>k. k\<lparr>destruction_pending := False\<rparr>) t) else Some (mmal_component_destroy_internal env c t))"
    if "P (rest t)" for t c using that by (simp add: pair assms(2) rest_simps)
  have internal: "returns Q (mmal_component_release_internal env c s)" for c
    unfolding mmal_component_release_internal_def Let_def
    by (simp add: assms del: disable_ports.simps if_True if_False)
      (intro conjI impI tail ports_steps field_steps assms(2), simp_all add: assms(1,2) rest_simps pair)
  show ?thesis using assms(1) internal by (simp add: mmal_component_release_def assms(2) split: option.split)
qed

lemma release_all_steps:
  assumes "P (rest s)" "\<And>s. P (rest s) \<Longrightarrow> Q s"
  shows "returns Q (release_connections env cs s)" "returns Q (release_components env cs s)"
proof -
  show "returns Q (release_connections env cs s)"
    using assms(1) by (induction cs arbitrary: s) (auto intro!: assms(2) release_connection_step)
  show "returns Q (release_components env cs s)"
    using assms(1) by (induction cs arbitrary: s) (auto intro!: assms(2) release_component_step)
qed

lemma copy_and_commit_step:
  assumes "P (rest s)" "\<And>x s. P (rest s) \<Longrightarrow> Q (x, s)"
  shows "returns Q (copy_and_commit env p f s)"
  using assms(1) by (auto simp: copy_and_commit_def intro!: assms(2) full_copy_step format_commit_step)

lemma error_send_step:
  assumes "P (rest s)" "\<And>x s. P (rest s) \<Longrightarrow> Q (x, s)"
  shows "returns Q (mmal_event_error_send env component status s)"
  using assms(1) by (auto simp: mmal_event_error_send_def split: option.split
      intro!: assms(2) event_get_step callback_steps(4) header_callback_step(2))

lemma reconfigure_step:
  assumes "P (rest s)" "\<And>x s. P (rest s) \<Longrightarrow> Q (x, s)"
  shows "returns Q (mmal_connection_reconfigure env c f s)"
  using assms(1) by (auto simp: mmal_connection_reconfigure_def
      intro!: assms(2) connection_disable_step copy_and_commit_step conn_enable_step)

lemma format_changed_step:
  assumes "P (rest s)" "\<And>x s. P (rest s) \<Longrightarrow> Q (x, s)"
  shows "returns Q (mmal_connection_event_format_changed env c b s)"
proof -
  have ev: "P (rest t')" if "mmal_event_format_changed_get x t = (y, t')" "P (rest t)" for x y and t t' :: "'a mmal_store_scheme"
    using that rest_format_event [of x t] by simp
  show ?thesis using assms(1)
    by (auto simp: mmal_connection_event_format_changed_def Let_def rest_simps split: option.split prod.split dest!: ev
        intro!: assms(2) field_steps copy_and_commit_step send_buffer_step release_buffer_step reconfigure_step)
qed

lemma event_handler_steps:
  assumes "P (rest s)" "\<And>s. P (rest s) \<Longrightarrow> Q s"
  shows "returns Q (graph_port_event_handler env c p b s)" "returns Q (deliver_buffer env c b s)"
proof -
  show "returns Q (deliver_buffer env c b s)"
    using assms(1) by (auto simp: deliver_buffer_def intro!: assms(2) send_buffer_step release_buffer_step error_send_step)
  show "returns Q (graph_port_event_handler env c p b s)"
    using assms(1) by (auto simp: graph_port_event_handler_def
        intro!: assms(2) format_changed_step release_buffer_step error_send_step)
qed

lemma while_success_step:
  assumes "\<And>p s R. P (rest s) \<Longrightarrow> (\<And>x s. P (rest s) \<Longrightarrow> R (x, s)) \<Longrightarrow> returns R (f p s)"
    "P (rest s)" "\<And>x s. P (rest s) \<Longrightarrow> Q (x, s)"
  shows "returns Q (while_success f ps status s)"
  using assms(2) by (induction ps arbitrary: status s) (auto intro!: assms(1,3))

lemma control_parameter_set_step:
  assumes "P (rest s)" "\<And>x s. P (rest s) \<Longrightarrow> Q (x, s)"
  shows "returns Q (control_parameter_set env cs status param s)"
  using assms(1) by (induction cs arbitrary: status s) (auto intro!: assms(2) parameter_set_step)

lemma rest_trigger [rest_simps]: "rest (snd (mmal_component_action_trigger k s)) = rest s"
  by (simp add: mmal_component_action_trigger_def rest_simps)

lemma rest_free_component_ports [rest_simps]:
  fixes s :: "'a mmal_store_scheme"
  shows "rest (free_component_ports array ps s) = rest s"
proof -
  have "rest (mmal_port_free p t) = rest t" for p and t :: "'a mmal_store_scheme"
    by (simp add: mmal_port_free_def mmal_format_free_def Let_def rest_simps split: option.split)
  then have "rest (free_ports ps t) = rest t" for t :: "'a mmal_store_scheme"
    by (induction ps arbitrary: t) (simp_all add: free_ports_def)
  then show ?thesis by (simp add: free_component_ports_def mmal_ports_free_def rest_simps split: option.split)
qed

end

section \<open>The functions of a graph\<close>

text \<open>The client of a graph keeps the property too, and the property sees nothing of a graph but its stop flag.\<close>

locale graph_keeping = keeping_env env P
  for env :: "('a graph_store_scheme) port_env" and P :: "'a graph_store_ext \<Rightarrow> bool" +
  fixes gc :: "('a graph_store_scheme) graph_client"
  assumes keep_graph: "P (rest s) \<Longrightarrow> stop_worker (f (graphs s g)) = stop_worker (graphs s g) \<Longrightarrow> P (rest (upd_graph g f s))"
    and keep_gc_destroy: "P (rest s) \<Longrightarrow> returns (\<lambda>s. P (rest s)) (gc_destroy gc n g s)"
    and keep_gc_port: "P (rest s) \<Longrightarrow> returns (\<lambda>(_, s). P (rest s)) (gc_port gc n g p s)"
    and keep_gc_buffer: "P (rest s) \<Longrightarrow> returns (\<lambda>(_, s). P (rest s)) (gc_buffer gc n g p b s)"
    and keep_gc_parameter_set: "P (rest s) \<Longrightarrow> returns (\<lambda>(_, s). P (rest s)) (gc_parameter_set gc n g p param s)"
    and keep_gc_payload_alloc: "P (rest s) \<Longrightarrow> P (rest (snd (snd (gc_payload_alloc gc n g p sz s))))"
    and keep_gc_payload_free: "P (rest s) \<Longrightarrow> P (rest (snd (gc_payload_free gc n g p mem s)))"
    and keep_gc_event: "P (rest s) \<Longrightarrow> returns (\<lambda>s. P (rest s)) (gc_event gc n g p b s)"
begin

lemmas graph_client_steps =
  keep_gc_destroy [THEN step0] keep_gc_port [THEN step1] keep_gc_buffer [THEN step1] keep_gc_parameter_set [THEN step1]
  keep_gc_event [THEN step0]

lemma user_first_step:
  assumes "\<And>n s R. P (rest s) \<Longrightarrow> (\<And>x s. P (rest s) \<Longrightarrow> R (x, s)) \<Longrightarrow> returns R (call n s)"
    and "\<And>s. P (rest s) \<Longrightarrow> returns Q (next s)" "P (rest s)" "\<And>x s. P (rest s) \<Longrightarrow> Q (x, s)"
  shows "returns Q (user_first f call s next)"
  using assms(3) by (auto simp: user_first_def split: option.split intro!: assms(1,2,4))

subsection \<open>Propagation along the connections\<close>

lemma state_propagate_keeps:
  assumes "state_propagate env g p enable type qs s = Some r" "P (rest s)"
  shows "P (rest (snd r))"
proof -
  have "e = env \<longrightarrow> P (rest s) \<longrightarrow> P (rest (snd r))" if "state_propagate e g p enable type qs s = Some r" for e
  proof (rule state_propagate.raw_induct
      [where P = "\<lambda>e g p enable type qs s r. e = env \<longrightarrow> P (rest s) \<longrightarrow> P (rest (snd r))", OF _ that], intro impI)
    fix f e g p enable type qs and s :: "'a graph_store_scheme" and r :: "mmal_status \<times> 'a graph_store_scheme"
    assume IH: "\<And>e g p enable type qs s r. f e g p enable type qs s = Some r \<Longrightarrow> e = env \<longrightarrow> P (rest s) \<longrightarrow> P (rest (snd r))"
      and run: "(case qs of
        [] \<Rightarrow> Some (MMAL_SUCCESS, s)
      | q # qs \<Rightarrow>
          (case state_connection g p enable type q s of
             None \<Rightarrow> f e g p enable type qs s
           | Some c \<Rightarrow>
               Option.bind (if enable then mmal_connection_enable e c s else Some (MMAL_SUCCESS, s)) (\<lambda>(status, s).
                 if status \<noteq> MMAL_SUCCESS then Some (status, s)
                 else
                   let other = (if conn_in (connections s c) = q then conn_out (connections s c) else conn_in (connections s c)) in
                   Option.bind (f e g other enable (opposite_type (port_type (ports s other)))
                       (comp_port (components s (port_component (ports s other)))) s) (\<lambda>(status, s).
                     if status \<noteq> MMAL_SUCCESS then Some (status, s)
                     else
                       Option.bind (if \<not> enable then mmal_connection_disable e c s else Some (MMAL_SUCCESS, s)) (\<lambda>(status, s).
                         if status \<noteq> MMAL_SUCCESS then Some (status, s)
                         else f e g p enable type qs s))))) = Some r"
      and e: "e = env" and s: "P (rest s)"
    have rec: "returns Q (f e g p enable type qs t)" if "P (rest t)" "\<And>x t. P (rest t) \<Longrightarrow> Q (x, t)" for Q g p enable type qs t
      using IH e that by (auto simp: returns_def)
    have "returns (\<lambda>r. P (rest (snd r))) (Some r)" unfolding run [symmetric] using s
      by (auto simp: e Let_def split: list.split option.split
          intro!: conn_enable_step connection_disable_step rec [unfolded e])
    then show "P (rest (snd r))" by simp
  qed
  with assms show ?thesis by blast
qed

lemma flush_propagate_keeps:
  assumes "flush_propagate env g p todo s = Some r" "P (rest s)"
  shows "P (rest (snd r))"
proof -
  have "e = env \<longrightarrow> P (rest s) \<longrightarrow> P (rest (snd r))" if "flush_propagate e g p todo s = Some r" for e
  proof (rule flush_propagate.raw_induct
      [where P = "\<lambda>e g p todo s r. e = env \<longrightarrow> P (rest s) \<longrightarrow> P (rest (snd r))", OF _ that], intro impI)
    fix f e g p todo and s :: "'a graph_store_scheme" and r :: "mmal_status \<times> 'a graph_store_scheme"
    assume IH: "\<And>e g p todo s r. f e g p todo s = Some r \<Longrightarrow> e = env \<longrightarrow> P (rest s) \<longrightarrow> P (rest (snd r))"
      and run: "(case todo of
        None \<Rightarrow>
          Option.bind (mmal_port_flush e (Some p) s) (\<lambda>(status, s).
            if status \<noteq> MMAL_SUCCESS \<or> port_type (ports s p) = MMAL_PORT_TYPE_OUTPUT then Some (status, s)
            else f e g p (Some (comp_port (components s (port_component (ports s p))))) s)
      | Some [] \<Rightarrow> Some (MMAL_SUCCESS, s)
      | Some (q # qs) \<Rightarrow>
          (case flush_connection g p q s of
             None \<Rightarrow> f e g p (Some qs) s
           | Some c \<Rightarrow>
               Option.bind (flush_connection_queue e c s) (\<lambda>s.
                 Option.bind (f e g (conn_in (connections s c)) None s) (\<lambda>(status, s).
                   if status \<noteq> MMAL_SUCCESS then Some (status, s) else f e g p (Some qs) s)))) = Some r"
      and e: "e = env" and s: "P (rest s)"
    have rec: "returns Q (f e g p todo t)" if "P (rest t)" "\<And>x t. P (rest t) \<Longrightarrow> Q (x, t)" for Q g p todo t
      using IH e that by (auto simp: returns_def)
    have "returns (\<lambda>r. P (rest (snd r))) (Some r)" unfolding run [symmetric] using s
      by (auto simp: e flush_connection_queue_def split: list.split option.split
          intro!: port_flush_step connection_loop_steps rec [unfolded e])
    then show "P (rest (snd r))" by simp
  qed
  with assms show ?thesis by blast
qed

lemma format_propagate_keeps:
  assumes "format_propagate env g p todo s = Some r" "P (rest s)"
  shows "P (rest (snd r))"
proof -
  have "e = env \<longrightarrow> P (rest s) \<longrightarrow> P (rest (snd r))" if "format_propagate e g p todo s = Some r" for e
  proof (rule format_propagate.raw_induct
      [where P = "\<lambda>e g p todo s r. e = env \<longrightarrow> P (rest s) \<longrightarrow> P (rest (snd r))", OF _ that], intro impI)
    fix f e g p todo and s :: "'a graph_store_scheme" and r :: "mmal_status \<times> 'a graph_store_scheme"
    assume IH: "\<And>e g p todo s r. f e g p todo s = Some r \<Longrightarrow> e = env \<longrightarrow> P (rest s) \<longrightarrow> P (rest (snd r))"
      and run: "(case todo of
        None \<Rightarrow>
          if port_type (ports s p) = MMAL_PORT_TYPE_OUTPUT then Some (MMAL_SUCCESS, s)
          else f e g p (Some (comp_output (components s (port_component (ports s p))))) s
      | Some [] \<Rightarrow> Some (MMAL_SUCCESS, s)
      | Some (q # qs) \<Rightarrow>
          (case format_connection g p q s of
             None \<Rightarrow> f e g p (Some qs) s
           | Some c \<Rightarrow>
               Option.bind (copy_and_commit e (conn_in (connections s c)) (port_format (ports s (conn_out (connections s c)))) s)
                 (\<lambda>(status, s).
                   if status \<noteq> MMAL_SUCCESS then Some (status, s)
                   else
                     Option.bind (f e g (conn_in (connections s c)) None s) (\<lambda>(status, s).
                       if status \<noteq> MMAL_SUCCESS then Some (status, s) else f e g p (Some qs) s)))) = Some r"
      and e: "e = env" and s: "P (rest s)"
    have rec: "returns Q (f e g p todo t)" if "P (rest t)" "\<And>x t. P (rest t) \<Longrightarrow> Q (x, t)" for Q g p todo t
      using IH e that by (auto simp: returns_def)
    have "returns (\<lambda>r. P (rest (snd r))) (Some r)" unfolding run [symmetric] using s
      by (auto simp: e split: list.split option.split intro!: copy_and_commit_step rec [unfolded e])
    then show "P (rest (snd r))" by simp
  qed
  with assms show ?thesis by blast
qed

lemma propagate_steps:
  assumes "P (rest s)" "\<And>x s. P (rest s) \<Longrightarrow> Q (x, s)"
  shows "returns Q (graph_port_state_propagate env g p enable s)" "returns Q (flush_propagate env g p todo s)"
    "returns Q (format_propagate env g p todo s)"
  using assms state_propagate_keeps [of g p enable] flush_propagate_keeps [of g p todo] format_propagate_keeps [of g p todo]
  by (fastforce simp: returns_def graph_port_state_propagate_def)+

subsection \<open>Operations on the ports\<close>

lemma graph_found_step: "(\<And>x. Q x) \<Longrightarrow> returns Q (find_port_from_graph g gp s)" "(\<And>x. Q x) \<Longrightarrow> returns Q (find_port_to_graph g gp s)"
  by (simp_all add: returns_def)

lemma module_step: "(\<And>x. Q x) \<Longrightarrow> returns Q (comp_module k)"
  by (simp add: returns_def)

lemma graph_update_steps:
  assumes "P (rest s)" "\<And>x s. P (rest s) \<Longrightarrow> Q (x, s)"
  shows "returns Q (graph_port_update g gp init s)" "returns Q (graph_port_update_requirements g gp s)"
  using assms(1) by (auto simp: graph_port_update_def graph_port_update_requirements_def rest_simps split: option.split
      intro!: assms(2) graph_found_step full_copy_step)

lemma with_graph_port_step:
  assumes "\<And>g p s. P (rest s) \<Longrightarrow> returns Q (f g p s)" "P (rest s)" "\<And>x s. P (rest s) \<Longrightarrow> Q (x, s)"
  shows "returns Q (with_graph_port gp f s)"
  using assms(2) by (auto simp: with_graph_port_def split: option.split intro!: assms(1,3) module_step graph_found_step)

lemma graph_port_steps:
  assumes "P (rest s)" "\<And>x s. P (rest s) \<Longrightarrow> Q (x, s)"
  shows "returns Q (graph_port_enable env gc gp s)" "returns Q (graph_port_disable env gc gp s)"
    "returns Q (graph_port_flush env gc gp s)" "returns Q (graph_port_send env gc gp b s)"
proof -
  show "returns Q (graph_port_flush env gc gp s)" "returns Q (graph_port_send env gc gp b s)"
    using assms(1) unfolding graph_port_flush_def graph_port_send_def
    by (auto intro!: with_graph_port_step user_first_step graph_client_steps propagate_steps send_buffer_step assms(2))
  show "returns Q (graph_port_disable env gc gp s)"
    using assms(1) unfolding graph_port_disable_def
    by (auto intro!: with_graph_port_step user_first_step graph_client_steps propagate_steps port_disable_step assms(2))
  show "returns Q (graph_port_enable env gc gp s)"
    using assms(1) unfolding graph_port_enable_def
    by (auto simp: Let_def rest_simps
        intro!: with_graph_port_step user_first_step graph_client_steps propagate_steps port_enable_step assms(2))
qed

lemma read_back_step:
  assumes "P (rest s)" "\<And>x s. P (rest s) \<Longrightarrow> Q (x, s)"
  shows "returns Q (read_formats_back g gp s)"
  using assms(1) by (auto simp: read_formats_back_def intro!: assms(2) graph_update_steps while_success_step)

lemma graph_commit_step:
  assumes "P (rest s)" "\<And>x s. P (rest s) \<Longrightarrow> Q (x, s)"
  shows "returns Q (graph_port_format_commit env gc gp s)"
proof -
  have reading: "returns Q (if st \<noteq> MMAL_SUCCESS then Some (st, t) else read_formats_back g gp t)" if "P (rest t)" for st t g
    using that by (auto intro!: assms(2) read_back_step)
  show ?thesis using assms(1) unfolding graph_port_format_commit_def
    by (auto simp: Let_def rest_simps split: option.split
        intro!: module_step user_first_step graph_client_steps graph_found_step full_copy_step format_commit_step propagate_steps reading assms(2))
qed

lemma graph_parameter_steps:
  assumes "P (rest s)" "\<And>x s. P (rest s) \<Longrightarrow> Q (x, s)"
  shows "returns Q (graph_port_parameter_set env gc gp param s)" "returns Q (graph_port_control_parameter_set env gc gp param s)"
proof -
  show "returns Q (graph_port_control_parameter_set env gc gp param s)"
    using assms(1) unfolding graph_port_control_parameter_set_def
    by (auto intro!: module_step user_first_step graph_client_steps control_parameter_set_step assms(2))
  show "returns Q (graph_port_parameter_set env gc gp param s)"
    using assms(1) unfolding graph_port_parameter_set_def
    by (auto simp: Let_def split: option.split
        intro!: module_step user_first_step graph_client_steps graph_found_step parameter_set_step while_success_step
          graph_update_steps assms(2))
qed

subsection \<open>Payloads, destruction\<close>

lemma payload_free_step:
  assumes "P (rest s)" "\<And>s. P (rest s) \<Longrightarrow> Q s"
  shows "returns Q (mmal_port_payload_free env port mem s)"
  using keep_port_payload(2) [OF assms(1)] assms(2) by (rule step0)

lemma graph_payload_steps:
  assumes "P (rest s)"
  shows "returns (\<lambda>(_, s). P (rest s)) (graph_port_payload_alloc env gc gp sz s)"
    "returns (\<lambda>s. P (rest s)) (graph_port_payload_free env gc gp mem s)"
proof -
  have alloc: "P (rest u)" if "gc_payload_alloc gc n g p sz t = (x, y, u)" "P (rest t)" for n g p sz t x y u
    using keep_gc_payload_alloc [OF that(2), of n g p sz] that(1) by simp
  have free: "P (rest u)" if "gc_payload_free gc n g p mem t = (x, u)" "P (rest t)" for n g p mem t x u
    using keep_gc_payload_free [OF that(2), of n g p mem] that(1) by simp
  have port: "P (rest u)" if "mmal_port_payload_alloc env port sz t = (x, u)" "P (rest t)" for port sz t x u
    using keep_port_payload(1) [OF that(2), of port sz] that(1) by simp
  show "returns (\<lambda>(_, s). P (rest s)) (graph_port_payload_alloc env gc gp sz s)"
    using assms by (auto simp: graph_port_payload_alloc_def Let_def split: option.split prod.split
        intro!: module_step graph_found_step dest: alloc port)
  show "returns (\<lambda>s. P (rest s)) (graph_port_payload_free env gc gp mem s)"
    using assms by (auto simp: graph_port_payload_free_def Let_def split: option.split prod.split
        intro!: module_step graph_found_step payload_free_step dest: free)
qed

lemma graph_destroy_step:
  assumes "P (rest s)" "\<And>s. P (rest s) \<Longrightarrow> Q s"
  shows "returns Q (call_graph_destroy gc g s)"
  using assms by (auto simp: call_graph_destroy_def split: option.split intro!: graph_client_steps)

lemma mmal_graph_destroy_step:
  assumes "P (rest s)" "\<And>x s. P (rest s) \<Longrightarrow> Q (x, s)"
  shows "returns Q (mmal_graph_destroy env gc graph s)"
  using assms(1) by (auto simp: mmal_graph_destroy_def Let_def rest_simps split: option.split
      intro!: assms(2) graph_destroy_step release_all_steps)

lemma component_destroy_step:
  assumes "P (rest s)" "\<And>x s. P (rest s) \<Longrightarrow> Q (x, s)"
  shows "returns Q (graph_component_destroy env gc k s)"
  using assms(1) by (auto simp: graph_component_destroy_def Let_def rest_simps
      intro!: assms(2) module_step graph_destroy_step mmal_graph_destroy_step keep_graph)

subsection \<open>Callbacks\<close>

lemma process_buffer_step:
  assumes "P (rest s)" "\<And>s. P (rest s) \<Longrightarrow> Q s"
  shows "returns Q (graph_process_buffer env gc g c b s)"
  using assms(1) by (auto simp: graph_process_buffer_def split: option.split
      intro!: assms(2) graph_client_steps event_handler_steps)

lemma direct_buffer_step:
  assumes "P (rest s)" "\<And>x s. P (rest s) \<Longrightarrow> Q (x, s)"
  shows "returns Q (direct_buffer c s)"
  using assms(1) by (auto simp: direct_buffer_def intro!: assms(2) queue_get_step)

lemma keep_post_graph: "P (rest s) \<Longrightarrow> P (rest (post_graph g s))"
  by (simp add: post_graph_def keep_graph)

lemma user_data_step: "(\<And>x. Q x) \<Longrightarrow> returns Q (conn_user_data c)"
  by (simp add: returns_def)

lemma graph_callback_steps:
  assumes "P (rest s)"
  shows "returns (\<lambda>s. P (rest s)) (graph_control_cb env gc p b s)"
    "returns (\<lambda>s. P (rest s)) (graph_component_control_cb env gc p b s)"
    "returns (\<lambda>s. P (rest s)) (graph_port_enable_cb env gc p b s)"
    "returns (\<lambda>s. P (rest s)) (graph_connection_cb env gc c s)"
    "returns (\<lambda>s. P (rest s)) (graph_component_connection_cb env gc c s)"
  using assms
  by (auto simp: graph_control_cb_def graph_component_control_cb_def graph_port_enable_cb_def graph_connection_cb_def
      graph_component_connection_cb_def rest_simps split: option.split
      intro!: field_steps module_step user_data_step graph_found_step graph_client_steps release_buffer_step header_callback_step
        direct_buffer_step process_buffer_step keep_post_graph)

lemma or_else_keeps: "returns Q m \<Longrightarrow> Q d \<Longrightarrow> Q (or_else d m)"
  by (simp add: or_else_def returns_def split: option.split)

lemma or_else_pair:
  "returns (\<lambda>(_, s). P (rest s)) m \<Longrightarrow> P (rest s) \<Longrightarrow> P (rest (snd (or_else (x, s) m)))"
  by (cases m) (auto simp: or_else_def)

lemma graph_env_keeping: "keeping_env (graph_env gc env) P"
proof
  show "returns (\<lambda>(_, s). P (rest s)) (on_set_format (graph_env gc env) n p s)" if "P (rest s)" for n p s
    using that by (auto simp: graph_env_def intro!: graph_commit_step keep_set_format)
  show "returns (\<lambda>(_, s). P (rest s)) (on_enable (graph_env gc env) n p cb s)" if "P (rest s)" for n p cb s
    using that by (auto simp: graph_env_def intro!: graph_port_steps keep_enable)
  show "returns (\<lambda>(_, s). P (rest s)) (on_disable (graph_env gc env) n p s)" if "P (rest s)" for n p s
    using that by (auto simp: graph_env_def intro!: graph_port_steps keep_disable)
  show "returns (\<lambda>(_, s). P (rest s)) (on_send (graph_env gc env) n p b s)" if "P (rest s)" for n p b s
    using that by (auto simp: graph_env_def intro!: graph_port_steps keep_send)
  show "returns (\<lambda>(_, s). P (rest s)) (on_flush (graph_env gc env) n p s)" if "P (rest s)" for n p s
    using that by (auto simp: graph_env_def intro!: graph_port_steps keep_flush)
  show "returns (\<lambda>(_, s). P (rest s)) (on_parameter_set (graph_env gc env) n p param s)" if "P (rest s)" for n p param s
    using that by (auto simp: graph_env_def intro!: graph_parameter_steps keep_parameter_set)
  show "returns (\<lambda>(_, s). P (rest s)) (on_connect (graph_env gc env) n p other s)" if "P (rest s)" for n p other s
    using that by (simp add: graph_env_def keep_connect)
  show "P (rest (snd (on_payload_alloc (graph_env gc env) n p sz s)))" if "P (rest s)" for n p sz s
    using that by (simp add: graph_env_def keep_payload_alloc or_else_pair graph_payload_steps)
  show "P (rest (on_payload_free (graph_env gc env) n p mem s))" if "P (rest s)" for n p mem s
    using that or_else_keeps [of "\<lambda>s. P (rest s)", OF graph_payload_steps(2)] by (simp add: graph_env_def keep_payload_free)
  show "P (rest (snd (on_component_destroy (graph_env gc env) n c s)))" if "P (rest s)" for n c s
    using that by (simp add: graph_env_def keep_component_destroy or_else_pair component_destroy_step)
  show "returns (\<lambda>s. P (rest s)) (on_buffer (graph_env gc env) n p b s)" if "P (rest s)" for n p b s
    using that by (simp add: graph_env_def keep_buffer graph_callback_steps)
  show "returns (\<lambda>s. P (rest s)) (on_connection (graph_env gc env) n c s)" if "P (rest s)" for n c s
    using that by (simp add: graph_env_def keep_connection graph_callback_steps)
qed (simp_all add: graph_env_def keep_alloc keep_free keep_cb keep_pre_release keep_release)

end

text \<open>So everything that the core does with a graph and its component keeps it.\<close>

sublocale graph_keeping \<subseteq> installed: keeping_env "graph_env gc env" P
  by (rule graph_env_keeping)

end
