(* ===== verification/GraphThread.thy ===== *)
theory GraphThread
  imports GraphLife GraphFrame
begin

text \<open>
  The worker thread of a graph: what enabling and disabling do to it.  The operations of the core leave the graphs alone, by the
  laws of \<^verbatim>\<open>CoreFrame\<close>, as long as the modules and clients do; the functions of the graph itself are among these by \<^verbatim>\<open>GraphFrame\<close>.
\<close>

text \<open>The graphs, as they lie in the rest of the store of the core.\<close>

definition rest_graphs :: "'a graph_store_ext \<Rightarrow> addr \<Rightarrow> mmal_graph" where
  "rest_graphs m = graphs (mmal_store.extend empty_mmal_store m)"

lemma rest_graphs [simp]: "rest_graphs (mmal_store.more s) = graphs s"
  by (cases s) (simp add: rest_graphs_def mmal_store.defs)

text \<open>A property of one graph that the modules and clients keep.\<close>

abbreviation keeps_graph :: "('a graph_store_scheme) port_env \<Rightarrow> addr \<Rightarrow> (mmal_graph \<Rightarrow> bool) \<Rightarrow> bool" where
  "keeps_graph env g R \<equiv> keeping_env env (\<lambda>m. R (rest_graphs m g))"

lemma enable_control_ports_keeps:
  assumes "keeps_graph env g R" "enable_control_ports env u cb cs st s = Some (st', s')" "R (graphs s g)"
  shows "R (graphs s' g)"
  using assms(2,3)
proof (induction cs arbitrary: st s)
  case (Cons c cs)
  then obtain p where p: "comp_control (components s c) = Some p" by (auto split: bind_splits)
  let ?s = "upd_port p (\<lambda>pt. pt\<lparr>port_userdata := Some u\<rparr>) s"
  from Cons.prems p obtain st1 s1 where s1: "mmal_port_enable env (Some p) (Some (Client_bh_cb cb)) ?s = Some (st1, s1)"
    "enable_control_ports env u cb cs st1 s1 = Some (st', s')" by (auto simp: Let_def split: bind_splits)
  have "returns (\<lambda>(_, s). R (graphs s g)) (mmal_port_enable env (Some p) (Some (Client_bh_cb cb)) ?s)"
    by (rule keeping_env.port_enable_step [OF assms(1)]) (use Cons.prems(2) in simp_all)
  with s1 have "R (graphs s1 g)" by (simp add: returns_def)
  with Cons.IH s1(2) show ?case by blast
qed simp

lemma enable_connections_keeps:
  assumes "keeps_graph env g R" "enable_connections env u cs st s = Some (st', s')" "R (graphs s g)"
  shows "R (graphs s' g)"
  using assms(2,3)
proof (induction cs arbitrary: st s)
  case (Cons c cs)
  let ?s = "upd_conn c (\<lambda>k. k\<lparr>conn_callback := Some GRAPH_CONNECTION_CB, conn_user_data := Some u\<rparr>) s"
  from Cons.prems obtain st1 s1 where s1: "mmal_connection_enable env c ?s = Some (st1, s1)"
    "(if st1 \<noteq> MMAL_SUCCESS then Some (st1, s1) else enable_connections env u cs st1 s1) = Some (st', s')"
    by (auto simp: Let_def split: bind_splits)
  have "returns (\<lambda>(_, s). R (graphs s g)) (mmal_connection_enable env c ?s)"
    by (rule keeping_env.conn_enable_step [OF assms(1)]) (use Cons.prems(2) in simp_all)
  with s1(1) have "R (graphs s1 g)" by (simp add: returns_def)
  with Cons.IH s1(2) show ?case by (auto split: if_splits)
qed simp

lemma disable_connections_keeps:
  assumes "keeps_graph env g R" "disable_connections env cs st s = Some (st', s')" "R (graphs s g)"
  shows "R (graphs s' g)"
  using assms(2,3)
proof (induction cs arbitrary: st s)
  case (Cons c cs)
  from Cons.prems obtain st1 s1 where s1: "mmal_connection_disable env c s = Some (st1, s1)"
    "(if st1 \<noteq> MMAL_SUCCESS then Some (st1, s1) else disable_connections env cs st1 s1) = Some (st', s')"
    by (auto split: bind_splits)
  have "returns (\<lambda>(_, s). R (graphs s g)) (mmal_connection_disable env c s)"
    by (rule keeping_env.connection_disable_step [OF assms(1)]) (use Cons.prems(2) in simp_all)
  with s1(1) have "R (graphs s1 g)" by (simp add: returns_def)
  with Cons.IH s1(2) show ?case by (auto split: if_splits)
qed simp

lemma vcos_create_graphs: "vcos_create x s = (ok, s') \<Longrightarrow> graphs s' = graphs s"
  by (auto simp: vcos_create_def split: list.splits bool.splits)

lemma graph_stop_flag: "graph_stop_worker_thread g s = Some s' \<Longrightarrow> stop_worker (graphs s' g)"
  by (auto simp: graph_stop_worker_thread_def Let_def post_graph_def split: bind_splits)

text \<open>
  A client that answers events by giving the buffer back, and leaves everything else to the graph; with it the functions of a graph keep the
  stop flag of every graph.
\<close>

definition releasing_client :: "('a graph_store_scheme) graph_client" where
  "releasing_client = quiet_client\<lparr>gc_event := (\<lambda>_ _ _ b s. release_buffer quiet_env b s)\<rparr>"

interpretation stop_flag: graph_keeping quiet_env "\<lambda>m. stop_worker (rest_graphs m g)" releasing_client for g
proof
  fix n :: nat and h p b and s :: "'a graph_store_scheme"
  assume "stop_worker (rest_graphs (mmal_store.more s) g)"
  then show "returns (\<lambda>s. stop_worker (rest_graphs (mmal_store.more s) g)) (gc_event releasing_client n h p b s)"
    by (simp add: releasing_client_def) (rule quiet.release_buffer_step [where P = "\<lambda>m. stop_worker (rest_graphs m g)"], simp_all)
qed (auto simp: releasing_client_def quiet_client_def)

text \<open>
  C18: a graph that was disabled and is enabled again, both with success, has a worker thread that ends at its first turn: nothing resets
  the flag that told the first thread to stop.  The turn takes a token of the semaphore and changes nothing else in the store, so
  no buffer is moved.  The modules and clients leave the flag alone, as the functions of the graphs do (\<open>stop_flag\<close>).
\<close>

theorem mmal_graph_restart_worker_ends:
  assumes "keeps_graph env g stop_worker" "mmal_graph_disable env g s = Some (MMAL_SUCCESS, s1)"
    and "mmal_graph_enable env g cb s1 = Some (MMAL_SUCCESS, s2)"
  shows "0 < graph_sema (graphs s2 g) \<and>
    graph_worker_round env gc g s2 = Some (False, s2\<lparr>graphs := (graphs s2)(g := (graphs s2 g)\<lparr>graph_sema := graph_sema (graphs s2 g) - 1\<rparr>)\<rparr>)"
proof -
  from assms(2) obtain t where t: "graph_stop_worker_thread g s = Some t"
    "disable_connections env (graph_connection (graphs t g)) MMAL_SUCCESS t = Some (MMAL_SUCCESS, s1)"
    by (auto simp: mmal_graph_disable_def split: bind_splits)
  have s1: "stop_worker (graphs s1 g)"
    using disable_connections_keeps [OF assms(1) t(2)] graph_stop_flag [OF t(1)] by blast
  obtain ok u where u: "vcos_create (graph_thread g) s1 = (ok, u)" by fastforce
  let ?u = "upd_graph g (\<lambda>d. d\<lparr>event_cb := cb\<rparr>) u"
  have ok: "ok = True" using assms(3) u by (cases ok) (simp_all add: mmal_graph_enable_def)
  note run = assms(3) [unfolded mmal_graph_enable_def u ok prod.case bool.case Let_def]
  from run obtain st v where v: "enable_control_ports env g GRAPH_CONTROL_CB (graph_component (graphs ?u g)) MMAL_SUCCESS ?u = Some (st, v)"
    by (cases "enable_control_ports env g GRAPH_CONTROL_CB (graph_component (graphs ?u g)) MMAL_SUCCESS ?u") auto
  note run = run [unfolded v Option.bind.bind_lunit prod.case]
  from run obtain st' w where w: "enable_connections env g (graph_connection (graphs v g)) MMAL_SUCCESS v = Some (st', w)"
    by (cases "enable_connections env g (graph_connection (graphs v g)) MMAL_SUCCESS v") auto
  note run = run [unfolded w Option.bind.bind_lunit prod.case]
  have "stop_worker (graphs ?u g)" using s1 vcos_create_graphs [OF u] by simp
  then have "stop_worker (graphs v g)" by (rule enable_control_ports_keeps [OF assms(1) v])
  then have stop: "stop_worker (graphs w g)" by (rule enable_connections_keeps [OF assms(1) w])
  have "s2 = post_graph g w" using run by (auto split: if_splits bind_splits)
  with stop show ?thesis
    by (simp add: graph_worker_round_def post_graph_def vcos_semaphore_wait_def vcos_semaphore_post_def upd_graph_def)
qed

text \<open>A graph at 2 with one tunnelled connection, from port 10 to port 11; it is enabled, disabled and enabled again.\<close>

definition tunnel_store :: graph_store where
  "tunnel_store = held_store\<lparr>creates := [True, True], graphs := (\<lambda>_. zero_graph\<lparr>graph_connection := [60]\<rparr>),
     connections := (\<lambda>_. zero_connection\<lparr>conn_flags := MMAL_CONNECTION_FLAG_TUNNELLING, conn_out := 10, conn_in := 11\<rparr>),
     ports := (\<lambda>_. zero_port\<lparr>pf_enable := Some (Module_fn 0), pf_disable := Some (Module_fn 0), transit_sema := 1\<rparr>)\<rparr>"

lemma tunnel_store_sel [simp]:
  "creates tunnel_store = [True, True]" "graphs tunnel_store = (\<lambda>_. zero_graph\<lparr>graph_connection := [60]\<rparr>)"
  "connections tunnel_store = (\<lambda>_. zero_connection\<lparr>conn_flags := MMAL_CONNECTION_FLAG_TUNNELLING, conn_out := 10, conn_in := 11\<rparr>)"
  "ports tunnel_store = (\<lambda>_. zero_port\<lparr>pf_enable := Some (Module_fn 0), pf_disable := Some (Module_fn 0), transit_sema := 1\<rparr>)"
  by (simp_all add: tunnel_store_def)

lemma clock_readings_upd [simp]:
  "clock_readings (upd_conn c f s) = clock_readings s" "clock_readings (upd_graph g h t) = clock_readings t"
  by (simp_all add: upd_conn_def upd_graph_def)

lemma clock_readings_tunnel [simp]: "clock_readings tunnel_store = []"
  by (simp add: tunnel_store_def held_store_def mmal_store.defs empty_mmal_store_def)

lemma tunnel_restart:
  "\<exists>s s1 s2. mmal_graph_enable (graph_env releasing_client quiet_env) 2 None tunnel_store = Some (MMAL_SUCCESS, s) \<and>
     mmal_graph_disable (graph_env releasing_client quiet_env) 2 s = Some (MMAL_SUCCESS, s1) \<and> mmal_graph_enable (graph_env releasing_client quiet_env) 2 None s1 = Some (MMAL_SUCCESS, s2)"
  by (simp add: mmal_graph_enable_def mmal_graph_disable_def vcos_create_def zero_graph_def Let_def mmal_connection_enable_def
      mmal_connection_disable_def disable_connected_ports_def conn_flag_def MMAL_CONNECTION_FLAG_TUNNELLING_def
      MMAL_CONNECTION_FLAG_KEEP_BUFFER_REQUIREMENTS_def zero_connection_def vcos_getmicrosecs_eq mmal_port_enable_def
      enable_ports_def mmal_port_enable_internal_def call_enable_def zero_port_def use_recommended_def quiet_env_def graph_env_def GRAPH_FN_def
      post_graph_def graph_stop_worker_thread_def vcos_semaphore_wait_def vcos_semaphore_post_def mmal_port_disable_def
      mmal_port_disable_internal_def call_disable_def return_buffers.simps in_transit_wait_def empty_paused_def vcos_delete_def)

theorem mmal_graph_restart_worker_ends_witness:
  "\<exists>s s1 s2 s3. mmal_graph_enable (graph_env releasing_client quiet_env) 2 None tunnel_store = Some (MMAL_SUCCESS, s) \<and>
     mmal_graph_disable (graph_env releasing_client quiet_env) 2 s = Some (MMAL_SUCCESS, s1) \<and>
     mmal_graph_enable (graph_env releasing_client quiet_env) 2 None s1 = Some (MMAL_SUCCESS, s2) \<and>
     graph_worker_round (graph_env releasing_client quiet_env) releasing_client 2 s2 = Some (False, s3) \<and> queues s3 = queues s2"
proof -
  let ?e = "graph_env releasing_client quiet_env :: graph_store port_env"
  obtain s s1 s2 where run: "mmal_graph_enable ?e 2 None tunnel_store = Some (MMAL_SUCCESS, s)"
    "mmal_graph_disable ?e 2 s = Some (MMAL_SUCCESS, s1)" "mmal_graph_enable ?e 2 None s1 = Some (MMAL_SUCCESS, s2)"
    using tunnel_restart by blast
  from mmal_graph_restart_worker_ends [OF stop_flag.graph_env_keeping run(2,3), of releasing_client] run show ?thesis by auto
qed

end
