(* ===== verification/Modules.thy ===== *)
theory Modules
  imports GraphThread
begin

text \<open>
  What the simple components of \<^verbatim>\<open>mmal/components\<close> (passthrough, splitter, copy) have in common: the data of their modules and of
  the modules of their ports, the queue of each port with the buffers sent to it, making and destroying ports with queues,
  and giving all buffers of a queue back.  The store of graphs is extended with these data by the address of the port or module.
\<close>

record splitter_module =
  enabled_flags :: u32
  sent_flags :: u32
  splitter_error :: bool

record module_store = graph_store +
  module_queue :: "addr \<Rightarrow> addr option"
  needs_configuring :: "addr \<Rightarrow> bool"
  passthrough_error :: "addr \<Rightarrow> bool"
  splitters :: "addr \<Rightarrow> splitter_module"
  copy_status :: "addr \<Rightarrow> mmal_status"

definition upd_splitter :: "addr \<Rightarrow> (splitter_module \<Rightarrow> splitter_module) \<Rightarrow> 'a module_store_scheme \<Rightarrow> 'a module_store_scheme" where
  "upd_splitter m f s = s\<lparr>splitters := (splitters s)(m := f (splitters s m))\<rparr>"

section \<open>Ports with queues\<close>

text \<open>The zeroed memory behind a new port.\<close>

definition zero_port_module :: "addr \<Rightarrow> 'a module_store_scheme \<Rightarrow> 'a module_store_scheme" where
  "zero_port_module p s = s\<lparr>module_queue := (module_queue s)(p := None), needs_configuring := (needs_configuring s)(p := False)\<rparr>"

definition module_ports_alloc ::
  "addr \<Rightarrow> u32 \<Rightarrow> mmal_port_type \<Rightarrow> u32 \<Rightarrow> 'a module_store_scheme \<Rightarrow> (addr \<times> addr list) option \<times> 'a module_store_scheme" where
  "module_ports_alloc k n type extra s =
     (case mmal_ports_alloc k n type extra s of
        (None, s) \<Rightarrow> (None, s)
      | (Some (array, ps), s) \<Rightarrow> (Some (array, ps), fold zero_port_module ps s))"

text \<open>The functions and requirements of each port are set and its queue is made; the loop stops at the first failure.\<close>

fun set_up_queued_ports ::
  "(mmal_port \<Rightarrow> mmal_port) \<Rightarrow> addr list \<Rightarrow> 'a module_store_scheme \<Rightarrow> bool \<times> 'a module_store_scheme" where
  "set_up_queued_ports f [] s = (True, s)"
| "set_up_queued_ports f (p # ps) s =
     (case mmal_queue_create (upd_port p f s) of
        (None, s) \<Rightarrow> (False, s\<lparr>module_queue := (module_queue s)(p := None)\<rparr>)
      | (Some q, s) \<Rightarrow> set_up_queued_ports f ps (s\<lparr>module_queue := (module_queue s)(p := Some q)\<rparr>))"

definition create_inputs ::
  "addr \<Rightarrow> u32 \<Rightarrow> u32 \<Rightarrow> (mmal_port \<Rightarrow> mmal_port) \<Rightarrow> 'a module_store_scheme \<Rightarrow> bool \<times> 'a module_store_scheme" where
  "create_inputs k n extra f s =
     (case module_ports_alloc k n MMAL_PORT_TYPE_INPUT extra s of
        (None, s) \<Rightarrow> (False, upd_comp k (\<lambda>d. d\<lparr>comp_input_array := None\<rparr>) s)
      | (Some (array, ps), s) \<Rightarrow>
          set_up_queued_ports f ps (upd_comp k (\<lambda>d. d\<lparr>comp_input_array := Some array, comp_input := ps\<rparr>) s))"

definition create_outputs ::
  "addr \<Rightarrow> u32 \<Rightarrow> u32 \<Rightarrow> (mmal_port \<Rightarrow> mmal_port) \<Rightarrow> 'a module_store_scheme \<Rightarrow> bool \<times> 'a module_store_scheme" where
  "create_outputs k n extra f s =
     (case module_ports_alloc k n MMAL_PORT_TYPE_OUTPUT extra s of
        (None, s) \<Rightarrow> (False, upd_comp k (\<lambda>d. d\<lparr>comp_output_array := None\<rparr>) s)
      | (Some (array, ps), s) \<Rightarrow>
          set_up_queued_ports f ps (upd_comp k (\<lambda>d. d\<lparr>comp_output_array := Some array, comp_output := ps\<rparr>) s))"

text \<open>Destroying: the queues of a side, then its ports; at last the memory of the module.\<close>

definition destroy_queues :: "addr list \<Rightarrow> 'a module_store_scheme \<Rightarrow> 'a module_store_scheme" where
  "destroy_queues ps s = fold (\<lambda>p s. mmal_queue_destroy (module_queue s p) s) ps s"

definition destroy_queued_component :: "addr \<Rightarrow> 'a module_store_scheme \<Rightarrow> mmal_status \<times> 'a module_store_scheme" where
  "destroy_queued_component k s =
     (let d = components s k;
          s = destroy_queues (comp_input d) s;
          s = free_component_ports (comp_input_array d) (comp_input d) s;
          s = destroy_queues (comp_output d) s;
          s = free_component_ports (comp_output_array d) (comp_output d) s
      in (MMAL_SUCCESS, vcos_free (comp_module d) s))"

text \<open>Every buffer the port holds goes back to the client.\<close>

partial_function (option) flush_module_queue ::
  "('a module_store_scheme) port_env \<Rightarrow> addr \<Rightarrow> 'a module_store_scheme \<Rightarrow> 'a module_store_scheme option" where
  "flush_module_queue env p s =
     Option.bind (mmal_queue_get (module_queue s p) s) (\<lambda>(buffer, s).
       case buffer of
         None \<Rightarrow> Some s
       | Some b \<Rightarrow> Option.bind (mmal_port_buffer_header_callback env p b s) (flush_module_queue env p))"

text \<open>\<open>MMAL_MAX\<close> of what the port has and what the parameter asks for.\<close>

definition raised_requirements :: "mmal_port \<Rightarrow> mmal_parameter \<Rightarrow> (u32 \<times> u32 \<times> u32 \<times> u32) option" where
  "raised_requirements pt param =
     (case param of
        Param_buffer_requirements num_min size_min align num_rec size_rec \<Rightarrow>
          Some (max (buffer_num_min pt) num_min, max (buffer_num_recommended pt) num_rec,
                max (buffer_size_min pt) size_min, max (buffer_size_recommended pt) size_rec)
      | _ \<Rightarrow> None)"

fun put_requirements :: "u32 \<times> u32 \<times> u32 \<times> u32 \<Rightarrow> mmal_port \<Rightarrow> mmal_port" where
  "put_requirements (num_min, num_rec, size_min, size_rec) pt =
     pt\<lparr>buffer_num_min := num_min, buffer_num_recommended := num_rec, buffer_size_min := size_min,
        buffer_size_recommended := size_rec\<rparr>"

end
