(* ===== verification/QueuedPorts.thy ===== *)
theory QueuedPorts
  imports Modules PortDisable
begin

text \<open>
  Ports whose module queues the buffers sent to it: what stays the same while buffers travel, a client that notes every buffer
  it is given, sending to such a port, and giving a buffer back.  The components of \<^verbatim>\<open>mmal/components\<close> share these lemmas.
\<close>

section \<open>What stays the same\<close>

text \<open>A port but for its counts and statistics.\<close>

definition plain :: "mmal_port \<Rightarrow> mmal_port" where
  "plain pt = pt\<lparr>transit_buffer_headers := 0, transit_sema := 0, stats_rx := zero_statistics, stats_tx := zero_statistics\<rparr>"

lemma plain_sel:
  assumes "plain a = plain b"
  shows "port_type a = port_type b" "port_index a = port_index b" "port_enabled a = port_enabled b"
    "port_component a = port_component b" "port_capabilities a = port_capabilities b" "pf_send a = pf_send b"
    "buffer_header_callback a = buffer_header_callback b" "is_paused a = is_paused b"
  using assms by (cases a; cases b; simp add: plain_def)+

lemma plain_upd [simp]:
  "plain (pt\<lparr>transit_buffer_headers := n, transit_sema := m\<rparr>) = plain pt" "plain (pt\<lparr>stats_rx := r\<rparr>) = plain pt"
  "plain (pt\<lparr>stats_tx := r\<rparr>) = plain pt"
  by (simp_all add: plain_def)

definition kept :: "'a module_store_scheme \<Rightarrow> 'a module_store_scheme \<Rightarrow> bool" where
  "kept s t \<longleftrightarrow> (\<forall>p. plain (ports t p) = plain (ports s p)) \<and> components t = components s \<and> module_queue t = module_queue s \<and>
     needs_configuring t = needs_configuring s \<and> passthrough_error t = passthrough_error s \<and> pools t = pools s \<and>
     (\<forall>m. enabled_flags (splitters t m) = enabled_flags (splitters s m) \<and>
          splitter_error (splitters t m) = splitter_error (splitters s m)) \<and> copy_status t = copy_status s"

lemma kept_refl [simp]: "kept s s"
  by (simp add: kept_def)

lemma kept_trans: "kept s t \<Longrightarrow> kept t u \<Longrightarrow> kept s u"
  by (simp add: kept_def)

lemma kept_sel:
  assumes "kept s t"
  shows "components t = components s" "module_queue t = module_queue s" "passthrough_error t = passthrough_error s"
    "needs_configuring t = needs_configuring s" "copy_status t = copy_status s"
    "enabled_flags (splitters t m) = enabled_flags (splitters s m)"
    "splitter_error (splitters t m) = splitter_error (splitters s m)"
    "port_type (ports t p) = port_type (ports s p)" "port_index (ports t p) = port_index (ports s p)"
    "port_enabled (ports t p) = port_enabled (ports s p)" "port_component (ports t p) = port_component (ports s p)"
    "port_capabilities (ports t p) = port_capabilities (ports s p)" "pf_send (ports t p) = pf_send (ports s p)"
    "buffer_header_callback (ports t p) = buffer_header_callback (ports s p)" "is_paused (ports t p) = is_paused (ports s p)"
  using assms plain_sel [of "ports t p" "ports s p"] by (simp_all add: kept_def)

lemma kept_upd_port: "(\<And>pt. plain (f pt) = plain pt) \<Longrightarrow> kept s (upd_port p f s)"
  by (simp add: kept_def upd_port_def)

lemma kept_upd_buf [simp]: "kept s (upd_buf b f s)"
  by (simp add: kept_def upd_buf_def)

text \<open>The operations on queues write to queues and headers only.\<close>

lemma queue_get_shape: "mmal_queue_get q s = Some (b, s') \<Longrightarrow> s' = s\<lparr>queues := queues s'\<rparr>"
  by (auto simp: mmal_queue_get_def upd_queue_def Let_def split: option.splits bind_splits)

lemma queue_put_shape:
  "mmal_queue_put q b s = s\<lparr>bufs := bufs (mmal_queue_put q b s), queues := queues (mmal_queue_put q b s)\<rparr>"
  by (simp add: mmal_queue_put_def upd_queue_def store_last_def set_next_def upd_buf_def Let_def
      split: option.split last_link.split)

lemma queue_get_module:
  fixes s :: "'a module_store_scheme"
  assumes "mmal_queue_get q s = Some (b, t)"
  shows "kept s t" "ports t = ports s" "module_store.more t = module_store.more s" "splitters t = splitters s"
    "bytes t = bytes s"
  using queue_get_shape [OF assms] by (cases s; cases t; simp add: kept_def)+

lemma queue_put_module:
  fixes s :: "'a module_store_scheme"
  shows "kept s (mmal_queue_put q b s)" "ports (mmal_queue_put q b s) = ports s"
    "module_store.more (mmal_queue_put q b s) = module_store.more s" "splitters (mmal_queue_put q b s) = splitters s"
    "bytes (mmal_queue_put q b s) = bytes s"
  by (subst queue_put_shape, simp add: kept_def)+

section \<open>A client that notes what it is given\<close>

type_synonym returned = "addr \<times> addr \<times> mmal_buffer_header"

definition noted :: "returned list \<Rightarrow> addr set" where
  "noted l = (fst \<circ> snd) ` set l"

lemma noted_simps [simp]: "noted [] = {}" "noted (l @ l') = noted l \<union> noted l'" "noted ((p, b, h) # l) = insert b (noted l)"
  by (auto simp: noted_def)

text \<open>
  It may write to any header that it has been given; \<open>same\<close> relates what the other headers are afterwards to what they were: it
  leaves them alone (\<open>noting_client\<close>), or at most takes and drops references to them (\<open>referring_client\<close>).
\<close>

definition noting_by ::
  "(mmal_buffer_header \<Rightarrow> mmal_buffer_header \<Rightarrow> bool) \<Rightarrow> ('a module_store_scheme) port_env \<Rightarrow> nat \<Rightarrow> ('a \<Rightarrow> returned list) \<Rightarrow> bool" where
  "noting_by same env n log \<longleftrightarrow>
     (\<forall>p b s. \<exists>t. on_buffer env n p b s = Some t \<and> kept s t \<and> ports t = ports s \<and> queues t = queues s \<and>
        splitters t = splitters s \<and> log (module_store.more t) = log (module_store.more s) @ [(p, b, bufs s b)] \<and>
        (\<forall>h. h \<notin> noted (log (module_store.more s)) \<and> h \<noteq> b \<longrightarrow> same (bufs t h) (bufs s h)))"

abbreviation noting_client :: "('a module_store_scheme) port_env \<Rightarrow> nat \<Rightarrow> ('a \<Rightarrow> returned list) \<Rightarrow> bool" where
  "noting_client \<equiv> noting_by (=)"

definition same_but_references :: "mmal_buffer_header \<Rightarrow> mmal_buffer_header \<Rightarrow> bool" where
  "same_but_references a b \<longleftrightarrow> a\<lparr>refcount := 0\<rparr> = b\<lparr>refcount := 0\<rparr>"

abbreviation referring_client :: "('a module_store_scheme) port_env \<Rightarrow> nat \<Rightarrow> ('a \<Rightarrow> returned list) \<Rightarrow> bool" where
  "referring_client \<equiv> noting_by same_but_references"

lemma callback_notes:
  assumes cl: "noting_by same env n log" and cb: "buffer_header_callback (ports s p) = Some (Client_bh_cb n)"
    and c: "transit_ok (Suc c) (ports s p)" "Suc c < 2147483647"
  obtains t where "mmal_port_buffer_header_callback env p b s = Some t" "kept s t" "transit_ok c (ports t p)"
    "\<And>q. q \<noteq> p \<Longrightarrow> ports t q = ports s q" "queues t = queues s" "splitters t = splitters s"
    "log (module_store.more t) = log (module_store.more s) @ [(p, b, bufs s b)]"
    "\<And>h. h \<notin> noted (log (module_store.more s)) \<Longrightarrow> h \<noteq> b \<Longrightarrow> same (bufs t h) (bufs s h)"
proof -
  obtain u where u: "on_buffer env n p b s = Some u" "kept s u" "ports u = ports s" "queues u = queues s"
    "splitters u = splitters s" "log (module_store.more u) = log (module_store.more s) @ [(p, b, bufs s b)]"
    "\<And>h. h \<notin> noted (log (module_store.more s)) \<Longrightarrow> h \<noteq> b \<Longrightarrow> same (bufs u h) (bufs s h)"
    using cl unfolding noting_by_def by blast
  let ?f = "\<lambda>pt. pt\<lparr>transit_buffer_headers := int c, transit_sema := (if c = 0 then 1 else 0)\<rparr>"
  have "transit_ok (Suc c) (ports u p)" using c(1) u(3) by simp
  then have dec: "in_transit_decrement p u = upd_port p ?f u" using c(2) by (rule in_transit_decrement_ok)
  have run: "mmal_port_buffer_header_callback env p b s = Some (upd_port p ?f u)"
    using cb u(1) by (simp add: mmal_port_buffer_header_callback_def call_bh_callback.simps dec)
  have k: "kept s (upd_port p ?f u)" by (rule kept_trans [OF u(2)]) (simp add: kept_upd_port)
  have m: "module_store.more (upd_port p ?f u) = module_store.more u" "splitters (upd_port p ?f u) = splitters u"
    by (simp_all add: upd_port_def)
  show ?thesis
    by (rule that [OF run k]) (simp_all add: transit_ok_def u m)
qed

section \<open>Sending\<close>

lemma update_stats_module:
  fixes s :: "'a module_store_scheme"
  shows "kept s (mmal_port_update_port_stats p d s)" "bufs (mmal_port_update_port_stats p d s) = bufs s"
    "queues (mmal_port_update_port_stats p d s) = queues s" "splitters (mmal_port_update_port_stats p d s) = splitters s"
    "module_store.more (mmal_port_update_port_stats p d s) = module_store.more s"
    "transit_ok c (ports (mmal_port_update_port_stats p d s) q) \<longleftrightarrow> transit_ok c (ports s q)"
proof -
  define t where "t = snd (vcos_getmicrosecs s)"
  obtain stc where g: "vcos_getmicrosecs s = (stc, t)" by (cases "vcos_getmicrosecs s") (simp add: t_def)
  have t: "t = s\<lparr>clock_readings := clock_readings t\<rparr>" using getmicrosecs_frame [of s] by (simp add: t_def)
  have k: "kept s t" by (subst t) (simp add: kept_def)
  have eq: "ports t = ports s" "bufs t = bufs s" "queues t = queues s" "splitters t = splitters s"
    "module_store.more t = module_store.more s" by (subst t, simp)+
  obtain f where f: "mmal_port_update_port_stats p d s = upd_port p f t" "\<And>pt. plain (f pt) = plain pt"
    "\<And>pt. transit_ok c (f pt) \<longleftrightarrow> transit_ok c pt" for c
    unfolding mmal_port_update_port_stats_def g Let_def by (cases d) (auto simp: transit_ok_def)
  show "kept s (mmal_port_update_port_stats p d s)" unfolding f(1) by (rule kept_trans [OF k]) (simp add: kept_upd_port f)
  show "bufs (mmal_port_update_port_stats p d s) = bufs s" "queues (mmal_port_update_port_stats p d s) = queues s"
    "splitters (mmal_port_update_port_stats p d s) = splitters s"
    "module_store.more (mmal_port_update_port_stats p d s) = module_store.more s"
    "transit_ok c (ports (mmal_port_update_port_stats p d s) q) \<longleftrightarrow> transit_ok c (ports s q)"
    unfolding f(1) by (simp_all add: eq f(3)) (simp_all add: upd_port_def eq f(3))
qed

text \<open>A port that takes buffers: the client behind it, the module's function and the count of buffers in transit.\<close>

definition taking :: "nat \<Rightarrow> nat \<Rightarrow> nat \<Rightarrow> addr \<Rightarrow> 'a module_store_scheme \<Rightarrow> bool" where
  "taking f n c p s \<longleftrightarrow> port_enabled (ports s p) \<and> \<not> is_paused (ports s p) \<and> pf_send (ports s p) = Some f \<and>
     buffer_header_callback (ports s p) = Some (Client_bh_cb n) \<and> transit_ok c (ports s p)"

lemma taking_kept: "taking f n c p s \<Longrightarrow> kept s t \<Longrightarrow> transit_ok c' (ports t p) \<Longrightarrow> taking f n c' p t"
  by (simp add: taking_def kept_sel)

lemma send_to_module:
  fixes s :: "'a module_store_scheme"
  assumes tk: "taking f n c p s" and c: "c + 1 < 2147483647"
    and d: "bh_data (bufs s b) \<noteq> None \<or> port_capabilities (ports s p) AND MMAL_PORT_CAPABILITY_PASSTHROUGH \<noteq> 0"
  obtains u where
    "mmal_port_send_buffer env (Some p) b s = do { (status, t) \<leftarrow> on_send env f p b u;
       Some (if status \<noteq> MMAL_SUCCESS then (status, in_transit_decrement p t)
             else (status, mmal_port_update_port_stats p MMAL_CORE_STATS_RX t)) }"
    "kept s u" "transit_ok (Suc c) (ports u p)" "\<And>q. q \<noteq> p \<Longrightarrow> ports u q = ports s q" "queues u = queues s"
    "splitters u = splitters s" "module_store.more u = module_store.more s" "\<And>h. h \<noteq> b \<Longrightarrow> bufs u h = bufs s h"
    "bufs u b = (if port_type (ports s p) = MMAL_PORT_TYPE_OUTPUT then (bufs s b)\<lparr>bh_length := 0\<rparr> else bufs s b)"
proof -
  define t where "t = (if port_type (ports s p) = MMAL_PORT_TYPE_OUTPUT \<and> bh_length (bufs s b) \<noteq> 0
                       then upd_buf b (\<lambda>h. h\<lparr>bh_length := 0\<rparr>) s else s)"
  have t: "kept s t" "ports t = ports s" "queues t = queues s" "splitters t = splitters s"
    "module_store.more t = module_store.more s"
    by (simp_all add: t_def) (simp_all add: upd_buf_def)
  let ?f = "\<lambda>pt. pt\<lparr>transit_buffer_headers := int c + 1, transit_sema := 0\<rparr>"
  have inc: "in_transit_increment p t = Some (upd_port p ?f t)"
    using tk c t(2) by (intro in_transit_increment_ok) (simp_all add: taking_def)
  have k: "kept s (upd_port p ?f t)" by (rule kept_trans [OF t(1)]) (simp add: kept_upd_port)
  have run: "mmal_port_send_buffer env (Some p) b s = do { (status, t) \<leftarrow> on_send env f p b (upd_port p ?f t);
       Some (if status \<noteq> MMAL_SUCCESS then (status, in_transit_decrement p t)
             else (status, mmal_port_update_port_stats p MMAL_CORE_STATS_RX t)) }"
    using tk d inc unfolding mmal_port_send_buffer_def option.case t_def [symmetric]
    by (auto simp: taking_def t intro!: Option.bind_cong)
  have len: "bh_length (bufs s b) = 0 \<Longrightarrow> bufs s b = (bufs s b)\<lparr>bh_length := 0\<rparr>" by simp
  show ?thesis
    by (rule that [OF run k])
      (use t len in \<open>auto simp: t_def transit_ok_def\<close>, auto simp: upd_port_def upd_buf_def)
qed

end
