(* ===== verification/PassThrough.thy ===== *)
theory PassThrough
  imports QueuedPorts
begin

text \<open>
  The pass-through component, \<^verbatim>\<open>mmal/components/passthrough.c\<close>: a buffer sent to the input port is replicated into a buffer sent
  to the output port as soon as there is one of each; the other buffers wait in the queues of the ports.
\<close>

definition PASSTHROUGH_PORTS_NUM :: u32 where "PASSTHROUGH_PORTS_NUM = 1"
definition PASSTHROUGH_FN :: nat where "PASSTHROUGH_FN = 2000"

section \<open>Operations\<close>

definition passthrough_component_destroy :: "addr \<Rightarrow> 'a module_store_scheme \<Rightarrow> mmal_status \<times> 'a module_store_scheme" where
  "passthrough_component_destroy k s = destroy_queued_component k s"

definition passthrough_port_enable ::
  "addr \<Rightarrow> bh_callback option \<Rightarrow> 'a module_store_scheme \<Rightarrow> (mmal_status \<times> 'a module_store_scheme) option" where
  "passthrough_port_enable p cb s = Some (MMAL_SUCCESS, s)"

definition passthrough_port_flush ::
  "('a module_store_scheme) port_env \<Rightarrow> addr \<Rightarrow> 'a module_store_scheme \<Rightarrow> (mmal_status \<times> 'a module_store_scheme) option" where
  "passthrough_port_flush env p s = map_option (Pair MMAL_SUCCESS) (flush_module_queue env p s)"

definition passthrough_port_disable ::
  "('a module_store_scheme) port_env \<Rightarrow> addr \<Rightarrow> 'a module_store_scheme \<Rightarrow> (mmal_status \<times> 'a module_store_scheme) option" where
  "passthrough_port_disable env p s = passthrough_port_flush env p s"

text \<open>Both buffers are there: the input is replicated into the output, and both go back.\<close>

definition passthrough_pair ::
  "('a module_store_scheme) port_env \<Rightarrow> addr \<Rightarrow> addr \<Rightarrow> addr \<Rightarrow> addr \<Rightarrow> addr \<Rightarrow> 'a module_store_scheme \<Rightarrow>
   (mmal_status \<times> 'a module_store_scheme) option" where
  "passthrough_pair env k in_port in_b out_port out_b s =
     (let (status, s) = mmal_buffer_header_replicate (Some out_b) (Some in_b) s in
      if status = MMAL_SUCCESS then do {
        let s = upd_buf in_b (\<lambda>h. h\<lparr>bh_length := 0\<rparr>) s;
        s \<leftarrow> mmal_port_buffer_header_callback env in_port in_b s;
        s \<leftarrow> mmal_port_buffer_header_callback env out_port out_b s;
        Some (MMAL_SUCCESS, s)
      } else do {
        let s = mmal_queue_put (module_queue s in_port) (Some in_b) s;
        let s = mmal_queue_put (module_queue s out_port) (Some out_b) s;
        (status, s) \<leftarrow> mmal_event_error_send env (Some k) status s;
        m \<leftarrow> comp_module (components s k);
        Some (MMAL_SUCCESS, if status \<noteq> MMAL_SUCCESS then s else s\<lparr>passthrough_error := (passthrough_error s)(m := True)\<rparr>)
      })"

text \<open>
  The two halves of sending: a buffer is looked for in the queue of the matching port, then the buffer is queued or goes with its
  partner.  A send on the input port and one on the output port hold different locks, so other sends can come in between.
\<close>

definition matching_port :: "addr \<Rightarrow> 'a module_store_scheme \<Rightarrow> addr" where
  "matching_port p s =
     (let k = components s (port_component (ports s p)); i = unat (port_index (ports s p))
      in if port_type (ports s p) = MMAL_PORT_TYPE_INPUT then comp_output k ! i else comp_input k ! i)"

definition passthrough_take :: "addr \<Rightarrow> 'a module_store_scheme \<Rightarrow> (addr option \<times> 'a module_store_scheme) option" where
  "passthrough_take p s = mmal_queue_get (module_queue s (matching_port p s)) s"

definition passthrough_finish ::
  "('a module_store_scheme) port_env \<Rightarrow> addr \<Rightarrow> addr \<Rightarrow> addr option \<Rightarrow> 'a module_store_scheme \<Rightarrow>
   (mmal_status \<times> 'a module_store_scheme) option" where
  "passthrough_finish env p b other s =
     (let k = port_component (ports s p); q = matching_port p s
      in case other of
           None \<Rightarrow> Some (MMAL_SUCCESS, mmal_queue_put (module_queue s p) (Some b) s)
         | Some c \<Rightarrow>
             if port_type (ports s p) = MMAL_PORT_TYPE_INPUT then passthrough_pair env k p b q c s
             else passthrough_pair env k q c p b s)"

definition passthrough_port_send ::
  "('a module_store_scheme) port_env \<Rightarrow> addr \<Rightarrow> addr \<Rightarrow> 'a module_store_scheme \<Rightarrow> (mmal_status \<times> 'a module_store_scheme) option" where
  "passthrough_port_send env p b s = do {
     m \<leftarrow> comp_module (components s (port_component (ports s p)));
     if passthrough_error s m then Some (MMAL_SUCCESS, mmal_queue_put (module_queue s p) (Some b) s)
     else do { (other, s) \<leftarrow> passthrough_take p s; passthrough_finish env p b other s }
   }"

definition passthrough_port_format_commit :: "addr \<Rightarrow> 'a module_store_scheme \<Rightarrow> (mmal_status \<times> 'a module_store_scheme) option" where
  "passthrough_port_format_commit p s =
     (if port_type (ports s p) = MMAL_PORT_TYPE_OUTPUT then Some (MMAL_EINVAL, s)
      else
        let other = comp_output (components s (port_component (ports s p))) ! unat (port_index (ports s p))
        in mmal_format_full_copy (port_format (ports s other)) (port_format (ports s p)) s)"

text \<open>Both \<open>in\<close> and \<open>out\<close> are the input port: the output port is left out.\<close>

definition passthrough_port_parameter_set ::
  "addr \<Rightarrow> mmal_parameter \<Rightarrow> 'a module_store_scheme \<Rightarrow> (mmal_status \<times> 'a module_store_scheme) option" where
  "passthrough_port_parameter_set p param s =
     (let ins = comp_input (components s (port_component (ports s p)));
          in_port = ins ! unat (port_index (ports s p)); out_port = ins ! unat (port_index (ports s p))
      in case raised_requirements (ports s p) param of
           None \<Rightarrow> Some (MMAL_ENOSYS, s)
         | Some req \<Rightarrow>
             Some (MMAL_SUCCESS, upd_port out_port (put_requirements req) (upd_port in_port (put_requirements req) s)))"

definition passthrough_functions :: "mmal_port \<Rightarrow> mmal_port" where
  "passthrough_functions pt = pt\<lparr>pf_enable := Some (Module_fn PASSTHROUGH_FN), pf_disable := Some (Module_fn PASSTHROUGH_FN),
     pf_flush := Some PASSTHROUGH_FN, pf_send := Some PASSTHROUGH_FN, pf_set_format := Some PASSTHROUGH_FN,
     pf_parameter_set := Some (Module_fn PASSTHROUGH_FN), buffer_num_min := 1, buffer_num_recommended := 0\<rparr>"

definition passthrough_output_functions :: "mmal_port \<Rightarrow> mmal_port" where
  "passthrough_output_functions pt = (passthrough_functions pt)\<lparr>port_capabilities := MMAL_PORT_CAPABILITY_PASSTHROUGH\<rparr>"

definition mmal_component_create_passthrough ::
  "string \<Rightarrow> addr \<Rightarrow> 'a module_store_scheme \<Rightarrow> (mmal_status \<times> 'a module_store_scheme) option" where
  "mmal_component_create_passthrough name k s =
     (let (module, s) = vcos_malloc 4 s;
          s = upd_comp k (\<lambda>d. d\<lparr>comp_module := module\<rparr>) s
      in case module of
           None \<Rightarrow> Some (MMAL_ENOMEM, s)
         | Some m \<Rightarrow>
             let s = s\<lparr>passthrough_error := (passthrough_error s)(m := False)\<rparr>;
                 s = upd_comp k (\<lambda>d. d\<lparr>comp_pf_destroy := Some PASSTHROUGH_FN\<rparr>) s;
                 (made, s) = create_inputs k PASSTHROUGH_PORTS_NUM 4 passthrough_functions s
             in if \<not> made then Some (MMAL_ENOMEM, snd (passthrough_component_destroy k s))
                else
                  let (made, s) = create_outputs k PASSTHROUGH_PORTS_NUM 4 passthrough_output_functions s
                  in if \<not> made then Some (MMAL_ENOMEM, snd (passthrough_component_destroy k s))
                     else Some (MMAL_SUCCESS, s))"

text \<open>What the name of its functions means.\<close>

definition passthrough_env :: "('a module_store_scheme) port_env \<Rightarrow> ('a module_store_scheme) port_env" where
  "passthrough_env env = env\<lparr>
     on_set_format := (\<lambda>n p s. if n = PASSTHROUGH_FN then passthrough_port_format_commit p s else on_set_format env n p s),
     on_enable := (\<lambda>n p cb s. if n = PASSTHROUGH_FN then passthrough_port_enable p cb s else on_enable env n p cb s),
     on_disable := (\<lambda>n p s. if n = PASSTHROUGH_FN then passthrough_port_disable env p s else on_disable env n p s),
     on_send := (\<lambda>n p b s. if n = PASSTHROUGH_FN then passthrough_port_send env p b s else on_send env n p b s),
     on_flush := (\<lambda>n p s. if n = PASSTHROUGH_FN then passthrough_port_flush env p s else on_flush env n p s),
     on_parameter_set := (\<lambda>n p param s. if n = PASSTHROUGH_FN then passthrough_port_parameter_set p param s
       else on_parameter_set env n p param s),
     on_component_destroy := (\<lambda>n k s. if n = PASSTHROUGH_FN then passthrough_component_destroy k s
       else on_component_destroy env n k s),
     on_create := (\<lambda>n name k s. if n = PASSTHROUGH_FN then mmal_component_create_passthrough name k s
       else on_create env n name k s)\<rparr>"

section \<open>One pair of buffers\<close>

text \<open>A header without its link, what the client is given of an input buffer and of the output buffer that refers to it.\<close>

definition bare :: "mmal_buffer_header \<Rightarrow> mmal_buffer_header" where
  "bare h = h\<lparr>bh_next := None\<rparr>"

definition passed_in :: "mmal_buffer_header \<Rightarrow> mmal_buffer_header" where
  "passed_in h = h\<lparr>refcount := s32 (refcount h + 1), bh_length := 0\<rparr>"

definition passed_out :: "addr \<Rightarrow> mmal_buffer_header \<Rightarrow> mmal_buffer_header \<Rightarrow> mmal_buffer_header" where
  "passed_out b h h' = copy_replicated h (h'\<lparr>reference := Some b\<rparr>)"

lemma bare_passed:
  "bare h = bare g \<Longrightarrow> bare (passed_in h) = passed_in (bare g)"
  "bare h = bare g \<Longrightarrow> bare h' = (bare g')\<lparr>bh_length := n\<rparr> \<Longrightarrow> bare (passed_out b h h') = passed_out b (bare g) (bare g')"
  by (cases h; cases g; simp add: bare_def passed_in_def; fail)
    (cases h; cases g; cases h'; cases g'; simp add: bare_def passed_out_def copy_replicated_def)

lemma pair_runs:
  assumes cl: "noting_client env n log" and io: "i \<noteq> p" "b \<noteq> c"
    and cb: "buffer_header_callback (ports s i) = Some (Client_bh_cb n)" "buffer_header_callback (ports s p) = Some (Client_bh_cb n)"
    and tr: "transit_ok (Suc x) (ports s i)" "transit_ok (Suc y) (ports s p)" "Suc x < 2147483647" "Suc y < 2147483647"
    and hd: "reference (bufs s c) = None" "c \<notin> noted (log (module_store.more s))"
  obtains t where "passthrough_pair env k i b p c s = Some (MMAL_SUCCESS, t)" "kept s t" "transit_ok x (ports t i)"
    "transit_ok y (ports t p)" "queues t = queues s"
    "log (module_store.more t) = log (module_store.more s) @
       [(i, b, passed_in (bufs s b)), (p, c, passed_out b (bufs s b) (bufs s c))]"
    "\<And>h. h \<notin> noted (log (module_store.more s)) \<Longrightarrow> h \<noteq> b \<Longrightarrow> h \<noteq> c \<Longrightarrow> bufs t h = bufs s h"
proof -
  define u where "u = upd_buf b (\<lambda>h. h\<lparr>bh_length := 0\<rparr>) (snd (mmal_buffer_header_replicate (Some c) (Some b) s))"
  have rep: "mmal_buffer_header_replicate (Some c) (Some b) s =
      (MMAL_SUCCESS, snd (mmal_buffer_header_replicate (Some c) (Some b) s))"
    using hd(1) by (simp add: mmal_buffer_header_replicate_def Let_def)
  have u: "u = s\<lparr>bufs := (bufs s)(b := passed_in (bufs s b), c := passed_out b (bufs s b) (bufs s c))\<rparr>"
    using hd(1) io by (simp add: u_def mmal_buffer_header_replicate_def mmal_buffer_header_acquire_def Let_def upd_buf_def
        passed_in_def passed_out_def copy_replicated_def fun_eq_iff)
  have ku: "kept s u" by (simp add: u kept_def)
  obtain v where v: "mmal_port_buffer_header_callback env i b u = Some v" "kept u v" "transit_ok x (ports v i)"
    "\<And>q. q \<noteq> i \<Longrightarrow> ports v q = ports u q" "queues v = queues u"
    "log (module_store.more v) = log (module_store.more u) @ [(i, b, bufs u b)]"
    "\<And>h. h \<notin> noted (log (module_store.more u)) \<Longrightarrow> h \<noteq> b \<Longrightarrow> bufs v h = bufs u h"
    by (rule callback_notes [OF cl, of u i x b]) (use cb tr in \<open>auto simp: u\<close>)
  have "buffer_header_callback (ports v p) = Some (Client_bh_cb n)" "transit_ok (Suc y) (ports v p)"
    using v(4) [of p] io cb tr by (simp_all add: u)
  then obtain t where t: "mmal_port_buffer_header_callback env p c v = Some t" "kept v t" "transit_ok y (ports t p)"
    "\<And>q. q \<noteq> p \<Longrightarrow> ports t q = ports v q" "queues t = queues v"
    "log (module_store.more t) = log (module_store.more v) @ [(p, c, bufs v c)]"
    "\<And>h. h \<notin> noted (log (module_store.more v)) \<Longrightarrow> h \<noteq> c \<Longrightarrow> bufs t h = bufs v h"
    by (rule callback_notes [OF cl, of v p y c]) (use tr in auto)
  have c: "bufs v c = passed_out b (bufs s b) (bufs s c)" using v(7) [of c] hd(2) io by (simp add: u)
  have run: "passthrough_pair env k i b p c s = Some (MMAL_SUCCESS, t)"
    unfolding passthrough_pair_def by (subst rep) (simp add: u_def [symmetric] v(1) t(1))
  show ?thesis
  proof (rule that [OF run])
    show "kept s t" using ku v(2) t(2) kept_trans by blast
    show "transit_ok x (ports t i)" using t(4) [of i] v(3) io by simp
    show "log (module_store.more t) = log (module_store.more s) @
       [(i, b, passed_in (bufs s b)), (p, c, passed_out b (bufs s b) (bufs s c))]"
      using t(6) v(6) c io by (simp add: u)
    show "bufs t h = bufs s h" if "h \<notin> noted (log (module_store.more s))" "h \<noteq> b" "h \<noteq> c" for h
      using that v(6,7) t(7) by (simp add: u)
  qed (use t v in \<open>simp_all add: u\<close>)
qed

section \<open>Any sequence of buffers\<close>

text \<open>The component \<open>k\<close> with module \<open>m\<close>, its ports \<open>i\<close> and \<open>p\<close> and their queues.\<close>

definition pass_set_up :: "addr \<Rightarrow> addr \<Rightarrow> addr \<Rightarrow> addr \<Rightarrow> addr \<Rightarrow> addr \<Rightarrow> 'a module_store_scheme \<Rightarrow> bool" where
  "pass_set_up k m i p qi qp s \<longleftrightarrow> i \<noteq> p \<and> qi \<noteq> qp \<and> comp_module (components s k) = Some m \<and> \<not> passthrough_error s m \<and>
     comp_input (components s k) = [i] \<and> comp_output (components s k) = [p] \<and>
     module_queue s i = Some qi \<and> module_queue s p = Some qp \<and>
     port_type (ports s i) = MMAL_PORT_TYPE_INPUT \<and> port_type (ports s p) = MMAL_PORT_TYPE_OUTPUT \<and>
     port_index (ports s i) = 0 \<and> port_index (ports s p) = 0 \<and>
     port_component (ports s i) = k \<and> port_component (ports s p) = k \<and>
     port_capabilities (ports s p) = MMAL_PORT_CAPABILITY_PASSTHROUGH"

lemma pass_set_up_kept: "pass_set_up k m i p qi qp s \<Longrightarrow> kept s t \<Longrightarrow> pass_set_up k m i p qi qp t"
  by (simp add: pass_set_up_def kept_sel)

text \<open>
  The buffers that wait in the queues.  \<open>B\<close> holds the headers as they were at the start: one that the client was not given yet is
  as it was, but for its link and the length of a waiting output buffer.
\<close>

definition pass_waits ::
  "('a \<Rightarrow> returned list) \<Rightarrow> (addr \<Rightarrow> mmal_buffer_header) \<Rightarrow> nat \<Rightarrow> addr \<Rightarrow> addr \<Rightarrow> addr \<Rightarrow> addr \<Rightarrow> 'a module_store_scheme \<Rightarrow>
   addr list \<Rightarrow> addr list \<Rightarrow> bool" where
  "pass_waits log B n i p qi qp s ins outs \<longleftrightarrow>
     taking PASSTHROUGH_FN n (length ins) i s \<and> taking PASSTHROUGH_FN n (length outs) p s \<and>
     queue_rep qi s ins \<and> queue_rep qp s outs \<and> set ins \<inter> set outs = {} \<and>
     (set ins \<union> set outs) \<inter> noted (log (module_store.more s)) = {} \<and> (\<forall>c\<in>set outs. reference (B c) = None) \<and>
     (\<forall>h. h \<notin> noted (log (module_store.more s)) \<longrightarrow>
        bare (bufs s h) = (if h \<in> set outs then (bare (B h))\<lparr>bh_length := 0\<rparr> else bare (B h)))"

lemma bare_sel: "bare a = bare b \<Longrightarrow> bh_data a = bh_data b \<and> reference a = reference b"
  by (cases a; cases b; simp add: bare_def)

lemma bare_length: "bare a = bare b \<Longrightarrow> bare (a\<lparr>bh_length := n\<rparr>) = (bare b)\<lparr>bh_length := n\<rparr>"
  by (cases a; cases b; simp add: bare_def)

lemma bare_put: "bare (bufs (mmal_queue_put (Some q) (Some b) s) h) = bare (bufs s h)"
  using put_only_links [of q b s h] by (auto simp: bare_def)

lemma get_other:
  "mmal_queue_get (Some q) s = Some (b, t) \<Longrightarrow> q' \<noteq> q \<Longrightarrow> queues t q' = queues s q'"
  by (auto simp: mmal_queue_get_def Let_def split: option.splits bind_splits)

lemma queue_rep_same: "queue_rep q s xs \<Longrightarrow> queues t = queues s \<Longrightarrow> (\<And>h. h \<in> set xs \<Longrightarrow> bufs t h = bufs s h) \<Longrightarrow> queue_rep q t xs"
  by (rule queue_rep_frame) simp_all

lemma waits_stats:
  assumes "pass_waits log B n i p qi qp t ins outs" "kept s t"
  shows "pass_waits log B n i p qi qp (mmal_port_update_port_stats q d t) ins outs"
    "kept s (mmal_port_update_port_stats q d t)"
proof -
  let ?t = "mmal_port_update_port_stats q d t"
  note u = update_stats_module [where s = t and p = q and d = d]
  have "queue_rep qi ?t ins" "queue_rep qp ?t outs"
    using assms(1) u(2,3) queue_rep_same [where s = t and t = ?t] by (auto simp: pass_waits_def)
  moreover have "taking PASSTHROUGH_FN n (length ins) i ?t" "taking PASSTHROUGH_FN n (length outs) p ?t"
    using assms(1) taking_kept [OF _ u(1)] u(6) by (auto simp: pass_waits_def taking_def)
  ultimately show "pass_waits log B n i p qi qp ?t ins outs" using assms(1) by (simp add: pass_waits_def u)
  show "kept s ?t" by (rule kept_trans [OF assms(2) u(1)])
qed

text \<open>A buffer whose partner is not there yet is queued.\<close>

lemma input_waits:
  assumes "pass_set_up k m i p qi qp s" "queue_rep qp s []"
  shows "passthrough_port_send env i b s = Some (MMAL_SUCCESS, mmal_queue_put (Some qi) (Some b) s)"
  using assms queue_rep_get_Nil [OF assms(2)] by (simp add: passthrough_port_send_def passthrough_take_def passthrough_finish_def matching_port_def pass_set_up_def Let_def)

lemma output_waits:
  assumes "pass_set_up k m i p qi qp s" "queue_rep qi s []"
  shows "passthrough_port_send env p c s = Some (MMAL_SUCCESS, mmal_queue_put (Some qp) (Some c) s)"
  using assms queue_rep_get_Nil [OF assms(2)] by (simp add: passthrough_port_send_def passthrough_take_def passthrough_finish_def matching_port_def pass_set_up_def Let_def)

lemma input_pairs:
  assumes "pass_set_up k m i p qi qp s" "mmal_queue_get (Some qp) s = Some (Some c, t)"
  shows "passthrough_port_send env i b s = passthrough_pair env k i b p c t"
  using assms queue_get_module(2) [OF assms(2)] kept_sel(1) [OF queue_get_module(1) [OF assms(2)]]
  by (simp add: passthrough_port_send_def passthrough_take_def passthrough_finish_def matching_port_def pass_set_up_def Let_def)

lemma output_pairs:
  assumes "pass_set_up k m i p qi qp s" "mmal_queue_get (Some qi) s = Some (Some b, t)"
  shows "passthrough_port_send env p c s = passthrough_pair env k i b p c t"
  using assms queue_get_module(2) [OF assms(2)] kept_sel(1) [OF queue_get_module(1) [OF assms(2)]]
  by (simp add: passthrough_port_send_def passthrough_take_def passthrough_finish_def matching_port_def pass_set_up_def Let_def)

text \<open>What the client is given, without the links.\<close>

definition seen :: "('a \<Rightarrow> returned list) \<Rightarrow> 'a module_store_scheme \<Rightarrow> returned list" where
  "seen log s = map (\<lambda>(p, b, h). (p, b, bare h)) (log (module_store.more s))"

definition pair_seen :: "(addr \<Rightarrow> mmal_buffer_header) \<Rightarrow> addr \<Rightarrow> addr \<Rightarrow> addr \<Rightarrow> addr \<Rightarrow> returned list" where
  "pair_seen B i p b c = [(i, b, passed_in (bare (B b))), (p, c, passed_out b (bare (B b)) (bare (B c)))]"

lemma noted_seen: "seen log t = seen log s @ l \<Longrightarrow> noted (log (module_store.more t)) = noted (log (module_store.more s)) \<union> noted l"
proof -
  have "noted (map (\<lambda>(p, b, h). (p, b, bare h)) l) = noted l" for l by (force simp: noted_def)
  then show "seen log t = seen log s @ l \<Longrightarrow> ?thesis" by (metis seen_def noted_simps(2))
qed

text \<open>A pair is given to the client; the state before it has the two buffers out of the queues but still in transit.\<close>

lemma pair_waits:
  assumes cl: "noting_client env n log" and su: "pass_set_up k m i p qi qp s"
    and tk: "taking PASSTHROUGH_FN n (Suc (length ins)) i s" "taking PASSTHROUGH_FN n (Suc (length outs)) p s"
    and room: "Suc (length ins) < 2147483647" "Suc (length outs) < 2147483647"
    and q: "queue_rep qi s ins" "queue_rep qp s outs"
    and f: "({b, c} \<union> set ins \<union> set outs) \<inter> noted (log (module_store.more s)) = {}" "distinct ([b, c] @ ins @ outs)"
      "\<forall>c'\<in>set (c # outs). reference (B c') = None"
    and B: "\<And>h. h \<notin> noted (log (module_store.more s)) \<Longrightarrow>
       bare (bufs s h) = (if h \<in> insert c (set outs) then (bare (B h))\<lparr>bh_length := 0\<rparr> else bare (B h))"
  obtains t where "passthrough_pair env k i b p c s = Some (MMAL_SUCCESS, t)" "kept s t"
    "pass_waits log B n i p qi qp t ins outs" "seen log t = seen log s @ pair_seen B i p b c"
proof -
  have io: "i \<noteq> p" using su by (simp add: pass_set_up_def)
  have bc: "b \<noteq> c" "bare (bufs s b) = bare (B b)" "bare (bufs s c) = (bare (B c))\<lparr>bh_length := 0\<rparr>" using f B by auto
  have r: "reference (bufs s c) = None" using arg_cong [OF bc(3), of reference] f(3) by (simp add: bare_def)
  obtain t where t: "passthrough_pair env k i b p c s = Some (MMAL_SUCCESS, t)" "kept s t" "transit_ok (length ins) (ports t i)"
    "transit_ok (length outs) (ports t p)" "queues t = queues s"
    "log (module_store.more t) = log (module_store.more s) @
       [(i, b, passed_in (bufs s b)), (p, c, passed_out b (bufs s b) (bufs s c))]"
    "\<And>h. h \<notin> noted (log (module_store.more s)) \<Longrightarrow> h \<noteq> b \<Longrightarrow> h \<noteq> c \<Longrightarrow> bufs t h = bufs s h"
    by (rule pair_runs [OF cl io bc(1), of s "length ins" "length outs"]) (use tk room r f in \<open>auto simp: taking_def\<close>)
  have "queue_rep qi t ins" "queue_rep qp t outs"
    using q f t(5,7) by (auto intro!: queue_rep_same [where s = s])
  moreover have "taking PASSTHROUGH_FN n (length ins) i t" "taking PASSTHROUGH_FN n (length outs) p t"
    using tk t(2-4) taking_kept by blast+
  moreover have "(set ins \<union> set outs) \<inter> noted (log (module_store.more t)) = {}" using f t(6) by auto
  ultimately have w: "pass_waits log B n i p qi qp t ins outs"
    using f B t(6,7) by (auto simp: pass_waits_def)
  have "seen log t = seen log s @ pair_seen B i p b c"
    using t(6) bare_passed(1) [OF bc(2)] bare_passed(2) [OF bc(2,3)] by (simp add: seen_def pair_seen_def)
  with t w show ?thesis using that by blast
qed


text \<open>Sending to the input port, then to the output port, whether or not the partner is there.\<close>

lemma send_input:
  assumes cl: "noting_client env n log" and su: "pass_set_up k m i p qi qp s"
    and w: "pass_waits log B n i p qi qp s ins outs" and b: "b \<notin> noted (log (module_store.more s)) \<union> set ins \<union> set outs"
    and d: "bh_data (B b) \<noteq> None" and room: "length ins + 2 < 2147483647" "length outs + 2 < 2147483647"
  obtains t where "mmal_port_send_buffer (passthrough_env env) (Some i) b s = Some (MMAL_SUCCESS, t)" "kept s t"
    "case outs of [] \<Rightarrow> pass_waits log B n i p qi qp t (ins @ [b]) [] \<and> seen log t = seen log s
     | c # outs' \<Rightarrow> pass_waits log B n i p qi qp t ins outs' \<and> seen log t = seen log s @ pair_seen B i p b c"
proof -
  have tk: "taking PASSTHROUGH_FN n (length ins) i s" "taking PASSTHROUGH_FN n (length outs) p s"
    and q: "queue_rep qi s ins" "queue_rep qp s outs"
    and B: "\<And>h. h \<notin> noted (log (module_store.more s)) \<Longrightarrow>
       bare (bufs s h) = (if h \<in> set outs then (bare (B h))\<lparr>bh_length := 0\<rparr> else bare (B h))"
    and f: "(set ins \<union> set outs) \<inter> noted (log (module_store.more s)) = {}" "\<forall>c\<in>set outs. reference (B c) = None"
      "set ins \<inter> set outs = {}" using w by (simp_all add: pass_waits_def)
  have io: "i \<noteq> p" "port_type (ports s i) = MMAL_PORT_TYPE_INPUT" using su by (simp_all add: pass_set_up_def)
  have "bh_data (bufs s b) = bh_data (B b)" using arg_cong [OF B [of b], of bh_data] b by (simp add: bare_def)
  then have data: "bh_data (bufs s b) \<noteq> None" using d by simp
  obtain u where u: "mmal_port_send_buffer (passthrough_env env) (Some i) b s =
      do { (status, t) \<leftarrow> on_send (passthrough_env env) PASSTHROUGH_FN i b u;
       Some (if status \<noteq> MMAL_SUCCESS then (status, in_transit_decrement i t)
             else (status, mmal_port_update_port_stats i MMAL_CORE_STATS_RX t)) }"
    "kept s u" "transit_ok (Suc (length ins)) (ports u i)" "\<And>q. q \<noteq> i \<Longrightarrow> ports u q = ports s q" "queues u = queues s"
    "module_store.more u = module_store.more s" "\<And>h. h \<noteq> b \<Longrightarrow> bufs u h = bufs s h" "bufs u b = bufs s b"
    by (rule send_to_module [OF tk(1), of b "passthrough_env env"]) (use data room io in auto)
  have bu: "bufs u = bufs s" using u(7,8) by (metis ext)
  have su': "pass_set_up k m i p qi qp u" by (rule pass_set_up_kept [OF su u(2)])
  have q': "queue_rep qi u ins" "queue_rep qp u outs" 
    using q u(5) bu by (auto intro!: queue_rep_same [where s = s])
  have tk': "taking PASSTHROUGH_FN n (Suc (length ins)) i u" "taking PASSTHROUGH_FN n (length outs) p u"
    using taking_kept [OF tk(1) u(2,3)] taking_kept [OF tk(2) u(2)] u(4) [of p] io tk(2) by (auto simp: taking_def)
  have send: "on_send (passthrough_env env) PASSTHROUGH_FN i b u = passthrough_port_send env i b u"
    by (simp add: passthrough_env_def)
  note stats = waits_stats [where q = i and d = MMAL_CORE_STATS_RX]
  have seen: "seen log (mmal_port_update_port_stats i MMAL_CORE_STATS_RX v) = seen log v" for v
    by (simp add: seen_def update_stats_module)
  show ?thesis
  proof (cases outs)
    case Nil
    let ?v = "mmal_queue_put (Some qi) (Some b) u"
    have v: "kept u ?v" "ports ?v = ports u" "module_store.more ?v = module_store.more u" by (rule queue_put_module)+
    have "queue_rep qi ?v (ins @ [b])" "queue_rep qp ?v []"
      using queue_rep_put [OF q'(1)] queue_rep_put_other [OF q'(1), of qp "[]" b] q' b su Nil
      by (simp_all add: pass_set_up_def)
    then have "pass_waits log B n i p qi qp ?v (ins @ [b]) []"
      using tk' B b f Nil v bare_put [of qi b u] bu u(6) by (auto simp: pass_waits_def taking_def)
    from stats [OF this kept_trans [OF u(2) v(1)]] show ?thesis
      using that [of "mmal_port_update_port_stats i MMAL_CORE_STATS_RX ?v"] u(1,6) v(3) Nil
        input_waits [OF su', of env b] q'(2) send by (simp add: seen) (simp add: seen_def)
  next
    case (Cons c outs')
    have "queue_rep qp u (c # outs')" using q'(2) Cons by simp
    then obtain v where v: "mmal_queue_get (Some qp) u = Some (Some c, v)" "queue_rep qp v outs'" "bufs v = bufs u"
      using queue_rep_get_Cons by blast
    note vm = queue_get_module [OF v(1)]
    have "queues v qi = queues u qi" using get_other [OF v(1), of qi] su by (simp add: pass_set_up_def)
    then have rep: "queue_rep qi v ins" using q'(1) v(3) by (simp add: queue_rep_def)
    have dist: "distinct (ins @ c # outs')" using q Cons f(3) by (auto simp: queue_rep_def)
    have tkv: "taking PASSTHROUGH_FN n (Suc (length ins)) i v" "taking PASSTHROUGH_FN n (Suc (length outs')) p v"
      using tk' vm(2) Cons by (simp_all add: taking_def)
    have fv: "({b, c} \<union> set ins \<union> set outs') \<inter> noted (log (module_store.more v)) = {}" "distinct ([b, c] @ ins @ outs')"
      "\<forall>c'\<in>set (c # outs'). reference (B c') = None"
      using b f Cons dist by (auto simp: vm(3) u(6))
    have Bv: "bare (bufs v h) = (if h \<in> insert c (set outs') then (bare (B h))\<lparr>bh_length := 0\<rparr> else bare (B h))"
      if "h \<notin> noted (log (module_store.more v))" for h
      using B [of h] that Cons by (simp add: vm(3) u(6) v(3) bu)
    obtain t where t: "passthrough_pair env k i b p c v = Some (MMAL_SUCCESS, t)" "kept v t"
      "pass_waits log B n i p qi qp t ins outs'" "seen log t = seen log v @ pair_seen B i p b c"
      by (rule pair_waits [OF cl pass_set_up_kept [OF su' vm(1)] tkv _ _ rep v(2) fv Bv])
        (use room Cons in simp_all)
    have k: "kept s t" using u(2) vm(1) t(2) kept_trans by blast
    from stats [OF t(3) k] show ?thesis
      using that [of "mmal_port_update_port_stats i MMAL_CORE_STATS_RX t"] u(1) t(1,4) Cons vm(3) u(6)
        input_pairs [OF su' v(1), of env b] send by (simp add: seen) (simp add: seen_def)
  qed
qed


lemma send_output:
  assumes cl: "noting_client env n log" and su: "pass_set_up k m i p qi qp s"
    and w: "pass_waits log B n i p qi qp s ins outs" and c: "c \<notin> noted (log (module_store.more s)) \<union> set ins \<union> set outs"
    and d: "reference (B c) = None" and room: "length ins + 2 < 2147483647" "length outs + 2 < 2147483647"
  obtains t where "mmal_port_send_buffer (passthrough_env env) (Some p) c s = Some (MMAL_SUCCESS, t)" "kept s t"
    "case ins of [] \<Rightarrow> pass_waits log B n i p qi qp t [] (outs @ [c]) \<and> seen log t = seen log s
     | b # ins' \<Rightarrow> pass_waits log B n i p qi qp t ins' outs \<and> seen log t = seen log s @ pair_seen B i p b c"
proof -
  have tk: "taking PASSTHROUGH_FN n (length ins) i s" "taking PASSTHROUGH_FN n (length outs) p s"
    and q: "queue_rep qi s ins" "queue_rep qp s outs"
    and B: "\<And>h. h \<notin> noted (log (module_store.more s)) \<Longrightarrow>
       bare (bufs s h) = (if h \<in> set outs then (bare (B h))\<lparr>bh_length := 0\<rparr> else bare (B h))"
    and f: "(set ins \<union> set outs) \<inter> noted (log (module_store.more s)) = {}" "\<forall>c\<in>set outs. reference (B c) = None"
      "set ins \<inter> set outs = {}" using w by (simp_all add: pass_waits_def)
  have io: "i \<noteq> p" "port_type (ports s p) = MMAL_PORT_TYPE_OUTPUT"
    and cap: "port_capabilities (ports s p) AND MMAL_PORT_CAPABILITY_PASSTHROUGH \<noteq> 0"
    using su by (simp_all add: pass_set_up_def MMAL_PORT_CAPABILITY_PASSTHROUGH_def)
  obtain u where u: "mmal_port_send_buffer (passthrough_env env) (Some p) c s =
      do { (status, t) \<leftarrow> on_send (passthrough_env env) PASSTHROUGH_FN p c u;
       Some (if status \<noteq> MMAL_SUCCESS then (status, in_transit_decrement p t)
             else (status, mmal_port_update_port_stats p MMAL_CORE_STATS_RX t)) }"
    "kept s u" "transit_ok (Suc (length outs)) (ports u p)" "\<And>q. q \<noteq> p \<Longrightarrow> ports u q = ports s q" "queues u = queues s"
    "module_store.more u = module_store.more s" "\<And>h. h \<noteq> c \<Longrightarrow> bufs u h = bufs s h"
    "bufs u c = (bufs s c)\<lparr>bh_length := 0\<rparr>"
    by (rule send_to_module [OF tk(2), of c "passthrough_env env"]) (use cap room io in auto)
  have Bu: "bare (bufs u h) = (if h \<in> insert c (set outs) then (bare (B h))\<lparr>bh_length := 0\<rparr> else bare (B h))"
    if "h \<notin> noted (log (module_store.more s))" for h
    using B [OF that] u(7) [of h] u(8) c bare_length [of "bufs s c" "B c" 0] by (cases "h = c") auto
  have su': "pass_set_up k m i p qi qp u" by (rule pass_set_up_kept [OF su u(2)])
  have "bufs u h = bufs s h" if "h \<in> set ins \<union> set outs" for h using u(7) [of h] that c by auto
  then have q': "queue_rep qi u ins" "queue_rep qp u outs"
    using q u(5) by (auto intro!: queue_rep_same [where s = s])
  have tk': "taking PASSTHROUGH_FN n (length ins) i u" "taking PASSTHROUGH_FN n (Suc (length outs)) p u"
    using taking_kept [OF tk(1) u(2)] u(4) [of i] io tk(1) taking_kept [OF tk(2) u(2,3)] by (auto simp: taking_def)
  have send: "on_send (passthrough_env env) PASSTHROUGH_FN p c u = passthrough_port_send env p c u"
    by (simp add: passthrough_env_def)
  note stats = waits_stats [where q = p and d = MMAL_CORE_STATS_RX]
  have seen: "seen log (mmal_port_update_port_stats p MMAL_CORE_STATS_RX v) = seen log v" for v
    by (simp add: seen_def update_stats_module)
  show ?thesis
  proof (cases ins)
    case Nil
    let ?v = "mmal_queue_put (Some qp) (Some c) u"
    have v: "kept u ?v" "ports ?v = ports u" "module_store.more ?v = module_store.more u" by (rule queue_put_module)+
    have "queue_rep qp ?v (outs @ [c])" "queue_rep qi ?v []"
      using queue_rep_put [OF q'(2)] queue_rep_put_other [OF q'(2), of qi "[]" c] q' c su Nil
      by (simp_all add: pass_set_up_def)
    then have "pass_waits log B n i p qi qp ?v [] (outs @ [c])"
      using tk' Bu c d f Nil v bare_put [of qp c u] u(6) by (auto simp: pass_waits_def taking_def)
    from stats [OF this kept_trans [OF u(2) v(1)]] show ?thesis
      using that [of "mmal_port_update_port_stats p MMAL_CORE_STATS_RX ?v"] u(1,6) v(3) Nil
        output_waits [OF su', of env c] q'(1) send by (simp add: seen) (simp add: seen_def)
  next
    case (Cons b ins')
    have "queue_rep qi u (b # ins')" using q'(1) Cons by simp
    then obtain v where v: "mmal_queue_get (Some qi) u = Some (Some b, v)" "queue_rep qi v ins'" "bufs v = bufs u"
      using queue_rep_get_Cons by blast
    note vm = queue_get_module [OF v(1)]
    have "queues v qp = queues u qp" using get_other [OF v(1), of qp] su by (simp add: pass_set_up_def)
    then have rep: "queue_rep qp v outs" using q'(2) v(3) by (simp add: queue_rep_def)
    have dist: "distinct (b # ins' @ outs)" using q Cons f(3) by (auto simp: queue_rep_def)
    have tkv: "taking PASSTHROUGH_FN n (Suc (length ins')) i v" "taking PASSTHROUGH_FN n (Suc (length outs)) p v"
      using tk' vm(2) Cons by (simp_all add: taking_def)
    have fv: "({b, c} \<union> set ins' \<union> set outs) \<inter> noted (log (module_store.more v)) = {}" "distinct ([b, c] @ ins' @ outs)"
      "\<forall>c'\<in>set (c # outs). reference (B c') = None"
      using c d f Cons dist by (auto simp: vm(3) u(6))
    have Bv: "bare (bufs v h) = (if h \<in> insert c (set outs) then (bare (B h))\<lparr>bh_length := 0\<rparr> else bare (B h))"
      if "h \<notin> noted (log (module_store.more v))" for h
      using Bu [of h] that by (simp add: vm(3) u(6) v(3))
    obtain t where t: "passthrough_pair env k i b p c v = Some (MMAL_SUCCESS, t)" "kept v t"
      "pass_waits log B n i p qi qp t ins' outs" "seen log t = seen log v @ pair_seen B i p b c"
      by (rule pair_waits [OF cl pass_set_up_kept [OF su' vm(1)] tkv _ _ v(2) rep fv Bv])
        (use room Cons in simp_all)
    have k: "kept s t" using u(2) vm(1) t(2) kept_trans by blast
    from stats [OF t(3) k] show ?thesis
      using that [of "mmal_port_update_port_stats p MMAL_CORE_STATS_RX t"] u(1) t(1,4) Cons vm(3) u(6)
        output_pairs [OF su' v(1), of env c] send by (simp add: seen) (simp add: seen_def)
  qed
qed

section \<open>Refinement\<close>

datatype pass_op = To_input addr | To_output addr

fun pass_buffer :: "pass_op \<Rightarrow> addr" where
  "pass_buffer (To_input b) = b"
| "pass_buffer (To_output b) = b"

definition pass_inputs :: "pass_op list \<Rightarrow> addr list" where
  "pass_inputs ops = concat (map (\<lambda>x. case x of To_input b \<Rightarrow> [b] | To_output _ \<Rightarrow> []) ops)"

definition pass_outputs :: "pass_op list \<Rightarrow> addr list" where
  "pass_outputs ops = concat (map (\<lambda>x. case x of To_input _ \<Rightarrow> [] | To_output b \<Rightarrow> [b]) ops)"

fun pass_run ::
  "('a module_store_scheme) port_env \<Rightarrow> addr \<Rightarrow> addr \<Rightarrow> pass_op list \<Rightarrow> 'a module_store_scheme \<Rightarrow>
   (mmal_status list \<times> 'a module_store_scheme) option" where
  "pass_run env i p [] s = Some ([], s)"
| "pass_run env i p (x # ops) s = do {
     (status, s) \<leftarrow> mmal_port_send_buffer env (Some (case x of To_input _ \<Rightarrow> i | To_output _ \<Rightarrow> p)) (pass_buffer x) s;
     (sts, s) \<leftarrow> pass_run env i p ops s;
     Some (status # sts, s)
   }"

text \<open>Inputs must have data, outputs must not refer to another header yet.\<close>

definition pass_allowed :: "(addr \<Rightarrow> mmal_buffer_header) \<Rightarrow> pass_op \<Rightarrow> bool" where
  "pass_allowed B x = (case x of To_input b \<Rightarrow> bh_data (B b) \<noteq> None | To_output c \<Rightarrow> reference (B c) = None)"

lemma pass_lists [simp]:
  "pass_inputs [] = []" "pass_outputs [] = []" "pass_inputs (To_input b # ops) = b # pass_inputs ops"
  "pass_inputs (To_output b # ops) = pass_inputs ops" "pass_outputs (To_input b # ops) = pass_outputs ops"
  "pass_outputs (To_output b # ops) = b # pass_outputs ops"
  by (simp_all add: pass_inputs_def pass_outputs_def)


lemma pass_runs:
  assumes cl: "noting_client env n log"
  shows "pass_set_up k m i p qi qp s \<Longrightarrow> pass_waits log B n i p qi qp s ins outs \<Longrightarrow>
    distinct (map pass_buffer ops) \<Longrightarrow> pass_buffer ` set ops \<inter> (noted (log (module_store.more s)) \<union> set ins \<union> set outs) = {} \<Longrightarrow>
    (\<forall>x\<in>set ops. pass_allowed B x) \<Longrightarrow> length ins + length outs + length ops + 2 < 2147483647 \<Longrightarrow> ins = [] \<or> outs = [] \<Longrightarrow>
    \<exists>t. pass_run (passthrough_env env) i p ops s = Some (replicate (length ops) MMAL_SUCCESS, t) \<and>
      pass_waits log B n i p qi qp t (drop (length outs + length (pass_outputs ops)) (ins @ pass_inputs ops))
        (drop (length ins + length (pass_inputs ops)) (outs @ pass_outputs ops)) \<and>
      seen log t = seen log s @
        concat (map (\<lambda>(b, c). pair_seen B i p b c) (zip (ins @ pass_inputs ops) (outs @ pass_outputs ops)))"
proof (induction ops arbitrary: s ins outs)
  case Nil
  then show ?case by auto
next
  case (Cons x ops)
  note io = Cons.prems(7)
  have dist: "distinct (map pass_buffer ops)" "pass_buffer x \<notin> pass_buffer ` set ops" using Cons.prems(3) by auto
  have al: "\<forall>x\<in>set ops. pass_allowed B x" "pass_allowed B x" using Cons.prems(5) by auto
  have disj: "set ins \<inter> noted (log (module_store.more s)) = {}" "set outs \<inter> noted (log (module_store.more s)) = {}"
    using Cons.prems(2) by (auto simp: pass_waits_def)
  show ?case
  proof (cases x)
    case (To_input b)
    obtain t where t: "mmal_port_send_buffer (passthrough_env env) (Some i) b s = Some (MMAL_SUCCESS, t)" "kept s t"
      "case outs of [] \<Rightarrow> pass_waits log B n i p qi qp t (ins @ [b]) [] \<and> seen log t = seen log s
       | c # outs' \<Rightarrow> pass_waits log B n i p qi qp t ins outs' \<and> seen log t = seen log s @ pair_seen B i p b c"
      by (rule send_input [OF cl Cons.prems(1,2), of b]) (use Cons.prems al To_input in \<open>auto simp: pass_allowed_def\<close>)
    have su: "pass_set_up k m i p qi qp t" by (rule pass_set_up_kept [OF Cons.prems(1) t(2)])
    show ?thesis
    proof (cases outs)
      case Nil
      have "noted (log (module_store.more t)) = noted (log (module_store.more s))"
        using noted_seen [of log t s "[]"] t(3) Nil by simp
      with Cons.IH [OF su, of "ins @ [b]" "[]"] t(1,3) Nil To_input Cons.prems(4,6) dist al(1) show ?thesis by auto
    next
      case (Cons c outs')
      have "noted (log (module_store.more t)) = noted (log (module_store.more s)) \<union> {b, c}"
        using noted_seen [of log t s "pair_seen B i p b c"] t(3) Cons by (simp add: pair_seen_def)
      with Cons.IH [OF su, of "[]" outs'] t(1,3) Cons io To_input Cons.prems(4,6) dist al(1) show ?thesis by auto
    qed
  next
    case (To_output c)
    obtain t where t: "mmal_port_send_buffer (passthrough_env env) (Some p) c s = Some (MMAL_SUCCESS, t)" "kept s t"
      "case ins of [] \<Rightarrow> pass_waits log B n i p qi qp t [] (outs @ [c]) \<and> seen log t = seen log s
       | b # ins' \<Rightarrow> pass_waits log B n i p qi qp t ins' outs \<and> seen log t = seen log s @ pair_seen B i p b c"
      by (rule send_output [OF cl Cons.prems(1,2), of c]) (use Cons.prems al To_output in \<open>auto simp: pass_allowed_def\<close>)
    have su: "pass_set_up k m i p qi qp t" by (rule pass_set_up_kept [OF Cons.prems(1) t(2)])
    show ?thesis
    proof (cases ins)
      case Nil
      have "noted (log (module_store.more t)) = noted (log (module_store.more s))"
        using noted_seen [of log t s "[]"] t(3) Nil by simp
      with Cons.IH [OF su, of "[]" "outs @ [c]"] t(1,3) Nil To_output Cons.prems(4,6) dist al(1) show ?thesis by auto
    next
      case (Cons b ins')
      have "noted (log (module_store.more t)) = noted (log (module_store.more s)) \<union> {b, c}"
        using noted_seen [of log t s "pair_seen B i p b c"] t(3) Cons by (simp add: pair_seen_def)
      with Cons.IH [OF su, of ins' "[]"] t(1,3) Cons io To_output Cons.prems(4,6) dist al(1) show ?thesis by auto
    qed
  qed
qed


definition pass_idle :: "nat \<Rightarrow> addr \<Rightarrow> addr \<Rightarrow> addr \<Rightarrow> addr \<Rightarrow> addr \<Rightarrow> addr \<Rightarrow> 'a module_store_scheme \<Rightarrow> bool" where
  "pass_idle n k m i p qi qp s \<longleftrightarrow> pass_set_up k m i p qi qp s \<and> taking PASSTHROUGH_FN n 0 i s \<and> taking PASSTHROUGH_FN n 0 p s \<and>
     queue_rep qi s [] \<and> queue_rep qp s []"

lemma pass_idle_waits: "pass_idle n k m i p qi qp s \<Longrightarrow> pass_waits log (bufs s) n i p qi qp s [] []"
  by (simp add: pass_idle_def pass_waits_def)

text \<open>
  C22: whatever buffers are sent to the two ports of an idle pass-through component, in whatever order, every call succeeds.  The
  client is given back the buffers in pairs: the first input buffer, emptied, with the first output buffer, which then refers to
  it and carries its data, then the second ones, and so on.  The buffers without a partner wait in order and are counted in transit.
\<close>

theorem passthrough_pairs_in_order:
  assumes "noting_client env n log" "pass_idle n k m i p qi qp s" "distinct (map pass_buffer ops)"
    and "pass_buffer ` set ops \<inter> noted (log (module_store.more s)) = {}" "\<forall>x\<in>set ops. pass_allowed (bufs s) x"
    and "length ops + 2 < 2147483647"
  shows "\<exists>t. pass_run (passthrough_env env) i p ops s = Some (replicate (length ops) MMAL_SUCCESS, t) \<and>
     seen log t = seen log s @ concat (map (\<lambda>(b, c). pair_seen (bufs s) i p b c) (zip (pass_inputs ops) (pass_outputs ops))) \<and>
     queue_rep qi t (drop (length (pass_outputs ops)) (pass_inputs ops)) \<and>
     queue_rep qp t (drop (length (pass_inputs ops)) (pass_outputs ops)) \<and>
     transit_buffer_headers (ports t i) = int (length (pass_inputs ops) - length (pass_outputs ops)) \<and>
     transit_buffer_headers (ports t p) = int (length (pass_outputs ops) - length (pass_inputs ops))"
proof -
  have "pass_set_up k m i p qi qp s" using assms(2) by (simp add: pass_idle_def)
  from pass_runs [OF assms(1) this pass_idle_waits [OF assms(2)] assms(3)] assms(4-)
  obtain t where t: "pass_run (passthrough_env env) i p ops s = Some (replicate (length ops) MMAL_SUCCESS, t)"
    "pass_waits log (bufs s) n i p qi qp t (drop (length (pass_outputs ops)) (pass_inputs ops))
        (drop (length (pass_inputs ops)) (pass_outputs ops))"
    "seen log t = seen log s @ concat (map (\<lambda>(b, c). pair_seen (bufs s) i p b c) (zip (pass_inputs ops) (pass_outputs ops)))"
    by auto
  then show ?thesis by (intro exI [of _ t]) (simp add: pass_waits_def taking_def transit_ok_def)
qed

definition noting_env :: "(returned list) module_store_scheme port_env" where
  "noting_env = quiet_env\<lparr>on_buffer := (\<lambda>n p b s. Some (module_store.more_update (\<lambda>l. l @ [(p, b, bufs s b)]) s))\<rparr>"

definition pass_store :: "(returned list) module_store_scheme" where
  "pass_store = module_store.extend (graph_store.extend (mmal_store.extend
     (empty_mmal_store\<lparr>
        bufs := (\<lambda>_. zero_buffer_header\<lparr>bh_data := Some 99\<rparr>),
        components := (\<lambda>_. zero_component\<lparr>comp_module := Some 5, comp_input := [1], comp_output := [2]\<rparr>),
        ports := (\<lambda>p. zero_port\<lparr>port_type := if p = 1 then MMAL_PORT_TYPE_INPUT else MMAL_PORT_TYPE_OUTPUT, port_component := 3,
          port_enabled := True, pf_send := Some PASSTHROUGH_FN, buffer_header_callback := Some (Client_bh_cb 0), transit_sema := 1,
          port_capabilities := MMAL_PORT_CAPABILITY_PASSTHROUGH\<rparr>)\<rparr>)
     (graph_store.fields (\<lambda>_. zero_graph)))
     (module_store.fields (\<lambda>p. Some (10 + p)) (\<lambda>_. False) (\<lambda>_. False)
        (\<lambda>_. \<lparr>enabled_flags = 0, sent_flags = 0, splitter_error = False\<rparr>) (\<lambda>_. MMAL_SUCCESS))) []"


lemma pass_store_sel [simp]:
  "bufs pass_store = (\<lambda>_. zero_buffer_header\<lparr>bh_data := Some 99\<rparr>)" "queues pass_store = (\<lambda>_. empty_queue)"
  "components pass_store = (\<lambda>_. zero_component\<lparr>comp_module := Some 5, comp_input := [1], comp_output := [2]\<rparr>)"
  "ports pass_store = (\<lambda>p. zero_port\<lparr>port_type := if p = 1 then MMAL_PORT_TYPE_INPUT else MMAL_PORT_TYPE_OUTPUT, port_component := 3,
     port_enabled := True, pf_send := Some PASSTHROUGH_FN, buffer_header_callback := Some (Client_bh_cb 0), transit_sema := 1,
     port_capabilities := MMAL_PORT_CAPABILITY_PASSTHROUGH\<rparr>)"
  "module_queue pass_store = (\<lambda>p. Some (10 + p))" "passthrough_error pass_store = (\<lambda>_. False)" "module_store.more pass_store = []"
  by (simp_all add: pass_store_def mmal_store.defs graph_store.defs module_store.defs empty_mmal_store_def)

lemma noting_env_notes: "noting_client noting_env 0 (\<lambda>l. l)"
  by (simp add: noting_by_def noting_env_def kept_def)

theorem passthrough_pairs_in_order_witness:
  "\<exists>t. pass_run (passthrough_env noting_env) 1 2 [To_input 21, To_input 22, To_output 31] pass_store =
       Some ([MMAL_SUCCESS, MMAL_SUCCESS, MMAL_SUCCESS], t) \<and>
     seen (\<lambda>l. l) t = pair_seen (bufs pass_store) 1 2 21 31 \<and> queue_rep 11 t [22]"
proof -
  have i: "pass_idle 0 3 5 1 2 11 12 pass_store"
    by (simp add: pass_idle_def pass_set_up_def taking_def transit_ok_def queue_rep_empty_queue zero_port_def)
  have "\<forall>x\<in>set [To_input 21, To_input 22, To_output 31]. pass_allowed (bufs pass_store) x"
    by (simp add: pass_allowed_def zero_buffer_header_def)
  from passthrough_pairs_in_order [OF noting_env_notes i _ _ this] show ?thesis
    by (auto simp: seen_def simp del: pass_run.simps)
qed

text \<open>
  C23: a send on the input port and one on the output port can both look for a partner before either queues its buffer.  Then both
  buffers wait although they could go, and the next input buffer is paired with the output buffer and overtakes the first.
\<close>

theorem passthrough_sends_race:
  assumes cl: "noting_client env n log" and su: "pass_set_up k m i p qi qp s"
    and tk: "taking PASSTHROUGH_FN n 1 i s" "taking PASSTHROUGH_FN n 1 p s" and q: "queue_rep qi s []" "queue_rep qp s []"
    and f: "distinct [b, c, d]" "{b, c, d} \<inter> noted (log (module_store.more s)) = {}"
    and h: "bh_data (bufs s d) \<noteq> None" "reference (bufs s c) = None" "bh_length (bufs s c) = 0"
  shows "\<exists>s1 t u. passthrough_take i s = Some (None, s) \<and> passthrough_take p s = Some (None, s) \<and>
     passthrough_finish env i b None s = Some (MMAL_SUCCESS, s1) \<and> passthrough_finish env p c None s1 = Some (MMAL_SUCCESS, t) \<and>
     queue_rep qi t [b] \<and> queue_rep qp t [c] \<and> seen log t = seen log s \<and>
     mmal_port_send_buffer (passthrough_env env) (Some i) d t = Some (MMAL_SUCCESS, u) \<and>
     seen log u = seen log s @ pair_seen (bufs s) i p d c \<and> queue_rep qi u [b] \<and> queue_rep qp u []"
proof -
  let ?s1 = "mmal_queue_put (Some qi) (Some b) s"
  let ?t = "mmal_queue_put (Some qp) (Some c) ?s1"
  have qq: "qi \<noteq> qp" using su by (simp add: pass_set_up_def)
  note put = queue_put_module
  have take: "passthrough_take i s = Some (None, s)" "passthrough_take p s = Some (None, s)"
    using su queue_rep_get_Nil [OF q(1)] queue_rep_get_Nil [OF q(2)]
    by (simp_all add: passthrough_take_def matching_port_def pass_set_up_def Let_def)
  have k: "kept s ?s1" "kept s ?t" using kept_trans put(1) by blast+
  have fin: "passthrough_finish env i b None s = Some (MMAL_SUCCESS, ?s1)"
    "passthrough_finish env p c None ?s1 = Some (MMAL_SUCCESS, ?t)"
    using su pass_set_up_kept [OF su k(1)] by (simp_all add: passthrough_finish_def pass_set_up_def Let_def)
  have r1: "queue_rep qi ?s1 [b]" "queue_rep qp ?s1 []"
    using queue_rep_put [OF q(1), of b] queue_rep_put_other [OF q(1), of qp "[]" b] q qq by simp_all
  have r: "queue_rep qi ?t [b]" "queue_rep qp ?t [c]"
    using queue_rep_put [OF r1(2), of c] queue_rep_put_other [OF r1(2) r1(1), of c] qq f(1) by simp_all
  have bare: "bare (bufs ?t x) = bare (bufs s x)" for x by (simp only: bare_put)
  have c0: "bare (bufs s c) = (bare (bufs s c))\<lparr>bh_length := 0\<rparr>"
    using h(3) by (cases "bufs s c") (simp add: bare_def)
  have more: "module_store.more ?t = module_store.more s" and ports: "ports ?t = ports s" by (simp_all only: put(2,3))
  have w: "pass_waits log (bufs s) n i p qi qp ?t [b] [c]"
    using tk r f h(2) bare c0 more ports by (auto simp: pass_waits_def taking_def)
  obtain u where "mmal_port_send_buffer (passthrough_env env) (Some i) d ?t = Some (MMAL_SUCCESS, u)"
    "pass_waits log (bufs s) n i p qi qp u [b] [] \<and> seen log u = seen log ?t @ pair_seen (bufs s) i p d c"
    using send_input [OF cl pass_set_up_kept [OF su k(2)] w, of d] f h(1) more by auto
  moreover have "seen log ?t = seen log s" by (simp only: seen_def more)
  ultimately show ?thesis using take fin r
    by (intro exI [of _ ?s1] exI [of _ ?t] exI [of _ u]) (simp add: pass_waits_def)
qed

definition racing_store :: "(returned list) module_store_scheme" where
  "racing_store = pass_store\<lparr>ports := \<lambda>p. (ports pass_store p)\<lparr>transit_buffer_headers := 1, transit_sema := 0\<rparr>\<rparr>"

theorem passthrough_sends_race_witness:
  "\<exists>s1 t u. passthrough_take 1 racing_store = Some (None, racing_store) \<and>
     passthrough_finish noting_env 1 21 None racing_store = Some (MMAL_SUCCESS, s1) \<and>
     passthrough_finish noting_env 2 31 None s1 = Some (MMAL_SUCCESS, t) \<and>
     mmal_port_send_buffer (passthrough_env noting_env) (Some 1) 22 t = Some (MMAL_SUCCESS, u) \<and>
     seen (\<lambda>l. l) u = pair_seen (bufs racing_store) 1 2 22 31"
proof -
  have st: "pass_set_up 3 5 1 2 11 12 racing_store" "taking PASSTHROUGH_FN 0 1 1 racing_store"
    "taking PASSTHROUGH_FN 0 1 2 racing_store" "queue_rep 11 racing_store []" "queue_rep 12 racing_store []"
    by (simp_all add: racing_store_def pass_set_up_def taking_def transit_ok_def queue_rep_empty_queue zero_port_def)
  have hd: "distinct [21, 31, 22 :: addr]" "{21, 31, 22} \<inter> noted (module_store.more racing_store) = {}"
    "bh_data (bufs racing_store 22) \<noteq> None" "reference (bufs racing_store 31) = None" "bh_length (bufs racing_store 31) = 0"
    by (simp_all add: racing_store_def zero_buffer_header_def)
  have e: "seen (\<lambda>l. l) racing_store = []" by (simp add: racing_store_def seen_def)
  obtain s1 t u where "passthrough_take 1 racing_store = Some (None, racing_store)"
    "passthrough_finish noting_env 1 21 None racing_store = Some (MMAL_SUCCESS, s1)"
    "passthrough_finish noting_env 2 31 None s1 = Some (MMAL_SUCCESS, t)"
    "mmal_port_send_buffer (passthrough_env noting_env) (Some 1) 22 t = Some (MMAL_SUCCESS, u)"
    "seen (\<lambda>l. l) u = seen (\<lambda>l. l) racing_store @ pair_seen (bufs racing_store) 1 2 22 31"
    using passthrough_sends_race [OF noting_env_notes st hd] by blast
  then show ?thesis unfolding e append_Nil by blast
qed

end
