(* ===== verification/Splitter.thy ===== *)
theory Splitter
  imports PassThrough
begin

text \<open>
  The splitter, \<^verbatim>\<open>mmal/components/splitter.c\<close>: a buffer sent to the input port is replicated into buffers sent to the output ports,
  and goes back when every enabled output port got its copy.
\<close>

unbundle bit_operations_syntax

definition SPLITTER_OUTPUT_PORTS_NUM :: u32 where "SPLITTER_OUTPUT_PORTS_NUM = 4"
definition SPLITTER_FN :: nat where "SPLITTER_FN = 2001"

definition splitter_of :: "addr \<Rightarrow> 'a module_store_scheme \<Rightarrow> addr option" where
  "splitter_of p s = comp_module (components s (port_component (ports s p)))"

section \<open>Operations\<close>

definition splitter_component_destroy :: "addr \<Rightarrow> 'a module_store_scheme \<Rightarrow> mmal_status \<times> 'a module_store_scheme" where
  "splitter_component_destroy k s = destroy_queued_component k s"

definition splitter_port_enable ::
  "addr \<Rightarrow> bh_callback option \<Rightarrow> 'a module_store_scheme \<Rightarrow> (mmal_status \<times> 'a module_store_scheme) option" where
  "splitter_port_enable p cb s = do {
     m \<leftarrow> splitter_of p s;
     Some (MMAL_SUCCESS,
       if buffer_size (ports s p) \<noteq> 0 \<and> port_type (ports s p) = MMAL_PORT_TYPE_OUTPUT
       then upd_splitter m (\<lambda>d. d\<lparr>enabled_flags := enabled_flags d OR push_bit (unat (port_index (ports s p))) 1\<rparr>) s else s)
   }"

definition splitter_port_flush ::
  "('a module_store_scheme) port_env \<Rightarrow> addr \<Rightarrow> 'a module_store_scheme \<Rightarrow> (mmal_status \<times> 'a module_store_scheme) option" where
  "splitter_port_flush env p s = do {
     s \<leftarrow> flush_module_queue env p s;
     m \<leftarrow> splitter_of p s;
     Some (MMAL_SUCCESS, if port_type (ports s p) = MMAL_PORT_TYPE_INPUT then upd_splitter m (\<lambda>d. d\<lparr>sent_flags := 0\<rparr>) s else s)
   }"

definition splitter_port_disable ::
  "('a module_store_scheme) port_env \<Rightarrow> addr \<Rightarrow> 'a module_store_scheme \<Rightarrow> (mmal_status \<times> 'a module_store_scheme) option" where
  "splitter_port_disable env p s = do {
     m \<leftarrow> splitter_of p s;
     splitter_port_flush env p
       (if port_type (ports s p) = MMAL_PORT_TYPE_OUTPUT
        then upd_splitter m (\<lambda>d. d\<lparr>enabled_flags := enabled_flags d AND NOT (push_bit (unat (port_index (ports s p))) 1)\<rparr>) s else s)
   }"

definition splitter_send_output ::
  "('a module_store_scheme) port_env \<Rightarrow> addr \<Rightarrow> addr \<Rightarrow> 'a module_store_scheme \<Rightarrow> (mmal_status \<times> 'a module_store_scheme) option" where
  "splitter_send_output env b out_port s = do {
     (out, s) \<leftarrow> mmal_queue_get (module_queue s out_port) s;
     (case out of
        None \<Rightarrow> Some (MMAL_EAGAIN, s)
      | Some c \<Rightarrow>
          let (status, s) = mmal_buffer_header_replicate (Some c) (Some b) s in
          if status \<noteq> MMAL_SUCCESS then Some (status, mmal_queue_put_back (module_queue s out_port) (Some c) s)
          else do {
            s \<leftarrow> mmal_port_buffer_header_callback env out_port c s;
            Some (MMAL_SUCCESS, s)
          })
   }"

text \<open>Every output port in turn, with its number, until one fails.\<close>

fun splitter_send_all ::
  "('a module_store_scheme) port_env \<Rightarrow> addr \<Rightarrow> addr \<Rightarrow> nat \<Rightarrow> addr list \<Rightarrow> 'a module_store_scheme \<Rightarrow>
   (mmal_status \<times> 'a module_store_scheme) option" where
  "splitter_send_all env m b i [] s = Some (MMAL_SUCCESS, s)"
| "splitter_send_all env m b i (p # ps) s = do {
     (status, s) \<leftarrow> splitter_send_output env b p s;
     if status \<noteq> MMAL_SUCCESS \<and> status \<noteq> MMAL_EAGAIN then Some (status, s)
     else splitter_send_all env m b (i + 1) ps
            (if status = MMAL_SUCCESS then upd_splitter m (\<lambda>d. d\<lparr>sent_flags := sent_flags d OR push_bit i 1\<rparr>) s else s)
   }"

text \<open>The next input buffer is copied to the outputs; \<open>b\<close> goes back when every enabled output has been sent something.\<close>

definition splitter_finish ::
  "('a module_store_scheme) port_env \<Rightarrow> addr \<Rightarrow> addr \<Rightarrow> addr \<Rightarrow> addr \<Rightarrow> mmal_status \<Rightarrow> 'a module_store_scheme \<Rightarrow>
   (mmal_status \<times> 'a module_store_scheme) option" where
  "splitter_finish env k m in_port b status s =
     (if status \<noteq> MMAL_SUCCESS then do {
        let s = mmal_queue_put (module_queue s in_port) (Some b) s;
        (status, s) \<leftarrow> mmal_event_error_send env (Some k) status s;
        Some (MMAL_SUCCESS, if status \<noteq> MMAL_SUCCESS then s else upd_splitter m (\<lambda>d. d\<lparr>splitter_error := True\<rparr>) s)
      }
      else if sent_flags (splitters s m) AND enabled_flags (splitters s m) = enabled_flags (splitters s m) then do {
        let s = upd_buf b (\<lambda>h. h\<lparr>bh_length := 0\<rparr>) s;
        s \<leftarrow> mmal_port_buffer_header_callback env in_port b s;
        Some (MMAL_SUCCESS, upd_splitter m (\<lambda>d. d\<lparr>sent_flags := 0\<rparr>) s)
      }
      else Some (MMAL_SUCCESS, mmal_queue_put (module_queue s in_port) (Some b) s))"

definition splitter_serve ::
  "('a module_store_scheme) port_env \<Rightarrow> addr \<Rightarrow> addr \<Rightarrow> 'a module_store_scheme \<Rightarrow> (mmal_status \<times> 'a module_store_scheme) option" where
  "splitter_serve env k m s = do {
     let in_port = comp_input (components s k) ! 0;
     (next_in, s) \<leftarrow> mmal_queue_get (module_queue s in_port) s;
     (case next_in of
        None \<Rightarrow> Some (MMAL_SUCCESS, s)
      | Some b \<Rightarrow> do {
          (status, s) \<leftarrow> splitter_send_all env m b 0 (comp_output (components s k)) s;
          splitter_finish env k m in_port b status s
        })
   }"

definition splitter_port_send ::
  "('a module_store_scheme) port_env \<Rightarrow> addr \<Rightarrow> addr \<Rightarrow> 'a module_store_scheme \<Rightarrow> (mmal_status \<times> 'a module_store_scheme) option" where
  "splitter_port_send env p b s = do {
     let k = port_component (ports s p);
     m \<leftarrow> comp_module (components s k);
     let s = mmal_queue_put (module_queue s p) (Some b) s;
     if splitter_error (splitters s m) then Some (MMAL_SUCCESS, s) else splitter_serve env k m s
   }"

definition splitter_port_format_commit :: "addr \<Rightarrow> 'a module_store_scheme \<Rightarrow> (mmal_status \<times> 'a module_store_scheme) option" where
  "splitter_port_format_commit p s =
     (if port_type (ports s p) = MMAL_PORT_TYPE_OUTPUT then Some (MMAL_EINVAL, s)
      else while_success (\<lambda>q s. mmal_format_full_copy (port_format (ports s q)) (port_format (ports s p)) s)
             (comp_output (components s (port_component (ports s p)))) MMAL_SUCCESS s)"

definition splitter_port_parameter_set ::
  "addr \<Rightarrow> mmal_parameter \<Rightarrow> 'a module_store_scheme \<Rightarrow> (mmal_status \<times> 'a module_store_scheme) option" where
  "splitter_port_parameter_set p param s =
     (let k = components s (port_component (ports s p)) in
      case raised_requirements (ports s p) param of
        None \<Rightarrow> Some (MMAL_ENOSYS, s)
      | Some req \<Rightarrow>
          Some (MMAL_SUCCESS, fold (\<lambda>q. upd_port q (put_requirements req)) (comp_input k ! 0 # comp_output k) s))"

definition splitter_functions :: "mmal_port \<Rightarrow> mmal_port" where
  "splitter_functions pt = pt\<lparr>pf_enable := Some (Module_fn SPLITTER_FN), pf_disable := Some (Module_fn SPLITTER_FN),
     pf_flush := Some SPLITTER_FN, pf_send := Some SPLITTER_FN, pf_set_format := Some SPLITTER_FN,
     pf_parameter_set := Some (Module_fn SPLITTER_FN), buffer_num_min := 1, buffer_num_recommended := 0\<rparr>"

definition splitter_output_functions :: "mmal_port \<Rightarrow> mmal_port" where
  "splitter_output_functions pt = (splitter_functions pt)\<lparr>port_capabilities := MMAL_PORT_CAPABILITY_PASSTHROUGH\<rparr>"

definition mmal_component_create_splitter ::
  "string \<Rightarrow> addr \<Rightarrow> 'a module_store_scheme \<Rightarrow> (mmal_status \<times> 'a module_store_scheme) option" where
  "mmal_component_create_splitter name k s =
     (let (module, s) = vcos_malloc 12 s;
          s = upd_comp k (\<lambda>d. d\<lparr>comp_module := module\<rparr>) s
      in case module of
           None \<Rightarrow> Some (MMAL_ENOMEM, s)
         | Some m \<Rightarrow>
             let s = upd_splitter m (\<lambda>_. \<lparr>enabled_flags = 0, sent_flags = 0, splitter_error = False\<rparr>) s;
                 s = upd_comp k (\<lambda>d. d\<lparr>comp_pf_destroy := Some SPLITTER_FN\<rparr>) s;
                 (made, s) = create_inputs k 1 4 splitter_functions s
             in if \<not> made then Some (MMAL_ENOMEM, snd (splitter_component_destroy k s))
                else
                  let (made, s) = create_outputs k SPLITTER_OUTPUT_PORTS_NUM 4 splitter_output_functions s
                  in if \<not> made then Some (MMAL_ENOMEM, snd (splitter_component_destroy k s))
                     else Some (MMAL_SUCCESS, s))"

definition splitter_env :: "('a module_store_scheme) port_env \<Rightarrow> ('a module_store_scheme) port_env" where
  "splitter_env env = env\<lparr>
     on_set_format := (\<lambda>n p s. if n = SPLITTER_FN then splitter_port_format_commit p s else on_set_format env n p s),
     on_enable := (\<lambda>n p cb s. if n = SPLITTER_FN then splitter_port_enable p cb s else on_enable env n p cb s),
     on_disable := (\<lambda>n p s. if n = SPLITTER_FN then splitter_port_disable env p s else on_disable env n p s),
     on_send := (\<lambda>n p b s. if n = SPLITTER_FN then splitter_port_send env p b s else on_send env n p b s),
     on_flush := (\<lambda>n p s. if n = SPLITTER_FN then splitter_port_flush env p s else on_flush env n p s),
     on_parameter_set := (\<lambda>n p param s. if n = SPLITTER_FN then splitter_port_parameter_set p param s
       else on_parameter_set env n p param s),
     on_component_destroy := (\<lambda>n k s. if n = SPLITTER_FN then splitter_component_destroy k s
       else on_component_destroy env n k s),
     on_create := (\<lambda>n name k s. if n = SPLITTER_FN then mmal_component_create_splitter name k s
       else on_create env n name k s)\<rparr>"

section \<open>The splitter on lists\<close>

text \<open>
  The buffers that wait, and the output ports that the input buffer in turn was sent to.  An event is a port, a buffer that goes
  back to the client there, and the input buffer that it is a copy of if it is one.
\<close>

record splitting =
  spl_ins :: "addr list"
  spl_outs :: "addr \<Rightarrow> addr list"
  spl_sent :: u32

type_synonym split_event = "addr \<times> addr \<times> addr option"

fun copy_events :: "addr \<Rightarrow> addr list \<Rightarrow> (addr \<Rightarrow> addr list) \<Rightarrow> split_event list" where
  "copy_events b [] outs = []"
| "copy_events b (p # ps) outs = (case outs p of [] \<Rightarrow> [] | c # _ \<Rightarrow> [(p, c, Some b)]) @ copy_events b ps outs"

fun copy_bits :: "nat \<Rightarrow> addr list \<Rightarrow> (addr \<Rightarrow> addr list) \<Rightarrow> u32 \<Rightarrow> u32" where
  "copy_bits i [] outs sent = sent"
| "copy_bits i (p # ps) outs sent = copy_bits (i + 1) ps outs (if outs p = [] then sent else sent OR push_bit i 1)"

definition served :: "addr list \<Rightarrow> (addr \<Rightarrow> addr list) \<Rightarrow> addr \<Rightarrow> addr list" where
  "served ps outs = (\<lambda>p. if p \<in> set ps then tl (outs p) else outs p)"

text \<open>The first input buffer is copied to every port that has a buffer for it; it goes back, or to the end of the queue.\<close>

definition split_serve :: "u32 \<Rightarrow> addr \<Rightarrow> addr list \<Rightarrow> splitting \<Rightarrow> split_event list \<times> splitting" where
  "split_serve en i ps st =
     (case spl_ins st of
        [] \<Rightarrow> ([], st)
      | b # bs \<Rightarrow>
          let outs = spl_outs st; sent = copy_bits 0 ps outs (spl_sent st) in
          if sent AND en = en
          then (copy_events b ps outs @ [(i, b, None)], \<lparr>spl_ins = bs, spl_outs = served ps outs, spl_sent = 0\<rparr>)
          else (copy_events b ps outs, \<lparr>spl_ins = bs @ [b], spl_outs = served ps outs, spl_sent = sent\<rparr>))"

definition split_put :: "addr \<Rightarrow> addr \<Rightarrow> addr \<Rightarrow> splitting \<Rightarrow> splitting" where
  "split_put i p x st =
     (if p = i then st\<lparr>spl_ins := spl_ins st @ [x]\<rparr> else st\<lparr>spl_outs := (spl_outs st)(p := spl_outs st p @ [x])\<rparr>)"

fun split_run :: "u32 \<Rightarrow> addr \<Rightarrow> addr list \<Rightarrow> (addr \<times> addr) list \<Rightarrow> splitting \<Rightarrow> split_event list \<times> splitting" where
  "split_run en i ps [] st = ([], st)"
| "split_run en i ps ((p, x) # ops) st =
     (let (es, st) = split_serve en i ps (split_put i p x st); (es', st) = split_run en i ps ops st in (es @ es', st))"

definition no_buffers :: splitting where
  "no_buffers = \<lparr>spl_ins = [], spl_outs = (\<lambda>_. []), spl_sent = 0\<rparr>"

section \<open>The state of a splitter\<close>

definition split_set_up ::
  "u32 \<Rightarrow> addr \<Rightarrow> addr \<Rightarrow> addr \<Rightarrow> addr list \<Rightarrow> addr \<Rightarrow> (addr \<Rightarrow> addr) \<Rightarrow> 'a module_store_scheme \<Rightarrow> bool" where
  "split_set_up en k m i ps qi Q s \<longleftrightarrow> comp_module (components s k) = Some m \<and> \<not> splitter_error (splitters s m) \<and>
     comp_input (components s k) = [i] \<and> comp_output (components s k) = ps \<and> i \<notin> set ps \<and> distinct ps \<and>
     module_queue s i = Some qi \<and> (\<forall>p\<in>set ps. module_queue s p = Some (Q p)) \<and> inj_on Q (set ps) \<and> qi \<notin> Q ` set ps \<and>
     port_type (ports s i) = MMAL_PORT_TYPE_INPUT \<and> (\<forall>p\<in>set ps. port_type (ports s p) = MMAL_PORT_TYPE_OUTPUT) \<and>
     (\<forall>p\<in>set (i # ps). port_component (ports s p) = k) \<and>
     (\<forall>p\<in>set ps. port_capabilities (ports s p) = MMAL_PORT_CAPABILITY_PASSTHROUGH) \<and> enabled_flags (splitters s m) = en"

lemma split_set_up_kept: "split_set_up en k m i ps qi Q s \<Longrightarrow> kept s t \<Longrightarrow> split_set_up en k m i ps qi Q t"
  by (simp add: split_set_up_def kept_sel)

text \<open>A header without its link and its count.\<close>

definition thin :: "mmal_buffer_header \<Rightarrow> mmal_buffer_header" where
  "thin h = h\<lparr>bh_next := None, refcount := 0\<rparr>"

definition waiting_outs :: "addr list \<Rightarrow> (addr \<Rightarrow> addr list) \<Rightarrow> addr list" where
  "waiting_outs ps outs = concat (map outs ps)"

text \<open>\<open>xs\<close> are input buffers that are in transit but in no queue: the one that is being copied.\<close>

definition split_state ::
  "('a \<Rightarrow> returned list) \<Rightarrow> (addr \<Rightarrow> mmal_buffer_header) \<Rightarrow> nat \<Rightarrow> addr \<Rightarrow> addr \<Rightarrow> addr list \<Rightarrow> addr \<Rightarrow> (addr \<Rightarrow> addr) \<Rightarrow> addr list \<Rightarrow>
   splitting \<Rightarrow> 'a module_store_scheme \<Rightarrow> bool" where
  "split_state log B n m i ps qi Q xs st s \<longleftrightarrow>
     taking SPLITTER_FN n (length xs + length (spl_ins st)) i s \<and> (\<forall>p\<in>set ps. taking SPLITTER_FN n (length (spl_outs st p)) p s) \<and>
     queue_rep qi s (spl_ins st) \<and> (\<forall>p\<in>set ps. queue_rep (Q p) s (spl_outs st p)) \<and>
     distinct (xs @ spl_ins st @ waiting_outs ps (spl_outs st)) \<and>
     (set xs \<union> set (spl_ins st) \<union> set (waiting_outs ps (spl_outs st))) \<inter> noted (log (module_store.more s)) = {} \<and>
     (\<forall>c\<in>set (waiting_outs ps (spl_outs st)). reference (B c) = None) \<and> sent_flags (splitters s m) = spl_sent st \<and>
     (\<forall>h. h \<notin> noted (log (module_store.more s)) \<longrightarrow>
        thin (bufs s h) = (if h \<in> set (waiting_outs ps (spl_outs st)) then (thin (B h))\<lparr>bh_length := 0\<rparr> else thin (B h)))"

definition thin_log :: "('a \<Rightarrow> returned list) \<Rightarrow> 'a module_store_scheme \<Rightarrow> returned list" where
  "thin_log log s = map (\<lambda>(p, b, h). (p, b, thin h)) (log (module_store.more s))"

text \<open>The header that belongs to an event.\<close>

definition event_header :: "(addr \<Rightarrow> mmal_buffer_header) \<Rightarrow> split_event \<Rightarrow> addr \<times> addr \<times> mmal_buffer_header" where
  "event_header B e = (case e of (p, c, src) \<Rightarrow>
     (p, c, case src of None \<Rightarrow> (thin (B c))\<lparr>bh_length := 0\<rparr>
            | Some b \<Rightarrow> (copy_replicated (thin (B b)) (thin (B c)))\<lparr>reference := Some b\<rparr>))"

lemma waiting_outs_upd:
  assumes "p \<in> set ps" "distinct ps"
  obtains A C where "waiting_outs ps outs = A @ outs p @ C" "\<And>ys. waiting_outs ps (outs(p := ys)) = A @ ys @ C"
proof -
  obtain as cs where ps: "ps = as @ p # cs" "p \<notin> set as" "p \<notin> set cs"
    using split_list [OF assms(1)] assms(2) by auto
  have "map (outs(p := ys)) as = map outs as" "map (outs(p := ys)) cs = map outs cs" for ys using ps(2,3) by auto
  then have "waiting_outs ps (outs(p := ys)) = concat (map outs as) @ ys @ concat (map outs cs)" for ys
    by (simp add: waiting_outs_def ps)
  moreover have "waiting_outs ps outs = concat (map outs as) @ outs p @ concat (map outs cs)" by (simp add: waiting_outs_def ps)
  ultimately show ?thesis using that by blast
qed

lemma waiting_sub: "p \<in> set ps \<Longrightarrow> set (outs p) \<subseteq> set (waiting_outs ps outs)"
  by (force simp: waiting_outs_def)

lemma waiting_disjoint:
  "distinct (waiting_outs ps outs) \<Longrightarrow> p \<in> set ps \<Longrightarrow> q \<in> set ps \<Longrightarrow> p \<noteq> q \<Longrightarrow> set (outs p) \<inter> set (outs q) = {}"
  by (induction ps) (auto simp: waiting_outs_def)

lemma same_but_references_thin: "same_but_references a b \<Longrightarrow> thin a = thin b \<and> bh_next a = bh_next b"
  by (cases a; cases b; simp add: same_but_references_def thin_def)

lemma get_from_queue:
  assumes "queue_rep q s (c # cs)"
  shows "\<exists>v. mmal_queue_get (Some q) s = Some (Some c, v) \<and> queue_rep q v cs \<and> bufs v = bufs s \<and>
    (\<forall>q' xs. q' \<noteq> q \<longrightarrow> queue_rep q' s xs \<longrightarrow> queue_rep q' v xs)"
proof -
  obtain v where v: "mmal_queue_get (Some q) s = Some (Some c, v)" "queue_rep q v cs" "bufs v = bufs s"
    using queue_rep_get_Cons [OF assms] by blast
  have "queues v q' = queues s q'" if "q' \<noteq> q" for q'
    using v(1) that by (auto simp: mmal_queue_get_def Let_def split: option.splits bind_splits)
  then have "\<forall>q' xs. q' \<noteq> q \<longrightarrow> queue_rep q' s xs \<longrightarrow> queue_rep q' v xs" using v(3) by (simp add: queue_rep_def)
  with v show ?thesis by blast
qed

lemma copy_runs:
  fixes s :: "'a module_store_scheme"
  assumes cl: "referring_client env n log" and mq: "module_queue s p = Some q" "queue_rep q s (c # cs)" "b \<noteq> c"
    and cb: "buffer_header_callback (ports s p) = Some (Client_bh_cb n)"
    and tr: "transit_ok (Suc x) (ports s p)" "Suc x < 2147483647" and hd: "reference (bufs s c) = None"
  obtains t where "splitter_send_output env b p s = Some (MMAL_SUCCESS, t)" "kept s t" "transit_ok x (ports t p)"
    "\<And>p'. p' \<noteq> p \<Longrightarrow> ports t p' = ports s p'" "splitters t = splitters s" "set cs \<inter> insert c (noted (log (module_store.more s))) = {} \<Longrightarrow> queue_rep q t cs"
    "\<And>q' xs. q' \<noteq> q \<Longrightarrow> queue_rep q' s xs \<Longrightarrow> set xs \<inter> insert c (noted (log (module_store.more s))) = {} \<Longrightarrow> queue_rep q' t xs"
    "log (module_store.more t) = log (module_store.more s) @ [(p, c, (copy_replicated (bufs s b) (bufs s c))\<lparr>reference := Some b\<rparr>)]"
    "\<And>h. h \<notin> noted (log (module_store.more s)) \<Longrightarrow> h \<noteq> c \<Longrightarrow> thin (bufs t h) = thin (bufs s h)"
proof -
  obtain v where v: "mmal_queue_get (Some q) s = Some (Some c, v)" "queue_rep q v cs" "bufs v = bufs s"
    "\<forall>q' xs. q' \<noteq> q \<longrightarrow> queue_rep q' s xs \<longrightarrow> queue_rep q' v xs" using get_from_queue [OF mq(2)] by blast
  note vm = queue_get_module [OF v(1)]
  let ?g = "(copy_replicated (bufs s b) (bufs s c))\<lparr>reference := Some b\<rparr>"
  define u where "u = v\<lparr>bufs := (bufs s)(b := (bufs s b)\<lparr>refcount := s32 (refcount (bufs s b) + 1)\<rparr>, c := ?g)\<rparr>"
  have rep: "mmal_buffer_header_replicate (Some c) (Some b) v = (MMAL_SUCCESS, u)"
    using hd mq(3) v(3) by (simp add: u_def mmal_buffer_header_replicate_def mmal_buffer_header_acquire_def Let_def upd_buf_def
        copy_replicated_def fun_eq_iff)
  have ku: "kept s u" using vm(1) by (simp add: u_def kept_def)
  obtain t where t: "mmal_port_buffer_header_callback env p c u = Some t" "kept u t" "transit_ok x (ports t p)"
    "\<And>q. q \<noteq> p \<Longrightarrow> ports t q = ports u q" "queues t = queues u" "splitters t = splitters u"
    "log (module_store.more t) = log (module_store.more u) @ [(p, c, bufs u c)]"
    "\<And>h. h \<notin> noted (log (module_store.more u)) \<Longrightarrow> h \<noteq> c \<Longrightarrow> same_but_references (bufs t h) (bufs u h)"
    by (rule callback_notes [OF cl, of u p x c]) (use cb tr in \<open>auto simp: u_def vm\<close>)
  have th: "thin (bufs t h) = thin (bufs s h)" and nx: "bh_next (bufs t h) = bh_next (bufs s h)"
    if "h \<notin> noted (log (module_store.more s))" "h \<noteq> c" for h
    using same_but_references_thin [OF t(8) [of h]] that by (auto simp: u_def vm thin_def)
  have run: "splitter_send_output env b p s = Some (MMAL_SUCCESS, t)"
    using mq(1) v(1) rep t(1) by (simp add: splitter_send_output_def)
  have qs: "queues t = queues v" using t(5) by (simp add: u_def)
  have keep: "queue_rep q' t xs" if "queue_rep q' v xs" "set xs \<inter> insert c (noted (log (module_store.more s))) = {}" for q' xs
    by (rule queue_rep_frame [OF that(1)]) (use that(2) qs nx v(3) in auto)
  show ?thesis
  proof (rule that [OF run])
    show "kept s t" by (rule kept_trans [OF ku t(2)])
    show "ports t p' = ports s p'" if "p' \<noteq> p" for p' using t(4) [OF that] vm by (simp add: u_def)
    show "splitters t = splitters s" using t(6) vm by (simp add: u_def)
    show "queue_rep q t cs" if "set cs \<inter> insert c (noted (log (module_store.more s))) = {}"
      using keep [OF v(2) that] .
  qed (use t(3,7) keep v(4) th vm in \<open>auto simp: u_def\<close>)
qed


abbreviation taken :: "addr \<Rightarrow> splitting \<Rightarrow> splitting" where
  "taken p st \<equiv> st\<lparr>spl_outs := (spl_outs st)(p := tl (spl_outs st p))\<rparr>"

lemma copy_step:
  fixes s :: "'a module_store_scheme"
  assumes cl: "referring_client env n log" and su: "split_set_up en k m i ps qi Q s"
    and st: "split_state log B n m i ps qi Q xs st s" and b: "b \<in> set xs" and p: "p \<in> set ps"
    and c: "spl_outs st p = c # cs" and room: "Suc (length cs) < 2147483647"
  obtains t where "splitter_send_output env b p s = Some (MMAL_SUCCESS, t)" "kept s t"
    "split_state log B n m i ps qi Q xs (taken p st) t" "thin_log log t = thin_log log s @ [event_header B (p, c, Some b)]"
proof -
  have pi: "p \<noteq> i" "distinct ps" "inj_on Q (set ps)" "qi \<noteq> Q p" using su p by (auto simp: split_set_up_def)
  let ?W = "waiting_outs ps (spl_outs st)" and ?W' = "waiting_outs ps (spl_outs (taken p st))"
  obtain A C where W: "?W = A @ (c # cs) @ C" "?W' = A @ cs @ C"
    using waiting_outs_upd [OF p pi(2), of "spl_outs st"] c by (metis list.sel(3) splitting.select_convs(2) splitting.surjective splitting.update_convs(2))
  have dist: "distinct (xs @ spl_ins st @ ?W)"
    and nn: "(set xs \<union> set (spl_ins st) \<union> set ?W) \<inter> noted (log (module_store.more s)) = {}"
    and th: "\<And>h. h \<notin> noted (log (module_store.more s)) \<Longrightarrow>
        thin (bufs s h) = (if h \<in> set ?W then (thin (B h))\<lparr>bh_length := 0\<rparr> else thin (B h))"
    using st by (simp_all add: split_state_def)
  have cW: "c \<in> set ?W" "b \<noteq> c" "c \<notin> set ?W'" "c \<notin> set (spl_ins st)" using dist b W by auto
  have "b \<notin> set ?W" "b \<notin> noted (log (module_store.more s))" "c \<notin> noted (log (module_store.more s))"
    using dist b nn cW(1) by auto
  then have hdr: "thin (bufs s c) = (thin (B c))\<lparr>bh_length := 0\<rparr>" "thin (bufs s b) = thin (B b)"
    using th [of c] th [of b] cW(1) by simp_all
  have r: "reference (bufs s c) = None"
    using arg_cong [OF hdr(1), of reference] st cW(1) by (simp add: thin_def split_state_def)
  have mq: "module_queue s p = Some (Q p)" "queue_rep (Q p) s (c # cs)" and cb: "buffer_header_callback (ports s p) = Some (Client_bh_cb n)"
    and tr: "transit_ok (Suc (length cs)) (ports s p)"
    using su st p c by (auto simp: split_set_up_def split_state_def taking_def)
  obtain t where t: "splitter_send_output env b p s = Some (MMAL_SUCCESS, t)" "kept s t" "transit_ok (length cs) (ports t p)"
    "\<And>p'. p' \<noteq> p \<Longrightarrow> ports t p' = ports s p'" "splitters t = splitters s"
    "set cs \<inter> insert c (noted (log (module_store.more s))) = {} \<Longrightarrow> queue_rep (Q p) t cs"
    "\<And>q' xs. q' \<noteq> Q p \<Longrightarrow> queue_rep q' s xs \<Longrightarrow> set xs \<inter> insert c (noted (log (module_store.more s))) = {} \<Longrightarrow> queue_rep q' t xs"
    "log (module_store.more t) = log (module_store.more s) @ [(p, c, (copy_replicated (bufs s b) (bufs s c))\<lparr>reference := Some b\<rparr>)]"
    "\<And>h. h \<notin> noted (log (module_store.more s)) \<Longrightarrow> h \<noteq> c \<Longrightarrow> thin (bufs t h) = thin (bufs s h)"
    using copy_runs [OF cl mq cW(2) cb tr room r] by metis
  have out_sub: "set (spl_outs st p') \<subseteq> set ?W'" if "p' \<in> set ps" "p' \<noteq> p" for p'
    using that by (force simp: waiting_outs_def)
  have rest: "\<And>ys. set ys \<subseteq> set (spl_ins st) \<union> set ?W' \<Longrightarrow> set ys \<inter> insert c (noted (log (module_store.more s))) = {}"
    using nn W cW by auto
  have q: "queue_rep qi t (spl_ins st)" "queue_rep (Q p) t cs"
    "\<forall>p'\<in>set ps. queue_rep (Q p') t (spl_outs (taken p st) p')"
  proof -
    show "queue_rep qi t (spl_ins st)" using t(7) [OF pi(4)] st rest by (simp add: split_state_def)
    show qp: "queue_rep (Q p) t cs" using t(6) rest [of cs] W by auto
    have "queue_rep (Q p') t (spl_outs st p')" if "p' \<in> set ps" "p' \<noteq> p" for p'
    proof (rule t(7))
      show "Q p' \<noteq> Q p" using pi(3) that p by (auto dest: inj_onD)
      show "queue_rep (Q p') s (spl_outs st p')" using st that by (simp add: split_state_def)
      show "set (spl_outs st p') \<inter> insert c (noted (log (module_store.more s))) = {}" using rest out_sub [OF that] by auto
    qed
    with qp c show "\<forall>p'\<in>set ps. queue_rep (Q p') t (spl_outs (taken p st) p')" by auto
  qed
  have tk: "taking SPLITTER_FN n (length xs + length (spl_ins st)) i t"
    "\<forall>p'\<in>set ps. taking SPLITTER_FN n (length (spl_outs (taken p st) p')) p' t"
    using st t(3,4) pi(1) c taking_kept [OF _ t(2)] by (auto simp: split_state_def taking_def)
  have nt: "noted (log (module_store.more t)) = insert c (noted (log (module_store.more s)))" using t(8) by simp
  have "split_state log B n m i ps qi Q xs (taken p st) t"
    unfolding split_state_def
  proof (intro conjI)
    show "distinct (xs @ spl_ins (taken p st) @ ?W')" using dist W by auto
    show "(set xs \<union> set (spl_ins (taken p st)) \<union> set ?W') \<inter> noted (log (module_store.more t)) = {}"
      using nn dist W nt by auto
    show "\<forall>c\<in>set ?W'. reference (B c) = None" using st W by (auto simp: split_state_def)
    show "sent_flags (splitters t m) = spl_sent (taken p st)" using st t(5) by (simp add: split_state_def)
    show "\<forall>h. h \<notin> noted (log (module_store.more t)) \<longrightarrow>
        thin (bufs t h) = (if h \<in> set ?W' then (thin (B h))\<lparr>bh_length := 0\<rparr> else thin (B h))"
      using th t(9) nt W by auto
  qed (use q tk in \<open>simp_all\<close>)
  moreover have "thin_log log t = thin_log log s @ [event_header B (p, c, Some b)]"
    using t(8) hdr by (cases "bufs s b"; cases "bufs s c"; cases "B b"; cases "B c")
      (simp add: thin_log_def event_header_def thin_def copy_replicated_def)
  ultimately show ?thesis using that t(1,2) by blast
qed


lemma upd_splitter_module:
  fixes s :: "'a module_store_scheme"
  shows "ports (upd_splitter m f s) = ports s" "bufs (upd_splitter m f s) = bufs s" "queues (upd_splitter m f s) = queues s"
    "module_store.more (upd_splitter m f s) = module_store.more s" "splitters (upd_splitter m f s) = (splitters s)(m := f (splitters s m))"
    "kept s (upd_splitter m (\<lambda>d. d\<lparr>sent_flags := g d\<rparr>) s)" "thin_log log (upd_splitter m f s) = thin_log log s"
  by (simp_all add: upd_splitter_def kept_def thin_log_def)

lemma state_sent:
  assumes "split_state log B n m i ps qi Q xs st s"
  shows "split_state log B n m i ps qi Q xs (st\<lparr>spl_sent := x\<rparr>) (upd_splitter m (\<lambda>d. d\<lparr>sent_flags := x\<rparr>) s)"
  using assms by (simp add: split_state_def taking_def upd_splitter_module queue_rep_def)

lemma served_Cons:
  "p \<notin> set ps \<Longrightarrow> served ps (outs(p := tl (outs p))) = served (p # ps) outs"
  "outs p = [] \<Longrightarrow> served (p # ps) outs = served ps outs"
  by (auto simp: served_def)

lemma events_other: "p \<notin> set ps \<Longrightarrow> copy_events b ps (outs(p := x)) = copy_events b ps outs"
  by (induction ps) auto

lemma bits_other: "p \<notin> set ps \<Longrightarrow> copy_bits j ps (outs(p := x)) sent = copy_bits j ps outs sent"
  by (induction ps arbitrary: j sent) auto

lemma send_all_runs:
  assumes cl: "referring_client env n log" and b: "b \<in> set xs"
  shows "split_set_up en k m i ps qi Q s \<Longrightarrow> set qs \<subseteq> set ps \<Longrightarrow> distinct qs \<Longrightarrow>
    split_state log B n m i ps qi Q xs st s \<Longrightarrow> (\<forall>p\<in>set qs. length (spl_outs st p) < 2147483647) \<Longrightarrow>
    \<exists>t. splitter_send_all env m b j qs s = Some (MMAL_SUCCESS, t) \<and> kept s t \<and>
      split_state log B n m i ps qi Q xs
        (st\<lparr>spl_outs := served qs (spl_outs st), spl_sent := copy_bits j qs (spl_outs st) (spl_sent st)\<rparr>) t \<and>
      thin_log log t = thin_log log s @ map (event_header B) (copy_events b qs (spl_outs st))"
proof (induction qs arbitrary: j s st)
  case Nil
  then show ?case by (simp add: served_def)
next
  case (Cons p qs)
  have p: "p \<in> set ps" "p \<notin> set qs" "set qs \<subseteq> set ps" "distinct qs" using Cons.prems(2,3) by auto
  show ?case
  proof (cases "spl_outs st p")
    case Nil
    have "module_queue s p = Some (Q p)" "queue_rep (Q p) s []"
      using Cons.prems(1,4) p(1) Nil by (auto simp: split_set_up_def split_state_def)
    then have out: "splitter_send_output env b p s = Some (MMAL_EAGAIN, s)"
      by (simp add: splitter_send_output_def queue_rep_get_Nil)
    obtain t where "splitter_send_all env m b (j + 1) qs s = Some (MMAL_SUCCESS, t)" "kept s t"
      "split_state log B n m i ps qi Q xs
         (st\<lparr>spl_outs := served qs (spl_outs st), spl_sent := copy_bits (j + 1) qs (spl_outs st) (spl_sent st)\<rparr>) t"
      "thin_log log t = thin_log log s @ map (event_header B) (copy_events b qs (spl_outs st))"
      using Cons.IH [OF Cons.prems(1) p(3,4) Cons.prems(4)] Cons.prems(5) by force
    with out Nil show ?thesis by (intro exI [of _ t]) (simp add: served_Cons(2) [of "spl_outs st" p, OF Nil])
  next
    case (Cons c cs)
    obtain u where u: "splitter_send_output env b p s = Some (MMAL_SUCCESS, u)" "kept s u"
      "split_state log B n m i ps qi Q xs (taken p st) u" "thin_log log u = thin_log log s @ [event_header B (p, c, Some b)]"
      by (rule copy_step [OF cl Cons.prems(1,4) b p(1) Cons]) (use Cons.prems(5) Cons in auto)
    let ?v = "upd_splitter m (\<lambda>d. d\<lparr>sent_flags := sent_flags d OR push_bit j 1\<rparr>) u"
    let ?st = "(taken p st)\<lparr>spl_sent := spl_sent st OR push_bit j 1\<rparr>"
    have "sent_flags (splitters u m) = spl_sent st" using u(3) by (simp add: split_state_def)
    then have "?v = upd_splitter m (\<lambda>d. d\<lparr>sent_flags := spl_sent st OR push_bit j 1\<rparr>) u"
      by (simp add: upd_splitter_def)
    then have sv: "split_state log B n m i ps qi Q xs ?st ?v" using state_sent [OF u(3)] by simp
    have kv: "kept s ?v" by (rule kept_trans [OF u(2) upd_splitter_module(6)])
    have "\<forall>p\<in>set qs. length (spl_outs ?st p) < 2147483647" using Cons.prems(5) p(2) by auto
    from Cons.IH [OF split_set_up_kept [OF Cons.prems(1) kv] p(3,4) sv this, of "j + 1"] obtain t where
      "splitter_send_all env m b (j + 1) qs ?v = Some (MMAL_SUCCESS, t)" "kept ?v t"
      "split_state log B n m i ps qi Q xs
         (?st\<lparr>spl_outs := served qs (spl_outs ?st), spl_sent := copy_bits (j + 1) qs (spl_outs ?st) (spl_sent ?st)\<rparr>) t"
      "thin_log log t = thin_log log ?v @ map (event_header B) (copy_events b qs (spl_outs ?st))" by blast
    moreover have "served qs ((spl_outs st)(p := cs)) = served (p # qs) (spl_outs st)"
      using served_Cons(1) [OF p(2), of "spl_outs st"] Cons by simp
    ultimately show ?thesis using u(1,4) Cons p(2) kept_trans [OF kv, of t]
      by (intro exI [of _ t]) (simp add: upd_splitter_module(7) events_other bits_other)
  qed
qed


lemma thin_put: "thin (bufs (mmal_queue_put (Some q) (Some b) s) h) = thin (bufs s h)"
  using put_only_links [of q b s h] by (auto simp: thin_def)

text \<open>The buffer in hand goes to the end of the input queue.\<close>

lemma state_requeue:
  assumes st: "split_state log B n m i ps qi Q [b] st s" and su: "split_set_up en k m i ps qi Q s"
  shows "split_state log B n m i ps qi Q [] (st\<lparr>spl_ins := spl_ins st @ [b]\<rparr>) (mmal_queue_put (Some qi) (Some b) s)"
proof -
  let ?t = "mmal_queue_put (Some qi) (Some b) s"
  note put = queue_put_module [where s = s and q = "Some qi" and b = "Some b"]
  have d: "distinct (b # spl_ins st @ waiting_outs ps (spl_outs st))" and q: "queue_rep qi s (spl_ins st)"
    using st by (simp_all add: split_state_def)
  have "queue_rep qi ?t (spl_ins st @ [b])" using queue_rep_put [OF q] d by simp
  moreover have "queue_rep (Q p) ?t (spl_outs st p)" if "p \<in> set ps" for p
  proof (rule queue_rep_put_other [OF q])
    show "queue_rep (Q p) s (spl_outs st p)" using st that by (simp add: split_state_def)
    show "Q p \<noteq> qi" using su that by (auto simp: split_set_up_def)
    show "set (spl_outs st p) \<inter> insert b (set (spl_ins st)) = {}" using d waiting_sub [OF that, of "spl_outs st"] by auto
  qed
  ultimately show ?thesis using st
    by (simp add: split_state_def taking_def put thin_put insert_commute Un_assoc)
qed

text \<open>The buffer in hand goes back to the client.\<close>

lemma state_returned:
  fixes s :: "'a module_store_scheme"
  assumes cl: "referring_client env n log" and su: "split_set_up en k m i ps qi Q s"
    and st: "split_state log B n m i ps qi Q [b] st s" and room: "Suc (length (spl_ins st)) < 2147483647"
  obtains t where "mmal_port_buffer_header_callback env i b (upd_buf b (\<lambda>h. h\<lparr>bh_length := 0\<rparr>) s) = Some t" "kept s t"
    "split_state log B n m i ps qi Q [] st t" "thin_log log t = thin_log log s @ [event_header B (i, b, None)]"
proof -
  let ?u = "upd_buf b (\<lambda>h. h\<lparr>bh_length := 0\<rparr>) s"
  have um: "ports ?u = ports s" "queues ?u = queues s" "module_store.more ?u = module_store.more s" "splitters ?u = splitters s"
    by (simp_all add: upd_buf_def)
  have tr: "transit_ok (Suc (length (spl_ins st))) (ports s i)" and cb: "buffer_header_callback (ports s i) = Some (Client_bh_cb n)"
    using st by (simp_all add: split_state_def taking_def)
  obtain t where t: "mmal_port_buffer_header_callback env i b ?u = Some t" "kept ?u t" "transit_ok (length (spl_ins st)) (ports t i)"
    "\<And>q. q \<noteq> i \<Longrightarrow> ports t q = ports ?u q" "queues t = queues ?u" "splitters t = splitters ?u"
    "log (module_store.more t) = log (module_store.more ?u) @ [(i, b, bufs ?u b)]"
    "\<And>h. h \<notin> noted (log (module_store.more ?u)) \<Longrightarrow> h \<noteq> b \<Longrightarrow> same_but_references (bufs t h) (bufs ?u h)"
    by (rule callback_notes [OF cl, of ?u i "length (spl_ins st)" b]) (use tr cb um room in auto)
  have same: "thin (bufs t h) = thin (bufs s h) \<and> bh_next (bufs t h) = bh_next (bufs s h)"
    if "h \<notin> noted (log (module_store.more s))" "h \<noteq> b" for h
    using same_but_references_thin [OF t(8) [of h]] that um by simp
  have d: "distinct (b # spl_ins st @ waiting_outs ps (spl_outs st))"
    and nn: "(insert b (set (spl_ins st)) \<union> set (waiting_outs ps (spl_outs st))) \<inter> noted (log (module_store.more s)) = {}"
    using st by (auto simp: split_state_def)
  have keep: "queue_rep q t xs" if "queue_rep q s xs" "set xs \<subseteq> set (spl_ins st) \<union> set (waiting_outs ps (spl_outs st))" for q xs
    by (rule queue_rep_frame [OF that(1)]) (use that(2) d nn same t(5) um in auto)
  have "queue_rep qi t (spl_ins st)" using keep [of qi "spl_ins st"] st by (simp add: split_state_def)
  moreover have "queue_rep (Q p) t (spl_outs st p)" if "p \<in> set ps" for p
  proof (rule keep)
    show "queue_rep (Q p) s (spl_outs st p)" using st that by (simp add: split_state_def)
    show "set (spl_outs st p) \<subseteq> set (spl_ins st) \<union> set (waiting_outs ps (spl_outs st))" using that by (force simp: waiting_outs_def)
  qed
  moreover have "taking SPLITTER_FN n (length (spl_ins st)) i t"
    using st t(3) kept_sel [OF t(2)] um by (simp add: split_state_def taking_def)
  moreover have "taking SPLITTER_FN n (length (spl_outs st p)) p t" if p: "p \<in> set ps" for p
  proof -
    have "p \<noteq> i" using su p by (auto simp: split_set_up_def)
    then have "ports t p = ports s p" using t(4) um(1) by simp
    moreover have "taking SPLITTER_FN n (length (spl_outs st p)) p s" using st p by (simp add: split_state_def)
    ultimately show ?thesis by (simp add: taking_def)
  qed
  ultimately have w: "split_state log B n m i ps qi Q [] st t"
    using st d nn t(6,7) um same by (simp add: split_state_def)
  have "thin (bufs s b) = thin (B b)" using st d nn by (auto simp: split_state_def)
  then have "thin ((bufs s b)\<lparr>bh_length := 0\<rparr>) = (thin (B b))\<lparr>bh_length := 0\<rparr>"
    by (cases "bufs s b"; cases "B b") (simp add: thin_def)
  then have "thin_log log t = thin_log log s @ [event_header B (i, b, None)]"
    using t(7) um by (simp add: thin_log_def event_header_def)
  with that t(1) kept_trans [OF kept_upd_buf t(2)] w show ?thesis by blast
qed

lemma serve_runs:
  assumes cl: "referring_client env n log" and su: "split_set_up en k m i ps qi Q s"
    and st: "split_state log B n m i ps qi Q [] st s" and ps: "\<forall>p\<in>set ps. length (spl_outs st p) < 2147483647"
    and room: "length (spl_ins st) < 2147483647"
  shows "\<exists>t. splitter_serve env k m s = Some (MMAL_SUCCESS, t) \<and> kept s t \<and>
    split_state log B n m i ps qi Q [] (snd (split_serve en i ps st)) t \<and>
    thin_log log t = thin_log log s @ map (event_header B) (fst (split_serve en i ps st))"
proof -
  have q: "queue_rep qi s (spl_ins st)" using st by (simp add: split_state_def)
  have mq: "module_queue s i = Some qi" "comp_input (components s k) = [i]" using su by (simp_all add: split_set_up_def)
  show ?thesis
  proof (cases "spl_ins st")
    case Nil
    then have "splitter_serve env k m s = Some (MMAL_SUCCESS, s)"
      using q mq by (simp add: splitter_serve_def queue_rep_get_Nil)
    then show ?thesis using Nil st by (intro exI [of _ s]) (simp add: split_serve_def)
  next
    case (Cons b bs)
    have "queue_rep qi s (b # bs)" using q Cons by simp
    then obtain v where v: "mmal_queue_get (Some qi) s = Some (Some b, v)" "queue_rep qi v bs" "bufs v = bufs s"
      "\<forall>q' xs. q' \<noteq> qi \<longrightarrow> queue_rep q' s xs \<longrightarrow> queue_rep q' v xs" using get_from_queue by blast
    note vm = queue_get_module [OF v(1)]
    have "queue_rep (Q p) v (spl_outs st p)" if "p \<in> set ps" for p
      using v(4) st su that by (auto simp: split_state_def split_set_up_def)
    then have sv: "split_state log B n m i ps qi Q [b] (st\<lparr>spl_ins := bs\<rparr>) v"
      using st Cons v(2,3) by (simp add: split_state_def taking_def vm)
    have sub: "set ps \<subseteq> set ps" "distinct ps" using su by (simp_all add: split_set_up_def)
    have suv: "split_set_up en k m i ps qi Q v" by (rule split_set_up_kept [OF su vm(1)])
    define st' where "st' = st\<lparr>spl_ins := bs, spl_outs := served ps (spl_outs st),
      spl_sent := copy_bits 0 ps (spl_outs st) (spl_sent st)\<rparr>"
    obtain w where w: "splitter_send_all env m b 0 ps v = Some (MMAL_SUCCESS, w)" "kept v w"
      "split_state log B n m i ps qi Q [b] st' w"
      "thin_log log w = thin_log log v @ map (event_header B) (copy_events b ps (spl_outs st))"
      using send_all_runs [OF cl _ suv sub sv, of b 0] ps by (auto simp: st'_def)
    have suw: "split_set_up en k m i ps qi Q w" by (rule split_set_up_kept [OF suv w(2)])
    have run: "splitter_serve env k m s = splitter_finish env k m i b MMAL_SUCCESS w"
      using v(1) mq w(1) suv by (simp add: splitter_serve_def split_set_up_def)
    have fl: "sent_flags (splitters w m) = spl_sent st'" "enabled_flags (splitters w m) = en"
      using w(3) suw by (simp_all add: split_state_def split_set_up_def)
    have kw: "kept s w" by (rule kept_trans [OF vm(1) w(2)])
    have lv: "thin_log log v = thin_log log s" by (simp add: thin_log_def vm)
    show ?thesis
    proof (cases "spl_sent st' AND en = en")
      case False
      let ?t = "mmal_queue_put (Some qi) (Some b) w"
      note put = queue_put_module [where s = w and q = "Some qi" and b = "Some b"]
      have "splitter_serve env k m s = Some (MMAL_SUCCESS, ?t)"
        using run fl False suw by (simp add: splitter_finish_def split_set_up_def)
      moreover have "split_serve en i ps st = (copy_events b ps (spl_outs st), st'\<lparr>spl_ins := spl_ins st' @ [b]\<rparr>)"
        using False Cons by (simp add: split_serve_def st'_def Let_def)
      moreover have "kept s ?t" by (rule kept_trans [OF kw put(1)])
      moreover have "thin_log log ?t = thin_log log s @ map (event_header B) (copy_events b ps (spl_outs st))"
        using w(4) lv by (simp add: thin_log_def put)
      ultimately show ?thesis using state_requeue [OF w(3) suw] by auto
    next
      case True
      obtain t where t: "mmal_port_buffer_header_callback env i b (upd_buf b (\<lambda>h. h\<lparr>bh_length := 0\<rparr>) w) = Some t" "kept w t"
        "split_state log B n m i ps qi Q [] st' t" "thin_log log t = thin_log log w @ [event_header B (i, b, None)]"
        by (rule state_returned [OF cl suw w(3)]) (use room Cons in \<open>auto simp: st'_def\<close>)
      let ?t = "upd_splitter m (\<lambda>d. d\<lparr>sent_flags := 0\<rparr>) t"
      have "module_queue w i = Some qi" using suw by (simp add: split_set_up_def)
      then have served: "splitter_serve env k m s = Some (MMAL_SUCCESS, ?t)"
        using run fl True t(1) by (simp only: splitter_finish_def Let_def) simp
      have "split_serve en i ps st = (copy_events b ps (spl_outs st) @ [(i, b, None)], st'\<lparr>spl_sent := 0\<rparr>)"
        using True Cons by (simp add: split_serve_def st'_def Let_def)
      moreover have "kept s ?t" by (rule kept_trans [OF kept_trans [OF kw t(2)] upd_splitter_module(6)])
      moreover have "thin_log log ?t = thin_log log s @ map (event_header B) (copy_events b ps (spl_outs st) @ [(i, b, None)])"
        using t(4) w(4) lv by (simp add: upd_splitter_module)
      ultimately show ?thesis using served state_sent [OF t(3), of 0]
        by (intro exI [of _ ?t] conjI) (simp_all only: fst_conv snd_conv)
    qed
  qed
qed


section \<open>Buffers that are sent to the ports\<close>

lemma state_frame:
  assumes st: "split_state log B n m i ps qi Q xs st s" and k: "kept s t"
    and same: "bufs t = bufs s" "queues t = queues s" "splitters t = splitters s" "module_store.more t = module_store.more s"
    and tr: "\<And>c q. transit_ok c (ports t q) \<longleftrightarrow> transit_ok c (ports s q)"
  shows "split_state log B n m i ps qi Q xs st t"
  using st by (simp add: split_state_def taking_def queue_rep_def same tr kept_sel [OF k])

definition held :: "addr list \<Rightarrow> splitting \<Rightarrow> addr set" where
  "held ps st = set (spl_ins st) \<union> set (waiting_outs ps (spl_outs st))"

text \<open>A buffer that the input port has taken, and one that an output port has taken and queued.\<close>

lemma state_in:
  fixes s :: "'a module_store_scheme"
  assumes st: "split_state log B n m i ps qi Q [] st s" and k: "kept s u" and i: "i \<notin> set ps"
    and u: "transit_ok (Suc (length (spl_ins st))) (ports u i)" "\<And>q. q \<noteq> i \<Longrightarrow> ports u q = ports s q" "queues u = queues s"
      "splitters u = splitters s" "module_store.more u = module_store.more s" "bufs u = bufs s"
    and x: "x \<notin> held ps st" "x \<notin> noted (log (module_store.more s))"
  shows "split_state log B n m i ps qi Q [x] st u"
proof -
  have "ports u p = ports s p" if "p \<in> set ps" for p
    by (rule u(2)) (use that i in auto)
  then show ?thesis using st u x
    by (auto simp: split_state_def taking_def queue_rep_def held_def kept_sel [OF k])
qed

lemma state_out:
  fixes s :: "'a module_store_scheme"
  assumes st: "split_state log B n m i ps qi Q [] st s" and su: "split_set_up en k m i ps qi Q s" and k: "kept s u"
    and p: "p \<in> set ps"
    and u: "transit_ok (Suc (length (spl_outs st p))) (ports u p)" "\<And>q. q \<noteq> p \<Longrightarrow> ports u q = ports s q" "queues u = queues s"
      "splitters u = splitters s" "module_store.more u = module_store.more s" "\<And>h. h \<noteq> x \<Longrightarrow> bufs u h = bufs s h"
      "bufs u x = (bufs s x)\<lparr>bh_length := 0\<rparr>"
    and x: "x \<notin> held ps st" "x \<notin> noted (log (module_store.more s))" "reference (B x) = None"
  shows "split_state log B n m i ps qi Q [] (split_put i p x st) (mmal_queue_put (Some (Q p)) (Some x) u)"
proof -
  let ?t = "mmal_queue_put (Some (Q p)) (Some x) u" and ?os = "(spl_outs st)(p := spl_outs st p @ [x])"
  have pi: "p \<noteq> i" "distinct ps" "inj_on Q (set ps)" "qi \<noteq> Q p" using su p by (auto simp: split_set_up_def)
  then have put: "split_put i p x st = st\<lparr>spl_outs := ?os\<rparr>" by (simp add: split_put_def)
  note qm = queue_put_module [where s = u and q = "Some (Q p)" and b = "Some x"]
  obtain A C where W: "waiting_outs ps (spl_outs st) = A @ spl_outs st p @ C" "waiting_outs ps ?os = A @ (spl_outs st p @ [x]) @ C"
    using waiting_outs_upd [OF p pi(2), of "spl_outs st"] by metis
  have nx: "bh_next (bufs u h) = bh_next (bufs s h)" for h using u(6) [of h] u(7) by (cases "h = x") simp_all
  have frame: "queue_rep q u xs" if "queue_rep q s xs" for q xs by (rule queue_rep_frame [OF that]) (simp_all add: u nx)
  have old: "queue_rep qi s (spl_ins st)" "queue_rep (Q p) s (spl_outs st p)" using st p by (simp_all add: split_state_def)
  have d: "distinct (spl_ins st @ A @ spl_outs st p @ C)" "x \<notin> set (spl_ins st @ A @ spl_outs st p @ C)"
    using st x(1) W(1) by (simp_all add: split_state_def held_def)
  have q: "queue_rep qi ?t (spl_ins st)"
    by (rule queue_rep_put_other [OF frame [OF old(2)] frame [OF old(1)]]) (use pi d in auto)
  have qo: "queue_rep (Q p') ?t (?os p')" if "p' \<in> set ps" for p'
  proof (cases "p' = p")
    case True
    then show ?thesis using queue_rep_put [OF frame [OF old(2)], of x] d by simp
  next
    case False
    have "queue_rep (Q p') s (spl_outs st p')" using st that by (simp add: split_state_def)
    moreover have "set (spl_outs st p') \<inter> set (spl_outs st p) = {}" "x \<notin> set (spl_outs st p')"
      using waiting_disjoint [of ps "spl_outs st" p' p] st that p False d(2) W(1) waiting_sub [OF that, of "spl_outs st"]
      by (auto simp: split_state_def)
    moreover have "Q p' \<noteq> Q p" using pi(3) that p False by (auto dest: inj_onD)
    ultimately have "queue_rep (Q p') ?t (spl_outs st p')"
      by (intro queue_rep_put_other [OF frame [OF old(2)] frame]) auto
    with False show ?thesis by simp
  qed
  have tk: "taking SPLITTER_FN n (length (spl_ins st)) i ?t" "\<forall>p'\<in>set ps. taking SPLITTER_FN n (length (?os p')) p' ?t"
    using st u(1,2) pi(1) by (auto simp: split_state_def taking_def qm kept_sel [OF k])
  have "thin (bufs ?t h) = (if h = x then (thin (bufs s h))\<lparr>bh_length := 0\<rparr> else thin (bufs s h))" for h
    unfolding thin_put using u(6) [of h] u(7) by (cases "bufs s x") (auto simp: thin_def)
  then have th: "\<forall>h. h \<notin> noted (log (module_store.more s)) \<longrightarrow>
      thin (bufs ?t h) = (if h \<in> set (waiting_outs ps ?os) then (thin (B h))\<lparr>bh_length := 0\<rparr> else thin (B h))"
    using st W d by (auto simp: split_state_def)
  have "distinct (spl_ins st @ waiting_outs ps ?os)" using d W(2) by auto
  moreover have "(set (spl_ins st) \<union> set (waiting_outs ps ?os)) \<inter> noted (log (module_store.more s)) = {}"
    using st x(2) W by (auto simp: split_state_def)
  moreover have "\<forall>c\<in>set (waiting_outs ps ?os). reference (B c) = None" using st x(3) W by (auto simp: split_state_def)
  moreover have "sent_flags (splitters u m) = spl_sent st" using st u(4) by (simp add: split_state_def)
  ultimately show ?thesis using q qo tk th unfolding put by (simp add: split_state_def qm u(5))
qed

definition split_allowed ::
  "(addr \<Rightarrow> mmal_buffer_header) \<Rightarrow> addr \<Rightarrow> addr list \<Rightarrow> addr \<times> addr \<Rightarrow> bool" where
  "split_allowed B i ps op \<longleftrightarrow> (case op of (p, x) \<Rightarrow>
     p = i \<and> bh_data (B x) \<noteq> None \<or> p \<in> set ps \<and> reference (B x) = None)"

lemma put_lengths:
  "i \<notin> set ps \<Longrightarrow> p \<in> set (i # ps) \<Longrightarrow> length (spl_ins st) \<le> n \<and> (\<forall>q\<in>set ps. length (spl_outs st q) \<le> n) \<Longrightarrow>
   length (spl_ins (split_put i p x st)) \<le> Suc n \<and> (\<forall>q\<in>set ps. length (spl_outs (split_put i p x st) q) \<le> Suc n)"
  by (auto simp: split_put_def le_Suc_eq)

lemma serve_lengths:
  "length (spl_ins st) \<le> n \<and> (\<forall>q\<in>set ps. length (spl_outs st q) \<le> n) \<Longrightarrow>
   length (spl_ins (snd (split_serve en i ps st))) \<le> n \<and> (\<forall>q\<in>set ps. length (spl_outs (snd (split_serve en i ps st)) q) \<le> n)"
  by (auto simp: split_serve_def Let_def served_def split: list.splits intro: le_trans [OF diff_le_self])

lemma send_step:
  fixes s :: "'a module_store_scheme"
  assumes cl: "referring_client env n log" and su: "split_set_up en k m i ps qi Q s"
    and st: "split_state log B n m i ps qi Q [] st s" and al: "split_allowed B i ps (p, x)"
    and x: "x \<notin> held ps st" "x \<notin> noted (log (module_store.more s))"
    and len: "length (spl_ins st) \<le> c \<and> (\<forall>q\<in>set ps. length (spl_outs st q) \<le> c)" "Suc c < 2147483647"
  shows "\<exists>t. mmal_port_send_buffer (splitter_env env) (Some p) x s = Some (MMAL_SUCCESS, t) \<and> kept s t \<and>
    split_state log B n m i ps qi Q [] (snd (split_serve en i ps (split_put i p x st))) t \<and>
    thin_log log t = thin_log log s @ map (event_header B) (fst (split_serve en i ps (split_put i p x st)))"
proof -
  have ip: "i \<notin> set ps" "p \<in> set (i # ps)" using su al by (auto simp: split_set_up_def split_allowed_def)
  have bx: "thin (bufs s x) = thin (B x)" using st x by (simp add: split_state_def held_def)
  define c' where "c' = (if p = i then length (spl_ins st) else length (spl_outs st p))"
  have "taking SPLITTER_FN n (length (spl_ins st)) i s" "\<forall>p\<in>set ps. taking SPLITTER_FN n (length (spl_outs st p)) p s"
    using st by (simp_all add: split_state_def)
  then have tk: "taking SPLITTER_FN n c' p s" "c' \<le> c" using ip len(1) by (auto simp: c'_def)
  have cap: "bh_data (bufs s x) \<noteq> None \<or> port_capabilities (ports s p) AND MMAL_PORT_CAPABILITY_PASSTHROUGH \<noteq> 0"
  proof (cases "p = i")
    case True
    then show ?thesis using al arg_cong [OF bx, of bh_data] ip(1) by (simp add: split_allowed_def thin_def)
  next
    case False
    then have "port_capabilities (ports s p) = MMAL_PORT_CAPABILITY_PASSTHROUGH" using su ip(2) by (simp add: split_set_up_def)
    then show ?thesis by (simp add: MMAL_PORT_CAPABILITY_PASSTHROUGH_def)
  qed
  obtain u where u: "mmal_port_send_buffer (splitter_env env) (Some p) x s = do { (status, t) \<leftarrow> splitter_port_send env p x u;
       Some (if status \<noteq> MMAL_SUCCESS then (status, in_transit_decrement p t)
             else (status, mmal_port_update_port_stats p MMAL_CORE_STATS_RX t)) }"
    "kept s u" "transit_ok (Suc c') (ports u p)" "\<And>q. q \<noteq> p \<Longrightarrow> ports u q = ports s q" "queues u = queues s"
    "splitters u = splitters s" "module_store.more u = module_store.more s" "\<And>h. h \<noteq> x \<Longrightarrow> bufs u h = bufs s h"
    "bufs u x = (if port_type (ports s p) = MMAL_PORT_TYPE_OUTPUT then (bufs s x)\<lparr>bh_length := 0\<rparr> else bufs s x)"
    by (rule send_to_module [OF tk(1) _ cap, of "splitter_env env"]) (use tk(2) len(2) in \<open>auto simp: splitter_env_def\<close>)
  have suu: "split_set_up en k m i ps qi Q u" by (rule split_set_up_kept [OF su u(2)])
  let ?v = "mmal_queue_put (module_queue u p) (Some x) u" and ?st = "split_put i p x st"
  have kv: "kept s ?v" by (rule kept_trans [OF u(2) queue_put_module(1)])
  have sv: "split_state log B n m i ps qi Q [] ?st ?v"
  proof (cases "p = i")
    case True
    have "port_type (ports s p) = MMAL_PORT_TYPE_INPUT" using su True by (simp add: split_set_up_def)
    then have "bufs u h = bufs s h" for h using u(8) [of h] u(9) by (cases "h = x") simp_all
    then have bu: "bufs u = bufs s" ..
    have mu: "ports u q = ports s q" if "q \<noteq> i" for q using u(4) that True by simp
    have "split_state log B n m i ps qi Q [x] st u"
      by (rule state_in [OF st u(2) ip(1) _ mu u(5-7) bu x]) (use u(3) True in \<open>simp_all add: c'_def\<close>)
    from state_requeue [OF this suu] show ?thesis using True suu by (simp add: split_put_def split_set_up_def)
  next
    case False
    then have p: "p \<in> set ps" using ip by simp
    have rx: "reference (B x) = None" using al False by (simp add: split_allowed_def)
    have "port_type (ports s p) = MMAL_PORT_TYPE_OUTPUT" and mq: "module_queue u p = Some (Q p)"
      using su suu p by (simp_all add: split_set_up_def)
    then have len0: "bufs u x = (bufs s x)\<lparr>bh_length := 0\<rparr>" using u(9) by simp
    have tu: "transit_ok (Suc (length (spl_outs st p))) (ports u p)" using u(3) False by (simp add: c'_def)
    show ?thesis unfolding mq by (rule state_out [OF st su u(2) p tu u(4-8) len0 x rx])
  qed
  have ln: "length (spl_ins ?st) \<le> Suc c" "\<forall>q\<in>set ps. length (spl_outs ?st q) \<le> Suc c"
    using put_lengths [OF ip len(1), of x] by blast+
  have suv: "split_set_up en k m i ps qi Q ?v" by (rule split_set_up_kept [OF su kv])
  obtain w where w: "splitter_serve env k m ?v = Some (MMAL_SUCCESS, w)" "kept ?v w"
    "split_state log B n m i ps qi Q [] (snd (split_serve en i ps ?st)) w"
    "thin_log log w = thin_log log ?v @ map (event_header B) (fst (split_serve en i ps ?st))"
    using serve_runs [OF cl suv sv] ln len(2) by (meson le_less_trans)
  let ?t = "mmal_port_update_port_stats p MMAL_CORE_STATS_RX w"
  note um = update_stats_module [where p = p and d = MMAL_CORE_STATS_RX and s = w]
  have "port_component (ports u p) = k" "comp_module (components u k) = Some m" "\<not> splitter_error (splitters ?v m)"
    using suu suv ip(2) by (auto simp: split_set_up_def)
  then have "splitter_port_send env p x u = Some (MMAL_SUCCESS, w)" using w(1) by (simp add: splitter_port_send_def Let_def)
  with u(1) have run: "mmal_port_send_buffer (splitter_env env) (Some p) x s = Some (MMAL_SUCCESS, ?t)" by simp
  have kt: "kept s ?t" by (rule kept_trans [OF kept_trans [OF kv w(2)] um(1)])
  have "split_state log B n m i ps qi Q [] (snd (split_serve en i ps ?st)) ?t"
    by (rule state_frame [OF w(3) um(1,2,3,4,5)]) (simp only: um(6))
  moreover have "thin_log log ?t = thin_log log s @ map (event_header B) (fst (split_serve en i ps ?st))"
  proof -
    have "thin_log log ?t = thin_log log w" unfolding thin_log_def um(5) ..
    moreover have "thin_log log ?v = thin_log log s" unfolding thin_log_def queue_put_module(3) u(7) ..
    ultimately show ?thesis using w(4) by simp
  qed
  ultimately show ?thesis using run kt by (intro exI [of _ ?t] conjI)
qed

lemma events_held: "(fst \<circ> snd) ` set (copy_events b ps outs) \<subseteq> set (waiting_outs ps outs)"
proof (induction ps)
  case (Cons p ps)
  then show ?case by (cases "outs p") (auto simp: waiting_outs_def)
qed simp

lemma waiting_served: "set (waiting_outs ps (served ps outs)) \<subseteq> set (waiting_outs ps outs)"
proof -
  have "set (tl xs) \<subseteq> set xs" for xs :: "addr list" by (cases xs) auto
  then show ?thesis unfolding waiting_outs_def served_def by auto
qed

lemma serve_held:
  "held ps (snd (split_serve en i ps st)) \<union> (fst \<circ> snd) ` set (fst (split_serve en i ps st)) \<subseteq> held ps st"
  using events_held [of _ ps "spl_outs st"] waiting_served [of ps "spl_outs st"]
  by (cases "spl_ins st") (auto simp: split_serve_def held_def Let_def)

lemma held_put: "i \<notin> set ps \<Longrightarrow> held ps (split_put i p x st) \<subseteq> insert x (held ps st)"
  by (auto simp: held_def split_put_def waiting_outs_def split: if_splits)

lemma noted_thin_log: "noted (log (module_store.more s)) = (fst \<circ> snd) ` set (thin_log log s)"
  by (force simp: noted_def thin_log_def)

lemma event_header_fst: "(fst \<circ> snd) ` set (map (event_header B) es) = (fst \<circ> snd) ` set es"
  by (force simp: event_header_def image_iff split: prod.splits)

text \<open>The calls of the clients, in the order that they are made; the second list has the status of each.\<close>

fun splitter_run ::
  "('a module_store_scheme) port_env \<Rightarrow> (addr \<times> addr) list \<Rightarrow> 'a module_store_scheme \<Rightarrow>
   (mmal_status list \<times> 'a module_store_scheme) option" where
  "splitter_run env [] s = Some ([], s)"
| "splitter_run env ((p, x) # ops) s = do {
     (status, s) \<leftarrow> mmal_port_send_buffer env (Some p) x s;
     (sts, s) \<leftarrow> splitter_run env ops s;
     Some (status # sts, s)
   }"

lemma splitter_runs:
  fixes s :: "'a module_store_scheme"
  assumes cl: "referring_client env n log"
  shows "split_set_up en k m i ps qi Q s \<Longrightarrow> split_state log B n m i ps qi Q [] st s \<Longrightarrow>
    \<forall>op\<in>set ops. split_allowed B i ps op \<Longrightarrow> distinct (map snd ops) \<Longrightarrow>
    snd ` set ops \<inter> (held ps st \<union> noted (log (module_store.more s))) = {} \<Longrightarrow>
    length (spl_ins st) \<le> c \<and> (\<forall>q\<in>set ps. length (spl_outs st q) \<le> c) \<Longrightarrow> c + length ops < 2147483647 \<Longrightarrow>
    \<exists>t. splitter_run (splitter_env env) ops s = Some (replicate (length ops) MMAL_SUCCESS, t) \<and> kept s t \<and>
      split_state log B n m i ps qi Q [] (snd (split_run en i ps ops st)) t \<and>
      thin_log log t = thin_log log s @ map (event_header B) (fst (split_run en i ps ops st))"
proof (induction ops arbitrary: s st c)
  case Nil
  then show ?case by simp
next
  case (Cons op ops)
  obtain p x where op: "op = (p, x)" by (cases op)
  note pr = Cons.prems [unfolded op]
  let ?r = "split_serve en i ps (split_put i p x st)"
  have al: "split_allowed B i ps (p, x)" and xs: "x \<notin> held ps st" "x \<notin> noted (log (module_store.more s))"
    and len: "Suc c < 2147483647" using pr(3,5,7) by auto
  have ip: "i \<notin> set ps" "p \<in> set (i # ps)" using pr(1) al by (auto simp: split_set_up_def split_allowed_def)
  obtain t where t: "mmal_port_send_buffer (splitter_env env) (Some p) x s = Some (MMAL_SUCCESS, t)" "kept s t"
    "split_state log B n m i ps qi Q [] (snd ?r) t" "thin_log log t = thin_log log s @ map (event_header B) (fst ?r)"
    using send_step [OF cl pr(1,2) al xs pr(6) len] by blast
  have "noted (log (module_store.more t)) = noted (log (module_store.more s)) \<union> (fst \<circ> snd) ` set (fst ?r)"
    unfolding noted_thin_log [of log] t(4) set_append image_Un event_header_fst ..
  then have "held ps (snd ?r) \<union> noted (log (module_store.more t)) \<subseteq> insert x (held ps st \<union> noted (log (module_store.more s)))"
    using serve_held [of ps en i "split_put i p x st"] held_put [OF ip(1), of p x st] by auto
  then have fresh: "snd ` set ops \<inter> (held ps (snd ?r) \<union> noted (log (module_store.more t))) = {}"
  proof -
    have "x \<notin> snd ` set ops" "snd ` set ops \<inter> (held ps st \<union> noted (log (module_store.more s))) = {}" using pr(4,5) by auto
    with \<open>held ps (snd ?r) \<union> _ \<subseteq> _\<close> show ?thesis by blast
  qed
  have ln: "length (spl_ins (snd ?r)) \<le> Suc c \<and> (\<forall>q\<in>set ps. length (spl_outs (snd ?r) q) \<le> Suc c)"
    by (rule serve_lengths [OF put_lengths [OF ip pr(6)]])
  have rest: "\<forall>op\<in>set ops. split_allowed B i ps op" "distinct (map snd ops)" "Suc c + length ops < 2147483647"
    using pr(3,4,7) by simp_all
  obtain w where "splitter_run (splitter_env env) ops t = Some (replicate (length ops) MMAL_SUCCESS, w)" "kept t w"
    "split_state log B n m i ps qi Q [] (snd (split_run en i ps ops (snd ?r))) w"
    "thin_log log w = thin_log log t @ map (event_header B) (fst (split_run en i ps ops (snd ?r)))"
    using Cons.IH [OF split_set_up_kept [OF pr(1) t(2)] t(3) rest(1,2) fresh ln rest(3)] by blast
  with t kept_trans [OF t(2), of w] show ?case
    by (intro exI [of _ w]) (simp add: op case_prod_beta Let_def)
qed

definition split_idle ::
  "nat \<Rightarrow> u32 \<Rightarrow> addr \<Rightarrow> addr \<Rightarrow> addr \<Rightarrow> addr list \<Rightarrow> addr \<Rightarrow> (addr \<Rightarrow> addr) \<Rightarrow> 'a module_store_scheme \<Rightarrow> bool" where
  "split_idle n en k m i ps qi Q s \<longleftrightarrow> split_set_up en k m i ps qi Q s \<and> (\<forall>p\<in>set (i # ps). taking SPLITTER_FN n 0 p s) \<and>
     queue_rep qi s [] \<and> (\<forall>p\<in>set ps. queue_rep (Q p) s []) \<and> sent_flags (splitters s m) = 0"

lemma waiting_none [simp]: "waiting_outs ps (\<lambda>_. []) = []"
  by (induction ps) (simp_all add: waiting_outs_def)

lemma split_idle_state: "split_idle n en k m i ps qi Q s \<Longrightarrow> split_state log (bufs s) n m i ps qi Q [] no_buffers s"
  by (simp add: split_idle_def split_state_def no_buffers_def)

text \<open>The buffers that a client may send: none of them twice, none of them given back before, no more than the counters hold.\<close>

definition split_sends ::
  "('a \<Rightarrow> returned list) \<Rightarrow> addr \<Rightarrow> addr list \<Rightarrow> (addr \<times> addr) list \<Rightarrow> 'a module_store_scheme \<Rightarrow> bool" where
  "split_sends log i ps ops s \<longleftrightarrow> (\<forall>op\<in>set ops. split_allowed (bufs s) i ps op) \<and> distinct (map snd ops) \<and>
     snd ` set ops \<inter> noted (log (module_store.more s)) = {} \<and> length ops < 2147483647"

lemma idle_runs:
  assumes "referring_client env n log" "split_idle n en k m i ps qi Q s" "split_sends log i ps ops s"
  shows "\<exists>t. splitter_run (splitter_env env) ops s = Some (replicate (length ops) MMAL_SUCCESS, t) \<and>
      split_state log (bufs s) n m i ps qi Q [] (snd (split_run en i ps ops no_buffers)) t \<and>
      thin_log log t = thin_log log s @ map (event_header (bufs s)) (fst (split_run en i ps ops no_buffers))"
proof -
  have su: "split_set_up en k m i ps qi Q s" using assms(2) by (simp add: split_idle_def)
  have *: "snd ` set ops \<inter> (held ps no_buffers \<union> noted (log (module_store.more s))) = {}"
    "length (spl_ins no_buffers) \<le> 0 \<and> (\<forall>q\<in>set ps. length (spl_outs no_buffers q) \<le> 0)" "0 + length ops < 2147483647"
    using assms(3) by (simp_all add: split_sends_def held_def no_buffers_def)
  show ?thesis
    using splitter_runs [OF assms(1) su split_idle_state [OF assms(2)] _ _ *] assms(3) unfolding split_sends_def by blast
qed

text \<open>
  C19: a splitter that no buffer waits at does what the machine on lists does, whatever buffers are sent to its ports and in whatever
  order: every call succeeds, the client is given back the same buffers in the same order with the same headers, and the
  same buffers wait in the same order, counted in transit.
\<close>

theorem splitter_refines:
  assumes "referring_client env n log" "split_idle n en k m i ps qi Q s" "split_sends log i ps ops s"
  shows "\<exists>t. splitter_run (splitter_env env) ops s = Some (replicate (length ops) MMAL_SUCCESS, t) \<and>
     (let (events, st) = split_run en i ps ops no_buffers in
        thin_log log t = thin_log log s @ map (event_header (bufs s)) events \<and>
        queue_rep qi t (spl_ins st) \<and> transit_buffer_headers (ports t i) = int (length (spl_ins st)) \<and>
        (\<forall>p\<in>set ps. queue_rep (Q p) t (spl_outs st p) \<and> transit_buffer_headers (ports t p) = int (length (spl_outs st p))) \<and>
        sent_flags (splitters t m) = spl_sent st)"
proof -
  obtain t where "splitter_run (splitter_env env) ops s = Some (replicate (length ops) MMAL_SUCCESS, t)"
    "split_state log (bufs s) n m i ps qi Q [] (snd (split_run en i ps ops no_buffers)) t"
    "thin_log log t = thin_log log s @ map (event_header (bufs s)) (fst (split_run en i ps ops no_buffers))"
    using idle_runs [OF assms] by blast
  then show ?thesis by (intro exI [of _ t]) (simp add: case_prod_beta split_state_def taking_def transit_ok_def)
qed

definition split_store :: "(returned list) module_store_scheme" where
  "split_store = pass_store\<lparr>
     components := (\<lambda>_. zero_component\<lparr>comp_module := Some 5, comp_input := [1], comp_output := [2, 3]\<rparr>),
     ports := (\<lambda>p. (ports pass_store p)\<lparr>pf_send := Some SPLITTER_FN\<rparr>),
     splitters := (\<lambda>_. \<lparr>enabled_flags = 3, sent_flags = 0, splitter_error = False\<rparr>)\<rparr>"

lemma noting_refers: "noting_client env n log \<Longrightarrow> referring_client env n log"
  unfolding noting_by_def same_but_references_def by metis

lemma split_store_idle: "split_idle 0 3 3 5 1 [2, 3] 11 (\<lambda>p. 10 + p) split_store"
  by (simp add: split_store_def split_idle_def split_set_up_def taking_def transit_ok_def queue_rep_empty_queue
      zero_port_def)

lemma split_store_sel [simp]: "bufs split_store = (\<lambda>_. zero_buffer_header\<lparr>bh_data := Some 99\<rparr>)"
  "module_store.more split_store = []" "thin_log log split_store = map (\<lambda>(p, b, h). (p, b, thin h)) (log [])"
  by (simp_all add: split_store_def thin_log_def)

theorem splitter_refines_witness:
  "\<exists>t. splitter_run (splitter_env noting_env) [(2, 31), (1, 21), (3, 41)] split_store =
       Some ([MMAL_SUCCESS, MMAL_SUCCESS, MMAL_SUCCESS], t) \<and>
     thin_log (\<lambda>l. l) t = map (event_header (bufs split_store)) [(2, 31, Some 21), (3, 41, Some 21), (1, 21, None)] \<and>
     queue_rep 11 t []"
proof -
  have "split_sends (\<lambda>l. l) 1 [2, 3] [(2, 31), (1, 21), (3, 41)] split_store"
    by (simp add: split_sends_def split_allowed_def zero_buffer_header_def)
  from splitter_refines [OF noting_refers [OF noting_env_notes] split_store_idle this] show ?thesis
    by (auto simp: no_buffers_def split_put_def split_serve_def Let_def served_def simp del: splitter_run.simps)
qed

section \<open>What the machine on lists gets right and wrong\<close>

lemma split_run_append:
  "split_run en i ps (xs @ ys) st =
    (let (es, st) = split_run en i ps xs st; (es', st) = split_run en i ps ys st in (es @ es', st))"
  by (induction xs arbitrary: st) (auto simp: Let_def case_prod_beta)

lemma outputs_wait:
  "spl_ins st = [] \<Longrightarrow> i \<notin> set qs \<Longrightarrow> distinct qs \<Longrightarrow> length cs = length qs \<Longrightarrow>
   split_run en i ps (zip qs cs) st =
     ([], st\<lparr>spl_outs := (\<lambda>p. spl_outs st p @ (case map_of (zip qs cs) p of None \<Rightarrow> [] | Some c \<Rightarrow> [c]))\<rparr>)"
proof (induction qs arbitrary: cs st)
  case Nil
  then show ?case by simp
next
  case (Cons q qs)
  obtain c cs' where cs: "cs = c # cs'" "length cs' = length qs" using Cons.prems(4) by (cases cs) auto
  let ?st = "split_put i q c st"
  have "spl_ins ?st = []" "split_serve en i ps ?st = ([], ?st)"
    using Cons.prems(1,2) by (simp_all add: split_put_def split_serve_def)
  moreover have none: "map_of (zip qs cs') q = None" using Cons.prems(3) cs(2) by (auto simp: map_of_eq_None_iff dest: set_zip_leftD)
  moreover have "(\<lambda>p. ((spl_outs st)(q := spl_outs st q @ [c])) p @ (case map_of (zip qs cs') p of None \<Rightarrow> [] | Some c \<Rightarrow> [c])) =
      (\<lambda>p. spl_outs st p @ (case map_of (zip (q # qs) cs) p of None \<Rightarrow> [] | Some c \<Rightarrow> [c]))"
    by (simp add: fun_eq_iff cs none)
  ultimately show ?case using Cons.IH [of ?st cs'] Cons.prems cs
    by (simp add: split_put_def del: fun_upd_apply)
qed

lemma bit_copy_bits:
  "bit (copy_bits j ps outs sent) l \<longleftrightarrow> bit sent l \<or> l < 32 \<and> (\<exists>h<length ps. l = j + h \<and> outs (ps ! h) \<noteq> [])"
proof (induction ps arbitrary: j sent)
  case (Cons p ps)
  have split: "(\<exists>h<length (p # ps). l = j + h \<and> outs ((p # ps) ! h) \<noteq> []) \<longleftrightarrow>
      l = j \<and> outs p \<noteq> [] \<or> (\<exists>h<length ps. l = j + 1 + h \<and> outs (ps ! h) \<noteq> [])"
    by (auto simp: less_Suc_eq_0_disj)
  show ?case unfolding split copy_bits.simps Cons.IH by (auto simp: bit_simps)
qed simp

lemma every_output_sent:
  assumes "\<forall>p\<in>set ps. outs p \<noteq> []" "\<forall>l. bit en l \<longrightarrow> l < length ps"
  shows "copy_bits 0 ps outs sent AND en = en"
proof (rule bit_eqI)
  fix l assume "possible_bit TYPE(32 word) l"
  then have "l < 32" by simp
  moreover have "outs (ps ! l) \<noteq> []" if "l < length ps" using assms(1) that by simp
  ultimately show "bit (copy_bits 0 ps outs sent AND en) l \<longleftrightarrow> bit en l"
    using assms(2) by (auto simp: bit_and_iff bit_copy_bits)
qed

lemma events_zip:
  "distinct ps \<Longrightarrow> length cs = length ps \<Longrightarrow> copy_events b ps (\<lambda>p. case map_of (zip ps cs) p of None \<Rightarrow> [] | Some c \<Rightarrow> [c]) =
     map (\<lambda>(p, c). (p, c, Some b)) (zip ps cs)"
proof (induction ps arbitrary: cs)
  case (Cons p ps)
  obtain c cs' where cs: "cs = c # cs'" "length cs' = length ps" using Cons.prems(2) by (cases cs) auto
  have "copy_events b ps (\<lambda>q. case map_of (zip (p # ps) cs) q of None \<Rightarrow> [] | Some c \<Rightarrow> [c]) =
    copy_events b ps ((\<lambda>q. case map_of (zip ps cs') q of None \<Rightarrow> [] | Some c \<Rightarrow> [c])(p := [c]))"
    by (rule arg_cong [where f = "copy_events b ps"]) (auto simp: cs)
  then show ?case using Cons cs by (simp add: events_other)
qed simp

text \<open>A round gives every output a buffer, and then one to the input.\<close>

type_synonym split_round = "addr list \<times> addr"

definition round_sends :: "addr \<Rightarrow> addr list \<Rightarrow> split_round \<Rightarrow> (addr \<times> addr) list" where
  "round_sends i ps r = zip ps (fst r) @ [(i, snd r)]"

definition round_events :: "addr \<Rightarrow> addr list \<Rightarrow> split_round \<Rightarrow> split_event list" where
  "round_events i ps r = map (\<lambda>(p, c). (p, c, Some (snd r))) (zip ps (fst r)) @ [(i, snd r, None)]"

lemma round_runs:
  assumes "i \<notin> set ps" "distinct ps" "length (fst r) = length ps" "\<forall>l. bit en l \<longrightarrow> l < length ps"
  shows "split_run en i ps (round_sends i ps r) no_buffers = (round_events i ps r, no_buffers)"
proof -
  let ?outs = "\<lambda>p. case map_of (zip ps (fst r)) p of None \<Rightarrow> [] | Some c \<Rightarrow> [c]"
  have full: "\<forall>p\<in>set ps. ?outs p \<noteq> []"
    using assms(3) by (auto simp: map_of_zip_is_None split: option.splits)
  have "served ps ?outs = (\<lambda>_. [])"
    using assms(3) by (auto simp: served_def fun_eq_iff map_of_eq_None_iff split: option.splits dest!: map_of_SomeD set_zip_leftD)
  then show ?thesis
    using outputs_wait [of no_buffers i ps "fst r" en ps] assms every_output_sent [OF full assms(4)]
    by (simp add: round_sends_def round_events_def split_run_append no_buffers_def split_put_def split_serve_def Let_def events_zip)
qed

lemma rounds_run:
  assumes "i \<notin> set ps" "distinct ps" "\<forall>l. bit en l \<longrightarrow> l < length ps"
  shows "\<forall>r\<in>set rs. length (fst r) = length ps \<Longrightarrow> split_run en i ps (concat (map (round_sends i ps) rs)) no_buffers =
    (concat (map (round_events i ps) rs), no_buffers)"
  by (induction rs) (simp_all add: split_run_append round_runs [OF assms(1,2) _ assms(3)])

text \<open>
  C20: when every output has a buffer waiting before each input buffer comes, every input buffer is replicated into one buffer of
  each output, and then goes back; the rounds follow in order and nothing waits at the end.
\<close>

theorem splitter_copies_to_all:
  assumes "referring_client env n log" "split_idle n en k m i ps qi Q s"
    and "split_sends log i ps (concat (map (round_sends i ps) rs)) s"
    and "\<forall>r\<in>set rs. length (fst r) = length ps" "\<forall>l. bit en l \<longrightarrow> l < length ps"
  shows "\<exists>sts t. splitter_run (splitter_env env) (concat (map (round_sends i ps) rs)) s = Some (sts, t) \<and>
     set sts \<subseteq> {MMAL_SUCCESS} \<and>
     thin_log log t = thin_log log s @ map (event_header (bufs s)) (concat (map (round_events i ps) rs)) \<and>
     queue_rep qi t [] \<and> (\<forall>p\<in>set ps. queue_rep (Q p) t [])"
proof -
  have "i \<notin> set ps" "distinct ps" using assms(2) by (simp_all add: split_idle_def split_set_up_def)
  then have run: "split_run en i ps (concat (map (round_sends i ps) rs)) no_buffers = (concat (map (round_events i ps) rs), no_buffers)"
    using rounds_run [OF _ _ assms(5,4)] by blast
  obtain t where "splitter_run (splitter_env env) (concat (map (round_sends i ps) rs)) s =
      Some (replicate (length (concat (map (round_sends i ps) rs))) MMAL_SUCCESS, t)"
    "split_state log (bufs s) n m i ps qi Q [] no_buffers t"
    "thin_log log t = thin_log log s @ map (event_header (bufs s)) (concat (map (round_events i ps) rs))"
    using idle_runs [OF assms(1-3)] unfolding run fst_conv snd_conv by blast
  then show ?thesis by (intro exI) (auto simp: split_state_def no_buffers_def)
qed

theorem splitter_copies_to_all_witness:
  "\<exists>sts t. splitter_run (splitter_env noting_env) [(2, 31), (3, 41), (1, 21)] split_store = Some (sts, t) \<and>
     thin_log (\<lambda>l. l) t = map (event_header (bufs split_store)) [(2, 31, Some 21), (3, 41, Some 21), (1, 21, None)]"
proof -
  have b: "\<forall>l. bit (3 :: u32) l \<longrightarrow> l < length [2 :: nat, 3]"
    by (auto simp: bit_numeral_rec bit_1_iff split: nat.splits)
  have "split_sends (\<lambda>l. l) 1 [2, 3] (concat (map (round_sends 1 [2, 3]) [([31, 41], 21)])) split_store"
    by (simp add: split_sends_def split_allowed_def round_sends_def zero_buffer_header_def)
  from splitter_copies_to_all [OF noting_refers [OF noting_env_notes] split_store_idle this _ b] show ?thesis
    by (fastforce simp: round_sends_def round_events_def)
qed

text \<open>
  C21: when the inputs come first, an input buffer that was not replicated to every output yet goes behind the others, but the
  outputs that were served are noted for the splitter and not for the buffer.  With two inputs waiting, the first output gets
  the second buffer only, the second output the first buffer only, and the first buffer goes back to the client as done.
\<close>

theorem splitter_loses_copies:
  assumes "referring_client env n log" "split_idle n 3 k m i [p, q] qi Q s"
    and "split_sends log i [p, q] [(i, b1), (i, b2), (p, c), (q, d)] s"
  shows "\<exists>sts t. splitter_run (splitter_env env) [(i, b1), (i, b2), (p, c), (q, d)] s = Some (sts, t) \<and>
     thin_log log t = thin_log log s @ map (event_header (bufs s)) [(p, c, Some b2), (q, d, Some b1), (i, b1, None)] \<and>
     queue_rep qi t [b2] \<and> sent_flags (splitters t m) = 0"
proof -
  have d: "p \<noteq> q" "p \<noteq> i" "q \<noteq> i" using assms(2) by (auto simp: split_idle_def split_set_up_def)
  have "split_run 3 i [p, q] [(i, b1), (i, b2), (p, c), (q, d)] no_buffers =
      ([(p, c, Some b2), (q, d, Some b1), (i, b1, None)], no_buffers\<lparr>spl_ins := [b2]\<rparr>)"
    using d by (simp add: no_buffers_def split_put_def split_serve_def Let_def served_def fun_eq_iff)
  with idle_runs [OF assms] show ?thesis by (auto simp: split_state_def no_buffers_def)
qed

theorem splitter_loses_copies_witness:
  "\<exists>sts t. splitter_run (splitter_env noting_env) [(1, 21), (1, 22), (2, 31), (3, 41)] split_store = Some (sts, t) \<and>
     thin_log (\<lambda>l. l) t = map (event_header (bufs split_store)) [(2, 31, Some 22), (3, 41, Some 21), (1, 21, None)]"
proof -
  have "split_sends (\<lambda>l. l) 1 [2, 3] [(1, 21), (1, 22), (2, 31), (3, 41)] split_store"
    by (simp add: split_sends_def split_allowed_def zero_buffer_header_def)
  from splitter_loses_copies [OF noting_refers [OF noting_env_notes] split_store_idle this] show ?thesis by auto
qed

end
