(* ===== verification/MsgQueue.thy ===== *)
theory MsgQueue
  imports Blockpool
begin

text \<open>
  Message queues between threads, \<^verbatim>\<open>vcos/generic/vcos_msgqueue.c\<close>: a queue is a linked list of messages with a semaphore that
  counts them, a message knows whom its reply goes to, and pools hand out messages from a block pool.  Here the operations run
  one after the other; \<open>None\<close> is a wait that blocks or a null pointer that is read.
\<close>

section \<open>Data\<close>

definition VCOS_MSGQ_MAGIC :: u32 where "VCOS_MSGQ_MAGIC = 0x5147534d"
definition MSG_REPLY_BIT :: u32 where "MSG_REPLY_BIT = push_bit 31 1"

text \<open>A waiter, by the function that it is notified with: a queue, a pool, or the semaphore on the stack of a thread.\<close>

datatype msg_waiter = Waiting_queue addr | Waiting_pool addr | Waiting_thread addr

record vcos_msg =
  msg_magic :: u32
  msg_code :: u32
  msg_next :: "addr option"
  msg_src_thread :: addr
  msg_waiting :: "msg_waiter option"
  msg_pool :: "addr option"

record msgqueue =
  mq_head :: "addr option"
  mq_tail :: "addr option"
  mq_sem :: nat

record msgq_pool =
  mp_blockpool :: blockpool
  mp_sem :: nat
  mp_magic :: u32

record msg_store = bp_store +
  msgs :: "addr \<Rightarrow> vcos_msg"
  msgqs :: "addr \<Rightarrow> msgqueue"
  msgq_pools :: "addr \<Rightarrow> msgq_pool"
  waitsems :: "addr \<Rightarrow> nat"
  current_thread :: addr

definition upd_msg :: "addr \<Rightarrow> (vcos_msg \<Rightarrow> vcos_msg) \<Rightarrow> 'a msg_store_scheme \<Rightarrow> 'a msg_store_scheme" where
  "upd_msg m f s = s\<lparr>msgs := (msgs s)(m := f (msgs s m))\<rparr>"

definition upd_msgq :: "addr \<Rightarrow> (msgqueue \<Rightarrow> msgqueue) \<Rightarrow> 'a msg_store_scheme \<Rightarrow> 'a msg_store_scheme" where
  "upd_msgq q f s = s\<lparr>msgqs := (msgqs s)(q := f (msgqs s q))\<rparr>"

definition upd_msgpool :: "addr \<Rightarrow> (msgq_pool \<Rightarrow> msgq_pool) \<Rightarrow> 'a msg_store_scheme \<Rightarrow> 'a msg_store_scheme" where
  "upd_msgpool p f s = s\<lparr>msgq_pools := (msgq_pools s)(p := f (msgq_pools s p))\<rparr>"

definition zero_msg :: vcos_msg where
  "zero_msg = \<lparr>msg_magic = 0, msg_code = 0, msg_next = None, msg_src_thread = 0, msg_waiting = None, msg_pool = None\<rparr>"

definition vcos_msg_init :: "addr \<Rightarrow> 'a msg_store_scheme \<Rightarrow> 'a msg_store_scheme" where
  "vcos_msg_init m s =
     upd_msg m (\<lambda>d. d\<lparr>msg_magic := VCOS_MSGQ_MAGIC, msg_next := None, msg_waiting := None, msg_pool := None\<rparr>) s"

section \<open>Queues\<close>

definition vcos_msgq_create_internal :: "addr \<Rightarrow> 'a msg_store_scheme \<Rightarrow> vcos_status \<times> 'a msg_store_scheme" where
  "vcos_msgq_create_internal q s =
     (let s = upd_msgq q (\<lambda>_. \<lparr>mq_head = None, mq_tail = None, mq_sem = 0\<rparr>) s;
          (made, s) = vcos_create (Semaphore q) s
      in if \<not> made then (VCOS_ENOSPC, s)
         else let (made, s) = vcos_create (Mutex q) s
              in if \<not> made then (VCOS_ENOSPC, vcos_delete (Semaphore q) s) else (VCOS_SUCCESS, s))"

definition vcos_msgq_create :: "addr \<Rightarrow> 'a msg_store_scheme \<Rightarrow> vcos_status \<times> 'a msg_store_scheme" where
  "vcos_msgq_create q s = vcos_msgq_create_internal q s"

definition vcos_msgq_delete_internal :: "addr \<Rightarrow> 'a msg_store_scheme \<Rightarrow> 'a msg_store_scheme" where
  "vcos_msgq_delete_internal q s = vcos_delete (Mutex q) (vcos_delete (Semaphore q) s)"

definition vcos_msgq_delete :: "addr \<Rightarrow> 'a msg_store_scheme \<Rightarrow> 'a msg_store_scheme" where
  "vcos_msgq_delete q s = vcos_msgq_delete_internal q s"

definition msgq_append :: "addr \<Rightarrow> addr \<Rightarrow> 'a msg_store_scheme \<Rightarrow> 'a msg_store_scheme option" where
  "msgq_append q m s =
     (if mq_head (msgqs s q) = None then Some (upd_msgq q (\<lambda>d. d\<lparr>mq_head := Some m, mq_tail := Some m\<rparr>) s)
      else case mq_tail (msgqs s q) of
        None \<Rightarrow> None
      | Some t \<Rightarrow> Some (upd_msgq q (\<lambda>d. d\<lparr>mq_tail := Some m\<rparr>) (upd_msg t (\<lambda>d. d\<lparr>msg_next := Some m\<rparr>) s)))"

definition post_msgq :: "addr \<Rightarrow> 'a msg_store_scheme \<Rightarrow> 'a msg_store_scheme" where
  "post_msgq q s = upd_msgq q (\<lambda>d. d\<lparr>mq_sem := vcos_semaphore_post (mq_sem d)\<rparr>) s"

definition vcos_msg_send_helper ::
  "msg_waiter option \<Rightarrow> addr \<Rightarrow> u32 \<Rightarrow> addr \<Rightarrow> 'a msg_store_scheme \<Rightarrow> 'a msg_store_scheme option" where
  "vcos_msg_send_helper waiter dest code m s = do {
     let s = upd_msg m (\<lambda>d. d\<lparr>msg_code := code\<rparr>) s;
     let s = (if waiter \<noteq> None then upd_msg m (\<lambda>d. d\<lparr>msg_waiting := waiter\<rparr>) s else s);
     let s = upd_msg m (\<lambda>d. d\<lparr>msg_next := None, msg_src_thread := current_thread s\<rparr>) s;
     s \<leftarrow> msgq_append dest m s;
     Some (post_msgq dest s)
   }"

text \<open>Unlinking the first message, which \<open>vcos_msg_wait\<close> and \<open>vcos_msg_peek\<close> do in the same way.\<close>

definition unlink_first :: "addr \<Rightarrow> addr \<Rightarrow> 'a msg_store_scheme \<Rightarrow> 'a msg_store_scheme" where
  "unlink_first q m s =
     (let nxt = msg_next (msgs s m); s = upd_msgq q (\<lambda>d. d\<lparr>mq_head := nxt\<rparr>) s
      in if nxt = None then upd_msgq q (\<lambda>d. d\<lparr>mq_tail := None\<rparr>) s else s)"

definition wait_msgq :: "addr \<Rightarrow> 'a msg_store_scheme \<Rightarrow> 'a msg_store_scheme option" where
  "wait_msgq q s = map_option (\<lambda>c. upd_msgq q (\<lambda>d. d\<lparr>mq_sem := c\<rparr>) s) (vcos_semaphore_wait (mq_sem (msgqs s q)))"

definition vcos_msg_wait :: "addr \<Rightarrow> 'a msg_store_scheme \<Rightarrow> (addr \<times> 'a msg_store_scheme) option" where
  "vcos_msg_wait q s = do {
     s \<leftarrow> wait_msgq q s;
     m \<leftarrow> mq_head (msgqs s q);
     Some (m, unlink_first q m s)
   }"

definition vcos_msg_peek :: "addr \<Rightarrow> 'a msg_store_scheme \<Rightarrow> (addr option \<times> 'a msg_store_scheme) option" where
  "vcos_msg_peek q s =
     (case mq_head (msgqs s q) of
        None \<Rightarrow> Some (None, s)
      | Some m \<Rightarrow> map_option (Pair (Some m)) (wait_msgq q (unlink_first q m s)))"

definition vcos_msg_send :: "addr \<Rightarrow> u32 \<Rightarrow> addr \<Rightarrow> 'a msg_store_scheme \<Rightarrow> 'a msg_store_scheme option" where
  "vcos_msg_send dest code m s = vcos_msg_send_helper None dest code m s"

definition vcos_msg_set_source :: "addr \<Rightarrow> addr \<Rightarrow> 'a msg_store_scheme \<Rightarrow> 'a msg_store_scheme" where
  "vcos_msg_set_source m q s = upd_msg m (\<lambda>d. d\<lparr>msg_waiting := Some (Waiting_queue q)\<rparr>) s"

text \<open>A reply to a queue: the message is appended as it is.\<close>

definition vcos_msgq_queue_waiter_on_reply :: "addr \<Rightarrow> addr \<Rightarrow> 'a msg_store_scheme \<Rightarrow> 'a msg_store_scheme option" where
  "vcos_msgq_queue_waiter_on_reply q m s = map_option (post_msgq q) (msgq_append q m s)"

section \<open>A thread that waits for its reply\<close>

definition vcos_msgq_simple_waiter_init :: "addr \<Rightarrow> 'a msg_store_scheme \<Rightarrow> vcos_status \<times> 'a msg_store_scheme" where
  "vcos_msgq_simple_waiter_init w s =
     (let (made, s) = vcos_create (Semaphore w) s
      in if made then (VCOS_SUCCESS, s\<lparr>waitsems := (waitsems s)(w := 0)\<rparr>) else (VCOS_ENOSPC, s))"

definition vcos_msgq_simple_waiter_deinit :: "addr \<Rightarrow> 'a msg_store_scheme \<Rightarrow> 'a msg_store_scheme" where
  "vcos_msgq_simple_waiter_deinit w s = vcos_delete (Semaphore w) s"

definition vcos_msgq_simple_waiter_on_reply :: "addr \<Rightarrow> 'a msg_store_scheme \<Rightarrow> 'a msg_store_scheme" where
  "vcos_msgq_simple_waiter_on_reply w s = s\<lparr>waitsems := (waitsems s)(w := vcos_semaphore_post (waitsems s w))\<rparr>"

text \<open>\<open>w\<close> is where the waiter is on the stack, \<open>meanwhile\<close> what the other threads do until the semaphore is waited on.\<close>

definition vcos_msg_sendwait ::
  "('a msg_store_scheme \<Rightarrow> 'a msg_store_scheme option) \<Rightarrow> addr \<Rightarrow> addr \<Rightarrow> u32 \<Rightarrow> addr \<Rightarrow> 'a msg_store_scheme \<Rightarrow>
   (vcos_status \<times> 'a msg_store_scheme) option" where
  "vcos_msg_sendwait meanwhile w dest code m s = do {
     let (st, s) = vcos_msgq_simple_waiter_init w s;
     if st \<noteq> VCOS_SUCCESS then Some (st, s)
     else do {
       s \<leftarrow> vcos_msg_send_helper (Some (Waiting_thread w)) dest code m s;
       s \<leftarrow> meanwhile s;
       c \<leftarrow> vcos_semaphore_wait (waitsems s w);
       Some (VCOS_SUCCESS, vcos_msgq_simple_waiter_deinit w (s\<lparr>waitsems := (waitsems s)(w := c)\<rparr>))
     }
   }"

section \<open>Pools of messages\<close>

definition sizeof_VCOS_MSG_T :: u32 where "sizeof_VCOS_MSG_T = 24"

definition vcos_msgq_pool_create ::
  "addr \<Rightarrow> u32 \<Rightarrow> u32 \<Rightarrow> 'a msg_store_scheme \<Rightarrow> (vcos_status \<times> 'a msg_store_scheme) option" where
  "vcos_msgq_pool_create p count payload_size s =
     (let (status, bp, s) = vcos_generic_blockpool_create_on_heap (mp_blockpool (msgq_pools s p)) count
            (payload_size + sizeof_VCOS_MSG_T) VCOS_BLOCKPOOL_ALIGN_DEFAULT s;
          s = upd_msgpool p (\<lambda>d. d\<lparr>mp_blockpool := bp\<rparr>) s
      in if status \<noteq> VCOS_SUCCESS then Some (status, s)
         else let (made, s) = vcos_create (Semaphore p) s
              in if \<not> made then map_option (Pair VCOS_ENOSPC) (vcos_generic_blockpool_delete (Some bp) s)
                 else Some (VCOS_SUCCESS, upd_msgpool p (\<lambda>d. d\<lparr>mp_sem := unat count, mp_magic := VCOS_MSGQ_MAGIC\<rparr>) s))"

definition vcos_msgq_pool_delete :: "addr \<Rightarrow> 'a msg_store_scheme \<Rightarrow> 'a msg_store_scheme option" where
  "vcos_msgq_pool_delete p s =
     map_option (vcos_delete (Semaphore p)) (vcos_generic_blockpool_delete (Some (mp_blockpool (msgq_pools s p))) s)"

text \<open>A block that was cleared becomes a message; a null block would be written to.\<close>

definition take_message :: "addr \<Rightarrow> 'a msg_store_scheme \<Rightarrow> (addr \<times> 'a msg_store_scheme) option" where
  "take_message p s = do {
     (b, bp, s) \<leftarrow> vcos_generic_blockpool_calloc (mp_blockpool (msgq_pools s p)) s;
     let s = upd_msgpool p (\<lambda>d. d\<lparr>mp_blockpool := bp\<rparr>) s;
     m \<leftarrow> b;
     Some (m, upd_msg m (\<lambda>_. zero_msg\<lparr>msg_magic := VCOS_MSGQ_MAGIC, msg_waiting := Some (Waiting_pool p), msg_pool := Some p\<rparr>) s)
   }"

definition vcos_msgq_pool_alloc :: "addr \<Rightarrow> 'a msg_store_scheme \<Rightarrow> (addr option \<times> 'a msg_store_scheme) option" where
  "vcos_msgq_pool_alloc p s =
     (case vcos_semaphore_wait (mp_sem (msgq_pools s p)) of
        None \<Rightarrow> Some (None, s)
      | Some c \<Rightarrow> map_option (apfst Some) (take_message p (upd_msgpool p (\<lambda>d. d\<lparr>mp_sem := c\<rparr>) s)))"

definition vcos_msgq_pool_wait :: "addr \<Rightarrow> 'a msg_store_scheme \<Rightarrow> (addr \<times> 'a msg_store_scheme) option" where
  "vcos_msgq_pool_wait p s = do {
     c \<leftarrow> vcos_semaphore_wait (mp_sem (msgq_pools s p));
     take_message p (upd_msgpool p (\<lambda>d. d\<lparr>mp_sem := c\<rparr>) s)
   }"

definition vcos_msgq_pool_free :: "addr option \<Rightarrow> 'a msg_store_scheme \<Rightarrow> 'a msg_store_scheme option" where
  "vcos_msgq_pool_free msg s =
     (case msg of
        None \<Rightarrow> Some s
      | Some m \<Rightarrow> do {
          p \<leftarrow> msg_pool (msgs s m);
          (bp, s) \<leftarrow> vcos_generic_blockpool_free (Some m) (mp_blockpool (msgq_pools s p)) s;
          Some (upd_msgpool p (\<lambda>d. d\<lparr>mp_blockpool := bp, mp_sem := vcos_semaphore_post (mp_sem d)\<rparr>) s)
        })"

definition vcos_msgq_pool_on_reply :: "addr \<Rightarrow> 'a msg_store_scheme \<Rightarrow> 'a msg_store_scheme option" where
  "vcos_msgq_pool_on_reply m s = vcos_msgq_pool_free (Some m) s"

text \<open>A reply goes to the waiter; without one it is only logged.\<close>

definition vcos_msg_reply :: "addr \<Rightarrow> 'a msg_store_scheme \<Rightarrow> 'a msg_store_scheme option" where
  "vcos_msg_reply m s =
     (let s = upd_msg m (\<lambda>d. d\<lparr>msg_code := msg_code d OR MSG_REPLY_BIT\<rparr>) s
      in case msg_waiting (msgs s m) of
           None \<Rightarrow> Some s
         | Some (Waiting_queue q) \<Rightarrow> vcos_msgq_queue_waiter_on_reply q m s
         | Some (Waiting_pool p) \<Rightarrow> vcos_msgq_pool_on_reply m s
         | Some (Waiting_thread w) \<Rightarrow> Some (vcos_msgq_simple_waiter_on_reply w s))"

lemma upd_msg_sel [simp]:
  "msgs (upd_msg m f s) = (msgs s)(m := f (msgs s m))" "msgqs (upd_msg m f s) = msgqs s"
  "msgq_pools (upd_msg m f s) = msgq_pools s" "waitsems (upd_msg m f s) = waitsems s"
  "current_thread (upd_msg m f s) = current_thread s" "owners (upd_msg m f s) = owners s"
  by (simp_all add: upd_msg_def)

lemma upd_msgq_sel [simp]:
  "msgqs (upd_msgq q f s) = (msgqs s)(q := f (msgqs s q))" "msgs (upd_msgq q f s) = msgs s"
  "msgq_pools (upd_msgq q f s) = msgq_pools s" "waitsems (upd_msgq q f s) = waitsems s"
  "current_thread (upd_msgq q f s) = current_thread s" "owners (upd_msgq q f s) = owners s"
  by (simp_all add: upd_msgq_def)

lemma upd_msgpool_sel [simp]:
  "msgq_pools (upd_msgpool p f s) = (msgq_pools s)(p := f (msgq_pools s p))" "msgs (upd_msgpool p f s) = msgs s"
  "msgqs (upd_msgpool p f s) = msgqs s" "waitsems (upd_msgpool p f s) = waitsems s"
  "current_thread (upd_msgpool p f s) = current_thread s" "owners (upd_msgpool p f s) = owners s"
  by (simp_all add: upd_msgpool_def)

section \<open>A queue is a channel\<close>

text \<open>What threads do with a channel of messages: send one that is not in it, wait for one, or look for one.\<close>

datatype channel_op = Send addr | Receive | Poll

fun channel_run ::
  "(addr \<Rightarrow> 's \<Rightarrow> 's option) \<Rightarrow> ('s \<Rightarrow> (addr \<times> 's) option) \<Rightarrow> ('s \<Rightarrow> (addr option \<times> 's) option) \<Rightarrow>
   channel_op list \<Rightarrow> 's \<Rightarrow> (addr option list \<times> 's) option" where
  "channel_run put fetch poll [] s = Some ([], s)"
| "channel_run put fetch poll (op # ops) s = do {
     (r, s) \<leftarrow> (case op of
        Send m \<Rightarrow> map_option (Pair None) (put m s)
      | Receive \<Rightarrow> map_option (apfst Some) (fetch s)
      | Poll \<Rightarrow> poll s);
     (rs, s) \<leftarrow> channel_run put fetch poll ops s;
     Some (r # rs, s)
   }"

abbreviation list_channel :: "channel_op list \<Rightarrow> addr list \<Rightarrow> (addr option list \<times> addr list) option" where
  "list_channel \<equiv> channel_run (\<lambda>m xs. Some (xs @ [m]))
     (\<lambda>xs. case xs of [] \<Rightarrow> None | x # xs \<Rightarrow> Some (x, xs))
     (\<lambda>xs. case xs of [] \<Rightarrow> Some (None, []) | x # xs \<Rightarrow> Some (Some x, xs))"

fun channel_allowed :: "channel_op list \<Rightarrow> addr list \<Rightarrow> bool" where
  "channel_allowed [] xs \<longleftrightarrow> True"
| "channel_allowed (Send m # ops) xs \<longleftrightarrow> m \<notin> set xs \<and> channel_allowed ops (xs @ [m])"
| "channel_allowed (op # ops) xs \<longleftrightarrow> channel_allowed ops (tl xs)"

locale channel =
  fixes rep :: "'s \<Rightarrow> addr list \<Rightarrow> bool"
    and put :: "addr \<Rightarrow> 's \<Rightarrow> 's option"
    and fetch :: "'s \<Rightarrow> (addr \<times> 's) option"
    and poll :: "'s \<Rightarrow> (addr option \<times> 's) option"
  assumes rep_put: "rep s xs \<Longrightarrow> m \<notin> set xs \<Longrightarrow> \<exists>t. put m s = Some t \<and> rep t (xs @ [m])"
    and rep_fetch_Nil: "rep s [] \<Longrightarrow> fetch s = None"
    and rep_fetch: "rep s (x # xs) \<Longrightarrow> \<exists>t. fetch s = Some (x, t) \<and> rep t xs"
    and rep_poll_Nil: "rep s [] \<Longrightarrow> \<exists>t. poll s = Some (None, t) \<and> rep t []"
    and rep_poll: "rep s (x # xs) \<Longrightarrow> \<exists>t. poll s = Some (Some x, t) \<and> rep t xs"
begin

lemma channel_refines:
  "rep s xs \<Longrightarrow> channel_allowed ops xs \<Longrightarrow>
   (case list_channel ops xs of
      None \<Rightarrow> channel_run put fetch poll ops s = None
    | Some (rs, ys) \<Rightarrow> \<exists>t. channel_run put fetch poll ops s = Some (rs, t) \<and> rep t ys)"
proof (induction ops arbitrary: s xs)
  case Nil
  then show ?case by simp
next
  case (Cons op ops)
  show ?case
  proof (cases op)
    case (Send m)
    then obtain t where "put m s = Some t" "rep t (xs @ [m])" using Cons.prems rep_put by fastforce
    then show ?thesis using Cons.IH [of t "xs @ [m]"] Cons.prems Send by (auto split: option.splits)
  next
    case Receive
    show ?thesis
    proof (cases xs)
      case Nil
      then show ?thesis using rep_fetch_Nil Cons.prems(1) Receive by simp
    next
      case (Cons y ys)
      then obtain t where "fetch s = Some (y, t)" "rep t ys" using Cons.prems rep_fetch by blast
      then show ?thesis using Cons.IH [of t ys] Cons.prems Receive Cons by (auto split: option.splits)
    qed
  next
    case Poll
    show ?thesis
    proof (cases xs)
      case Nil
      then obtain t where "poll s = Some (None, t)" "rep t []" using Cons.prems(1) rep_poll_Nil by blast
      then show ?thesis using Cons.IH [of t "[]"] Cons.prems Poll Nil by (auto split: option.splits)
    next
      case (Cons y ys)
      then obtain t where "poll s = Some (Some y, t)" "rep t ys" using Cons.prems rep_poll by blast
      then show ?thesis using Cons.IH [of t ys] Cons.prems Poll Cons by (auto split: option.splits)
    qed
  qed
qed

end

text \<open>The messages in a queue, linked from the first to the last and counted by the semaphore.\<close>

definition msgq_rep :: "addr \<Rightarrow> 'a msg_store_scheme \<Rightarrow> addr list \<Rightarrow> bool" where
  "msgq_rep q s xs \<longleftrightarrow> lseg (\<lambda>m. msg_next (msgs s m)) (mq_head (msgqs s q)) xs None \<and>
     mq_tail (msgqs s q) = (if xs = [] then None else Some (last xs)) \<and> mq_sem (msgqs s q) = length xs \<and> distinct xs"

lemma msgq_rep_Nil: "msgq_rep q s [] \<longleftrightarrow> mq_head (msgqs s q) = None \<and> mq_tail (msgqs s q) = None \<and> mq_sem (msgqs s q) = 0"
  by (auto simp: msgq_rep_def)

lemma append_rep:
  assumes r: "msgq_rep q s xs" and m: "m \<notin> set xs" "msg_next (msgs s m) = None"
  shows "\<exists>t. msgq_append q m s = Some t \<and> msgq_rep q (post_msgq q t) (xs @ [m]) \<and> msgq_pools t = msgq_pools s \<and> owners t = owners s \<and>
    (\<forall>q'. q' \<noteq> q \<longrightarrow> msgqs t q' = msgqs s q') \<and>
    (\<forall>h. msgs t h = (if xs \<noteq> [] \<and> h = last xs then (msgs s h)\<lparr>msg_next := Some m\<rparr> else msgs s h))"
proof (cases "xs = []")
  case True
  then show ?thesis using r m by (simp add: msgq_append_def msgq_rep_def post_msgq_def vcos_semaphore_post_def)
next
  case False
  then obtain ys y where xs: "xs = ys @ [y]" by (cases xs rule: rev_cases) auto
  then have y: "y \<notin> set ys" "y \<noteq> m" "m \<notin> set ys" using r m by (auto simp: msgq_rep_def)
  have hd: "mq_head (msgqs s q) \<noteq> None" "mq_tail (msgqs s q) = Some y" using r xs lseg_nonempty_head by (fastforce simp: msgq_rep_def)+
  let ?t = "upd_msgq q (\<lambda>d. d\<lparr>mq_tail := Some m\<rparr>) (upd_msg y (\<lambda>d. d\<lparr>msg_next := Some m\<rparr>) s)"
  let ?nx = "\<lambda>h. msg_next (msgs s h)"
  have nx: "(\<lambda>h. msg_next (msgs ?t h)) = ?nx(y := Some m)" by (auto simp: fun_eq_iff)
  have seg: "lseg ?nx (mq_head (msgqs s q)) ys (Some y)" using r xs by (auto simp: msgq_rep_def lseg_append)
  have "lseg (?nx(y := Some m)) (mq_head (msgqs s q)) (ys @ [y, m]) None"
    unfolding lseg_append using y m(2) seg lseg_upd [OF y(1), of ?nx] by auto
  then have "lseg (\<lambda>h. msg_next (msgs ?t h)) (mq_head (msgqs s q)) (xs @ [m]) None" unfolding nx by (simp add: xs)
  then have "msgq_rep q (post_msgq q ?t) (xs @ [m])"
    using r m by (auto simp: msgq_rep_def post_msgq_def vcos_semaphore_post_def)
  moreover have "msgq_append q m s = Some ?t" using hd by (auto simp: msgq_append_def)
  ultimately show ?thesis by (intro exI [of _ ?t]) (auto simp: xs)
qed

lemma rep_other_msg: "h \<notin> set xs \<Longrightarrow> msgq_rep q (upd_msg h f s) xs \<longleftrightarrow> msgq_rep q s xs"
proof -
  assume h: "h \<notin> set xs"
  have "(\<lambda>m. msg_next (msgs (upd_msg h f s) m)) = (\<lambda>m. msg_next (msgs s m))(h := msg_next (f (msgs s h)))"
    by (auto simp: fun_eq_iff)
  then show ?thesis by (simp add: msgq_rep_def lseg_upd [OF h])
qed

lemma send_rep:
  assumes r: "msgq_rep q s xs" and m: "m \<notin> set xs"
  shows "\<exists>t. vcos_msg_send_helper w q code m s = Some t \<and> msgq_rep q t (xs @ [m])"
proof -
  let ?f = "\<lambda>d. d\<lparr>msg_code := code, msg_waiting := (if w \<noteq> None then w else msg_waiting d), msg_next := None,
      msg_src_thread := current_thread s\<rparr>"
  have *: "vcos_msg_send_helper w q code m s = map_option (post_msgq q) (msgq_append q m (upd_msg m ?f s))"
    by (simp add: vcos_msg_send_helper_def upd_msg_def Let_def map_option_case cong: option.case_cong split: option.split)
  have "msgq_rep q (upd_msg m ?f s) xs" using r m by (simp add: rep_other_msg)
  from append_rep [OF this m] show ?thesis unfolding * by auto
qed

lemma unlink_rep:
  assumes r: "lseg (\<lambda>m. msg_next (msgs s m)) (Some m) (m # ms) None" "mq_tail (msgqs s q) = Some (last (m # ms))"
    and d: "distinct (m # ms)" "mq_sem (msgqs s q) = length ms"
  shows "msgq_rep q (unlink_first q m s) ms"
  using r d by (cases ms) (auto simp: msgq_rep_def unlink_first_def Let_def)

lemma wait_rep: "msgq_rep q s (m # ms) \<Longrightarrow> \<exists>t. vcos_msg_wait q s = Some (m, t) \<and> msgq_rep q t ms"
proof -
  assume r: "msgq_rep q s (m # ms)"
  let ?s = "upd_msgq q (\<lambda>d. d\<lparr>mq_sem := length ms\<rparr>) s"
  have "wait_msgq q s = Some ?s" using r by (simp add: wait_msgq_def msgq_rep_def vcos_semaphore_wait_def)
  moreover have "msgq_rep q (unlink_first q m ?s) ms"
    by (rule unlink_rep) (use r in \<open>simp_all add: msgq_rep_def\<close>)
  ultimately show ?thesis using r by (simp add: vcos_msg_wait_def msgq_rep_def)
qed

lemma wait_rep_Nil: "msgq_rep q s [] \<Longrightarrow> vcos_msg_wait q s = None"
  by (simp add: msgq_rep_def vcos_msg_wait_def wait_msgq_def vcos_semaphore_wait_def)

lemma wait_unlink: "wait_msgq q (unlink_first q m s) = map_option (unlink_first q m) (wait_msgq q s)"
  by (cases "msgqs s q") (auto simp: wait_msgq_def unlink_first_def Let_def vcos_semaphore_wait_def upd_msgq_def)

lemma peek_is_wait: "msgq_rep q s (m # ms) \<Longrightarrow> vcos_msg_peek q s = map_option (apfst Some) (vcos_msg_wait q s)"
  by (simp add: vcos_msg_peek_def vcos_msg_wait_def wait_unlink msgq_rep_def) (simp add: wait_msgq_def vcos_semaphore_wait_def)

interpretation msgq: channel "msgq_rep q" "vcos_msg_send q code" "vcos_msg_wait q" "vcos_msg_peek q" for q code
proof unfold_locales
  show "msgq_rep q s (x # xs) \<Longrightarrow> \<exists>t. vcos_msg_peek q s = Some (Some x, t) \<and> msgq_rep q t xs" for s x xs
    using wait_rep [of q s x xs] by (auto simp: peek_is_wait)
qed (simp_all add: send_rep wait_rep wait_rep_Nil vcos_msg_send_def, auto simp: vcos_msg_peek_def msgq_rep_Nil)

text \<open>
  C24: any sequence of sends, waits and looks on a message queue does what it does on a list: messages come out once and in the
  order in which they were sent, and a wait blocks exactly when the list is empty.
\<close>

theorem vcos_msgq_refines_list:
  assumes "msgq_rep q s xs" "channel_allowed ops xs"
  shows "case list_channel ops xs of
      None \<Rightarrow> channel_run (vcos_msg_send q code) (vcos_msg_wait q) (vcos_msg_peek q) ops s = None
    | Some (rs, ys) \<Rightarrow> \<exists>t. channel_run (vcos_msg_send q code) (vcos_msg_wait q) (vcos_msg_peek q) ops s = Some (rs, t) \<and>
        msgq_rep q t ys"
  by (rule msgq.channel_refines [OF assms])

definition empty_msg_store :: msg_store where
  "empty_msg_store = \<lparr>mallocs = [], creates = [], clock_readings = [], live = [], sync = [], owners = (\<lambda>_. Next None),
     msgs = (\<lambda>_. zero_msg), msgqs = (\<lambda>_. \<lparr>mq_head = None, mq_tail = None, mq_sem = 0\<rparr>),
     msgq_pools = (\<lambda>_. \<lparr>mp_blockpool = demo_pool, mp_sem = 0, mp_magic = VCOS_MSGQ_MAGIC\<rparr>), waitsems = (\<lambda>_. 0), current_thread = 0\<rparr>"

theorem vcos_msgq_refines_list_witness:
  "\<exists>t. channel_run (vcos_msg_send 5 1) (vcos_msg_wait 5) (vcos_msg_peek 5) [Send 21, Send 22, Receive, Poll, Poll] empty_msg_store =
     Some ([None, None, Some 21, Some 22, None], t) \<and> msgq_rep 5 t []"
proof -
  have "msgq_rep 5 empty_msg_store []" by (simp add: msgq_rep_Nil empty_msg_store_def)
  from vcos_msgq_refines_list [OF this, of "[Send 21, Send 22, Receive, Poll, Poll]" 1] show ?thesis
    by simp
qed

section \<open>Replies\<close>

lemma reply_to_queue:
  assumes "msgq_rep q s xs" "m \<notin> set xs" "msg_next (msgs s m) = None" "msg_waiting (msgs s m) = Some (Waiting_queue q)"
  shows "\<exists>t. vcos_msg_reply m s = Some t \<and> msgq_rep q t (xs @ [m]) \<and> msg_code (msgs t m) = msg_code (msgs s m) OR MSG_REPLY_BIT"
proof -
  let ?s = "upd_msg m (\<lambda>d. d\<lparr>msg_code := msg_code d OR MSG_REPLY_BIT\<rparr>) s"
  have r: "msgq_rep q ?s xs" using assms(1,2) by (simp add: rep_other_msg)
  have n: "msg_next (msgs ?s m) = None" using assms(3) by simp
  obtain t where t: "msgq_append q m ?s = Some t" "msgq_rep q (post_msgq q t) (xs @ [m])"
    "\<forall>h. msgs t h = (if xs \<noteq> [] \<and> h = last xs then (msgs ?s h)\<lparr>msg_next := Some m\<rparr> else msgs ?s h)"
    using append_rep [OF r assms(2) n] by blast
  have "vcos_msg_reply m s = Some (post_msgq q t)"
    using assms(4) t(1) by (simp add: vcos_msg_reply_def vcos_msgq_queue_waiter_on_reply_def)
  moreover have "msg_code (msgs (post_msgq q t) m) = msg_code (msgs s m) OR MSG_REPLY_BIT"
    using t(3) by (simp add: post_msgq_def)
  ultimately show ?thesis using t(2) by blast
qed

text \<open>
  A client sends a message whose source is its own queue to a server that has no other message; the server waits for it and
  replies; the client waits for the reply.  Both get that message, the client with the reply bit, and both queues are as before.
\<close>

theorem vcos_msg_request_reply:
  assumes "msgq_rep srv s []" "msgq_rep cl s []" "srv \<noteq> cl"
  shows "\<exists>s1 s2 s3 t. vcos_msg_send srv code m (vcos_msg_set_source m cl s) = Some s1 \<and> vcos_msg_wait srv s1 = Some (m, s2) \<and>
     vcos_msg_reply m s2 = Some s3 \<and> vcos_msg_wait cl s3 = Some (m, t) \<and> msgq_rep srv t [] \<and> msgq_rep cl t [] \<and>
     msg_code (msgs t m) = code OR MSG_REPLY_BIT"
  using assms
  by (simp add: msgq_rep_Nil vcos_msg_send_def vcos_msg_send_helper_def vcos_msg_set_source_def msgq_append_def post_msgq_def
      vcos_msg_wait_def wait_msgq_def vcos_semaphore_wait_def vcos_semaphore_post_def unlink_first_def Let_def vcos_msg_reply_def
      vcos_msgq_queue_waiter_on_reply_def)

theorem vcos_msg_request_reply_witness:
  "\<exists>s1 s2 s3 t. vcos_msg_send 5 7 21 (vcos_msg_set_source 21 6 empty_msg_store) = Some s1 \<and> vcos_msg_wait 5 s1 = Some (21, s2) \<and>
     vcos_msg_reply 21 s2 = Some s3 \<and> vcos_msg_wait 6 s3 = Some (21, t) \<and> msg_code (msgs t 21) = 7 OR MSG_REPLY_BIT"
proof -
  have "msgq_rep 5 empty_msg_store []" "msgq_rep 6 empty_msg_store []" by (simp_all add: msgq_rep_Nil empty_msg_store_def)
  from vcos_msg_request_reply [OF this, of 7 21] show ?thesis by fastforce
qed

text \<open>
  C26: a message keeps its link when it is taken out, and a reply to a queue does not clear it.  When another message waited
  behind it at the server, the next wait of the client gives that message, which nobody replied to and which is still in the
  queue of the server, instead of the next reply.
\<close>

theorem vcos_msg_reply_wrong_message:
  assumes "msgq_rep srv s [a, b]" "msgq_rep cl s []" "srv \<noteq> cl" "c \<notin> {a, b}"
    and "msg_waiting (msgs s a) = Some (Waiting_queue cl)" "msg_waiting (msgs s c) = Some (Waiting_queue cl)"
  shows "\<exists>s1 s2 s3 s4 t. vcos_msg_wait srv s = Some (a, s1) \<and> vcos_msg_reply a s1 = Some s2 \<and> vcos_msg_wait cl s2 = Some (a, s3) \<and>
     vcos_msg_reply c s3 = Some s4 \<and> vcos_msg_wait cl s4 = Some (b, t) \<and> msgq_rep srv t [b] \<and> vcos_msg_wait cl t = None"
  using assms
  by (auto simp: msgq_rep_def vcos_msg_wait_def wait_msgq_def vcos_semaphore_wait_def vcos_semaphore_post_def unlink_first_def
      Let_def vcos_msg_reply_def vcos_msgq_queue_waiter_on_reply_def msgq_append_def post_msgq_def)

definition two_requests :: msg_store where
  "two_requests = empty_msg_store\<lparr>
     msgs := (\<lambda>m. zero_msg\<lparr>msg_next := if m = 21 then Some 22 else None, msg_waiting := Some (Waiting_queue 6)\<rparr>),
     msgqs := (\<lambda>q. if q = 5 then \<lparr>mq_head = Some 21, mq_tail = Some 22, mq_sem = 2\<rparr> else \<lparr>mq_head = None, mq_tail = None, mq_sem = 0\<rparr>)\<rparr>"

theorem vcos_msg_reply_wrong_message_witness:
  "\<exists>s1 s2 s3 s4 t. vcos_msg_wait 5 two_requests = Some (21, s1) \<and> vcos_msg_reply 21 s1 = Some s2 \<and>
     vcos_msg_wait 6 s2 = Some (21, s3) \<and> vcos_msg_reply 23 s3 = Some s4 \<and> vcos_msg_wait 6 s4 = Some (22, t)"
proof -
  have "msgq_rep 5 two_requests [21, 22]" "msgq_rep 6 two_requests []" by (simp_all add: msgq_rep_def two_requests_def)
  from vcos_msg_reply_wrong_message [OF this, of 23] show ?thesis by (fastforce simp: two_requests_def)
qed

section \<open>Pools\<close>

text \<open>A pool of messages whose free blocks are \<open>fs\<close>, and the messages of it that are handed out.\<close>

definition msgpool_rep :: "addr \<Rightarrow> 'a msg_store_scheme \<Rightarrow> addr list \<Rightarrow> bool" where
  "msgpool_rep p s fs \<longleftrightarrow> (let bp = mp_blockpool (msgq_pools s p) in
     pool_inv bp s (\<lambda>_. fs) \<and> bp_num_subpools bp = 1 \<and> sp_start (bp_subpools bp 0) \<noteq> None \<and> mp_sem (msgq_pools s p) = length fs)"

definition handed_out :: "addr \<Rightarrow> 'a msg_store_scheme \<Rightarrow> addr \<Rightarrow> bool" where
  "handed_out p s m \<longleftrightarrow> 4 \<le> m \<and> m - 4 \<in> blocks_of (mp_blockpool (msgq_pools s p)) 0 \<and> owners s (m - 4) = Owned 0 \<and>
     msg_pool (msgs s m) = Some p \<and> msg_waiting (msgs s m) = Some (Waiting_pool p)"

lemma msgpool_has_free:
  assumes "msgpool_rep p s fs"
  shows "has_free (mp_blockpool (msgq_pools s p)) 0 \<longleftrightarrow> fs \<noteq> []"
proof -
  let ?bp = "mp_blockpool (msgq_pools s p)"
  have "subpool_inv ?bp s 0 fs" "sp_start (bp_subpools ?bp 0) \<noteq> None"
    using assms by (auto simp: msgpool_rep_def pool_inv_def Let_def)
  then show ?thesis
    by (auto simp: has_free_def subpool_inv_def Let_def word_less_nat_alt)
qed

lemma take_message_rep:
  assumes r: "msgpool_rep p s (b # fs)"
  shows "\<exists>t. take_message p (upd_msgpool p (\<lambda>d. d\<lparr>mp_sem := length fs\<rparr>) s) = Some (b + 4, t) \<and> msgpool_rep p t fs \<and>
    handed_out p t (b + 4) \<and> (\<forall>m. handed_out p s m \<longrightarrow> handed_out p t m) \<and> \<not> handed_out p s (b + 4)"
proof -
  let ?bp = "mp_blockpool (msgq_pools s p)" and ?s = "upd_msgpool p (\<lambda>d. d\<lparr>mp_sem := length fs\<rparr>) s"
  have inv: "pool_inv ?bp s (\<lambda>_. b # fs)" and one: "bp_num_subpools ?bp = 1" "sp_start (bp_subpools ?bp 0) \<noteq> None"
    using r by (simp_all add: msgpool_rep_def Let_def)
  have free: "has_free ?bp 0" using msgpool_has_free [OF r] by simp
  obtain bp' u where u: "take_block 0 ?bp s = (Some (b + 4), bp', u)" "b \<in> blocks_of ?bp 0" "owners u = (owners s)(b := Owned 0)"
    "pool_inv bp' u ((\<lambda>_. b # fs)(0 := fs))" "bp_num_subpools bp' = bp_num_subpools ?bp" "\<forall>j. blocks_of bp' j = blocks_of ?bp j"
    using take_block_inv [OF inv _ free] one by auto
  have tk: "take_block 0 ?bp ?s = (Some (b + 4), bp', ?s\<lparr>owners := owners u\<rparr>)"
    using u(1) by (auto simp: take_block_def set_owner_def Let_def split: option.splits)
  let ?f = "\<lambda>_. zero_msg\<lparr>msg_magic := VCOS_MSGQ_MAGIC, msg_waiting := Some (Waiting_pool p), msg_pool := Some p\<rparr>"
  let ?t = "upd_msg (b + 4) ?f (upd_msgpool p (\<lambda>d. d\<lparr>mp_blockpool := bp'\<rparr>) (?s\<lparr>owners := owners u\<rparr>))"
  have "find (has_free ?bp) [0..<bp_num_subpools ?bp] = Some 0" "bp_magic ?bp"
    using one free inv by (simp_all add: pool_inv_def)
  then have "take_message p ?s = Some (b + 4, ?t)"
    using tk by (simp add: take_message_def vcos_generic_blockpool_calloc_def vcos_generic_blockpool_alloc_def)
  moreover have "sp_start (bp_subpools bp' 0) = sp_start (bp_subpools ?bp 0)" using take_block_frame [OF u(1)] by simp
  moreover have "pool_inv bp' ?t (\<lambda>_. fs)"
    using u(4,5) one pool_inv_cong [of bp' "(\<lambda>_. b # fs)(0 := fs)" "\<lambda>_. fs" u] pool_inv_owners [of ?t u bp'] by simp
  moreover have "owners s b \<noteq> Owned 0"
    using inv one u(2) unfolding pool_inv_def subpool_inv_def Let_def by fastforce
  ultimately show ?thesis using one u
    by (intro exI [of _ ?t]) (auto simp: msgpool_rep_def Let_def handed_out_def)
qed

lemma pool_free_rep:
  assumes r: "msgpool_rep p s fs" and m: "handed_out p s m"
  shows "\<exists>t. vcos_msgq_pool_free (Some m) s = Some t \<and> msgpool_rep p t ((m - 4) # fs) \<and>
    (\<forall>m'. m' \<noteq> m \<longrightarrow> handed_out p s m' \<longrightarrow> handed_out p t m')"
proof -
  let ?bp = "mp_blockpool (msgq_pools s p)" and ?b = "m - 4"
  have inv: "pool_inv ?bp s (\<lambda>_. fs)" and one: "bp_num_subpools ?bp = 1" "sp_start (bp_subpools ?bp 0) \<noteq> None"
    using r by (simp_all add: msgpool_rep_def Let_def)
  have b: "?b \<in> blocks_of ?bp 0" "owners s ?b = Owned 0" "?b + 4 = m" using m by (simp_all add: handed_out_def)
  obtain bp' u where u: "vcos_generic_blockpool_free (Some m) ?bp s = Some (bp', u)" "pool_inv bp' u ((\<lambda>_. fs)(0 := ?b # fs))"
    "\<forall>j. blocks_of bp' j = blocks_of ?bp j" "live u = live s"
    using free_block_inv [OF inv _ b(1,2)] one b(3) by auto
  have fl: "sp_flags (bp_subpools ?bp 0) AND VCOS_BLOCKPOOL_SUBPOOL_FLAG_EXTENSION = 0"
    using inv one by (auto simp: pool_inv_def subpool_inv_def Let_def)
  note fr = free_block_frame [OF u(1,4) fl b(2)]
  let ?t = "upd_msgpool p (\<lambda>d. d\<lparr>mp_blockpool := bp', mp_sem := vcos_semaphore_post (mp_sem d)\<rparr>) u"
  have same: "msgs u = msgs s" "msgq_pools u = msgq_pools s" "owners u = (owners s)(?b := Next (sp_free_list (bp_subpools ?bp 0)))"
    by (subst fr [THEN conjunct1], simp)+
  have "vcos_msgq_pool_free (Some m) s = Some ?t" using u(1) m by (simp add: vcos_msgq_pool_free_def handed_out_def)
  moreover have "pool_inv bp' ?t (\<lambda>_. ?b # fs)"
    using u(2) fr one pool_inv_cong [of bp' "(\<lambda>_. fs)(0 := ?b # fs)" "\<lambda>_. ?b # fs" u] pool_inv_owners [of ?t u bp'] by simp
  moreover have "handed_out p ?t m'" if "m' \<noteq> m" "handed_out p s m'" for m'
  proof -
    have "m' - 4 \<noteq> ?b" using that b(3) by (auto simp: handed_out_def)
    with that show ?thesis using u(3) same by (simp add: handed_out_def)
  qed
  ultimately show ?thesis using r fr one same
    by (intro exI [of _ ?t]) (simp add: msgpool_rep_def Let_def vcos_semaphore_post_def)
qed

lemma pool_reply_rep:
  assumes r: "msgpool_rep p s fs" and m: "handed_out p s m"
  shows "\<exists>t. vcos_msg_reply m s = Some t \<and> msgpool_rep p t ((m - 4) # fs) \<and>
    (\<forall>m'. m' \<noteq> m \<longrightarrow> handed_out p s m' \<longrightarrow> handed_out p t m')"
proof -
  let ?s = "upd_msg m (\<lambda>d. d\<lparr>msg_code := msg_code d OR MSG_REPLY_BIT\<rparr>) s"
  have same: "owners ?s = owners s" by simp
  have r': "msgpool_rep p ?s fs" using r pool_inv_owners [OF same] by (simp add: msgpool_rep_def Let_def)
  have h: "handed_out p ?s m' \<longleftrightarrow> handed_out p s m'" for m' by (simp add: handed_out_def)
  have "vcos_msg_reply m s = vcos_msgq_pool_free (Some m) ?s"
    using m by (simp add: vcos_msg_reply_def handed_out_def vcos_msgq_pool_on_reply_def)
  then show ?thesis using pool_free_rep [OF r'] m unfolding h by presburger
qed

datatype msgpool_op = Alloc | Wait | Free addr | Reply addr

fun msgpool_run :: "addr \<Rightarrow> msgpool_op list \<Rightarrow> 'a msg_store_scheme \<Rightarrow> (addr option list \<times> 'a msg_store_scheme) option" where
  "msgpool_run p [] s = Some ([], s)"
| "msgpool_run p (op # ops) s = do {
     (r, s) \<leftarrow> (case op of
        Alloc \<Rightarrow> vcos_msgq_pool_alloc p s
      | Wait \<Rightarrow> map_option (apfst Some) (vcos_msgq_pool_wait p s)
      | Free m \<Rightarrow> map_option (Pair None) (vcos_msgq_pool_free (Some m) s)
      | Reply m \<Rightarrow> map_option (Pair None) (vcos_msg_reply m s));
     (rs, s) \<leftarrow> msgpool_run p ops s;
     Some (r # rs, s)
   }"

text \<open>The same on a stack of free blocks; a message lies behind the header of its block.  Waiting for one blocks when there is none.\<close>

fun stack_step :: "msgpool_op \<Rightarrow> addr list \<Rightarrow> (addr option \<times> addr list) option" where
  "stack_step Alloc [] = Some (None, [])"
| "stack_step Alloc (b # fs) = Some (Some (b + 4), fs)"
| "stack_step Wait [] = None"
| "stack_step Wait (b # fs) = Some (Some (b + 4), fs)"
| "stack_step (Free m) fs = Some (None, (m - 4) # fs)"
| "stack_step (Reply m) fs = Some (None, (m - 4) # fs)"

fun stack_run :: "msgpool_op list \<Rightarrow> addr list \<Rightarrow> (addr option list \<times> addr list) option" where
  "stack_run [] fs = Some ([], fs)"
| "stack_run (op # ops) fs = do { (r, fs) \<leftarrow> stack_step op fs; (rs, fs) \<leftarrow> stack_run ops fs; Some (r # rs, fs) }"

text \<open>Only messages that are out are given back.\<close>

fun outs_after :: "msgpool_op \<Rightarrow> addr option \<Rightarrow> addr set \<Rightarrow> addr set" where
  "outs_after (Free m) r outs = outs - {m}"
| "outs_after (Reply m) r outs = outs - {m}"
| "outs_after op r outs = set_option r \<union> outs"

fun msgpool_allowed :: "msgpool_op list \<Rightarrow> addr list \<Rightarrow> addr set \<Rightarrow> bool" where
  "msgpool_allowed [] fs outs \<longleftrightarrow> True"
| "msgpool_allowed (op # ops) fs outs \<longleftrightarrow> (case op of Free m \<Rightarrow> m \<in> outs | Reply m \<Rightarrow> m \<in> outs | _ \<Rightarrow> True) \<and>
     (case stack_step op fs of None \<Rightarrow> True | Some (r, fs) \<Rightarrow> msgpool_allowed ops fs (outs_after op r outs))"

lemma msgpool_step:
  assumes r: "msgpool_rep p s fs" and o: "\<forall>m\<in>outs. handed_out p s m" and a: "msgpool_allowed [op] fs outs"
  shows "case stack_step op fs of
      None \<Rightarrow> op = Wait \<and> fs = [] \<and> msgpool_run p [op] s = None
    | Some (res, fs') \<Rightarrow> \<exists>t. msgpool_run p [op] s = Some ([res], t) \<and> msgpool_rep p t fs' \<and> (\<forall>m\<in>outs_after op res outs. handed_out p t m)"
proof -
  have sem: "mp_sem (msgq_pools s p) = length fs" using r by (simp add: msgpool_rep_def Let_def)
  have taken: "\<exists>t. take_message p (upd_msgpool p (\<lambda>d. d\<lparr>mp_sem := length bs\<rparr>) s) = Some (b + 4, t) \<and> msgpool_rep p t bs \<and>
    (\<forall>m\<in>insert (b + 4) outs. handed_out p t m)" if "fs = b # bs" for b bs
    using take_message_rep [of p s b bs] r o that by blast
  show ?thesis
  proof (cases op)
    case Alloc
    then show ?thesis using taken sem r o by (cases fs) (auto simp: vcos_msgq_pool_alloc_def vcos_semaphore_wait_def)
  next
    case Wait
    then show ?thesis using taken sem by (cases fs) (auto simp: vcos_msgq_pool_wait_def vcos_semaphore_wait_def)
  next
    case (Free m)
    then show ?thesis using pool_free_rep [OF r, of m] o a by auto
  next
    case (Reply m)
    then show ?thesis using pool_reply_rep [OF r, of m] o a by auto
  qed
qed

lemma msgpool_run_Cons:
  "msgpool_run p (op # ops) s = (case msgpool_run p [op] s of None \<Rightarrow> None
     | Some (r, t) \<Rightarrow> do { (rs, t) \<leftarrow> msgpool_run p ops t; Some (r @ rs, t) })"
  by (cases "case op of Alloc \<Rightarrow> vcos_msgq_pool_alloc p s
      | Wait \<Rightarrow> map_option (apfst Some) (vcos_msgq_pool_wait p s)
      | Free m \<Rightarrow> map_option (Pair None) (vcos_msgq_pool_free (Some m) s)
      | Reply m \<Rightarrow> map_option (Pair None) (vcos_msg_reply m s)") (auto simp del: msgpool_op.case)

lemma msgpool_runs:
  "msgpool_rep p s fs \<Longrightarrow> \<forall>m\<in>outs. handed_out p s m \<Longrightarrow> msgpool_allowed ops fs outs \<Longrightarrow>
   (case stack_run ops fs of
      None \<Rightarrow> msgpool_run p ops s = None \<and>
        (\<exists>before behind rs t. ops = before @ Wait # behind \<and> msgpool_run p before s = Some (rs, t) \<and> msgpool_rep p t [])
    | Some (rs, fs') \<Rightarrow> \<exists>t. msgpool_run p ops s = Some (rs, t) \<and> msgpool_rep p t fs')"
proof (induction ops arbitrary: s fs outs)
  case Nil
  then show ?case by simp
next
  case (Cons op ops)
  have "msgpool_allowed [op] fs outs" using Cons.prems(3) by (auto split: option.splits)
  note step = msgpool_step [OF Cons.prems(1,2) this]
  show ?case
  proof (cases "stack_step op fs")
    case None
    have "op = Wait \<and> fs = [] \<and> msgpool_run p [op] s = None" using step unfolding None option.case .
    then have blocked: "op = Wait" "fs = []" "msgpool_run p [op] s = None" by (blast, blast, blast)
    then have "op # ops = [] @ Wait # ops" "msgpool_run p [] s = Some ([], s)" "msgpool_rep p s []"
      using Cons.prems(1) by simp_all
    then have "\<exists>before behind rs t. op # ops = before @ Wait # behind \<and> msgpool_run p before s = Some (rs, t) \<and> msgpool_rep p t []"
      by blast
    moreover have "msgpool_run p (op # ops) s = None" unfolding msgpool_run_Cons [of p op ops] blocked(3) by simp
    ultimately show ?thesis using None by simp
  next
    case (Some q)
    then obtain res fs' where q: "stack_step op fs = Some (res, fs')" by (cases q) simp
    then obtain t where t: "msgpool_run p [op] s = Some ([res], t)" "msgpool_rep p t fs'" "\<forall>m\<in>outs_after op res outs. handed_out p t m"
      using step by auto
    have run: "msgpool_run p (op # os) s = do { (rs, u) \<leftarrow> msgpool_run p os t; Some (res # rs, u) }" for os
      unfolding msgpool_run_Cons [of p op os] t(1) by simp
    have allowed: "msgpool_allowed ops fs' (outs_after op res outs)" using Cons.prems(3) q by simp
    note ih = Cons.IH [OF t(2,3) allowed]
    show ?thesis
    proof (cases "stack_run ops fs'")
      case None
      then obtain before behind rs u where u: "ops = before @ Wait # behind" "msgpool_run p before t = Some (rs, u)" "msgpool_rep p u []"
        "msgpool_run p ops t = None" using ih by auto
      have "op # ops = (op # before) @ Wait # behind" "msgpool_run p (op # before) s = Some (res # rs, u)"
        using u(1,2) by (simp_all add: run del: msgpool_run.simps(2))
      with u(3) have "\<exists>before behind rs t. op # ops = before @ Wait # behind \<and> msgpool_run p before s = Some (rs, t) \<and> msgpool_rep p t []"
        by blast
      moreover have "msgpool_run p (op # ops) s = None" unfolding run u(4) by simp
      ultimately show ?thesis using None q by simp
    next
      case (Some z)
      then show ?thesis using ih q by (cases z) (auto simp add: run simp del: msgpool_run.simps(2))
    qed
  qed
qed

lemma msgpool_rep_stack:
  "msgpool_rep p t fs \<Longrightarrow> mp_sem (msgq_pools t p) = length fs \<and> distinct fs \<and> set fs \<subseteq> blocks_of (mp_blockpool (msgq_pools t p)) 0"
  by (auto simp: msgpool_rep_def pool_inv_def subpool_inv_def Let_def)

text \<open>
  C25: however messages of a pool are allocated, waited for, freed and replied to, the pool is a stack of its free blocks: an allocation
  never blocks, crashes or hands out a message that is out, it fails exactly when no block is free; waiting for a message blocks
  exactly when no block is free, then on the semaphore, and hands out the top block otherwise; the semaphore counts the free blocks
  throughout.
\<close>

theorem vcos_msgq_pool_is_stack:
  assumes "msgpool_rep p s fs" "\<forall>m\<in>outs. handed_out p s m" "msgpool_allowed ops fs outs"
  shows "case stack_run ops fs of
      None \<Rightarrow> msgpool_run p ops s = None \<and>
        (\<exists>before behind rs t. ops = before @ Wait # behind \<and> msgpool_run p before s = Some (rs, t) \<and> msgpool_rep p t [] \<and>
           mp_sem (msgq_pools t p) = 0)
    | Some (rs, fs') \<Rightarrow> \<exists>t. msgpool_run p ops s = Some (rs, t) \<and> msgpool_rep p t fs' \<and> mp_sem (msgq_pools t p) = length fs' \<and>
        distinct fs' \<and> set fs' \<subseteq> blocks_of (mp_blockpool (msgq_pools t p)) 0"
  using msgpool_runs [OF assms] msgpool_rep_stack [of p]
  by (auto split: option.splits)

definition pooled_store :: msg_store where
  "pooled_store = empty_msg_store\<lparr>owners := owners demo_built,
     msgq_pools := (\<lambda>_. \<lparr>mp_blockpool = demo_pool, mp_sem = 2, mp_magic = VCOS_MSGQ_MAGIC\<rparr>)\<rparr>"

theorem vcos_msgq_pool_is_stack_witness:
  "(\<exists>t. msgpool_run 7 [Alloc, Wait, Alloc, Reply 1004, Wait] pooled_store = Some ([Some 1016, Some 1004, None, None, Some 1004], t)) \<and>
   msgpool_run 7 [Alloc, Wait, Wait] pooled_store = None"
proof -
  have "owners pooled_store = owners demo_built" by (simp add: pooled_store_def)
  from pool_inv_owners [OF this] have "msgpool_rep 7 pooled_store [1012, 1000]"
    using demo_inv demo_parts by (simp add: msgpool_rep_def pooled_store_def)
  from vcos_msgq_pool_is_stack [OF this, of "{}" "[Alloc, Wait, Alloc, Reply 1004, Wait]"]
    vcos_msgq_pool_is_stack [OF this, of "{}" "[Alloc, Wait, Wait]"] show ?thesis
    by (auto simp del: msgpool_run.simps)
qed

end
