(* ===== verification/MsgThreads.thy ===== *)
theory MsgThreads
  imports MsgQueue
begin

text \<open>
  Several threads on one message queue of \<^verbatim>\<open>vcos/generic/vcos_msgqueue.c\<close>.  A send appends under the lock and posts the
  semaphore after it; \<open>vcos_msg_wait\<close> takes a token and then unlinks the first message under the lock; \<open>vcos_msg_peek\<close> unlinks
  it first and then waits for a token with the lock held.  These are separate steps.  Only the threads in \<open>C\<close> receive.
\<close>

datatype msgq_pc = M_idle | M_posting | M_token | M_looking addr | M_got "addr option" | M_crashed

record msgq_sys =
  mt_cells :: "addr list"
  mt_sem :: nat
  mt_lock :: "nat option"
  mt_pcs :: "nat \<Rightarrow> msgq_pc"
  mt_sent :: "addr list"
  mt_taken :: "addr list"

definition msgq_sys_init :: msgq_sys where
  "msgq_sys_init = \<lparr>mt_cells = [], mt_sem = 0, mt_lock = None, mt_pcs = (\<lambda>_. M_idle), mt_sent = [], mt_taken = []\<rparr>"

definition at_pc :: "nat \<Rightarrow> msgq_pc \<Rightarrow> msgq_sys \<Rightarrow> msgq_sys" where
  "at_pc t pc s = s\<lparr>mt_pcs := (mt_pcs s)(t := pc)\<rparr>"

text \<open>A token for which there is no message would have the null pointer read: \<open>M_crashed\<close>.\<close>

inductive msgq_thread_step :: "nat set \<Rightarrow> msgq_sys \<Rightarrow> msgq_sys \<Rightarrow> bool" for C where
  append: "mt_pcs s t = M_idle \<Longrightarrow> mt_lock s = None \<Longrightarrow>
     msgq_thread_step C s (at_pc t M_posting (s\<lparr>mt_cells := mt_cells s @ [m], mt_sent := mt_sent s @ [m]\<rparr>))"
| post: "mt_pcs s t = M_posting \<Longrightarrow> msgq_thread_step C s (at_pc t M_idle (s\<lparr>mt_sem := Suc (mt_sem s)\<rparr>))"
| token: "t \<in> C \<Longrightarrow> mt_pcs s t = M_idle \<Longrightarrow> 0 < mt_sem s \<Longrightarrow>
     msgq_thread_step C s (at_pc t M_token (s\<lparr>mt_sem := mt_sem s - 1\<rparr>))"
| unlink: "mt_pcs s t = M_token \<Longrightarrow> mt_lock s = None \<Longrightarrow> mt_cells s = m # ms \<Longrightarrow>
     msgq_thread_step C s (at_pc t (M_got (Some m)) (s\<lparr>mt_cells := ms, mt_taken := mt_taken s @ [m]\<rparr>))"
| null: "mt_pcs s t = M_token \<Longrightarrow> mt_lock s = None \<Longrightarrow> mt_cells s = [] \<Longrightarrow> msgq_thread_step C s (at_pc t M_crashed s)"
| look_empty: "t \<in> C \<Longrightarrow> mt_pcs s t = M_idle \<Longrightarrow> mt_lock s = None \<Longrightarrow> mt_cells s = [] \<Longrightarrow>
     msgq_thread_step C s (at_pc t (M_got None) s)"
| look: "t \<in> C \<Longrightarrow> mt_pcs s t = M_idle \<Longrightarrow> mt_lock s = None \<Longrightarrow> mt_cells s = m # ms \<Longrightarrow>
     msgq_thread_step C s (at_pc t (M_looking m) (s\<lparr>mt_cells := ms, mt_lock := Some t, mt_taken := mt_taken s @ [m]\<rparr>))"
| looked: "mt_pcs s t = M_looking m \<Longrightarrow> 0 < mt_sem s \<Longrightarrow>
     msgq_thread_step C s (at_pc t (M_got (Some m)) (s\<lparr>mt_sem := mt_sem s - 1, mt_lock := None\<rparr>))"
| resume: "mt_pcs s t = M_got r \<Longrightarrow> msgq_thread_step C s (at_pc t M_idle s)"

inductive_cases stepE [elim]: "msgq_thread_step C s s'"

inductive msgq_reachable :: "nat set \<Rightarrow> msgq_sys \<Rightarrow> bool" for C where
  start: "msgq_reachable C msgq_sys_init"
| step: "msgq_reachable C s \<Longrightarrow> msgq_thread_step C s s' \<Longrightarrow> msgq_reachable C s'"

section \<open>Invariant\<close>

definition at_places :: "msgq_pc \<Rightarrow> msgq_sys \<Rightarrow> nat set" where
  "at_places pc s = {t. mt_pcs s t = pc}"

text \<open>The tokens in the semaphore, in the hands of waiters and still to be posted count the messages, with the one being looked at.\<close>

definition msgq_sys_inv :: "nat set \<Rightarrow> msgq_sys \<Rightarrow> bool" where
  "msgq_sys_inv C s \<longleftrightarrow> finite (at_places M_token s) \<and> finite (at_places M_posting s) \<and>
     mt_sem s + card (at_places M_token s) + card (at_places M_posting s) = length (mt_cells s) + (if mt_lock s = None then 0 else 1) \<and>
     (\<forall>t. mt_lock s = Some t \<longleftrightarrow> (\<exists>m. mt_pcs s t = M_looking m)) \<and> (\<forall>t. mt_pcs s t \<noteq> M_crashed) \<and>
     at_places M_token s \<subseteq> C \<and> mt_sent s = mt_taken s @ mt_cells s"

lemma at_pc_sel [simp]:
  "mt_cells (at_pc t pc s) = mt_cells s" "mt_sem (at_pc t pc s) = mt_sem s" "mt_lock (at_pc t pc s) = mt_lock s"
  "mt_sent (at_pc t pc s) = mt_sent s" "mt_taken (at_pc t pc s) = mt_taken s" "mt_pcs (at_pc t pc s) = (mt_pcs s)(t := pc)"
  by (simp_all add: at_pc_def)

lemma at_places_upd [simp]:
  "at_places pc (s\<lparr>mt_cells := a\<rparr>) = at_places pc s" "at_places pc (s\<lparr>mt_sem := b\<rparr>) = at_places pc s"
  "at_places pc (s\<lparr>mt_lock := c\<rparr>) = at_places pc s" "at_places pc (s\<lparr>mt_sent := a\<rparr>) = at_places pc s"
  "at_places pc (s\<lparr>mt_taken := a\<rparr>) = at_places pc s"
  by (simp_all add: at_places_def)

lemma at_places_pc:
  "at_places pc (at_pc t pc' s) = (if pc = pc' then insert t (at_places pc s) else at_places pc s - {t})"
  by (auto simp: at_places_def)

lemma at_places_mem: "t \<in> at_places pc s \<longleftrightarrow> mt_pcs s t = pc"
  by (simp add: at_places_def)

lemma not_at_place: "mt_pcs s t \<noteq> pc \<Longrightarrow> at_places pc s - {t} = at_places pc s"
  by (auto simp: at_places_def)

lemma leave_place: "finite (at_places pc s) \<Longrightarrow> mt_pcs s t = pc \<Longrightarrow> card (at_places pc s) = Suc (card (at_places pc s - {t}))"
  by (rule card.remove) (simp_all add: at_places_mem)

lemma msgq_step_inv: "msgq_thread_step C s s' \<Longrightarrow> msgq_sys_inv C s \<Longrightarrow> msgq_sys_inv C s'"
proof (induction rule: msgq_thread_step.induct)
  case (append s t m)
  then show ?case by (auto simp: msgq_sys_inv_def at_places_pc not_at_place at_places_mem)
next
  case (post s t)
  then have "card (at_places M_posting s) = Suc (card (at_places M_posting s - {t}))"
    by (intro leave_place) (auto simp: msgq_sys_inv_def)
  with post show ?case by (auto simp: msgq_sys_inv_def at_places_pc not_at_place simp del: card_Diff_insert)
next
  case (token t s)
  then show ?case by (auto simp: msgq_sys_inv_def at_places_pc not_at_place at_places_mem)
next
  case (unlink s t m ms)
  then have "card (at_places M_token s) = Suc (card (at_places M_token s - {t}))"
    by (intro leave_place) (auto simp: msgq_sys_inv_def)
  with unlink show ?case by (auto simp: msgq_sys_inv_def at_places_pc not_at_place simp del: card_Diff_insert)
next
  case (null s t)
  then have "card (at_places M_token s) = Suc (card (at_places M_token s - {t}))"
    by (intro leave_place) (auto simp: msgq_sys_inv_def)
  with null show ?case by (simp add: msgq_sys_inv_def)
next
  case (look_empty t s)
  then show ?case by (auto simp: msgq_sys_inv_def at_places_pc not_at_place)
next
  case (look t s m ms)
  then show ?case by (auto simp: msgq_sys_inv_def at_places_pc not_at_place)
next
  case (looked s t m)
  then have "mt_lock s = Some t" by (auto simp: msgq_sys_inv_def)
  with looked show ?case by (auto simp: msgq_sys_inv_def at_places_pc not_at_place)
next
  case (resume s t r)
  then have "mt_lock s \<noteq> Some t" by (auto simp: msgq_sys_inv_def)
  with resume show ?case by (auto simp: msgq_sys_inv_def at_places_pc not_at_place)
qed

lemma msgq_reachable_inv: "msgq_reachable C s \<Longrightarrow> msgq_sys_inv C s"
proof (induction rule: msgq_reachable.induct)
  case start
  then show ?case by (simp add: msgq_sys_inv_def msgq_sys_init_def at_places_def)
next
  case (step s s')
  then show ?case using msgq_step_inv by blast
qed

section \<open>Delivery\<close>

text \<open>
  Whatever threads send and receive and however their steps interleave, the messages are taken out in the order in which they
  were appended, each once, and a thread that holds a token always finds a message.
\<close>

theorem vcos_msgq_threads_deliver:
  assumes "msgq_reachable C s"
  shows "mt_sent s = mt_taken s @ mt_cells s \<and> (mt_pcs s t = M_token \<and> mt_lock s = None \<longrightarrow> mt_cells s \<noteq> []) \<and>
     mt_pcs s t \<noteq> M_crashed"
proof -
  have inv: "msgq_sys_inv C s" by (rule msgq_reachable_inv [OF assms])
  have "mt_cells s \<noteq> []" if "mt_pcs s t = M_token" "mt_lock s = None"
  proof -
    have "card (at_places M_token s) = Suc (card (at_places M_token s - {t}))"
      using inv that(1) by (intro leave_place) (auto simp: msgq_sys_inv_def)
    with inv that(2) show ?thesis by (auto simp: msgq_sys_inv_def)
  qed
  with inv show ?thesis by (simp add: msgq_sys_inv_def)
qed

definition one_sent :: msgq_sys where
  "one_sent = msgq_sys_init\<lparr>mt_cells := [7], mt_sent := [7], mt_sem := 1\<rparr>"

lemma one_sent_reachable: "msgq_reachable C one_sent"
proof -
  have "msgq_reachable C (at_pc 0 M_posting (msgq_sys_init\<lparr>mt_cells := [7], mt_sent := [7]\<rparr>))"
    using msgq_reachable.step [OF msgq_reachable.start append [of msgq_sys_init 0 C 7]] by (simp add: msgq_sys_init_def)
  from msgq_reachable.step [OF this post [of _ 0]] show ?thesis
    by (simp add: one_sent_def at_pc_def msgq_sys_init_def fun_upd_idem)
qed

theorem vcos_msgq_threads_deliver_witness: "mt_sent one_sent = mt_taken one_sent @ mt_cells one_sent"
  using vcos_msgq_threads_deliver [OF one_sent_reachable] by blast

lemma looking_receiver: "msgq_reachable C s \<Longrightarrow> mt_pcs s t = M_looking m \<Longrightarrow> t \<in> C"
proof (induction arbitrary: t m rule: msgq_reachable.induct)
  case start
  then show ?case by (simp add: msgq_sys_init_def)
next
  case (step s s')
  from step.hyps(2) show ?case
    by cases (use step.prems step.IH in \<open>auto split: if_splits\<close>)
qed

text \<open>
  When a single thread receives, by waiting or by looking, a look never blocks for ever: while it holds the lock, there is a token
  for it, or a sender is about to post one.
\<close>

theorem vcos_msg_peek_single_receiver:
  assumes "msgq_reachable {c} s" "mt_lock s = Some t"
  shows "t = c \<and> (\<exists>m. mt_pcs s t = M_looking m) \<and>
     ((\<exists>m. msgq_thread_step {c} s (at_pc t (M_got (Some m)) (s\<lparr>mt_sem := mt_sem s - 1, mt_lock := None\<rparr>))) \<or>
      (\<exists>u. msgq_thread_step {c} s (at_pc u M_idle (s\<lparr>mt_sem := Suc (mt_sem s)\<rparr>))))"
proof -
  have inv: "msgq_sys_inv {c} s" by (rule msgq_reachable_inv [OF assms(1)])
  then have "\<exists>m. mt_pcs s t = M_looking m" using assms(2) unfolding msgq_sys_inv_def by blast
  then obtain m where m: "mt_pcs s t = M_looking m" ..
  have tc: "t = c" using looking_receiver [OF assms(1) m] by simp
  have "at_places M_token s = {}" using inv m tc by (auto simp: msgq_sys_inv_def at_places_def)
  then have "0 < mt_sem s + card (at_places M_posting s)" using inv assms(2) by (auto simp: msgq_sys_inv_def)
  then have "0 < mt_sem s \<or> at_places M_posting s \<noteq> {}" by auto
  then show ?thesis
  proof
    assume "0 < mt_sem s"
    from looked [OF m this] tc m show ?thesis by blast
  next
    assume "at_places M_posting s \<noteq> {}"
    then obtain u where "mt_pcs s u = M_posting" by (auto simp: at_places_def)
    from post [OF this] tc m show ?thesis by blast
  qed
qed

definition peeking :: msgq_sys where
  "peeking = at_pc 2 (M_looking 7) (one_sent\<lparr>mt_cells := [], mt_lock := Some 2, mt_taken := [7]\<rparr>)"

lemma peeking_reachable: "msgq_reachable {2} peeking"
  using msgq_reachable.step [OF one_sent_reachable look [of 2 "{2}" one_sent 7 "[]"]]
  by (simp add: peeking_def one_sent_def msgq_sys_init_def)

theorem vcos_msg_peek_single_receiver_witness: "mt_lock peeking = Some 2 \<and> (\<exists>m. mt_pcs peeking 2 = M_looking m)"
proof -
  have "mt_lock peeking = Some 2" by (simp add: peeking_def)
  with vcos_msg_peek_single_receiver [OF peeking_reachable] show ?thesis by blast
qed

text \<open>A thread holds the only token and waits for the lock, whose holder waits for a token.\<close>

definition deadlocked :: "nat \<Rightarrow> nat \<Rightarrow> msgq_sys \<Rightarrow> bool" where
  "deadlocked t u s \<longleftrightarrow> mt_pcs s t = M_token \<and> (\<exists>m. mt_pcs s u = M_looking m) \<and> mt_lock s = Some u \<and> mt_sem s = 0 \<and>
     at_places M_posting s = {}"

lemma deadlocked_step: "msgq_thread_step C s s' \<Longrightarrow> deadlocked t u s \<Longrightarrow> deadlocked t u s'"
  by (induction rule: msgq_thread_step.induct) (auto simp: deadlocked_def at_places_def)

lemma deadlocked_steps: "(msgq_thread_step C)\<^sup>*\<^sup>* s s' \<Longrightarrow> deadlocked t u s \<Longrightarrow> deadlocked t u s'"
  by (induction rule: rtranclp_induct) (auto intro: deadlocked_step)

text \<open>
  C27: when two threads receive and one of them looks, they can block each other for ever: the one took the token of the only
  message and wants the lock, the other unlinked the message and waits for the token with the lock held.  Then no sender gets
  the lock either.
\<close>

theorem vcos_msg_peek_deadlock:
  assumes "t \<in> C" "u \<in> C" "t \<noteq> u"
  shows "\<exists>s. msgq_reachable C s \<and>
     (\<forall>s'. (msgq_thread_step C)\<^sup>*\<^sup>* s s' \<longrightarrow> mt_pcs s' t = M_token \<and> mt_lock s' = Some u \<and> mt_sent s' = mt_sent s)"
proof -
  let ?s1 = "at_pc t M_token (one_sent\<lparr>mt_sem := 0\<rparr>)"
  let ?s2 = "at_pc u (M_looking 7) (?s1\<lparr>mt_cells := [], mt_lock := Some u, mt_taken := [7]\<rparr>)"
  have "msgq_reachable C ?s1"
    using msgq_reachable.step [OF one_sent_reachable token [of t C one_sent]] assms(1) by (simp add: one_sent_def msgq_sys_init_def)
  moreover have "msgq_thread_step C ?s1 ?s2"
    using look [of u C ?s1 7 "[]"] assms by (simp add: one_sent_def msgq_sys_init_def)
  ultimately have r: "msgq_reachable C ?s2" by (rule msgq_reachable.step)
  have d: "deadlocked t u ?s2" using assms(3) by (auto simp: deadlocked_def at_places_def one_sent_def msgq_sys_init_def)
  have "mt_sent s' = mt_sent ?s2" if "(msgq_thread_step C)\<^sup>*\<^sup>* ?s2 s'" for s'
    using that
  proof (induction rule: rtranclp_induct)
    case (step y z)
    have "deadlocked t u y" by (rule deadlocked_steps [OF step.hyps(1) d])
    with step.hyps(2) have "mt_sent z = mt_sent y" by cases (auto simp: deadlocked_def)
    with step.IH show ?case by simp
  qed simp
  with r deadlocked_steps [OF _ d] show ?thesis by (intro exI [of _ ?s2]) (auto simp: deadlocked_def)
qed

theorem vcos_msg_peek_deadlock_witness:
  "\<exists>s. msgq_reachable {1, 2} s \<and> (\<forall>s'. (msgq_thread_step {1, 2})\<^sup>*\<^sup>* s s' \<longrightarrow> mt_pcs s' 1 = M_token \<and> mt_lock s' = Some 2)"
  using vcos_msg_peek_deadlock [of 1 "{1, 2}" 2] by fastforce

end
