(* ===== verification/EventFlags.thy ===== *)
theory EventFlags
  imports Vcos
begin

text \<open>
  Event flags, \<^verbatim>\<open>vcos/generic/vcos_generic_event_flags.c\<close>: a word of events and a linked list of the threads that wait for some of
  them.  A waiter lies on the stack of its thread, which sleeps on a semaphore of its own.  Each operation runs under the lock
  of the flags; a \<open>get\<close> that sleeps is the part before and the part after.
\<close>

section \<open>Data\<close>

definition VCOS_OR :: u32 where "VCOS_OR = 1"
definition VCOS_AND :: u32 where "VCOS_AND = 2"
definition VCOS_CONSUME :: u32 where "VCOS_CONSUME = 4"
definition VCOS_EVENT_FLAG_OP_MASK :: u32 where "VCOS_EVENT_FLAG_OP_MASK = VCOS_OR OR VCOS_AND"

record event_waiter =
  requested_events :: u32
  actual_events :: u32
  waiter_op :: u32
  return_status :: vcos_status
  waiter_flags :: addr
  waiter_thread :: nat
  waiter_next :: "addr option"

record event_flags =
  ef_events :: u32
  ef_head :: "addr option"
  ef_tail :: "addr option"

record flags_store = os_store +
  event_flags_at :: "addr \<Rightarrow> event_flags"
  event_waiters :: "addr \<Rightarrow> event_waiter"
  thread_sems :: "nat \<Rightarrow> nat"
  task_timers :: "nat \<Rightarrow> (addr \<times> u32) option"

definition upd_flags :: "addr \<Rightarrow> (event_flags \<Rightarrow> event_flags) \<Rightarrow> 'a flags_store_scheme \<Rightarrow> 'a flags_store_scheme" where
  "upd_flags f g s = s\<lparr>event_flags_at := (event_flags_at s)(f := g (event_flags_at s f))\<rparr>"

definition upd_waiter :: "addr \<Rightarrow> (event_waiter \<Rightarrow> event_waiter) \<Rightarrow> 'a flags_store_scheme \<Rightarrow> 'a flags_store_scheme" where
  "upd_waiter w g s = s\<lparr>event_waiters := (event_waiters s)(w := g (event_waiters s w))\<rparr>"

definition thread_sem_post :: "nat \<Rightarrow> 'a flags_store_scheme \<Rightarrow> 'a flags_store_scheme" where
  "thread_sem_post t s = s\<lparr>thread_sems := (thread_sems s)(t := vcos_semaphore_post (thread_sems s t))\<rparr>"

definition thread_sem_wait :: "nat \<Rightarrow> 'a flags_store_scheme \<Rightarrow> 'a flags_store_scheme option" where
  "thread_sem_wait t s = map_option (\<lambda>c. s\<lparr>thread_sems := (thread_sems s)(t := c)\<rparr>) (vcos_semaphore_wait (thread_sems s t))"

text \<open>The pointer to the next waiter: in the waiter before it, or in the flags.\<close>

definition waiter_link :: "addr \<Rightarrow> addr option \<Rightarrow> 'a flags_store_scheme \<Rightarrow> addr option" where
  "waiter_link f prev s = (case prev of None \<Rightarrow> ef_head (event_flags_at s f) | Some p \<Rightarrow> waiter_next (event_waiters s p))"

text \<open>Linking past \<open>w\<close>, with the end of the list in mind.\<close>

definition unlink_waiter :: "addr \<Rightarrow> addr option \<Rightarrow> addr \<Rightarrow> 'a flags_store_scheme \<Rightarrow> 'a flags_store_scheme" where
  "unlink_waiter f prev w s =
     (let nxt = waiter_next (event_waiters s w);
          s = (case prev of None \<Rightarrow> upd_flags f (\<lambda>d. d\<lparr>ef_head := nxt\<rparr>) s | Some p \<Rightarrow> upd_waiter p (\<lambda>d. d\<lparr>waiter_next := nxt\<rparr>) s)
      in if nxt = None then upd_flags f (\<lambda>d. d\<lparr>ef_tail := prev\<rparr>) s else s)"

section \<open>Operations\<close>

definition vcos_generic_event_flags_create :: "addr \<Rightarrow> 'a flags_store_scheme \<Rightarrow> vcos_status \<times> 'a flags_store_scheme" where
  "vcos_generic_event_flags_create f s =
     (let (made, s) = vcos_create (Mutex f) s
      in if \<not> made then (VCOS_ENOSPC, s)
         else (VCOS_SUCCESS, upd_flags f (\<lambda>_. \<lparr>ef_events = 0, ef_head = None, ef_tail = None\<rparr>) s))"

definition vcos_generic_event_flags_delete :: "addr \<Rightarrow> 'a flags_store_scheme \<Rightarrow> 'a flags_store_scheme" where
  "vcos_generic_event_flags_delete f s = vcos_delete (Mutex f) s"

definition waiter_satisfied :: "u32 \<Rightarrow> event_waiter \<Rightarrow> bool" where
  "waiter_satisfied events d =
     (let common = events AND requested_events d
      in if waiter_op d AND VCOS_AND \<noteq> 0 then common = requested_events d else common \<noteq> 0)"

text \<open>The walk along the list; \<open>prev\<close> is the last waiter that stays.  It ends unless the list is a cycle.\<close>

partial_function (option) wake_waiters ::
  "addr \<Rightarrow> addr option \<Rightarrow> u32 \<Rightarrow> 'a flags_store_scheme \<Rightarrow> (u32 \<times> 'a flags_store_scheme) option" where
  "wake_waiters f prev consumed s =
     (case waiter_link f prev s of
        None \<Rightarrow> Some (consumed, s)
      | Some w \<Rightarrow>
          let d = event_waiters s w; events = ef_events (event_flags_at s f) in
          if waiter_satisfied events d then
            let consumed = (if waiter_op d AND VCOS_CONSUME \<noteq> 0 then consumed OR requested_events d else consumed);
                s = unlink_waiter f prev w s;
                s = upd_waiter w (\<lambda>d. d\<lparr>return_status := VCOS_SUCCESS, actual_events := events\<rparr>) s
            in wake_waiters f prev consumed (thread_sem_post (waiter_thread d) s)
          else wake_waiters f (Some w) consumed s)"

definition vcos_generic_event_flags_set ::
  "addr \<Rightarrow> u32 \<Rightarrow> u32 \<Rightarrow> 'a flags_store_scheme \<Rightarrow> 'a flags_store_scheme option" where
  "vcos_generic_event_flags_set f bitmask op s =
     (let s = (if op = VCOS_OR then upd_flags f (\<lambda>d. d\<lparr>ef_events := ef_events d OR bitmask\<rparr>) s
               else if op = VCOS_AND then upd_flags f (\<lambda>d. d\<lparr>ef_events := ef_events d AND bitmask\<rparr>) s
               else s)
      in if ef_head (event_flags_at s f) = None then Some s
         else do {
           (consumed, s) \<leftarrow> wake_waiters f None 0 s;
           Some (upd_flags f (\<lambda>d. d\<lparr>ef_events := ef_events d AND NOT consumed\<rparr>) s)
         })"

text \<open>\<open>VCOS_QUEUE_APPEND_TAIL\<close>; a list without an end has no end to append to.\<close>

definition append_waiter :: "addr \<Rightarrow> addr \<Rightarrow> 'a flags_store_scheme \<Rightarrow> 'a flags_store_scheme option" where
  "append_waiter f w s =
     (let s = upd_waiter w (\<lambda>d. d\<lparr>waiter_next := None\<rparr>) s
      in if ef_head (event_flags_at s f) = None then Some (upd_flags f (\<lambda>d. d\<lparr>ef_head := Some w, ef_tail := Some w\<rparr>) s)
         else case ef_tail (event_flags_at s f) of
           None \<Rightarrow> None
         | Some t \<Rightarrow> Some (upd_flags f (\<lambda>d. d\<lparr>ef_tail := Some w\<rparr>) (upd_waiter t (\<lambda>d. d\<lparr>waiter_next := Some w\<rparr>) s)))"

text \<open>The first part of a get: its status and the events, or \<open>None\<close> when the thread goes to sleep on the waiter at \<open>w\<close>.\<close>

definition event_flags_get_begin ::
  "addr \<Rightarrow> u32 \<Rightarrow> u32 \<Rightarrow> u32 \<Rightarrow> nat \<Rightarrow> addr \<Rightarrow> 'a flags_store_scheme \<Rightarrow>
   ((vcos_status \<times> u32) option \<times> 'a flags_store_scheme) option" where
  "event_flags_get_begin f bitmask op suspend thread w s =
     (let events = ef_events (event_flags_at s f); kind = op AND VCOS_EVENT_FLAG_OP_MASK;
          satisfied = (if kind = VCOS_AND then events AND bitmask = bitmask else kind = VCOS_OR \<and> events AND bitmask \<noteq> 0)
      in if satisfied then
           Some (Some (VCOS_SUCCESS, events),
             if op AND VCOS_CONSUME \<noteq> 0 then upd_flags f (\<lambda>d. d\<lparr>ef_events := ef_events d AND NOT bitmask\<rparr>) s else s)
         else if suspend \<noteq> 0 then do {
           let s = upd_waiter w (\<lambda>_. \<lparr>requested_events = bitmask, actual_events = 0, waiter_op = op, return_status = VCOS_EAGAIN,
                     waiter_flags = f, waiter_thread = thread, waiter_next = None\<rparr>) s;
           s \<leftarrow> append_waiter f w s;
           Some (None, if suspend \<noteq> - 1 then s\<lparr>task_timers := (task_timers s)(thread := Some (w, suspend))\<rparr> else s)
         }
         else Some (Some (if kind = VCOS_AND \<or> kind = VCOS_OR then VCOS_EAGAIN else VCOS_EINVAL, 0), s))"

definition event_flags_get_end ::
  "u32 \<Rightarrow> nat \<Rightarrow> addr \<Rightarrow> 'a flags_store_scheme \<Rightarrow> (vcos_status \<times> u32 \<times> 'a flags_store_scheme) option" where
  "event_flags_get_end suspend thread w s = do {
     s \<leftarrow> thread_sem_wait thread s;
     Some (return_status (event_waiters s w), actual_events (event_waiters s w),
       if suspend \<noteq> - 1 then s\<lparr>task_timers := (task_timers s)(thread := None)\<rparr> else s)
   }"

text \<open>\<open>meanwhile\<close> is what other threads do while this one sleeps.\<close>

definition vcos_generic_event_flags_get ::
  "('a flags_store_scheme \<Rightarrow> 'a flags_store_scheme option) \<Rightarrow> addr \<Rightarrow> u32 \<Rightarrow> u32 \<Rightarrow> u32 \<Rightarrow> nat \<Rightarrow> addr \<Rightarrow> 'a flags_store_scheme \<Rightarrow>
   (vcos_status \<times> u32 \<times> 'a flags_store_scheme) option" where
  "vcos_generic_event_flags_get meanwhile f bitmask op suspend thread w s = do {
     (r, s) \<leftarrow> event_flags_get_begin f bitmask op suspend thread w s;
     (case r of
        Some (rc, bits) \<Rightarrow> Some (rc, bits, s)
      | None \<Rightarrow> do { s \<leftarrow> meanwhile s; event_flags_get_end suspend thread w s })
   }"

text \<open>The walk of a timer that expired; the thread it finds.\<close>

partial_function (option) find_waiter ::
  "addr \<Rightarrow> addr \<Rightarrow> addr option \<Rightarrow> 'a flags_store_scheme \<Rightarrow> (nat option \<times> 'a flags_store_scheme) option" where
  "find_waiter f w prev s =
     (case waiter_link f prev s of
        None \<Rightarrow> Some (None, s)
      | Some x \<Rightarrow> if x = w then Some (Some (waiter_thread (event_waiters s x)), unlink_waiter f prev x s)
                  else find_waiter f w (Some x) s)"

definition event_flags_timer_expired :: "addr \<Rightarrow> 'a flags_store_scheme \<Rightarrow> 'a flags_store_scheme option" where
  "event_flags_timer_expired w s = do {
     (thread, s) \<leftarrow> find_waiter (waiter_flags (event_waiters s w)) w None s;
     Some (case thread of None \<Rightarrow> s | Some t \<Rightarrow> thread_sem_post t s)
   }"

section \<open>The list of waiters\<close>

lemma upd_flags_sel [simp]:
  "event_flags_at (upd_flags f g s) = (event_flags_at s)(f := g (event_flags_at s f))"
  "event_waiters (upd_flags f g s) = event_waiters s" "thread_sems (upd_flags f g s) = thread_sems s"
  by (simp_all add: upd_flags_def)

lemma upd_waiter_sel [simp]:
  "event_waiters (upd_waiter w g s) = (event_waiters s)(w := g (event_waiters s w))"
  "event_flags_at (upd_waiter w g s) = event_flags_at s" "thread_sems (upd_waiter w g s) = thread_sems s"
  by (simp_all add: upd_waiter_def)

lemma thread_sem_post_sel [simp]:
  "thread_sems (thread_sem_post t s) = (thread_sems s)(t := Suc (thread_sems s t))"
  "event_flags_at (thread_sem_post t s) = event_flags_at s" "event_waiters (thread_sem_post t s) = event_waiters s"
  by (simp_all add: thread_sem_post_def vcos_semaphore_post_def)

text \<open>The waiters \<open>ws\<close> are linked from the head, and the tail is the last of them.\<close>

definition flags_rep :: "addr \<Rightarrow> 'a flags_store_scheme \<Rightarrow> addr list \<Rightarrow> bool" where
  "flags_rep f s ws \<longleftrightarrow> lseg (\<lambda>w. waiter_next (event_waiters s w)) (ef_head (event_flags_at s f)) ws None \<and>
     ef_tail (event_flags_at s f) = (if ws = [] then None else Some (last ws)) \<and> distinct ws"

text \<open>A waiter without its link.\<close>

definition unlinked :: "event_waiter \<Rightarrow> event_waiter" where
  "unlinked d = d\<lparr>waiter_next := None\<rparr>"

lemma unlinked_sel [simp]:
  "requested_events (unlinked d) = requested_events d" "waiter_op (unlinked d) = waiter_op d"
  "waiter_thread (unlinked d) = waiter_thread d" "actual_events (unlinked d) = actual_events d"
  "return_status (unlinked d) = return_status d" "waiter_flags (unlinked d) = waiter_flags d"
  "unlinked (d\<lparr>waiter_next := n\<rparr>) = unlinked d"
  by (simp_all add: unlinked_def)

lemma unlinked_eq:
  "unlinked a = unlinked b \<Longrightarrow> requested_events a = requested_events b \<and> waiter_op a = waiter_op b \<and> waiter_thread a = waiter_thread b \<and>
     actual_events a = actual_events b \<and> return_status a = return_status b \<and> waiter_flags a = waiter_flags b"
  by (cases a; cases b) (simp add: unlinked_def)

text \<open>The waiter behind the waiters \<open>ys\<close>.\<close>

definition last_opt :: "addr list \<Rightarrow> addr option" where
  "last_opt ys = (if ys = [] then None else Some (last ys))"

lemma waiter_link_rep: "flags_rep f s (ys @ ws) \<Longrightarrow> waiter_link f (last_opt ys) s = (case ws of [] \<Rightarrow> None | w # _ \<Rightarrow> Some w)"
proof -
  assume r: "flags_rep f s (ys @ ws)"
  then obtain p where p: "lseg (\<lambda>w. waiter_next (event_waiters s w)) (ef_head (event_flags_at s f)) ys p"
    "lseg (\<lambda>w. waiter_next (event_waiters s w)) p ws None" by (auto simp: flags_rep_def lseg_append)
  have "waiter_link f (last_opt ys) s = p"
    using p(1) lseg_last_next [OF p(1)] by (cases "ys = []") (simp_all add: waiter_link_def last_opt_def)
  with p(2) show ?thesis by (cases ws) simp_all
qed

lemma unlink_waiter_rep:
  assumes r: "flags_rep f s (ys @ w # ws)"
  shows "flags_rep f (unlink_waiter f (last_opt ys) w s) (ys @ ws)"
    and "\<And>x. unlinked (event_waiters (unlink_waiter f (last_opt ys) w s) x) = unlinked (event_waiters s x)"
    and "thread_sems (unlink_waiter f (last_opt ys) w s) = thread_sems s"
    and "ef_events (event_flags_at (unlink_waiter f (last_opt ys) w s) f) = ef_events (event_flags_at s f)"
    and "\<And>g. g \<noteq> f \<Longrightarrow> event_flags_at (unlink_waiter f (last_opt ys) w s) g = event_flags_at s g"
proof -
  let ?nx = "\<lambda>w. waiter_next (event_waiters s w)" and ?t = "unlink_waiter f (last_opt ys) w s"
  have d: "distinct (ys @ w # ws)" and seg: "lseg ?nx (ef_head (event_flags_at s f)) ys (Some w)" "lseg ?nx (?nx w) ws None"
    and tl: "ef_tail (event_flags_at s f) = Some (last (w # ws))"
    using r by (auto simp: flags_rep_def lseg_append)
  have nil: "?nx w = None \<longleftrightarrow> ws = []" using seg(2) by (cases ws) auto
  show "flags_rep f ?t (ys @ ws)"
  proof (cases ys rule: rev_cases)
    case Nil
    then show ?thesis using d seg tl nil by (auto simp: flags_rep_def unlink_waiter_def last_opt_def Let_def)
  next
    case (snoc zs z)
    have nx: "(\<lambda>x. waiter_next (event_waiters ?t x)) = ?nx(z := ?nx w)"
      by (auto simp: snoc unlink_waiter_def last_opt_def Let_def fun_eq_iff)
    have hd: "ef_head (event_flags_at ?t f) = ef_head (event_flags_at s f)"
      by (simp add: snoc unlink_waiter_def last_opt_def Let_def)
    have z: "z \<notin> set zs" "z \<notin> set ws" using d snoc by auto
    have "lseg ?nx (ef_head (event_flags_at s f)) zs (Some z)" using seg(1) by (auto simp: snoc lseg_append)
    then have "lseg (?nx(z := ?nx w)) (ef_head (event_flags_at s f)) (zs @ z # ws) None"
      unfolding lseg_append using lseg_upd [OF z(1), of ?nx] lseg_upd [OF z(2), of ?nx] seg(2) by auto
    moreover have "ef_tail (event_flags_at ?t f) = Some (last (z # ws))"
      using tl nil by (auto simp: snoc unlink_waiter_def last_opt_def Let_def)
    ultimately show ?thesis unfolding flags_rep_def nx hd using d by (auto simp: snoc)
  qed
  show "unlinked (event_waiters ?t x) = unlinked (event_waiters s x)" for x
    by (auto simp: unlink_waiter_def Let_def split: option.split)
  show "thread_sems ?t = thread_sems s" "ef_events (event_flags_at ?t f) = ef_events (event_flags_at s f)"
    "g \<noteq> f \<Longrightarrow> event_flags_at ?t g = event_flags_at s g" for g
    by (auto simp: unlink_waiter_def Let_def split: option.split)
qed

text \<open>What the walk does to the waiters \<open>ws\<close> that are still to come.\<close>

definition woken :: "u32 \<Rightarrow> (addr \<Rightarrow> event_waiter) \<Rightarrow> addr list \<Rightarrow> addr list" where
  "woken events W ws = filter (\<lambda>w. waiter_satisfied events (W w)) ws"

definition left_waiting :: "u32 \<Rightarrow> (addr \<Rightarrow> event_waiter) \<Rightarrow> addr list \<Rightarrow> addr list" where
  "left_waiting events W ws = filter (\<lambda>w. \<not> waiter_satisfied events (W w)) ws"

definition consumed_by :: "(addr \<Rightarrow> event_waiter) \<Rightarrow> addr list \<Rightarrow> u32 \<Rightarrow> u32" where
  "consumed_by W ws c = fold (\<lambda>w c. if waiter_op (W w) AND VCOS_CONSUME \<noteq> 0 then c OR requested_events (W w) else c) ws c"

definition served_waiter :: "u32 \<Rightarrow> event_waiter \<Rightarrow> event_waiter" where
  "served_waiter events d = (unlinked d)\<lparr>return_status := VCOS_SUCCESS, actual_events := events\<rparr>"

lemma satisfied_unlinked: "unlinked a = unlinked b \<Longrightarrow> waiter_satisfied e a = waiter_satisfied e b"
  by (drule unlinked_eq) (simp add: waiter_satisfied_def)

lemma lists_cong:
  assumes "\<forall>w\<in>set ws. unlinked (V w) = unlinked (W w)"
  shows "woken e V ws = woken e W ws" "left_waiting e V ws = left_waiting e W ws"
    "consumed_by V (woken e W ws) c = consumed_by W (woken e W ws) c"
    "map (\<lambda>w. waiter_thread (V w)) (woken e W ws) = map (\<lambda>w. waiter_thread (W w)) (woken e W ws)"
proof -
  have s: "waiter_satisfied e (V w) = waiter_satisfied e (W w)" if "w \<in> set ws" for w
    by (rule satisfied_unlinked) (use assms that in blast)
  show "woken e V ws = woken e W ws" "left_waiting e V ws = left_waiting e W ws"
    unfolding woken_def left_waiting_def using s by (auto intro!: filter_cong)
  have sel: "waiter_op (V w) = waiter_op (W w)" "requested_events (V w) = requested_events (W w)"
    "waiter_thread (V w) = waiter_thread (W w)" if "w \<in> set (woken e W ws)" for w
    using unlinked_eq [of "V w" "W w"] assms that by (simp_all add: woken_def)
  show "consumed_by V (woken e W ws) c = consumed_by W (woken e W ws) c"
    unfolding consumed_by_def by (rule fold_cong) (simp_all add: sel cong: if_cong)
  show "map (\<lambda>w. waiter_thread (V w)) (woken e W ws) = map (\<lambda>w. waiter_thread (W w)) (woken e W ws)"
    by (rule map_cong) (simp_all add: sel)
qed

lemma wake_waiters_walks:
  "flags_rep f s (ys @ ws) \<Longrightarrow> ef_events (event_flags_at s f) = e \<Longrightarrow>
   \<exists>t. wake_waiters f (last_opt ys) c s = Some (consumed_by (event_waiters s) (woken e (event_waiters s) ws) c, t) \<and>
     flags_rep f t (ys @ left_waiting e (event_waiters s) ws) \<and> ef_events (event_flags_at t f) = e \<and>
     (\<forall>x. unlinked (event_waiters t x) = (if x \<in> set (woken e (event_waiters s) ws)
        then served_waiter e (event_waiters s x) else unlinked (event_waiters s x))) \<and>
     (\<forall>h. thread_sems t h = thread_sems s h + count_list (map (\<lambda>w. waiter_thread (event_waiters s w)) (woken e (event_waiters s) ws)) h)"
proof (induction ws arbitrary: ys c s)
  case Nil
  then have "wake_waiters f (last_opt ys) c s = Some (c, s)"
    using waiter_link_rep [of f s ys "[]"] by (subst wake_waiters.simps) simp
  then show ?case using Nil by (simp add: woken_def left_waiting_def consumed_by_def)
next
  case (Cons w ws)
  let ?W = "event_waiters s" and ?d = "event_waiters s w"
  have link: "waiter_link f (last_opt ys) s = Some w" using waiter_link_rep [OF Cons.prems(1)] by simp
  have dist: "w \<notin> set ws" "w \<notin> set ys" "distinct (ys @ ws)" using Cons.prems(1) by (auto simp: flags_rep_def)
  show ?case
  proof (cases "waiter_satisfied e ?d")
    case False
    have "flags_rep f s ((ys @ [w]) @ ws)" using Cons.prems(1) by simp
    from Cons.IH [OF this Cons.prems(2), of c] show ?thesis
      using link False Cons.prems(2) by (subst wake_waiters.simps) (simp add: woken_def left_waiting_def last_opt_def Let_def)
  next
    case True
    let ?u = "unlink_waiter f (last_opt ys) w s"
    let ?v = "thread_sem_post (waiter_thread ?d) (upd_waiter w (\<lambda>d. d\<lparr>return_status := VCOS_SUCCESS, actual_events := e\<rparr>) ?u)"
    let ?c = "if waiter_op ?d AND VCOS_CONSUME \<noteq> 0 then c OR requested_events ?d else c"
    note u = unlink_waiter_rep [OF Cons.prems(1)]
    have nx: "(\<lambda>x. waiter_next (event_waiters ?v x)) = (\<lambda>x. waiter_next (event_waiters ?u x))" by (auto simp: fun_eq_iff)
    have rv: "flags_rep f ?v (ys @ ws)" using u(1) unfolding flags_rep_def nx by simp
    have ev: "ef_events (event_flags_at ?v f) = e" using u(4) Cons.prems(2) by simp
    have W: "unlinked (event_waiters ?v x) = (if x = w then served_waiter e ?d else unlinked (?W x))" for x
      using u(2) [of x] u(2) [of w] by (cases "event_waiters ?u w"; cases ?d) (auto simp: served_waiter_def unlinked_def)
    have same: "\<forall>x\<in>set ws. unlinked (event_waiters ?v x) = unlinked (?W x)" using W dist(1) by auto
    note c = lists_cong [of ws "event_waiters ?v" ?W, OF same]
    obtain t where t: "wake_waiters f (last_opt ys) ?c ?v = Some (consumed_by ?W (woken e ?W ws) ?c, t)"
      "flags_rep f t (ys @ left_waiting e ?W ws)" "ef_events (event_flags_at t f) = e"
      "\<And>x. unlinked (event_waiters t x) = (if x \<in> set (woken e ?W ws)
         then served_waiter e (event_waiters ?v x) else unlinked (event_waiters ?v x))"
      "\<And>h. thread_sems t h = thread_sems ?v h + count_list (map (\<lambda>w. waiter_thread (?W w)) (woken e ?W ws)) h"
      using Cons.IH [OF rv ev, of ?c] unfolding c by blast
    have run: "wake_waiters f (last_opt ys) c s = wake_waiters f (last_opt ys) ?c ?v"
      using link True Cons.prems(2) by (subst wake_waiters.simps) (simp add: Let_def)
    have sv: "served_waiter e a = served_waiter e b" if "unlinked a = unlinked b" for a b using that by (simp add: served_waiter_def)
    have nw: "w \<notin> set (woken e ?W ws)" using dist(1) by (simp add: woken_def)
    have "unlinked (event_waiters t x) = (if x \<in> set (woken e ?W (w # ws)) then served_waiter e (?W x) else unlinked (?W x))" for x
    proof (cases "x = w")
      case True
      then show ?thesis using t(4) [of x] W [of x] nw \<open>waiter_satisfied e ?d\<close> by (simp add: woken_def)
    next
      case False
      then have u: "unlinked (event_waiters ?v x) = unlinked (?W x)" using W [of x] by simp
      have in_tail: "x \<in> set (woken e ?W (w # ws)) \<longleftrightarrow> x \<in> set (woken e ?W ws)" using False by (simp add: woken_def)
      show ?thesis unfolding in_tail t(4) [of x] sv [OF u] u ..
    qed
    then show ?thesis unfolding run using t(1,2,3,5) True u(3)
      by (intro exI [of _ t]) (simp add: woken_def left_waiting_def consumed_by_def)
  qed
qed

section \<open>Setting events\<close>

definition new_events :: "u32 \<Rightarrow> u32 \<Rightarrow> u32 \<Rightarrow> u32" where
  "new_events bitmask op e = (if op = VCOS_OR then e OR bitmask else if op = VCOS_AND then e AND bitmask else e)"

text \<open>
  What a set leaves behind: the waiters it does not satisfy wait on in the same order, the others are told the events and their
  threads are posted, and the events that they consume are gone, but only after all of them were served.
\<close>

definition flags_set_result ::
  "addr \<Rightarrow> u32 \<Rightarrow> addr list \<Rightarrow> 'a flags_store_scheme \<Rightarrow> 'a flags_store_scheme \<Rightarrow> bool" where
  "flags_set_result f e ws s t \<longleftrightarrow> (let W = event_waiters s in
     flags_rep f t (left_waiting e W ws) \<and> ef_events (event_flags_at t f) = e AND NOT (consumed_by W (woken e W ws) 0) \<and>
     (\<forall>x. unlinked (event_waiters t x) = (if x \<in> set (woken e W ws) then served_waiter e (W x) else unlinked (W x))) \<and>
     (\<forall>h. thread_sems t h = thread_sems s h + count_list (map (\<lambda>w. waiter_thread (W w)) (woken e W ws)) h))"

lemma flags_rep_events: "flags_rep f (upd_flags f (\<lambda>d. d\<lparr>ef_events := g d\<rparr>) s) ws \<longleftrightarrow> flags_rep f s ws"
  by (simp add: flags_rep_def)

lemma flags_set_rep:
  assumes "flags_rep f s ws"
  shows "\<exists>t. vcos_generic_event_flags_set f bitmask op s = Some t \<and>
    flags_set_result f (new_events bitmask op (ef_events (event_flags_at s f))) ws s t"
proof -
  let ?e = "new_events bitmask op (ef_events (event_flags_at s f))"
  define u where "u = (if op = VCOS_OR then upd_flags f (\<lambda>d. d\<lparr>ef_events := ef_events d OR bitmask\<rparr>) s
               else if op = VCOS_AND then upd_flags f (\<lambda>d. d\<lparr>ef_events := ef_events d AND bitmask\<rparr>) s else s)"
  have u: "flags_rep f u ws" "ef_events (event_flags_at u f) = ?e" "event_waiters u = event_waiters s" "thread_sems u = thread_sems s"
    using assms by (simp_all add: u_def flags_rep_events new_events_def)
  have set: "vcos_generic_event_flags_set f bitmask op s =
      (if ef_head (event_flags_at u f) = None then Some u
       else do { (consumed, s) \<leftarrow> wake_waiters f None 0 u; Some (upd_flags f (\<lambda>d. d\<lparr>ef_events := ef_events d AND NOT consumed\<rparr>) s) })"
    by (simp only: vcos_generic_event_flags_set_def Let_def u_def)
  show ?thesis
  proof (cases "ws = []")
    case True
    then have "ef_head (event_flags_at u f) = None" using u(1) by (simp add: flags_rep_def)
    then show ?thesis using u True by (simp add: set flags_set_result_def woken_def left_waiting_def consumed_by_def Let_def)
  next
    case False
    then have "ef_head (event_flags_at u f) = Some (hd ws)" using u(1) by (cases ws) (auto simp: flags_rep_def)
    moreover obtain t where "wake_waiters f None 0 u = Some (consumed_by (event_waiters s) (woken ?e (event_waiters s) ws) 0, t)"
      "flags_rep f t (left_waiting ?e (event_waiters s) ws)" "ef_events (event_flags_at t f) = ?e"
      "\<forall>x. unlinked (event_waiters t x) = (if x \<in> set (woken ?e (event_waiters s) ws)
         then served_waiter ?e (event_waiters s x) else unlinked (event_waiters s x))"
      "\<forall>h. thread_sems t h = thread_sems s h + count_list (map (\<lambda>w. waiter_thread (event_waiters s w)) (woken ?e (event_waiters s) ws)) h"
      using wake_waiters_walks [of f u "[]" ws ?e 0] u by (auto simp: last_opt_def)
    ultimately show ?thesis by (simp add: set flags_set_result_def flags_rep_events Let_def)
  qed
qed

text \<open>
  Setting events always returns.  It wakes exactly the waiters whose request the new events satisfy, each by one post, and
  tells each all the events; the others keep their order; and all that the woken ones consume is cleared at the end.
\<close>

theorem vcos_event_flags_set_wakes:
  assumes "flags_rep f s ws" "distinct (map (\<lambda>w. waiter_thread (event_waiters s w)) ws)"
  shows "\<exists>t. vcos_generic_event_flags_set f bitmask op s = Some t \<and>
     (let e = new_events bitmask op (ef_events (event_flags_at s f)); W = event_waiters s in
        flags_rep f t (filter (\<lambda>w. \<not> waiter_satisfied e (W w)) ws) \<and>
        ef_events (event_flags_at t f) = e AND NOT (consumed_by W (filter (\<lambda>w. waiter_satisfied e (W w)) ws) 0) \<and>
        (\<forall>w\<in>set ws. if waiter_satisfied e (W w)
           then return_status (event_waiters t w) = VCOS_SUCCESS \<and> actual_events (event_waiters t w) = e \<and>
                thread_sems t (waiter_thread (W w)) = Suc (thread_sems s (waiter_thread (W w)))
           else unlinked (event_waiters t w) = unlinked (W w) \<and> thread_sems t (waiter_thread (W w)) = thread_sems s (waiter_thread (W w))))"
proof -
  let ?e = "new_events bitmask op (ef_events (event_flags_at s f))" and ?W = "event_waiters s"
  obtain t where t: "vcos_generic_event_flags_set f bitmask op s = Some t" "flags_set_result f ?e ws s t"
    using flags_set_rep [OF assms(1)] by blast
  have c: "count_list (map (\<lambda>w. waiter_thread (?W w)) (woken ?e ?W ws)) (waiter_thread (?W w)) = (if waiter_satisfied ?e (?W w) then 1 else 0)"
    if "w \<in> set ws" for w
    using assms(2) that unfolding woken_def by (induction ws) (auto simp: image_iff)
  have st: "return_status (event_waiters t w) = VCOS_SUCCESS \<and> actual_events (event_waiters t w) = ?e"
    if "w \<in> set ws" "waiter_satisfied ?e (?W w)" for w
  proof -
    have "unlinked (event_waiters t w) = unlinked (served_waiter ?e (?W w))"
      using t(2) that by (simp add: flags_set_result_def Let_def woken_def) (simp add: served_waiter_def unlinked_def)
    from unlinked_eq [OF this] show ?thesis by (simp add: served_waiter_def)
  qed
  show ?thesis
    using t c st by (intro exI [of _ t]) (simp add: flags_set_result_def Let_def left_waiting_def woken_def)
qed

definition waiting_store :: flags_store where
  "waiting_store = \<lparr>mallocs = [], creates = [], clock_readings = [], live = [], sync = [],
     event_flags_at = (\<lambda>_. \<lparr>ef_events = 0, ef_head = Some 21, ef_tail = Some 22\<rparr>),
     event_waiters = (\<lambda>w. \<lparr>requested_events = if w = 21 then 3 else 4, actual_events = 0,
        waiter_op = if w = 21 then VCOS_AND else VCOS_OR OR VCOS_CONSUME, return_status = VCOS_EAGAIN, waiter_flags = 5,
        waiter_thread = w, waiter_next = if w = 21 then Some 22 else None\<rparr>),
     thread_sems = (\<lambda>_. 0), task_timers = (\<lambda>_. None)\<rparr>"

lemma waiting_store_rep: "flags_rep 5 waiting_store [21, 22]"
  by (simp add: flags_rep_def waiting_store_def)

theorem vcos_event_flags_set_wakes_witness:
  "\<exists>t. vcos_generic_event_flags_set 5 7 VCOS_OR waiting_store = Some t \<and> flags_rep 5 t [] \<and> ef_events (event_flags_at t 5) = 3"
  using vcos_event_flags_set_wakes [OF waiting_store_rep, of 7 VCOS_OR]
  by (simp add: new_events_def waiting_store_def waiter_satisfied_def consumed_by_def VCOS_OR_def VCOS_AND_def VCOS_CONSUME_def Let_def)
    fastforce

section \<open>Going to sleep, waking up\<close>

lemma find_waiter_walks:
  "flags_rep f s (ys @ ws) \<Longrightarrow> w \<notin> set ys \<Longrightarrow>
   \<exists>t. find_waiter f w (last_opt ys) s = Some (if w \<in> set ws then Some (waiter_thread (event_waiters s w)) else None, t) \<and>
     flags_rep f t (ys @ remove1 w ws) \<and> (\<forall>x. unlinked (event_waiters t x) = unlinked (event_waiters s x)) \<and>
     thread_sems t = thread_sems s \<and> ef_events (event_flags_at t f) = ef_events (event_flags_at s f)"
proof (induction ws arbitrary: ys)
  case Nil
  then show ?case using waiter_link_rep [of f s ys "[]"] by (subst find_waiter.simps) simp
next
  case (Cons x ws)
  have link: "waiter_link f (last_opt ys) s = Some x" using waiter_link_rep [OF Cons.prems(1)] by simp
  show ?case
  proof (cases "x = w")
    case True
    then show ?thesis using link unlink_waiter_rep [OF Cons.prems(1)] by (subst find_waiter.simps) simp
  next
    case False
    then show ?thesis using Cons.IH [of "ys @ [x]"] Cons.prems link
      by (subst find_waiter.simps) (simp add: last_opt_def)
  qed
qed

lemma timer_expired_rep:
  assumes r: "flags_rep f s ws" and f: "waiter_flags (event_waiters s w) = f"
  shows "\<exists>t. event_flags_timer_expired w s = Some t \<and> flags_rep f t (remove1 w ws) \<and>
    (\<forall>x. unlinked (event_waiters t x) = unlinked (event_waiters s x)) \<and>
    (\<forall>h. thread_sems t h = thread_sems s h + (if w \<in> set ws \<and> h = waiter_thread (event_waiters s w) then 1 else 0)) \<and>
    ef_events (event_flags_at t f) = ef_events (event_flags_at s f)"
proof -
  obtain t where t: "find_waiter f w None s = Some (if w \<in> set ws then Some (waiter_thread (event_waiters s w)) else None, t)"
    "flags_rep f t (remove1 w ws)" "\<forall>x. unlinked (event_waiters t x) = unlinked (event_waiters s x)"
    "thread_sems t = thread_sems s" "ef_events (event_flags_at t f) = ef_events (event_flags_at s f)"
    using find_waiter_walks [of f s "[]" ws w] r by (auto simp: last_opt_def)
  show ?thesis
  proof (cases "w \<in> set ws")
    case True
    have "flags_rep f (thread_sem_post (waiter_thread (event_waiters s w)) t) (remove1 w ws)" using t(2) by (simp add: flags_rep_def)
    with True t f show ?thesis by (simp add: event_flags_timer_expired_def)
  next
    case False
    with t f show ?thesis by (simp add: event_flags_timer_expired_def)
  qed
qed

text \<open>While threads sleep, others set events and timers expire.\<close>

datatype flags_op = Set_events u32 u32 | Expire addr

fun flags_run :: "addr \<Rightarrow> flags_op list \<Rightarrow> 'a flags_store_scheme \<Rightarrow> 'a flags_store_scheme option" where
  "flags_run f [] s = Some s"
| "flags_run f (Set_events bitmask op # ops) s = do { s \<leftarrow> vcos_generic_event_flags_set f bitmask op s; flags_run f ops s }"
| "flags_run f (Expire w # ops) s = do { s \<leftarrow> event_flags_timer_expired w s; flags_run f ops s }"

text \<open>
  The same on lists: the events, the waiters that still wait, in order, and the answer that each of the others got.  A set answers every
  waiter that the new events satisfy with success and all these events, and then clears what they consume; a timer answers its
  waiter, if it still waits, that there was nothing.
\<close>

type_synonym flags_view = "u32 \<times> addr list \<times> (addr \<Rightarrow> (vcos_status \<times> u32) option)"

definition set_view :: "(addr \<Rightarrow> event_waiter) \<Rightarrow> u32 \<Rightarrow> flags_view \<Rightarrow> flags_view" where
  "set_view W e v = (let (_, ws, answer) = v in
     (e AND NOT (consumed_by W (woken e W ws) 0), left_waiting e W ws,
      \<lambda>w. if w \<in> set (woken e W ws) then Some (VCOS_SUCCESS, e) else answer w))"

definition expire_view :: "addr \<Rightarrow> flags_view \<Rightarrow> flags_view" where
  "expire_view x v = (let (e, ws, answer) = v in (e, remove1 x ws, if x \<in> set ws then answer(x \<mapsto> (VCOS_EAGAIN, 0)) else answer))"

fun flags_spec :: "(addr \<Rightarrow> event_waiter) \<Rightarrow> flags_op list \<Rightarrow> flags_view \<Rightarrow> flags_view" where
  "flags_spec W [] v = v"
| "flags_spec W (Set_events bitmask op # ops) v = flags_spec W ops (set_view W (new_events bitmask op (fst v)) v)"
| "flags_spec W (Expire x # ops) v = flags_spec W ops (expire_view x v)"

text \<open>A waiter that has no answer still waits and its thread was not posted; an answer is what the waiter tells a thread posted once.\<close>

definition answered :: "(addr \<Rightarrow> event_waiter) \<Rightarrow> (nat \<Rightarrow> nat) \<Rightarrow> flags_view \<Rightarrow> addr \<Rightarrow> 'a flags_store_scheme \<Rightarrow> bool" where
  "answered W sems v w s \<longleftrightarrow> (case snd (snd v) w of
     None \<Rightarrow> w \<in> set (fst (snd v)) \<and> thread_sems s (waiter_thread (W w)) = sems (waiter_thread (W w)) \<and>
       return_status (event_waiters s w) = VCOS_EAGAIN \<and> actual_events (event_waiters s w) = 0
   | Some (status, events) \<Rightarrow> w \<notin> set (fst (snd v)) \<and> thread_sems s (waiter_thread (W w)) = Suc (sems (waiter_thread (W w))) \<and>
       return_status (event_waiters s w) = status \<and> actual_events (event_waiters s w) = events)"

definition same_request :: "event_waiter \<Rightarrow> event_waiter \<Rightarrow> bool" where
  "same_request a b \<longleftrightarrow> requested_events a = requested_events b \<and> waiter_op a = waiter_op b \<and> waiter_thread a = waiter_thread b"

definition flags_view_rep ::
  "addr \<Rightarrow> (addr \<Rightarrow> event_waiter) \<Rightarrow> addr list \<Rightarrow> (nat \<Rightarrow> nat) \<Rightarrow> flags_view \<Rightarrow> 'a flags_store_scheme \<Rightarrow> bool" where
  "flags_view_rep f W all sems v s \<longleftrightarrow> flags_rep f s (fst (snd v)) \<and> ef_events (event_flags_at s f) = fst v \<and> set (fst (snd v)) \<subseteq> set all \<and>
     (\<forall>w\<in>set all. same_request (event_waiters s w) (W w) \<and> waiter_flags (event_waiters s w) = f \<and> answered W sems v w s)"

lemma same_request_satisfied: "same_request a b \<Longrightarrow> waiter_satisfied e a = waiter_satisfied e b"
  by (simp add: waiter_satisfied_def same_request_def)

lemma same_request_lists:
  assumes "\<forall>w\<in>set ws. same_request (V w) (W w)"
  shows "woken e V ws = woken e W ws" "left_waiting e V ws = left_waiting e W ws"
    "consumed_by V (woken e W ws) c = consumed_by W (woken e W ws) c"
    "map (\<lambda>w. waiter_thread (V w)) (woken e W ws) = map (\<lambda>w. waiter_thread (W w)) (woken e W ws)"
proof -
  have s: "waiter_satisfied e (V w) = waiter_satisfied e (W w)" if "w \<in> set ws" for w
    by (rule same_request_satisfied) (use assms that in blast)
  show "woken e V ws = woken e W ws" "left_waiting e V ws = left_waiting e W ws"
    unfolding woken_def left_waiting_def using s by (auto intro!: filter_cong)
  have sel: "same_request (V w) (W w)" if "w \<in> set (woken e W ws)" for w using assms that by (simp add: woken_def)
  show "consumed_by V (woken e W ws) c = consumed_by W (woken e W ws) c"
    unfolding consumed_by_def by (rule fold_cong) (simp_all add: sel [unfolded same_request_def] cong: if_cong)
  show "map (\<lambda>w. waiter_thread (V w)) (woken e W ws) = map (\<lambda>w. waiter_thread (W w)) (woken e W ws)"
    by (rule map_cong) (simp_all add: sel [unfolded same_request_def])
qed

lemma count_threads:
  "inj_on th (set ws) \<Longrightarrow> distinct ws \<Longrightarrow> set xs \<subseteq> set ws \<Longrightarrow> distinct xs \<Longrightarrow> w \<in> set ws \<Longrightarrow>
   count_list (map th xs) (th w) = (if w \<in> set xs then 1 else 0)"
proof (induction xs)
  case (Cons x xs)
  have "th x = th w \<longleftrightarrow> x = w" using inj_on_eq_iff [OF Cons.prems(1)] Cons.prems(3,5) by simp
  with Cons show ?case by auto
qed simp

text \<open>One waiter through a set of events, and through a timer.\<close>

lemma answered_set:
  assumes a: "answered W sems (e0, ws, answer) w s" and d: "distinct ws"
    and u: "unlinked (event_waiters t w) = (if w \<in> set (woken e W ws) then unlinked (served_waiter e (event_waiters s w)) else unlinked (event_waiters s w))"
    and k: "thread_sems t (waiter_thread (W w)) = thread_sems s (waiter_thread (W w)) + (if w \<in> set (woken e W ws) then 1 else 0)"
  shows "answered W sems (set_view W e (e0, ws, answer)) w t"
proof (cases "w \<in> set (woken e W ws)")
  case True
  then have "unlinked (event_waiters t w) = unlinked (served_waiter e (event_waiters s w))" using u by simp
  from unlinked_eq [OF this] have "return_status (event_waiters t w) = VCOS_SUCCESS" "actual_events (event_waiters t w) = e"
    by (simp_all add: served_waiter_def)
  moreover have "thread_sems s (waiter_thread (W w)) = sems (waiter_thread (W w))"
    using a True by (auto simp: answered_def woken_def split: option.splits)
  ultimately show ?thesis using True k by (simp add: answered_def set_view_def left_waiting_def woken_def)
next
  case False
  then have "unlinked (event_waiters t w) = unlinked (event_waiters s w)" using u by simp
  from unlinked_eq [OF this] show ?thesis using False k a
    by (auto simp: answered_def set_view_def left_waiting_def woken_def split: option.splits)
qed

lemma answered_expire:
  assumes a: "answered W sems (e0, ws, answer) w s" and d: "distinct ws"
    and u: "unlinked (event_waiters t w) = unlinked (event_waiters s w)"
    and k: "thread_sems t (waiter_thread (W w)) = thread_sems s (waiter_thread (W w)) + (if x \<in> set ws \<and> w = x then 1 else 0)"
  shows "answered W sems (expire_view x (e0, ws, answer)) w t"
proof (cases "w = x \<and> x \<in> set ws")
  case True
  with unlinked_eq [OF u] a d k show ?thesis by (auto simp: answered_def expire_view_def split: option.splits)
next
  case False
  then have "w \<in> set (remove1 x ws) \<longleftrightarrow> w \<in> set ws" using d by (cases "x \<in> set ws") (auto simp: remove1_idem)
  with False unlinked_eq [OF u] a k show ?thesis by (auto simp: answered_def expire_view_def split: option.splits)
qed

lemma flags_view_set:
  assumes sw: "flags_view_rep f W all sems v s" and inj: "inj_on (\<lambda>w. waiter_thread (W w)) (set all)" and d: "distinct all"
  shows "\<exists>t. vcos_generic_event_flags_set f bitmask op s = Some t \<and>
    flags_view_rep f W all sems (set_view W (new_events bitmask op (fst v)) v) t"
proof -
  obtain e0 ws answer where v: "v = (e0, ws, answer)" by (cases v)
  let ?e = "new_events bitmask op e0" and ?V = "event_waiters s"
  have r: "flags_rep f s ws" "ef_events (event_flags_at s f) = e0" and sub: "set ws \<subseteq> set all"
    and old: "\<And>w. w \<in> set all \<Longrightarrow> same_request (?V w) (W w) \<and> waiter_flags (?V w) = f \<and> answered W sems v w s"
    using sw by (simp_all add: flags_view_rep_def v)
  have "\<forall>w\<in>set ws. same_request (?V w) (W w)" using old sub by blast
  note lists = same_request_lists [OF this]
  obtain t where t: "vcos_generic_event_flags_set f bitmask op s = Some t" "flags_rep f t (left_waiting ?e W ws)"
    "ef_events (event_flags_at t f) = ?e AND NOT (consumed_by W (woken ?e W ws) 0)"
    "\<And>x. unlinked (event_waiters t x) = (if x \<in> set (woken ?e W ws) then served_waiter ?e (?V x) else unlinked (?V x))"
    "\<And>h. thread_sems t h = thread_sems s h + count_list (map (\<lambda>w. waiter_thread (W w)) (woken ?e W ws)) h"
    using flags_set_rep [OF r(1), of bitmask op] unfolding flags_set_result_def Let_def lists r(2) by blast
  have dw: "distinct ws" "distinct (woken ?e W ws)" "set (woken ?e W ws) \<subseteq> set all" using r sub by (auto simp: flags_rep_def woken_def)
  have each: "same_request (event_waiters t w) (W w) \<and> waiter_flags (event_waiters t w) = f \<and> answered W sems (set_view W ?e v) w t"
    if w: "w \<in> set all" for w
  proof (intro conjI)
    have u: "unlinked (event_waiters t w) = (if w \<in> set (woken ?e W ws) then unlinked (served_waiter ?e (?V w)) else unlinked (?V w))"
      using t(4) [of w] by (simp add: served_waiter_def unlinked_def)
    then have "same_request (event_waiters t w) (?V w) \<and> waiter_flags (event_waiters t w) = waiter_flags (?V w)"
      by (auto simp: served_waiter_def same_request_def split: if_splits dest: unlinked_eq)
    then show "same_request (event_waiters t w) (W w)" "waiter_flags (event_waiters t w) = f"
      using old [OF w] by (simp_all add: same_request_def)
    show "answered W sems (set_view W ?e v) w t" unfolding v
      by (rule answered_set [OF _ dw(1) u]) (use old [OF w] in \<open>simp_all add: v t(5) count_threads [OF inj d dw(3,2) w]\<close>)
  qed
  have "set (left_waiting ?e W ws) \<subseteq> set all" using sub by (auto simp: left_waiting_def)
  with t(1-3) each show ?thesis by (simp add: flags_view_rep_def v) (simp add: set_view_def)
qed

lemma flags_view_expire:
  assumes sw: "flags_view_rep f W all sems v s" and inj: "inj_on (\<lambda>w. waiter_thread (W w)) (set all)" and x: "x \<in> set all"
  shows "\<exists>t. event_flags_timer_expired x s = Some t \<and> flags_view_rep f W all sems (expire_view x v) t"
proof -
  obtain e0 ws answer where v: "v = (e0, ws, answer)" by (cases v)
  have r: "flags_rep f s ws" "ef_events (event_flags_at s f) = e0" and sub: "set ws \<subseteq> set all" and d: "distinct ws"
    and old: "\<And>w. w \<in> set all \<Longrightarrow> same_request (event_waiters s w) (W w) \<and> waiter_flags (event_waiters s w) = f \<and> answered W sems v w s"
    using sw by (simp_all add: flags_view_rep_def v flags_rep_def)
  have fx: "waiter_flags (event_waiters s x) = f" "waiter_thread (event_waiters s x) = waiter_thread (W x)"
    using old [OF x] by (simp_all add: same_request_def)
  obtain t where t: "event_flags_timer_expired x s = Some t" "flags_rep f t (remove1 x ws)"
    "\<And>y. unlinked (event_waiters t y) = unlinked (event_waiters s y)"
    "\<And>h. thread_sems t h = thread_sems s h + (if x \<in> set ws \<and> h = waiter_thread (event_waiters s x) then 1 else 0)"
    "ef_events (event_flags_at t f) = e0"
    using timer_expired_rep [OF r(1) fx(1)] r(2) by blast
  have each: "same_request (event_waiters t w) (W w) \<and> waiter_flags (event_waiters t w) = f \<and> answered W sems (expire_view x v) w t"
    if w: "w \<in> set all" for w
  proof (intro conjI)
    show "same_request (event_waiters t w) (W w)" "waiter_flags (event_waiters t w) = f"
      using unlinked_eq [OF t(3) [of w]] old [OF w] by (simp_all add: same_request_def)
    have "waiter_thread (W w) = waiter_thread (W x) \<longleftrightarrow> w = x" using inj w x by (auto dest: inj_onD)
    then show "answered W sems (expire_view x v) w t" unfolding v
      by (intro answered_expire [OF _ d t(3)]) (use old [OF w] in \<open>auto simp: v t(4) fx(2)\<close>)
  qed
  have "set (remove1 x ws) \<subseteq> set all" using sub by (auto dest: notin_set_remove1)
  with t(1,2,5) each show ?thesis by (simp add: flags_view_rep_def v) (simp add: expire_view_def)
qed

lemma flags_runs:
  assumes inj: "inj_on (\<lambda>w. waiter_thread (W w)) (set all)" and d: "distinct all"
  shows "flags_view_rep f W all sems v s \<Longrightarrow> (\<forall>w. Expire w \<in> set ops \<longrightarrow> w \<in> set all) \<Longrightarrow>
    \<exists>t. flags_run f ops s = Some t \<and> flags_view_rep f W all sems (flags_spec W ops v) t"
proof (induction ops arbitrary: v s)
  case Nil
  then show ?case by simp
next
  case (Cons op ops)
  show ?case
  proof (cases op)
    case (Set_events bitmask m)
    obtain t where "vcos_generic_event_flags_set f bitmask m s = Some t"
      "flags_view_rep f W all sems (set_view W (new_events bitmask m (fst v)) v) t"
      using flags_view_set [OF Cons.prems(1) inj d] by blast
    with Cons.IH [OF this(2)] Cons.prems(2) Set_events show ?thesis by auto
  next
    case (Expire x)
    have "x \<in> set all" using Cons.prems(2) Expire by simp
    then obtain t where "event_flags_timer_expired x s = Some t" "flags_view_rep f W all sems (expire_view x v) t"
      using flags_view_expire [OF Cons.prems(1) inj] by blast
    with Cons.IH [OF this(2)] Cons.prems(2) Expire show ?thesis by auto
  qed
qed

text \<open>Only events that satisfy a request are ever given with success.\<close>

lemma flags_spec_answers:
  "(\<forall>w st ev. answer w = Some (st, ev) \<longrightarrow> st = VCOS_SUCCESS \<and> waiter_satisfied ev (W w) \<or> st = VCOS_EAGAIN \<and> ev = 0) \<Longrightarrow>
   flags_spec W ops (e, ws, answer) = (e', ws', answer') \<Longrightarrow> answer' w = Some (st, ev) \<Longrightarrow>
   st = VCOS_SUCCESS \<and> waiter_satisfied ev (W w) \<or> st = VCOS_EAGAIN \<and> ev = 0"
proof (induction ops arbitrary: e ws answer)
  case (Cons op ops)
  show ?case
  proof (cases op)
    case (Set_events b m)
    let ?e = "new_events b m e"
    show ?thesis
      by (rule Cons.IH [of "\<lambda>w. if w \<in> set (woken ?e W ws) then Some (VCOS_SUCCESS, ?e) else answer w"])
        (use Cons.prems in \<open>auto simp: Set_events set_view_def woken_def split: if_splits\<close>)
  next
    case (Expire x)
    show ?thesis
      by (rule Cons.IH [of "if x \<in> set ws then answer(x \<mapsto> (VCOS_EAGAIN, 0)) else answer"])
        (use Cons.prems in \<open>auto simp: Expire expire_view_def split: if_splits\<close>)
  qed
qed auto

text \<open>
  C28: threads of their own sleep on the waiters \<open>ws\<close>.  However others set events and timers expire, every thread is posted exactly once
  when its waiter leaves the list and not before, and the waiter then holds the answer of the specification on lists: success with all the
  events at the set that first satisfied its request, or \<open>VCOS_EAGAIN\<close> and no events when its timer came first.  The events that remain
  are those of the specification too.
\<close>

theorem vcos_event_flags_wake_once:
  assumes "flags_rep f s ws" "inj_on (\<lambda>w. waiter_thread (event_waiters s w)) (set ws)"
    and "\<forall>w\<in>set ws. waiter_flags (event_waiters s w) = f \<and> return_status (event_waiters s w) = VCOS_EAGAIN \<and>
           actual_events (event_waiters s w) = 0"
    and "\<forall>w. Expire w \<in> set ops \<longrightarrow> w \<in> set ws"
    and "flags_spec (event_waiters s) ops (ef_events (event_flags_at s f), ws, \<lambda>_. None) = (events, rest, answer)"
  shows "\<exists>t. flags_run f ops s = Some t \<and> flags_rep f t rest \<and> set rest \<subseteq> set ws \<and> ef_events (event_flags_at t f) = events \<and>
     (\<forall>w\<in>set ws. case answer w of
        None \<Rightarrow> w \<in> set rest \<and> thread_sems t (waiter_thread (event_waiters s w)) = thread_sems s (waiter_thread (event_waiters s w))
      | Some (status, given) \<Rightarrow> w \<notin> set rest \<and>
          thread_sems t (waiter_thread (event_waiters s w)) = Suc (thread_sems s (waiter_thread (event_waiters s w))) \<and>
          return_status (event_waiters t w) = status \<and> actual_events (event_waiters t w) = given \<and>
          (status = VCOS_SUCCESS \<and> waiter_satisfied given (event_waiters s w) \<or> status = VCOS_EAGAIN \<and> given = 0))"
proof -
  let ?W = "event_waiters s" and ?v = "(ef_events (event_flags_at s f), ws, \<lambda>_. None) :: flags_view"
  have d: "distinct ws" using assms(1) by (simp add: flags_rep_def)
  have "flags_view_rep f ?W ws (thread_sems s) ?v s"
    using assms(1,3) by (simp add: flags_view_rep_def answered_def same_request_def)
  from flags_runs [OF assms(2) d this assms(4)] obtain t where
    t: "flags_run f ops s = Some t" "flags_view_rep f ?W ws (thread_sems s) (events, rest, answer) t" unfolding assms(5) by blast
  have a: "\<And>w st ev. answer w = Some (st, ev) \<Longrightarrow> st = VCOS_SUCCESS \<and> waiter_satisfied ev (?W w) \<or> st = VCOS_EAGAIN \<and> ev = 0"
    using flags_spec_answers [OF _ assms(5)] by simp
  show ?thesis
  proof (intro exI [of _ t] conjI ballI)
    fix w assume "w \<in> set ws"
    then have "answered ?W (thread_sems s) (events, rest, answer) w t" using t(2) by (simp add: flags_view_rep_def)
    then show "case answer w of
        None \<Rightarrow> w \<in> set rest \<and> thread_sems t (waiter_thread (?W w)) = thread_sems s (waiter_thread (?W w))
      | Some (status, given) \<Rightarrow> w \<notin> set rest \<and>
          thread_sems t (waiter_thread (?W w)) = Suc (thread_sems s (waiter_thread (?W w))) \<and>
          return_status (event_waiters t w) = status \<and> actual_events (event_waiters t w) = given \<and>
          (status = VCOS_SUCCESS \<and> waiter_satisfied given (?W w) \<or> status = VCOS_EAGAIN \<and> given = 0)"
      using a [of w] by (cases "answer w") (auto simp: answered_def)
  qed (use t in \<open>simp_all add: flags_view_rep_def\<close>)
qed

theorem vcos_event_flags_wake_once_witness:
  "\<exists>t. flags_run 5 [Expire 21, Set_events 4 VCOS_OR, Expire 22] waiting_store = Some t \<and>
     return_status (event_waiters t 21) = VCOS_EAGAIN \<and> return_status (event_waiters t 22) = VCOS_SUCCESS \<and>
     actual_events (event_waiters t 22) = 4 \<and> ef_events (event_flags_at t 5) = 0 \<and> thread_sems t 21 = 1 \<and> thread_sems t 22 = 1"
proof -
  have inj: "inj_on (\<lambda>w. waiter_thread (event_waiters waiting_store w)) (set [21, 22])"
    and init: "\<forall>w\<in>set [21, 22]. waiter_flags (event_waiters waiting_store w) = 5 \<and>
      return_status (event_waiters waiting_store w) = VCOS_EAGAIN \<and> actual_events (event_waiters waiting_store w) = 0"
    by (simp_all add: waiting_store_def)
  let ?ops = "[Expire 21, Set_events 4 VCOS_OR, Expire 22]"
  have ex: "\<forall>w. Expire w \<in> set ?ops \<longrightarrow> w \<in> set [21, 22]" by simp
  have "flags_spec (event_waiters waiting_store) ?ops (ef_events (event_flags_at waiting_store 5), [21, 22], \<lambda>_. None) =
    (0, [], [21 \<mapsto> (VCOS_EAGAIN, 0), 22 \<mapsto> (VCOS_SUCCESS, 4)])"
    by (simp add: waiting_store_def set_view_def expire_view_def new_events_def woken_def left_waiting_def consumed_by_def
        waiter_satisfied_def VCOS_OR_def VCOS_AND_def VCOS_CONSUME_def fun_eq_iff)
  from vcos_event_flags_wake_once [OF waiting_store_rep inj init ex this] show ?thesis
    by (auto simp: waiting_store_def)
qed

lemma append_waiter_rep:
  assumes r: "flags_rep f s ws" and w: "w \<notin> set ws"
  shows "\<exists>t. append_waiter f w s = Some t \<and> flags_rep f t (ws @ [w]) \<and> ef_events (event_flags_at t f) = ef_events (event_flags_at s f) \<and>
    thread_sems t = thread_sems s \<and> (\<forall>x. unlinked (event_waiters t x) = unlinked (event_waiters s x))"
proof (cases ws rule: rev_cases)
  case Nil
  then show ?thesis using r by (simp add: append_waiter_def flags_rep_def Let_def)
next
  case (snoc ys y)
  let ?nx = "\<lambda>w. waiter_next (event_waiters s w)"
  let ?t = "upd_flags f (\<lambda>d. d\<lparr>ef_tail := Some w\<rparr>) (upd_waiter y (\<lambda>d. d\<lparr>waiter_next := Some w\<rparr>) (upd_waiter w (\<lambda>d. d\<lparr>waiter_next := None\<rparr>) s))"
  have yw: "y \<noteq> w" "y \<notin> set ys" "w \<notin> set ys" using r w by (auto simp: snoc flags_rep_def)
  have hd: "ef_head (event_flags_at s f) = Some (hd ws)" "ef_tail (event_flags_at s f) = Some y"
    using r lseg_nonempty_head [of ?nx "ef_head (event_flags_at s f)" ws None] by (auto simp: snoc flags_rep_def)
  have nx: "(\<lambda>x. waiter_next (event_waiters ?t x)) = ?nx(w := None, y := Some w)" using yw by (auto simp: fun_eq_iff)
  have "lseg ?nx (ef_head (event_flags_at s f)) ys (Some y)" using r by (auto simp: snoc flags_rep_def lseg_append)
  then have "lseg (?nx(w := None, y := Some w)) (ef_head (event_flags_at s f)) (ys @ [y, w]) None"
    unfolding lseg_append using yw lseg_upd [OF yw(2), of "?nx(w := None)"] lseg_upd [OF yw(3), of ?nx] by auto
  then have "flags_rep f ?t (ws @ [w])" using r w unfolding flags_rep_def nx by (auto simp: snoc)
  moreover have "append_waiter f w s = Some ?t" using hd by (simp add: append_waiter_def)
  ultimately show ?thesis by (intro exI [of _ ?t]) simp
qed

lemma op_kinds:
  "op AND VCOS_EVENT_FLAG_OP_MASK \<in> {VCOS_AND, VCOS_OR} \<Longrightarrow> op AND VCOS_AND \<noteq> 0 \<longleftrightarrow> op AND VCOS_EVENT_FLAG_OP_MASK = VCOS_AND"
proof -
  assume "op AND VCOS_EVENT_FLAG_OP_MASK \<in> {VCOS_AND, VCOS_OR}"
  moreover have "op AND VCOS_AND = (op AND VCOS_EVENT_FLAG_OP_MASK) AND VCOS_AND"
    by (simp add: VCOS_EVENT_FLAG_OP_MASK_def VCOS_AND_def VCOS_OR_def and.assoc)
  ultimately show ?thesis by (auto simp: VCOS_AND_def VCOS_OR_def)
qed

text \<open>
  A get whose request is not met goes to sleep behind the waiters that are there; when other threads then set events that meet it,
  it returns success with all the events there were, and it takes the one token that it was posted.
\<close>

theorem vcos_event_flags_get_woken:
  assumes r: "flags_rep f s ws" "w \<notin> set ws" and kind: "op AND VCOS_EVENT_FLAG_OP_MASK \<in> {VCOS_AND, VCOS_OR}" and sus: "suspend \<noteq> 0"
    and own: "\<forall>x\<in>set ws. waiter_thread (event_waiters s x) \<noteq> thread"
    and now: "\<not> waiter_satisfied (ef_events (event_flags_at s f)) \<lparr>requested_events = bitmask, actual_events = 0, waiter_op = op,
       return_status = VCOS_EAGAIN, waiter_flags = f, waiter_thread = thread, waiter_next = None\<rparr>"
    and later: "waiter_satisfied (ef_events (event_flags_at s f) OR extra) \<lparr>requested_events = bitmask, actual_events = 0, waiter_op = op,
       return_status = VCOS_EAGAIN, waiter_flags = f, waiter_thread = thread, waiter_next = None\<rparr>"
  shows "\<exists>t. vcos_generic_event_flags_get (vcos_generic_event_flags_set f extra VCOS_OR) f bitmask op suspend thread w s =
       Some (VCOS_SUCCESS, ef_events (event_flags_at s f) OR extra, t) \<and> thread_sems t thread = thread_sems s thread"
proof -
  let ?e = "ef_events (event_flags_at s f)"
  let ?d = "\<lparr>requested_events = bitmask, actual_events = 0, waiter_op = op, return_status = VCOS_EAGAIN, waiter_flags = f,
    waiter_thread = thread, waiter_next = None\<rparr>"
  let ?s = "upd_waiter w (\<lambda>_. ?d) s"
  have nx: "(\<lambda>x. waiter_next (event_waiters ?s x)) = (\<lambda>x. waiter_next (event_waiters s x))(w := None)" by (auto simp: fun_eq_iff)
  have rs: "flags_rep f ?s ws" using r(1) unfolding flags_rep_def nx lseg_upd [OF r(2)] by simp
  obtain u where u: "append_waiter f w ?s = Some u" "flags_rep f u (ws @ [w])" "ef_events (event_flags_at u f) = ?e"
    "thread_sems u = thread_sems s" "\<And>x. unlinked (event_waiters u x) = unlinked (event_waiters ?s x)"
    using append_waiter_rep [OF rs r(2)] by auto
  have bits: "op AND VCOS_AND \<noteq> 0 \<longleftrightarrow> op AND VCOS_EVENT_FLAG_OP_MASK = VCOS_AND"
    using kind by (rule op_kinds)
  let ?v = "if suspend \<noteq> - 1 then u\<lparr>task_timers := (task_timers u)(thread := Some (w, suspend))\<rparr> else u"
  have begin_get: "event_flags_get_begin f bitmask op suspend thread w s = Some (None, ?v)"
    using kind now sus u(1) bits by (auto simp: event_flags_get_begin_def waiter_satisfied_def Let_def VCOS_AND_def VCOS_OR_def)
  have v: "flags_rep f ?v (ws @ [w])" "ef_events (event_flags_at ?v f) = ?e" "thread_sems ?v = thread_sems s"
    "event_waiters ?v = event_waiters u" using u(2-4) by (simp_all add: flags_rep_def)
  obtain t where t: "vcos_generic_event_flags_set f extra VCOS_OR ?v = Some t" "flags_set_result f (?e OR extra) (ws @ [w]) ?v t"
    using flags_set_rep [OF v(1), of extra VCOS_OR] v(2) by (auto simp: new_events_def)
  have uw: "unlinked (event_waiters u w) = unlinked ?d" using u(5) by simp
  have in_woken: "w \<in> set (woken (?e OR extra) (event_waiters u) (ws @ [w]))"
    using later satisfied_unlinked [OF uw] by (simp add: woken_def)
  have "count_list (map (\<lambda>w. waiter_thread (event_waiters u w)) (woken (?e OR extra) (event_waiters u) (ws @ [w]))) thread = 1"
  proof -
    have "waiter_thread (event_waiters u x) \<noteq> thread" if "x \<in> set ws" for x
      using unlinked_eq [OF u(5) [of x]] own that r(2) by auto
    then have "thread \<notin> set (map (\<lambda>w. waiter_thread (event_waiters u w)) (woken (?e OR extra) (event_waiters u) ws))"
      by (auto simp: woken_def)
    then have "count_list (map (\<lambda>w. waiter_thread (event_waiters u w)) (woken (?e OR extra) (event_waiters u) ws)) thread = 0"
      by (rule count_notin)
    moreover have "waiter_thread (event_waiters u w) = thread" using unlinked_eq [OF uw] by simp
    ultimately show ?thesis using in_woken r(2) by (simp add: woken_def split: if_splits)
  qed
  then have sem: "thread_sems t thread = Suc (thread_sems s thread)" using t(2) v(3,4) by (simp add: flags_set_result_def Let_def)
  have "unlinked (event_waiters t w) = unlinked (served_waiter (?e OR extra) (event_waiters u w))"
    using t(2) in_woken v(4) by (simp add: flags_set_result_def Let_def) (simp add: served_waiter_def unlinked_def)
  from unlinked_eq [OF this] have st: "return_status (event_waiters t w) = VCOS_SUCCESS" "actual_events (event_waiters t w) = ?e OR extra"
    by (simp_all add: served_waiter_def)
  show ?thesis using begin_get t(1) sem st
    by (simp add: vcos_generic_event_flags_get_def event_flags_get_end_def thread_sem_wait_def vcos_semaphore_wait_def)
qed

theorem vcos_event_flags_get_woken_witness:
  "\<exists>t. vcos_generic_event_flags_get (vcos_generic_event_flags_set 5 24 VCOS_OR) 5 8 VCOS_OR 10 33 23 waiting_store = Some (VCOS_SUCCESS, 24, t) \<and>
     thread_sems t 33 = 0"
proof -
  have "23 \<notin> set [21, 22 :: nat]" "VCOS_OR AND VCOS_EVENT_FLAG_OP_MASK \<in> {VCOS_AND, VCOS_OR}" "(10 :: u32) \<noteq> 0"
    "\<forall>x\<in>set [21, 22]. waiter_thread (event_waiters waiting_store x) \<noteq> 33"
    by (simp_all add: VCOS_EVENT_FLAG_OP_MASK_def VCOS_OR_def VCOS_AND_def waiting_store_def)
  from vcos_event_flags_get_woken [OF waiting_store_rep this, of 8 24] show ?thesis
    by (simp add: waiting_store_def waiter_satisfied_def VCOS_OR_def VCOS_AND_def)
qed

end
