(* ===== verification/ReentrantMutex.thy ===== *)
theory ReentrantMutex
  imports Vcos
begin

text \<open>
  Mutexes that a thread can lock again, \<^verbatim>\<open>vcos/generic/vcos_generic_reentrant_mtx.c\<close>: an owner and a count around a plain mutex.
  The owner is read and written outside the plain mutex, so every access is a step of its own.  The count is a 32-bit
  word; the assertions are steps to \<open>R_aborted\<close>, where a thread stays.
\<close>

datatype mutex_pc = R_outside | R_wants | R_entered | R_owned | R_leaving | R_left | R_aborted

text \<open>
  \<open>rm_holder\<close> is the thread that holds the plain mutex; \<open>rm_depth\<close> counts for every thread the locks that returned less the unlocks that
  began.
\<close>

record reentrant_mutex =
  rm_count :: u32
  rm_owner :: "nat option"
  rm_holder :: "nat option"
  rm_pc :: "nat \<Rightarrow> mutex_pc"
  rm_depth :: "nat \<Rightarrow> nat"

definition free_mutex :: reentrant_mutex where
  "free_mutex = \<lparr>rm_count = 0, rm_owner = None, rm_holder = None, rm_pc = (\<lambda>_. R_outside), rm_depth = (\<lambda>_. 0)\<rparr>"

definition vcos_generic_reentrant_mutex_create :: "addr \<Rightarrow> 'a os_store_scheme \<Rightarrow> (vcos_status \<times> reentrant_mutex) \<times> 'a os_store_scheme" where
  "vcos_generic_reentrant_mutex_create m s =
     (let (made, s) = vcos_create (Mutex m) s
      in ((if made then VCOS_SUCCESS else VCOS_ENOSPC, free_mutex), s))"

text \<open>Deleting asserts that nobody holds locks.\<close>

definition vcos_generic_reentrant_mutex_delete :: "addr \<Rightarrow> reentrant_mutex \<Rightarrow> 'a os_store_scheme \<Rightarrow> 'a os_store_scheme option" where
  "vcos_generic_reentrant_mutex_delete a m s = (if rm_count m = 0 then Some (vcos_delete (Mutex a) s) else None)"

definition rm_at :: "nat \<Rightarrow> mutex_pc \<Rightarrow> reentrant_mutex \<Rightarrow> reentrant_mutex" where
  "rm_at t pc m = m\<lparr>rm_pc := (rm_pc m)(t := pc)\<rparr>"

definition rm_deepen :: "nat \<Rightarrow> int \<Rightarrow> reentrant_mutex \<Rightarrow> reentrant_mutex" where
  "rm_deepen t d m = m\<lparr>rm_depth := (rm_depth m)(t := nat (int (rm_depth m t) + d))\<rparr>"

section \<open>Steps\<close>

text \<open>
  Locking: the owner is looked at; another thread waits for the plain mutex, takes over, and asserts that the count is zero before it
  increments it.
\<close>

inductive reentrant_lock_step :: "nat \<Rightarrow> reentrant_mutex \<Rightarrow> reentrant_mutex \<Rightarrow> bool" for t where
  again: "rm_pc m t = R_outside \<Longrightarrow> rm_owner m = Some t \<Longrightarrow>
     reentrant_lock_step t m (rm_deepen t 1 (m\<lparr>rm_count := rm_count m + 1\<rparr>))"
| want: "rm_pc m t = R_outside \<Longrightarrow> rm_owner m \<noteq> Some t \<Longrightarrow> reentrant_lock_step t m (rm_at t R_wants m)"
| enter: "rm_pc m t = R_wants \<Longrightarrow> rm_holder m = None \<Longrightarrow>
     reentrant_lock_step t m (rm_at t R_entered (m\<lparr>rm_holder := Some t\<rparr>))"
| own: "rm_pc m t = R_entered \<Longrightarrow> reentrant_lock_step t m (rm_at t R_owned (m\<lparr>rm_owner := Some t\<rparr>))"
| count: "rm_pc m t = R_owned \<Longrightarrow> rm_count m = 0 \<Longrightarrow>
     reentrant_lock_step t m (rm_deepen t 1 (rm_at t R_outside (m\<lparr>rm_count := rm_count m + 1\<rparr>)))"
| counted: "rm_pc m t = R_owned \<Longrightarrow> rm_count m \<noteq> 0 \<Longrightarrow> reentrant_lock_step t m (rm_at t R_aborted m)"

text \<open>
  Unlocking: the count must not be zero and the caller must be the owner, or the assertions stop it; when the count gets to zero the
  owner is cleared and then the plain mutex is given up.
\<close>

inductive reentrant_unlock_step :: "nat \<Rightarrow> reentrant_mutex \<Rightarrow> reentrant_mutex \<Rightarrow> bool" for t where
  foreign: "rm_pc m t = R_outside \<Longrightarrow> rm_count m = 0 \<or> rm_owner m \<noteq> Some t \<Longrightarrow> reentrant_unlock_step t m (rm_at t R_aborted m)"
| shallow: "rm_pc m t = R_outside \<Longrightarrow> rm_count m \<noteq> 0 \<Longrightarrow> rm_owner m = Some t \<Longrightarrow> rm_count m - 1 \<noteq> 0 \<Longrightarrow>
     reentrant_unlock_step t m (rm_deepen t (- 1) (m\<lparr>rm_count := rm_count m - 1\<rparr>))"
| last: "rm_pc m t = R_outside \<Longrightarrow> rm_count m \<noteq> 0 \<Longrightarrow> rm_owner m = Some t \<Longrightarrow> rm_count m - 1 = 0 \<Longrightarrow>
     reentrant_unlock_step t m (rm_deepen t (- 1) (rm_at t R_leaving (m\<lparr>rm_count := rm_count m - 1\<rparr>)))"
| disown: "rm_pc m t = R_leaving \<Longrightarrow> reentrant_unlock_step t m (rm_at t R_left (m\<lparr>rm_owner := None\<rparr>))"
| leave: "rm_pc m t = R_left \<Longrightarrow> reentrant_unlock_step t m (rm_at t R_outside (m\<lparr>rm_holder := None\<rparr>))"

text \<open>
  The users keep two rules: a thread that begins an unlock has a lock to give up, and no thread has \<open>2 ^ 32\<close> locks at once, where the
  count would wrap to zero.
\<close>

inductive reentrant_reachable :: "reentrant_mutex \<Rightarrow> bool" where
  start: "reentrant_reachable free_mutex"
| lock: "reentrant_reachable m \<Longrightarrow> rm_depth m t < 2 ^ 32 - 1 \<Longrightarrow> reentrant_lock_step t m m' \<Longrightarrow> reentrant_reachable m'"
| unlock: "reentrant_reachable m \<Longrightarrow> rm_pc m t = R_outside \<longrightarrow> 0 < rm_depth m t \<Longrightarrow> reentrant_unlock_step t m m' \<Longrightarrow>
     reentrant_reachable m'"

section \<open>Mutual exclusion\<close>

lemma rm_sel [simp]:
  "rm_count (rm_at t pc m) = rm_count m" "rm_owner (rm_at t pc m) = rm_owner m" "rm_holder (rm_at t pc m) = rm_holder m"
  "rm_depth (rm_at t pc m) = rm_depth m" "rm_pc (rm_at t pc m) = (rm_pc m)(t := pc)"
  "rm_count (rm_deepen t d m) = rm_count m" "rm_owner (rm_deepen t d m) = rm_owner m" "rm_holder (rm_deepen t d m) = rm_holder m"
  "rm_pc (rm_deepen t d m) = rm_pc m" "rm_depth (rm_deepen t d m) = (rm_depth m)(t := nat (int (rm_depth m t) + d))"
  by (simp_all add: rm_at_def rm_deepen_def)

text \<open>
  The thread that holds the plain mutex is between its lock and its unlock, and the count is its depth; the others are outside or
  wait.  The owner is the holder once it wrote itself there and until it clears it.
\<close>

definition reentrant_inv :: "reentrant_mutex \<Rightarrow> bool" where
  "reentrant_inv m \<longleftrightarrow> (case rm_holder m of
     None \<Rightarrow> rm_owner m = None \<and> rm_count m = 0 \<and> (\<forall>t. rm_depth m t = 0 \<and> rm_pc m t \<in> {R_outside, R_wants})
   | Some h \<Rightarrow> unat (rm_count m) = rm_depth m h \<and> (\<forall>t. t \<noteq> h \<longrightarrow> rm_depth m t = 0 \<and> rm_pc m t \<in> {R_outside, R_wants}) \<and>
       (rm_pc m h = R_entered \<and> rm_owner m = None \<and> rm_depth m h = 0 \<or> rm_pc m h = R_owned \<and> rm_owner m = Some h \<and> rm_depth m h = 0 \<or>
        rm_pc m h = R_outside \<and> rm_owner m = Some h \<and> 0 < rm_depth m h \<or>
        rm_pc m h = R_leaving \<and> rm_owner m = Some h \<and> rm_depth m h = 0 \<or> rm_pc m h = R_left \<and> rm_owner m = None \<and> rm_depth m h = 0))"

lemma inv_holder: "reentrant_inv m \<Longrightarrow> rm_pc m t \<notin> {R_outside, R_wants} \<or> 0 < rm_depth m t \<or> rm_owner m = Some t \<Longrightarrow> rm_holder m = Some t"
proof (cases "rm_holder m")
  case (Some h)
  assume "reentrant_inv m" "rm_pc m t \<notin> {R_outside, R_wants} \<or> 0 < rm_depth m t \<or> rm_owner m = Some t"
  with Some show ?thesis by (cases "t = h") (auto simp: reentrant_inv_def)
qed (auto simp: reentrant_inv_def)

lemma count_word: "unat (c :: u32) = n \<Longrightarrow> c = 0 \<longleftrightarrow> n = 0" "unat (c :: u32) = n \<Longrightarrow> n < 2 ^ 32 - 1 \<Longrightarrow> unat (c + 1) = n + 1"
  "unat (c :: u32) = n \<Longrightarrow> 0 < n \<Longrightarrow> unat (c - 1) = n - 1"
proof -
  show "unat c = n \<Longrightarrow> c = 0 \<longleftrightarrow> n = 0" by (auto simp: unat_eq_0)
  assume c: "unat c = n"
  show "n < 2 ^ 32 - 1 \<Longrightarrow> unat (c + 1) = n + 1" using c by (subst unat_add_lem [THEN iffD1]) simp_all
  assume "0 < n"
  with c show "unat (c - 1) = n - 1" by (subst unat_sub) (simp_all add: word_le_nat_alt)
qed

lemma reentrant_lock_step_inv:
  "reentrant_lock_step t m m' \<Longrightarrow> reentrant_inv m \<Longrightarrow> rm_depth m t < 2 ^ 32 - 1 \<Longrightarrow> reentrant_inv m'"
proof (induction rule: reentrant_lock_step.induct)
  case (again m)
  then have "rm_holder m = Some t" by (intro inv_holder) auto
  with again show ?case using count_word(2) [of "rm_count m" "rm_depth m t"] by (auto simp: reentrant_inv_def)
next
  case (want m)
  then show ?case by (auto simp: reentrant_inv_def split: option.splits)
next
  case (enter m)
  then show ?case by (auto simp: reentrant_inv_def)
next
  case (own m)
  then have "rm_holder m = Some t" by (intro inv_holder) auto
  with own show ?case by (auto simp: reentrant_inv_def)
next
  case (count m)
  then have "rm_holder m = Some t" by (intro inv_holder) auto
  with count show ?case by (auto simp: reentrant_inv_def)
next
  case (counted m)
  then have "rm_holder m = Some t" by (intro inv_holder) auto
  with counted show ?case using count_word(1) [of "rm_count m" "rm_depth m t"] by (auto simp: reentrant_inv_def)
qed

lemma reentrant_unlock_step_inv:
  "reentrant_unlock_step t m m' \<Longrightarrow> reentrant_inv m \<Longrightarrow> rm_pc m t = R_outside \<longrightarrow> 0 < rm_depth m t \<Longrightarrow> reentrant_inv m'"
proof (induction rule: reentrant_unlock_step.induct)
  case (foreign m)
  then have "rm_holder m = Some t" by (intro inv_holder) auto
  with foreign show ?case using count_word(1) [of "rm_count m" "rm_depth m t"] by (auto simp: reentrant_inv_def)
next
  case (shallow m)
  then have "rm_holder m = Some t" by (intro inv_holder) auto
  with shallow show ?case
    using count_word(3) [of "rm_count m" "rm_depth m t"] count_word(1) [of "rm_count m - 1" "rm_depth m t - 1"]
    by (auto simp: reentrant_inv_def)
next
  case (last m)
  then have "rm_holder m = Some t" by (intro inv_holder) auto
  with last show ?case
    using count_word(3) [of "rm_count m" "rm_depth m t"] count_word(1) [of "rm_count m - 1" "rm_depth m t - 1"]
    by (auto simp: reentrant_inv_def)
next
  case (disown m)
  then have "rm_holder m = Some t" by (intro inv_holder) auto
  with disown show ?case by (auto simp: reentrant_inv_def)
next
  case (leave m)
  then have "rm_holder m = Some t" by (intro inv_holder) auto
  with leave show ?case by (auto simp: reentrant_inv_def unat_eq_0)
qed

lemma reentrant_reachable_inv: "reentrant_reachable m \<Longrightarrow> reentrant_inv m"
proof (induction rule: reentrant_reachable.induct)
  case start
  then show ?case by (simp add: free_mutex_def reentrant_inv_def)
qed (use reentrant_lock_step_inv reentrant_unlock_step_inv in blast)+

lemma inv_not_aborted: "reentrant_inv m \<Longrightarrow> rm_pc m u \<noteq> R_aborted"
proof
  assume inv: "reentrant_inv m" and a: "rm_pc m u = R_aborted"
  have "rm_holder m = Some u" by (rule inv_holder [OF inv]) (simp add: a)
  with inv a show False by (auto simp: reentrant_inv_def)
qed

text \<open>
  C29: however threads lock and unlock, as long as each unlocks what it locked and none has \<open>2 ^ 32\<close> locks at once, no assertion fails.
  At most one thread has locks that it did not give up; the count is their number and the
  owner that thread, so it can lock again without waiting, and it gives up the plain mutex with the last of them only.
\<close>

theorem vcos_reentrant_mutex_excludes:
  assumes "reentrant_reachable m"
  shows "(\<forall>u. rm_pc m u \<noteq> R_aborted) \<and>
    (\<forall>t. 0 < rm_depth m t \<longrightarrow> rm_holder m = Some t \<and> rm_owner m = Some t \<and> unat (rm_count m) = rm_depth m t \<and>
       (\<forall>u. u \<noteq> t \<longrightarrow> rm_depth m u = 0) \<and> rm_pc m t = R_outside \<and>
       (\<exists>m'. reentrant_lock_step t m m' \<and> rm_holder m' = Some t \<and> rm_pc m' t = R_outside \<and> rm_depth m' t = rm_depth m t + 1) \<and>
       (\<exists>m'. reentrant_unlock_step t m m' \<and> rm_depth m' t = rm_depth m t - 1 \<and>
          rm_pc m' t = (if rm_depth m t = 1 then R_leaving else R_outside)))"
proof (intro conjI allI impI)
  have inv: "reentrant_inv m" by (rule reentrant_reachable_inv [OF assms])
  then show "rm_pc m u \<noteq> R_aborted" for u by (rule inv_not_aborted)
  fix t assume d: "0 < rm_depth m t"
  show h: "rm_holder m = Some t" by (rule inv_holder [OF inv]) (use d in blast)
  then show own: "rm_owner m = Some t" "unat (rm_count m) = rm_depth m t" "rm_pc m t = R_outside" "u \<noteq> t \<Longrightarrow> rm_depth m u = 0" for u
    using inv d by (auto simp: reentrant_inv_def)
  show "\<exists>m'. reentrant_lock_step t m m' \<and> rm_holder m' = Some t \<and> rm_pc m' t = R_outside \<and> rm_depth m' t = rm_depth m t + 1"
    using reentrant_lock_step.again [OF own(3,1)] by (intro exI conjI) (assumption, simp_all add: h own(3))
  have c: "rm_count m \<noteq> 0" and c1: "rm_count m - 1 = 0 \<longleftrightarrow> rm_depth m t = 1"
    using count_word(1) [OF own(2)] count_word(1) [OF count_word(3) [OF own(2) d]] d by auto
  show "\<exists>m'. reentrant_unlock_step t m m' \<and> rm_depth m' t = rm_depth m t - 1 \<and>
      rm_pc m' t = (if rm_depth m t = 1 then R_leaving else R_outside)"
  proof (cases "rm_count m - 1 = 0")
    case True
    from reentrant_unlock_step.last [OF own(3) c own(1) this] show ?thesis
      using True c1 by (intro exI conjI) (assumption, simp_all)
  next
    case False
    from reentrant_unlock_step.shallow [OF own(3) c own(1) this] show ?thesis
      using False c1 own(3) by (intro exI conjI) (assumption, simp_all)
  qed
qed

definition locked_twice :: reentrant_mutex where
  "locked_twice = rm_deepen 3 1 ((rm_deepen 3 1 (rm_at 3 R_outside ((rm_at 3 R_owned ((rm_at 3 R_entered ((rm_at 3 R_wants free_mutex)
     \<lparr>rm_holder := Some 3\<rparr>))\<lparr>rm_owner := Some 3\<rparr>))\<lparr>rm_count := 1\<rparr>)))\<lparr>rm_count := 2\<rparr>)"

lemma locked_twice_reachable: "reentrant_reachable locked_twice"
proof -
  note l = reentrant_reachable.lock [where t = 3]
  have 1: "reentrant_reachable (rm_at 3 R_wants free_mutex)"
    by (rule l [OF reentrant_reachable.start], simp add: free_mutex_def, rule want) (simp_all add: free_mutex_def)
  have 2: "reentrant_reachable (rm_at 3 R_entered ((rm_at 3 R_wants free_mutex)\<lparr>rm_holder := Some 3\<rparr>))" (is "reentrant_reachable ?b")
    by (rule l [OF 1], simp add: free_mutex_def, rule enter) (simp_all add: free_mutex_def)
  have 3: "reentrant_reachable (rm_at 3 R_owned (?b\<lparr>rm_owner := Some 3\<rparr>))" (is "reentrant_reachable ?c")
    by (rule l [OF 2], simp add: free_mutex_def, rule own) simp
  have "reentrant_reachable (rm_deepen 3 1 (rm_at 3 R_outside (?c\<lparr>rm_count := rm_count ?c + 1\<rparr>)))" (is "reentrant_reachable ?d")
    by (rule l [OF 3], simp add: free_mutex_def, rule count) (simp_all add: free_mutex_def)
  then have "reentrant_reachable (rm_deepen 3 1 (?d\<lparr>rm_count := rm_count ?d + 1\<rparr>))"
    by (rule l, simp add: free_mutex_def, intro again) simp_all
  then show ?thesis by (simp add: locked_twice_def free_mutex_def numeral_2_eq_2)
qed

theorem vcos_reentrant_mutex_excludes_witness:
  "rm_depth locked_twice 3 = 2 \<and> rm_holder locked_twice = Some 3 \<and> unat (rm_count locked_twice) = rm_depth locked_twice 3 \<and>
   rm_pc locked_twice 3 \<noteq> R_aborted"
proof -
  have d: "rm_depth locked_twice 3 = 2" by (simp add: locked_twice_def free_mutex_def)
  note x = vcos_reentrant_mutex_excludes [OF locked_twice_reachable]
  from spec [OF conjunct2 [OF x], of 3] d conjunct1 [OF x] show ?thesis by auto
qed

end
