(* ===== verification/NamedSemaphore.thy ===== *)
theory NamedSemaphore
  imports Blockpool
begin

text \<open>
  Named semaphores, \<^verbatim>\<open>vcos/generic/vcos_generic_named_sem.c\<close>: handles that were opened under the same name share a semaphore.  The
  semaphores in use are blocks of a pool in a doubly linked list, in descending order of their names.  Every operation runs under
  one lock.
\<close>

section \<open>Data\<close>

definition VCOS_NAMED_SEMAPHORE_NAMELEN :: nat where "VCOS_NAMED_SEMAPHORE_NAMELEN = 64"
definition NUM_SEMS :: u32 where "NUM_SEMS = 16"
definition MAX_SEMS :: u32 where "MAX_SEMS = 512"
definition sizeof_VCOS_NAMED_SEMAPHORE_IMPL_T :: u32 where "sizeof_VCOS_NAMED_SEMAPHORE_IMPL_T = 92"

record sem_impl =
  si_count :: nat
  si_name :: string
  si_refs :: u32
  si_next :: "addr option"
  si_prev :: "addr option"

text \<open>\<open>sem_handles\<close> is the field \<open>actual\<close> of the handles of the clients; \<open>sem\<close> points into the same object.\<close>

record sem_store = bp_store +
  sem_impls :: "addr \<Rightarrow> sem_impl"
  sem_handles :: "addr \<Rightarrow> addr option"
  sems_in_use :: "addr option"
  sems_in_use_count :: int
  sems_total_ref_count :: int
  sems_pool :: blockpool

definition upd_impl :: "addr \<Rightarrow> (sem_impl \<Rightarrow> sem_impl) \<Rightarrow> 'a sem_store_scheme \<Rightarrow> 'a sem_store_scheme" where
  "upd_impl i f s = s\<lparr>sem_impls := (sem_impls s)(i := f (sem_impls s i))\<rparr>"

definition zero_impl :: sem_impl where
  "zero_impl = \<lparr>si_count = 0, si_name = [], si_refs = 0, si_next = None, si_prev = None\<rparr>"

text \<open>\<open>strcmp\<close> of the C library, on the characters before the terminating zero.\<close>

fun strcmp :: "string \<Rightarrow> string \<Rightarrow> int" where
  "strcmp [] [] = 0"
| "strcmp [] (d # ds) = - of_char d"
| "strcmp (c # cs) [] = of_char c"
| "strcmp (c # cs) (d # ds) = (if c = d then strcmp cs ds else of_char c - of_char d)"

section \<open>Operations\<close>

definition vcos_named_semaphore_init :: "addr \<Rightarrow> 'a sem_store_scheme \<Rightarrow> (vcos_status \<times> 'a sem_store_scheme) option" where
  "vcos_named_semaphore_init pool_mem s =
     (let (status, p, s) = vcos_generic_blockpool_init (sems_pool s) NUM_SEMS sizeof_VCOS_NAMED_SEMAPHORE_IMPL_T pool_mem
            (VCOS_BLOCKPOOL_SIZE NUM_SEMS sizeof_VCOS_NAMED_SEMAPHORE_IMPL_T VCOS_BLOCKPOOL_ALIGN_DEFAULT)
            VCOS_BLOCKPOOL_ALIGN_DEFAULT s;
          s = s\<lparr>sems_pool := p\<rparr>
      in if status \<noteq> VCOS_SUCCESS then Some (status, s)
         else let (status, p) = vcos_generic_blockpool_extend p (VCOS_BLOCKPOOL_MAX_SUBPOOLS - 1)
                    ((MAX_SEMS - NUM_SEMS) div word_of_nat (VCOS_BLOCKPOOL_MAX_SUBPOOLS - 1));
                  s = s\<lparr>sems_pool := p\<rparr>
              in if status \<noteq> VCOS_SUCCESS then map_option (Pair status) (vcos_generic_blockpool_delete (Some p) s)
                 else let (made, s) = vcos_create (Mutex 0) s
                      in if made then Some (VCOS_SUCCESS, s)
                         else map_option (Pair VCOS_ENOSPC) (vcos_generic_blockpool_delete (Some p) s))"

definition vcos_named_semaphore_deinit :: "'a sem_store_scheme \<Rightarrow> 'a sem_store_scheme option" where
  "vcos_named_semaphore_deinit s =
     map_option (\<lambda>s. (vcos_delete (Mutex 0) s)\<lparr>sems_in_use := None\<rparr>) (vcos_generic_blockpool_delete (Some (sems_pool s)) s)"

text \<open>The search: the first semaphore whose name is not greater, and the last comparison.\<close>

partial_function (option) find_named ::
  "string \<Rightarrow> addr option \<Rightarrow> int \<Rightarrow> 'a sem_store_scheme \<Rightarrow> (addr option \<times> int) option" where
  "find_named name impl cmp s =
     (case impl of
        None \<Rightarrow> Some (None, cmp)
      | Some i \<Rightarrow> let cmp = strcmp name (si_name (sem_impls s i))
                  in if cmp < 0 then find_named name (si_next (sem_impls s i)) cmp s else Some (Some i, cmp))"

partial_function (option) last_named :: "addr \<Rightarrow> 'a sem_store_scheme \<Rightarrow> addr option" where
  "last_named i s = (case si_next (sem_impls s i) of None \<Rightarrow> Some i | Some j \<Rightarrow> last_named j s)"

text \<open>Linking the new semaphore before \<open>impl\<close>, or behind the last one.\<close>

definition link_named :: "addr \<Rightarrow> addr option \<Rightarrow> 'a sem_store_scheme \<Rightarrow> 'a sem_store_scheme option" where
  "link_named n impl s = do {
     s \<leftarrow> (case impl of
        Some i \<Rightarrow>
          let s = upd_impl n (\<lambda>d. d\<lparr>si_prev := si_prev (sem_impls s i)\<rparr>) s;
              s = upd_impl i (\<lambda>d. d\<lparr>si_prev := Some n\<rparr>) s;
              s = upd_impl n (\<lambda>d. d\<lparr>si_next := Some i\<rparr>) s
          in Some (case si_prev (sem_impls s n) of None \<Rightarrow> s | Some p \<Rightarrow> upd_impl p (\<lambda>d. d\<lparr>si_next := Some n\<rparr>) s)
      | None \<Rightarrow>
          (case sems_in_use s of
             None \<Rightarrow> Some s
           | Some h \<Rightarrow> map_option (\<lambda>t. upd_impl n (\<lambda>d. d\<lparr>si_prev := Some t\<rparr>) (upd_impl t (\<lambda>d. d\<lparr>si_next := Some n\<rparr>) s))
                         (last_named h s)));
     Some (if sems_in_use s = impl then s\<lparr>sems_in_use := Some n\<rparr> else s)
   }"

text \<open>A name that is not in use.  When the semaphore cannot be made, its block is not given back.\<close>

definition new_named :: "addr \<Rightarrow> string \<Rightarrow> u32 \<Rightarrow> addr option \<Rightarrow> 'a sem_store_scheme \<Rightarrow> (vcos_status \<times> 'a sem_store_scheme) option" where
  "new_named h name count impl s = do {
     (b, p, s) \<leftarrow> vcos_generic_blockpool_calloc (sems_pool s) s;
     let s = s\<lparr>sems_pool := p\<rparr>;
     (case b of
        None \<Rightarrow> Some (VCOS_ENOSPC, s)
      | Some n \<Rightarrow>
          let s = upd_impl n (\<lambda>_. zero_impl) s; (made, s) = vcos_create (Semaphore n) s
          in if \<not> made then Some (VCOS_ENOSPC, s)
             else
               let s = upd_impl n (\<lambda>d. d\<lparr>si_count := unat count, si_refs := 1, si_name := name\<rparr>) s;
                   s = s\<lparr>sems_total_ref_count := sems_total_ref_count s + 1, sems_in_use_count := sems_in_use_count s + 1,
                         sem_handles := (sem_handles s)(h := Some n)\<rparr>
               in map_option (Pair VCOS_SUCCESS) (link_named n impl s))
   }"

definition vcos_generic_named_semaphore_create ::
  "addr \<Rightarrow> string \<Rightarrow> u32 \<Rightarrow> 'a sem_store_scheme \<Rightarrow> (vcos_status \<times> 'a sem_store_scheme) option" where
  "vcos_generic_named_semaphore_create h name count s =
     (if VCOS_NAMED_SEMAPHORE_NAMELEN \<le> length name then Some (VCOS_EINVAL, s)
      else do {
        (impl, cmp) \<leftarrow> find_named name (sems_in_use s) (- 1) s;
        (case impl of
           Some i \<Rightarrow>
             if cmp = 0 then
               let s = upd_impl i (\<lambda>d. d\<lparr>si_refs := si_refs d + 1\<rparr>) s
               in Some (VCOS_SUCCESS, s\<lparr>sems_total_ref_count := sems_total_ref_count s + 1,
                          sem_handles := (sem_handles s)(h := Some i)\<rparr>)
             else new_named h name count impl s
         | None \<Rightarrow> new_named h name count impl s)
      })"

definition unlink_named :: "addr \<Rightarrow> 'a sem_store_scheme \<Rightarrow> 'a sem_store_scheme" where
  "unlink_named i s =
     (let s = (case si_prev (sem_impls s i) of None \<Rightarrow> s | Some p \<Rightarrow> upd_impl p (\<lambda>d. d\<lparr>si_next := si_next (sem_impls s i)\<rparr>) s);
          s = (case si_next (sem_impls s i) of None \<Rightarrow> s | Some n \<Rightarrow> upd_impl n (\<lambda>d. d\<lparr>si_prev := si_prev (sem_impls s i)\<rparr>) s)
      in if sems_in_use s = Some i then s\<lparr>sems_in_use := si_next (sem_impls s i)\<rparr> else s)"

definition vcos_named_semaphore_delete :: "addr \<Rightarrow> 'a sem_store_scheme \<Rightarrow> 'a sem_store_scheme option" where
  "vcos_named_semaphore_delete h s = do {
     i \<leftarrow> sem_handles s h;
     let s = s\<lparr>sems_total_ref_count := sems_total_ref_count s - 1\<rparr>;
     let s = upd_impl i (\<lambda>d. d\<lparr>si_refs := si_refs d - 1\<rparr>) s;
     if si_refs (sem_impls s i) = 0 then do {
       let s = unlink_named i (s\<lparr>sems_in_use_count := sems_in_use_count s - 1\<rparr>);
       let s = vcos_delete (Semaphore i) s;
       let s = s\<lparr>sem_handles := (sem_handles s)(h := None)\<rparr>;
       (p, s) \<leftarrow> vcos_generic_blockpool_free (Some i) (sems_pool s) s;
       Some (s\<lparr>sems_pool := p\<rparr>)
     }
     else Some s
   }"

text \<open>The inline functions of \<^verbatim>\<open>vcos_generic_named_sem.h\<close>.\<close>

definition vcos_named_semaphore_wait :: "addr \<Rightarrow> 'a sem_store_scheme \<Rightarrow> 'a sem_store_scheme option" where
  "vcos_named_semaphore_wait h s = do {
     i \<leftarrow> sem_handles s h;
     c \<leftarrow> vcos_semaphore_wait (si_count (sem_impls s i));
     Some (upd_impl i (\<lambda>d. d\<lparr>si_count := c\<rparr>) s)
   }"

definition vcos_named_semaphore_trywait :: "addr \<Rightarrow> 'a sem_store_scheme \<Rightarrow> (vcos_status \<times> 'a sem_store_scheme) option" where
  "vcos_named_semaphore_trywait h s = do {
     i \<leftarrow> sem_handles s h;
     Some (case vcos_semaphore_wait (si_count (sem_impls s i)) of
        None \<Rightarrow> (VCOS_EAGAIN, s)
      | Some c \<Rightarrow> (VCOS_SUCCESS, upd_impl i (\<lambda>d. d\<lparr>si_count := c\<rparr>) s))
   }"

definition vcos_named_semaphore_post :: "addr \<Rightarrow> 'a sem_store_scheme \<Rightarrow> 'a sem_store_scheme option" where
  "vcos_named_semaphore_post h s = do {
     i \<leftarrow> sem_handles s h;
     Some (upd_impl i (\<lambda>d. d\<lparr>si_count := vcos_semaphore_post (si_count d)\<rparr>) s)
   }"

section \<open>Lists\<close>

definition first_of :: "'a list \<Rightarrow> 'a option" where
  "first_of xs = (case xs of [] \<Rightarrow> None | x # _ \<Rightarrow> Some x)"

lemma first_of_simps [simp]: "first_of [] = None" "first_of (x # xs) = Some x" "first_of xs = None \<longleftrightarrow> xs = []"
  by (simp_all add: first_of_def split: list.splits)

lemma first_of_append: "first_of (xs @ ys) = (if xs = [] then first_of ys else first_of xs)"
  by (cases xs) simp_all

lemma first_of_rev: "xs \<noteq> [] \<Longrightarrow> first_of (rev xs) = Some (last xs)"
  by (cases xs rule: rev_cases) simp_all

lemma lseg_head: "lseg nx p xs None \<Longrightarrow> p = first_of xs"
  by (cases xs) simp_all

lemma lseg_set_end: "lseg nx p ys q \<Longrightarrow> distinct ys \<Longrightarrow> ys \<noteq> [] \<Longrightarrow> lseg (nx(last ys := r)) p ys r"
  by (induction ys arbitrary: p) (auto simp: lseg_simps)

text \<open>One direction of putting \<open>n\<close> between \<open>ys\<close> and \<open>zs\<close>, and of taking it out.\<close>

lemma lseg_insert:
  assumes l: "lseg nx p (ys @ zs) None" and d: "distinct (ys @ n # zs)"
    and nx: "nx' n = first_of zs" "ys \<noteq> [] \<Longrightarrow> nx' (last ys) = Some n"
    and same: "\<And>x. x \<in> set (ys @ zs) \<Longrightarrow> ys = [] \<or> x \<noteq> last ys \<Longrightarrow> nx' x = nx x"
  shows "lseg nx' (if ys = [] then Some n else p) (ys @ n # zs) None"
proof -
  obtain r where r: "lseg nx p ys r" "lseg nx r zs None" using l by (auto simp: lseg_append)
  have "set ys \<inter> set zs = {}" using d by auto
  then have "x \<noteq> last ys" if "x \<in> set zs" "ys \<noteq> []" for x using that last_in_set [OF that(2)] by blast
  then have zs: "lseg nx' (first_of zs) zs None"
    using r(2) lseg_head [OF r(2)] lseg_cong [of zs nx nx' r None] same by (metis Un_iff set_append)
  have ys: "lseg nx' p ys (Some n)" if ne: "ys \<noteq> []"
  proof -
    have "lseg (nx(last ys := Some n)) p ys (Some n)" using lseg_set_end [OF r(1) _ ne] d by simp
    moreover have "lseg (nx(last ys := Some n)) p ys (Some n) = lseg nx' p ys (Some n)"
      by (rule lseg_cong) (use nx(2) [OF ne] same in auto)
    ultimately show ?thesis by simp
  qed
  show ?thesis using zs ys nx(1) by (auto simp: lseg_append)
qed

lemma lseg_remove:
  assumes l: "lseg nx p (ys @ i # zs) None" and d: "distinct (ys @ i # zs)"
    and nx: "ys \<noteq> [] \<Longrightarrow> nx' (last ys) = first_of zs"
    and same: "\<And>x. x \<in> set (ys @ zs) \<Longrightarrow> ys = [] \<or> x \<noteq> last ys \<Longrightarrow> nx' x = nx x"
  shows "lseg nx' (if ys = [] then first_of zs else p) (ys @ zs) None"
proof -
  have r: "lseg nx p ys (Some i)" "lseg nx (nx i) zs None" using l by (auto simp: lseg_append)
  have "set ys \<inter> set zs = {}" using d by auto
  then have "x \<noteq> last ys" if "x \<in> set zs" "ys \<noteq> []" for x using that last_in_set [OF that(2)] by blast
  then have zs: "lseg nx' (first_of zs) zs None"
    using r(2) lseg_head [OF r(2)] lseg_cong [of zs nx nx' "nx i" None] same by (metis Un_iff set_append)
  have ys: "lseg nx' p ys (first_of zs)" if ne: "ys \<noteq> []"
  proof -
    have "lseg (nx(last ys := first_of zs)) p ys (first_of zs)" using lseg_set_end [OF r(1) _ ne] d by simp
    moreover have "lseg (nx(last ys := first_of zs)) p ys (first_of zs) = lseg nx' p ys (first_of zs)"
      by (rule lseg_cong) (use nx [OF ne] same in auto)
    ultimately show ?thesis by simp
  qed
  show ?thesis using zs ys by (auto simp: lseg_append)
qed

lemma lseg_at: "lseg nx p (ys @ i # zs) None \<Longrightarrow> nx i = first_of zs"
  using lseg_head by (fastforce simp: lseg_append)

section \<open>The order of names\<close>

definition nul_free :: "string \<Rightarrow> bool" where
  "nul_free n \<longleftrightarrow> CHR 0x00 \<notin> set n"

lemma of_char_pos: "c \<noteq> CHR 0x00 \<Longrightarrow> 0 < (of_char c :: int)"
proof -
  assume c: "c \<noteq> CHR 0x00"
  have "of_char c \<noteq> (of_char CHR 0x00 :: nat)" using c of_char_eq_iff by blast
  then have "0 < (of_char c :: nat)" by simp
  then have "0 < int (of_char c)" by simp
  then show ?thesis by (simp only: of_nat_of_char)
qed

lemma of_char_nz [simp]: "c \<noteq> CHR 0x00 \<Longrightarrow> (of_char c :: int) \<noteq> 0"
  using of_char_pos by fastforce

lemma strcmp_sym: "strcmp a b = - strcmp b a"
  by (induction a b rule: strcmp.induct) auto

lemma strcmp_eq: "nul_free a \<Longrightarrow> nul_free b \<Longrightarrow> strcmp a b = 0 \<longleftrightarrow> a = b"
  by (induction a b rule: strcmp.induct) (auto simp: nul_free_def)

lemma strcmp_refl [simp]: "strcmp a a = 0"
  by (induction a) simp_all

lemma strcmp_trans: "nul_free a \<Longrightarrow> nul_free b \<Longrightarrow> nul_free c \<Longrightarrow> strcmp a b < 0 \<Longrightarrow> strcmp b c < 0 \<Longrightarrow> strcmp a c < 0"
proof (induction a b arbitrary: c rule: strcmp.induct)
  case (2 d ds)
  then show ?case by (cases c) (auto simp: nul_free_def of_char_pos)
next
  case (3 x xs)
  then show ?case using of_char_pos [of x] by (auto simp: nul_free_def)
next
  case (4 x xs y ys)
  then show ?case by (cases c) (auto simp: nul_free_def of_char_pos split: if_splits)
qed simp_all

section \<open>Representation\<close>

text \<open>
  The semaphores \<open>xs\<close> in use: linked in both directions, sorted by name, each a block that was taken from the pool.  \<open>H\<close> lists the
  open handles with their names, \<open>C\<close> the counts of the names in use.  The free blocks and those in use are \<open>cap\<close> in number.
\<close>

definition in_use_list :: "'a sem_store_scheme \<Rightarrow> addr list \<Rightarrow> bool" where
  "in_use_list s xs \<longleftrightarrow>
     lseg (\<lambda>i. si_next (sem_impls s i)) (sems_in_use s) xs None \<and>
     lseg (\<lambda>i. si_prev (sem_impls s i)) (first_of (rev xs)) (rev xs) None \<and> distinct xs"

definition by_name :: "(addr \<Rightarrow> sem_impl) \<Rightarrow> addr list \<Rightarrow> bool" where
  "by_name I xs \<longleftrightarrow> sorted_wrt (\<lambda>i j. strcmp (si_name (I j)) (si_name (I i)) < 0) xs \<and> (\<forall>i\<in>set xs. nul_free (si_name (I i)))"

definition shared_ok ::
  "(addr \<Rightarrow> sem_impl) \<Rightarrow> (addr \<Rightarrow> addr option) \<Rightarrow> (addr \<times> string) list \<Rightarrow> (string \<Rightarrow> nat option) \<Rightarrow> addr list \<Rightarrow> bool" where
  "shared_ok I A H C xs \<longleftrightarrow> distinct (map fst H) \<and> length H < 2 ^ 32 \<and>
     (\<forall>(h, n)\<in>set H. \<exists>i\<in>set xs. A h = Some i \<and> si_name (I i) = n) \<and>
     (\<forall>i\<in>set xs. unat (si_refs (I i)) = count_list (map snd H) (si_name (I i)) \<and> 0 < si_refs (I i) \<and> C (si_name (I i)) = Some (si_count (I i))) \<and>
     dom C = (\<lambda>i. si_name (I i)) ` set xs"

definition blocks_ok :: "'a sem_store_scheme \<Rightarrow> nat \<Rightarrow> addr list \<Rightarrow> (nat \<Rightarrow> addr list) \<Rightarrow> bool" where
  "blocks_ok s cap xs F \<longleftrightarrow> pool_inv (sems_pool s) s F \<and> 0 < bp_num_subpools (sems_pool s) \<and>
     sp_start (bp_subpools (sems_pool s) 0) \<noteq> None \<and> length xs + length (F 0) = cap \<and>
     (\<forall>i\<in>set xs. 4 \<le> i \<and> i - 4 \<in> blocks_of (sems_pool s) 0 \<and> owners s (i - 4) = Owned 0)"

definition sem_rep ::
  "nat \<Rightarrow> (addr \<times> string) list \<Rightarrow> (string \<Rightarrow> nat option) \<Rightarrow> 'a sem_store_scheme \<Rightarrow> addr list \<Rightarrow> (nat \<Rightarrow> addr list) \<Rightarrow> bool" where
  "sem_rep cap H C s xs F \<longleftrightarrow> in_use_list s xs \<and> by_name (sem_impls s) xs \<and> shared_ok (sem_impls s) (sem_handles s) H C xs \<and>
     blocks_ok s cap xs F \<and> sems_in_use_count s = int (length xs) \<and> sems_total_ref_count s = int (length H)"

lemma upd_impl_sel [simp]:
  "sem_impls (upd_impl i f s) = (sem_impls s)(i := f (sem_impls s i))" "sem_handles (upd_impl i f s) = sem_handles s"
  "sems_in_use (upd_impl i f s) = sems_in_use s" "sems_in_use_count (upd_impl i f s) = sems_in_use_count s"
  "sems_total_ref_count (upd_impl i f s) = sems_total_ref_count s" "sems_pool (upd_impl i f s) = sems_pool s"
  "owners (upd_impl i f s) = owners s" "creates (upd_impl i f s) = creates s" "sync (upd_impl i f s) = sync s"
  by (simp_all add: upd_impl_def)

lemma vcos_create_made: "creates s = True # bs \<Longrightarrow> vcos_create obj s = (True, s\<lparr>creates := bs, sync := obj # sync s\<rparr>)"
  by (simp add: vcos_create_def)

text \<open>The search stops at the first name that is not greater.\<close>

lemma find_named_spec:
  "lseg (\<lambda>i. si_next (sem_impls s i)) p xs None \<Longrightarrow>
   \<exists>c'. find_named name p c s = Some (first_of (dropWhile (\<lambda>i. strcmp name (si_name (sem_impls s i)) < 0) xs), c') \<and>
     (\<forall>i. first_of (dropWhile (\<lambda>i. strcmp name (si_name (sem_impls s i)) < 0) xs) = Some i \<longrightarrow> c' = strcmp name (si_name (sem_impls s i)))"
proof (induction xs arbitrary: p c)
  case Nil
  then show ?case by (simp add: find_named.simps)
next
  case (Cons x xs)
  then show ?case by (subst find_named.simps) (simp add: Let_def)
qed

lemma last_named_spec:
  "lseg (\<lambda>i. si_next (sem_impls s i)) (Some x) (x # xs) None \<Longrightarrow> last_named x s = Some (last (x # xs))"
proof (induction xs arbitrary: x)
  case Nil
  then show ?case by (simp add: last_named.simps)
next
  case (Cons y ys)
  then show ?case by (subst last_named.simps) simp
qed

lemma by_name_split:
  assumes b: "by_name I xs" and n: "nul_free name"
  defines "ys \<equiv> takeWhile (\<lambda>i. strcmp name (si_name (I i)) < 0) xs" and "zs \<equiv> dropWhile (\<lambda>i. strcmp name (si_name (I i)) < 0) xs"
  shows "\<forall>i\<in>set ys. strcmp name (si_name (I i)) < 0"
    and "\<forall>i\<in>set (tl zs). strcmp (si_name (I i)) name < 0"
    and "zs \<noteq> [] \<Longrightarrow> strcmp (si_name (I (hd zs))) name \<le> 0"
proof -
  show "\<forall>i\<in>set ys. strcmp name (si_name (I i)) < 0" unfolding ys_def by (metis set_takeWhileD)
  have hd: "zs \<noteq> [] \<Longrightarrow> \<not> strcmp name (si_name (I (hd zs))) < 0"
    unfolding zs_def using hd_dropWhile by metis
  then show le: "zs \<noteq> [] \<Longrightarrow> strcmp (si_name (I (hd zs))) name \<le> 0"
    using strcmp_sym [of name] by fastforce
  show "\<forall>i\<in>set (tl zs). strcmp (si_name (I i)) name < 0"
  proof
    fix i assume i: "i \<in> set (tl zs)"
    then obtain z ws where z: "zs = z # ws" "i \<in> set ws" by (cases zs) auto
    have "by_name I zs" using b unfolding by_name_def zs_def
      by (auto dest: set_dropWhileD intro: sorted_wrt_dropWhile)
    then have "strcmp (si_name (I i)) (si_name (I z)) < 0" "nul_free (si_name (I i))" "nul_free (si_name (I z))"
      using z by (auto simp: by_name_def)
    moreover have "strcmp (si_name (I z)) name < 0 \<or> si_name (I z) = name"
      using le z strcmp_eq [OF _ n] calculation(3) by fastforce
    ultimately show "strcmp (si_name (I i)) name < 0" using strcmp_trans [OF _ _ n] by blast
  qed
qed

section \<open>Linking and unlinking\<close>

lemma upd_none: "si_next d = None \<Longrightarrow> si_prev d = None \<Longrightarrow> d = d\<lparr>si_next := None, si_prev := None\<rparr>"
  by (rule sem_impl.equality) simp_all

text \<open>What linking leaves alone.\<close>

definition relinked :: "'a sem_store_scheme \<Rightarrow> 'a sem_store_scheme \<Rightarrow> bool" where
  "relinked s t \<longleftrightarrow> t = s\<lparr>sem_impls := sem_impls t, sems_in_use := sems_in_use t\<rparr> \<and>
     (\<forall>i. \<exists>a b. sem_impls t i = (sem_impls s i)\<lparr>si_next := a, si_prev := b\<rparr>)"

lemma relinkedD:
  assumes "relinked s t"
  shows "si_name (sem_impls t i) = si_name (sem_impls s i)" "si_refs (sem_impls t i) = si_refs (sem_impls s i)"
    "si_count (sem_impls t i) = si_count (sem_impls s i)" "sem_handles t = sem_handles s" "sems_in_use_count t = sems_in_use_count s"
    "sems_total_ref_count t = sems_total_ref_count s" "sems_pool t = sems_pool s" "owners t = owners s" "creates t = creates s"
proof -
  obtain a b where "sem_impls t i = (sem_impls s i)\<lparr>si_next := a, si_prev := b\<rparr>" using assms unfolding relinked_def by blast
  then show "si_name (sem_impls t i) = si_name (sem_impls s i)" "si_refs (sem_impls t i) = si_refs (sem_impls s i)"
    "si_count (sem_impls t i) = si_count (sem_impls s i)" by simp_all
qed (subst assms [unfolded relinked_def, THEN conjunct1], simp)+

lemma link_named_spec:
  assumes l: "in_use_list s (ys @ zs)" and n: "n \<notin> set (ys @ zs)" "si_next (sem_impls s n) = None" "si_prev (sem_impls s n) = None"
  shows "\<exists>t. link_named n (first_of zs) s = Some t \<and> in_use_list t (ys @ n # zs) \<and> relinked s t"
proof -
  have fw: "lseg (\<lambda>i. si_next (sem_impls s i)) (sems_in_use s) (ys @ zs) None" and d: "distinct (ys @ n # zs)"
    and bw: "lseg (\<lambda>i. si_prev (sem_impls s i)) (first_of (rev (ys @ zs))) (rev zs @ rev ys) None"
    using l n(1) by (auto simp: in_use_list_def)
  have d': "distinct (rev zs @ n # rev ys)" using d by auto
  have h: "sems_in_use s = first_of (ys @ zs)" by (rule lseg_head [OF fw])
  have neq: "ys \<noteq> [] \<Longrightarrow> last ys \<noteq> n" "zs \<noteq> [] \<Longrightarrow> hd zs \<noteq> n" "ys \<noteq> [] \<Longrightarrow> zs \<noteq> [] \<Longrightarrow> last ys \<noteq> hd zs"
    using d by (auto dest: last_in_set hd_in_set)
  define t where "t = s\<lparr>sems_in_use := (if ys = [] then Some n else sems_in_use s),
    sem_impls := (\<lambda>i. let d = sem_impls s i;
        d = (if i = n then d\<lparr>si_next := first_of zs, si_prev := first_of (rev ys)\<rparr> else d);
        d = (if ys \<noteq> [] \<and> i = last ys then d\<lparr>si_next := Some n\<rparr> else d)
      in if zs \<noteq> [] \<and> i = hd zs then d\<lparr>si_prev := Some n\<rparr> else d)\<rparr>"
  have "link_named n (first_of zs) s = Some t"
  proof (cases zs)
    case Nil
    show ?thesis
    proof (cases ys)
      case Nil
      then show ?thesis using \<open>zs = []\<close> h n(2,3) by (simp add: link_named_def t_def) (rule sem_store.equality; simp add: fun_eq_iff Let_def upd_none)
    next
      case (Cons y ys')
      then have "last_named y s = Some (last ys)" using fw \<open>zs = []\<close> last_named_spec [of s y ys'] by simp
      moreover obtain us u where "ys = us @ [u]" using Cons by (metis list.distinct(1) rev_exhaust)
      moreover have "sems_in_use s = Some y" using h Cons by simp
      ultimately show ?thesis using Cons \<open>zs = []\<close> n(2,3) neq
        by (auto simp: link_named_def t_def Let_def intro!: sem_store.equality) (auto simp: upd_impl_def fun_eq_iff)
    qed
  next
    case (Cons z zs')
    have "rev zs @ rev ys = rev zs' @ z # rev ys" using Cons by simp
    then have pz: "si_prev (sem_impls s z) = first_of (rev ys)" using lseg_at bw by metis
    have z: "z \<noteq> n" "z \<notin> set ys" "ys \<noteq> [] \<Longrightarrow> hd ys \<noteq> z" using Cons d by auto
    show ?thesis
    proof (cases "ys = []")
      case True
      then show ?thesis using Cons h pz z
        by (simp add: link_named_def t_def Let_def) (rule sem_store.equality; auto simp: upd_impl_def fun_eq_iff)
    next
      case False
      then obtain us u where us: "ys = us @ [u]" by (cases ys rule: rev_cases) auto
      moreover have "sems_in_use s = Some (hd ys)" using h False by (cases ys) simp_all
      ultimately have "sems_in_use s \<noteq> Some z" "si_prev (sem_impls s z) = Some u" "u \<noteq> n" "u \<noteq> z"
        using z pz d False by auto
      with us show ?thesis using Cons z
        by (simp add: link_named_def t_def Let_def) (rule sem_store.equality; auto simp: upd_impl_def fun_eq_iff)
    qed
  qed
  moreover have "in_use_list t (ys @ n # zs)"
  proof -
    have "zs \<noteq> [] \<Longrightarrow> last (rev zs) = hd zs" by (simp add: last_rev)
    then have "lseg (\<lambda>i. si_next (sem_impls t i)) (if ys = [] then Some n else sems_in_use s) (ys @ n # zs) None"
      "lseg (\<lambda>i. si_prev (sem_impls t i)) (if rev zs = [] then Some n else first_of (rev (ys @ zs))) (rev zs @ n # rev ys) None"
      using neq n(1) by (intro lseg_insert [OF fw d] lseg_insert [OF bw d']; auto simp: t_def Let_def)+
    moreover have "(if rev zs = [] then Some n else first_of (rev (ys @ zs))) = first_of (rev (ys @ n # zs))"
      by (simp add: first_of_append)
    ultimately show ?thesis using d by (simp add: in_use_list_def t_def)
  qed
  moreover have "relinked s t"
  proof -
    have "\<exists>a b. sem_impls t i = (sem_impls s i)\<lparr>si_next := a, si_prev := b\<rparr>" for i
      by (intro exI [of _ "si_next (sem_impls t i)"] exI [of _ "si_prev (sem_impls t i)"]) (simp add: t_def Let_def)
    then show ?thesis by (simp add: relinked_def) (simp add: t_def)
  qed
  ultimately show ?thesis by blast
qed

lemma unlink_named_spec:
  assumes l: "in_use_list s (ys @ n # zs)"
  shows "in_use_list (unlink_named n s) (ys @ zs)" "relinked s (unlink_named n s)"
proof -
  have fw: "lseg (\<lambda>i. si_next (sem_impls s i)) (sems_in_use s) (ys @ n # zs) None" and d: "distinct (ys @ n # zs)"
    and bw: "lseg (\<lambda>i. si_prev (sem_impls s i)) (first_of (rev (ys @ n # zs))) (rev zs @ n # rev ys) None"
    using l by (auto simp: in_use_list_def)
  have d': "distinct (rev zs @ n # rev ys)" using d by auto
  have h: "sems_in_use s = first_of (ys @ n # zs)" by (rule lseg_head [OF fw])
  have at: "si_next (sem_impls s n) = first_of zs" "si_prev (sem_impls s n) = first_of (rev ys)"
    using lseg_at [OF fw] lseg_at [OF bw] by simp_all
  define t where "t = s\<lparr>sems_in_use := (if ys = [] then first_of zs else sems_in_use s),
    sem_impls := (\<lambda>i. let d = sem_impls s i;
        d = (if ys \<noteq> [] \<and> i = last ys then d\<lparr>si_next := first_of zs\<rparr> else d)
      in if zs \<noteq> [] \<and> i = hd zs then d\<lparr>si_prev := first_of (rev ys)\<rparr> else d)\<rparr>"
  have neq: "ys \<noteq> [] \<Longrightarrow> last ys \<noteq> n" "zs \<noteq> [] \<Longrightarrow> hd zs \<noteq> n" "ys \<noteq> [] \<Longrightarrow> hd ys \<noteq> n" "ys \<noteq> [] \<Longrightarrow> zs \<noteq> [] \<Longrightarrow> last ys \<noteq> hd zs"
    using d by (auto dest: last_in_set hd_in_set)
  have head: "sems_in_use s = Some n \<longleftrightarrow> ys = []" using h neq(3) by (cases ys) auto
  have t: "unlink_named n s = t"
  proof (cases ys rule: rev_cases)
    case Nil
    then show ?thesis using head at neq
      by (cases zs; simp add: unlink_named_def t_def Let_def) (rule sem_store.equality; auto simp: upd_impl_def fun_eq_iff)+
  next
    case (snoc us u)
    then have "first_of (rev ys) = Some u" "u \<noteq> n" using neq(1) by simp_all
    then show ?thesis using head at neq(2,4) snoc
      by (cases zs; simp add: unlink_named_def t_def Let_def) (rule sem_store.equality; auto simp: upd_impl_def fun_eq_iff)+
  qed
  have "zs \<noteq> [] \<Longrightarrow> last (rev zs) = hd zs" by (simp add: last_rev)
  then have "lseg (\<lambda>i. si_next (sem_impls t i)) (if ys = [] then first_of zs else sems_in_use s) (ys @ zs) None"
    "lseg (\<lambda>i. si_prev (sem_impls t i)) (if rev zs = [] then first_of (rev ys) else first_of (rev (ys @ n # zs))) (rev zs @ rev ys) None"
    using neq by (intro lseg_remove [OF fw d] lseg_remove [OF bw d']; auto simp: t_def Let_def)+
  moreover have "(if rev zs = [] then first_of (rev ys) else first_of (rev (ys @ n # zs))) = first_of (rev (ys @ zs))"
    by (simp add: first_of_append)
  ultimately show "in_use_list (unlink_named n s) (ys @ zs)" using d by (simp add: in_use_list_def t) (simp add: t_def)
  have "\<exists>a b. sem_impls t i = (sem_impls s i)\<lparr>si_next := a, si_prev := b\<rparr>" for i
    by (intro exI [of _ "si_next (sem_impls t i)"] exI [of _ "si_prev (sem_impls t i)"]) (simp add: t_def Let_def)
  then show "relinked s (unlink_named n s)" unfolding t by (simp add: relinked_def) (simp add: t_def)
qed

section \<open>Handles that share\<close>

text \<open>What clients do with their handles, and what it comes to: names with counts that the handles of a name share.\<close>

datatype sem_op = Open addr string u32 | Close addr | Wait addr | Trywait addr | Post addr

type_synonym names_state = "(addr \<times> string) list \<times> (string \<Rightarrow> nat option)"

fun names_step :: "sem_op \<Rightarrow> names_state \<Rightarrow> (vcos_status \<times> names_state) option" where
  "names_step (Open h n c) (H, C) =
     (if VCOS_NAMED_SEMAPHORE_NAMELEN \<le> length n then Some (VCOS_EINVAL, H, C)
      else Some (VCOS_SUCCESS, (h, n) # H, if C n = None then C(n \<mapsto> unat c) else C))"
| "names_step (Close h) (H, C) =
     (let H' = filter (\<lambda>(k, _). k \<noteq> h) H; n = the (map_of H h)
      in Some (VCOS_SUCCESS, H', if n \<in> snd ` set H' then C else C(n := None)))"
| "names_step (Wait h) (H, C) =
     (let n = the (map_of H h); c = the (C n) in if c = 0 then None else Some (VCOS_SUCCESS, H, C(n \<mapsto> c - 1)))"
| "names_step (Trywait h) (H, C) =
     (let n = the (map_of H h); c = the (C n)
      in if c = 0 then Some (VCOS_EAGAIN, H, C) else Some (VCOS_SUCCESS, H, C(n \<mapsto> c - 1)))"
| "names_step (Post h) (H, C) = (let n = the (map_of H h) in Some (VCOS_SUCCESS, H, C(n \<mapsto> Suc (the (C n)))))"

fun sem_step :: "sem_op \<Rightarrow> 'a sem_store_scheme \<Rightarrow> (vcos_status \<times> 'a sem_store_scheme) option" where
  "sem_step (Open h n c) s = vcos_generic_named_semaphore_create h n c s"
| "sem_step (Close h) s = map_option (Pair VCOS_SUCCESS) (vcos_named_semaphore_delete h s)"
| "sem_step (Wait h) s = map_option (Pair VCOS_SUCCESS) (vcos_named_semaphore_wait h s)"
| "sem_step (Trywait h) s = vcos_named_semaphore_trywait h s"
| "sem_step (Post h) s = map_option (Pair VCOS_SUCCESS) (vcos_named_semaphore_post h s)"

text \<open>A handle is opened when it is closed and used while it is open, and no more than \<open>cap\<close> names are in use.\<close>

fun sem_allowed :: "nat \<Rightarrow> sem_op \<Rightarrow> names_state \<Rightarrow> bool" where
  "sem_allowed cap (Open h n c) (H, C) \<longleftrightarrow> map_of H h = None \<and> nul_free n \<and> Suc (length H) < 2 ^ 32 \<and>
     (C n \<noteq> None \<or> length (remdups (map snd H)) < cap)"
| "sem_allowed cap (Close h) (H, C) \<longleftrightarrow> map_of H h \<noteq> None"
| "sem_allowed cap (Wait h) (H, C) \<longleftrightarrow> map_of H h \<noteq> None"
| "sem_allowed cap (Trywait h) (H, C) \<longleftrightarrow> map_of H h \<noteq> None"
| "sem_allowed cap (Post h) (H, C) \<longleftrightarrow> map_of H h \<noteq> None"

lemma by_name_cong: "(\<And>i. i \<in> set xs \<Longrightarrow> si_name (J i) = si_name (I i)) \<Longrightarrow> by_name J xs = by_name I xs"
  by (induction xs) (auto simp: by_name_def)

lemma by_name_inj: "by_name I xs \<Longrightarrow> inj_on (\<lambda>i. si_name (I i)) (set xs)"
proof (induction xs)
  case (Cons x xs)
  have "si_name (I y) \<noteq> si_name (I x)" if "y \<in> set xs" for y
    using Cons.prems that by (auto simp: by_name_def)
  then show ?case using Cons by (fastforce simp: by_name_def)
qed simp

lemma handle_of:
  assumes "shared_ok I A H C xs" "map_of H h = Some n"
  shows "\<exists>i\<in>set xs. A h = Some i \<and> si_name (I i) = n \<and> C n = Some (si_count (I i))"
  using assms map_of_SomeD [OF assms(2)] unfolding shared_ok_def by fastforce

lemma names_in_use:
  assumes "shared_ok I A H C xs"
  shows "(\<lambda>i. si_name (I i)) ` set xs = snd ` set H"
proof (intro equalityI subsetI)
  fix n assume "n \<in> (\<lambda>i. si_name (I i)) ` set xs"
  then obtain i where i: "i \<in> set xs" "n = si_name (I i)" by blast
  then have "0 < unat (si_refs (I i))" "unat (si_refs (I i)) = count_list (map snd H) n"
    using assms by (auto simp: shared_ok_def word_less_nat_alt)
  then have "n \<in> set (map snd H)" using count_notin by fastforce
  then show "n \<in> snd ` set H" by simp
qed (use assms in \<open>force simp: shared_ok_def\<close>)

lemma length_in_use:
  assumes "shared_ok I A H C xs" "by_name I xs" "distinct xs"
  shows "length xs = length (remdups (map snd H))"
proof -
  have "length xs = card ((\<lambda>i. si_name (I i)) ` set xs)"
    using card_image [OF by_name_inj [OF assms(2)]] distinct_card [OF assms(3)] by simp
  also have "\<dots> = length (remdups (map snd H))" by (simp add: names_in_use [OF assms(1)] length_remdups_card_conv)
  finally show ?thesis .
qed

text \<open>The search in a store.\<close>

lemma search_names:
  assumes r: "sem_rep cap H C s xs F" and n: "nul_free n"
  shows "C n \<noteq> None \<Longrightarrow> \<exists>i\<in>set xs. find_named n (sems_in_use s) c s = Some (Some i, 0) \<and> si_name (sem_impls s i) = n"
    and "C n = None \<Longrightarrow> \<exists>ys zs c'. find_named n (sems_in_use s) c s = Some (first_of zs, c') \<and> (zs \<noteq> [] \<longrightarrow> c' \<noteq> 0) \<and> xs = ys @ zs \<and>
       (\<forall>i\<in>set ys. strcmp n (si_name (sem_impls s i)) < 0) \<and> (\<forall>i\<in>set zs. strcmp (si_name (sem_impls s i)) n < 0)"
proof -
  let ?nm = "\<lambda>i. si_name (sem_impls s i)"
  let ?ys = "takeWhile (\<lambda>i. strcmp n (?nm i) < 0) xs" and ?zs = "dropWhile (\<lambda>i. strcmp n (?nm i) < 0) xs"
  have b: "by_name (sem_impls s) xs" and l: "lseg (\<lambda>i. si_next (sem_impls s i)) (sems_in_use s) xs None"
    and dom: "dom C = ?nm ` set xs"
    using r by (auto simp: sem_rep_def in_use_list_def shared_ok_def)
  note sp = by_name_split [OF b n]
  from find_named_spec [OF l] obtain c' where c': "find_named n (sems_in_use s) c s = Some (first_of ?zs, c')"
    "\<And>i. first_of ?zs = Some i \<Longrightarrow> c' = strcmp n (?nm i)" by blast
  have xs: "xs = ?ys @ ?zs" by simp
  {
    assume "C n \<noteq> None"
    then obtain i where i: "i \<in> set xs" "?nm i = n" using dom by (metis domIff imageE)
    then have "i \<notin> set ?ys" using sp(1) strcmp_refl by fastforce
    then have "i \<in> set ?zs" using i(1) xs by (metis Un_iff set_append)
    moreover have "i \<notin> set (tl ?zs)" using sp(2) i(2) strcmp_refl by fastforce
    ultimately obtain ws where "?zs = i # ws" by (cases ?zs) auto
    then have "find_named n (sems_in_use s) c s = Some (Some i, 0)" using c' i(2) by simp
    then show "\<exists>i\<in>set xs. find_named n (sems_in_use s) c s = Some (Some i, 0) \<and> ?nm i = n" using i by blast
  next
    assume no: "C n = None"
    have "strcmp (?nm i) n < 0 \<and> strcmp n (?nm i) \<noteq> 0" if i: "i \<in> set ?zs" for i
    proof -
      have "i \<in> set xs" using i by (rule set_dropWhileD)
      then have "?nm i \<noteq> n" "nul_free (?nm i)" using no dom b by (auto simp: by_name_def)
      then have "strcmp (?nm i) n \<noteq> 0" "strcmp n (?nm i) \<noteq> 0" using strcmp_eq n by metis+
      moreover have "strcmp (?nm i) n \<le> 0" using i sp(2,3) by (cases ?zs) force+
      ultimately show ?thesis by simp
    qed
    moreover have "?zs \<noteq> [] \<Longrightarrow> c' \<noteq> 0" using c'(2) calculation by (cases ?zs) auto
    ultimately show "\<exists>ys zs c'. find_named n (sems_in_use s) c s = Some (first_of zs, c') \<and> (zs \<noteq> [] \<longrightarrow> c' \<noteq> 0) \<and> xs = ys @ zs \<and>
       (\<forall>i\<in>set ys. strcmp n (?nm i) < 0) \<and> (\<forall>i\<in>set zs. strcmp (?nm i) n < 0)"
      using c'(1) sp(1) xs by blast
  }
qed

lemma blocks_ok_cong:
  fixes s :: "'a sem_store_scheme" and t :: "'b sem_store_scheme"
  shows "owners t = owners s \<Longrightarrow> sems_pool t = sems_pool s \<Longrightarrow> blocks_ok t cap xs F = blocks_ok s cap xs F"
  using pool_inv_owners [of t s] by (simp add: blocks_ok_def)

lemma in_use_list_cong:
  assumes "sems_in_use t = sems_in_use s"
    and "\<And>i. i \<in> set xs \<Longrightarrow> si_next (sem_impls t i) = si_next (sem_impls s i) \<and> si_prev (sem_impls t i) = si_prev (sem_impls s i)"
  shows "in_use_list t xs = in_use_list s xs"
  using lseg_cong [of xs "\<lambda>i. si_next (sem_impls t i)" "\<lambda>i. si_next (sem_impls s i)"]
    lseg_cong [of "rev xs" "\<lambda>i. si_prev (sem_impls t i)" "\<lambda>i. si_prev (sem_impls s i)"] assms
  by (simp add: in_use_list_def)

lemma unat_suc_u32: "unat (x :: u32) < 2 ^ 32 - 1 \<Longrightarrow> unat (x + 1) = Suc (unat x)"
  by (simp add: unat_word_ariths)

lemma refs_suc:
  assumes "shared_ok I A H C xs" "i \<in> set xs" "Suc (length H) < 2 ^ 32"
  shows "unat (si_refs (I i) + 1) = Suc (unat (si_refs (I i)))" "0 < si_refs (I i) + 1"
proof -
  have "unat (si_refs (I i)) = count_list (map snd H) (si_name (I i))" using assms by (simp add: shared_ok_def)
  moreover have "count_list (map snd H) (si_name (I i)) \<le> length (map snd H)" by (rule count_le_length)
  ultimately have "unat (si_refs (I i)) < 2 ^ 32 - 1" using assms(3) unfolding length_map by linarith
  then show "unat (si_refs (I i) + 1) = Suc (unat (si_refs (I i)))" by (rule unat_suc_u32)
  then show "0 < si_refs (I i) + 1" by (simp add: word_less_nat_alt)
qed

lemma refs_pred:
  assumes "shared_ok I A H C xs" "i \<in> set xs"
  shows "unat (si_refs (I i) - 1) = unat (si_refs (I i)) - 1"
proof -
  have "0 < si_refs (I i)" using assms by (simp add: shared_ok_def)
  then have "1 \<le> si_refs (I i)" by (simp add: word_le_nat_alt word_less_nat_alt Suc_le_eq)
  then show ?thesis using unat_sub [of 1 "si_refs (I i)"] by simp
qed

lemma shared_ok_share:
  assumes sh: "shared_ok I A H C xs" and b: "by_name I xs" and a: "map_of H h = None" "Suc (length H) < 2 ^ 32"
    and i: "i \<in> set xs" "si_name (I i) = n" and J: "J = I(i := (I i)\<lparr>si_refs := si_refs (I i) + 1\<rparr>)"
  shows "shared_ok J (A(h \<mapsto> i)) ((h, n) # H) C xs"
proof -
  have H: "h \<notin> fst ` set H" using a(1) by (simp add: map_of_eq_None_iff)
  have J': "si_name (J j) = si_name (I j)" "si_count (J j) = si_count (I j)" for j by (simp_all add: J)
  have "\<exists>j\<in>set xs. (A(h \<mapsto> i)) k = Some j \<and> si_name (J j) = l" if kl: "(k, l) \<in> set ((h, n) # H)" for k l
  proof (cases "(k, l) = (h, n)")
    case True
    then show ?thesis using i by (auto simp: J')
  next
    case False
    then have "(k, l) \<in> set H" "k \<noteq> h" using kl H by (auto simp: image_iff)
    then obtain j where "j \<in> set xs" "A k = Some j" "si_name (I j) = l" using sh unfolding shared_ok_def by fastforce
    then show ?thesis using \<open>k \<noteq> h\<close> by (intro bexI [of _ j]) (auto simp: J')
  qed
  then have handles: "\<forall>(k, l)\<in>set ((h, n) # H). \<exists>j\<in>set xs. (A(h \<mapsto> i)) k = Some j \<and> si_name (J j) = l" by blast
  have impls: "unat (si_refs (J j)) = count_list (map snd ((h, n) # H)) (si_name (J j)) \<and> 0 < si_refs (J j) \<and> C (si_name (J j)) = Some (si_count (J j))"
    if j: "j \<in> set xs" for j
  proof -
    have c: "unat (si_refs (I j)) = count_list (map snd H) (si_name (I j))" "0 < si_refs (I j)" "C (si_name (I j)) = Some (si_count (I j))"
      using sh j by (simp_all add: shared_ok_def)
    show ?thesis
    proof (cases "j = i")
      case True
      then show ?thesis using c i(2) refs_suc [OF sh i(1) a(2)] by (simp add: J)
    next
      case False
      then have "si_name (I j) \<noteq> n" using by_name_inj [OF b] i j by (metis inj_onD)
      then show ?thesis using c False by (simp add: J)
    qed
  qed
  show ?thesis using sh H a(2) handles impls unfolding shared_ok_def by (simp add: J')
qed

lemma open_shared:
  assumes r: "sem_rep cap H C s xs F" and a: "map_of H h = None" "nul_free n" "Suc (length H) < 2 ^ 32" "C n \<noteq> None"
    and len: "length n < VCOS_NAMED_SEMAPHORE_NAMELEN"
  shows "\<exists>t. vcos_generic_named_semaphore_create h n c s = Some (VCOS_SUCCESS, t) \<and> sem_rep cap ((h, n) # H) C t xs F \<and> creates t = creates s"
proof -
  from search_names(1) [OF r a(2,4), of "- 1"] obtain i where i: "i \<in> set xs" "find_named n (sems_in_use s) (- 1) s = Some (Some i, 0)"
    "si_name (sem_impls s i) = n" by blast
  let ?t = "(upd_impl i (\<lambda>d. d\<lparr>si_refs := si_refs d + 1\<rparr>) s)\<lparr>sems_total_ref_count := sems_total_ref_count s + 1,
     sem_handles := (sem_handles s)(h \<mapsto> i)\<rparr>"
  have sh: "shared_ok (sem_impls s) (sem_handles s) H C xs" and b: "by_name (sem_impls s) xs" using r by (simp_all add: sem_rep_def)
  have "shared_ok (sem_impls ?t) (sem_handles ?t) ((h, n) # H) C xs"
    using shared_ok_share [OF sh b a(1,3) i(1,3), of "sem_impls ?t"] by simp
  moreover have "by_name (sem_impls ?t) xs" using b by_name_cong [of xs "sem_impls ?t" "sem_impls s"] by auto
  moreover have "in_use_list ?t xs" using r in_use_list_cong [of ?t s xs] by (auto simp: sem_rep_def)
  moreover have "blocks_ok ?t cap xs F" using r blocks_ok_cong [of ?t s] by (simp add: sem_rep_def)
  moreover have "vcos_generic_named_semaphore_create h n c s = Some (VCOS_SUCCESS, ?t)"
    using i len by (simp add: vcos_generic_named_semaphore_create_def Let_def)
  ultimately show ?thesis using r by (intro exI [of _ ?t]) (simp add: sem_rep_def)
qed

lemma shared_ok_new:
  assumes sh: "shared_ok I A H C (ys @ zs)" and a: "map_of H h = None" "Suc (length H) < 2 ^ 32" "C n = None"
    and m: "m \<notin> set (ys @ zs)" "si_name (J m) = n" "si_refs (J m) = 1" "si_count (J m) = unat c"
    and same: "\<And>i. i \<in> set (ys @ zs) \<Longrightarrow> si_name (J i) = si_name (I i) \<and> si_refs (J i) = si_refs (I i) \<and> si_count (J i) = si_count (I i)"
  shows "shared_ok J (A(h \<mapsto> m)) ((h, n) # H) (C(n \<mapsto> unat c)) (ys @ m # zs)"
proof -
  have H: "h \<notin> fst ` set H" using a(1) by (simp add: map_of_eq_None_iff)
  have dom: "dom C = (\<lambda>i. si_name (I i)) ` set (ys @ zs)" using sh by (simp add: shared_ok_def)
  then have new: "si_name (I i) \<noteq> n" if "i \<in> set (ys @ zs)" for i using that a(3) by (metis domIff image_eqI)
  have "n \<notin> snd ` set H" using names_in_use [OF sh] new by (metis imageE)
  then have cnt: "count_list (map snd H) n = 0" by (simp add: count_list_0_iff)
  have img: "(\<lambda>i. si_name (J i)) ` set (ys @ m # zs) = insert n ((\<lambda>i. si_name (I i)) ` set (ys @ zs))"
    using same m(2) by (auto simp: image_iff)
  have "\<forall>(k, l)\<in>set ((h, n) # H). \<exists>i\<in>set (ys @ m # zs). (A(h \<mapsto> m)) k = Some i \<and> si_name (J i) = l"
  proof (safe)
    fix k l assume kl: "(k, l) \<in> set ((h, n) # H)"
    show "\<exists>i\<in>set (ys @ m # zs). (A(h \<mapsto> m)) k = Some i \<and> si_name (J i) = l"
    proof (cases "(k, l) = (h, n)")
      case True
      then show ?thesis using m(2) by auto
    next
      case False
      then have "(k, l) \<in> set H" "k \<noteq> h" using kl H by (auto simp: image_iff)
      then obtain i where "i \<in> set (ys @ zs)" "A k = Some i" "si_name (I i) = l" using sh unfolding shared_ok_def by fastforce
      then show ?thesis using same \<open>k \<noteq> h\<close> by (intro bexI [of _ i]) auto
    qed
  qed
  moreover have "\<forall>i\<in>set (ys @ m # zs). unat (si_refs (J i)) = count_list (map snd ((h, n) # H)) (si_name (J i)) \<and> 0 < si_refs (J i) \<and>
     (C(n \<mapsto> unat c)) (si_name (J i)) = Some (si_count (J i))"
  proof
    fix i assume i: "i \<in> set (ys @ m # zs)"
    show "unat (si_refs (J i)) = count_list (map snd ((h, n) # H)) (si_name (J i)) \<and> 0 < si_refs (J i) \<and>
     (C(n \<mapsto> unat c)) (si_name (J i)) = Some (si_count (J i))"
    proof (cases "i = m")
      case True
      then show ?thesis using m cnt by simp
    next
      case False
      then have "i \<in> set (ys @ zs)" using i by auto
      then show ?thesis using same [of i] new [of i] sh by (simp add: shared_ok_def)
    qed
  qed
  moreover have "dom (C(n \<mapsto> unat c)) = (\<lambda>i. si_name (J i)) ` set (ys @ m # zs)" unfolding img using dom by simp
  ultimately show ?thesis using sh H a(2) unfolding shared_ok_def by simp
qed

lemma by_name_insert:
  assumes b: "by_name I (ys @ zs)" and n: "nul_free n" "si_name (J m) = n"
    and o: "\<forall>i\<in>set ys. strcmp n (si_name (I i)) < 0" "\<forall>i\<in>set zs. strcmp (si_name (I i)) n < 0"
    and same: "\<And>i. i \<in> set (ys @ zs) \<Longrightarrow> si_name (J i) = si_name (I i)"
  shows "by_name J (ys @ m # zs)"
proof -
  have "by_name J (ys @ zs)" using b by_name_cong [of "ys @ zs" J I] same by simp
  then show ?thesis using n o same by (auto simp: by_name_def sorted_wrt_append)
qed

text \<open>A name that is not in use: its semaphore is a free block, linked in at its place.\<close>

lemma open_new:
  assumes r: "sem_rep cap H C s xs F" and a: "map_of H h = None" "nul_free n" "Suc (length H) < 2 ^ 32" "C n = None"
    "length (remdups (map snd H)) < cap" and len: "length n < VCOS_NAMED_SEMAPHORE_NAMELEN" and made: "creates s = True # bs"
  shows "\<exists>t ys F'. vcos_generic_named_semaphore_create h n c s = Some (VCOS_SUCCESS, t) \<and>
    sem_rep cap ((h, n) # H) (C(n \<mapsto> unat c)) t ys F' \<and> creates t = bs"
proof -
  have sh: "shared_ok (sem_impls s) (sem_handles s) H C xs" and b: "by_name (sem_impls s) xs" and l: "in_use_list s xs"
    and bl: "blocks_ok s cap xs F" and cnt: "sems_in_use_count s = int (length xs)" "sems_total_ref_count s = int (length H)"
    using r by (simp_all add: sem_rep_def)
  from search_names(2) [OF r a(2,4), of "- 1"] obtain ys zs c' where xs: "xs = ys @ zs"
    and f: "find_named n (sems_in_use s) (- 1) s = Some (first_of zs, c')" "zs \<noteq> [] \<longrightarrow> c' \<noteq> 0"
    and o: "\<forall>i\<in>set ys. strcmp n (si_name (sem_impls s i)) < 0" "\<forall>i\<in>set zs. strcmp (si_name (sem_impls s i)) n < 0" by blast
  have d: "distinct xs" using l by (simp add: in_use_list_def)
  have "length xs < cap" using length_in_use [OF sh b d] a(5) by simp
  then have "F 0 \<noteq> []" using bl by (auto simp: blocks_ok_def)
  then obtain k fs where F: "F 0 = k # fs" by (cases "F 0") auto
  have inv: "pool_inv (sems_pool s) s F" "0 < bp_num_subpools (sems_pool s)" "sp_start (bp_subpools (sems_pool s) 0) \<noteq> None"
    using bl by (simp_all add: blocks_ok_def)
  let ?o = "(owners s)(k := Owned 0)" and ?m = "k + 4"
  from calloc_first [OF inv F] obtain p where p: "vcos_generic_blockpool_calloc (sems_pool s) s = Some (Some ?m, p, s\<lparr>owners := ?o\<rparr>)"
    "pool_inv p (s\<lparr>owners := ?o\<rparr>) (F(0 := fs))" "k \<in> blocks_of (sems_pool s) 0" "blocks_of p 0 = blocks_of (sems_pool s) 0"
    "bp_num_subpools p = bp_num_subpools (sems_pool s)" "sp_start (bp_subpools p 0) \<noteq> None" "owners s k \<noteq> Owned 0" by blast
  have "k \<noteq> i - 4" if "i \<in> set xs" for i using that bl p(7) by (auto simp: blocks_ok_def)
  then have fresh: "?m \<notin> set xs" by fastforce
  define u where "u = (upd_impl ?m (\<lambda>d. d\<lparr>si_count := unat c, si_refs := 1, si_name := n\<rparr>)
      (upd_impl ?m (\<lambda>_. zero_impl) (s\<lparr>owners := ?o, sems_pool := p\<rparr>)\<lparr>creates := bs, sync := Semaphore ?m # sync s\<rparr>))
    \<lparr>sems_total_ref_count := sems_total_ref_count s + 1, sems_in_use_count := sems_in_use_count s + 1,
     sem_handles := (sem_handles s)(h \<mapsto> ?m)\<rparr>"
  have u: "sem_impls u i = (if i = ?m then zero_impl\<lparr>si_count := unat c, si_refs := 1, si_name := n\<rparr> else sem_impls s i)"
    "sems_in_use u = sems_in_use s" "sem_handles u = (sem_handles s)(h \<mapsto> ?m)" "sems_pool u = p" "owners u = ?o" "creates u = bs"
    "sems_total_ref_count u = sems_total_ref_count s + 1" "sems_in_use_count u = sems_in_use_count s + 1" for i
    by (simp_all add: u_def)
  have "in_use_list u xs = in_use_list s xs" by (rule in_use_list_cong) (use fresh in \<open>auto simp: u\<close>)
  then have "in_use_list u xs" using l by simp
  moreover have "si_next (sem_impls u ?m) = None" "si_prev (sem_impls u ?m) = None" by (simp_all add: u zero_impl_def)
  ultimately obtain t where t: "link_named ?m (first_of zs) u = Some t" "in_use_list t (ys @ ?m # zs)" "relinked u t"
    using link_named_spec [of u ys zs ?m] fresh xs by auto
  note rel = relinkedD [OF t(3)]
  have same: "si_name (sem_impls t i) = si_name (sem_impls s i) \<and> si_refs (sem_impls t i) = si_refs (sem_impls s i) \<and>
      si_count (sem_impls t i) = si_count (sem_impls s i)" if "i \<in> set (ys @ zs)" for i
    using that fresh xs by (auto simp: rel u)
  have m: "?m \<notin> set (ys @ zs)" "si_name (sem_impls t ?m) = n" "si_refs (sem_impls t ?m) = 1" "si_count (sem_impls t ?m) = unat c"
    using fresh xs by (simp_all add: rel u)
  have "vcos_generic_named_semaphore_create h n c s = new_named h n c (first_of zs) s"
    using f len by (cases zs) (simp_all add: vcos_generic_named_semaphore_create_def)
  also have "\<dots> = Some (VCOS_SUCCESS, t)"
    using p(1) t(1) made by (simp add: new_named_def vcos_create_made u_def [symmetric])
  finally have "vcos_generic_named_semaphore_create h n c s = Some (VCOS_SUCCESS, t)" .
  moreover have "shared_ok (sem_impls t) (sem_handles t) ((h, n) # H) (C(n \<mapsto> unat c)) (ys @ ?m # zs)"
    using shared_ok_new [OF sh [unfolded xs] a(1,3,4) m same] by (simp add: rel u)
  moreover have "by_name (sem_impls t) (ys @ ?m # zs)"
    using by_name_insert [where I = "sem_impls s" and J = "sem_impls t", OF b [unfolded xs] a(2) m(2) o] same by blast
  moreover have "blocks_ok t cap (ys @ ?m # zs) (F(0 := fs))"
  proof -
    have "owners t = owners (s\<lparr>owners := ?o\<rparr>)" by (simp add: rel u)
    from pool_inv_owners [OF this] have "pool_inv p t (F(0 := fs))" using p(2) by simp
    moreover have "4 \<le> i \<and> i - 4 \<in> blocks_of p 0 \<and> owners t (i - 4) = Owned 0" if "i \<in> set (ys @ ?m # zs)" for i
      using that bl p(3,4) xs by (auto simp: blocks_ok_def rel u)
    ultimately show ?thesis using bl F p(5,6) inv(2) xs by (simp add: blocks_ok_def rel u)
  qed
  ultimately show ?thesis using t(2) cnt xs
    by (intro exI [of _ t] exI [of _ "ys @ ?m # zs"] exI [of _ "F(0 := fs)"]) (simp add: sem_rep_def rel u)
qed

text \<open>Closing a handle: the association list loses it.\<close>

lemma filter_key: "k \<notin> fst ` set H \<Longrightarrow> filter (\<lambda>(j, _). j \<noteq> k) H = H"
  by (induction H) auto

lemma count_close:
  "distinct (map fst H) \<Longrightarrow> map_of H h = Some n \<Longrightarrow>
   count_list (map snd H) m = count_list (map snd (filter (\<lambda>(k, _). k \<noteq> h) H)) m + (if m = n then 1 else 0)"
proof (induction H)
  case (Cons x H)
  then show ?case by (cases x) (auto simp: filter_key split: if_splits)
qed simp

lemma length_close:
  "distinct (map fst H) \<Longrightarrow> map_of H h = Some n \<Longrightarrow> length H = Suc (length (filter (\<lambda>(k, _). k \<noteq> h) H))"
proof (induction H)
  case (Cons x H)
  then show ?case by (cases x) (auto simp: filter_key split: if_splits)
qed simp

lemma distinct_close: "distinct (map fst H) \<Longrightarrow> distinct (map fst (filter P H))"
  by (induction H) auto

lemma shared_okI:
  assumes "distinct (map fst H)" "length H < 2 ^ 32"
    and "\<And>k l. (k, l) \<in> set H \<Longrightarrow> \<exists>i\<in>set xs. A k = Some i \<and> si_name (I i) = l"
    and "\<And>i. i \<in> set xs \<Longrightarrow> unat (si_refs (I i)) = count_list (map snd H) (si_name (I i)) \<and> 0 < si_refs (I i) \<and>
       C (si_name (I i)) = Some (si_count (I i))"
    and "dom C = (\<lambda>i. si_name (I i)) ` set xs"
  shows "shared_ok I A H C xs"
  using assms unfolding shared_ok_def by blast

lemma shared_ok_close:
  assumes sh: "shared_ok I A H C xs" and b: "by_name I xs" and a: "map_of H h = Some n" and i: "i \<in> set xs" "si_name (I i) = n"
    and J: "\<And>j. si_name (J j) = si_name (I j) \<and> si_count (J j) = si_count (I j) \<and> si_refs (J j) = (if j = i then si_refs (I i) - 1 else si_refs (I j))"
    and A: "\<And>k. k \<noteq> h \<Longrightarrow> A' k = A k"
  defines "H' \<equiv> filter (\<lambda>(k, _). k \<noteq> h) H"
  shows "si_refs (I i) - 1 \<noteq> 0 \<Longrightarrow> n \<in> snd ` set H' \<and> shared_ok J A' H' C xs"
    and "si_refs (I i) - 1 = 0 \<Longrightarrow> xs = ys @ i # zs \<Longrightarrow> distinct xs \<Longrightarrow> n \<notin> snd ` set H' \<and> shared_ok J A' H' (C(n := None)) (ys @ zs)"
proof -
  have dist: "distinct (map fst H)" "length H < 2 ^ 32" using sh by (simp_all add: shared_ok_def)
  have cnt: "count_list (map snd H) m = count_list (map snd H') m + (if m = n then 1 else 0)" for m
    unfolding H'_def by (rule count_close [OF dist(1) a])
  have H': "distinct (map fst H')" "length H' < 2 ^ 32" using distinct_close [OF dist(1)] dist(2) le_less_trans [OF length_filter_le]
    by (auto simp: H'_def)
  have ri: "unat (si_refs (I i) - 1) = count_list (map snd H') n"
    using refs_pred [OF sh i(1)] cnt [of n] sh i by (simp add: shared_ok_def)
  have other: "si_name (I j) \<noteq> n" if "j \<in> set xs" "j \<noteq> i" for j using by_name_inj [OF b] i that by (metis inj_onD)
  have refs: "unat (si_refs (J j)) = count_list (map snd H') (si_name (J j))" if "j \<in> set xs" for j
    using that J [of j] ri i other [of j] cnt [of "si_name (I j)"] sh by (cases "j = i") (simp_all add: shared_ok_def)
  have hs: "\<exists>j\<in>set xs. A' k = Some j \<and> si_name (J j) = l" if "(k, l) \<in> set H'" for k l
    using that sh A J unfolding shared_ok_def H'_def by fastforce
  have n_in: "n \<in> snd ` set H' \<longleftrightarrow> 0 < count_list (map snd H') n" using count_list_0_iff [of "map snd H'" n] by auto
  have keep: "0 < si_refs (J j) \<and> C (si_name (J j)) = Some (si_count (J j))" if "j \<in> set xs" "j \<noteq> i" for j
    using that sh J [of j] by (simp add: shared_ok_def)
  {
    assume nz: "si_refs (I i) - 1 \<noteq> 0"
    then have "0 < si_refs (J i)" using J [of i] by (simp add: word_greater_zero_iff)
    moreover have "C (si_name (I i)) = Some (si_count (I i))" using sh i(1) by (simp add: shared_ok_def)
    then have "C (si_name (J i)) = Some (si_count (J i))" using J [of i] by simp
    moreover have "n \<in> snd ` set H'" using nz ri n_in by (metis gr0I unat_eq_zero)
    moreover have "dom C = (\<lambda>i. si_name (J i)) ` set xs" using sh J by (simp add: shared_ok_def)
    ultimately show "n \<in> snd ` set H' \<and> shared_ok J A' H' C xs"
      using H' hs refs keep by (intro conjI shared_okI) metis+
  next
    assume z: "si_refs (I i) - 1 = 0" and xs: "xs = ys @ i # zs" and d: "distinct xs"
    then have out: "n \<notin> snd ` set H'" using ri n_in by simp
    have sub: "j \<in> set xs \<and> j \<noteq> i" if "j \<in> set (ys @ zs)" for j using that xs d by auto
    have "\<exists>j\<in>set (ys @ zs). A' k = Some j \<and> si_name (J j) = l" if kl: "(k, l) \<in> set H'" for k l
    proof -
      obtain j where j: "j \<in> set xs" "A' k = Some j" "si_name (J j) = l" using hs [OF kl] by blast
      have "l \<noteq> n" using kl out by (metis image_eqI snd_conv)
      then have "j \<noteq> i" using j(3) J [of i] i(2) by auto
      then show ?thesis using j xs by auto
    qed
    moreover have "unat (si_refs (J j)) = count_list (map snd H') (si_name (J j)) \<and> 0 < si_refs (J j) \<and>
        (C(n := None)) (si_name (J j)) = Some (si_count (J j))" if "j \<in> set (ys @ zs)" for j
      using sub [OF that] refs [of j] keep [of j] other [of j] J [of j] by simp
    moreover have "dom (C(n := None)) = (\<lambda>j. si_name (J j)) ` set (ys @ zs)"
    proof -
      have "dom C = insert n ((\<lambda>j. si_name (J j)) ` set (ys @ zs))" using sh J i xs by (auto simp: shared_ok_def)
      moreover have "n \<notin> (\<lambda>j. si_name (J j)) ` set (ys @ zs)" using sub other J by fastforce
      ultimately show ?thesis by auto
    qed
    ultimately show "n \<notin> snd ` set H' \<and> shared_ok J A' H' (C(n := None)) (ys @ zs)"
      using H' out by (intro conjI shared_okI) blast+
  }
qed

lemma close_handle:
  assumes r: "sem_rep cap H C s xs F" and a: "map_of H h = Some n"
  defines "H' \<equiv> filter (\<lambda>(k, _). k \<noteq> h) H"
  shows "\<exists>t ys F'. vcos_named_semaphore_delete h s = Some t \<and> creates t = creates s \<and>
    sem_rep cap H' (if n \<in> snd ` set H' then C else C(n := None)) t ys F'"
proof -
  have sh: "shared_ok (sem_impls s) (sem_handles s) H C xs" and b: "by_name (sem_impls s) xs" and l: "in_use_list s xs"
    and bl: "blocks_ok s cap xs F" and cnt: "sems_in_use_count s = int (length xs)" "sems_total_ref_count s = int (length H)"
    using r by (simp_all add: sem_rep_def)
  have d: "distinct xs" using l by (simp add: in_use_list_def)
  have len: "length H = Suc (length H')" unfolding H'_def by (rule length_close [OF _ a]) (use sh in \<open>simp add: shared_ok_def\<close>)
  from handle_of [OF sh a] obtain i where i: "i \<in> set xs" "sem_handles s h = Some i" "si_name (sem_impls s i) = n" by blast
  define u where "u = upd_impl i (\<lambda>d. d\<lparr>si_refs := si_refs d - 1\<rparr>) (s\<lparr>sems_total_ref_count := sems_total_ref_count s - 1\<rparr>)"
  have u: "sem_impls u = (sem_impls s)(i := (sem_impls s i)\<lparr>si_refs := si_refs (sem_impls s i) - 1\<rparr>)"
    "sems_in_use u = sems_in_use s" "sem_handles u = sem_handles s" "sems_pool u = sems_pool s" "owners u = owners s" "creates u = creates s"
    "sems_total_ref_count u = sems_total_ref_count s - 1" "sems_in_use_count u = sems_in_use_count s"
    by (simp_all add: u_def)
  show ?thesis
  proof (cases "si_refs (sem_impls s i) - 1 = 0")
    case False
    then have "vcos_named_semaphore_delete h s = Some u"
      using i(2) by (simp add: vcos_named_semaphore_delete_def u_def)
    moreover have "n \<in> snd ` set H' \<and> shared_ok (sem_impls u) (sem_handles u) H' C xs"
      unfolding H'_def by (rule shared_ok_close(1) [OF sh b a i(1,3) _ _ False]) (simp_all add: u)
    moreover have "in_use_list u xs = in_use_list s xs" by (rule in_use_list_cong) (simp_all add: u)
    moreover have "by_name (sem_impls u) xs = by_name (sem_impls s) xs" by (rule by_name_cong) (simp add: u)
    moreover have "blocks_ok u cap xs F = blocks_ok s cap xs F" by (rule blocks_ok_cong) (simp_all add: u)
    ultimately show ?thesis using l b bl cnt len
      by (intro exI [of _ u] exI [of _ xs] exI [of _ F]) (simp add: sem_rep_def u)
  next
    case True
    obtain ys zs where xs: "xs = ys @ i # zs" using i(1) by (meson split_list)
    define v where "v = u\<lparr>sems_in_use_count := sems_in_use_count u - 1\<rparr>"
    have v: "sem_impls v = sem_impls u" "sems_in_use v = sems_in_use s" "sem_handles v = sem_handles s" "sems_pool v = sems_pool s"
      "owners v = owners s" "creates v = creates s" "sems_total_ref_count v = sems_total_ref_count s - 1"
      "sems_in_use_count v = sems_in_use_count s - 1" by (simp_all add: v_def u)
    have "in_use_list v xs = in_use_list s xs" by (rule in_use_list_cong) (simp_all add: v u)
    then have "in_use_list v (ys @ i # zs)" using l xs by simp
    note w = unlink_named_spec [OF this] and rel = relinkedD [OF unlink_named_spec(2) [OF this]]
    define w where "w = unlink_named i v"
    define x where "x = (vcos_delete (Semaphore i) w)\<lparr>sem_handles := (sem_handles w)(h := None)\<rparr>"
    have x: "sem_impls x = sem_impls w" "sems_in_use x = sems_in_use w" "sem_handles x = (sem_handles s)(h := None)" "sems_pool x = sems_pool s"
      "owners x = owners s" "creates x = creates s" "sems_total_ref_count x = sems_total_ref_count s - 1"
      "sems_in_use_count x = sems_in_use_count s - 1"
      by (simp_all add: x_def w_def vcos_delete_def rel v)
    have inv: "pool_inv (sems_pool s) x F" "0 < bp_num_subpools (sems_pool s)" "sp_start (bp_subpools (sems_pool s) 0) \<noteq> None"
      and blk: "4 \<le> i" "i - 4 \<in> blocks_of (sems_pool s) 0" "owners x (i - 4) = Owned 0"
      using bl i(1) pool_inv_owners [OF x(5), of "sems_pool s" F] by (simp_all add: blocks_ok_def x)
    from free_first [OF inv blk] obtain p y where p: "vcos_generic_blockpool_free (Some i) (sems_pool s) x =
        Some (p, x\<lparr>owners := (owners x)(i - 4 := Next y)\<rparr>)"
      "pool_inv p (x\<lparr>owners := (owners x)(i - 4 := Next y)\<rparr>) (F(0 := (i - 4) # F 0))" "blocks_of p 0 = blocks_of (sems_pool s) 0"
      "bp_num_subpools p = bp_num_subpools (sems_pool s)" "sp_start (bp_subpools p 0) \<noteq> None" by blast
    define t where "t = x\<lparr>owners := (owners x)(i - 4 := Next y), sems_pool := p\<rparr>"
    have t: "sem_impls t = sem_impls w" "sems_in_use t = sems_in_use w" "sem_handles t = (sem_handles s)(h := None)" "sems_pool t = p"
      "owners t = (owners s)(i - 4 := Next y)" "creates t = creates s" "sems_total_ref_count t = sems_total_ref_count s - 1"
      "sems_in_use_count t = sems_in_use_count s - 1"
      by (simp_all add: t_def x)
    have one: "si_refs (sem_impls s i) = 1" using True by simp
    have eq: "(vcos_delete (Semaphore i) w)\<lparr>sem_handles := (sem_handles (vcos_delete (Semaphore i) w))(h := None)\<rparr> = x"
      by (simp add: x_def vcos_delete_def)
    have pw: "sems_pool (vcos_delete (Semaphore i) w) = sems_pool s" by (simp add: vcos_delete_def w_def rel v)
    have "vcos_named_semaphore_delete h s = Some t" using i(2) p(1) one
      by (simp add: vcos_named_semaphore_delete_def u_def [symmetric] v_def [symmetric] w_def [symmetric] Let_def eq pw t_def)
    moreover have wi: "si_name (sem_impls w j) = si_name (sem_impls s j) \<and> si_count (sem_impls w j) = si_count (sem_impls s j) \<and>
        si_refs (sem_impls w j) = (if j = i then si_refs (sem_impls s i) - 1 else si_refs (sem_impls s j))" for j
      by (simp add: w_def rel v) (simp add: u)
    moreover have "n \<notin> snd ` set H' \<and> shared_ok (sem_impls t) (sem_handles t) H' (C(n := None)) (ys @ zs)"
      unfolding H'_def by (rule shared_ok_close(2) [OF sh b a i(1,3) _ _ True xs d]) (simp_all add: t wi)
    moreover have "by_name (sem_impls t) (ys @ zs)"
    proof -
      have "by_name (sem_impls s) (ys @ zs)" using b xs by (auto simp: by_name_def sorted_wrt_append)
      then show ?thesis using by_name_cong [of "ys @ zs" "sem_impls t" "sem_impls s"] by (simp add: t wi)
    qed
    moreover have "in_use_list t (ys @ zs)"
      using w(1) in_use_list_cong [of t w "ys @ zs"] by (simp add: t w_def)
    moreover have "blocks_ok t cap (ys @ zs) (F(0 := (i - 4) # F 0))"
    proof -
      have "owners t = owners (x\<lparr>owners := (owners x)(i - 4 := Next y)\<rparr>)" by (simp add: t x)
      from pool_inv_owners [OF this] have "pool_inv p t (F(0 := (i - 4) # F 0))" using p(2) by simp
      moreover have "4 \<le> j \<and> j - 4 \<in> blocks_of p 0 \<and> owners t (j - 4) = Owned 0" if "j \<in> set (ys @ zs)" for j
      proof -
        have j: "j \<in> set xs" "j \<noteq> i" using that xs d by auto
        then have "4 \<le> j" "j - 4 \<in> blocks_of p 0" "owners s (j - 4) = Owned 0" using bl p(3) by (simp_all add: blocks_ok_def)
        moreover have "j - 4 \<noteq> i - 4" using calculation(1) blk(1) j(2) by simp
        ultimately show ?thesis by (simp add: t)
      qed
      ultimately show ?thesis using bl p(4,5) inv(2) xs by (simp add: blocks_ok_def t)
    qed
    ultimately show ?thesis using cnt len xs
      by (intro exI [of _ t] exI [of _ "ys @ zs"] exI [of _ "F(0 := (i - 4) # F 0)"]) (simp add: sem_rep_def t)
  qed
qed

text \<open>Waiting and posting change the count of the name.\<close>

lemma count_handle:
  assumes r: "sem_rep cap H C s xs F" and a: "map_of H h = Some n" and i: "i \<in> set xs" "si_name (sem_impls s i) = n"
  shows "sem_rep cap H (C(n \<mapsto> c)) (upd_impl i (\<lambda>d. d\<lparr>si_count := c\<rparr>) s) xs F"
proof -
  let ?t = "upd_impl i (\<lambda>d. d\<lparr>si_count := c\<rparr>) s"
  have sh: "shared_ok (sem_impls s) (sem_handles s) H C xs" and b: "by_name (sem_impls s) xs" using r by (simp_all add: sem_rep_def)
  have nm: "si_name (sem_impls ?t j) = si_name (sem_impls s j)" "si_refs (sem_impls ?t j) = si_refs (sem_impls s j)" for j by simp_all
  have "shared_ok (sem_impls ?t) (sem_handles ?t) H (C(n \<mapsto> c)) xs"
  proof (rule shared_okI)
    fix j assume j: "j \<in> set xs"
    have "j = i \<or> si_name (sem_impls s j) \<noteq> n" using by_name_inj [OF b] i j by (metis inj_onD)
    moreover have "unat (si_refs (sem_impls s j)) = count_list (map snd H) (si_name (sem_impls s j)) \<and> 0 < si_refs (sem_impls s j) \<and>
      C (si_name (sem_impls s j)) = Some (si_count (sem_impls s j))" using sh j by (simp add: shared_ok_def)
    ultimately show "unat (si_refs (sem_impls ?t j)) = count_list (map snd H) (si_name (sem_impls ?t j)) \<and> 0 < si_refs (sem_impls ?t j) \<and>
      (C(n \<mapsto> c)) (si_name (sem_impls ?t j)) = Some (si_count (sem_impls ?t j))" using i(2) by auto
  next
    fix k l assume "(k, l) \<in> set H"
    then show "\<exists>j\<in>set xs. sem_handles ?t k = Some j \<and> si_name (sem_impls ?t j) = l" unfolding nm using sh by (force simp: shared_ok_def)
  next
    have "n \<in> dom C" using sh i by (auto simp: shared_ok_def)
    then show "dom (C(n \<mapsto> c)) = (\<lambda>j. si_name (sem_impls ?t j)) ` set xs" unfolding nm using sh by (auto simp: shared_ok_def)
  qed (use sh in \<open>simp_all add: shared_ok_def\<close>)
  moreover have "in_use_list ?t xs = in_use_list s xs" by (rule in_use_list_cong) simp_all
  moreover have "by_name (sem_impls ?t) xs = by_name (sem_impls s) xs" by (rule by_name_cong) simp
  moreover have "blocks_ok ?t cap xs F = blocks_ok s cap xs F" by (rule blocks_ok_cong) simp_all
  ultimately show ?thesis using r by (simp add: sem_rep_def)
qed

lemma sem_step_refines:
  assumes r: "sem_rep cap H C s xs F" and a: "sem_allowed cap op (H, C)" and k: "creates s = replicate (Suc k) True"
  shows "case names_step op (H, C) of
      None \<Rightarrow> sem_step op s = None
    | Some (st, H', C') \<Rightarrow> \<exists>t ys F' k'. sem_step op s = Some (st, t) \<and> sem_rep cap H' C' t ys F' \<and> creates t = replicate k' True \<and> k \<le> k'"
proof (cases op)
  case (Open h n c)
  show ?thesis
  proof (cases "VCOS_NAMED_SEMAPHORE_NAMELEN \<le> length n")
    case True
    then show ?thesis using Open r k
      by (auto simp: vcos_generic_named_semaphore_create_def simp del: replicate_Suc intro!: exI [of _ s] exI [of _ xs] exI [of _ F] exI [of _ "Suc k"])
  next
    case False
    then have len: "length n < VCOS_NAMED_SEMAPHORE_NAMELEN" by simp
    show ?thesis
    proof (cases "C n")
      case (Some c')
      have "map_of H h = None" "nul_free n" "Suc (length H) < 2 ^ 32" "C n \<noteq> None" using a Open Some by auto
      then obtain t where "vcos_generic_named_semaphore_create h n c s = Some (VCOS_SUCCESS, t)" "sem_rep cap ((h, n) # H) C t xs F"
        "creates t = creates s" using open_shared [OF r _ _ _ _ len] by blast
      then show ?thesis using Open Some False k
        by (auto simp del: replicate_Suc intro!: exI [of _ xs] exI [of _ F] exI [of _ "Suc k"])
    next
      case None
      have "map_of H h = None" "nul_free n" "Suc (length H) < 2 ^ 32" "length (remdups (map snd H)) < cap" "creates s = True # replicate k True"
        using a Open None k by auto
      then obtain t ys F' where "vcos_generic_named_semaphore_create h n c s = Some (VCOS_SUCCESS, t)"
        "sem_rep cap ((h, n) # H) (C(n \<mapsto> unat c)) t ys F'" "creates t = replicate k True"
        using open_new [OF r _ _ _ None _ len] by blast
      then show ?thesis using Open None False by auto
    qed
  qed
next
  case (Close h)
  then obtain n where n: "map_of H h = Some n" using a by auto
  let ?H = "filter (\<lambda>(k, _). k \<noteq> h) H"
  let ?C = "if n \<in> snd ` set ?H then C else C(n := None)"
  from close_handle [OF r n] obtain t ys F' where t: "vcos_named_semaphore_delete h s = Some t" "creates t = creates s"
    "sem_rep cap ?H ?C t ys F'" by blast
  have ns: "names_step op (H, C) = Some (VCOS_SUCCESS, ?H, ?C)" unfolding Close by (simp only: names_step.simps n option.sel Let_def)
  have "sem_step op s = Some (VCOS_SUCCESS, t)" using t(1) by (simp add: Close)
  moreover have "creates t = replicate (Suc k) True" "k \<le> Suc k" using t(2) k by simp_all
  ultimately show ?thesis using t(3) unfolding ns option.case prod.case by blast
next
  case (Wait h)
  then obtain n where n: "map_of H h = Some n" using a by auto
  from handle_of [OF _ n] r obtain i where i: "i \<in> set xs" "sem_handles s h = Some i" "si_name (sem_impls s i) = n"
    "C n = Some (si_count (sem_impls s i))" unfolding sem_rep_def by blast
  from count_handle [OF r n i(1,3)] show ?thesis using Wait n i k
    by (auto simp: vcos_named_semaphore_wait_def vcos_semaphore_wait_def Let_def simp del: replicate_Suc
        intro!: exI [of _ xs] exI [of _ F] exI [of _ "Suc k"])
next
  case (Trywait h)
  then obtain n where n: "map_of H h = Some n" using a by auto
  from handle_of [OF _ n] r obtain i where i: "i \<in> set xs" "sem_handles s h = Some i" "si_name (sem_impls s i) = n"
    "C n = Some (si_count (sem_impls s i))" unfolding sem_rep_def by blast
  from count_handle [OF r n i(1,3)] show ?thesis using Trywait n i k r
    by (auto simp: vcos_named_semaphore_trywait_def vcos_semaphore_wait_def Let_def simp del: replicate_Suc
        intro!: exI [of _ xs] exI [of _ F] exI [of _ "Suc k"])
next
  case (Post h)
  then obtain n where n: "map_of H h = Some n" using a by auto
  from handle_of [OF _ n] r obtain i where i: "i \<in> set xs" "sem_handles s h = Some i" "si_name (sem_impls s i) = n"
    "C n = Some (si_count (sem_impls s i))" unfolding sem_rep_def by blast
  have "upd_impl i (\<lambda>d. d\<lparr>si_count := Suc (si_count d)\<rparr>) s = upd_impl i (\<lambda>d. d\<lparr>si_count := Suc (si_count (sem_impls s i))\<rparr>) s"
    by (simp add: upd_impl_def)
  then show ?thesis using count_handle [OF r n i(1,3), of "Suc (si_count (sem_impls s i))"] Post n i k
    by (auto simp: vcos_named_semaphore_post_def vcos_semaphore_post_def Let_def simp del: replicate_Suc
        intro!: exI [of _ xs] exI [of _ F] exI [of _ "Suc k"])
qed

fun sem_run :: "sem_op list \<Rightarrow> 'a sem_store_scheme \<Rightarrow> (vcos_status list \<times> 'a sem_store_scheme) option" where
  "sem_run [] s = Some ([], s)"
| "sem_run (op # ops) s = do { (r, s) \<leftarrow> sem_step op s; (rs, s) \<leftarrow> sem_run ops s; Some (r # rs, s) }"

fun names_run :: "sem_op list \<Rightarrow> names_state \<Rightarrow> (vcos_status list \<times> names_state) option" where
  "names_run [] st = Some ([], st)"
| "names_run (op # ops) st = do { (r, st) \<leftarrow> names_step op st; (rs, st) \<leftarrow> names_run ops st; Some (r # rs, st) }"

fun sems_allowed :: "nat \<Rightarrow> sem_op list \<Rightarrow> names_state \<Rightarrow> bool" where
  "sems_allowed cap [] st \<longleftrightarrow> True"
| "sems_allowed cap (op # ops) st \<longleftrightarrow> sem_allowed cap op st \<and>
     (case names_step op st of None \<Rightarrow> True | Some (r, st) \<Rightarrow> sems_allowed cap ops st)"

lemma sem_run_refines:
  "sem_rep cap H C s xs F \<Longrightarrow> sems_allowed cap ops (H, C) \<Longrightarrow> creates s = replicate k True \<Longrightarrow> length ops \<le> k \<Longrightarrow>
   case names_run ops (H, C) of
     None \<Rightarrow> sem_run ops s = None
   | Some (rs, H', C') \<Rightarrow> \<exists>t ys F'. sem_run ops s = Some (rs, t) \<and> sem_rep cap H' C' t ys F'"
proof (induction ops arbitrary: H C s xs F k)
  case Nil
  then show ?case by auto
next
  case (Cons op ops)
  then obtain j where j: "k = Suc j" "length ops \<le> j" by (cases k) auto
  have a: "sem_allowed cap op (H, C)" using Cons.prems(2) by simp
  have k: "creates s = replicate (Suc j) True" using Cons.prems(3) j(1) by simp
  note st = sem_step_refines [OF Cons.prems(1) a k]
  show ?case
  proof (cases "names_step op (H, C)")
    case None
    then show ?thesis using st by simp
  next
    case (Some x)
    obtain r H1 C1 where x: "x = (r, H1, C1)" by (metis prod_cases3)
    from st obtain t ys F' k' where t: "sem_step op s = Some (r, t)" "sem_rep cap H1 C1 t ys F'" "creates t = replicate k' True" "j \<le> k'"
      by (auto simp: Some x simp del: replicate_Suc)
    have "sems_allowed cap ops (H1, C1)" using Cons.prems(2) by (simp add: Some x)
    from Cons.IH [OF t(2) this t(3)] j(2) t(1,4) Some x show ?thesis by (fastforce split: option.splits)
  qed
qed


text \<open>
  C30: whatever handles are opened, used and closed, handles of one name share one count and handles of different names do not; a name
  that is opened again keeps its count, and starts afresh only after its last handle was closed.  A wait blocks exactly when the
  count of the name is zero, and every other operation returns.
\<close>

theorem vcos_named_semaphores_shared:
  assumes "sem_rep cap H C s xs F" "sems_allowed cap ops (H, C)" "creates s = replicate k True" "length ops \<le> k"
  shows "case names_run ops (H, C) of
      None \<Rightarrow> sem_run ops s = None
    | Some (rs, H', C') \<Rightarrow> \<exists>t ys F'. sem_run ops s = Some (rs, t) \<and> sem_rep cap H' C' t ys F'"
  by (rule sem_run_refines [OF assms])

text \<open>
  C31: when the semaphore of a new name cannot be made, the call fails and changes nothing that clients see, but the block that was
  taken for it is never given back: one name less can be in use from then on.
\<close>

theorem vcos_named_semaphore_create_leaks:
  assumes r: "sem_rep cap H C s xs F" and a: "nul_free n" "C n = None" "length xs < cap" and len: "length n < VCOS_NAMED_SEMAPHORE_NAMELEN"
    and made: "creates s = False # bs"
  shows "\<exists>t F'. vcos_generic_named_semaphore_create h n c s = Some (VCOS_ENOSPC, t) \<and> sem_rep (cap - 1) H C t xs F'"
proof -
  have bl: "blocks_ok s cap xs F" and l: "in_use_list s xs" using r by (simp_all add: sem_rep_def)
  from search_names(2) [OF r a(1,2), of "- 1"] obtain zs c' where
    f: "find_named n (sems_in_use s) (- 1) s = Some (first_of zs, c')" "zs \<noteq> [] \<longrightarrow> c' \<noteq> 0" by blast
  have "F 0 \<noteq> []" using bl a(3) by (auto simp: blocks_ok_def)
  then obtain k fs where F: "F 0 = k # fs" by (cases "F 0") auto
  have inv: "pool_inv (sems_pool s) s F" "0 < bp_num_subpools (sems_pool s)" "sp_start (bp_subpools (sems_pool s) 0) \<noteq> None"
    using bl by (simp_all add: blocks_ok_def)
  let ?o = "(owners s)(k := Owned 0)" and ?m = "k + 4"
  from calloc_first [OF inv F] obtain p where p: "vcos_generic_blockpool_calloc (sems_pool s) s = Some (Some ?m, p, s\<lparr>owners := ?o\<rparr>)"
    "pool_inv p (s\<lparr>owners := ?o\<rparr>) (F(0 := fs))" "blocks_of p 0 = blocks_of (sems_pool s) 0"
    "bp_num_subpools p = bp_num_subpools (sems_pool s)" "sp_start (bp_subpools p 0) \<noteq> None" "owners s k \<noteq> Owned 0" by blast
  have "k \<noteq> i - 4" if "i \<in> set xs" for i using that bl p(6) by (auto simp: blocks_ok_def)
  then have fresh: "?m \<notin> set xs" by fastforce
  define t where "t = (upd_impl ?m (\<lambda>_. zero_impl) (s\<lparr>owners := ?o, sems_pool := p\<rparr>))\<lparr>creates := bs\<rparr>"
  have t: "sem_impls t = (sem_impls s)(?m := zero_impl)" "sems_in_use t = sems_in_use s" "sem_handles t = sem_handles s" "sems_pool t = p"
    "owners t = ?o" "sems_total_ref_count t = sems_total_ref_count s" "sems_in_use_count t = sems_in_use_count s" by (simp_all add: t_def)
  have "vcos_generic_named_semaphore_create h n c s = Some (VCOS_ENOSPC, t)"
    using f len p(1) made
    by (cases zs) (simp_all add: vcos_generic_named_semaphore_create_def new_named_def vcos_create_def t_def)
  moreover have "in_use_list t xs = in_use_list s xs" by (rule in_use_list_cong) (use fresh in \<open>auto simp: t\<close>)
  moreover have "by_name (sem_impls t) xs = by_name (sem_impls s) xs" by (rule by_name_cong) (use fresh in \<open>auto simp: t\<close>)
  moreover have "shared_ok (sem_impls t) (sem_handles t) H C xs"
  proof (rule shared_okI)
    have same: "sem_impls t i = sem_impls s i" if "i \<in> set xs" for i using that fresh by (auto simp: t)
    have sh: "shared_ok (sem_impls s) (sem_handles s) H C xs" using r by (simp add: sem_rep_def)
    show "\<exists>i\<in>set xs. sem_handles t j = Some i \<and> si_name (sem_impls t i) = m" if "(j, m) \<in> set H" for j m
      using that sh same unfolding shared_ok_def t(3) by fastforce
    show "unat (si_refs (sem_impls t i)) = count_list (map snd H) (si_name (sem_impls t i)) \<and> 0 < si_refs (sem_impls t i) \<and>
       C (si_name (sem_impls t i)) = Some (si_count (sem_impls t i))" if "i \<in> set xs" for i
      using that sh same [OF that] by (simp add: shared_ok_def)
    show "dom C = (\<lambda>i. si_name (sem_impls t i)) ` set xs" "distinct (map fst H)" "length H < 2 ^ 32"
      using sh same by (simp_all add: shared_ok_def)
  qed
  moreover have "blocks_ok t (cap - 1) xs (F(0 := fs))"
  proof -
    have "owners t = owners (s\<lparr>owners := ?o\<rparr>)" by (simp add: t)
    from pool_inv_owners [OF this] have "pool_inv p t (F(0 := fs))" using p(2) by simp
    then show ?thesis using bl F p(3-5) inv(2) by (auto simp: blocks_ok_def t)
  qed
  ultimately show ?thesis using r by (intro exI [of _ t] exI [of _ "F(0 := fs)"]) (simp add: sem_rep_def t)
qed

section \<open>Initialisation\<close>

lemma fold_upd_subpool:
  "distinct is \<Longrightarrow> bp_subpools (fold (\<lambda>i. upd_subpool i g) is p) j = (if j \<in> set is then g (bp_subpools p j) else bp_subpools p j)"
  "bp_magic (fold (\<lambda>i. upd_subpool i g) is p) = bp_magic p" "bp_block_size (fold (\<lambda>i. upd_subpool i g) is p) = bp_block_size p"
  "bp_num_subpools (fold (\<lambda>i. upd_subpool i g) is p) = bp_num_subpools p"
  by (induction "is" arbitrary: p) auto

lemma chain_blocks_frame:
  "chain_blocks n st stride free s = (fl, t) \<Longrightarrow> t = (s :: 'a bp_store_scheme)\<lparr>owners := owners t\<rparr>"
proof (induction n arbitrary: st free s)
  case (Suc n)
  then have "t = (set_owner st (Next free) s)\<lparr>owners := owners t\<rparr>" by simp
  then show ?case by (simp add: set_owner_def)
qed simp

lemma subpool_init_frame:
  "vcos_generic_blockpool_subpool_init p i mem n s = (q, t) \<Longrightarrow> t = (s :: 'a bp_store_scheme)\<lparr>owners := owners t\<rparr>"
  by (auto simp: vcos_generic_blockpool_subpool_init_def Let_def split: prod.splits dest: chain_blocks_frame)

text \<open>After initialisation nothing is in use and \<open>NUM_SEMS\<close> blocks are free; the other subpools are not made yet.\<close>

lemma named_semaphore_init_rep:
  assumes mem: "pool_mem + 8 < 2 ^ 32" and made: "creates s = True # True # bs"
    and zero: "sems_in_use s = None" "sems_in_use_count s = 0" "sems_total_ref_count s = 0"
  shows "\<exists>t F. vcos_named_semaphore_init pool_mem s = Some (VCOS_SUCCESS, t) \<and> sem_rep 16 [] Map.empty t [] F \<and> creates t = bs"
proof -
  have stride: "block_stride sizeof_VCOS_NAMED_SEMAPHORE_IMPL_T 4 = 96" by code_simp
  let ?p0 = "(sems_pool s)\<lparr>bp_block_data_size := sizeof_VCOS_NAMED_SEMAPHORE_IMPL_T, bp_block_size := 96, bp_magic := True,
      bp_num_subpools := 1, bp_num_extension_blocks := 0, bp_align := 4, bp_subpools := (\<lambda>_. zero_subpool)\<rparr>"
  let ?s0 = "s\<lparr>creates := True # bs, sync := Mutex (bp_addr (sems_pool s)) # sync s\<rparr>"
  obtain p u where pu: "vcos_generic_blockpool_subpool_init ?p0 0 pool_mem NUM_SEMS ?s0 = (p, u)" by fastforce
  have init: "vcos_generic_blockpool_init (sems_pool s) NUM_SEMS sizeof_VCOS_NAMED_SEMAPHORE_IMPL_T pool_mem
      (VCOS_BLOCKPOOL_SIZE NUM_SEMS sizeof_VCOS_NAMED_SEMAPHORE_IMPL_T VCOS_BLOCKPOOL_ALIGN_DEFAULT) VCOS_BLOCKPOOL_ALIGN_DEFAULT s =
      (VCOS_SUCCESS, p, u)"
    using made pu stride by (simp add: vcos_generic_blockpool_init_def VCOS_BLOCKPOOL_ALIGN_DEFAULT_def vcos_create_made)
  have first: "pool_mem \<le> first_header pool_mem 4"
  proof -
    have w: "unat (word_of_nat pool_mem + sizeof_VCOS_BLOCKPOOL_HEADER_T :: u32) = pool_mem + 4"
      using mem by (simp add: sizeof_VCOS_BLOCKPOOL_HEADER_T_def unat_word_ariths unat_of_nat)
    have "unat (VCOS_BLOCKPOOL_ROUND_UP (word_of_nat pool_mem + sizeof_VCOS_BLOCKPOOL_HEADER_T) 4) = (pool_mem + 4 + 3) div 4 * 4"
      using unat_round_up [of "word_of_nat pool_mem + sizeof_VCOS_BLOCKPOOL_HEADER_T" 2] mem w by simp
    moreover have "pool_mem + 4 \<le> (pool_mem + 4 + 3) div 4 * 4" using round_up_nat(1) [of 4 "pool_mem + 4"] by simp
    ultimately show ?thesis by (simp add: first_header_def sizeof_VCOS_BLOCKPOOL_HEADER_T_def)
  qed
  let ?fs = "rev (map (\<lambda>k. first_header pool_mem 4 + k * 96) [0..<16])"
  have fit: "unat NUM_SEMS * unat (bp_block_size ?p0) < 2 ^ 32" by (simp add: NUM_SEMS_def)
  have fl: "sp_flags (bp_subpools ?p0 0) AND VCOS_BLOCKPOOL_SUBPOOL_FLAG_EXTENSION = 0" by (simp add: zero_subpool_def)
  have st: "(0 :: u32) < bp_block_size ?p0" and first': "pool_mem \<le> first_header pool_mem (bp_align ?p0)" using first by simp_all
  note si = subpool_init_inv [OF pu st fit first' fl]
  have sub: "subpool_inv p u 0 ?fs" "bp_magic p" "bp_num_subpools p = 1" "bp_block_size p = 96" using si(1,3-5) by (simp_all add: NUM_SEMS_def)
  have u: "u = ?s0\<lparr>owners := owners u\<rparr>" using subpool_init_frame [OF pu] .
  let ?g = "\<lambda>sp. sp\<lparr>sp_magic := True, sp_start := None, sp_mem := None\<rparr>"
  define q where "q = fold (\<lambda>i. upd_subpool i ?g) [1..<8] (p\<lparr>bp_num_subpools := 8, bp_num_extension_blocks := 70\<rparr>)"
  have div: "(MAX_SEMS - NUM_SEMS) div word_of_nat (VCOS_BLOCKPOOL_MAX_SUBPOOLS - 1) = 70" by code_simp
  have ext: "vcos_generic_blockpool_extend p (VCOS_BLOCKPOOL_MAX_SUBPOOLS - 1) 70 = (VCOS_SUCCESS, q)"
    using sub(3) by (simp add: vcos_generic_blockpool_extend_def VCOS_BLOCKPOOL_MAX_SUBPOOLS_def q_def)
  have q: "bp_subpools q j = (if j \<in> {1..<8} then ?g (bp_subpools p j) else bp_subpools p j)" "bp_magic q" "bp_num_subpools q = 8"
    "bp_block_size q = 96" for j
    using sub by (simp_all add: q_def fold_upd_subpool)
  have q0: "bp_subpools q 0 = bp_subpools p 0" "bp_block_size q = bp_block_size p" using q(1) [of 0] q(4) sub(4) by simp_all
  have "subpool_inv q u 0 ?fs" using sub(1) unfolding subpool_inv_def blocks_of_def q0 .
  have none: "blocks_of q j = {}" "sp_start (bp_subpools q j) = None" if "0 < j" "j < 8" for j
    using that by (simp_all add: blocks_of_def q)
  have inv: "pool_inv q u (\<lambda>_. ?fs)"
  proof -
    have "subpool_inv q u i ?fs" if "i < 8" "sp_start (bp_subpools q i) \<noteq> None" for i
      using that \<open>subpool_inv q u 0 ?fs\<close> none(2) [of i] by (cases "i = 0") auto
    moreover have "blocks_of q i \<inter> blocks_of q j = {}" if "i < 8" "j < 8" "i \<noteq> j" for i j
      using that none(1) [of i] none(1) [of j] by (cases "i = 0") auto
    ultimately show ?thesis by (auto simp: pool_inv_def q(2-4) VCOS_BLOCKPOOL_MAX_SUBPOOLS_def)
  qed
  define t where "t = u\<lparr>sems_pool := q, creates := bs, sync := Mutex 0 # sync u\<rparr>"
  have "creates u = True # bs" by (subst u) simp
  then have "vcos_named_semaphore_init pool_mem s = Some (VCOS_SUCCESS, t)"
    using init ext [unfolded One_nat_def] div [unfolded One_nat_def] by (simp add: vcos_named_semaphore_init_def vcos_create_made t_def)
  moreover have "sems_in_use u = None" "sems_in_use_count u = 0" "sems_total_ref_count u = 0" using zero by (subst u, simp)+
  moreover have "pool_inv q t (\<lambda>_. ?fs)" using inv pool_inv_owners [of t u q "\<lambda>_. ?fs"] by (simp add: t_def)
  moreover have "sp_start (bp_subpools q 0) \<noteq> None" using sub(1) by (auto simp: q subpool_inv_def Let_def)
  ultimately show ?thesis
    by (intro exI [of _ t] exI [of _ "\<lambda>_. ?fs"])
      (simp add: sem_rep_def in_use_list_def by_name_def shared_ok_def blocks_ok_def t_def q)
qed

section \<open>Examples\<close>

definition named_store :: "bool list \<Rightarrow> sem_store" where
  "named_store bs = \<lparr>mallocs = [], creates = True # True # bs, clock_readings = [], live = [], sync = [], owners = (\<lambda>_. Next None),
     sem_impls = (\<lambda>_. zero_impl), sem_handles = (\<lambda>_. None), sems_in_use = None, sems_in_use_count = 0, sems_total_ref_count = 0,
     sems_pool = demo_zero\<rparr>"

lemma named_store_ready:
  "\<exists>s F. vcos_named_semaphore_init 1000 (named_store bs) = Some (VCOS_SUCCESS, s) \<and> sem_rep 16 [] Map.empty s [] F \<and> creates s = bs"
  by (rule named_semaphore_init_rep) (simp_all add: named_store_def)

theorem vcos_named_semaphores_shared_witness:
  "\<exists>s t. vcos_named_semaphore_init 1000 (named_store (replicate 8 True)) = Some (VCOS_SUCCESS, s) \<and>
     sem_run [Open 1 ''a'' 1, Open 2 ''a'' 5, Wait 1, Trywait 2, Close 1, Close 2, Open 1 ''a'' 3, Trywait 1] s =
       Some ([VCOS_SUCCESS, VCOS_SUCCESS, VCOS_SUCCESS, VCOS_EAGAIN, VCOS_SUCCESS, VCOS_SUCCESS, VCOS_SUCCESS, VCOS_SUCCESS], t)"
proof -
  let ?ops = "[Open 1 ''a'' 1, Open 2 ''a'' 5, Wait 1, Trywait 2, Close 1, Close 2, Open 1 ''a'' 3, Trywait 1]"
  obtain s F where s: "vcos_named_semaphore_init 1000 (named_store (replicate 8 True)) = Some (VCOS_SUCCESS, s)"
    "sem_rep 16 [] Map.empty s [] F" "creates s = replicate 8 True" using named_store_ready by blast
  have "sems_allowed 16 ?ops ([], Map.empty)" by (simp add: VCOS_NAMED_SEMAPHORE_NAMELEN_def nul_free_def Let_def)
  from vcos_named_semaphores_shared [OF s(2) this s(3)] s(1) show ?thesis
    by (auto simp: VCOS_NAMED_SEMAPHORE_NAMELEN_def Let_def simp del: sem_run.simps)
qed

theorem vcos_named_semaphore_create_leaks_witness:
  "\<exists>s t F. vcos_named_semaphore_init 1000 (named_store [False]) = Some (VCOS_SUCCESS, s) \<and>
     vcos_generic_named_semaphore_create 1 ''a'' 1 s = Some (VCOS_ENOSPC, t) \<and> sem_rep 15 [] Map.empty t [] F"
proof -
  obtain s F where s: "vcos_named_semaphore_init 1000 (named_store [False]) = Some (VCOS_SUCCESS, s)"
    "sem_rep 16 [] Map.empty s [] F" "creates s = [False]" using named_store_ready by blast
  from vcos_named_semaphore_create_leaks [OF s(2) _ _ _ _ s(3), of "''a''" 1 1] s(1) show ?thesis
    by (auto simp: VCOS_NAMED_SEMAPHORE_NAMELEN_def nul_free_def)
qed

end
