(* ===== verification/Spec2Isabelle.thy ===== *)
theory Spec2Isabelle
  imports QueueThreads Clock Blockpool PortDisable ComponentLife ConnectionLife
    CircularBuffer ThreadPool GraphThread PassThrough Splitter MsgThreads EventFlags
    ReentrantMutex NamedSemaphore
begin

text \<open>
  \<^bold>\<open>RoboCupDetector, the multimedia layer and the frame pipeline\<close>

  \<^bold>\<open>The program.\<close>  A detector on a Raspberry Pi: \<^verbatim>\<open>rc::Camera\<close> grabs frames into a ring (\<^verbatim>\<open>src/src/RC_CircularBuffer.cpp\<close>), the
  threads of \<^verbatim>\<open>src/src/RC_Threads.cpp\<close> take them out.  The camera is driven by MMAL (\<^verbatim>\<open>src/raspicam/dependencies/mmal\<close>):
  components with ports, between which buffer headers travel.  A header is reference counted (\<^verbatim>\<open>core/mmal_buffer.c\<close>), waits in
  queues (\<^verbatim>\<open>core/mmal_queue.c\<close>) and comes from a pool to which its last release gives it back (\<^verbatim>\<open>core/mmal_pool.c\<close>).  Ports
  (\<^verbatim>\<open>core/mmal_port.c\<close>) hand headers to the module of their component, components (\<^verbatim>\<open>core/mmal_component.c\<close>) own ports and
  count references, connections (\<^verbatim>\<open>util/mmal_connection.c\<close>) join two ports, graphs (\<^verbatim>\<open>util/mmal_graph.c\<close>) move the buffers of
  many connections and can pose as one component.  Underneath lies VCOS (\<^verbatim>\<open>src/raspicam/dependencies/vcos\<close>): memory, semaphores,
  threads, block pools.

  \<^bold>\<open>The state.\<close>  A store is a record that each layer extends: blocks and synchronisation objects (\<^verbatim>\<open>Vcos.os_store\<close>), headers
  (\<^verbatim>\<open>bh_store\<close>), queues, pools, formats, ports with components and connections (\<^verbatim>\<open>mmal_store\<close>), graphs (\<^verbatim>\<open>graph_store\<close>); lists,
  the clock and block pools extend the base on their own.  A record per struct maps addresses to contents, and operations are
  polymorphic in what later layers add.  Whether an allocation or the creation of a synchronisation object succeeds is read
  off an oracle list in the store, so every failure path is a run of the model.  Function pointers are names whose meaning is
  an argument (\<^verbatim>\<open>port_env\<close>, \<^verbatim>\<open>graph_client\<close>): the modules of components and the callbacks of clients.  \<open>None\<close> stands for a call that
  does not come back or aborts: waiting on a semaphore nobody posts, an assertion, a loop without end.  Operations
  that hold one mutex throughout are one step; where the code gives a lock away in between, there is a step relation.

  \<^bold>\<open>Theories.\<close>
  \<^item> \<^verbatim>\<open>Prelude\<close>: types, status codes, word and list lemmas.  \<^verbatim>\<open>Vcos\<close>: aligned allocation, semaphores, deadlines.
  \<^item> \<^verbatim>\<open>Rational\<close> (\<^verbatim>\<open>util/mmal_util_rational.c\<close>): the gcd terminates and is the gcd, exact conversions to fixed point and back.
  \<^item> \<^verbatim>\<open>BufferHeader\<close>, \<^verbatim>\<open>BufferQueue\<close>, \<^verbatim>\<open>QueueThreads\<close>, \<^verbatim>\<open>BufferPool\<close>: releases return and give back what was taken, queues refine
    lists (locale \<^verbatim>\<open>fifo\<close>), threads on one queue do not deadlock, pools are created full and destroyed without a leak.
  \<^item> \<^verbatim>\<open>MmalList\<close> (\<^verbatim>\<open>util/mmal_list.c\<close>, locale \<^verbatim>\<open>deque\<close>) and \<^verbatim>\<open>Clock\<close> (\<^verbatim>\<open>core/mmal_clock.c\<close>): linked lists refine lists, requests are
    queued and served in due order, the media time does not drift.
  \<^item> \<^verbatim>\<open>Blockpool\<close> (\<^verbatim>\<open>vcos_generic_blockpool.c\<close>): blocks fit the memory, allocation and handles round trip.
  \<^item> \<^verbatim>\<open>MsgQueue\<close>, \<^verbatim>\<open>MsgThreads\<close> (\<^verbatim>\<open>vcos_msgqueue.c\<close>, locale \<^verbatim>\<open>channel\<close>): message queues refine lists, pools of messages refine stacks;
    threads deliver in order, one receiver never hangs, two can.  \<^verbatim>\<open>EventFlags\<close> (\<^verbatim>\<open>vcos_generic_event_flags.c\<close>): who is woken, once;
    \<^verbatim>\<open>ReentrantMutex\<close> (\<^verbatim>\<open>vcos_generic_reentrant_mtx.c\<close>): mutual exclusion although the owner is read without the lock.
    \<^verbatim>\<open>NamedSemaphore\<close> (\<^verbatim>\<open>vcos_generic_named_sem.c\<close>): handles opened under one name share a semaphore.
  \<^item> \<^verbatim>\<open>Format\<close> (\<^verbatim>\<open>core/mmal_format.c\<close>): copies compare equal, codec data have room.
  \<^item> \<^verbatim>\<open>PortData\<close>, \<^verbatim>\<open>PortAlloc\<close>, \<^verbatim>\<open>ComponentCore\<close>, \<^verbatim>\<open>Port\<close>, \<^verbatim>\<open>Component\<close>: the core, every port and component operation.  \<^verbatim>\<open>PortQueue\<close>:
    pausing keeps the order; \<^verbatim>\<open>PortDisable\<close>: disabling returns all buffers; \<^verbatim>\<open>ComponentLife\<close>: creation and destruction balance, a
    component lives while it is referenced.
  \<^item> \<^verbatim>\<open>Connection\<close>, \<^verbatim>\<open>ConnectionLife\<close>: connections; connected ports name each other.
  \<^item> \<^verbatim>\<open>Encodings\<close>, \<^verbatim>\<open>Util\<close>, \<^verbatim>\<open>ParamConvert\<close>: encodings, helpers and parsers.
  \<^item> \<^verbatim>\<open>GraphData\<close>, \<^verbatim>\<open>Graph\<close>, \<^verbatim>\<open>GraphComponent\<close>: graphs; \<^verbatim>\<open>GraphLife\<close>: tables, references and mirrored ports; \<^verbatim>\<open>CoreFrame\<close>: the
    locale \<^verbatim>\<open>keeping_env\<close>, what modules keep is kept by every operation of the core; \<^verbatim>\<open>GraphThread\<close>: the worker after a restart.
  \<^item> \<^verbatim>\<open>Modules\<close>, \<^verbatim>\<open>QueuedPorts\<close>: what the simple components share, and clients that note what they get back;
    \<^verbatim>\<open>PassThrough\<close> (\<^verbatim>\<open>components/passthrough.c\<close>): buffers are paired in order; \<^verbatim>\<open>Splitter\<close> (\<^verbatim>\<open>components/splitter.c\<close>): it refines a
    machine on lists, from which follows when every output gets a copy and when copies are lost.
  \<^item> \<^verbatim>\<open>CircularBuffer\<close> and \<^verbatim>\<open>ThreadPool\<close>: the frame ring delivers each frame at most once and in order; stopping the threads.

  \<^bold>\<open>Bounds.\<close>  Machine integers are words of the code's width, times are integers wrapped to 64 bits.  No fuel is used: loops
  recurse on data or have a measure, and those that may not end are partial functions into \<open>option\<close> whose termination is
  stated where it holds.

  \<^bold>\<open>Not modelled.\<close>  What only calls code outside the repository: the firmware interface (\<^verbatim>\<open>mmal/vc\<close>), the OpenMAX layer
  (\<^verbatim>\<open>mmal/openmaxil\<close>, \<^verbatim>\<open>util/mmal_il.c\<close>), codecs and renderers (\<^verbatim>\<open>mmal/components\<close>), the camera classes of raspicam, and the parts of the detector
  that call OpenCV, GTK and sockets.  Logging has no effect on the state and is left out.  Threads of the operating system
  appear as steps, mutexes as atomicity.
\<close>

end
